(* ===== verification/Prelude.thy ===== *)
theory Prelude
  imports Complex_Main "HOL-Library.Word" "HOL-Library.AList" "HOL-Library.Multiset"
begin

unbundle bit_operations_syntax

text \<open>
  What the components share: the error values that stand for Python's exceptions and the
  sequencing of fallible steps, and bytes and their bits. Collections of rewrite rules:
  \<open>result_simps\<close> for fallible code, \<open>dict_simps\<close> for dictionaries, \<open>text_simps\<close> for
  strings, \<open>codec_simps\<close> for byte encodings.
\<close>

named_theorems result_simps
named_theorems dict_simps
named_theorems text_simps
named_theorems codec_simps

section \<open>Errors as values\<close>

text \<open>
  One constructor per exception class the scripts raise or let through. \<open>FloatSpecial\<close> is not
  an exception of Python: it marks the point where \<open>float(...)\<close> would return an infinity or
  a NaN, values the real-number model of floats does not have.
\<close>

datatype py_error =
    ValueError | KeyError | IndexError | TypeError | StructError | ZeroDivisionError
  | StatisticsError | AssertionError | OverflowError | FileNotFoundError | IsADirectoryError
  | FileExistsError | NotADirectoryError | AttributeError | RuntimeError string | SystemExit string | TimeoutError | CalledProcessError | FloatSpecial

type_synonym 'a result = "py_error + 'a"

definition rbind :: "'a result \<Rightarrow> ('a \<Rightarrow> 'b result) \<Rightarrow> 'b result" where
  "rbind r f = (case r of Inl e \<Rightarrow> Inl e | Inr x \<Rightarrow> f x)"

lemma rbind_Inl [simp, result_simps]: "rbind (Inl e) f = Inl e"
  and rbind_Inr [simp, result_simps]: "rbind (Inr x) f = f x"
  by (simp_all add: rbind_def)

lemma rbind_eq_Inr [result_simps]: "rbind r f = Inr y \<longleftrightarrow> (\<exists>x. r = Inr x \<and> f x = Inr y)"
  by (cases r) auto

lemma rbind_eq_Inl [result_simps]:
  "rbind r f = Inl e \<longleftrightarrow> r = Inl e \<or> (\<exists>x. r = Inr x \<and> f x = Inl e)"
  by (cases r) auto

definition ok :: "'a result \<Rightarrow> bool" where
  "ok r = (case r of Inl _ \<Rightarrow> False | Inr _ \<Rightarrow> True)"

lemma ok_simps [simp]: "ok (Inr x)" "\<not> ok (Inl e)"
  by (simp_all add: ok_def)

lemma ok_iff: "ok r \<longleftrightarrow> (\<exists>x. r = Inr x)"
  by (cases r) auto

text \<open>A comprehension over a body that may raise: the first error ends it.\<close>

fun rmap :: "('a \<Rightarrow> 'b result) \<Rightarrow> 'a list \<Rightarrow> 'b list result" where
  "rmap f [] = Inr []"
| "rmap f (x # xs) = rbind (f x) (\<lambda>y. rbind (rmap f xs) (\<lambda>ys. Inr (y # ys)))"

lemma rmap_Inr: "(\<And>x. x \<in> set xs \<Longrightarrow> f x = Inr (g x)) \<Longrightarrow> rmap f xs = Inr (map g xs)"
  by (induction xs) auto

lemma rmap_length: "rmap f xs = Inr ys \<Longrightarrow> length ys = length xs"
  by (induction xs arbitrary: ys) (auto simp: result_simps)

lemma rmap_nth: "rmap f xs = Inr ys \<Longrightarrow> i < length xs \<Longrightarrow> f (xs ! i) = Inr (ys ! i)"
proof (induction xs arbitrary: ys i)
  case (Cons x xs)
  then show ?case by (cases i) (auto simp: result_simps)
qed simp

lemma rmap_map: "rmap f (map g xs) = rmap (f \<circ> g) xs"
  by (induction xs) simp_all

lemma rmap_append:
  "rmap f (xs @ ys) = rbind (rmap f xs) (\<lambda>us. rbind (rmap f ys) (\<lambda>vs. Inr (us @ vs)))"
proof (induction xs)
  case Nil
  then show ?case by (cases "rmap f ys") auto
next
  case (Cons x xs)
  then show ?case by (cases "f x"; cases "rmap f xs"; cases "rmap f ys") auto
qed

text \<open>A \<open>for\<close> loop that threads a state through a body that may raise.\<close>

fun rfold :: "('a \<Rightarrow> 's \<Rightarrow> 's result) \<Rightarrow> 'a list \<Rightarrow> 's \<Rightarrow> 's result" where
  "rfold f [] s = Inr s"
| "rfold f (x # xs) s = rbind (f x s) (rfold f xs)"

lemma rfold_append: "rfold f (xs @ ys) s = rbind (rfold f xs s) (rfold f ys)"
  by (induction xs arbitrary: s) (auto simp: rbind_def split: sum.splits)

lemma rfold_invariant:
  assumes "\<And>x s s'. x \<in> set xs \<Longrightarrow> P s \<Longrightarrow> f x s = Inr s' \<Longrightarrow> P s'"
    and "P s" and "rfold f xs s = Inr s'"
  shows "P s'"
  using assms by (induction xs arbitrary: s) (auto simp: result_simps)

section \<open>Bytes\<close>

type_synonym byte = "8 word"
type_synonym bytes = "byte list"

definition byte_of_nat :: "nat \<Rightarrow> byte" where
  "byte_of_nat n = word_of_nat n"

lemma unat_byte_lt [simp]: "unat (b :: byte) < 256"
  using unsigned_less [of b, where 'a = nat] by simp

lemma unat_byte_of_nat [simp]: "unat (byte_of_nat n) = n mod 256"
  by (simp add: byte_of_nat_def unat_of_nat)

lemma byte_of_nat_unat [simp]: "byte_of_nat (unat b) = b"
  by (simp add: byte_of_nat_def)

text \<open>\<open>value.bit_count()\<close> of a byte, and the sum of it over the bytes of a window.\<close>

definition bit_count :: "byte \<Rightarrow> nat" where
  "bit_count b = length (filter (bit b) [0..<8])"

lemma bit_count_le: "bit_count b \<le> 8"
  using length_filter_le [of "bit b" "[0..<8]"] by (simp add: bit_count_def)

lemma bit_count_card: "bit_count b = card {i. i < 8 \<and> bit b i}"
proof -
  have "bit_count b = card (set (filter (bit b) [0..<8]))"
    unfolding bit_count_def by (rule distinct_card [symmetric]) simp
  also have "set (filter (bit b) [0..<8]) = {i. i < 8 \<and> bit b i}"
    by auto
  finally show ?thesis .
qed

lemma bit_count_xor_comm: "bit_count (a XOR b) = bit_count (b XOR a)"
  by (simp add: xor.commute)

lemma bit_count_0 [simp]: "bit_count 0 = 0"
  by (simp add: bit_count_card)

lemma bit_count_eq_0 [simp]: "bit_count b = 0 \<longleftrightarrow> b = 0"
proof
  assume "bit_count b = 0"
  then have "\<not> bit b i" if "i < 8" for i
    using that by (auto simp: bit_count_def filter_empty_conv)
  then show "b = 0"
    by (intro bit_word_eqI) simp
qed simp

lemma bit_count_xor_triangle: "bit_count (a XOR c) \<le> bit_count (a XOR b) + bit_count (b XOR c)"
proof -
  have "{i. i < 8 \<and> bit (a XOR c) i}
      \<subseteq> {i. i < 8 \<and> bit (a XOR b) i} \<union> {i. i < 8 \<and> bit (b XOR c) i}"
    by (auto simp: bit_xor_iff)
  then have "card {i. i < 8 \<and> bit (a XOR c) i}
      \<le> card ({i. i < 8 \<and> bit (a XOR b) i} \<union> {i. i < 8 \<and> bit (b XOR c) i})"
    by (intro card_mono) auto
  also have "\<dots> \<le> card {i. i < 8 \<and> bit (a XOR b) i} + card {i. i < 8 \<and> bit (b XOR c) i}"
    by (rule card_Un_le)
  finally show ?thesis by (simp add: bit_count_card)
qed

text \<open>The pieces of a list, put together again.\<close>

lemma concat_pieces:
  "0 < n \<Longrightarrow> concat (map (\<lambda>k. take n (drop (n * k) w)) [0..<m]) = take (n * m) w"
proof (induction m)
  case (Suc m)
  then show ?case by (simp add: take_add [symmetric] mult_Suc_right add.commute)
qed simp

end
