(* ===== verification/PyDict.thy ===== *)
theory PyDict
  imports Prelude
begin

text \<open>
  Python dictionaries: an insertion-ordered association list with the operations the scripts
  use, the locale \<open>kv_store\<close> of key-value laws that the clients rely on, and its
  interpretation on the dictionary operations (qualifier \<open>dict\<close>).
\<close>

section \<open>Dictionaries\<close>

text \<open>
  A Python dict keeps its insertion order, and storing under a key it already has keeps the
  key's place: an association list with distinct keys, stored with \<open>AList.update\<close>.
\<close>

type_synonym ('k, 'v) dict = "('k \<times> 'v) list"

definition dict_get :: "('k, 'v) dict \<Rightarrow> 'k \<Rightarrow> 'v option" where
  "dict_get d k = map_of d k"

definition dict_set :: "'k \<Rightarrow> 'v \<Rightarrow> ('k, 'v) dict \<Rightarrow> ('k, 'v) dict" where
  "dict_set k v d = AList.update k v d"

definition dict_pop :: "'k \<Rightarrow> ('k, 'v) dict \<Rightarrow> ('k, 'v) dict" where
  "dict_pop k d = AList.delete k d"

definition dict_keys :: "('k, 'v) dict \<Rightarrow> 'k list" where
  "dict_keys d = map fst d"

definition dict_ok :: "('k, 'v) dict \<Rightarrow> bool" where
  "dict_ok d = distinct (map fst d)"

definition dict_in :: "'k \<Rightarrow> ('k, 'v) dict \<Rightarrow> bool" where
  "dict_in k d = (dict_get d k \<noteq> None)"

text \<open>\<open>d.setdefault(k, v)\<close>, \<open>d.update(e)\<close>, \<open>d.get(k, v)\<close> and \<open>d[k]\<close>.\<close>

definition dict_setdefault :: "'k \<Rightarrow> 'v \<Rightarrow> ('k, 'v) dict \<Rightarrow> ('k, 'v) dict" where
  "dict_setdefault k v d = (if dict_in k d then d else dict_set k v d)"

definition dict_update :: "('k, 'v) dict \<Rightarrow> ('k, 'v) dict \<Rightarrow> ('k, 'v) dict" where
  "dict_update d e = fold (\<lambda>(k, v). dict_set k v) e d"

definition dict_get_or :: "('k, 'v) dict \<Rightarrow> 'k \<Rightarrow> 'v \<Rightarrow> 'v" where
  "dict_get_or d k v = (case dict_get d k of None \<Rightarrow> v | Some x \<Rightarrow> x)"

definition dict_item :: "('k, 'v) dict \<Rightarrow> 'k \<Rightarrow> 'v result" where
  "dict_item d k = (case dict_get d k of None \<Rightarrow> Inl KeyError | Some x \<Rightarrow> Inr x)"

text \<open>
  The laws of a key-value store. The clients below look keys up after stores and removals
  only through these laws.
\<close>

locale kv_store =
  fixes empty :: "'m" and get :: "'m \<Rightarrow> 'k \<Rightarrow> 'v option"
    and put :: "'k \<Rightarrow> 'v \<Rightarrow> 'm \<Rightarrow> 'm" and del :: "'k \<Rightarrow> 'm \<Rightarrow> 'm"
    and invar :: "'m \<Rightarrow> bool"
  assumes get_empty: "get empty k = None"
    and get_put: "get (put k v m) j = (if j = k then Some v else get m j)"
    and get_del: "invar m \<Longrightarrow> get (del k m) j = (if j = k then None else get m j)"
    and invar_empty: "invar empty"
    and invar_put: "invar m \<Longrightarrow> invar (put k v m)"
    and invar_del: "invar m \<Longrightarrow> invar (del k m)"
begin

lemma get_put_same: "get (put k v m) k = Some v"
  by (simp add: get_put)

lemma get_put_other: "j \<noteq> k \<Longrightarrow> get (put k v m) j = get m j"
  by (simp add: get_put)

lemma put_put: "get (put k v (put k w m)) = get (put k v m)"
  by (rule ext) (simp add: get_put)

lemma put_commute: "j \<noteq> k \<Longrightarrow> get (put j v (put k w m)) = get (put k w (put j v m))"
  by (rule ext) (simp add: get_put)

text \<open>Storing every entry of a list: the last store under a key is the one that stays.\<close>

lemma get_fold_put:
  "get (fold (\<lambda>(k, v). put k v) kvs m) j =
     (case map_of (rev kvs) j of Some v \<Rightarrow> Some v | None \<Rightarrow> get m j)"
  by (induction kvs arbitrary: m) (auto simp: get_put map_add_def split: option.splits)

lemma get_fold_put_distinct:
  assumes "distinct (map fst kvs)" and "(k, v) \<in> set kvs"
  shows "get (fold (\<lambda>(k, v). put k v) kvs m) k = Some v"
proof -
  have "map_of (rev kvs) k = Some v"
    using assms by (intro map_of_is_SomeI) (simp_all flip: rev_map)
  then show ?thesis by (simp add: get_fold_put)
qed

text \<open>So the order in which distinct keys are stored cannot be observed.\<close>

lemma get_fold_put_perm:
  assumes "distinct (map fst kvs)" and "mset kvs = mset kvs'"
  shows "get (fold (\<lambda>(k, v). put k v) kvs m) = get (fold (\<lambda>(k, v). put k v) kvs' m)"
proof -
  have "distinct (map fst kvs')"
    using assms by (metis mset_eq_imp_distinct_iff mset_map)
  moreover have "set kvs = set kvs'"
    using assms(2) by (rule mset_eq_setD)
  ultimately have "map_of (rev kvs) = map_of (rev kvs')"
    using assms(1) by (subst map_of_inject_set) (simp_all flip: rev_map)
  then show ?thesis by (auto simp: get_fold_put)
qed

lemma invar_fold_put: "invar m \<Longrightarrow> invar (fold (\<lambda>(k, v). put k v) kvs m)"
  by (induction kvs arbitrary: m) (auto intro: invar_put)

end

interpretation dict: kv_store "[]" dict_get dict_set dict_pop dict_ok
  by unfold_locales
    (auto simp: dict_get_def dict_set_def dict_pop_def dict_ok_def update_conv' delete_conv'
       distinct_update distinct_delete)

lemmas dict_laws [simp, dict_simps] =
  dict.get_empty dict.get_put dict.invar_empty dict.invar_put dict.invar_del

lemma dict_pop_get [simp]: "dict_get (dict_pop k d) j = (if j = k then None else dict_get d j)"
  by (auto simp: dict_get_def dict_pop_def delete_conv')

lemma dict_in_set [simp]: "dict_in j (dict_set k v d) \<longleftrightarrow> j = k \<or> dict_in j d"
  by (simp add: dict_in_def)

lemma dict_in_pop [simp]: "dict_in j (dict_pop k d) \<longleftrightarrow> j \<noteq> k \<and> dict_in j d"
  by (simp add: dict_in_def)

lemma dict_in_keys: "dict_in k d \<longleftrightarrow> k \<in> set (dict_keys d)"
  by (auto simp: dict_in_def dict_get_def dict_keys_def map_of_eq_None_iff)

lemma dict_item_Inr [simp, dict_simps]: "dict_item d k = Inr v \<longleftrightarrow> dict_get d k = Some v"
  by (simp add: dict_item_def split: option.splits)

lemma dict_item_Inl [simp, dict_simps]: "dict_item d k = Inl e \<longleftrightarrow> e = KeyError \<and> dict_get d k = None"
  by (auto simp: dict_item_def split: option.splits)

lemma dict_get_or_set [simp, dict_simps]:
  "dict_get_or (dict_set k v d) j w = (if j = k then v else dict_get_or d j w)"
  by (simp add: dict_get_or_def)

lemma dict_keys_set:
  "dict_keys (dict_set k v d) = (if dict_in k d then dict_keys d else dict_keys d @ [k])"
  by (auto simp: dict_keys_def dict_set_def dict_in_keys update_keys)

lemma dict_setdefault_get [simp, dict_simps]:
  "dict_get (dict_setdefault k v d) j =
     (if j = k \<and> dict_get d k = None then Some v else dict_get d j)"
  by (auto simp: dict_setdefault_def dict_in_def)

lemma dict_update_get:
  "dict_ok e \<Longrightarrow> dict_get (dict_update d e) k =
     (case dict_get e k of Some v \<Rightarrow> Some v | None \<Rightarrow> dict_get d k)"
proof -
  assume "dict_ok e"
  then have "map_of (rev e) = map_of e"
    by (subst map_of_inject_set) (simp_all add: dict_ok_def flip: rev_map)
  then show ?thesis
    by (simp add: dict_update_def dict.get_fold_put dict_get_def [of e])
qed

lemma dict_ok_update: "dict_ok d \<Longrightarrow> dict_ok (dict_update d e)"
  unfolding dict_update_def by (rule dict.invar_fold_put)

end
