(* ===== verification/Codec.thy ===== *)
theory Codec
  imports PyDict
begin

text \<open>
  \<open>struct.pack\<close> and \<open>struct.unpack\<close> for the formats the scripts use: unsigned integers of a
  fixed width in both byte orders, signed 32-bit little-endian integers and fixed byte strings.
  The locale \<open>fixed_codec\<close> is the contract of a fixed-width encoding; its lemmas on sequences of
  encoded values are used through the interpretations at the end.
\<close>

section \<open>Integers as bytes\<close>

fun le_bytes :: "nat \<Rightarrow> nat \<Rightarrow> bytes" where
  "le_bytes 0 n = []"
| "le_bytes (Suc w) n = byte_of_nat n # le_bytes w (n div 256)"

lemma le_bytes_numeral:
  "le_bytes (numeral k) n = byte_of_nat n # le_bytes (pred_numeral k) (n div 256)"
  by (simp only: numeral_eq_Suc [of k] le_bytes.simps)

fun le_value :: "bytes \<Rightarrow> nat" where
  "le_value [] = 0"
| "le_value (b # bs) = unat b + 256 * le_value bs"

definition be_bytes :: "nat \<Rightarrow> nat \<Rightarrow> bytes" where
  "be_bytes w n = rev (le_bytes w n)"

definition be_value :: "bytes \<Rightarrow> nat" where
  "be_value bs = le_value (rev bs)"

lemma length_le_bytes [simp]: "length (le_bytes w n) = w"
  by (induction w arbitrary: n) auto

lemma length_be_bytes [simp]: "length (be_bytes w n) = w"
  by (simp add: be_bytes_def)

lemma le_value_le_bytes [codec_simps]: "le_value (le_bytes w n) = n mod 256 ^ w"
proof (induction w arbitrary: n)
  case (Suc w)
  have "n mod 256 + 256 * (n div 256 mod 256 ^ w) = n mod (256 * 256 ^ w)"
    by (simp add: mod_mult2_eq)
  with Suc show ?case by simp
qed simp

lemma le_value_bound: "le_value bs < 256 ^ length bs"
proof (induction bs)
  case (Cons b bs)
  have "unat b + 256 * le_value bs < 256 * (1 + le_value bs)" by simp
  also have "\<dots> \<le> 256 * 256 ^ length bs" using Cons by (intro mult_le_mono) auto
  finally show ?case by simp
qed simp

lemma le_bytes_le_value [codec_simps]: "length bs = w \<Longrightarrow> le_bytes w (le_value bs) = bs"
proof (induction bs arbitrary: w)
  case (Cons b bs)
  moreover have "byte_of_nat (unat b + 256 * le_value bs) = b"
    by (metis byte_of_nat_unat mod_less mod_mult_self2 unat_byte_lt unat_byte_of_nat)
  ultimately show ?case by auto
qed simp

lemma be_value_be_bytes [codec_simps]: "be_value (be_bytes w n) = n mod 256 ^ w"
  by (simp add: be_value_def be_bytes_def le_value_le_bytes)

lemma be_bytes_be_value [codec_simps]: "length bs = w \<Longrightarrow> be_bytes w (be_value bs) = bs"
  by (simp add: be_value_def be_bytes_def le_bytes_le_value)

lemma be_value_bound: "be_value bs < 256 ^ length bs"
  using le_value_bound [of "rev bs"] by (simp add: be_value_def)

text \<open>Signed 32-bit integers in two's complement.\<close>

definition s32_bytes :: "int \<Rightarrow> bytes" where
  "s32_bytes i = le_bytes 4 (nat (i mod 2 ^ 32))"

definition s32_value :: "bytes \<Rightarrow> int" where
  "s32_value bs = (let n = int (le_value bs) in if n < 2 ^ 31 then n else n - 2 ^ 32)"

definition s32_range :: "int \<Rightarrow> bool" where
  "s32_range i = (- (2 ^ 31) \<le> i \<and> i < 2 ^ 31)"

lemma length_s32_bytes [simp]: "length (s32_bytes i) = 4"
  by (simp add: s32_bytes_def)

lemma s32_value_bytes [codec_simps]: "s32_range i \<Longrightarrow> s32_value (s32_bytes i) = i"
proof -
  assume r: "s32_range i"
  have "le_value (s32_bytes i) = nat (i mod 2 ^ 32)"
    by (simp add: s32_bytes_def le_value_le_bytes nat_mod_distrib)
  moreover have "i mod 2 ^ 32 = (if i < 0 then i + 2 ^ 32 else i)"
  proof (cases "i < 0")
    case True
    then have "(i + 2 ^ 32) mod 2 ^ 32 = i + 2 ^ 32"
      using r by (intro mod_pos_pos_trivial) (auto simp: s32_range_def)
    with True show ?thesis by simp
  next
    case False
    then show ?thesis using r by (simp add: s32_range_def mod_pos_pos_trivial)
  qed
  ultimately show ?thesis
    using r by (auto simp: s32_value_def s32_range_def Let_def)
qed

lemma s32_bytes_value [codec_simps]: "length bs = 4 \<Longrightarrow> s32_bytes (s32_value bs) = bs"
proof -
  assume l: "length bs = 4"
  have "le_value bs < 2 ^ 32"
    using le_value_bound [of bs] l by simp
  then have "nat (s32_value bs mod 2 ^ 32) = le_value bs"
    by (auto simp: s32_value_def Let_def nat_eq_iff mod_pos_pos_trivial minus_mod_self2)
  then show ?thesis
    using l by (simp add: s32_bytes_def le_bytes_le_value)
qed

lemma s32_value_range: "length bs = 4 \<Longrightarrow> s32_range (s32_value bs)"
  using le_value_bound [of bs] by (auto simp: s32_value_def s32_range_def Let_def)

text \<open>
  Packing one field: the value is checked against the width, as \<open>struct.pack\<close> does, and a
  byte string field is cut or padded with zero bytes to its size.
\<close>

definition fits :: "nat \<Rightarrow> int \<Rightarrow> bool" where
  "fits w i = (0 \<le> i \<and> i < 256 ^ w)"

definition pack_le :: "nat \<Rightarrow> int \<Rightarrow> bytes result" where
  "pack_le w i = (if fits w i then Inr (le_bytes w (nat i)) else Inl StructError)"

definition pack_be :: "nat \<Rightarrow> int \<Rightarrow> bytes result" where
  "pack_be w i = (if fits w i then Inr (be_bytes w (nat i)) else Inl StructError)"

definition pack_s32 :: "int \<Rightarrow> bytes result" where
  "pack_s32 i = (if s32_range i then Inr (s32_bytes i) else Inl StructError)"

definition pack_bytes :: "nat \<Rightarrow> bytes \<Rightarrow> bytes" where
  "pack_bytes n bs = take n (bs @ replicate n 0)"

definition unpack_le :: "bytes \<Rightarrow> int" where
  "unpack_le bs = int (le_value bs)"

definition unpack_be :: "bytes \<Rightarrow> int" where
  "unpack_be bs = int (be_value bs)"

lemma length_pack_bytes [simp]: "length (pack_bytes n bs) = n"
  by (simp add: pack_bytes_def)

lemma pack_bytes_same [simp]: "length bs = n \<Longrightarrow> pack_bytes n bs = bs"
  by (simp add: pack_bytes_def)

lemma unpack_le_bytes [codec_simps]: "fits w i \<Longrightarrow> unpack_le (le_bytes w (nat i)) = i"
  by (auto simp: fits_def unpack_le_def le_value_le_bytes nat_less_iff)

lemma unpack_be_bytes [codec_simps]: "fits w i \<Longrightarrow> unpack_be (be_bytes w (nat i)) = i"
  by (auto simp: fits_def unpack_be_def be_value_be_bytes nat_less_iff)

lemma fits_unpack_le: "length bs = w \<Longrightarrow> fits w (unpack_le bs)"
  using le_value_bound [of bs] by (auto simp: fits_def unpack_le_def simp flip: of_nat_less_iff)

lemma fits_unpack_be: "length bs = w \<Longrightarrow> fits w (unpack_be bs)"
  using be_value_bound [of bs] by (auto simp: fits_def unpack_be_def simp flip: of_nat_less_iff)

lemma le_bytes_unpack [codec_simps]: "length bs = w \<Longrightarrow> le_bytes w (nat (unpack_le bs)) = bs"
  by (simp add: unpack_le_def le_bytes_le_value)

lemma be_bytes_unpack [codec_simps]: "length bs = w \<Longrightarrow> be_bytes w (nat (unpack_be bs)) = bs"
  by (simp add: unpack_be_def be_bytes_be_value)

lemma pack_le_Inr [simp]: "pack_le w i = Inr bs \<longleftrightarrow> fits w i \<and> bs = le_bytes w (nat i)"
  by (auto simp: pack_le_def)

lemma pack_be_Inr [simp]: "pack_be w i = Inr bs \<longleftrightarrow> fits w i \<and> bs = be_bytes w (nat i)"
  by (auto simp: pack_be_def)

lemma pack_s32_Inr [simp]: "pack_s32 i = Inr bs \<longleftrightarrow> s32_range i \<and> bs = s32_bytes i"
  by (auto simp: pack_s32_def)

section \<open>Sequences of fixed-width values\<close>

text \<open>\<open>struct.unpack(\"<\" + \"I\" * n, data)\<close>: as many whole values as the data has.\<close>

function unpack_seq :: "nat \<Rightarrow> (bytes \<Rightarrow> 'a) \<Rightarrow> bytes \<Rightarrow> 'a list" where
  "unpack_seq w d bs = (if w = 0 \<or> length bs < w then [] else d (take w bs) # unpack_seq w d (drop w bs))"
  by pat_completeness auto
termination
  by (relation "measure (\<lambda>(w, d, bs). length bs)") auto

declare unpack_seq.simps [simp del]

lemma unpack_seq_Nil [simp]: "0 < w \<Longrightarrow> unpack_seq w d [] = []"
  by (subst unpack_seq.simps) simp

lemma unpack_seq_append:
  "0 < w \<Longrightarrow> length x = w \<Longrightarrow> unpack_seq w d (x @ bs) = d x # unpack_seq w d bs"
  by (subst unpack_seq.simps) simp

lemma unpack_seq_take:
  "0 < w \<Longrightarrow> unpack_seq w d (take (length bs div w * w) bs) = unpack_seq w d bs"
proof (induction w d bs rule: unpack_seq.induct)
  case (1 w d bs)
  show ?case
  proof (cases "length bs < w")
    case True
    then show ?thesis by (simp add: unpack_seq.simps [of w d bs])
  next
    case False
    define q where "q = (length bs - w) div w"
    have q: "length bs div w = Suc q"
      using False "1.prems" by (simp add: q_def le_div_geq)
    have "take (Suc q * w) bs = take w bs @ take (q * w) (drop w bs)"
      by (simp add: take_add)
    then have "unpack_seq w d (take (Suc q * w) bs)
        = d (take w bs) # unpack_seq w d (take (q * w) (drop w bs))"
      using False "1.prems" by (simp add: unpack_seq_append)
    also have "unpack_seq w d (take (q * w) (drop w bs)) = unpack_seq w d (drop w bs)"
      using "1.IH" "1.prems" False by (simp add: q_def)
    finally show ?thesis
      using False "1.prems" by (simp add: q unpack_seq.simps [of w d bs])
  qed
qed

text \<open>The contract of a fixed-width encoding, and what follows for sequences of values.\<close>

locale fixed_codec =
  fixes w :: nat and enc :: "'a \<Rightarrow> bytes" and dec :: "bytes \<Rightarrow> 'a" and valid :: "'a \<Rightarrow> bool"
  assumes width_pos: "0 < w"
    and enc_width: "length (enc x) = w"
    and dec_enc: "valid x \<Longrightarrow> dec (enc x) = x"
    and enc_dec: "length bs = w \<Longrightarrow> enc (dec bs) = bs"
    and dec_valid: "length bs = w \<Longrightarrow> valid (dec bs)"
begin

lemma enc_inject: "valid x \<Longrightarrow> valid y \<Longrightarrow> enc x = enc y \<Longrightarrow> x = y"
  using dec_enc by metis

lemma length_concat_enc: "length (concat (map enc xs)) = w * length xs"
  by (induction xs) (simp_all add: enc_width)

lemma unpack_concat:
  "list_all valid xs \<Longrightarrow> unpack_seq w dec (concat (map enc xs)) = xs"
  by (induction xs) (simp_all add: width_pos unpack_seq_append enc_width dec_enc)

lemma unpack_concat_trailing:
  "list_all valid xs \<Longrightarrow> length r < w \<Longrightarrow> unpack_seq w dec (concat (map enc xs) @ r) = xs"
proof (induction xs)
  case Nil
  then show ?case by (simp add: unpack_seq.simps [of w dec r])
qed (simp_all add: width_pos unpack_seq_append enc_width dec_enc)

lemma concat_unpack:
  "length bs = w * n \<Longrightarrow> concat (map enc (unpack_seq w dec bs)) = bs"
proof (induction n arbitrary: bs)
  case 0
  then show ?case by (simp add: width_pos)
next
  case (Suc n)
  then have "bs = take w bs @ drop w bs" and t: "length (take w bs) = w"
    and d: "length (drop w bs) = w * n" by simp_all
  moreover have "unpack_seq w dec (take w bs @ drop w bs) = dec (take w bs) # unpack_seq w dec (drop w bs)"
    by (rule unpack_seq_append [OF width_pos t])
  ultimately show ?case using Suc.IH [OF d] enc_dec [OF t] by simp
qed

end

lemma length_unpack_seq: "0 < w \<Longrightarrow> length (unpack_seq w d bs) = length bs div w"
proof (induction w d bs rule: unpack_seq.induct)
  case (1 w d bs)
  then show ?case
    by (cases "length bs < w") (simp_all add: unpack_seq.simps [of w d bs] le_div_geq)
qed

interpretation u32le: fixed_codec 4 "\<lambda>i. le_bytes 4 (nat i)" unpack_le "fits 4"
  by unfold_locales (auto simp: codec_simps fits_unpack_le)

interpretation s32le: fixed_codec 4 s32_bytes s32_value s32_range
  by unfold_locales (auto simp: codec_simps s32_value_range)

interpretation u16be: fixed_codec 2 "\<lambda>i. be_bytes 2 (nat i)" unpack_be "fits 2"
  by unfold_locales (auto simp: codec_simps fits_unpack_be)

interpretation u32be: fixed_codec 4 "\<lambda>i. be_bytes 4 (nat i)" unpack_be "fits 4"
  by unfold_locales (auto simp: codec_simps fits_unpack_be)

interpretation u64be: fixed_codec 8 "\<lambda>i. be_bytes 8 (nat i)" unpack_be "fits 8"
  by unfold_locales (auto simp: codec_simps fits_unpack_be)

end
