(* ===== verification/Protocol.thy ===== *)
theory Protocol
  imports Codec
begin

text \<open>
  The contract between the two ends of a datagram protocol: one end builds a datagram from a
  message, the other parses it. The lemmas about whole exchanges are proved here once and used
  through the interpretations on the collector's, the stimulus sender's and the capsule
  server's formats.
\<close>

locale datagram_protocol =
  fixes build :: "'m \<Rightarrow> bytes result" and parse :: "bytes \<Rightarrow> 'm option"
    and valid :: "'m \<Rightarrow> bool"
  assumes build_valid: "valid m \<Longrightarrow> \<exists>d. build m = Inr d"
    and parse_build: "valid m \<Longrightarrow> build m = Inr d \<Longrightarrow> parse d = Some m"
begin

lemma build_inject: "valid m \<Longrightarrow> valid m' \<Longrightarrow> build m = Inr d \<Longrightarrow> build m' = Inr d \<Longrightarrow> m = m'"
  by (metis parse_build option.inject)

lemma roundtrip: "valid m \<Longrightarrow> \<exists>d. build m = Inr d \<and> parse d = Some m"
  using build_valid parse_build by blast

text \<open>What is sent is what is received, in the same order.\<close>

lemma parse_all: "list_all valid ms \<Longrightarrow> rmap build ms = Inr ds \<Longrightarrow> map parse ds = map Some ms"
  by (induction ms arbitrary: ds) (auto simp: result_simps parse_build)

lemma build_all: "list_all valid ms \<Longrightarrow> \<exists>ds. rmap build ms = Inr ds"
proof (induction ms)
  case (Cons m ms)
  then obtain ds where "rmap build ms = Inr ds" by auto
  moreover obtain d where "build m = Inr d" using Cons.prems build_valid by auto
  ultimately show ?case by simp
qed simp

end

text \<open>A protocol whose parser accepts nothing that the builder would not have produced.\<close>

locale canonical_protocol = datagram_protocol +
  assumes build_parse: "parse d = Some m \<Longrightarrow> build m = Inr d"
    and parse_valid: "parse d = Some m \<Longrightarrow> valid m"
begin

lemma parse_inject: "parse d = Some m \<Longrightarrow> parse d' = Some m \<Longrightarrow> d = d'"
  by (metis build_parse sum.inject(2))

lemma parse_Some_iff: "parse d = Some m \<longleftrightarrow> valid m \<and> build m = Inr d"
  using parse_build build_parse parse_valid by blast

end

text \<open>The bytes of one field of a packet.\<close>

definition field_at :: "nat \<Rightarrow> nat \<Rightarrow> bytes \<Rightarrow> bytes" where
  "field_at off w d = take w (drop off d)"

lemma length_field_at [simp]: "off + w \<le> length d \<Longrightarrow> length (field_at off w d) = w"
  by (simp add: field_at_def)

lemma field_at_append_left [codec_simps]:
  "off + w \<le> length a \<Longrightarrow> field_at off w (a @ b) = field_at off w a"
  by (simp add: field_at_def)

lemma field_at_append_right [codec_simps]:
  "length a \<le> off \<Longrightarrow> field_at off w (a @ b) = field_at (off - length a) w b"
  by (simp add: field_at_def)

lemma field_at_all [codec_simps]: "length a = w \<Longrightarrow> field_at 0 w a = a"
  by (simp add: field_at_def)

lemma field_at_split: "field_at off w d @ drop (off + w) d = drop off d"
  by (metis add.commute append_take_drop_id drop_drop field_at_def)

end
