(* ===== verification/PyText.thy ===== *)
theory PyText
  imports PyDict
begin

text \<open>
  Python text as the scripts use it. A \<open>string\<close> is a list of code points below 256, so ASCII
  and Latin-1 text is exact; a code point above 255 read from a log or a datagram is folded to
  one substitute character (see \<open>decode_utf8\<close>). Here: white space, \<open>strip\<close>, \<open>split\<close>,
  \<open>splitlines\<close>, \<open>startswith\<close>, \<open>in\<close>, \<open>int\<close>, \<open>float\<close>, decimal and hexadecimal
  printing, \<open>bytes.fromhex\<close> and \<open>.hex()\<close>, with the round trips between them.
\<close>

section \<open>Characters\<close>

definition code :: "char \<Rightarrow> nat" where
  "code c = of_char c"

definition is_space :: "char \<Rightarrow> bool" where
  "is_space c = (let n = code c in (9 \<le> n \<and> n \<le> 13) \<or> (28 \<le> n \<and> n \<le> 32) \<or> n = 133 \<or> n = 160)"

definition is_ascii_space :: "char \<Rightarrow> bool" where
  "is_ascii_space c = (let n = code c in (9 \<le> n \<and> n \<le> 13) \<or> n = 32)"

definition is_digit_char :: "char \<Rightarrow> bool" where
  "is_digit_char c = (let n = code c in 48 \<le> n \<and> n \<le> 57)"

text \<open>
  \<open>str.isdigit()\<close>: non-empty, and every character a digit. It also accepts the superscripts
  two, three and one of Latin-1, which \<open>int\<close> does not read.
\<close>

definition isdigit :: "string \<Rightarrow> bool" where
  "isdigit s = (s \<noteq> [] \<and> list_all (\<lambda>c. is_digit_char c \<or> code c \<in> {178, 179, 185}) s)"

lemma code_lt [simp]: "code c < 256"
  by (simp add: code_def)

lemma char_of_code [simp]: "char_of (code c) = c"
  by (simp add: code_def)

lemma code_char_of [simp]: "code (char_of (n :: nat)) = n mod 256"
  by (simp add: code_def)

section \<open>Stripping and splitting\<close>

definition lstrip :: "string \<Rightarrow> string" where
  "lstrip s = dropWhile is_space s"

definition rstrip :: "string \<Rightarrow> string" where
  "rstrip s = rev (dropWhile is_space (rev s))"

definition strip :: "string \<Rightarrow> string" where
  "strip s = rstrip (lstrip s)"

text \<open>\<open>s.split()\<close>: the maximal runs of characters that are not white space.\<close>

fun split_ws_aux :: "string \<Rightarrow> string \<Rightarrow> string list" where
  "split_ws_aux acc [] = (if acc = [] then [] else [rev acc])"
| "split_ws_aux acc (c # cs) =
     (if is_space c then (if acc = [] then split_ws_aux [] cs else rev acc # split_ws_aux [] cs)
      else split_ws_aux (c # acc) cs)"

definition split_ws :: "string \<Rightarrow> string list" where
  "split_ws s = split_ws_aux [] s"

text \<open>\<open>s.split(sep)\<close> for a one-character separator, and \<open>s.split(sep, 1)\<close> as a pair.\<close>

fun split_aux :: "char \<Rightarrow> string \<Rightarrow> string \<Rightarrow> string list" where
  "split_aux sep acc [] = [rev acc]"
| "split_aux sep acc (c # cs) =
     (if c = sep then rev acc # split_aux sep [] cs else split_aux sep (c # acc) cs)"

definition split_on :: "char \<Rightarrow> string \<Rightarrow> string list" where
  "split_on sep s = split_aux sep [] s"

definition split1 :: "char \<Rightarrow> string \<Rightarrow> (string \<times> string) option" where
  "split1 sep s =
     (if sep \<in> set s then Some (takeWhile (\<lambda>c. c \<noteq> sep) s, tl (dropWhile (\<lambda>c. c \<noteq> sep) s)) else None)"

text \<open>\<open>str.splitlines()\<close>; a carriage return and a line feed together end one line.\<close>

definition is_line_break :: "char \<Rightarrow> bool" where
  "is_line_break c = (let n = code c in (10 \<le> n \<and> n \<le> 13) \<or> (28 \<le> n \<and> n \<le> 30) \<or> n = 133)"

fun splitlines_aux :: "string \<Rightarrow> string \<Rightarrow> string list" where
  "splitlines_aux acc [] = (if acc = [] then [] else [rev acc])"
| "splitlines_aux acc [c] =
     (if is_line_break c then [rev acc] else [rev (c # acc)])"
| "splitlines_aux acc (c # d # cs) =
     (if code c = 13 \<and> code d = 10 then rev acc # splitlines_aux [] cs
      else if is_line_break c then rev acc # splitlines_aux [] (d # cs)
      else splitlines_aux (c # acc) (d # cs))"

definition splitlines :: "string \<Rightarrow> string list" where
  "splitlines s = splitlines_aux [] s"

definition startswith :: "string \<Rightarrow> string \<Rightarrow> bool" where
  "startswith s p = (take (length p) s = p)"

definition endswith :: "string \<Rightarrow> string \<Rightarrow> bool" where
  "endswith s p = (length p \<le> length s \<and> drop (length s - length p) s = p)"

text \<open>\<open>s.find(p)\<close> as an option, \<open>p in s\<close>, and what follows the first occurrence.\<close>

fun find_sub :: "'a list \<Rightarrow> 'a list \<Rightarrow> nat option" where
  "find_sub p [] = (if p = [] then Some 0 else None)"
| "find_sub p (c # cs) =
     (if take (length p) (c # cs) = p then Some 0 else map_option Suc (find_sub p cs))"

definition contains :: "'a list \<Rightarrow> 'a list \<Rightarrow> bool" where
  "contains s p = (find_sub p s \<noteq> None)"

definition after_first :: "'a list \<Rightarrow> 'a list \<Rightarrow> 'a list" where
  "after_first p s = (case find_sub p s of None \<Rightarrow> [] | Some i \<Rightarrow> drop (i + length p) s)"

definition replace_char :: "char \<Rightarrow> string \<Rightarrow> string \<Rightarrow> string" where
  "replace_char c r s = concat (map (\<lambda>d. if d = c then r else [d]) s)"

fun join :: "'a list \<Rightarrow> 'a list list \<Rightarrow> 'a list" where
  "join sep [] = []"
| "join sep [x] = x"
| "join sep (x # y # xs) = x @ sep @ join sep (y # xs)"

section \<open>Facts about the string functions\<close>

lemma startswith_append [simp, text_simps]: "startswith (p @ s) p"
  by (simp add: startswith_def)

lemma startswith_Cons [text_simps]:
  "startswith (c # s) (d # p) \<longleftrightarrow> c = d \<and> startswith s p"
  by (auto simp: startswith_def)

lemma startswith_Nil [simp, text_simps]: "startswith s []"
  by (simp add: startswith_def)

lemma startswith_Nil_Cons [simp, text_simps]: "\<not> startswith [] (d # p)"
  by (simp add: startswith_def)

lemma lstrip_Cons [text_simps]: "\<not> is_space c \<Longrightarrow> lstrip (c # s) = c # s"
  by (simp add: lstrip_def)

lemma dropWhile_snoc_keep:
  "\<not> P c \<Longrightarrow> dropWhile P (xs @ [c]) = dropWhile P xs @ [c]"
  by (induction xs) auto

lemma rstrip_Cons [text_simps]: "\<not> is_space c \<Longrightarrow> rstrip (c # s) = c # rstrip s"
  by (simp add: rstrip_def dropWhile_snoc_keep)

lemma rstrip_snoc_space: "is_space c \<Longrightarrow> rstrip (s @ [c]) = rstrip s"
  by (simp add: rstrip_def)

lemma rstrip_snoc [text_simps]: "\<not> is_space c \<Longrightarrow> rstrip (s @ [c]) = s @ [c]"
  by (simp add: rstrip_def)

lemma strip_Cons [text_simps]: "\<not> is_space c \<Longrightarrow> strip (c # s) = c # rstrip s"
  by (simp add: strip_def lstrip_Cons rstrip_Cons)

lemma rstrip_no_space: "list_all (\<lambda>c. \<not> is_space c) s \<Longrightarrow> rstrip s = s"
  by (cases s rule: rev_cases) (simp_all add: rstrip_snoc, simp add: rstrip_def)

lemma lstrip_no_space: "list_all (\<lambda>c. \<not> is_space c) s \<Longrightarrow> lstrip s = s"
  by (cases s) (auto simp: lstrip_def)

lemma strip_no_space [text_simps]: "list_all (\<lambda>c. \<not> is_space c) s \<Longrightarrow> strip s = s"
  by (simp add: strip_def lstrip_no_space rstrip_no_space)

text \<open>A token is what \<open>split\<close> returns: not empty, no white space in it.\<close>

definition is_token :: "string \<Rightarrow> bool" where
  "is_token t = (t \<noteq> [] \<and> list_all (\<lambda>c. \<not> is_space c) t)"

lemma split_ws_aux_token:
  "list_all (\<lambda>c. \<not> is_space c) t \<Longrightarrow> split_ws_aux acc (t @ s) = split_ws_aux (rev t @ acc) s"
  by (induction t arbitrary: acc) auto

lemma split_ws_aux_is_token:
  "list_all (\<lambda>c. \<not> is_space c) acc \<Longrightarrow> list_all is_token (split_ws_aux acc s)"
proof (induction s arbitrary: acc)
  case (Cons c cs)
  then show ?case by (cases "is_space c") (simp_all add: is_token_def)
qed (simp add: is_token_def)

lemma split_ws_is_token: "list_all is_token (split_ws s)"
  unfolding split_ws_def by (rule split_ws_aux_is_token) simp

lemma is_space_space [simp]: "is_space CHR '' ''"
  by (simp add: is_space_def code_def)

lemma is_space_newline [simp]: "is_space (CHR 0x0A)"
  by (simp add: is_space_def code_def)

text \<open>Tokens separated by single spaces are read back, whatever white space follows the last.\<close>

lemma split_ws_tokens:
  assumes "list_all is_token ts" and "list_all is_space e"
  shows "split_ws (concat (map (\<lambda>t. CHR '' '' # t) ts) @ e) = ts"
proof -
  have e: "split_ws_aux acc e = (if acc = [] then [] else [rev acc])" for acc
    using assms(2) by (induction e arbitrary: acc) auto
  have "split_ws_aux acc (concat (map (\<lambda>t. CHR '' '' # t) ts) @ e)
      = (if acc = [] then [] else [rev acc]) @ ts" for acc
    using assms(1)
  proof (induction ts arbitrary: acc)
    case Nil
    then show ?case by (simp add: e)
  next
    case (Cons t ts)
    then have t: "list_all (\<lambda>c. \<not> is_space c) t" "t \<noteq> []"
      by (auto simp: is_token_def)
    show ?case
      using Cons t by (simp add: split_ws_aux_token)
  qed
  then show ?thesis by (simp add: split_ws_def)
qed

text \<open>
  A line made of a leading token and tokens each preceded by a space, followed by white space:
  stripping removes exactly the white space at the end, and splitting returns the tokens.
\<close>

lemma split_ws_line:
  assumes "is_token t" and "list_all is_token ts" and "list_all is_space e"
  shows "split_ws (t @ concat (map (\<lambda>t. CHR '' '' # t) ts) @ e) = t # ts"
proof -
  have "split_ws (concat (map (\<lambda>t. CHR '' '' # t) (t # ts)) @ e) = t # ts"
    using assms by (intro split_ws_tokens) auto
  then show ?thesis by (simp add: split_ws_def)
qed

lemma rstrip_append_token:
  assumes "is_token t"
  shows "rstrip (s @ t) = s @ t"
proof (cases t rule: rev_cases)
  case (snoc t' c)
  with assms show ?thesis
    using rstrip_snoc [of c "s @ t'"] by (simp add: is_token_def)
qed (use assms in \<open>simp add: is_token_def\<close>)

lemma strip_line:
  assumes "is_token t" and "list_all is_token ts" and "list_all is_space e"
  shows "strip (t @ concat (map (\<lambda>t. CHR '' '' # t) ts) @ e) = t @ concat (map (\<lambda>t. CHR '' '' # t) ts)"
proof -
  let ?b = "t @ concat (map (\<lambda>t. CHR '' '' # t) ts)"
  have e: "rstrip (s @ e) = rstrip s" for s
    using assms(3) by (induction e rule: rev_induct)
      (auto simp: rstrip_snoc_space simp flip: append_assoc)
  have b: "rstrip ?b = ?b"
  proof (cases ts rule: rev_cases)
    case Nil
    then show ?thesis using rstrip_append_token [OF assms(1), of "[]"] by simp
  next
    case (snoc us u)
    then show ?thesis
      using rstrip_append_token [of u "t @ concat (map (\<lambda>t. CHR '' '' # t) us) @ '' ''"] assms(2)
      by simp
  qed
  have "lstrip (t @ s) = t @ s" for s
    using assms(1) by (cases t) (auto simp: is_token_def lstrip_def)
  then show ?thesis using e [of ?b] b by (simp add: strip_def)
qed

lemma split1_append [text_simps]: "sep \<notin> set k \<Longrightarrow> split1 sep (k @ sep # v) = Some (k, v)"
proof -
  assume "sep \<notin> set k"
  then have "takeWhile (\<lambda>c. c \<noteq> sep) (k @ sep # v) = k"
    and "dropWhile (\<lambda>c. c \<noteq> sep) (k @ sep # v) = sep # v"
    by (subst takeWhile_append2 dropWhile_append2; auto)+
  then show ?thesis by (simp add: split1_def)
qed

lemma split1_Some: "split1 sep s = Some (k, v) \<longleftrightarrow> sep \<notin> set k \<and> s = k @ sep # v"
proof
  assume a: "split1 sep s = Some (k, v)"
  then have "sep \<in> set s" by (auto simp: split1_def split: if_splits)
  then obtain k' v' where s: "s = k' @ sep # v'" "sep \<notin> set k'"
    by (metis split_list_first)
  with a show "sep \<notin> set k \<and> s = k @ sep # v"
    by (simp add: split1_append)
qed (simp add: split1_append)

lemma split_aux_append:
  "sep \<notin> set t \<Longrightarrow> split_aux sep acc (t @ sep # s) = (rev acc @ t) # split_aux sep [] s"
  by (induction t arbitrary: acc) auto

lemma split_aux_last: "sep \<notin> set t \<Longrightarrow> split_aux sep acc t = [rev acc @ t]"
  by (induction t arbitrary: acc) auto

lemma split_on_join [text_simps]:
  "ts \<noteq> [] \<Longrightarrow> list_all (\<lambda>t. sep \<notin> set t) ts \<Longrightarrow> split_on sep (join [sep] ts) = ts"
proof (induction "[sep]" ts rule: join.induct)
  case (3 x y xs)
  then show ?case by (simp add: split_on_def split_aux_append)
qed (simp_all add: split_on_def split_aux_last)

lemma find_sub_Some:
  "find_sub p s = Some i \<Longrightarrow>
     take (length p) (drop i s) = p \<and> i + length p \<le> length s
     \<and> (\<forall>j < i. take (length p) (drop j s) \<noteq> p)"
proof (induction s arbitrary: i)
  case (Cons c cs)
  show ?case
  proof (cases "take (length p) (c # cs) = p")
    case True
    then have "length p \<le> length (c # cs)"
      by (metis length_take min.cobounded1)
    with True Cons.prems show ?thesis by simp
  next
    case False
    then obtain j where j: "find_sub p cs = Some j" "i = Suc j"
      using Cons.prems by auto
    with Cons.IH [OF j(1)] False show ?thesis
      by (auto simp: less_Suc_eq_0_disj)
  qed
qed (auto split: if_splits)

lemma find_sub_None: "find_sub p s = None \<longleftrightarrow> \<not> (\<exists>i. i + length p \<le> length s \<and> take (length p) (drop i s) = p)"
proof
  assume "find_sub p s = None"
  then show "\<not> (\<exists>i. i + length p \<le> length s \<and> take (length p) (drop i s) = p)"
  proof (induction s)
    case (Cons c cs)
    then have "take (length p) (c # cs) \<noteq> p" and n: "find_sub p cs = None"
      by (auto split: if_splits)
    with Cons.IH [OF n] show ?case
      by (metis Suc_le_mono add_Suc drop0 drop_Suc_Cons length_Cons not0_implies_Suc)
  qed (auto split: if_splits)
next
  assume "\<not> (\<exists>i. i + length p \<le> length s \<and> take (length p) (drop i s) = p)"
  then show "find_sub p s = None"
    using find_sub_Some by (cases "find_sub p s") (blast, blast)
qed

lemma contains_iff: "contains s p \<longleftrightarrow> (\<exists>u v. s = u @ p @ v)"
proof
  assume "contains s p"
  then obtain i where "find_sub p s = Some i" by (auto simp: contains_def)
  then have "take (length p) (drop i s) = p" by (simp add: find_sub_Some)
  then have "s = take i s @ p @ drop (length p) (drop i s)"
    by (metis append_take_drop_id)
  then show "\<exists>u v. s = u @ p @ v" by blast
next
  assume "\<exists>u v. s = u @ p @ v"
  then obtain u v where "s = u @ p @ v" by blast
  then have "length u + length p \<le> length s \<and> take (length p) (drop (length u) s) = p"
    by simp
  then show "contains s p"
    unfolding contains_def using find_sub_None [of p s] by blast
qed

lemma startswith_iff: "startswith s p \<longleftrightarrow> (\<exists>r. s = p @ r)"
  by (metis append_take_drop_id append_eq_conv_conj startswith_def)

lemma length_join: "length (join sep xs) = sum_list (map length xs) + (length xs - 1) * length sep"
  by (induction sep xs rule: join.induct) auto

end
