(* ===== verification/PyNumber.thy ===== *)
theory PyNumber
  imports PyText
begin

text \<open>
  Numbers and bytes as text: \<open>int(s)\<close>, \<open>int(s, 0)\<close>, \<open>int(s, 16)\<close>, \<open>float(s)\<close>, \<open>str(n)\<close>,
  the format specifications the scripts use, \<open>bytes.fromhex\<close>, \<open>.hex()\<close> and the decoding of
  bytes. Python's floats are modelled as real numbers: no rounding, no negative zero, and
  infinities and NaNs end in \<open>FloatSpecial\<close>. The interpreter's limit of 4300 decimal digits
  per \<open>int(s)\<close> is not modelled.
\<close>

section \<open>Reading integers\<close>

definition digit_value :: "nat \<Rightarrow> char \<Rightarrow> nat option" where
  "digit_value b c =
     (let n = code c;
          v = (if 48 \<le> n \<and> n \<le> 57 then n - 48
               else if 97 \<le> n \<and> n \<le> 122 then n - 87
               else if 65 \<le> n \<and> n \<le> 90 then n - 55 else b)
      in if v < b then Some v else None)"

text \<open>Digits after the first one; a single underscore may stand between two digits.\<close>

fun digits_from :: "nat \<Rightarrow> nat \<Rightarrow> string \<Rightarrow> nat option" where
  "digits_from b acc [] = Some acc"
| "digits_from b acc [c] = map_option (\<lambda>v. acc * b + v) (digit_value b c)"
| "digits_from b acc (c # d # cs) =
     (if c = CHR ''_''
      then (case digit_value b d of None \<Rightarrow> None | Some v \<Rightarrow> digits_from b (acc * b + v) cs)
      else (case digit_value b c of None \<Rightarrow> None | Some v \<Rightarrow> digits_from b (acc * b + v) (d # cs)))"

definition read_digits :: "nat \<Rightarrow> string \<Rightarrow> nat option" where
  "read_digits b s =
     (case s of [] \<Rightarrow> None
      | c # cs \<Rightarrow> (case digit_value b c of None \<Rightarrow> None | Some v \<Rightarrow> digits_from b v cs))"

text \<open>
  Only ASCII white space is stripped from an ASCII string; a string with other characters is
  first normalised, so every Unicode space counts.
\<close>

definition int_strip :: "string \<Rightarrow> string" where
  "int_strip s =
     (let sp = (if list_all (\<lambda>c. code c < 128) s then is_ascii_space else is_space)
      in rev (dropWhile sp (rev (dropWhile sp s))))"

definition split_sign :: "string \<Rightarrow> int \<times> string" where
  "split_sign s =
     (case s of [] \<Rightarrow> (1, []) | c # cs \<Rightarrow>
        if c = CHR ''-'' then (-1, cs) else if c = CHR ''+'' then (1, cs) else (1, s))"

definition drop_one_underscore :: "string \<Rightarrow> string" where
  "drop_one_underscore s = (if take 1 s = ''_'' then drop 1 s else s)"

text \<open>The digits of \<open>int(s, base)\<close> after the sign, for base 10, 16 and 0.\<close>

definition read_base :: "nat \<Rightarrow> string \<Rightarrow> nat option" where
  "read_base b s =
     (let p = take 2 s; hexp = (p = ''0x'' \<or> p = ''0X''); octp = (p = ''0o'' \<or> p = ''0O'');
          binp = (p = ''0b'' \<or> p = ''0B''); r = drop_one_underscore (drop 2 s)
      in if b = 16 then read_digits 16 (if hexp then r else s)
         else if b = 0 then
           (if hexp then read_digits 16 r else if octp then read_digits 8 r
            else if binp then read_digits 2 r
            else if take 1 s = ''0'' then
              (case read_digits 10 s of Some 0 \<Rightarrow> Some 0 | _ \<Rightarrow> None)
            else read_digits 10 s)
         else read_digits b s)"

definition py_int_base :: "nat \<Rightarrow> string \<Rightarrow> int result" where
  "py_int_base b s =
     (case split_sign (int_strip s) of (sg, t) \<Rightarrow>
        (case read_base b t of None \<Rightarrow> Inl ValueError | Some n \<Rightarrow> Inr (sg * int n)))"

definition py_int :: "string \<Rightarrow> int result" where
  "py_int s = py_int_base 10 s"

section \<open>Printing integers\<close>

definition digit_char :: "nat \<Rightarrow> char" where
  "digit_char v = (if v < 10 then char_of (48 + v) else char_of (87 + v))"

fun nat_text :: "nat \<Rightarrow> nat \<Rightarrow> string" where
  "nat_text b n = (if n < b \<or> b < 2 then [digit_char n] else nat_text b (n div b) @ [digit_char (n mod b)])"

declare nat_text.simps [simp del]

definition str_of_nat :: "nat \<Rightarrow> string" where
  "str_of_nat n = nat_text 10 n"

definition str_of_int :: "int \<Rightarrow> string" where
  "str_of_int i = (if i < 0 then CHR ''-'' # str_of_nat (nat (- i)) else str_of_nat (nat i))"

definition zpad :: "nat \<Rightarrow> string \<Rightarrow> string" where
  "zpad w s = replicate (w - length s) (CHR ''0'') @ s"

text \<open>\<open>f\"{n:0{w}d}\"\<close> and \<open>f\"{n:0{w}x}\"\<close> for a number that is not negative.\<close>

definition fmt_dec :: "nat \<Rightarrow> nat \<Rightarrow> string" where
  "fmt_dec w n = zpad w (nat_text 10 n)"

definition fmt_hex :: "nat \<Rightarrow> nat \<Rightarrow> string" where
  "fmt_hex w n = zpad w (nat_text 16 n)"

section \<open>Hexadecimal\<close>

definition hex_byte :: "byte \<Rightarrow> string" where
  "hex_byte b = [digit_char (unat b div 16), digit_char (unat b mod 16)]"

definition hex_of :: "bytes \<Rightarrow> string" where
  "hex_of bs = concat (map hex_byte bs)"

text \<open>\<open>bytes.fromhex\<close>: ASCII white space may stand between the pairs, nothing else.\<close>

fun fromhex :: "string \<Rightarrow> bytes result" where
  "fromhex [] = Inr []"
| "fromhex [c] = (if is_ascii_space c then Inr [] else Inl ValueError)"
| "fromhex (c # d # cs) =
     (if is_ascii_space c then fromhex (d # cs)
      else (case (digit_value 16 c, digit_value 16 d) of
              (Some h, Some l) \<Rightarrow> rbind (fromhex cs) (\<lambda>bs. Inr (byte_of_nat (16 * h + l) # bs))
            | _ \<Rightarrow> Inl ValueError))"

section \<open>Decoding bytes\<close>

definition byte_char :: "byte \<Rightarrow> char" where
  "byte_char b = char_of (unat b)"

definition ascii_bytes :: "string \<Rightarrow> bytes" where
  "ascii_bytes s = map (\<lambda>c. byte_of_nat (code c)) s"

text \<open>
  The character for a decoded code point: itself below 256; above, a Unicode space is folded
  to the no-break space (code 160) and anything else, the replacement character included, to
  the substitute character (code 26).
\<close>

definition fold_code_point :: "nat \<Rightarrow> char" where
  "fold_code_point n =
     (if n < 256 then char_of n
      else if n = 5760 \<or> (8192 \<le> n \<and> n \<le> 8202) \<or> n \<in> {8232, 8233, 8239, 8287, 12288}
      then char_of (160 :: nat) else char_of (26 :: nat))"

definition is_cont :: "byte \<Rightarrow> bool" where
  "is_cont b = (let n = unat b in 128 \<le> n \<and> n < 192)"

text \<open>
  \<open>data.decode(\"utf-8\", errors=\"replace\")\<close>. Every maximal prefix of a sequence that no
  well-formed sequence continues is replaced by one replacement character.
\<close>

definition second_ok :: "byte \<Rightarrow> byte \<Rightarrow> bool" where
  "second_ok a b =
     (let n = unat a; m = unat b in
        if n = 224 then 160 \<le> m \<and> m < 192 else if n = 237 then 128 \<le> m \<and> m < 160
        else if n = 240 then 144 \<le> m \<and> m < 192 else if n = 244 then 128 \<le> m \<and> m < 144
        else is_cont b)"

definition seq_len :: "byte \<Rightarrow> nat" where
  "seq_len a =
     (let n = unat a in if n < 128 then 1 else if 194 \<le> n \<and> n < 224 then 2
        else if 224 \<le> n \<and> n < 240 then 3 else if 240 \<le> n \<and> n < 245 then 4 else 0)"

definition code_point :: "bytes \<Rightarrow> nat" where
  "code_point bs =
     (case map unat bs of
        [a] \<Rightarrow> a
      | [a, b] \<Rightarrow> (a - 192) * 64 + (b - 128)
      | [a, b, c] \<Rightarrow> (a - 224) * 4096 + (b - 128) * 64 + (c - 128)
      | [a, b, c, d] \<Rightarrow> (a - 240) * 262144 + (b - 128) * 4096 + (c - 128) * 64 + (d - 128)
      | _ \<Rightarrow> 65533)"

text \<open>How many bytes of the input the sequence that starts here takes, and whether it is whole.\<close>

definition seq_take :: "bytes \<Rightarrow> nat \<times> bool" where
  "seq_take bs =
     (let n = seq_len (hd bs) in
      if n = 0 then (1, False) else if n = 1 then (1, True)
      else if length bs < 2 \<or> \<not> second_ok (hd bs) (bs ! 1) then (1, False)
      else if n = 2 then (2, True)
      else if length bs < 3 \<or> \<not> is_cont (bs ! 2) then (2, False)
      else if n = 3 then (3, True)
      else if length bs < 4 \<or> \<not> is_cont (bs ! 3) then (3, False)
      else (4, True))"

function decode_utf8 :: "bytes \<Rightarrow> string" where
  "decode_utf8 bs =
     (if bs = [] then []
      else (case seq_take bs of (n, whole) \<Rightarrow>
        fold_code_point (if whole then code_point (take n bs) else 65533) # decode_utf8 (drop n bs)))"
  by pat_completeness auto
termination
  by (relation "measure length") (auto simp: seq_take_def Let_def split: if_splits)

declare decode_utf8.simps [simp del]

text \<open>\<open>data.decode(\"ascii\", errors=\"replace\")\<close>.\<close>

definition decode_ascii :: "bytes \<Rightarrow> string" where
  "decode_ascii bs = map (\<lambda>b. if unat b < 128 then byte_char b else fold_code_point 65533) bs"

section \<open>Floats\<close>

text \<open>Underscores must stand between two digits; they are dropped before the number is read.\<close>

fun drop_underscores :: "bool \<Rightarrow> string \<Rightarrow> string option" where
  "drop_underscores prev [] = Some []"
| "drop_underscores prev (c # cs) =
     (if c = CHR ''_''
      then (if prev \<and> cs \<noteq> [] \<and> is_digit_char (hd cs) then drop_underscores False cs else None)
      else map_option ((#) c) (drop_underscores (is_digit_char c) cs))"

definition dec_value :: "string \<Rightarrow> nat" where
  "dec_value ds = foldl (\<lambda>a c. a * 10 + (code c - 48)) 0 ds"

definition read_exponent :: "string \<Rightarrow> int option" where
  "read_exponent s =
     (case s of [] \<Rightarrow> Some 0
      | c # cs \<Rightarrow>
          if c = CHR ''e'' \<or> c = CHR ''E'' then
            (case split_sign cs of (sg, ds) \<Rightarrow>
               if ds \<noteq> [] \<and> list_all is_digit_char ds then Some (sg * int (dec_value ds)) else None)
          else None)"

definition scale10 :: "nat \<Rightarrow> int \<Rightarrow> real" where
  "scale10 m e = (if 0 \<le> e then real m * 10 ^ nat e else real m / 10 ^ nat (- e))"

definition read_decimal :: "string \<Rightarrow> real option" where
  "read_decimal s =
     (let ip = takeWhile is_digit_char s; r = dropWhile is_digit_char s;
          fp = (if take 1 r = ''.'' then takeWhile is_digit_char (drop 1 r) else []);
          r' = (if take 1 r = ''.'' then dropWhile is_digit_char (drop 1 r) else r)
      in if ip = [] \<and> fp = [] then None
         else map_option (\<lambda>e. scale10 (dec_value (ip @ fp)) (e - int (length fp))) (read_exponent r'))"

definition lower :: "string \<Rightarrow> string" where
  "lower s = map (\<lambda>c. if 65 \<le> code c \<and> code c \<le> 90 then char_of (code c + 32) else c) s"

definition float_max_bound :: real where
  "float_max_bound = 2 ^ 1024 - 2 ^ 970"

definition py_float :: "string \<Rightarrow> real result" where
  "py_float s =
     (case drop_underscores False (int_strip s) of
        None \<Rightarrow> Inl ValueError
      | Some t \<Rightarrow>
          (case split_sign t of (sg, u) \<Rightarrow>
             if lower u \<in> {''inf'', ''infinity'', ''nan''} then Inl FloatSpecial
             else (case read_decimal u of
                     None \<Rightarrow> Inl ValueError
                   | Some v \<Rightarrow> if v < float_max_bound then Inr (of_int sg * v) else Inl FloatSpecial)))"

text \<open>\<open>f\"{n:,}\"\<close>.\<close>

fun group_digits :: "string \<Rightarrow> string" where
  "group_digits (a # b # c # d # s) = a # b # c # CHR '','' # group_digits (d # s)"
| "group_digits s = s"

definition fmt_comma :: "int \<Rightarrow> string" where
  "fmt_comma i = (if i < 0 then ''-'' else []) @ rev (group_digits (rev (str_of_nat (nat \<bar>i\<bar>))))"

text \<open>\<open>round(x)\<close> and \<open>f\"{x:.{d}f}\"\<close>: to the nearest, a tie to the even neighbour.\<close>

definition round_half_even :: "real \<Rightarrow> int" where
  "round_half_even x =
     (let f = \<lfloor>x\<rfloor>; r = x - of_int f
      in if r < 1 / 2 then f else if r > 1 / 2 then f + 1 else if even f then f else f + 1)"

definition fmt_fixed :: "nat \<Rightarrow> real \<Rightarrow> string" where
  "fmt_fixed d x =
     (let n = nat (round_half_even (\<bar>x\<bar> * 10 ^ d)); t = fmt_dec (d + 1) n; k = length t - d
      in (if x < 0 then ''-'' else []) @ take k t @ (if d = 0 then [] else ''.'' @ drop k t))"

definition isclose :: "real \<Rightarrow> real \<Rightarrow> bool" where
  "isclose a b = (\<bar>a - b\<bar> \<le> (1 / 10 ^ 9) * max \<bar>a\<bar> \<bar>b\<bar>)"

section \<open>Round trips\<close>

lemma code_digit_char [simp]: "v < 36 \<Longrightarrow> code (digit_char v) = (if v < 10 then 48 + v else 87 + v)"
  by (simp add: digit_char_def)

lemma digit_value_digit_char [simp]: "v < b \<Longrightarrow> b \<le> 36 \<Longrightarrow> digit_value b (digit_char v) = Some v"
  by (auto simp: digit_value_def Let_def)

lemma digit_value_underscore [simp]: "b \<le> 36 \<Longrightarrow> digit_value b (CHR ''_'') = None"
  by (simp add: digit_value_def code_def)

definition all_digits :: "nat \<Rightarrow> string \<Rightarrow> bool" where
  "all_digits b s = list_all (\<lambda>c. digit_value b c \<noteq> None) s"

lemma digits_from_Cons:
  "b \<le> 36 \<Longrightarrow> digit_value b c = Some v \<Longrightarrow> digits_from b acc (c # s) = digits_from b (acc * b + v) s"
  by (cases s) auto

lemma digits_from_snoc:
  assumes "b \<le> 36" and "digit_value b c = Some v" and "all_digits b s"
  shows "digits_from b acc (s @ [c]) = map_option (\<lambda>m. m * b + v) (digits_from b acc s)"
  using assms(3)
proof (induction s arbitrary: acc)
  case Nil
  then show ?case using assms by (simp add: digits_from_Cons)
next
  case (Cons d s)
  then obtain u where "digit_value b d = Some u" by (auto simp: all_digits_def)
  with Cons assms(1) show ?case by (simp add: digits_from_Cons all_digits_def)
qed

lemma read_digits_snoc:
  assumes "b \<le> 36" and "digit_value b c = Some v" and "all_digits b s" and "s \<noteq> []"
  shows "read_digits b (s @ [c]) = map_option (\<lambda>m. m * b + v) (read_digits b s)"
proof (cases s)
  case (Cons d t)
  then obtain u where "digit_value b d = Some u" "all_digits b t"
    using assms(3) by (auto simp: all_digits_def)
  with Cons assms show ?thesis by (simp add: read_digits_def digits_from_snoc)
qed (use assms in simp)

lemma nat_text_nonempty [simp]: "nat_text b n \<noteq> []"
  by (subst nat_text.simps) simp

lemma nat_text_digits: "2 \<le> b \<Longrightarrow> b \<le> 36 \<Longrightarrow> all_digits b (nat_text b n)"
proof (induction b n rule: nat_text.induct)
  case (1 b n)
  then show ?case by (cases "n < b") (simp_all add: nat_text.simps [of b n] all_digits_def)
qed

lemma read_digits_nat_text [simp]:
  "2 \<le> b \<Longrightarrow> b \<le> 36 \<Longrightarrow> read_digits b (nat_text b n) = Some n"
proof (induction b n rule: nat_text.induct)
  case (1 b n)
  show ?case
  proof (cases "n < b")
    case True
    then show ?thesis using 1 by (simp add: nat_text.simps [of b n] read_digits_def)
  next
    case False
    then have "read_digits b (nat_text b n)
        = map_option (\<lambda>m. m * b + n mod b) (read_digits b (nat_text b (n div b)))"
      using 1 by (simp add: nat_text.simps [of b n] read_digits_snoc nat_text_digits)
    with False 1 show ?thesis by simp
  qed
qed

lemma digit_not_space: "digit_value b c = Some v \<Longrightarrow> \<not> is_space c \<and> \<not> is_ascii_space c"
  by (auto simp: digit_value_def is_space_def is_ascii_space_def Let_def split: if_splits)

lemma strip_ends:
  assumes "s \<noteq> []" and "\<not> sp (hd s)" and "\<not> sp (last s)"
  shows "rev (dropWhile sp (rev (dropWhile sp s))) = s"
proof -
  have "dropWhile sp s = s" using assms(1,2) by (cases s) auto
  moreover have "dropWhile sp (rev s) = rev s"
    using assms(1,3) by (cases s rule: rev_cases) auto
  ultimately show ?thesis by simp
qed

lemma int_strip_digits:
  assumes "all_digits b s" and "s \<noteq> []"
  shows "int_strip s = s" and "int_strip (CHR ''-'' # s) = CHR ''-'' # s"
proof -
  have d: "digit_value b c \<noteq> None" if "c \<in> set s" for c
    using assms(1) that by (auto simp: all_digits_def list_all_iff)
  have n: "\<not> is_space c \<and> \<not> is_ascii_space c" if "c \<in> set s" for c
    using d [OF that] digit_not_space by auto
  have m: "\<not> is_space CHR ''-''" "\<not> is_ascii_space CHR ''-''"
    by (simp_all add: is_space_def is_ascii_space_def code_def)
  show "int_strip s = s"
    using assms(2) n [of "hd s"] n [of "last s"] by (simp add: int_strip_def strip_ends)
  show "int_strip (CHR ''-'' # s) = CHR ''-'' # s"
    unfolding int_strip_def Let_def
    using assms(2) n [of "last s"] m by (intro strip_ends) auto
qed

lemma digit_not_sign: "digit_value b c = Some v \<Longrightarrow> c \<noteq> CHR ''-'' \<and> c \<noteq> CHR ''+''"
  by (auto simp: digit_value_def code_def split: if_splits)

lemma split_sign_digits:
  "all_digits b s \<Longrightarrow> split_sign s = (1, s)"
  by (auto simp: split_sign_def all_digits_def dest: digit_not_sign split: list.splits)

lemma split_sign_minus [simp]: "split_sign (CHR ''-'' # s) = (-1, s)"
  by (simp add: split_sign_def)

lemma py_int_str_of_nat [simp]: "py_int (str_of_nat n) = Inr (int n)"
  using nat_text_digits [of 10 n]
  by (simp add: py_int_def py_int_base_def str_of_nat_def int_strip_digits split_sign_digits read_base_def)

lemma py_int_str_of_int [simp]: "py_int (str_of_int i) = Inr i"
proof (cases "i < 0")
  case True
  then show ?thesis
    using nat_text_digits [of 10 "nat (- i)"]
    by (simp add: py_int_def py_int_base_def str_of_int_def str_of_nat_def int_strip_digits read_base_def)
next
  case False
  then show ?thesis by (simp add: str_of_int_def)
qed

lemma str_of_int_inject: "str_of_int i = str_of_int j \<longleftrightarrow> i = j"
  by (metis py_int_str_of_int sum.inject(2))

lemma str_of_nat_inject: "str_of_nat i = str_of_nat j \<longleftrightarrow> i = j"
  by (metis py_int_str_of_nat of_nat_eq_iff sum.inject(2))

lemma digit_value_zero [simp]: "2 \<le> b \<Longrightarrow> b \<le> 36 \<Longrightarrow> digit_value b CHR ''0'' = Some 0"
  by (simp add: digit_value_def code_def)

lemma read_digits_zero_Cons:
  "b \<le> 36 \<Longrightarrow> 2 \<le> b \<Longrightarrow> all_digits b s \<Longrightarrow> s \<noteq> [] \<Longrightarrow> read_digits b (CHR ''0'' # s) = read_digits b s"
  by (cases s) (auto simp: read_digits_def all_digits_def digits_from_Cons split: option.splits)

lemma zpad_digits:
  assumes "2 \<le> b" and "b \<le> 36"
  shows "all_digits b (zpad w (nat_text b n)) \<and> read_digits b (zpad w (nat_text b n)) = Some n"
proof -
  have "all_digits b (replicate k (CHR ''0'') @ nat_text b n)
      \<and> read_digits b (replicate k (CHR ''0'') @ nat_text b n) = Some n" for k
  proof (induction k)
    case 0
    then show ?case using assms nat_text_digits by simp
  next
    case (Suc k)
    then show ?case using assms read_digits_zero_Cons by (simp add: all_digits_def)
  qed
  then show ?thesis by (simp add: zpad_def)
qed

lemma fmt_dec_digits: "all_digits 10 (fmt_dec w n)"
  unfolding fmt_dec_def using zpad_digits [of 10 w n] by simp

lemma read_fmt_dec [simp]: "read_digits 10 (fmt_dec w n) = Some n"
  unfolding fmt_dec_def using zpad_digits [of 10 w n] by simp

lemma fmt_dec_inject: "fmt_dec w m = fmt_dec w n \<longleftrightarrow> m = n"
  by (metis read_fmt_dec option.inject)

lemma digits_then_other:
  assumes "all_digits b s" "all_digits b t" "digit_value b c = None" "digit_value b d = None"
    and "s @ c # u = t @ d # v"
  shows "s = t \<and> c # u = d # v"
  using assms(1,2,5)
proof (induction s arbitrary: t)
  case Nil then show ?case using assms(3,4) by (cases t) (auto simp: all_digits_def)
next
  case (Cons x s) then show ?case using assms(3,4) by (cases t) (auto simp: all_digits_def)
qed

lemma length_zpad [simp]: "length (zpad w s) = max w (length s)"
  by (simp add: zpad_def)

lemma length_hex_of [simp]: "length (hex_of bs) = 2 * length bs"
  by (induction bs) (simp_all add: hex_of_def hex_byte_def)

lemma fromhex_hex_of [simp]: "fromhex (hex_of bs) = Inr bs"
proof (induction bs)
  case (Cons b bs)
  have h: "digit_value 16 (digit_char (unat b div 16)) = Some (unat b div 16)"
    and l: "digit_value 16 (digit_char (unat b mod 16)) = Some (unat b mod 16)"
    using unat_byte_lt [of b] by (simp_all add: div_less_iff_less_mult)
  have "16 * (unat b div 16) + unat b mod 16 = unat b" by simp
  with Cons h l digit_not_space [OF h] show ?case
    by (simp add: hex_of_def hex_byte_def)
qed (simp add: hex_of_def)

lemma hex_of_inject: "hex_of a = hex_of b \<longleftrightarrow> a = b"
  by (metis fromhex_hex_of sum.inject(2))

lemma hex_of_digits: "all_digits 16 (hex_of bs)"
proof (induction bs)
  case (Cons b bs)
  have "digit_value 16 (digit_char (unat b div 16)) \<noteq> None" "digit_value 16 (digit_char (unat b mod 16)) \<noteq> None"
    using unat_byte_lt [of b] by (simp_all add: div_less_iff_less_mult)
  with Cons show ?case by (simp add: hex_of_def hex_byte_def all_digits_def)
qed (simp add: hex_of_def all_digits_def)

text \<open>ASCII text survives encoding and decoding.\<close>

definition is_ascii :: "string \<Rightarrow> bool" where
  "is_ascii s = list_all (\<lambda>c. code c < 128) s"

lemma decode_utf8_Nil [simp]: "decode_utf8 [] = []"
  by (simp add: decode_utf8.simps)

lemma decode_utf8_ascii_Cons [simp]:
  "unat b < 128 \<Longrightarrow> decode_utf8 (b # bs) = byte_char b # decode_utf8 bs"
  by (subst decode_utf8.simps)
     (simp add: seq_take_def seq_len_def code_point_def fold_code_point_def byte_char_def)

lemma byte_char_code [simp]: "byte_char (byte_of_nat (code c)) = c"
  by (simp add: byte_char_def)

lemma decode_utf8_ascii: "is_ascii s \<Longrightarrow> decode_utf8 (ascii_bytes s) = s"
  by (induction s) (simp_all add: is_ascii_def ascii_bytes_def)

lemma decode_ascii_ascii: "is_ascii s \<Longrightarrow> decode_ascii (ascii_bytes s) = s"
  by (induction s) (simp_all add: is_ascii_def ascii_bytes_def decode_ascii_def)

section \<open>Lines of text\<close>

text \<open>
  A text that survives stripping and is one line, and the lines of a text made of whole lines.
\<close>

definition clean_text :: "string \<Rightarrow> bool" where
  "clean_text s \<longleftrightarrow> s \<noteq> [] \<and> \<not> is_space (hd s) \<and> \<not> is_space (last s) \<and> list_all (\<lambda>c. \<not> is_line_break c) s"

abbreviation unbroken :: "string \<Rightarrow> bool" where
  "unbroken \<equiv> list_all (\<lambda>c. \<not> is_line_break c)"

lemma strip_clean: "s \<noteq> [] \<Longrightarrow> \<not> is_space (hd s) \<Longrightarrow> \<not> is_space (last s) \<Longrightarrow> strip s = s"
  unfolding strip_def rstrip_def lstrip_def by (rule strip_ends)

lemma splitlines_text:
  "list_all (list_all (\<lambda>c. \<not> is_line_break c)) ls \<Longrightarrow> splitlines (concat (map (\<lambda>l. l @ [CHR 0x0A]) ls)) = ls"
proof -
  have nl: "is_line_break (CHR 0x0A)" "code (CHR 0x0A) = 10" by (simp_all add: is_line_break_def code_def)
  have aux: "splitlines_aux acc (l @ CHR 0x0A # s) = (rev acc @ l) # splitlines_aux [] s"
    if "list_all (\<lambda>c. \<not> is_line_break c) l" for acc l s
    using that
  proof (induction l arbitrary: acc)
    case Nil
    then show ?case using nl by (cases s) auto
  next
    case (Cons c l)
    have "code c \<noteq> 13" using Cons.prems by (auto simp: is_line_break_def Let_def)
    then show ?case using Cons by (cases "l @ CHR 0x0A # s") auto
  qed
  show "list_all (list_all (\<lambda>c. \<not> is_line_break c)) ls \<Longrightarrow> splitlines (concat (map (\<lambda>l. l @ [CHR 0x0A]) ls)) = ls"
    unfolding splitlines_def by (induction ls) (simp_all add: aux)
qed

lemma clean_textD:
  "clean_text s \<Longrightarrow> takeWhile is_space (s @ t) = [] \<and> dropWhile is_space (s @ t) = s @ t"
  "clean_text s \<Longrightarrow> s \<noteq> []"
  "clean_text s \<Longrightarrow> takeWhile is_space s = [] \<and> dropWhile is_space s = s"
  by (cases s; auto simp: clean_text_def)+

section \<open>Figures of a summary\<close>

text \<open>A value that a script reports: an integer, a float, or \<open>None\<close>.\<close>

datatype figure = FInt int | FReal real | FNone

end
