(* ===== verification/AebWire.thy ===== *)
theory AebWire
  imports Protocol PyNumber
begin

text \<open>
  The datagrams of the RF-actuated experiment (\<open>aeb_collector.py\<close>): the 40-byte little-endian
  header with its magic number, version and type, the text line \<open>[AEB_RESULT] key=value ...\<close>,
  the public nonce of the START descriptor and the packing of packet-arrival deltas.
\<close>

section \<open>Header and message\<close>

definition MAGIC :: int where "MAGIC = 0x31424541"
definition VERSION :: int where "VERSION = 1"

definition TYPE_START :: int where "TYPE_START = 1"
definition TYPE_BURST :: int where "TYPE_BURST = 2"
definition TYPE_HELLO :: int where "TYPE_HELLO = 3"
definition TYPE_RAW_BEGIN :: int where "TYPE_RAW_BEGIN = 4"
definition TYPE_RAW_CHUNK :: int where "TYPE_RAW_CHUNK = 5"
definition TYPE_RAW_END :: int where "TYPE_RAW_END = 6"
definition TYPE_JITTER_CHUNK :: int where "TYPE_JITTER_CHUNK = 7"

lemmas type_defs = TYPE_START_def TYPE_BURST_def TYPE_HELLO_def TYPE_RAW_BEGIN_def
  TYPE_RAW_CHUNK_def TYPE_RAW_END_def TYPE_JITTER_CHUNK_def

definition HEADER_size :: nat where "HEADER_size = 40"

record message =
  msg_type :: int
  trial :: int
  seq_or_count :: int
  interval_us :: int
  sample_bytes :: int
  nonce :: bytes
  payload :: bytes

text \<open>\<open>HEADER.pack(...)\<close> for the format \<open><IHHIIII16s\<close>.\<close>

definition header_pack :: "int \<Rightarrow> int \<Rightarrow> int \<Rightarrow> int \<Rightarrow> int \<Rightarrow> int \<Rightarrow> int \<Rightarrow> bytes \<Rightarrow> bytes result" where
  "header_pack mg ver ty tr sq iv sb nn =
     rbind (pack_le 4 mg) (\<lambda>b0. rbind (pack_le 2 ver) (\<lambda>b1. rbind (pack_le 2 ty) (\<lambda>b2.
     rbind (pack_le 4 tr) (\<lambda>b3. rbind (pack_le 4 sq) (\<lambda>b4. rbind (pack_le 4 iv) (\<lambda>b5.
     rbind (pack_le 4 sb) (\<lambda>b6.
       Inr (b0 @ b1 @ b2 @ b3 @ b4 @ b5 @ b6 @ pack_bytes 16 nn))))))))"

definition make_message ::
    "int \<Rightarrow> int \<Rightarrow> int \<Rightarrow> int \<Rightarrow> int \<Rightarrow> bytes \<Rightarrow> bytes \<Rightarrow> bytes result" where
  "make_message ty tr sq iv sb nn pl =
     rbind (header_pack MAGIC VERSION ty tr sq iv sb nn) (\<lambda>h. Inr (h @ pl))"

definition parse_message :: "bytes \<Rightarrow> message option" where
  "parse_message d =
     (if length d < HEADER_size then None
      else if unpack_le (field_at 0 4 d) \<noteq> MAGIC \<or> unpack_le (field_at 4 2 d) \<noteq> VERSION then None
      else Some \<lparr>msg_type = unpack_le (field_at 6 2 d), trial = unpack_le (field_at 8 4 d),
                 seq_or_count = unpack_le (field_at 12 4 d), interval_us = unpack_le (field_at 16 4 d),
                 sample_bytes = unpack_le (field_at 20 4 d), nonce = field_at 24 16 d,
                 payload = drop HEADER_size d\<rparr>)"

definition build_message :: "message \<Rightarrow> bytes result" where
  "build_message m = make_message (msg_type m) (trial m) (seq_or_count m) (interval_us m)
     (sample_bytes m) (nonce m) (payload m)"

definition message_fits :: "message \<Rightarrow> bool" where
  "message_fits m \<longleftrightarrow> fits 2 (msg_type m) \<and> fits 4 (trial m) \<and> fits 4 (seq_or_count m)
     \<and> fits 4 (interval_us m) \<and> fits 4 (sample_bytes m) \<and> length (nonce m) = 16"

section \<open>Result lines\<close>

definition result_tag :: string where "result_tag = ''[AEB_RESULT]''"

definition add_token :: "string \<Rightarrow> (string, string) dict \<Rightarrow> (string, string) dict" where
  "add_token tok d = (case split1 CHR ''='' tok of None \<Rightarrow> d | Some (k, v) \<Rightarrow> dict_set k v d)"

definition parse_result_line :: "bytes \<Rightarrow> (string, string) dict option" where
  "parse_result_line data =
     (let text = strip (decode_utf8 data)
      in if \<not> startswith text result_tag then None
         else Some (fold add_token (drop 1 (split_ws text)) []))"

section \<open>Nonce and jitter packing\<close>

definition fixed_nonce :: "string option \<Rightarrow> bytes result" where
  "fixed_nonce nonce_hex =
     (case nonce_hex of
        Some h \<Rightarrow>
          if h \<noteq> [] then
            rbind (fromhex h) (\<lambda>raw.
              if length raw \<noteq> 16 then Inl (SystemExit ''--nonce-hex must encode exactly 16 bytes'')
              else Inr raw)
          else Inr (replicate 16 0)
      | None \<Rightarrow> Inr (replicate 16 0))"

definition pack_jitter_delta_u32le :: "int list \<Rightarrow> bytes result" where
  "pack_jitter_delta_u32le values = rbind (rmap (pack_le 4) values) (\<lambda>bs. Inr (concat bs))"

definition pack_jitter_residual_s32le :: "int list \<Rightarrow> int \<Rightarrow> bytes result" where
  "pack_jitter_residual_s32le values iv =
     rbind (rmap pack_s32 (map (\<lambda>v. v - iv) values)) (\<lambda>bs. Inr (concat bs))"

section \<open>Facts\<close>

lemma magic_fits [simp]: "fits 4 MAGIC" "fits 2 VERSION"
  by (simp_all add: fits_def MAGIC_def VERSION_def)

lemma make_message_Inr:
  "make_message ty tr sq iv sb nn pl = Inr d \<longleftrightarrow>
     fits 2 ty \<and> fits 4 tr \<and> fits 4 sq \<and> fits 4 iv \<and> fits 4 sb \<and>
     d = le_bytes 4 (nat MAGIC) @ le_bytes 2 (nat VERSION) @ le_bytes 2 (nat ty) @ le_bytes 4 (nat tr)
       @ le_bytes 4 (nat sq) @ le_bytes 4 (nat iv) @ le_bytes 4 (nat sb) @ pack_bytes 16 nn @ pl"
  by (auto simp: make_message_def header_pack_def result_simps)

lemma make_message_ok:
  "fits 2 ty \<Longrightarrow> fits 4 tr \<Longrightarrow> fits 4 sq \<Longrightarrow> fits 4 iv \<Longrightarrow> fits 4 sb \<Longrightarrow>
     \<exists>d. make_message ty tr sq iv sb nn pl = Inr d"
  by (simp add: make_message_Inr)

lemma length_make_message:
  "make_message ty tr sq iv sb nn pl = Inr d \<Longrightarrow> length d = HEADER_size + length pl"
  by (simp add: make_message_Inr HEADER_size_def)

lemma parse_make_message:
  assumes "make_message ty tr sq iv sb nn pl = Inr d"
  shows "parse_message d = Some \<lparr>msg_type = ty, trial = tr, seq_or_count = sq, interval_us = iv,
     sample_bytes = sb, nonce = pack_bytes 16 nn, payload = pl\<rparr>"
proof -
  have "length d = 40 + length pl"
    using length_make_message [OF assms] by (simp add: HEADER_size_def)
  then show ?thesis
    using assms by (simp add: make_message_Inr parse_message_def HEADER_size_def codec_simps)
qed

lemma header_split:
  assumes "HEADER_size \<le> length d"
  shows "d = field_at 0 4 d @ field_at 4 2 d @ field_at 6 2 d @ field_at 8 4 d @ field_at 12 4 d
     @ field_at 16 4 d @ field_at 20 4 d @ field_at 24 16 d @ drop HEADER_size d"
proof -
  have "field_at 24 16 d @ drop HEADER_size d = drop 24 d"
    and "field_at 20 4 d @ drop 24 d = drop 20 d" and "field_at 16 4 d @ drop 20 d = drop 16 d"
    and "field_at 12 4 d @ drop 16 d = drop 12 d" and "field_at 8 4 d @ drop 12 d = drop 8 d"
    and "field_at 6 2 d @ drop 8 d = drop 6 d" and "field_at 4 2 d @ drop 6 d = drop 4 d"
    and "field_at 0 4 d @ drop 4 d = d"
    using field_at_split [of 24 16 d] field_at_split [of 20 4 d] field_at_split [of 16 4 d]
      field_at_split [of 12 4 d] field_at_split [of 8 4 d] field_at_split [of 6 2 d]
      field_at_split [of 4 2 d] field_at_split [of 0 4 d]
    by (simp_all add: HEADER_size_def)
  then show ?thesis by simp
qed

lemma build_parse_message:
  assumes "parse_message d = Some m"
  shows "build_message m = Inr d"
proof -
  have l: "HEADER_size \<le> length d" and mg: "unpack_le (field_at 0 4 d) = MAGIC"
    and ver: "unpack_le (field_at 4 2 d) = VERSION"
    and m: "m = \<lparr>msg_type = unpack_le (field_at 6 2 d), trial = unpack_le (field_at 8 4 d),
                 seq_or_count = unpack_le (field_at 12 4 d), interval_us = unpack_le (field_at 16 4 d),
                 sample_bytes = unpack_le (field_at 20 4 d), nonce = field_at 24 16 d,
                 payload = drop HEADER_size d\<rparr>"
    using assms by (auto simp: parse_message_def split: if_splits)
  have l': "40 \<le> length d" using l by (simp add: HEADER_size_def)
  have "le_bytes 4 (nat MAGIC) = field_at 0 4 d" "le_bytes 2 (nat VERSION) = field_at 4 2 d"
    using l' by (simp_all add: le_bytes_unpack flip: mg ver)
  moreover have "\<exists>h. make_message (msg_type m) (trial m) (seq_or_count m) (interval_us m)
      (sample_bytes m) (nonce m) (payload m) = Inr h"
    unfolding m using l' by (intro make_message_ok) (simp_all add: fits_unpack_le)
  ultimately show ?thesis
    using header_split [OF l] l' unfolding build_message_def m
    by (auto simp: make_message_Inr le_bytes_unpack)
qed

lemma parse_message_fits: "parse_message d = Some m \<Longrightarrow> message_fits m"
  by (auto simp: parse_message_def message_fits_def HEADER_size_def fits_unpack_le split: if_splits)

interpretation aeb: canonical_protocol build_message parse_message message_fits
proof
  show "\<exists>d. build_message m = Inr d" if "message_fits m" for m
    using that by (auto simp: build_message_def message_fits_def intro: make_message_ok)
  show "parse_message d = Some m" if "message_fits m" "build_message m = Inr d" for m d
    using that parse_make_message [OF that(2) [unfolded build_message_def]]
    by (simp add: message_fits_def)
qed (simp_all add: build_parse_message parse_message_fits)

text \<open>Every datagram the parser accepts starts with the four characters of the magic number.\<close>

lemma magic_bytes: "le_bytes 4 (nat MAGIC) = [0x41, 0x45, 0x42, 0x31]"
  by (simp add: MAGIC_def byte_of_nat_def le_bytes_numeral)

lemma parse_message_prefix:
  assumes "parse_message d = Some m"
  shows "\<exists>r. d = 0x41 # r"
proof -
  have "make_message (msg_type m) (trial m) (seq_or_count m) (interval_us m)
      (sample_bytes m) (nonce m) (payload m) = Inr d"
    using build_parse_message [OF assms] by (simp add: build_message_def)
  then show ?thesis by (auto simp: make_message_Inr magic_bytes)
qed

lemma parse_result_line_A: "parse_result_line (0x41 # r) = None"
proof -
  have "byte_char 0x41 = CHR ''A''" by code_simp
  then have "decode_utf8 (0x41 # r) = CHR ''A'' # decode_utf8 r"
    by simp
  moreover have "\<not> is_space CHR ''A''"
    by (simp add: is_space_def code_def)
  ultimately show ?thesis
    by (simp add: parse_result_line_def strip_Cons result_tag_def startswith_Cons)
qed

section \<open>Properties of the wire format\<close>

text \<open>
  The parser of AEB datagrams accepts exactly what the builder can produce: a datagram
  parses to a message if and only if every field of the message fits its header field, the
  nonce has 16 bytes and building the message gives back that very datagram. So no two
  datagrams parse to the same message, and short packets and packets with a wrong magic number
  or version are dropped.
\<close>

theorem parse_message_exact:
  "parse_message d = Some m \<longleftrightarrow> message_fits m \<and> build_message m = Inr d"
  by (rule aeb.parse_Some_iff)

text \<open>
  Building a message whose fields fit succeeds; the datagram is the 40-byte header followed
  by the payload, and it parses back to the message.
\<close>

theorem message_roundtrip:
  assumes "message_fits m"
  shows "\<exists>d. build_message m = Inr d \<and> length d = HEADER_size + length (payload m)
     \<and> parse_message d = Some m"
proof -
  obtain d where "build_message m = Inr d" "parse_message d = Some m"
    using aeb.roundtrip [OF assms] by blast
  then show ?thesis
    using length_make_message by (auto simp: build_message_def)
qed

definition sample_message :: message where
  "sample_message = \<lparr>msg_type = 3, trial = 7, seq_or_count = 64, interval_us = 1000,
     sample_bytes = 4096, nonce = replicate 16 5, payload = [1, 2, 3]\<rparr>"

theorem message_roundtrip_witness:
  "message_fits sample_message \<and>
   (\<exists>d. build_message sample_message = Inr d \<and> length d = HEADER_size + length (payload sample_message)
     \<and> parse_message d = Some sample_message)"
proof -
  have "message_fits sample_message"
    by (simp add: message_fits_def sample_message_def fits_def)
  with message_roundtrip [OF this] show ?thesis by simp
qed

text \<open>
  The collector tries a datagram as a result line first and as a message second; the order
  never matters, because no datagram is both.
\<close>

theorem result_lines_are_not_messages: "parse_message d = None \<or> parse_result_line d = None"
proof (cases "parse_message d")
  case (Some m)
  from parse_message_prefix [OF this] show ?thesis by (auto simp: parse_result_line_A)
qed simp

text \<open>The line the firmware prints: the tag and \<open>key=value\<close> tokens, ended by a line feed.\<close>

definition kv_token :: "string \<times> string \<Rightarrow> string" where
  "kv_token kv = fst kv @ CHR ''='' # snd kv"

definition result_line :: "(string \<times> string) list \<Rightarrow> string" where
  "result_line kvs = result_tag @ concat (map (\<lambda>kv. CHR '' '' # kv_token kv) kvs) @ [CHR 0x0A]"

definition kv_plain :: "string \<times> string \<Rightarrow> bool" where
  "kv_plain kv \<longleftrightarrow> is_ascii (fst kv) \<and> is_ascii (snd kv) \<and> CHR ''='' \<notin> set (fst kv)
     \<and> list_all (\<lambda>c. \<not> is_space c) (fst kv @ snd kv)"

lemma fold_add_token:
  assumes "list_all (\<lambda>kv. CHR ''='' \<notin> set (fst kv)) kvs"
    and "distinct (map fst (d @ kvs))"
  shows "fold add_token (map kv_token kvs) d = d @ kvs"
  using assms
proof (induction kvs arbitrary: d)
  case (Cons kv kvs)
  obtain k v where kv: "kv = (k, v)" by force
  have "add_token (kv_token kv) d = dict_set k v d"
    using Cons.prems(1) by (simp add: add_token_def kv_token_def kv split1_append)
  also have "\<dots> = d @ [kv]"
  proof -
    have "k \<notin> fst ` set d" using Cons.prems(2) by (auto simp: kv)
    then show ?thesis unfolding kv dict_set_def by (induction d) auto
  qed
  finally show ?case using Cons by simp
qed simp

lemma is_token_kv: "kv_plain kv \<Longrightarrow> is_token (kv_token kv)"
proof -
  have "\<not> is_space CHR ''=''" by (simp add: is_space_def code_def)
  then show "kv_plain kv \<Longrightarrow> is_token (kv_token kv)"
    by (simp add: is_token_def kv_token_def kv_plain_def)
qed

lemma is_token_tag: "is_token result_tag"
  by code_simp

lemma is_ascii_line: "list_all kv_plain kvs \<Longrightarrow> is_ascii (result_line kvs)"
proof -
  assume kvs: "list_all kv_plain kvs"
  have "is_ascii result_tag" "code CHR '' '' < 128" "code CHR ''='' < 128" "code (CHR 0x0A) < 128"
    by code_simp+
  with kvs show ?thesis
    by (induction kvs) (simp_all add: result_line_def is_ascii_def kv_plain_def kv_token_def)
qed

lemma parse_printed_line:
  assumes "list_all kv_plain kvs" and "distinct (map fst kvs)"
  shows "parse_result_line (ascii_bytes (result_line kvs)) = Some kvs"
proof -
  let ?ts = "map kv_token kvs"
  let ?body = "result_tag @ concat (map (\<lambda>t. CHR '' '' # t) ?ts)"
  have ts: "list_all is_token ?ts"
    using assms(1) is_token_kv by (auto simp: list_all_iff)
  have line: "result_line kvs = result_tag @ concat (map (\<lambda>t. CHR '' '' # t) ?ts) @ [CHR 0x0A]"
    by (simp add: result_line_def comp_def)
  have "strip (decode_utf8 (ascii_bytes (result_line kvs))) = ?body"
    unfolding decode_utf8_ascii [OF is_ascii_line [OF assms(1)]] unfolding line
    by (rule strip_line [OF is_token_tag ts]) simp
  moreover have "split_ws ?body = result_tag # ?ts"
    using split_ws_line [OF is_token_tag ts, of "[]"] by simp
  moreover have "fold add_token ?ts [] = kvs"
    using assms fold_add_token [of kvs "[]"] by (auto simp: list_all_iff kv_plain_def)
  ultimately show ?thesis by (simp add: parse_result_line_def Let_def)
qed

text \<open>
  Reading a result line gives back the device's fields: for fields with distinct keys, no
  \<open>=\<close> in a key and no white space, the collector's dictionary of the printed line is the list
  of fields, in the printed order.
\<close>

theorem result_line_roundtrip:
  assumes "list_all kv_plain kvs" and "distinct (map fst kvs)"
  shows "parse_result_line (ascii_bytes (result_line kvs)) = Some kvs"
  using assms by (rule parse_printed_line)

theorem result_line_roundtrip_witness:
  "parse_result_line (ascii_bytes (result_line [(''trial'', ''3''), (''ones'', ''16'')]))
     = Some [(''trial'', ''3''), (''ones'', ''16'')]"
proof -
  have "list_all kv_plain [(''trial'', ''3''), (''ones'', ''16'')]"
    by code_simp
  then show ?thesis by (rule result_line_roundtrip) simp
qed

end
