(* ===== verification/AebCollector.thy ===== *)
theory AebCollector
  imports AebWire
begin

text \<open>
  The collector process of the RF-actuated experiment (\<open>aeb_collector.py\<close>): the state of one
  trial, the files it writes, the stimulus it sends for a HELLO, the finalisation of a trial at
  RAW_END and the main receive loop. The loop is a step function over received datagrams and
  timeouts; SHA-256, the clock readings and the random draws of the stimulus are parameters.
  Files are a map from paths to contents, comma-separated tables are lists of rows, and the
  trial table is the list of its rows as dictionaries. Console output is not modelled.
\<close>

section \<open>State\<close>

type_synonym peer = "string \<times> int"
type_synonym state_key = "peer \<times> int"

record trial_state =
  capture_id :: nat
  peer :: peer
  protocol_trial :: int
  hello_nonce :: bytes
  start_nonce :: bytes
  bursts :: int
  nominal_interval_us :: int
  requested_sample_bytes :: int
  raw_chunks_expected :: "int option"
  raw_len :: "int option"
  raw_chunks :: "(int, bytes) dict"
  jitter_chunks :: "(int, bytes) dict"
  result_fields :: "(string, string) dict"
  hello_time :: real
  start_send_time :: "real option"
  first_burst_send_time :: "real option"
  last_burst_send_time :: "real option"
  result_time :: "real option"

datatype payload_mode = Constant | Counter | Random

record collector_args =
  bind_addr :: string
  port :: int
  trials :: int
  out_dir :: string
  arg_sample_bytes :: "int option"
  arg_bursts :: "int option"
  arg_interval_us :: "int option"
  payload_bytes :: int
  payload_kind :: payload_mode
  interval_jitter_us :: int
  stimulus_seed :: "int option"
  start_delay_ms :: int
  arg_fixed_nonce :: bool
  nonce_hex :: "string option"
  idle_timeout :: real
  append_mode :: bool

record manifest =
  manifest_bind :: string
  manifest_port :: int
  target_complete_trials :: int
  completed_trials :: int
  sample_bytes_override :: "int option"
  bursts_override :: "int option"
  interval_us_override :: "int option"
  manifest_payload_bytes :: int
  manifest_payload_mode :: payload_mode
  manifest_interval_jitter_us :: int
  manifest_stimulus_seed :: "int option"
  manifest_fixed_nonce :: bool

record disk =
  files :: "(string, bytes) dict"
  tables :: "(string, string list list) dict"
  trial_table :: "(string, string) dict list"
  manifest_json :: "manifest option"

definition write_file :: "string \<Rightarrow> bytes \<Rightarrow> disk \<Rightarrow> disk" where
  "write_file p bs d = d\<lparr>files := dict_set p bs (files d)\<rparr>"

definition append_file :: "string \<Rightarrow> bytes \<Rightarrow> disk \<Rightarrow> disk" where
  "append_file p bs d = d\<lparr>files := dict_set p (dict_get_or (files d) p [] @ bs) (files d)\<rparr>"

definition unlink_file :: "string \<Rightarrow> disk \<Rightarrow> disk" where
  "unlink_file p d = d\<lparr>files := dict_pop p (files d)\<rparr>"

definition write_table :: "string \<Rightarrow> string list list \<Rightarrow> disk \<Rightarrow> disk" where
  "write_table p rows d = d\<lparr>tables := dict_set p rows (tables d)\<rparr>"

definition path_join :: "string \<Rightarrow> string \<Rightarrow> string" where
  "path_join a b = a @ ''/'' @ b"

record out_paths =
  raw_dir :: string
  jitter_dir :: string
  joint_dir :: string
  stimulus_dir :: string
  all_bin :: string
  all_jitter_delta :: string
  all_jitter_residual :: string
  all_joint :: string

definition output_paths :: "string \<Rightarrow> out_paths" where
  "output_paths out =
     (let rd = path_join out ''raw''; jd = path_join out ''jitter''; jo = path_join out ''joint''
      in \<lparr>raw_dir = rd, jitter_dir = jd, joint_dir = jo, stimulus_dir = path_join out ''stimulus'',
          all_bin = path_join rd ''aeb_all.bin'',
          all_jitter_delta = path_join jd ''aeb_jitter_delta_u32le_all.bin'',
          all_jitter_residual = path_join jd ''aeb_jitter_residual_s32le_all.bin'',
          all_joint = path_join jo ''aeb_response_all.bin''\<rparr>)"

definition prepare_outputs :: "collector_args \<Rightarrow> disk \<Rightarrow> out_paths \<times> disk" where
  "prepare_outputs args d =
     (let p = output_paths (out_dir args)
      in (p, if append_mode args then d
             else (fold unlink_file [all_bin p, all_jitter_delta p, all_jitter_residual p, all_joint p] d)
                    \<lparr>trial_table := []\<rparr>))"

definition write_manifest :: "collector_args \<Rightarrow> int \<Rightarrow> disk \<Rightarrow> disk" where
  "write_manifest args done d =
     d\<lparr>manifest_json := Some
        \<lparr>manifest_bind = bind_addr args, manifest_port = port args,
         target_complete_trials = trials args, completed_trials = done,
         sample_bytes_override = arg_sample_bytes args, bursts_override = arg_bursts args,
         interval_us_override = arg_interval_us args, manifest_payload_bytes = payload_bytes args,
         manifest_payload_mode = payload_kind args,
         manifest_interval_jitter_us = interval_jitter_us args,
         manifest_stimulus_seed = stimulus_seed args,
         manifest_fixed_nonce = (arg_fixed_nonce args \<or> (nonce_hex args \<noteq> None \<and> nonce_hex args \<noteq> Some []))\<rparr>\<rparr>"

section \<open>Finalising a trial\<close>

definition jitter_values :: "trial_state \<Rightarrow> int list" where
  "jitter_values st =
     concat (map (\<lambda>i. let p = dict_get_or (jitter_chunks st) i [];
                          usable = length p - length p mod 4
                      in unpack_seq 4 unpack_le (take usable p))
             (sort (dict_keys (jitter_chunks st))))"

definition max_default :: "int list \<Rightarrow> int \<Rightarrow> int" where
  "max_default ks d = (case ks of [] \<Rightarrow> d | k # ks \<Rightarrow> fold max ks k)"

definition expected_chunks :: "trial_state \<Rightarrow> int" where
  "expected_chunks st =
     (case raw_chunks_expected st of
        Some n \<Rightarrow> n | None \<Rightarrow> max_default (dict_keys (raw_chunks st)) (-1) + 1)"

definition expected_len :: "trial_state \<Rightarrow> int result" where
  "expected_len st =
     (case raw_len st of
        Some n \<Rightarrow> Inr n
      | None \<Rightarrow> (let s = dict_get_or (result_fields st) ''sample_bytes'' ''0''
                 in if s = [] then Inr 0 else py_int s))"

definition missing_chunks :: "trial_state \<Rightarrow> int list" where
  "missing_chunks st = filter (\<lambda>i. \<not> dict_in i (raw_chunks st)) [0..expected_chunks st - 1]"

definition joined_chunks :: "trial_state \<Rightarrow> int list \<Rightarrow> bytes" where
  "joined_chunks st is = concat (map (\<lambda>i. dict_get_or (raw_chunks st) i []) is)"

definition bool_text :: "bool \<Rightarrow> string" where
  "bool_text b = (if b then ''True'' else ''False'')"

definition trial_file :: "string \<Rightarrow> nat \<Rightarrow> string \<Rightarrow> string" where
  "trial_file dir i suffix = path_join dir (''aeb_trial_'' @ fmt_dec 6 i @ suffix)"

text \<open>\<open>str(bool(reported and reported == computed))\<close>.\<close>

definition hash_match :: "trial_state \<Rightarrow> string \<Rightarrow> string \<Rightarrow> string" where
  "hash_match st key h =
     (let reported = dict_get_or (result_fields st) key []
      in bool_text (reported \<noteq> [] \<and> reported = h))"

record raw_part =
  rp_complete :: bool
  rp_raw :: bytes
  rp_file :: string
  rp_bytes :: nat
  rp_hash :: string
  rp_match :: string

definition finalize_raw ::
    "(bytes \<Rightarrow> bytes) \<Rightarrow> out_paths \<Rightarrow> trial_state \<Rightarrow> int \<Rightarrow> disk \<Rightarrow> raw_part \<times> disk" where
  "finalize_raw sha p st rlen d =
     (let expected = expected_chunks st;
          complete0 = (expected > 0 \<and> rlen > 0 \<and> missing_chunks st = []);
          raw = (if complete0 then take (nat rlen) (joined_chunks st [0..expected - 1]) else []);
          complete = (complete0 \<and> int (length raw) = rlen)
      in if complete then
           (let f = trial_file (raw_dir p) (capture_id st) ''.bin''; h = hex_of (sha raw)
            in (\<lparr>rp_complete = True, rp_raw = raw, rp_file = f, rp_bytes = length raw, rp_hash = h,
                 rp_match = hash_match st ''raw_sha256'' h\<rparr>,
                append_file (all_bin p) raw (write_file f raw d)))
         else if raw_chunks st \<noteq> [] then
           (let part = joined_chunks st (sort (dict_keys (raw_chunks st)));
                f = trial_file (raw_dir p) (capture_id st) ''.partial.bin''
            in (\<lparr>rp_complete = False, rp_raw = raw, rp_file = f, rp_bytes = length part,
                 rp_hash = hex_of (sha part), rp_match = []\<rparr>,
                write_file f part d))
         else (\<lparr>rp_complete = False, rp_raw = raw, rp_file = [], rp_bytes = 0, rp_hash = [],
                rp_match = []\<rparr>, d))"

record jitter_part =
  jp_values :: "int list"
  jp_bytes :: bytes
  jp_file :: string
  jp_delta_file :: string
  jp_residual_file :: string
  jp_hash :: string
  jp_match :: string

definition result_interval :: "trial_state \<Rightarrow> int result" where
  "result_interval st =
     (case dict_get (result_fields st) ''interval_us'' of
        None \<Rightarrow> Inr (nominal_interval_us st)
      | Some s \<Rightarrow> if s = [] then Inr (nominal_interval_us st) else py_int s)"

definition jitter_rows :: "int list \<Rightarrow> int \<Rightarrow> string list list" where
  "jitter_rows vs iv =
     [''index'', ''delta_us'', ''residual_us'']
     # map (\<lambda>(i, v). [str_of_nat i, str_of_int v, str_of_int (v - iv)]) (zip [0..<length vs] vs)"

definition finalize_jitter ::
    "(bytes \<Rightarrow> bytes) \<Rightarrow> out_paths \<Rightarrow> trial_state \<Rightarrow> disk \<Rightarrow> (jitter_part \<times> disk) result" where
  "finalize_jitter sha p st d =
     (let vs = jitter_values st
      in if vs = [] then
           Inr (\<lparr>jp_values = [], jp_bytes = [], jp_file = [], jp_delta_file = [],
                 jp_residual_file = [], jp_hash = [], jp_match = []\<rparr>, d)
         else
           rbind (result_interval st) (\<lambda>iv.
           rbind (pack_jitter_delta_u32le vs) (\<lambda>delta.
           rbind (pack_jitter_residual_s32le vs iv) (\<lambda>residual.
             let h = hex_of (sha delta);
                 f = trial_file (jitter_dir p) (capture_id st) ''.csv'';
                 df = trial_file (jitter_dir p) (capture_id st) ''.delta_u32le.bin'';
                 rf = trial_file (jitter_dir p) (capture_id st) ''.residual_s32le.bin''
             in Inr (\<lparr>jp_values = vs, jp_bytes = delta, jp_file = f, jp_delta_file = df,
                      jp_residual_file = rf, jp_hash = h,
                      jp_match = hash_match st ''jitter_sha256'' h\<rparr>,
                     append_file (all_jitter_residual p) residual
                       (append_file (all_jitter_delta p) delta
                         (write_file rf residual (write_file df delta
                           (write_table f (jitter_rows vs iv) d)))))))))"

record joint_part =
  rs_file :: string
  rs_bytes :: nat
  rs_hash :: string
  rs_match :: string

definition finalize_joint ::
    "(bytes \<Rightarrow> bytes) \<Rightarrow> out_paths \<Rightarrow> trial_state \<Rightarrow> raw_part \<Rightarrow> jitter_part \<Rightarrow> disk \<Rightarrow> joint_part \<times> disk" where
  "finalize_joint sha p st rp jp d =
     (if rp_complete rp then
        (let resp = rp_raw rp @ jp_bytes jp; h = hex_of (sha resp);
             f = trial_file (joint_dir p) (capture_id st) ''.response.bin''
         in (\<lparr>rs_file = f, rs_bytes = length resp, rs_hash = h,
              rs_match = hash_match st ''response_sha256'' h\<rparr>,
             append_file (all_joint p) resp (write_file f resp d)))
      else (\<lparr>rs_file = [], rs_bytes = 0, rs_hash = [], rs_match = []\<rparr>, d))"

definition span_ms :: "real option \<Rightarrow> real option \<Rightarrow> string" where
  "span_ms a b =
     (case (a, b) of (Some s, Some t) \<Rightarrow> fmt_fixed 3 ((t - s) * 1000) | _ \<Rightarrow> [])"

definition trial_row ::
    "trial_state \<Rightarrow> raw_part \<Rightarrow> jitter_part \<Rightarrow> joint_part \<Rightarrow> (string, string) dict" where
  "trial_row st rp jp rs =
     (let r = (\<lambda>k. dict_get_or (result_fields st) k [])
      in [(''capture_id'', str_of_nat (capture_id st)),
          (''protocol_trial'', str_of_int (protocol_trial st)),
          (''peer'', fst (peer st) @ '':'' @ str_of_int (snd (peer st))),
          (''complete'', bool_text (rp_complete rp)),
          (''raw_file'', rp_file rp),
          (''raw_bytes'', str_of_nat (rp_bytes rp)),
          (''raw_chunks_expected'', str_of_int (expected_chunks st)),
          (''raw_chunks_seen'', str_of_nat (length (raw_chunks st))),
          (''missing_chunks'', join '' '' (map str_of_int (missing_chunks st))),
          (''raw_sha256_file'', rp_hash rp),
          (''raw_sha256_reported'', r ''raw_sha256''),
          (''raw_sha256_match'', rp_match rp),
          (''jitter_file'', jp_file jp),
          (''jitter_delta_file'', jp_delta_file jp),
          (''jitter_residual_file'', jp_residual_file jp),
          (''jitter_delta_bytes'', str_of_nat (length (jp_bytes jp))),
          (''jitter_sha256_file'', jp_hash jp),
          (''jitter_sha256_reported'', r ''jitter_sha256''),
          (''jitter_sha256_match'', jp_match jp),
          (''jitter_count'', str_of_nat (length (jp_values jp))),
          (''response_file'', rs_file rs),
          (''response_bytes'', str_of_nat (rs_bytes rs)),
          (''response_sha256_file'', rs_hash rs),
          (''response_sha256_reported'', r ''response_sha256''),
          (''response_sha256_match'', rs_match rs),
          (''condition'', r ''condition''),
          (''packets_expected'', r ''packets_expected''),
          (''packets_seen'', r ''packets_seen''),
          (''interval_us'', dict_get_or (result_fields st) ''interval_us'' (str_of_int (nominal_interval_us st))),
          (''sample_us'', r ''sample_us''),
          (''host_hello_to_start_ms'', span_ms (Some (hello_time st)) (start_send_time st)),
          (''host_start_to_last_burst_ms'', span_ms (start_send_time st) (last_burst_send_time st)),
          (''host_first_to_last_burst_ms'', span_ms (first_burst_send_time st) (last_burst_send_time st)),
          (''host_hello_to_result_ms'', span_ms (Some (hello_time st)) (result_time st)),
          (''ones'', r ''ones''),
          (''transitions'', r ''transitions''),
          (''jitter_min_us'', r ''jitter_min_us''),
          (''jitter_mean_us'', r ''jitter_mean_us''),
          (''jitter_max_us'', r ''jitter_max_us''),
          (''response_sha256'', r ''response_sha256''),
          (''seed_sha256'', r ''seed_sha256''),
          (''hello_nonce'', hex_of (hello_nonce st)),
          (''start_nonce'', hex_of (start_nonce st))])"

text \<open>
  The whole of \<open>finalize_trial\<close>. The files written before an exception stay written, so the
  disk is returned on every branch.
\<close>

definition finalize_trial ::
    "(bytes \<Rightarrow> bytes) \<Rightarrow> out_paths \<Rightarrow> trial_state \<Rightarrow> disk \<Rightarrow> disk \<times> bool result" where
  "finalize_trial sha p st d =
     (case expected_len st of
        Inl e \<Rightarrow> (d, Inl e)
      | Inr rlen \<Rightarrow>
          (case finalize_raw sha p st rlen d of (rp, d1) \<Rightarrow>
             (case finalize_jitter sha p st d1 of
                Inl e \<Rightarrow> (d1, Inl e)
              | Inr (jp, d2) \<Rightarrow>
                  (case finalize_joint sha p st rp jp d2 of (rs, d3) \<Rightarrow>
                     (d3\<lparr>trial_table := trial_table d3 @ [trial_row st rp jp rs]\<rparr>,
                      Inr (rp_complete rp))))))"

section \<open>Sending the stimulus\<close>

text \<open>What the environment supplies while one stimulus is sent.\<close>

record stim_env =
  start_clock :: real
  burst_clock :: "int \<Rightarrow> real"
  draw_jitter :: "int \<Rightarrow> int"
  draw_payload :: "int \<Rightarrow> bytes"

record stim_log =
  sent :: "(peer \<times> bytes) list"
  schedule :: "string list list"
  first_time :: "real option"
  last_time :: "real option"

definition burst_sleep_us :: "collector_args \<Rightarrow> stim_env \<Rightarrow> int \<Rightarrow> int \<Rightarrow> int" where
  "burst_sleep_us args env iv seq =
     (if interval_jitter_us args \<noteq> 0 then max 0 (iv + draw_jitter env seq) else iv)"

definition burst_payload :: "collector_args \<Rightarrow> stim_env \<Rightarrow> int \<Rightarrow> bytes" where
  "burst_payload args env seq =
     (case payload_kind args of
        Random \<Rightarrow> draw_payload env seq
      | Counter \<Rightarrow> map (\<lambda>i. byte_of_nat (nat ((seq + int i) mod 256))) [0..<nat (max 0 (payload_bytes args))]
      | Constant \<Rightarrow> replicate (nat (max 0 (payload_bytes args))) 0x53)"

definition mode_text :: "payload_mode \<Rightarrow> string" where
  "mode_text m = (case m of Constant \<Rightarrow> ''constant'' | Counter \<Rightarrow> ''counter'' | Random \<Rightarrow> ''random'')"

definition schedule_row ::
    "(bytes \<Rightarrow> bytes) \<Rightarrow> collector_args \<Rightarrow> int \<Rightarrow> int \<Rightarrow> bytes \<Rightarrow> string list" where
  "schedule_row sha args seq sl pl =
     [str_of_int seq, str_of_int sl, mode_text (payload_kind args), str_of_nat (length pl),
      hex_of pl, if pl \<noteq> [] then hex_of (sha pl) else []]"

fun send_bursts ::
    "(bytes \<Rightarrow> bytes) \<Rightarrow> collector_args \<Rightarrow> stim_env \<Rightarrow> peer \<Rightarrow> int \<Rightarrow> int \<Rightarrow> int \<Rightarrow> bytes \<Rightarrow>
     int list \<Rightarrow> stim_log \<Rightarrow> stim_log \<times> unit result" where
  "send_bursts sha args env pr tr iv sb nn [] lg = (lg, Inr ())"
| "send_bursts sha args env pr tr iv sb nn (seq # seqs) lg =
     (let sl = burst_sleep_us args env iv seq; pl = burst_payload args env seq;
          now = burst_clock env seq
      in (case make_message TYPE_BURST tr seq sl sb nn pl of
            Inl e \<Rightarrow> (lg, Inl e)
          | Inr pkt \<Rightarrow>
              send_bursts sha args env pr tr iv sb nn seqs
                (lg\<lparr>sent := sent lg @ [(pr, pkt)],
                    schedule := schedule lg @ [schedule_row sha args seq sl pl],
                    first_time := (case first_time lg of None \<Rightarrow> Some now | Some t \<Rightarrow> Some t),
                    last_time := Some now\<rparr>)))"

definition schedule_header :: "string list" where
  "schedule_header =
     [''seq'', ''sleep_us'', ''payload_mode'', ''payload_len'', ''payload_hex'', ''payload_sha256'']"

definition or_else :: "'a option \<Rightarrow> 'a \<Rightarrow> 'a" where
  "or_else x d = (case x of None \<Rightarrow> d | Some v \<Rightarrow> v)"

definition new_trial ::
    "nat \<Rightarrow> peer \<Rightarrow> message \<Rightarrow> bytes \<Rightarrow> int \<Rightarrow> int \<Rightarrow> int \<Rightarrow> real \<Rightarrow> stim_env \<Rightarrow> stim_log \<Rightarrow> trial_state" where
  "new_trial cid pr msg nn bs iv sb ht env lg =
     \<lparr>capture_id = cid, peer = pr, protocol_trial = trial msg, hello_nonce = nonce msg,
      start_nonce = nn, bursts = bs, nominal_interval_us = iv, requested_sample_bytes = sb,
      raw_chunks_expected = None, raw_len = None, raw_chunks = [], jitter_chunks = [],
      result_fields = [], hello_time = ht, start_send_time = Some (start_clock env),
      first_burst_send_time = first_time lg, last_burst_send_time = last_time lg,
      result_time = None\<rparr>"

text \<open>
  The datagrams sent, the schedule file and, unless a field does not fit, the new trial. A negative
  \<open>--start-delay-ms\<close> makes \<open>time.sleep\<close> raise when START is already sent.
\<close>

definition send_stimulus ::
    "(bytes \<Rightarrow> bytes) \<Rightarrow> collector_args \<Rightarrow> out_paths \<Rightarrow> stim_env \<Rightarrow> peer \<Rightarrow> message \<Rightarrow> bytes \<Rightarrow>
     nat \<Rightarrow> real \<Rightarrow> disk \<Rightarrow> (peer \<times> bytes) list \<times> disk \<times> trial_state result" where
  "send_stimulus sha args p env pr msg nn cid ht d =
     (let bs = or_else (arg_bursts args) (seq_or_count msg);
          iv = or_else (arg_interval_us args) (message.interval_us msg);
          sb = or_else (arg_sample_bytes args) (message.sample_bytes msg)
      in (case make_message TYPE_START (trial msg) bs iv sb nn [] of
            Inl e \<Rightarrow> ([], d, Inl e)
          | Inr start \<Rightarrow>
              if start_delay_ms args < 0 then ([(pr, start)], d, Inl ValueError) else
              (case send_bursts sha args env pr (trial msg) iv sb nn [0..bs - 1]
                      \<lparr>sent = [(pr, start)], schedule = [schedule_header], first_time = None, last_time = None\<rparr> of
                 (lg, r) \<Rightarrow>
                   (sent lg, write_table (trial_file (stimulus_dir p) cid ''.csv'') (schedule lg) d,
                    rbind r (\<lambda>_. Inr (new_trial cid pr msg nn bs iv sb ht env lg))))))"

section \<open>The receive loop\<close>

record collector =
  states :: "(state_key, trial_state) dict"
  completed :: int
  capture_counter :: nat
  last_rx :: real
  net :: "(peer \<times> bytes) list"
  out_disk :: disk

text \<open>
  What \<open>recvfrom\<close> and the clock deliver: a timeout with the time read after it, or a datagram
  with its peer, the two times read after it and the environment of a stimulus.
\<close>

datatype event = Timeout real | Datagram bytes peer real real stim_env

datatype outcome = Running | IdleStop | Finished | Raised py_error

definition handle_result ::
    "(string, string) dict \<Rightarrow> peer \<Rightarrow> real \<Rightarrow> collector \<Rightarrow> collector \<times> outcome" where
  "handle_result res pr rx c =
     (case py_int (dict_get_or res ''trial'' ''-1'') of
        Inl e \<Rightarrow> (c, Raised e)
      | Inr tr \<Rightarrow>
          (case dict_get (states c) (pr, tr) of
             None \<Rightarrow> (c, Running)
           | Some st \<Rightarrow>
               (c\<lparr>states := dict_set (pr, tr)
                    (st\<lparr>result_fields := dict_update (result_fields st) res, result_time := Some rx\<rparr>)
                    (states c)\<rparr>, Running)))"

definition handle_hello ::
    "(bytes \<Rightarrow> bytes) \<Rightarrow> collector_args \<Rightarrow> out_paths \<Rightarrow> bytes option \<Rightarrow> message \<Rightarrow> peer \<Rightarrow> real \<Rightarrow>
     stim_env \<Rightarrow> collector \<Rightarrow> collector \<times> outcome" where
  "handle_hello sha args p fixed msg pr rx env c =
     (let cid = capture_counter c
      in (case send_stimulus sha args p env pr msg (or_else fixed (nonce msg)) cid rx (out_disk c) of
            (pkts, d, r) \<Rightarrow>
              (let c1 = c\<lparr>capture_counter := Suc cid, net := net c @ pkts, out_disk := d\<rparr>
               in (case r of
                     Inl e \<Rightarrow> (c1, Raised e)
                   | Inr st \<Rightarrow> (c1\<lparr>states := dict_set (pr, trial msg) st (states c1)\<rparr>, Running)))))"

definition update_trial :: "message \<Rightarrow> trial_state \<Rightarrow> trial_state" where
  "update_trial msg st =
     (let chunk = take (nat (message.sample_bytes msg)) (payload msg)
      in if msg_type msg = TYPE_RAW_BEGIN then
           st\<lparr>raw_chunks_expected := Some (seq_or_count msg), raw_len := Some (message.sample_bytes msg)\<rparr>
         else if msg_type msg = TYPE_RAW_CHUNK then
           st\<lparr>raw_chunks := dict_set (seq_or_count msg) chunk (raw_chunks st)\<rparr>
         else if msg_type msg = TYPE_JITTER_CHUNK then
           st\<lparr>jitter_chunks := dict_set (seq_or_count msg) chunk (jitter_chunks st)\<rparr>
         else if msg_type msg = TYPE_RAW_END then
           st\<lparr>raw_chunks_expected := Some (or_else (raw_chunks_expected st) (seq_or_count msg)),
              raw_len := Some (or_else (raw_len st) (message.sample_bytes msg))\<rparr>
         else st)"

definition handle_message ::
    "(bytes \<Rightarrow> bytes) \<Rightarrow> out_paths \<Rightarrow> message \<Rightarrow> peer \<Rightarrow> collector \<Rightarrow> collector \<times> outcome" where
  "handle_message sha p msg pr c =
     (let key = (pr, trial msg)
      in (case dict_get (states c) key of
            None \<Rightarrow> (c, Running)
          | Some st \<Rightarrow>
              (let st' = update_trial msg st; c1 = c\<lparr>states := dict_set key st' (states c)\<rparr>
               in if msg_type msg = TYPE_RAW_END then
                    (case finalize_trial sha p st' (out_disk c) of
                       (d, Inl e) \<Rightarrow> (c1\<lparr>out_disk := d\<rparr>, Raised e)
                     | (d, Inr whole) \<Rightarrow>
                         (c1\<lparr>out_disk := d, states := dict_pop key (states c1),
                             completed := completed c + (if whole then 1 else 0)\<rparr>, Running))
                  else (c1, Running))))"

definition handle_datagram ::
    "(bytes \<Rightarrow> bytes) \<Rightarrow> collector_args \<Rightarrow> out_paths \<Rightarrow> bytes option \<Rightarrow> bytes \<Rightarrow> peer \<Rightarrow> real \<Rightarrow>
     stim_env \<Rightarrow> collector \<Rightarrow> collector \<times> outcome" where
  "handle_datagram sha args p fixed data pr rx env c =
     (case parse_result_line data of
        Some res \<Rightarrow> handle_result res pr rx c
      | None \<Rightarrow>
          (case parse_message data of
             None \<Rightarrow> (c, Running)
           | Some msg \<Rightarrow>
               if msg_type msg = TYPE_HELLO then handle_hello sha args p fixed msg pr rx env c
               else handle_message sha p msg pr c))"

fun collector_step ::
    "(bytes \<Rightarrow> bytes) \<Rightarrow> collector_args \<Rightarrow> out_paths \<Rightarrow> bytes option \<Rightarrow> event \<Rightarrow> collector \<Rightarrow>
     collector \<times> outcome" where
  "collector_step sha args p fixed (Timeout now) c =
     (if now - last_rx c > idle_timeout args then (c, IdleStop) else (c, Running))"
| "collector_step sha args p fixed (Datagram data pr rx now env) c =
     handle_datagram sha args p fixed data pr rx env (c\<lparr>last_rx := now\<rparr>)"

text \<open>
  The \<open>while completed < trials\<close> loop over the events to come. \<open>Running\<close> means that the events
  ran out while the loop still waits.
\<close>

fun collector_loop ::
    "(bytes \<Rightarrow> bytes) \<Rightarrow> collector_args \<Rightarrow> out_paths \<Rightarrow> bytes option \<Rightarrow> event list \<Rightarrow> collector \<Rightarrow>
     collector \<times> outcome" where
  "collector_loop sha args p fixed evs c =
     (if completed c < trials args then
        (case evs of
           [] \<Rightarrow> (c, Running)
         | ev # evs' \<Rightarrow>
             (case collector_step sha args p fixed ev c of
                (c', Running) \<Rightarrow> collector_loop sha args p fixed evs' c'
              | r \<Rightarrow> r))
      else (c, Finished))"

declare collector_loop.simps [simp del]

definition start_collector :: "disk \<Rightarrow> real \<Rightarrow> collector" where
  "start_collector d now =
     \<lparr>states = [], completed = 0, capture_counter = 0, last_rx = now, net = [], out_disk = d\<rparr>"

text \<open>
  \<open>main\<close>: argument checks, outputs, the loop, and the manifest written again at the end. The
  disk is returned on every branch.
\<close>

definition collector_main ::
    "(bytes \<Rightarrow> bytes) \<Rightarrow> collector_args \<Rightarrow> disk \<Rightarrow> real \<Rightarrow> event list \<Rightarrow> disk \<times> (collector \<times> outcome) result" where
  "collector_main sha args d now evs =
     (let explicit = (nonce_hex args \<noteq> None \<and> nonce_hex args \<noteq> Some [])
      in if payload_bytes args < 0 then (d, Inl (SystemExit ''--payload-bytes must be >= 0''))
         else if interval_jitter_us args < 0 then (d, Inl (SystemExit ''--interval-jitter-us must be >= 0''))
         else
           (case prepare_outputs args d of (p, d1) \<Rightarrow>
              (let d2 = write_manifest args 0 d1
               in (case (if arg_fixed_nonce args \<or> explicit
                         then rbind (fixed_nonce (nonce_hex args)) (\<lambda>n. Inr (Some n)) else Inr None) of
                     Inl e \<Rightarrow> (d2, Inl e)
                   | Inr fixed \<Rightarrow>
                       (case collector_loop sha args p fixed evs (start_collector d2 now) of
                          (c, oc) \<Rightarrow>
                            (let d3 = write_manifest args (completed c) (out_disk c)
                             in (d3, Inr (c\<lparr>out_disk := d3\<rparr>, oc))))))))"

end
