(* ===== verification/AebTrials.thy ===== *)
theory AebTrials
  imports AebCollector
begin

text \<open>
  What finalising a trial leaves on the disk, and what the collector keeps true of its files
  and its trial table over a whole run.
\<close>

section \<open>Paths\<close>

definition contents :: "disk \<Rightarrow> string \<Rightarrow> bytes" where
  "contents d q = dict_get_or (files d) q []"

lemma contents_simps [simp]:
  "contents (write_file q bs d) r = (if r = q then bs else contents d r)"
  "contents (append_file q bs d) r = (if r = q then contents d q @ bs else contents d r)"
  "contents (write_table q rows d) = contents d"
  "contents (d\<lparr>trial_table := t\<rparr>) = contents d"
  "contents (d\<lparr>manifest_json := m\<rparr>) = contents d"
  by (simp_all add: contents_def write_file_def append_file_def write_table_def fun_eq_iff)

lemma trial_table_simps [simp]:
  "trial_table (write_file q bs d) = trial_table d"
  "trial_table (append_file q bs d) = trial_table d"
  "trial_table (write_table q rows d) = trial_table d"
  by (simp_all add: write_file_def append_file_def write_table_def)

lemma trial_file_inject:
  "trial_file dir i (CHR ''.'' # s) = trial_file dir j (CHR ''.'' # t) \<longleftrightarrow> i = j \<and> s = t"
proof
  have d: "digit_value 10 CHR ''.'' = None" by (simp add: digit_value_def code_def)
  assume "trial_file dir i (CHR ''.'' # s) = trial_file dir j (CHR ''.'' # t)"
  then have "fmt_dec 6 i @ CHR ''.'' # s = fmt_dec 6 j @ CHR ''.'' # t"
    by (simp add: trial_file_def path_join_def)
  from digits_then_other [OF fmt_dec_digits fmt_dec_digits d d this]
  show "i = j \<and> s = t" by (simp add: fmt_dec_inject)
qed simp

text \<open>The four files that gather all trials, and the files one trial owns.\<close>

definition gathered :: "out_paths \<Rightarrow> string set" where
  "gathered p = {all_bin p, all_jitter_delta p, all_jitter_residual p, all_joint p}"

definition owned :: "out_paths \<Rightarrow> nat \<Rightarrow> string set" where
  "owned p i =
     {trial_file (raw_dir p) i ''.bin'', trial_file (raw_dir p) i ''.partial.bin'',
      trial_file (jitter_dir p) i ''.delta_u32le.bin'', trial_file (jitter_dir p) i ''.residual_s32le.bin'',
      trial_file (joint_dir p) i ''.response.bin''}"

lemma paths_apart:
  assumes "p = output_paths out"
  shows "trial_file (raw_dir p) i s \<noteq> trial_file (jitter_dir p) j t"
    and "trial_file (raw_dir p) i s \<noteq> trial_file (joint_dir p) j t"
    and "trial_file (jitter_dir p) i s \<noteq> trial_file (joint_dir p) j t"
    and "trial_file (raw_dir p) i s \<notin> gathered p"
    and "trial_file (jitter_dir p) i s \<notin> gathered p"
    and "trial_file (joint_dir p) i s \<notin> gathered p"
  by (simp_all add: assms output_paths_def trial_file_def path_join_def gathered_def)

lemma gathered_distinct:
  assumes "p = output_paths out"
  shows "distinct [all_bin p, all_jitter_delta p, all_jitter_residual p, all_joint p]"
  by (simp add: assms output_paths_def path_join_def)

lemma owned_apart:
  assumes "p = output_paths out" and "i \<noteq> j"
  shows "owned p i \<inter> owned p j = {}"
  using assms(2) paths_apart(1-3) [OF assms(1)]
    paths_apart(1-3) [OF assms(1), THEN not_sym]
  by (auto simp: owned_def trial_file_inject)

lemma owned_not_gathered: "p = output_paths out \<Longrightarrow> owned p i \<inter> gathered p = {}"
  using paths_apart(4-6) by (auto simp: owned_def)

section \<open>One trial\<close>

lemma expected_chunks_missing:
  "missing_chunks st = [] \<longleftrightarrow> (\<forall>i. 0 \<le> i \<and> i < expected_chunks st \<longrightarrow> dict_in i (raw_chunks st))"
  by (auto simp: missing_chunks_def filter_empty_conv)

text \<open>The condition under which a trial counts as complete.\<close>

definition trial_whole :: "trial_state \<Rightarrow> int \<Rightarrow> bool" where
  "trial_whole st rlen \<longleftrightarrow> 0 < expected_chunks st \<and> 0 < rlen \<and> missing_chunks st = []
     \<and> rlen \<le> int (length (joined_chunks st [0..expected_chunks st - 1]))"

definition trial_raw :: "trial_state \<Rightarrow> int \<Rightarrow> bytes" where
  "trial_raw st rlen = take (nat rlen) (joined_chunks st [0..expected_chunks st - 1])"

lemma finalize_raw_whole:
  assumes "trial_whole st rlen"
  shows "finalize_raw sha p st rlen d =
    (\<lparr>rp_complete = True, rp_raw = trial_raw st rlen,
      rp_file = trial_file (raw_dir p) (capture_id st) ''.bin'', rp_bytes = nat rlen,
      rp_hash = hex_of (sha (trial_raw st rlen)),
      rp_match = hash_match st ''raw_sha256'' (hex_of (sha (trial_raw st rlen)))\<rparr>,
     append_file (all_bin p) (trial_raw st rlen)
       (write_file (trial_file (raw_dir p) (capture_id st) ''.bin'') (trial_raw st rlen) d))"
  using assms by (simp add: finalize_raw_def trial_whole_def trial_raw_def Let_def min_absorb2 nat_le_iff)

lemma finalize_raw_partial:
  assumes "\<not> trial_whole st rlen" and "finalize_raw sha p st rlen d = (rp, d')"
  shows "\<not> rp_complete rp"
    and "d' = d \<or> (\<exists>part. d' = write_file (trial_file (raw_dir p) (capture_id st) ''.partial.bin'') part d)"
proof -
  have n: "\<not> (0 < expected_chunks st \<and> 0 < rlen \<and> missing_chunks st = []
      \<and> int (length (take (nat rlen) (joined_chunks st [0..expected_chunks st - 1]))) = rlen)"
    using assms(1) by (auto simp: trial_whole_def)
  then show "\<not> rp_complete rp"
    and "d' = d \<or> (\<exists>part. d' = write_file (trial_file (raw_dir p) (capture_id st) ''.partial.bin'') part d)"
    using assms(2) by (auto simp: finalize_raw_def Let_def split: if_splits)
qed

lemma finalize_raw_complete_iff:
  assumes "finalize_raw sha p st rlen d = (rp, d')"
  shows "rp_complete rp \<longleftrightarrow> trial_whole st rlen"
  using finalize_raw_partial(1) [OF _ assms] finalize_raw_whole assms by (cases "trial_whole st rlen") auto

lemma finalize_raw_table:
  "finalize_raw sha p st rlen d = (rp, d') \<Longrightarrow> trial_table d' = trial_table d"
  using finalize_raw_partial(2) [of st rlen sha p d rp d']
  by (cases "trial_whole st rlen") (auto simp: finalize_raw_whole)

lemma finalize_jitter_cases:
  assumes "finalize_jitter sha p st d = Inr (jp, d')"
  obtains (none) "jitter_values st = []" "d' = d" "jp_bytes jp = []" "jp_file jp = []"
      "jp_delta_file jp = []" "jp_values jp = []"
  | (some) iv residual where "jitter_values st \<noteq> []" "result_interval st = Inr iv"
      "pack_jitter_delta_u32le (jitter_values st) = Inr (jp_bytes jp)"
      "pack_jitter_residual_s32le (jitter_values st) iv = Inr residual"
      "jp_values jp = jitter_values st"
      "jp_file jp = trial_file (jitter_dir p) (capture_id st) ''.csv''"
      "jp_delta_file jp = trial_file (jitter_dir p) (capture_id st) ''.delta_u32le.bin''"
      "jp_residual_file jp = trial_file (jitter_dir p) (capture_id st) ''.residual_s32le.bin''"
      "d' = append_file (all_jitter_residual p) residual
        (append_file (all_jitter_delta p) (jp_bytes jp)
          (write_file (trial_file (jitter_dir p) (capture_id st) ''.residual_s32le.bin'') residual
            (write_file (trial_file (jitter_dir p) (capture_id st) ''.delta_u32le.bin'') (jp_bytes jp)
              (write_table (trial_file (jitter_dir p) (capture_id st) ''.csv'')
                (jitter_rows (jitter_values st) iv) d))))"
proof (cases "jitter_values st = []")
  case True
  then show ?thesis using assms none by (auto simp: finalize_jitter_def)
next
  case False
  then show ?thesis
    using assms unfolding finalize_jitter_def Let_def
    by (auto simp: result_simps intro!: some)
qed

lemma finalize_joint_simps:
  "rp_complete rp \<Longrightarrow> finalize_joint sha p st rp jp d =
     (let resp = rp_raw rp @ jp_bytes jp; f = trial_file (joint_dir p) (capture_id st) ''.response.bin''
      in (\<lparr>rs_file = f, rs_bytes = length resp, rs_hash = hex_of (sha resp),
           rs_match = hash_match st ''response_sha256'' (hex_of (sha resp))\<rparr>,
          append_file (all_joint p) resp (write_file f resp d)))"
  "\<not> rp_complete rp \<Longrightarrow> finalize_joint sha p st rp jp d =
     (\<lparr>rs_file = [], rs_bytes = 0, rs_hash = [], rs_match = []\<rparr>, d)"
  by (simp_all add: finalize_joint_def Let_def)

lemma finalize_trial_Inr:
  assumes "finalize_trial sha p st d = (d', Inr whole)"
  obtains rlen rp d1 jp d2 rs d3 where "expected_len st = Inr rlen"
    "finalize_raw sha p st rlen d = (rp, d1)" "finalize_jitter sha p st d1 = Inr (jp, d2)"
    "finalize_joint sha p st rp jp d2 = (rs, d3)" "whole = rp_complete rp"
    "d' = d3\<lparr>trial_table := trial_table d3 @ [trial_row st rp jp rs]\<rparr>"
  using assms by (auto simp: finalize_trial_def split: sum.splits prod.splits)

lemmas trial_row_simps = trial_row_def dict_get_or_def dict_get_def Let_def

lemma trial_row_fields:
  "dict_get_or (trial_row st rp jp rs) ''capture_id'' [] = str_of_nat (capture_id st)"
  "dict_get_or (trial_row st rp jp rs) ''complete'' [] = bool_text (rp_complete rp)"
  "dict_get_or (trial_row st rp jp rs) ''raw_file'' [] = rp_file rp"
  "dict_get (trial_row st rp jp rs) ''raw_bytes'' = Some (str_of_nat (rp_bytes rp))"
  "dict_get (trial_row st rp jp rs) ''raw_sha256_file'' = Some (rp_hash rp)"
  "dict_get_or (trial_row st rp jp rs) ''jitter_delta_file'' [] = jp_delta_file jp"
  "dict_get_or (trial_row st rp jp rs) ''jitter_residual_file'' [] = jp_residual_file jp"
  "dict_get_or (trial_row st rp jp rs) ''response_file'' [] = rs_file rs"
  by (simp_all add: trial_row_simps)

section \<open>The disk invariant\<close>

definition row_text :: "(string, string) dict \<Rightarrow> string \<Rightarrow> string" where
  "row_text r k = dict_get_or r k []"

definition row_complete :: "(string, string) dict \<Rightarrow> bool" where
  "row_complete r \<longleftrightarrow> row_text r ''complete'' = ''True''"

definition row_jitter :: "(string, string) dict \<Rightarrow> bool" where
  "row_jitter r \<longleftrightarrow> row_text r ''jitter_delta_file'' \<noteq> []"

text \<open>The bytes of the files that a column of some rows names, in the order of the rows.\<close>

definition named_bytes :: "disk \<Rightarrow> string \<Rightarrow> (string, string) dict list \<Rightarrow> bytes" where
  "named_bytes d k rs = concat (map (\<lambda>r. contents d (row_text r k)) rs)"

text \<open>A row names only files of its own trial.\<close>

definition row_owned :: "out_paths \<Rightarrow> nat \<Rightarrow> (string, string) dict \<Rightarrow> bool" where
  "row_owned p i r \<longleftrightarrow> row_text r ''capture_id'' = str_of_nat i
     \<and> (row_complete r \<longrightarrow> row_text r ''raw_file'' \<in> owned p i \<and> row_text r ''response_file'' \<in> owned p i)
     \<and> (row_jitter r \<longrightarrow> row_text r ''jitter_delta_file'' \<in> owned p i)"

text \<open>What a complete row says of its files.\<close>

definition row_true :: "(bytes \<Rightarrow> bytes) \<Rightarrow> disk \<Rightarrow> (string, string) dict \<Rightarrow> bool" where
  "row_true sha d r \<longleftrightarrow> (row_complete r \<longrightarrow>
     (let raw = contents d (row_text r ''raw_file'')
      in raw \<noteq> [] \<and> dict_get r ''raw_bytes'' = Some (str_of_nat (length raw))
       \<and> dict_get r ''raw_sha256_file'' = Some (hex_of (sha raw))
       \<and> contents d (row_text r ''response_file'') =
           raw @ (if row_jitter r then contents d (row_text r ''jitter_delta_file'') else [])))"

definition disk_consistent :: "(bytes \<Rightarrow> bytes) \<Rightarrow> out_paths \<Rightarrow> disk \<Rightarrow> bool" where
  "disk_consistent sha p d \<longleftrightarrow>
     contents d (all_bin p) = named_bytes d ''raw_file'' (filter row_complete (trial_table d))
   \<and> contents d (all_joint p) = named_bytes d ''response_file'' (filter row_complete (trial_table d))
   \<and> contents d (all_jitter_delta p) = named_bytes d ''jitter_delta_file'' (filter row_jitter (trial_table d))
   \<and> list_all (row_true sha d) (trial_table d)"

lemma named_bytes_cong:
  "(\<And>r. r \<in> set rs \<Longrightarrow> contents d (row_text r k) = contents d' (row_text r k)) \<Longrightarrow>
     named_bytes d k rs = named_bytes d' k rs"
  unfolding named_bytes_def by (metis (no_types, lifting) map_cong)

lemma row_true_cong:
  assumes "row_true sha d r" and "row_owned p i r" and "\<And>q. q \<in> owned p i \<Longrightarrow> contents d' q = contents d q"
  shows "row_true sha d' r"
  using assms by (auto simp: row_true_def row_owned_def Let_def)

text \<open>
  The residual files: a row with inter-arrival times names a residual file of its own trial, which
  holds the differences of these times to one interval, and the residual file of all trials is made
  of them.
\<close>

definition residual_owned :: "out_paths \<Rightarrow> nat \<Rightarrow> (string, string) dict \<Rightarrow> bool" where
  "residual_owned p i r \<longleftrightarrow> (row_jitter r \<longrightarrow> row_text r ''jitter_residual_file'' \<in> owned p i)"

definition residual_true :: "disk \<Rightarrow> (string, string) dict \<Rightarrow> bool" where
  "residual_true d r \<longleftrightarrow> (row_jitter r \<longrightarrow>
     (\<exists>vs iv. vs \<noteq> [] \<and> pack_jitter_delta_u32le vs = Inr (contents d (row_text r ''jitter_delta_file''))
        \<and> pack_jitter_residual_s32le vs iv = Inr (contents d (row_text r ''jitter_residual_file''))))"

definition residuals_consistent :: "out_paths \<Rightarrow> disk \<Rightarrow> bool" where
  "residuals_consistent p d \<longleftrightarrow>
     contents d (all_jitter_residual p) = named_bytes d ''jitter_residual_file'' (filter row_jitter (trial_table d))
   \<and> list_all (residual_true d) (trial_table d)"

definition files_agree :: "(bytes \<Rightarrow> bytes) \<Rightarrow> out_paths \<Rightarrow> disk \<Rightarrow> bool" where
  "files_agree sha p d \<longleftrightarrow> disk_consistent sha p d \<and> residuals_consistent p d"

definition row_named :: "out_paths \<Rightarrow> nat \<Rightarrow> (string, string) dict \<Rightarrow> bool" where
  "row_named p i r \<longleftrightarrow> row_owned p i r \<and> residual_owned p i r"

lemma residual_true_cong:
  assumes "residual_true d r" and "row_named p i r" and "\<And>q. q \<in> owned p i \<Longrightarrow> contents d' q = contents d q"
  shows "residual_true d' r"
  using assms by (auto simp: residual_true_def row_named_def row_owned_def residual_owned_def)

text \<open>Finalising one trial, seen from the outside.\<close>

lemma trial_paths_distinct:
  assumes "p = output_paths out"
  shows "distinct [all_bin p, all_jitter_delta p, all_jitter_residual p, all_joint p,
     trial_file (raw_dir p) i ''.bin'', trial_file (raw_dir p) i ''.partial.bin'',
     trial_file (jitter_dir p) i ''.delta_u32le.bin'', trial_file (jitter_dir p) i ''.residual_s32le.bin'',
     trial_file (joint_dir p) i ''.response.bin'']"
  by (simp add: assms output_paths_def trial_file_def path_join_def)

lemma trial_paths_distinct_rev:
  assumes "p = output_paths out"
  shows "distinct [trial_file (joint_dir p) i ''.response.bin'', trial_file (jitter_dir p) i ''.residual_s32le.bin'',
     trial_file (jitter_dir p) i ''.delta_u32le.bin'', trial_file (raw_dir p) i ''.partial.bin'',
     trial_file (raw_dir p) i ''.bin'', all_joint p, all_jitter_residual p, all_jitter_delta p, all_bin p]"
  using trial_paths_distinct [OF assms, of i] by simp (metis)

definition raw_added :: "disk \<Rightarrow> (string, string) dict \<Rightarrow> string \<Rightarrow> bytes" where
  "raw_added d r k = (if row_complete r then contents d (row_text r k) else [])"

lemma finalize_trial_effect:
  assumes p: "p = output_paths out" and fin: "finalize_trial sha p st d = (d', Inr whole)"
  obtains r where "trial_table d' = trial_table d @ [r]" "row_complete r = whole"
    "row_named p (capture_id st) r" "row_true sha d' r" "residual_true d' r"
    "contents d' (all_bin p) = contents d (all_bin p) @ raw_added d' r ''raw_file''"
    "contents d' (all_joint p) = contents d (all_joint p) @ raw_added d' r ''response_file''"
    "contents d' (all_jitter_delta p) = contents d (all_jitter_delta p)
       @ (if row_jitter r then contents d' (row_text r ''jitter_delta_file'') else [])"
    "contents d' (all_jitter_residual p) = contents d (all_jitter_residual p)
       @ (if row_jitter r then contents d' (row_text r ''jitter_residual_file'') else [])"
    "\<And>q. q \<notin> owned p (capture_id st) \<Longrightarrow> q \<notin> gathered p \<Longrightarrow> contents d' q = contents d q"
proof -
  obtain rlen rp d1 jp d2 rs d3 where rlen: "expected_len st = Inr rlen"
    and raw: "finalize_raw sha p st rlen d = (rp, d1)"
    and jit: "finalize_jitter sha p st d1 = Inr (jp, d2)"
    and joint: "finalize_joint sha p st rp jp d2 = (rs, d3)" and whole: "whole = rp_complete rp"
    and d': "d' = d3\<lparr>trial_table := trial_table d3 @ [trial_row st rp jp rs]\<rparr>"
    by (rule finalize_trial_Inr [OF fin])
  let ?r = "trial_row st rp jp rs"
  note row = trial_row_fields [of st rp jp rs, folded row_text_def]
  note paths = trial_paths_distinct [OF p, of "capture_id st", simplified]
  note paths_rev = trial_paths_distinct_rev [OF p, of "capture_id st", simplified]
  have ne: "trial_file dir i t \<noteq> []" for dir i t by (simp add: trial_file_def path_join_def)
  have t1: "trial_table d1 = trial_table d" by (rule finalize_raw_table [OF raw])
  have b: "bool_text x = ''True'' \<longleftrightarrow> x" for x by (simp add: bool_text_def)
  have packed: "\<exists>vs. vs \<noteq> [] \<and> pack_jitter_delta_u32le vs = Inr x \<and> (\<exists>iv. pack_jitter_residual_s32le vs iv = Inr y)"
    if "jitter_values st \<noteq> []" "pack_jitter_delta_u32le (jitter_values st) = Inr x"
      "pack_jitter_residual_s32le (jitter_values st) iv = Inr y" for x y iv
    using that by blast
  note defs = packed row_named_def residual_owned_def residual_true_def row_owned_def row_true_def row_complete_def row_jitter_def raw_added_def owned_def
    gathered_def row b ne t1 paths paths_rev whole
  show ?thesis
  proof (cases "trial_whole st rlen")
    case True
    from finalize_raw_whole [OF True, of sha p d, unfolded raw]
    have d1: "d1 = append_file (all_bin p) (trial_raw st rlen)
         (write_file (trial_file (raw_dir p) (capture_id st) ''.bin'') (trial_raw st rlen) d)"
      and rp: "rp_complete rp" "rp_raw rp = trial_raw st rlen" "rp_bytes rp = nat rlen"
        "rp_file rp = trial_file (raw_dir p) (capture_id st) ''.bin''"
        "rp_hash rp = hex_of (sha (trial_raw st rlen))"
      by simp_all
    have len: "length (trial_raw st rlen) = nat rlen" and ne_raw: "trial_raw st rlen \<noteq> []"
      using True by (auto simp: trial_raw_def trial_whole_def min_absorb2 nat_le_iff)
    from joint [unfolded finalize_joint_simps(1) [OF rp(1)] Let_def]
    have d3: "d3 = append_file (all_joint p) (rp_raw rp @ jp_bytes jp)
         (write_file (trial_file (joint_dir p) (capture_id st) ''.response.bin'') (rp_raw rp @ jp_bytes jp) d2)"
      and rs: "rs_file rs = trial_file (joint_dir p) (capture_id st) ''.response.bin''"
      by (simp_all add: prod_eq_iff) auto
    show ?thesis
      by (rule finalize_jitter_cases [OF jit]; rule that [of ?r])
        (simp_all add: d' d3 d1 rs rp len ne_raw Let_def defs)
  next
    case False
    note r1 = finalize_raw_partial [OF False raw]
    from joint [unfolded finalize_joint_simps(2) [OF r1(1)]]
    have d3: "d3 = d2" and rs: "rs_file rs = []" by simp_all auto
    have c: "contents d1 q = contents d q"
      if "q \<notin> owned p (capture_id st) \<or> q \<in> gathered p" for q
      using r1(2) that by (auto simp: owned_def gathered_def paths)
    have c': "contents d1 (all_bin p) = contents d (all_bin p)"
      "contents d1 (all_joint p) = contents d (all_joint p)"
      "contents d1 (all_jitter_delta p) = contents d (all_jitter_delta p)"
      "contents d1 (all_jitter_residual p) = contents d (all_jitter_residual p)"
      by (rule c; simp add: gathered_def)+
    show ?thesis
      by (rule finalize_jitter_cases [OF jit]; rule that [of ?r])
        (simp_all add: d' d3 rs r1(1) c' c Let_def defs)
  qed
qed

lemma named_bytes_snoc: "named_bytes d k (rs @ [r]) = named_bytes d k rs @ contents d (row_text r k)"
  by (simp add: named_bytes_def)

lemma finalize_keeps_consistent:
  assumes p: "p = output_paths out" and fin: "finalize_trial sha p st d = (d', Inr whole)"
    and con: "files_agree sha p d" and ids: "list_all2 (row_named p) ids (trial_table d)"
    and fresh: "capture_id st \<notin> set ids"
  obtains r where "files_agree sha p d'" "trial_table d' = trial_table d @ [r]"
    "row_named p (capture_id st) r" "row_complete r = whole"
proof -
  obtain r where t: "trial_table d' = trial_table d @ [r]" and c: "row_complete r = whole"
    and o1: "row_named p (capture_id st) r" and tr: "row_true sha d' r" and rt: "residual_true d' r"
    and bin: "contents d' (all_bin p) = contents d (all_bin p) @ raw_added d' r ''raw_file''"
    and joint: "contents d' (all_joint p) = contents d (all_joint p) @ raw_added d' r ''response_file''"
    and delta: "contents d' (all_jitter_delta p) = contents d (all_jitter_delta p)
       @ (if row_jitter r then contents d' (row_text r ''jitter_delta_file'') else [])"
    and residual: "contents d' (all_jitter_residual p) = contents d (all_jitter_residual p)
       @ (if row_jitter r then contents d' (row_text r ''jitter_residual_file'') else [])"
    and other: "\<And>q. q \<notin> owned p (capture_id st) \<Longrightarrow> q \<notin> gathered p \<Longrightarrow> contents d' q = contents d q"
    by (rule finalize_trial_effect [OF p fin]) blast
  have keep: "contents d' q = contents d q" if "q \<in> owned p i" "i \<in> set ids" for q i
    using that fresh owned_apart [OF p, of i "capture_id st"] owned_not_gathered [OF p, of i]
    by (intro other) auto
  have old: "\<exists>i \<in> set ids. row_named p i s" if "s \<in> set (trial_table d)" for s
    using ids that by (metis list_all2_conv_all_nth in_set_conv_nth)
  have same: "named_bytes d k (filter P (trial_table d)) = named_bytes d' k (filter P (trial_table d))"
    if "\<And>i s. row_named p i s \<Longrightarrow> P s \<Longrightarrow> row_text s k \<in> owned p i" for k P
    using old that keep by (intro named_bytes_cong) fastforce
  have rows: "row_true sha d' s" "residual_true d' s" if s: "s \<in> set (trial_table d)" for s
  proof -
    obtain i where i: "i \<in> set ids" "row_named p i s" using old [OF s] by blast
    have k: "contents d' q = contents d q" if "q \<in> owned p i" for q using keep i(1) that by blast
    have "row_true sha d s" "residual_true d s"
      using con s by (auto simp: files_agree_def disk_consistent_def residuals_consistent_def list_all_iff)
    then show "row_true sha d' s" "residual_true d' s"
      using row_true_cong [OF _ _ k] residual_true_cong [OF _ i(2) k] i(2) by (auto simp: row_named_def)
  qed
  have same4: "named_bytes d ''raw_file'' (filter row_complete (trial_table d))
      = named_bytes d' ''raw_file'' (filter row_complete (trial_table d))"
    "named_bytes d ''response_file'' (filter row_complete (trial_table d))
      = named_bytes d' ''response_file'' (filter row_complete (trial_table d))"
    "named_bytes d ''jitter_delta_file'' (filter row_jitter (trial_table d))
      = named_bytes d' ''jitter_delta_file'' (filter row_jitter (trial_table d))"
    "named_bytes d ''jitter_residual_file'' (filter row_jitter (trial_table d))
      = named_bytes d' ''jitter_residual_file'' (filter row_jitter (trial_table d))"
    by (rule same; simp add: row_named_def row_owned_def residual_owned_def)+
  have "disk_consistent sha p d'"
    using con bin joint delta tr rows(1) same4
    by (simp add: files_agree_def disk_consistent_def t named_bytes_snoc raw_added_def list_all_iff)
  moreover have "residuals_consistent p d'"
    using con residual rt rows(2) same4(4)
    by (simp add: files_agree_def residuals_consistent_def t named_bytes_snoc list_all_iff)
  ultimately show ?thesis using t c o1 by (intro that) (simp_all add: files_agree_def)
qed

section \<open>The run\<close>

definition collector_inv :: "(bytes \<Rightarrow> bytes) \<Rightarrow> out_paths \<Rightarrow> collector \<Rightarrow> bool" where
  "collector_inv sha p c \<longleftrightarrow> dict_ok (states c) \<and> files_agree sha p (out_disk c)
     \<and> completed c = int (length (filter row_complete (trial_table (out_disk c))))
     \<and> (\<exists>ids. list_all2 (row_named p) ids (trial_table (out_disk c))
          \<and> distinct (ids @ map (capture_id \<circ> snd) (states c))
          \<and> (\<forall>i \<in> set (ids @ map (capture_id \<circ> snd) (states c)). i < capture_counter c))"

lemma collector_invI:
  assumes "dict_ok (states c)" and "files_agree sha p (out_disk c)"
    and "completed c = int (length (filter row_complete (trial_table (out_disk c))))"
    and "list_all2 (row_named p) ids (trial_table (out_disk c))"
    and "distinct (ids @ map (capture_id \<circ> snd) (states c))"
    and "\<forall>i \<in> set (ids @ map (capture_id \<circ> snd) (states c)). i < capture_counter c"
  shows "collector_inv sha p c"
  using assms unfolding collector_inv_def by blast

lemma collector_invE:
  assumes "collector_inv sha p c"
  obtains ids where "dict_ok (states c)" "files_agree sha p (out_disk c)"
    "completed c = int (length (filter row_complete (trial_table (out_disk c))))"
    "list_all2 (row_named p) ids (trial_table (out_disk c))"
    "distinct (ids @ map (capture_id \<circ> snd) (states c))"
    "\<forall>i \<in> set (ids @ map (capture_id \<circ> snd) (states c)). i < capture_counter c"
  using assms unfolding collector_inv_def by blast

lemma dict_set_present:
  "dict_get d k = Some v \<Longrightarrow> f (snd (k, w)) = f (snd (k, v)) \<Longrightarrow>
     map (f \<circ> snd) (dict_set k w d) = map (f \<circ> snd) d"
  unfolding dict_get_def dict_set_def by (induction d) auto

lemma dict_set_ids:
  "set (map (f \<circ> snd) (dict_set k w d)) \<subseteq> insert (f w) (set (map (f \<circ> snd) d))"
  unfolding dict_set_def by (induction d) auto

lemma dict_set_fresh:
  assumes "distinct (map (f \<circ> snd) d)" and "f w \<notin> set (map (f \<circ> snd) d)"
  shows "distinct (map (f \<circ> snd) (dict_set k w d))"
  using assms
proof (induction d)
  case (Cons e d)
  then show ?case
    using dict_set_ids [of f k w d] by (cases e) (auto simp: dict_set_def)
qed (simp add: dict_set_def)

lemma dict_pop_ids:
  assumes "dict_ok d" and "dict_get d k = Some v" and "distinct (map (f \<circ> snd) d)"
  shows "distinct (f v # map (f \<circ> snd) (dict_pop k d))"
    and "set (map (f \<circ> snd) (dict_pop k d)) \<subseteq> set (map (f \<circ> snd) d)"
proof -
  have "set (dict_pop k d) \<subseteq> set d" and d: "dict_pop k d = filter (\<lambda>e. fst e \<noteq> k) d"
    by (auto simp: dict_pop_def AList.delete_eq intro!: filter_cong)
  then show "set (map (f \<circ> snd) (dict_pop k d)) \<subseteq> set (map (f \<circ> snd) d)" by auto
  have "(k, v) \<in> set d" using assms(2) by (auto simp: dict_get_def dest: map_of_SomeD)
  moreover have "distinct (map (f \<circ> snd) (dict_pop k d))"
    unfolding d using assms(3) by (rule distinct_map_filter)
  ultimately show "distinct (f v # map (f \<circ> snd) (dict_pop k d))"
    using assms(3) unfolding d by (auto simp: distinct_map inj_on_def) fastforce
qed

lemma files_agree_write_table [simp]:
  "files_agree sha p (write_table q rows d) = files_agree sha p d"
proof -
  have "row_true sha (write_table q rows d) = row_true sha d"
      "residual_true (write_table q rows d) = residual_true d"
    by (simp_all add: fun_eq_iff row_true_def residual_true_def)
  then show ?thesis
    by (simp add: files_agree_def residuals_consistent_def disk_consistent_def named_bytes_def)
qed

lemma send_stimulus_disk:
  "send_stimulus sha args p env pr msg nn cid ht d = (pkts, d', r) \<Longrightarrow>
     d' = d \<or> (\<exists>q rows. d' = write_table q rows d)"
  by (auto simp: send_stimulus_def Let_def split: if_splits sum.splits prod.splits)

lemma send_stimulus_id:
  "send_stimulus sha args p env pr msg nn cid ht d = (pkts, d', Inr st) \<Longrightarrow> capture_id st = cid"
  by (auto simp: send_stimulus_def Let_def new_trial_def result_simps split: if_splits sum.splits prod.splits)

lemma collector_inv_states:
  assumes "collector_inv sha p c" and "dict_ok ss"
    and "map (capture_id \<circ> snd) ss = map (capture_id \<circ> snd) (states c)"
  shows "collector_inv sha p (c\<lparr>states := ss\<rparr>)"
  using assms by (simp add: collector_inv_def)

lemma collector_inv_put_same:
  assumes "collector_inv sha p c" and "dict_get (states c) k = Some st" and "capture_id st' = capture_id st"
  shows "collector_inv sha p (c\<lparr>states := dict_set k st' (states c)\<rparr>)"
  using assms(1)
proof (rule collector_inv_states)
  show "dict_ok (dict_set k st' (states c))"
    using assms(1) by (simp add: collector_inv_def)
qed (rule dict_set_present [OF assms(2)], simp add: assms(3))

lemma capture_id_update [simp]: "capture_id (update_trial msg st) = capture_id st"
  by (simp add: update_trial_def Let_def)

lemma handle_hello_inv:
  assumes "collector_inv sha p c" and "handle_hello sha args p fixed msg pr rx env c = (c', oc)"
  shows "collector_inv sha p c'"
proof -
  obtain pkts d r where s: "send_stimulus sha args p env pr msg (or_else fixed (nonce msg))
      (capture_counter c) rx (out_disk c) = (pkts, d, r)" by (metis prod_cases3)
  let ?c1 = "c\<lparr>capture_counter := Suc (capture_counter c), net := net c @ pkts, out_disk := d\<rparr>"
  from send_stimulus_disk [OF s]
  have d: "files_agree sha p d = files_agree sha p (out_disk c)"
      "trial_table d = trial_table (out_disk c)" by auto
  obtain ids where inv: "dict_ok (states c)" "files_agree sha p (out_disk c)"
      "completed c = int (length (filter row_complete (trial_table (out_disk c))))"
    and ids: "list_all2 (row_named p) ids (trial_table (out_disk c))"
    and dist: "distinct (ids @ map (capture_id \<circ> snd) (states c))"
    and less: "\<forall>i \<in> set (ids @ map (capture_id \<circ> snd) (states c)). i < capture_counter c"
    by (rule collector_invE [OF assms(1)])
  show ?thesis
  proof (cases r)
    case (Inl e)
    then have "c' = ?c1" using assms(2) s by (auto simp: handle_hello_def Let_def)
    moreover have "\<forall>i \<in> set (ids @ map (capture_id \<circ> snd) (states c)). i < Suc (capture_counter c)"
      using less less_SucI by blast
    ultimately show ?thesis
      using inv ids dist by (intro collector_invI [of _ _ _ ids]) (simp_all add: d)
  next
    case (Inr st)
    let ?ss = "dict_set (pr, trial msg) st (states c)"
    have c': "c' = ?c1\<lparr>states := ?ss\<rparr>"
      using assms(2) s Inr by (auto simp: handle_hello_def Let_def)
    have id: "capture_id st = capture_counter c" using s Inr send_stimulus_id by blast
    have sub: "set (map (capture_id \<circ> snd) ?ss)
        \<subseteq> insert (capture_counter c) (set (map (capture_id \<circ> snd) (states c)))"
      using dict_set_ids [of capture_id "(pr, trial msg)" st "states c"] by (simp add: id)
    have fresh: "capture_id st \<notin> set (map (capture_id \<circ> snd) (states c))"
      using less unfolding id by (auto simp del: set_map)
    have cids: "capture_counter c \<notin> set ids"
      using less by auto
    have "distinct (ids @ map (capture_id \<circ> snd) ?ss)"
      unfolding distinct_append
    proof (intro conjI)
      show "distinct (map (capture_id \<circ> snd) ?ss)"
        by (rule dict_set_fresh [OF _ fresh]) (use dist in simp)
      show "set ids \<inter> set (map (capture_id \<circ> snd) ?ss) = {}"
        using sub cids dist by (auto simp del: set_map)
    qed (use dist in simp)
    moreover have "i < Suc (capture_counter c)" if "i \<in> set (ids @ map (capture_id \<circ> snd) ?ss)" for i
    proof -
      have "i \<in> set ids \<or> i = capture_counter c \<or> i \<in> set (map (capture_id \<circ> snd) (states c))"
        using that sub by (auto simp del: set_map)
      then show ?thesis using less by (auto simp del: set_map intro: less_SucI)
    qed
    ultimately show ?thesis
      using inv ids unfolding c' by (intro collector_invI [of _ _ _ ids]) (simp_all add: d)
  qed
qed

lemma handle_message_inv:
  assumes p: "p = output_paths out" and inv: "collector_inv sha p c"
    and h: "handle_message sha p msg pr c = (c', oc)" and run: "\<forall>e. oc \<noteq> Raised e"
  shows "collector_inv sha p c'"
proof (cases "dict_get (states c) (pr, trial msg)")
  case None
  then show ?thesis using h inv by (simp add: handle_message_def Let_def)
next
  case (Some st)
  let ?k = "(pr, trial msg)" and ?st = "update_trial msg st"
  let ?ss = "dict_set ?k ?st (states c)"
  let ?c1 = "c\<lparr>states := ?ss\<rparr>"
  have c1: "collector_inv sha p ?c1"
    by (rule collector_inv_put_same [OF inv Some]) simp
  show ?thesis
  proof (cases "msg_type msg = TYPE_RAW_END")
    case False
    then show ?thesis using h Some c1 by (simp add: handle_message_def Let_def)
  next
    case True
    then obtain d whole where fin: "finalize_trial sha p ?st (out_disk c) = (d, Inr whole)"
      and c': "c' = ?c1\<lparr>out_disk := d, states := dict_pop ?k ?ss,
          completed := completed c + (if whole then 1 else 0)\<rparr>"
      using h Some run by (auto simp: handle_message_def Let_def split: prod.splits sum.splits)
    obtain ids where okd: "dict_ok ?ss" and con: "files_agree sha p (out_disk c)"
      and cnt: "completed c = int (length (filter row_complete (trial_table (out_disk c))))"
      and ids: "list_all2 (row_named p) ids (trial_table (out_disk c))"
      and dist: "distinct (ids @ map (capture_id \<circ> snd) ?ss)"
      and less: "\<forall>i \<in> set (ids @ map (capture_id \<circ> snd) ?ss). i < capture_counter c"
      by (rule collector_invE [OF c1]) simp
    have g: "dict_get ?ss ?k = Some ?st" by simp
    have pd: "distinct (capture_id ?st # map (capture_id \<circ> snd) (dict_pop ?k ?ss))"
      and ps: "set (map (capture_id \<circ> snd) (dict_pop ?k ?ss)) \<subseteq> set (map (capture_id \<circ> snd) ?ss)"
      by (rule dict_pop_ids [OF okd g]; use dist in simp)+
    have mem: "capture_id ?st \<in> set (map (capture_id \<circ> snd) ?ss)"
      using map_of_SomeD [OF g [unfolded dict_get_def]] by (force simp del: capture_id_update)
    have fresh: "capture_id ?st \<notin> set ids"
      using mem dist by auto
    obtain r where con': "files_agree sha p d" and t: "trial_table d = trial_table (out_disk c) @ [r]"
      and ro: "row_named p (capture_id ?st) r" and rc: "row_complete r = whole"
      by (rule finalize_keeps_consistent [OF p fin con ids fresh]) blast
    have "list_all2 (row_named p) (ids @ [capture_id ?st]) (trial_table d)"
      using ids ro by (simp add: t list_all2_appendI)
    moreover have "distinct ((ids @ [capture_id ?st]) @ map (capture_id \<circ> snd) (dict_pop ?k ?ss))"
      using pd ps dist fresh by auto
    moreover have "\<forall>i \<in> set ((ids @ [capture_id ?st]) @ map (capture_id \<circ> snd) (dict_pop ?k ?ss)).
        i < capture_counter c"
      using less mem ps by (auto simp del: capture_id_update)
    moreover have "dict_ok (dict_pop ?k ?ss)" using okd by simp
    ultimately show ?thesis
      using con' cnt rc unfolding c'
      by (intro collector_invI [of _ _ _ "ids @ [capture_id ?st]"]) (simp_all add: t)
  qed
qed

lemma handle_result_inv:
  "collector_inv sha p c \<Longrightarrow> handle_result res pr rx c = (c', oc) \<Longrightarrow> collector_inv sha p c'"
  by (auto simp: handle_result_def intro!: collector_inv_put_same split: sum.splits option.splits)

lemma collector_step_inv:
  assumes "p = output_paths out" and "collector_inv sha p c"
    and "collector_step sha args p fixed ev c = (c', oc)" and "\<forall>e. oc \<noteq> Raised e"
  shows "collector_inv sha p c'"
proof (cases ev)
  case (Timeout now)
  then show ?thesis using assms(2,3) by (auto split: if_splits)
next
  case (Datagram data pr rx now env)
  let ?c = "c\<lparr>last_rx := now\<rparr>"
  have inv: "collector_inv sha p ?c" using assms(2) by (simp add: collector_inv_def)
  show ?thesis
    using assms(3,4) inv handle_result_inv [OF inv] handle_hello_inv [OF inv] handle_message_inv [OF assms(1) inv]
    by (auto simp: Datagram handle_datagram_def split: option.splits if_splits)
qed

lemma collector_loop_inv:
  assumes "p = output_paths out" and "collector_inv sha p c"
    and "collector_loop sha args p fixed evs c = (c', oc)" and "\<forall>e. oc \<noteq> Raised e"
  shows "collector_inv sha p c'"
  using assms(2,3)
proof (induction evs arbitrary: c)
  case Nil
  then show ?case by (subst (asm) collector_loop.simps) (auto split: if_splits)
next
  case (Cons ev evs)
  obtain c1 oc1 where s: "collector_step sha args p fixed ev c = (c1, oc1)" by force
  from Cons.prems(2) show ?case
    by (subst (asm) collector_loop.simps)
      (use s Cons collector_step_inv [OF assms(1) Cons.prems(1) s] assms(4)
        in \<open>auto split: if_splits outcome.splits\<close>)
qed

lemma collector_inv_start:
  assumes "\<not> append_mode args" and "prepare_outputs args d = (p, d1)"
  shows "collector_inv sha p (start_collector (write_manifest args 0 d1) now)"
proof -
  have "trial_table d1 = []" and "\<forall>q \<in> gathered p. contents d1 q = []"
    using assms by (auto simp: prepare_outputs_def Let_def gathered_def contents_def unlink_file_def
        dict_get_or_def)
  then show ?thesis
    by (intro collector_invI [of _ _ _ "[]"])
      (simp_all add: start_collector_def write_manifest_def files_agree_def residuals_consistent_def disk_consistent_def named_bytes_def gathered_def)
qed

lemma collector_main_cases:
  assumes "collector_main sha args d now evs = (d', Inr (c, oc))"
  obtains p d1 fixed c1 where "prepare_outputs args d = (p, d1)" "p = output_paths (out_dir args)"
    "collector_loop sha args p fixed evs (start_collector (write_manifest args 0 d1) now) = (c1, oc)"
    "d' = write_manifest args (completed c1) (out_disk c1)" "c = c1\<lparr>out_disk := d'\<rparr>"
  using assms by (auto simp: collector_main_def Let_def prepare_outputs_def
      split: if_splits prod.splits sum.splits)

lemma row_named_ids:
  assumes "list_all2 (row_named p) ids rows" and "distinct ids"
  shows "distinct (map (\<lambda>r. row_text r ''capture_id'') rows)"
proof -
  have "map (\<lambda>r. row_text r ''capture_id'') rows = map str_of_nat ids"
    using assms(1) by (induction rule: list_all2_induct) (simp_all add: row_named_def row_owned_def)
  moreover have "inj_on str_of_nat (set ids)" by (simp add: inj_on_def str_of_nat_inject)
  ultimately show ?thesis using assms(2) by (simp add: distinct_map)
qed

section \<open>Properties of a run\<close>

text \<open>
  C3: After a run of the collector into a fresh output directory that no exception ended, the
  binary files and the trial table agree. The raw file of all trials is the concatenation of the raw
  files of the complete rows in table order, the response file that of their response files, and the
  delta and the residual file of all trials are the concatenations of the delta and residual files of
  the rows with inter-arrival times. Every complete row states the length and the hash of its raw
  file, and its response file is the raw file followed by its delta file; the delta and residual file
  of a row are the packed times and their differences to one interval. No two rows have the same
  capture id, and the count of completed trials is the number of complete rows.
\<close>

theorem collector_files_agree:
  assumes "\<not> append_mode args" and "collector_main sha args d now evs = (d', Inr (c, oc))"
    and "\<forall>e. oc \<noteq> Raised e"
  shows "disk_consistent sha (output_paths (out_dir args)) d'
     \<and> residuals_consistent (output_paths (out_dir args)) d'
     \<and> completed c = int (length (filter row_complete (trial_table d')))
     \<and> distinct (map (\<lambda>r. row_text r ''capture_id'') (trial_table d'))"
proof -
  obtain p d1 fixed c1 where prep: "prepare_outputs args d = (p, d1)" and p: "p = output_paths (out_dir args)"
    and loop: "collector_loop sha args p fixed evs (start_collector (write_manifest args 0 d1) now) = (c1, oc)"
    and d': "d' = write_manifest args (completed c1) (out_disk c1)" and c: "c = c1\<lparr>out_disk := d'\<rparr>"
    by (rule collector_main_cases [OF assms(2)])
  have "collector_inv sha p c1"
    by (rule collector_loop_inv [OF p collector_inv_start [OF assms(1) prep] loop assms(3)])
  then obtain ids where "files_agree sha p (out_disk c1)"
    and "completed c1 = int (length (filter row_complete (trial_table (out_disk c1))))"
    and "list_all2 (row_named p) ids (trial_table (out_disk c1))" and "distinct ids"
    by (rule collector_invE) auto
  moreover have "row_true sha d' = row_true sha (out_disk c1)" "residual_true d' = residual_true (out_disk c1)"
    by (simp_all add: fun_eq_iff row_true_def residual_true_def d' write_manifest_def)
  ultimately show ?thesis
    using row_named_ids
    by (simp add: c d' p write_manifest_def files_agree_def residuals_consistent_def disk_consistent_def named_bytes_def)
qed

text \<open>
  C31: One received datagram touches the state of at most one trial, and that trial belongs to
  the peer that sent it: every other trial of every peer keeps its state.
\<close>

theorem trials_isolated:
  "\<exists>k. fst k = pr \<and>
     dict_get (states (fst (collector_step sha args p fixed (Datagram data pr rx now env) c)))
       = (dict_get (states c))
           (k := dict_get (states (fst (collector_step sha args p fixed (Datagram data pr rx now env) c))) k)"
proof (cases "parse_result_line data")
  case (Some res)
  show ?thesis
  proof (cases "py_int (dict_get_or res ''trial'' ''-1'')")
    case (Inr tr)
    then show ?thesis
      by (intro exI [of _ "(pr, tr)"])
        (auto simp: handle_datagram_def handle_result_def Some fun_eq_iff split: option.splits)
  qed (auto simp: handle_datagram_def handle_result_def Some)
next
  case None
  show ?thesis
  proof (cases "parse_message data")
    case (Some msg)
    then show ?thesis
      by (intro exI [of _ "(pr, trial msg)"])
        (auto simp: handle_datagram_def handle_hello_def handle_message_def None fun_eq_iff Let_def
          split: option.splits prod.splits sum.splits)
  qed (auto simp: handle_datagram_def None)
qed

text \<open>
  A trial is complete exactly when it has a positive length, all announced chunks are there
  and together have at least that many bytes. The raw file then holds the chunks in
  index order cut to the length, and the same bytes are appended to the file of all trials; an
  incomplete trial appends nothing to it. Either way, exactly one row is added to the table, and
  it says which case it was.
\<close>

theorem finalize_outcome:
  assumes "finalize_trial sha (output_paths out) st d = (d', Inr whole)" and "expected_len st = Inr rlen"
  shows "whole = trial_whole st rlen
     \<and> (\<exists>r. trial_table d' = trial_table d @ [r] \<and> row_complete r = whole)
     \<and> contents d' (all_bin (output_paths out)) =
         contents d (all_bin (output_paths out)) @ (if whole then trial_raw st rlen else [])
     \<and> (whole \<longrightarrow> contents d' (trial_file (raw_dir (output_paths out)) (capture_id st) ''.bin'') = trial_raw st rlen)"
proof -
  let ?p = "output_paths out"
  obtain rp d1 jp d2 rs d3 where raw: "finalize_raw sha ?p st rlen d = (rp, d1)"
    and jit: "finalize_jitter sha ?p st d1 = Inr (jp, d2)"
    and joint: "finalize_joint sha ?p st rp jp d2 = (rs, d3)" and whole: "whole = rp_complete rp"
    and d': "d' = d3\<lparr>trial_table := trial_table d3 @ [trial_row st rp jp rs]\<rparr>"
    by (rule finalize_trial_Inr [OF assms(1)]) (use assms(2) in auto)
  obtain r where t: "trial_table d' = trial_table d @ [r]" and c: "row_complete r = whole"
    and bin: "contents d' (all_bin ?p) = contents d (all_bin ?p) @ raw_added d' r ''raw_file''"
    by (rule finalize_trial_effect [OF refl assms(1)]) blast
  have w: "whole = trial_whole st rlen"
    using finalize_raw_complete_iff [OF raw] whole by simp
  have r: "r = trial_row st rp jp rs"
  proof -
    have "last (trial_table d') = trial_row st rp jp rs" by (simp add: d')
    then show ?thesis by (simp add: t)
  qed
  have f: "contents d' (trial_file (raw_dir ?p) (capture_id st) ''.bin'') = trial_raw st rlen"
    and rf: "rp_file rp = trial_file (raw_dir ?p) (capture_id st) ''.bin''" if "whole"
  proof -
    from that w have tw: "trial_whole st rlen" by simp
    note r1 = finalize_raw_whole [OF tw, of sha ?p d, unfolded raw]
    note paths = trial_paths_distinct [OF refl, of out "capture_id st", simplified]
      trial_paths_distinct_rev [OF refl, of out "capture_id st", simplified]
    show "rp_file rp = trial_file (raw_dir ?p) (capture_id st) ''.bin''" using r1 by simp
    from jit have "contents d2 (trial_file (raw_dir ?p) (capture_id st) ''.bin'')
        = contents d1 (trial_file (raw_dir ?p) (capture_id st) ''.bin'')"
      by (rule finalize_jitter_cases) (simp_all add: paths)
    moreover have "d3 = append_file (all_joint ?p) (rp_raw rp @ jp_bytes jp)
        (write_file (trial_file (joint_dir ?p) (capture_id st) ''.response.bin'') (rp_raw rp @ jp_bytes jp) d2)"
      using joint [unfolded finalize_joint_simps(1) [OF that [unfolded whole]] Let_def] by simp
    ultimately show "contents d' (trial_file (raw_dir ?p) (capture_id st) ''.bin'') = trial_raw st rlen"
      using r1 by (simp add: d' paths)
  qed
  have "raw_added d' r ''raw_file'' = (if whole then trial_raw st rlen else [])"
    using f rf c by (simp add: raw_added_def r trial_row_fields [folded row_text_def])
  then show ?thesis using w t c bin f by auto
qed

definition sample_trial :: trial_state where
  "sample_trial = \<lparr>capture_id = 0, peer = (''dev'', 9), protocol_trial = 7, hello_nonce = [], start_nonce = [],
     bursts = 1, nominal_interval_us = 16, requested_sample_bytes = 6, raw_chunks_expected = Some 2,
     raw_len = Some 6, raw_chunks = [(1, [5, 6]), (0, [1, 2, 3, 4])], jitter_chunks = [(0, [17, 0, 0, 0])],
     result_fields = [], hello_time = 0, start_send_time = None, first_burst_send_time = None,
     last_burst_send_time = None, result_time = None\<rparr>"

definition empty_disk :: disk where
  "empty_disk = \<lparr>files = [], tables = [], trial_table = [], manifest_json = None\<rparr>"

theorem finalize_outcome_witness:
  "\<exists>d'. finalize_trial (\<lambda>b. b) (output_paths ''out'') sample_trial empty_disk = (d', Inr True)
     \<and> contents d' (trial_file (raw_dir (output_paths ''out'')) 0 ''.bin'') = [1, 2, 3, 4, 5, 6]
     \<and> contents d' (all_bin (output_paths ''out'')) = [1, 2, 3, 4, 5, 6]"
proof -
  obtain d' where d': "finalize_trial (\<lambda>b. b) (output_paths ''out'') sample_trial empty_disk = (d', Inr True)"
  proof -
    have "snd (finalize_trial (\<lambda>b. b) (output_paths ''out'') sample_trial empty_disk) = Inr True"
      by code_simp
    then show ?thesis using that by (cases "finalize_trial (\<lambda>b. b) (output_paths ''out'') sample_trial empty_disk") simp
  qed
  have len: "expected_len sample_trial = Inr 6" by code_simp
  have "trial_raw sample_trial 6 = [1, 2, 3, 4, 5, 6]" by code_simp
  moreover have "contents empty_disk q = []" for q
    by (simp add: contents_def empty_disk_def dict_get_or_def)
  moreover have "capture_id sample_trial = 0" by (simp add: sample_trial_def)
  ultimately show ?thesis using d' finalize_outcome [OF d' len] by auto
qed

section \<open>Exceptions that end a run\<close>

text \<open>
  Any peer can stop the collector with one datagram: a result line whose trial field is not
  a number is not skipped like other malformed input; \<open>int\<close> raises, whatever trials are running.
\<close>

theorem malformed_result_stops_collector:
  "collector_step sha args p fixed 
      (Datagram (ascii_bytes (result_line [(''trial'', ''x'')])) pr rx now env) c
     = (c\<lparr>last_rx := now\<rparr>, Raised ValueError)"
proof -
  have "list_all kv_plain [(''trial'', ''x'')]" by code_simp
  then have "parse_result_line (ascii_bytes (result_line [(''trial'', ''x'')])) = Some [(''trial'', ''x'')]"
    by (rule parse_printed_line) simp
  moreover have "py_int (dict_get_or [(''trial'', ''x'')] ''trial'' ''-1'') = Inl ValueError" by code_simp
  ultimately show ?thesis by (simp add: handle_datagram_def handle_result_def)
qed

lemma unpack_seq_fits: "v \<in> set (unpack_seq 4 unpack_le bs) \<Longrightarrow> fits 4 v"
proof (induction "4 :: nat" unpack_le bs rule: unpack_seq.induct)
  case (1 bs)
  then show ?case
    by (subst (asm) (2) unpack_seq.simps) (auto split: if_splits simp: fits_unpack_le)
qed

lemma jitter_values_fit: "v \<in> set (jitter_values st) \<Longrightarrow> fits 4 v"
  unfolding jitter_values_def by (auto simp: Let_def dest: unpack_seq_fits)

lemma pack_delta_ok:
  "list_all (fits 4) vs \<Longrightarrow> pack_jitter_delta_u32le vs = Inr (concat (map (\<lambda>v. le_bytes 4 (nat v)) vs))"
  unfolding pack_jitter_delta_u32le_def
  by (simp add: rmap_Inr [where g = "\<lambda>v. le_bytes 4 (nat v)"] list_all_iff)

lemma rmap_error:
  assumes "x \<in> set xs" and "f x = Inl e" and "\<And>y e'. f y = Inl e' \<Longrightarrow> e' = e"
  shows "rmap f xs = Inl e"
  using assms(1,2)
proof (induction xs)
  case (Cons y ys)
  show ?case
  proof (cases "f y")
    case (Inl e')
    then have "e' = e" by (rule assms(3))
    with Inl show ?thesis by simp
  next
    case (Inr z)
    with Cons show ?thesis by auto
  qed
qed simp

lemma pack_residual_error:
  assumes "v \<in> set vs" and "\<not> s32_range (v - iv)"
  shows "pack_jitter_residual_s32le vs iv = Inl StructError"
proof -
  have "rmap pack_s32 (map (\<lambda>v. v - iv) vs) = Inl StructError"
    by (rule rmap_error [of "v - iv"]) (use assms in \<open>auto simp: pack_s32_def split: if_splits\<close>)
  then show ?thesis by (simp add: pack_jitter_residual_s32le_def)
qed

text \<open>
  When an inter-arrival time differs from the nominal interval by more than a signed 32-bit
  residual can hold, finalising raises after the raw bytes of a complete trial are already in
  the file of all trials, and no row of the trial table accounts for them.
\<close>

theorem residual_overflow_leaves_orphan_bytes:
  assumes "trial_whole st rlen" and "expected_len st = Inr rlen" and "result_interval st = Inr iv"
    and "v \<in> set (jitter_values st)" and "\<not> s32_range (v - iv)"
  shows "\<exists>d'. finalize_trial sha (output_paths out) st d = (d', Inl StructError)
     \<and> contents d' (all_bin (output_paths out)) = contents d (all_bin (output_paths out)) @ trial_raw st rlen
     \<and> trial_table d' = trial_table d"
proof -
  let ?p = "output_paths out"
  let ?d = "append_file (all_bin ?p) (trial_raw st rlen)
       (write_file (trial_file (raw_dir ?p) (capture_id st) ''.bin'') (trial_raw st rlen) d)"
  have "list_all (fits 4) (jitter_values st)" by (simp add: list_all_iff jitter_values_fit)
  then have "finalize_jitter sha ?p st ?d = Inl StructError"
    using assms(4) pack_residual_error [OF assms(4,5)]
    by (auto simp: finalize_jitter_def Let_def assms(3) pack_delta_ok)
  then have "finalize_trial sha ?p st d = (?d, Inl StructError)"
    by (simp add: finalize_trial_def assms(2) finalize_raw_whole [OF assms(1)])
  moreover have "trial_file (raw_dir ?p) (capture_id st) ''.bin'' \<noteq> all_bin ?p"
    using trial_paths_distinct [OF refl, of out "capture_id st"] by auto
  ultimately show ?thesis by auto
qed

theorem residual_overflow_leaves_orphan_bytes_witness:
  "\<exists>d'. finalize_trial (\<lambda>b. b) (output_paths ''out'') (sample_trial\<lparr>nominal_interval_us := 3000000000\<rparr>) empty_disk
      = (d', Inl StructError)
     \<and> contents d' (all_bin (output_paths ''out'')) = [1, 2, 3, 4, 5, 6] \<and> trial_table d' = []"
proof -
  let ?st = "sample_trial\<lparr>nominal_interval_us := 3000000000\<rparr>"
  have "trial_whole ?st 6" by code_simp
  moreover have "expected_len ?st = Inr 6" by code_simp
  moreover have "result_interval ?st = Inr 3000000000"
    by (simp add: result_interval_def sample_trial_def)
  moreover have "17 \<in> set (jitter_values ?st)" by code_simp
  moreover have "\<not> s32_range (17 - 3000000000)" by (simp add: s32_range_def)
  ultimately have "\<exists>d'. finalize_trial (\<lambda>b. b) (output_paths ''out'') ?st empty_disk = (d', Inl StructError)
     \<and> contents d' (all_bin (output_paths ''out'')) = contents empty_disk (all_bin (output_paths ''out'')) @ trial_raw ?st 6
     \<and> trial_table d' = trial_table empty_disk"
    by (rule residual_overflow_leaves_orphan_bytes)
  moreover have "trial_raw ?st 6 = [1, 2, 3, 4, 5, 6]" by code_simp
  ultimately show ?thesis
    by (simp add: empty_disk_def contents_def dict_get_or_def)
qed

end
