(* ===== verification/AebUpload.thy ===== *)
theory AebUpload
  imports AebTrials
begin

text \<open>
  The collector and the device together: the stimulus the collector sends for a HELLO, and the
  upload of a trial as the firmware sends it (\<open>build_msg\<close> and \<open>send_raw_stream\<close> of the
  RF-actuated experiment), with the theorem that the collector rebuilds the device's buffers from
  it whatever the order in which the datagrams arrive.
\<close>

section \<open>Stimulus\<close>

definition burst_packet ::
    "collector_args \<Rightarrow> stim_env \<Rightarrow> int \<Rightarrow> int \<Rightarrow> int \<Rightarrow> bytes \<Rightarrow> int \<Rightarrow> bytes result" where
  "burst_packet args env tr iv sb nn seq =
     make_message TYPE_BURST tr seq (burst_sleep_us args env iv seq) sb nn (burst_payload args env seq)"

lemma send_bursts_Inr:
  "send_bursts sha args env pr tr iv sb nn seqs lg = (lg', Inr u) \<Longrightarrow>
     \<exists>pkts. rmap (burst_packet args env tr iv sb nn) seqs = Inr pkts
       \<and> sent lg' = sent lg @ map (Pair pr) pkts
       \<and> schedule lg' = schedule lg @
           map (\<lambda>seq. schedule_row sha args seq (burst_sleep_us args env iv seq) (burst_payload args env seq)) seqs"
proof (induction seqs arbitrary: lg)
  case (Cons seq seqs)
  obtain pkt where pkt: "burst_packet args env tr iv sb nn seq = Inr pkt"
    using Cons.prems by (auto simp: burst_packet_def Let_def split: sum.splits)
  let ?row = "schedule_row sha args seq (burst_sleep_us args env iv seq) (burst_payload args env seq)"
  define lg1 where "lg1 = lg\<lparr>sent := sent lg @ [(pr, pkt)], schedule := schedule lg @ [?row],
    first_time := (case first_time lg of None \<Rightarrow> Some (burst_clock env seq) | Some t \<Rightarrow> Some t),
    last_time := Some (burst_clock env seq)\<rparr>"
  have rest: "send_bursts sha args env pr tr iv sb nn seqs lg1 = (lg', Inr u)"
    using Cons.prems pkt unfolding lg1_def by (simp add: burst_packet_def Let_def)
  have lg1: "sent lg1 = sent lg @ [(pr, pkt)]" "schedule lg1 = schedule lg @ [?row]"
    by (simp_all add: lg1_def)
  from Cons.IH [OF rest] obtain pkts where
    "rmap (burst_packet args env tr iv sb nn) seqs = Inr pkts" "sent lg' = sent lg1 @ map (Pair pr) pkts"
    "schedule lg' = schedule lg1 @
       map (\<lambda>seq. schedule_row sha args seq (burst_sleep_us args env iv seq) (burst_payload args env seq)) seqs"
    by blast
  with pkt lg1 show ?case by (intro exI [of _ "pkt # pkts"]) simp
qed simp

lemma send_bursts_ok_iff:
  "(\<exists>lg' u. send_bursts sha args env pr tr iv sb nn seqs lg = (lg', Inr u)) \<longleftrightarrow>
     list_all (\<lambda>seq. ok (burst_packet args env tr iv sb nn seq)) seqs"
  by (induction seqs arbitrary: lg) (auto simp: burst_packet_def Let_def split: sum.splits)

lemma make_message_ok_iff:
  "ok (make_message ty tr sq iv sb nn pl) \<longleftrightarrow>
     fits 2 ty \<and> fits 4 tr \<and> fits 4 sq \<and> fits 4 iv \<and> fits 4 sb"
  by (auto simp: ok_iff make_message_Inr)

lemma parse_bursts:
  "rmap (burst_packet args env tr iv sb nn) seqs = Inr pkts \<Longrightarrow>
     map parse_message pkts = map (\<lambda>seq. Some \<lparr>msg_type = TYPE_BURST, trial = tr, seq_or_count = seq,
       interval_us = burst_sleep_us args env iv seq, sample_bytes = sb, nonce = pack_bytes 16 nn,
       payload = burst_payload args env seq\<rparr>) seqs"
  by (induction seqs arbitrary: pkts) (auto simp: result_simps burst_packet_def parse_make_message)

definition stim_bursts :: "collector_args \<Rightarrow> message \<Rightarrow> int" where
  "stim_bursts args msg = or_else (arg_bursts args) (seq_or_count msg)"

definition stim_interval :: "collector_args \<Rightarrow> message \<Rightarrow> int" where
  "stim_interval args msg = or_else (arg_interval_us args) (message.interval_us msg)"

definition stim_bytes :: "collector_args \<Rightarrow> message \<Rightarrow> int" where
  "stim_bytes args msg = or_else (arg_sample_bytes args) (message.sample_bytes msg)"

lemmas stim_defs = stim_bursts_def stim_interval_def stim_bytes_def

text \<open>
  For a HELLO the collector sends, all to the peer that greeted it, one START packet and then
  exactly the bursts \<open>0, 1, ..., n-1\<close> in this order, where an option given on the command line
  replaces the device's wish; every datagram parses to the announced fields. The schedule file
  has one row for each burst.
\<close>

theorem stimulus_sequence:
  assumes "send_stimulus sha args p env pr msg nn cid ht d = (pkts, d', Inr st)"
  shows "map fst pkts = replicate (length pkts) pr
     \<and> map (parse_message \<circ> snd) pkts =
         Some \<lparr>msg_type = TYPE_START, trial = trial msg, seq_or_count = stim_bursts args msg,
               interval_us = stim_interval args msg, sample_bytes = stim_bytes args msg,
               nonce = pack_bytes 16 nn, payload = []\<rparr>
         # map (\<lambda>seq. Some \<lparr>msg_type = TYPE_BURST, trial = trial msg, seq_or_count = seq,
               interval_us = burst_sleep_us args env (stim_interval args msg) seq,
               sample_bytes = stim_bytes args msg, nonce = pack_bytes 16 nn,
               payload = burst_payload args env seq\<rparr>) [0..stim_bursts args msg - 1]
     \<and> dict_get (tables d') (trial_file (stimulus_dir p) cid ''.csv'') =
         Some (schedule_header # map (\<lambda>seq. schedule_row sha args seq
           (burst_sleep_us args env (stim_interval args msg) seq) (burst_payload args env seq))
           [0..stim_bursts args msg - 1])"
proof -
  let ?tr = "trial msg" and ?iv = "stim_interval args msg" and ?sb = "stim_bytes args msg"
  let ?seqs = "[0..stim_bursts args msg - 1]"
  obtain start lg u where start: "make_message TYPE_START ?tr (stim_bursts args msg) ?iv ?sb nn [] = Inr start"
    and lg: "send_bursts sha args env pr ?tr ?iv ?sb nn ?seqs
      \<lparr>sent = [(pr, start)], schedule = [schedule_header], first_time = None, last_time = None\<rparr> = (lg, Inr u)"
    and pkts: "pkts = sent lg" and d': "d' = write_table (trial_file (stimulus_dir p) cid ''.csv'') (schedule lg) d"
    using assms by (auto simp: send_stimulus_def Let_def stim_defs result_simps split: if_splits sum.splits prod.splits)
  from send_bursts_Inr [OF lg] obtain ps where ps: "rmap (burst_packet args env ?tr ?iv ?sb nn) ?seqs = Inr ps"
    and sent: "sent lg = (pr, start) # map (Pair pr) ps"
    and rows: "schedule lg = schedule_header # map (\<lambda>seq. schedule_row sha args seq
        (burst_sleep_us args env ?iv seq) (burst_payload args env seq)) ?seqs"
    by auto
  have "map fst pkts = replicate (length pkts) pr"
    by (simp add: pkts sent comp_def map_replicate_const)
  moreover have "map (parse_message \<circ> snd) pkts = parse_message start # map parse_message ps"
    by (simp add: pkts sent comp_def)
  moreover have "dict_get (tables d') (trial_file (stimulus_dir p) cid ''.csv'') = Some (schedule lg)"
    by (simp add: d' write_table_def)
  ultimately show ?thesis
    using parse_bursts [OF ps] parse_make_message [OF start] rows by simp
qed

lemma send_stimulus_ok_iff:
  "ok (snd (snd (send_stimulus sha args p env pr msg nn cid ht d))) \<longleftrightarrow>
     0 \<le> start_delay_ms args
     \<and> fits 4 (trial msg) \<and> fits 4 (stim_bursts args msg) \<and> fits 4 (stim_interval args msg)
     \<and> fits 4 (stim_bytes args msg)
     \<and> list_all (\<lambda>seq. fits 4 (burst_sleep_us args env (stim_interval args msg) seq))
         [0..stim_bursts args msg - 1]"
proof -
  have s: "ok (rbind r (\<lambda>_. Inr x)) = ok r" for r :: "unit result" and x :: trial_state
    by (cases r) auto
  have sq: "fits 4 seq" if "fits 4 n" "seq \<in> set [0..n - 1]" for n seq
    using that by (auto simp: fits_def)
  have b: "ok (snd (send_bursts sha args env pr tr iv sb nn seqs lg)) \<longleftrightarrow>
      list_all (\<lambda>seq. ok (burst_packet args env tr iv sb nn seq)) seqs" for tr iv sb seqs lg
    using send_bursts_ok_iff [of sha args env pr tr iv sb nn seqs lg]
    by (cases "send_bursts sha args env pr tr iv sb nn seqs lg") (auto simp: ok_iff)
  have t: "fits 2 TYPE_START" "fits 2 TYPE_BURST" by (simp_all add: fits_def TYPE_START_def TYPE_BURST_def)
  show ?thesis
  proof (cases "make_message TYPE_START (trial msg) (stim_bursts args msg) (stim_interval args msg)
        (stim_bytes args msg) nn []")
    case (Inl e)
    then have "\<not> ok (make_message TYPE_START (trial msg) (stim_bursts args msg) (stim_interval args msg)
        (stim_bytes args msg) nn [])" by simp
    then show ?thesis
      using Inl t by (auto simp: send_stimulus_def Let_def stim_defs make_message_ok_iff)
  next
    case (Inr start)
    then have "ok (make_message TYPE_START (trial msg) (stim_bursts args msg) (stim_interval args msg)
        (stim_bytes args msg) nn [])" by simp
    then have f: "fits 4 (trial msg)" "fits 4 (stim_bursts args msg)" "fits 4 (stim_interval args msg)"
        "fits 4 (stim_bytes args msg)" by (simp_all add: make_message_ok_iff)
    have "ok (snd (snd (send_stimulus sha args p env pr msg nn cid ht d))) \<longleftrightarrow> 0 \<le> start_delay_ms args \<and>
        list_all (\<lambda>seq. ok (burst_packet args env (trial msg) (stim_interval args msg)
          (stim_bytes args msg) nn seq)) [0..stim_bursts args msg - 1]"
      using Inr by (simp add: send_stimulus_def Let_def stim_defs s case_prod_beta b)
    then show ?thesis
      using f t sq by (auto simp: list_all_iff burst_packet_def make_message_ok_iff)
  qed
qed

text \<open>
  The collector finishes a stimulus exactly when the fields of every packet fit the header and the
  start delay is not negative; otherwise \<open>struct.error\<close> or \<open>ValueError\<close> is raised. So a command-line override that does not fit, a negative
  burst count included, ends the run at the first HELLO.
\<close>

theorem stimulus_total:
  "ok (snd (snd (send_stimulus sha args p env pr msg nn cid ht d))) \<longleftrightarrow>
     0 \<le> start_delay_ms args
     \<and> fits 4 (trial msg) \<and> fits 4 (stim_bursts args msg) \<and> fits 4 (stim_interval args msg)
     \<and> fits 4 (stim_bytes args msg)
     \<and> list_all (\<lambda>seq. fits 4 (burst_sleep_us args env (stim_interval args msg) seq))
         [0..stim_bursts args msg - 1]"
  by (rule send_stimulus_ok_iff)

definition sample_args :: collector_args where
  "sample_args = \<lparr>bind_addr = ''0.0.0.0'', port = 19777, trials = 1, out_dir = ''out'', arg_sample_bytes = None,
     arg_bursts = Some 2, arg_interval_us = None, payload_bytes = 4, payload_kind = Counter,
     interval_jitter_us = 0, stimulus_seed = None, start_delay_ms = 20, arg_fixed_nonce = False,
     nonce_hex = None, idle_timeout = 60, append_mode = False\<rparr>"

definition sample_env :: stim_env where
  "sample_env = \<lparr>start_clock = 1, burst_clock = (\<lambda>seq. of_int seq), draw_jitter = (\<lambda>_. 0),
     draw_payload = (\<lambda>_. [])\<rparr>"

lemma sample_stimulus:
  "ok (snd (snd (send_stimulus sha sample_args p sample_env pr sample_message nn cid ht d)))"
  by (simp add: send_stimulus_ok_iff stim_defs sample_args_def sample_message_def or_else_def fits_def
      burst_sleep_us_def list_all_iff)

theorem stimulus_sequence_witness:
  "\<exists>pkts d' st. send_stimulus (\<lambda>b. b) sample_args (output_paths ''out'') sample_env (''dev'', 9) sample_message
       (replicate 16 1) 0 1 empty_disk = (pkts, d', Inr st)
     \<and> map fst pkts = [(''dev'', 9), (''dev'', 9), (''dev'', 9)]"
proof -
  obtain pkts d' st where s: "send_stimulus (\<lambda>b. b) sample_args (output_paths ''out'') sample_env (''dev'', 9)
      sample_message (replicate 16 1) 0 1 empty_disk = (pkts, d', Inr st)"
    using sample_stimulus by (metis ok_iff prod.collapse)
  note t = stimulus_sequence [OF s]
  have "length pkts = 3"
    using arg_cong [OF conjunct1 [OF conjunct2 [OF t]], of length]
    by (simp add: stim_defs sample_args_def or_else_def)
  with conjunct1 [OF t] s show ?thesis by (simp add: numeral_3_eq_3)
qed

section \<open>The upload as the firmware sends it\<close>

text \<open>
  The device's side, from the C source. Unsigned 32-bit values are naturals; \<open>u32\<close> is the
  reduction C applies to each result, and a field of the header takes the low bytes of its
  value. \<open>K\<close> is the build constant \<open>AEB_RAW_CHUNK_BYTES\<close>. The packets are those the firmware hands
  to \<open>zsock_sendto\<close>; it stops an upload at the first send that fails, which is not modelled here.
\<close>

definition u32 :: "nat \<Rightarrow> nat" where
  "u32 n = n mod 2 ^ 32"

record device_start =
  ds_trial :: nat
  ds_interval :: nat
  ds_nonce :: bytes

definition build_msg :: "int \<Rightarrow> nat \<Rightarrow> nat \<Rightarrow> nat \<Rightarrow> nat \<Rightarrow> bytes \<Rightarrow> bytes" where
  "build_msg ty tr sq iv sb nn =
     le_bytes 4 0x31424541 @ le_bytes 2 1 @ le_bytes 2 (nat ty) @ le_bytes 4 tr @ le_bytes 4 sq
       @ le_bytes 4 iv @ le_bytes 4 sb @ take 16 nn"

definition send_binary_msg :: "device_start \<Rightarrow> int \<Rightarrow> nat \<Rightarrow> nat \<Rightarrow> bytes \<Rightarrow> bytes" where
  "send_binary_msg st ty sq sb pl = build_msg ty (ds_trial st) sq (ds_interval st) sb (ds_nonce st) @ pl"

definition raw_chunk_count :: "nat \<Rightarrow> nat \<Rightarrow> nat" where
  "raw_chunk_count K n = u32 (n + K - 1) div K"

definition raw_packet :: "nat \<Rightarrow> device_start \<Rightarrow> bytes \<Rightarrow> nat \<Rightarrow> bytes" where
  "raw_packet K st raw i =
     (let off = u32 (i * K); rest = length raw - off; chunk = (if rest > K then K else rest)
      in send_binary_msg st TYPE_RAW_CHUNK i chunk (take chunk (drop off raw)))"

text \<open>The loop over \<open>off\<close> and \<open>chunk_index\<close>, on the deltas from \<open>off\<close> on.\<close>

fun jitter_packets :: "nat \<Rightarrow> nat \<Rightarrow> device_start \<Rightarrow> nat \<Rightarrow> nat list \<Rightarrow> bytes list" where
  "jitter_packets 0 V st ci ds = []"
| "jitter_packets (Suc fuel) V st ci ds =
     (if ds = [] then []
      else (let values = (if length ds > V then V else length ds);
                pl = concat (map (le_bytes 4) (take values ds))
            in send_binary_msg st TYPE_JITTER_CHUNK ci (values * 4) pl
               # jitter_packets fuel V st (Suc ci) (drop V ds)))"

definition jitter_per_chunk :: "nat \<Rightarrow> nat" where
  "jitter_per_chunk K = (if K div 4 = 0 then 1 else K div 4)"

definition send_raw_stream :: "nat \<Rightarrow> device_start \<Rightarrow> bytes \<Rightarrow> nat list \<Rightarrow> bytes list" where
  "send_raw_stream K st raw deltas =
     (let n = raw_chunk_count K (length raw)
      in [send_binary_msg st TYPE_RAW_BEGIN n (length raw) []]
         @ map (raw_packet K st raw) [0..<n]
         @ jitter_packets (length deltas) (jitter_per_chunk K) st 0 deltas
         @ [send_binary_msg st TYPE_RAW_END n (length raw) []])"

text \<open>
  What the device's buffers and the build constant satisfy. A packet of \<open>40 + K\<close> bytes has to fit
  the 4096 bytes that the collector asks \<open>recvfrom\<close> for (\<open>K\<close> is 512 unless the build says
  otherwise).
\<close>

definition recv_limit :: nat where
  "recv_limit = 4096"

definition device_ok :: "nat \<Rightarrow> device_start \<Rightarrow> bytes \<Rightarrow> nat list \<Rightarrow> bool" where
  "device_ok K st raw deltas \<longleftrightarrow> 4 \<le> K \<and> 40 + K \<le> recv_limit \<and> length raw + K < 2 ^ 32 \<and> 4 * length deltas < 2 ^ 32
     \<and> ds_trial st < 2 ^ 32 \<and> ds_interval st < 2 ^ 32 \<and> length (ds_nonce st) = 16
     \<and> list_all (\<lambda>d. d < 2 ^ 32) deltas"

lemma fits_4_nat: "fits 4 (int n) \<longleftrightarrow> n < 2 ^ 32"
  by (simp add: fits_def)

lemma fits_2_types [simp]:
  "fits 2 TYPE_RAW_BEGIN" "fits 2 TYPE_RAW_CHUNK" "fits 2 TYPE_RAW_END" "fits 2 TYPE_JITTER_CHUNK"
  by (simp_all add: fits_def TYPE_RAW_BEGIN_def TYPE_RAW_CHUNK_def TYPE_RAW_END_def TYPE_JITTER_CHUNK_def)

text \<open>The message the collector reads from a packet of the device.\<close>

definition device_msg :: "device_start \<Rightarrow> int \<Rightarrow> nat \<Rightarrow> nat \<Rightarrow> bytes \<Rightarrow> message" where
  "device_msg st ty sq sb pl = \<lparr>msg_type = ty, trial = int (ds_trial st), seq_or_count = int sq,
     interval_us = int (ds_interval st), sample_bytes = int sb, nonce = ds_nonce st, payload = pl\<rparr>"

lemma parse_binary_msg:
  assumes "fits 2 ty" "0 \<le> ty" "ds_trial st < 2 ^ 32" "ds_interval st < 2 ^ 32" "length (ds_nonce st) = 16"
    and "sq < 2 ^ 32" "sb < 2 ^ 32"
  shows "parse_message (send_binary_msg st ty sq sb pl) = Some (device_msg st ty sq sb pl)"
proof -
  have "make_message ty (int (ds_trial st)) (int sq) (int (ds_interval st)) (int sb) (ds_nonce st) pl
      = Inr (send_binary_msg st ty sq sb pl)"
    using assms by (simp add: make_message_Inr fits_4_nat send_binary_msg_def build_msg_def MAGIC_def VERSION_def)
  from parse_make_message [OF this] show ?thesis using assms(5) by (simp add: device_msg_def)
qed

definition raw_piece :: "nat \<Rightarrow> bytes \<Rightarrow> nat \<Rightarrow> bytes" where
  "raw_piece K raw i = take K (drop (i * K) raw)"

lemma raw_chunk_count_eq:
  "0 < K \<Longrightarrow> n + K < 2 ^ 32 \<Longrightarrow> raw_chunk_count K n = (n + K - 1) div K"
  by (simp add: raw_chunk_count_def u32_def)

lemma raw_chunk_index:
  assumes "0 < K" "n + K < 2 ^ 32" "i < raw_chunk_count K n"
  shows "i * K < n" "i < 2 ^ 32"
proof -
  have "Suc i \<le> (n + K - 1) div K" using assms by (simp add: raw_chunk_count_eq)
  then have "Suc i * K \<le> (n + K - 1) div K * K" by (rule mult_le_mono1)
  also have "\<dots> \<le> n + K - 1" by simp
  finally show "i * K < n" using assms(1) by simp
  moreover have "i \<le> i * K" using assms(1) by simp
  ultimately show "i < 2 ^ 32" using assms(2) by linarith
qed

lemma parse_raw_packet:
  assumes "device_ok K st raw deltas" and "i < raw_chunk_count K (length raw)"
  shows "parse_message (raw_packet K st raw i) =
    Some (device_msg st TYPE_RAW_CHUNK i (length (raw_piece K raw i)) (raw_piece K raw i))"
proof -
  have K: "0 < K" "length raw + K < 2 ^ 32" using assms(1) by (auto simp: device_ok_def)
  note i = raw_chunk_index [OF K assms(2)]
  have "u32 (i * K) = i * K" using i K by (simp add: u32_def)
  then have "raw_packet K st raw i =
      send_binary_msg st TYPE_RAW_CHUNK i (length (raw_piece K raw i)) (raw_piece K raw i)"
    by (simp add: raw_packet_def Let_def raw_piece_def min_def)
  moreover have "length (raw_piece K raw i) < 2 ^ 32" using K by (simp add: raw_piece_def)
  ultimately show ?thesis
    using assms(1) i by (simp add: parse_binary_msg device_ok_def TYPE_RAW_CHUNK_def fits_def)
qed

lemma concat_raw_pieces: "concat (map (raw_piece K raw) [0..<n]) = take (n * K) raw"
proof (induction n)
  case (Suc n)
  then show ?case
    using take_add [of "n * K" K raw] by (simp add: raw_piece_def add.commute [of K])
qed simp

lemma concat_all_raw_pieces:
  assumes "0 < K" and "length raw + K < 2 ^ 32"
  shows "concat (map (raw_piece K raw) [0..<raw_chunk_count K (length raw)]) = raw"
proof -
  have "length raw \<le> (length raw + K - 1) div K * K"
    using assms(1) mod_less_divisor [of K "length raw + K - 1"]
      div_mult_mod_eq [of "length raw + K - 1" K] by linarith
  then show ?thesis using assms by (simp add: concat_raw_pieces raw_chunk_count_eq)
qed

definition jitter_piece :: "nat \<Rightarrow> nat list \<Rightarrow> nat \<Rightarrow> bytes" where
  "jitter_piece V ds i = concat (map (le_bytes 4) (take V (drop (i * V) ds)))"

definition jitter_chunk_count :: "nat \<Rightarrow> nat \<Rightarrow> nat" where
  "jitter_chunk_count V n = (n + V - 1) div V"

lemma jitter_chunk_count_Suc:
  assumes "0 < V" and "0 < n"
  shows "jitter_chunk_count V n = Suc (jitter_chunk_count V (n - V))"
proof (cases "n < V")
  case True
  have "(n + V - 1) div V = (n - 1 + V) div V" using assms by simp
  also have "\<dots> = (n - 1) div V + 1" using assms by (intro div_add_self2) simp
  also have "(n - 1) div V = 0" using True by (intro div_less) simp
  finally have "jitter_chunk_count V n = Suc 0" by (simp only: jitter_chunk_count_def add_0 One_nat_def)
  moreover have "jitter_chunk_count V (n - V) = 0" using assms True by (simp add: jitter_chunk_count_def)
  ultimately show ?thesis by simp
next
  case False
  then have "(n + V - 1) div V = (n - V + V - 1 + V) div V" using assms by simp
  also have "\<dots> = (n - V + V - 1) div V + 1" using assms by (intro div_add_self2) simp
  finally show ?thesis by (simp only: jitter_chunk_count_def Suc_eq_plus1)
qed

lemma jitter_chunk_count_le: "0 < V \<Longrightarrow> jitter_chunk_count V n \<le> n"
proof (induction n rule: less_induct)
  case (less n)
  show ?case
  proof (cases "n = 0")
    case True
    then show ?thesis using less.prems by (simp add: jitter_chunk_count_def)
  next
    case False
    then have "jitter_chunk_count V (n - V) \<le> n - V" using less by simp
    then show ?thesis using False less.prems by (simp add: jitter_chunk_count_Suc)
  qed
qed

lemma jitter_packets_eq:
  "0 < V \<Longrightarrow> length ds \<le> fuel \<Longrightarrow>
     jitter_packets fuel V st ci ds =
       map (\<lambda>i. send_binary_msg st TYPE_JITTER_CHUNK (ci + i) (length (jitter_piece V ds i)) (jitter_piece V ds i))
         [0..<jitter_chunk_count V (length ds)]"
proof (induction fuel arbitrary: ci ds)
  case 0
  then show ?case by (simp add: jitter_chunk_count_def)
next
  case (Suc fuel)
  show ?case
  proof (cases "ds = []")
    case True
    then show ?thesis using Suc.prems by (simp add: jitter_chunk_count_def)
  next
    case False
    have up: "[0..<Suc n] = 0 # map Suc [0..<n]" for n by (simp add: upt_conv_Cons map_Suc_upt)
    have "jitter_piece V ds (Suc i) = jitter_piece V (drop V ds) i" for i
      by (simp add: jitter_piece_def add.commute [of V])
    moreover have "length (jitter_piece V ds 0) = min V (length ds) * 4"
      by (simp add: jitter_piece_def length_concat comp_def sum_list_triv min.commute)
    moreover have "concat (map (le_bytes 4) (take (min V (length ds)) ds)) = jitter_piece V ds 0"
      by (simp add: jitter_piece_def min_def)
    moreover have "jitter_packets fuel V st (Suc ci) (drop V ds) =
       map (\<lambda>i. send_binary_msg st TYPE_JITTER_CHUNK (Suc ci + i) (length (jitter_piece V (drop V ds) i))
         (jitter_piece V (drop V ds) i)) [0..<jitter_chunk_count V (length (drop V ds))]"
      using Suc.prems by (intro Suc.IH) auto
    moreover have "(if length ds > V then V else length ds) = min V (length ds)" by simp
    ultimately show ?thesis
      using False Suc.prems jitter_chunk_count_Suc [of V "length ds"]
      by (simp add: up comp_def Let_def del: upt_Suc)
  qed
qed

lemma concat_jitter_pieces:
  "concat (map (jitter_piece V ds) [0..<n]) = concat (map (le_bytes 4) (take (n * V) ds))"
proof (induction n)
  case (Suc n)
  have "take (Suc n * V) ds = take (n * V) ds @ take V (drop (n * V) ds)"
    using take_add [of "n * V" V ds] by (simp add: add.commute)
  with Suc show ?case by (simp add: jitter_piece_def)
qed simp

lemma take_all_jitter:
  "0 < V \<Longrightarrow> take (jitter_chunk_count V (length ds) * V) ds = ds"
proof -
  assume "0 < V"
  then have "length ds \<le> jitter_chunk_count V (length ds) * V"
    using mod_less_divisor [of V "length ds + V - 1"] div_mult_mod_eq [of "length ds + V - 1" V]
    unfolding jitter_chunk_count_def by linarith
  then show ?thesis by simp
qed

lemma jitter_per_chunk_pos [simp]: "0 < jitter_per_chunk K"
  by (simp add: jitter_per_chunk_def)

lemma parse_jitter_packet:
  assumes "device_ok K st raw deltas" and "i < jitter_chunk_count (jitter_per_chunk K) (length deltas)"
  shows "parse_message (send_binary_msg st TYPE_JITTER_CHUNK i
      (length (jitter_piece (jitter_per_chunk K) deltas i)) (jitter_piece (jitter_per_chunk K) deltas i)) =
    Some (device_msg st TYPE_JITTER_CHUNK i (length (jitter_piece (jitter_per_chunk K) deltas i))
      (jitter_piece (jitter_per_chunk K) deltas i))"
proof -
  have len: "length (jitter_piece V deltas i) \<le> 4 * length deltas" for V
    by (simp add: jitter_piece_def length_concat comp_def sum_list_triv)
  have "i < length deltas"
    using assms(2) jitter_chunk_count_le [OF jitter_per_chunk_pos] less_le_trans by blast
  then show ?thesis
    using assms(1) len [of "jitter_per_chunk K"]
    by (intro parse_binary_msg) (auto simp: device_ok_def TYPE_JITTER_CHUNK_def fits_def)
qed

text \<open>The messages of the upload, the closing one apart.\<close>

definition raw_msg :: "nat \<Rightarrow> device_start \<Rightarrow> bytes \<Rightarrow> nat \<Rightarrow> message" where
  "raw_msg K st raw i = device_msg st TYPE_RAW_CHUNK i (length (raw_piece K raw i)) (raw_piece K raw i)"

definition jitter_msg :: "nat \<Rightarrow> device_start \<Rightarrow> nat list \<Rightarrow> nat \<Rightarrow> message" where
  "jitter_msg V st ds i = device_msg st TYPE_JITTER_CHUNK i (length (jitter_piece V ds i)) (jitter_piece V ds i)"

definition begin_msg :: "nat \<Rightarrow> device_start \<Rightarrow> bytes \<Rightarrow> message" where
  "begin_msg K st raw = device_msg st TYPE_RAW_BEGIN (raw_chunk_count K (length raw)) (length raw) []"

definition end_msg :: "nat \<Rightarrow> device_start \<Rightarrow> bytes \<Rightarrow> message" where
  "end_msg K st raw = device_msg st TYPE_RAW_END (raw_chunk_count K (length raw)) (length raw) []"

definition body_msgs :: "nat \<Rightarrow> device_start \<Rightarrow> bytes \<Rightarrow> nat list \<Rightarrow> message list" where
  "body_msgs K st raw ds =
     begin_msg K st raw # map (raw_msg K st raw) [0..<raw_chunk_count K (length raw)]
       @ map (jitter_msg (jitter_per_chunk K) st ds) [0..<jitter_chunk_count (jitter_per_chunk K) (length ds)]"

lemma raw_chunk_count_less: "0 < K \<Longrightarrow> raw_chunk_count K n < 2 ^ 32"
  unfolding raw_chunk_count_def u32_def
  by (rule le_less_trans [OF div_le_dividend]) simp

lemma parse_raw_stream:
  assumes "device_ok K st raw ds"
  shows "map parse_message (send_raw_stream K st raw ds) =
     map Some (body_msgs K st raw ds @ [end_msg K st raw])"
proof -
  let ?n = "raw_chunk_count K (length raw)" and ?V = "jitter_per_chunk K"
  have K: "0 < K" and f: "ds_trial st < 2 ^ 32" "ds_interval st < 2 ^ 32" "length (ds_nonce st) = 16"
    and l: "length raw < 2 ^ 32" using assms by (auto simp: device_ok_def)
  note frame = parse_binary_msg [OF _ _ f raw_chunk_count_less [OF K] l]
  have "parse_message (send_binary_msg st TYPE_RAW_BEGIN ?n (length raw) []) = Some (begin_msg K st raw)"
    and "parse_message (send_binary_msg st TYPE_RAW_END ?n (length raw) []) = Some (end_msg K st raw)"
    unfolding begin_msg_def end_msg_def
    by (rule frame; simp add: TYPE_RAW_BEGIN_def TYPE_RAW_END_def fits_def)+
  moreover have "map (\<lambda>i. parse_message (raw_packet K st raw i)) [0..<?n] = map (\<lambda>i. Some (raw_msg K st raw i)) [0..<?n]"
    using parse_raw_packet [OF assms] by (simp add: raw_msg_def)
  moreover have "map (\<lambda>i. parse_message (send_binary_msg st TYPE_JITTER_CHUNK i
        (length (jitter_piece ?V ds i)) (jitter_piece ?V ds i))) [0..<jitter_chunk_count ?V (length ds)]
      = map (\<lambda>i. Some (jitter_msg ?V st ds i)) [0..<jitter_chunk_count ?V (length ds)]"
    using parse_jitter_packet [OF assms] by (simp add: jitter_msg_def)
  ultimately show ?thesis
    by (simp add: send_raw_stream_def Let_def body_msgs_def jitter_packets_eq comp_def)
qed

lemma binary_msg_length: "length (ds_nonce st) = 16 \<Longrightarrow> length (send_binary_msg st ty sq sb pl) = 40 + length pl"
  by (simp add: send_binary_msg_def build_msg_def)

lemma jitter_piece_length: "4 \<le> K \<Longrightarrow> length (jitter_piece (jitter_per_chunk K) ds i) \<le> K"
proof -
  assume "4 \<le> K"
  then have "jitter_per_chunk K = K div 4" by (simp add: jitter_per_chunk_def)
  moreover have "length (jitter_piece V ds i) \<le> 4 * V" for V
    by (simp add: jitter_piece_def length_concat comp_def sum_list_triv)
  ultimately show ?thesis by (metis div_times_less_eq_dividend mult.commute order_trans)
qed

lemma upload_fits:
  assumes "device_ok K st raw ds" and "d \<in> set (send_raw_stream K st raw ds)"
  shows "length d \<le> recv_limit"
proof -
  have n: "length (ds_nonce st) = 16" and K: "4 \<le> K" "40 + K \<le> recv_limit" using assms(1) by (auto simp: device_ok_def)
  have "length (raw_packet K st raw i) \<le> 40 + K" for i
    by (simp add: raw_packet_def Let_def binary_msg_length [OF n])
  then show ?thesis
    using assms(2) K jitter_piece_length [OF K(1), of ds]
    by (auto simp: send_raw_stream_def Let_def jitter_packets_eq binary_msg_length [OF n] intro: order_trans [OF _ K(2)])
qed

text \<open>What a batch of these messages does to a trial, whatever their order and multiplicity.\<close>

lemmas aeb_types = TYPE_RAW_BEGIN_def TYPE_RAW_CHUNK_def TYPE_RAW_END_def TYPE_JITTER_CHUNK_def
  TYPE_HELLO_def TYPE_START_def TYPE_BURST_def

lemma update_begin: "update_trial (begin_msg K st raw) t =
    t\<lparr>raw_chunks_expected := Some (int (raw_chunk_count K (length raw))), raw_len := Some (int (length raw))\<rparr>"
  by (simp add: update_trial_def begin_msg_def device_msg_def)

lemma update_raw: "update_trial (raw_msg K st raw i) t =
    t\<lparr>raw_chunks := dict_set (int i) (raw_piece K raw i) (raw_chunks t)\<rparr>"
  by (simp add: update_trial_def raw_msg_def device_msg_def aeb_types)

lemma update_jitter: "update_trial (jitter_msg V st ds i) t =
    t\<lparr>jitter_chunks := dict_set (int i) (jitter_piece V ds i) (jitter_chunks t)\<rparr>"
  by (simp add: update_trial_def jitter_msg_def device_msg_def aeb_types)

lemma msg_inject [simp]:
  "raw_msg K st raw i = raw_msg K st raw j \<longleftrightarrow> i = j"
  "jitter_msg V st ds i = jitter_msg V st ds j \<longleftrightarrow> i = j"
  "raw_msg K st raw i \<noteq> jitter_msg V st ds j" "jitter_msg V st ds j \<noteq> raw_msg K st raw i"
  "raw_msg K st raw i \<noteq> begin_msg K st raw" "begin_msg K st raw \<noteq> raw_msg K st raw i"
  "jitter_msg V st ds j \<noteq> begin_msg K st raw" "begin_msg K st raw \<noteq> jitter_msg V st ds j"
  by (auto simp: raw_msg_def jitter_msg_def begin_msg_def device_msg_def aeb_types)

lemma fold_update:
  assumes V: "V = jitter_per_chunk K"
    and "set ms \<subseteq> set (body_msgs K st raw ds)" and "raw_chunks t = []" and "jitter_chunks t = []"
    and "raw_chunks_expected t = None" and "raw_len t = None"
  shows "let t' = fold update_trial ms t in
      dict_ok (raw_chunks t') \<and> dict_ok (jitter_chunks t')
    \<and> (\<forall>k. dict_get (raw_chunks t') k =
         (if 0 \<le> k \<and> raw_msg K st raw (nat k) \<in> set ms then Some (raw_piece K raw (nat k)) else None))
    \<and> (\<forall>k. dict_get (jitter_chunks t') k =
         (if 0 \<le> k \<and> jitter_msg V st ds (nat k) \<in> set ms then Some (jitter_piece V ds (nat k)) else None))
    \<and> raw_chunks_expected t' \<in> {None, Some (int (raw_chunk_count K (length raw)))}
    \<and> raw_len t' \<in> {None, Some (int (length raw))}
    \<and> capture_id t' = capture_id t \<and> result_fields t' = result_fields t
    \<and> nominal_interval_us t' = nominal_interval_us t"
  using assms(2)
proof (induction ms rule: rev_induct)
  case Nil
  then show ?case using assms by simp
next
  case (snoc m ms)
  then have "m \<in> set (body_msgs K st raw ds)" by simp
  then consider "m = begin_msg K st raw" | i where "m = raw_msg K st raw i" | i where "m = jitter_msg V st ds i"
    by (auto simp: body_msgs_def V)
  then show ?case
    using snoc by cases (auto simp: Let_def update_begin update_raw update_jitter)
qed

section \<open>Rebuilding the buffers\<close>

lemma upto_int: "[0..int n - 1] = map int [0..<n]"
proof (induction n)
  case (Suc n)
  have "[0..int (Suc n) - 1] = [0..int n - 1] @ [int n]"
    using upto_rec2 [of 0 "int n"] by simp
  with Suc show ?case by simp
qed simp

lemma sort_keys:
  assumes "dict_ok d" and "\<And>k. dict_get d k \<noteq> None \<longleftrightarrow> 0 \<le> k \<and> nat k < n"
  shows "sort (dict_keys d) = map int [0..<n]"
proof (rule sorted_distinct_set_unique)
  have "k \<in> set (dict_keys d) \<longleftrightarrow> k \<in> int ` {0..<n}" for k
    using assms(2) [of k] dict_in_keys [of k d] by (auto simp: dict_in_def image_iff intro: bexI [of _ "nat k"])
  then show "set (sort (dict_keys d)) = set (map int [0..<n])" by auto
  show "distinct (sort (dict_keys d))" using assms(1) by (simp add: dict_ok_def dict_keys_def)
  show "sorted (map int [0..<n])" by (simp add: sorted_iff_nth_mono)
qed (simp_all add: distinct_map)

lemma unpack_piece:
  assumes "list_all (\<lambda>d. d < 2 ^ 32) ds"
  shows "unpack_seq 4 unpack_le (concat (map (le_bytes 4) ds)) = map int ds"
proof -
  have "list_all (fits 4) (map int ds)" using assms by (simp add: list_all_iff fits_4_nat)
  from u32le.unpack_concat [OF this] show ?thesis by (simp add: comp_def)
qed

text \<open>A trial to which every chunk of the device's upload has come.\<close>

definition trial_uploaded :: "nat \<Rightarrow> bytes \<Rightarrow> nat list \<Rightarrow> trial_state \<Rightarrow> bool" where
  "trial_uploaded K raw ds t \<longleftrightarrow>
     dict_ok (raw_chunks t) \<and> dict_ok (jitter_chunks t)
   \<and> (\<forall>k. dict_get (raw_chunks t) k =
        (if 0 \<le> k \<and> nat k < raw_chunk_count K (length raw) then Some (raw_piece K raw (nat k)) else None))
   \<and> (\<forall>k. dict_get (jitter_chunks t) k =
        (if 0 \<le> k \<and> nat k < jitter_chunk_count (jitter_per_chunk K) (length ds)
         then Some (jitter_piece (jitter_per_chunk K) ds (nat k)) else None))
   \<and> raw_chunks_expected t = Some (int (raw_chunk_count K (length raw))) \<and> raw_len t = Some (int (length raw))"

lemma uploaded_jitter:
  assumes "trial_uploaded K raw ds t" and "list_all (\<lambda>d. d < 2 ^ 32) ds"
  shows "jitter_values t = map int ds"
proof -
  let ?V = "jitter_per_chunk K"
  let ?k = "jitter_chunk_count ?V (length ds)"
  have keys: "sort (dict_keys (jitter_chunks t)) = map int [0..<?k]"
    by (rule sort_keys) (use assms(1) in \<open>auto simp: trial_uploaded_def\<close>)
  have piece: "unpack_seq 4 unpack_le (jitter_piece ?V ds i) = map int (take ?V (drop (i * ?V) ds))" for i
    unfolding jitter_piece_def
    by (rule unpack_piece) (use assms(2) in \<open>auto simp: list_all_iff dest: in_set_takeD in_set_dropD\<close>)
  have len: "length (jitter_piece ?V ds i) mod 4 = 0" for i
    by (simp add: jitter_piece_def length_concat comp_def sum_list_triv)
  have get: "dict_get_or (jitter_chunks t) (int i) [] = jitter_piece ?V ds i" if "i < ?k" for i
    using assms(1) that by (simp add: trial_uploaded_def dict_get_or_def)
  have "jitter_values t = concat (map (\<lambda>i. map int (take ?V (drop (i * ?V) ds))) [0..<?k])"
    unfolding jitter_values_def keys
    by (intro arg_cong [of _ _ concat]) (simp add: get Let_def len piece)
  also have "\<dots> = map int (take (n * ?V) ds)" if "n = ?k" for n
    unfolding that [symmetric]
  proof (induction n)
    case (Suc n)
    have "take (Suc n * ?V) ds = take (n * ?V) ds @ take ?V (drop (n * ?V) ds)"
      using take_add [of "n * ?V" ?V ds] by (simp add: add.commute)
    with Suc show ?case by simp
  qed simp
  finally show ?thesis using take_all_jitter [of ?V ds] by simp
qed

lemma uploaded_raw:
  assumes "trial_uploaded K raw ds t" and "0 < K" and "length raw + K < 2 ^ 32" and "raw \<noteq> []"
  shows "expected_len t = Inr (int (length raw))" and "trial_whole t (int (length raw))"
    and "trial_raw t (int (length raw)) = raw"
proof -
  let ?n = "raw_chunk_count K (length raw)"
  have e: "expected_chunks t = int ?n" and l: "expected_len t = Inr (int (length raw))"
    using assms(1) by (simp_all add: trial_uploaded_def expected_chunks_def expected_len_def)
  show "expected_len t = Inr (int (length raw))" by (rule l)
  have get: "dict_get (raw_chunks t) (int i) = Some (raw_piece K raw i)" if "i < ?n" for i
    using assms(1) that by (simp add: trial_uploaded_def)
  have j: "joined_chunks t [0..expected_chunks t - 1] = raw"
  proof -
    have "joined_chunks t [0..expected_chunks t - 1] = concat (map (raw_piece K raw) [0..<?n])"
      unfolding joined_chunks_def e upto_int
      by (intro arg_cong [of _ _ concat]) (simp add: get dict_get_or_def)
    then show ?thesis using concat_all_raw_pieces [OF assms(2,3)] by simp
  qed
  have "0 < ?n" using j e assms(4) by (cases "?n") (auto simp: joined_chunks_def)
  moreover have "missing_chunks t = []"
    unfolding expected_chunks_missing e using assms(1) by (auto simp: trial_uploaded_def dict_in_def)
  ultimately show "trial_whole t (int (length raw))"
    using assms(4) by (simp add: trial_whole_def e j [unfolded e])
  show "trial_raw t (int (length raw)) = raw" by (simp add: trial_raw_def j)
qed

lemma finalize_uploaded:
  assumes up: "trial_uploaded K raw ds t" and dev: "device_ok K st raw ds" and raw: "raw \<noteq> []"
    and iv: "result_interval t = Inr iv" and res: "list_all (\<lambda>d. s32_range (int d - iv)) ds"
    and p: "p = output_paths out"
  obtains d' where "finalize_trial sha p t d = (d', Inr True)"
    "contents d' (trial_file (raw_dir p) (capture_id t) ''.bin'') = raw"
    "ds \<noteq> [] \<Longrightarrow> contents d' (trial_file (jitter_dir p) (capture_id t) ''.delta_u32le.bin'') = concat (map (le_bytes 4) ds)"
    "contents d' (trial_file (joint_dir p) (capture_id t) ''.response.bin'') = raw @ concat (map (le_bytes 4) ds)"
proof -
  have K: "0 < K" "length raw + K < 2 ^ 32" and d32: "list_all (\<lambda>d. d < 2 ^ 32) ds"
    using dev by (auto simp: device_ok_def)
  note u = uploaded_raw [OF up K raw]
  note paths = trial_paths_distinct [OF p, of "capture_id t", simplified]
    trial_paths_distinct_rev [OF p, of "capture_id t", simplified]
  have jv: "jitter_values t = map int ds" by (rule uploaded_jitter [OF up d32])
  have delta: "pack_jitter_delta_u32le (map int ds) = Inr (concat (map (le_bytes 4) ds))"
    using d32 by (subst pack_delta_ok) (simp_all add: list_all_iff fits_4_nat comp_def)
  have residual: "pack_jitter_residual_s32le (map int ds) iv = Inr (concat (map (\<lambda>d. s32_bytes (int d - iv)) ds))"
    using res unfolding pack_jitter_residual_s32le_def
    by (subst rmap_Inr [where g = s32_bytes]) (auto simp: list_all_iff comp_def)
  define d1 where "d1 = append_file (all_bin p) raw
       (write_file (trial_file (raw_dir p) (capture_id t) ''.bin'') raw d)"
  obtain rp where rp: "finalize_raw sha p t (int (length raw)) d = (rp, d1)" "rp_complete rp" "rp_raw rp = raw"
    using finalize_raw_whole [OF u(2), of sha p d] by (auto simp: u(3) d1_def)
  obtain jp d2 where jp: "finalize_jitter sha p t d1 = Inr (jp, d2)"
  proof -
    have "ok (finalize_jitter sha p t d1)"
      by (simp add: finalize_jitter_def jv Let_def iv delta residual)
    then show ?thesis using that by (auto simp: ok_iff)
  qed
  have jb: "jp_bytes jp = concat (map (le_bytes 4) ds)"
    and c2: "contents d2 (trial_file (raw_dir p) (capture_id t) ''.bin'') = raw"
    and cj: "ds \<noteq> [] \<Longrightarrow> contents d2 (trial_file (jitter_dir p) (capture_id t) ''.delta_u32le.bin'') = jp_bytes jp"
    by (rule finalize_jitter_cases [OF jp]; simp add: jv delta d1_def paths)+
  obtain rs d3 where joint: "finalize_joint sha p t rp jp d2 = (rs, d3)" by force
  then have d3: "d3 = append_file (all_joint p) (rp_raw rp @ jp_bytes jp)
        (write_file (trial_file (joint_dir p) (capture_id t) ''.response.bin'') (rp_raw rp @ jp_bytes jp) d2)"
    unfolding finalize_joint_simps(1) [OF rp(2)] Let_def by simp
  show ?thesis
    by (rule that [of "d3\<lparr>trial_table := trial_table d3 @ [trial_row t rp jp rs]\<rparr>"])
      (simp_all add: finalize_trial_def u(1) rp jp joint d3 paths c2 cj jb)
qed

section \<open>The exchange\<close>

text \<open>A datagram that was sent, as \<open>recvfrom\<close> delivers it: cut to the size the collector asks for.\<close>

type_synonym arrival = "bytes \<times> real \<times> real \<times> stim_env"

definition arrive :: "peer \<Rightarrow> arrival \<Rightarrow> event" where
  "arrive pr x = (case x of (d, rx, now, env) \<Rightarrow> Datagram (take recv_limit d) pr rx now env)"

lemma handle_datagram_message:
  "parse_message d = Some m \<Longrightarrow> handle_datagram sha args p fixed d pr rx env c =
     (if msg_type m = TYPE_HELLO then handle_hello sha args p fixed m pr rx env c
      else handle_message sha p m pr c)"
  using parse_message_prefix [of d m] by (auto simp: handle_datagram_def parse_result_line_A)

lemma loop_messages:
  assumes "map parse_message (map fst xs) = map Some ms" and "\<forall>d \<in> set (map fst xs). length d \<le> recv_limit"
    and "list_all (\<lambda>m. trial m = tr \<and> msg_type m \<noteq> TYPE_HELLO \<and> msg_type m \<noteq> TYPE_RAW_END) ms"
    and "dict_get (states c) (pr, tr) = Some t" and "completed c < trials args"
  shows "\<exists>c'. collector_loop sha args p fixed (map (arrive pr) xs @ rest) c = collector_loop sha args p fixed rest c'
     \<and> dict_get (states c') (pr, tr) = Some (fold update_trial ms t)
     \<and> out_disk c' = out_disk c \<and> completed c' = completed c"
  using assms
proof (induction xs arbitrary: ms c t)
  case Nil
  then show ?case by auto
next
  case (Cons x xs)
  obtain d rx now env where x: "x = (d, rx, now, env)" by (metis prod_cases4)
  obtain m ms' where ms: "ms = m # ms'" "parse_message d = Some m" "map parse_message (map fst xs) = map Some ms'"
    using Cons.prems(1) by (auto simp: x)
  let ?c = "c\<lparr>last_rx := now, states := dict_set (pr, tr) (update_trial m t) (states c)\<rparr>"
  have step: "collector_step sha args p fixed (arrive pr x) c = (?c, Running)"
    using Cons.prems(2-4) ms by (simp add: x arrive_def handle_datagram_message handle_message_def Let_def)
  have "collector_loop sha args p fixed (map (arrive pr) (x # xs) @ rest) c
      = collector_loop sha args p fixed (map (arrive pr) xs @ rest) ?c"
    using Cons.prems(5) step by (subst collector_loop.simps) simp
  moreover have "\<exists>c'. collector_loop sha args p fixed (map (arrive pr) xs @ rest) ?c = collector_loop sha args p fixed rest c'
     \<and> dict_get (states c') (pr, tr) = Some (fold update_trial ms' (update_trial m t))
     \<and> out_disk c' = out_disk ?c \<and> completed c' = completed ?c"
    using Cons.prems ms by (intro Cons.IH) auto
  ultimately show ?case by (simp add: ms)
qed

text \<open>A trial that has just been greeted.\<close>

definition trial_fresh :: "trial_state \<Rightarrow> bool" where
  "trial_fresh t \<longleftrightarrow> raw_chunks t = [] \<and> jitter_chunks t = [] \<and> raw_chunks_expected t = None \<and> raw_len t = None"

lemma fold_update_uploaded:
  assumes "set ms = set (body_msgs K st raw ds)" and "trial_fresh t"
  shows "let t' = update_trial (end_msg K st raw) (fold update_trial ms t) in
     trial_uploaded K raw ds t' \<and> capture_id t' = capture_id t \<and> result_interval t' = result_interval t"
proof -
  have "raw_msg K st raw i \<in> set ms \<longleftrightarrow> i < raw_chunk_count K (length raw)"
    and "jitter_msg (jitter_per_chunk K) st ds i \<in> set ms \<longleftrightarrow>
       i < jitter_chunk_count (jitter_per_chunk K) (length ds)" for i
    using assms(1) by (auto simp: body_msgs_def)
  moreover have "update_trial (end_msg K st raw) u =
      u\<lparr>raw_chunks_expected := Some (or_else (raw_chunks_expected u) (int (raw_chunk_count K (length raw)))),
        raw_len := Some (or_else (raw_len u) (int (length raw)))\<rparr>" for u
    by (simp add: update_trial_def end_msg_def device_msg_def aeb_types)
  moreover have "or_else z v = v" if "z \<in> {None, Some v}" for z and v :: int
    using that by (auto simp: or_else_def)
  ultimately show ?thesis
    using fold_update [OF refl eq_refl [OF assms(1)], of t] assms(2)
    by (simp add: Let_def trial_fresh_def trial_uploaded_def result_interval_def cong: option.case_cong if_cong)
qed

lemma upload_run:
  assumes "device_ok K st raw ds" and "raw \<noteq> []" and "p = output_paths out"
    and "dict_get (states c) (pr, int (ds_trial st)) = Some t" and "trial_fresh t"
    and "completed c < trials args"
    and "result_interval t = Inr iv" and "list_all (\<lambda>d. s32_range (int d - iv)) ds"
    and "set (map fst xs) = set (butlast (send_raw_stream K st raw ds))"
    and "fst x = last (send_raw_stream K st raw ds)"
  shows "\<exists>c'. collector_loop sha args p fixed (map (arrive pr) (xs @ [x])) c =
         (c', if completed c + 1 < trials args then Running else Finished)
     \<and> completed c' = completed c + 1
     \<and> contents (out_disk c') (trial_file (raw_dir p) (capture_id t) ''.bin'') = raw
     \<and> (ds \<noteq> [] \<longrightarrow> contents (out_disk c') (trial_file (jitter_dir p) (capture_id t) ''.delta_u32le.bin'')
            = concat (map (le_bytes 4) ds))
     \<and> contents (out_disk c') (trial_file (joint_dir p) (capture_id t) ''.response.bin'')
            = raw @ concat (map (le_bytes 4) ds)
     \<and> dict_get (states c') (pr, int (ds_trial st)) = None"
proof -
  let ?k = "(pr, int (ds_trial st))" and ?e = "end_msg K st raw"
  note stream = parse_raw_stream [OF assms(1)]
  have ne: "send_raw_stream K st raw ds \<noteq> []" by (simp add: send_raw_stream_def Let_def)
  have last: "parse_message (fst x) = Some ?e"
    using arg_cong [OF stream, of last] ne by (simp add: last_map assms(10))
  have body: "map parse_message (butlast (send_raw_stream K st raw ds)) = map Some (body_msgs K st raw ds)"
    using arg_cong [OF stream, of butlast] by (simp add: map_butlast)
  have "send_raw_stream K st raw ds = butlast (send_raw_stream K st raw ds) @ [last (send_raw_stream K st raw ds)]"
    using ne by simp
  then have fit: "\<forall>d \<in> set (map fst xs). length d \<le> recv_limit" and fit_x: "length (fst x) \<le> recv_limit"
    using upload_fits [OF assms(1)] assms(9,10) by (metis in_set_butlastD, metis last_in_set ne)
  define ms where "ms = map (the \<circ> parse_message \<circ> fst) xs"
  have all: "parse_message d \<noteq> None" if "d \<in> set (map fst xs)" for d
    using that assms(9) arg_cong [OF body, of set] by (metis image_eqI imageE list.set_map option.distinct(1))
  have ms: "map parse_message (map fst xs) = map Some ms"
    using all by (auto simp: ms_def)
  have set_ms: "set ms = set (body_msgs K st raw ds)"
    using arg_cong [OF ms, of set] arg_cong [OF body, of set] assms(9)
    by (metis list.set_map inj_Some inj_image_eq_iff)
  have types: "list_all (\<lambda>m. trial m = int (ds_trial st) \<and> msg_type m \<noteq> TYPE_HELLO \<and> msg_type m \<noteq> TYPE_RAW_END) ms"
    unfolding list_all_iff set_ms
    by (auto simp: body_msgs_def begin_msg_def raw_msg_def jitter_msg_def device_msg_def aeb_types)
  obtain c1 where loop: "collector_loop sha args p fixed (map (arrive pr) (xs @ [x])) c
        = collector_loop sha args p fixed [arrive pr x] c1"
    and c1: "dict_get (states c1) ?k = Some (fold update_trial ms t)" "completed c1 = completed c"
    using loop_messages [OF ms fit types assms(4,6), of sha p fixed "[arrive pr x]"] by auto
  let ?t = "update_trial ?e (fold update_trial ms t)"
  have t: "trial_uploaded K raw ds ?t" "capture_id ?t = capture_id t" "result_interval ?t = Inr iv"
    using fold_update_uploaded [OF set_ms assms(5)] assms(7) by (simp_all add: Let_def)
  obtain d' where fin: "finalize_trial sha p ?t (out_disk c1) = (d', Inr True)"
    and d': "contents d' (trial_file (raw_dir p) (capture_id ?t) ''.bin'') = raw"
      "ds \<noteq> [] \<Longrightarrow> contents d' (trial_file (jitter_dir p) (capture_id ?t) ''.delta_u32le.bin'')
        = concat (map (le_bytes 4) ds)"
      "contents d' (trial_file (joint_dir p) (capture_id ?t) ''.response.bin'') = raw @ concat (map (le_bytes 4) ds)"
    by (rule finalize_uploaded [OF t(1) assms(1,2) t(3) assms(8,3)]) blast
  obtain d rx now env where x: "x = (d, rx, now, env)" by (metis prod_cases4)
  let ?c = "c1\<lparr>last_rx := now, states := dict_pop ?k (dict_set ?k ?t (states c1)), out_disk := d',
     completed := completed c1 + 1\<rparr>"
  have e: "trial ?e = int (ds_trial st)" "msg_type ?e = TYPE_RAW_END"
    by (simp_all add: end_msg_def device_msg_def)
  have step: "collector_step sha args p fixed (arrive pr x) c1 = (?c, Running)"
    using last fin c1(1) fit_x
    by (simp add: x arrive_def handle_datagram_message handle_message_def Let_def e aeb_types)
  have "collector_loop sha args p fixed [arrive pr x] c1 = collector_loop sha args p fixed [] ?c"
    using assms(6) c1(2) step by (subst collector_loop.simps) simp
  moreover have "collector_loop sha args p fixed [] ?c =
      (?c, if completed c + 1 < trials args then Running else Finished)"
    by (subst collector_loop.simps) (simp add: c1(2))
  ultimately show ?thesis
    using d' unfolding loop t(2) by (intro exI [of _ ?c]) (simp add: c1(2))
qed

text \<open>
  C2: The collector rebuilds the device's buffers. A device uploads a trial as the firmware does:
  an announcement, the raw bytes in pieces of \<open>K\<close> bytes, the inter-arrival times in pieces and a
  closing packet. Let the datagrams before the closing one arrive in any order, each of them once
  or more often, and the closing one last. Then the collector counts one more complete trial, its raw
  file is the device's sample buffer, its jitter file the inter-arrival times as little-endian
  words, its response file the one after the other, and the trial is forgotten.
\<close>

theorem upload_rebuilds_buffers:
  assumes "device_ok K st raw ds" and "raw \<noteq> []" and "p = output_paths out"
    and "dict_get (states c) (pr, int (ds_trial st)) = Some t" and "trial_fresh t"
    and "completed c < trials args"
    and "result_interval t = Inr iv" and "list_all (\<lambda>d. s32_range (int d - iv)) ds"
    and "set (map fst xs) = set (butlast (send_raw_stream K st raw ds))"
    and "fst x = last (send_raw_stream K st raw ds)"
  shows "\<exists>c'. collector_loop sha args p fixed (map (arrive pr) (xs @ [x])) c =
         (c', if completed c + 1 < trials args then Running else Finished)
     \<and> completed c' = completed c + 1
     \<and> contents (out_disk c') (trial_file (raw_dir p) (capture_id t) ''.bin'') = raw
     \<and> (ds \<noteq> [] \<longrightarrow> contents (out_disk c') (trial_file (jitter_dir p) (capture_id t) ''.delta_u32le.bin'')
            = concat (map (le_bytes 4) ds))
     \<and> contents (out_disk c') (trial_file (joint_dir p) (capture_id t) ''.response.bin'')
            = raw @ concat (map (le_bytes 4) ds)
     \<and> dict_get (states c') (pr, int (ds_trial st)) = None"
  using assms by (rule upload_run)

text \<open>A small exchange: six sample bytes in pieces of four, one inter-arrival time.\<close>

definition sample_start :: device_start where
  "sample_start = \<lparr>ds_trial = 7, ds_interval = 16, ds_nonce = replicate 16 1\<rparr>"

definition sample_upload :: "arrival list" where
  "sample_upload = map (\<lambda>d. (d, 2, 2, sample_env)) (rev (butlast (send_raw_stream 4 sample_start [1, 2, 3, 4, 5, 6] [17])))"

definition sample_end :: arrival where
  "sample_end = (last (send_raw_stream 4 sample_start [1, 2, 3, 4, 5, 6] [17]), 3, 3, sample_env)"

definition sample_collector :: collector where
  "sample_collector = \<lparr>states = [(((''dev'', 9), 7), sample_trial\<lparr>raw_chunks_expected := None, raw_len := None,
       raw_chunks := [], jitter_chunks := []\<rparr>)],
     completed = 0, capture_counter = 1, last_rx = 1, net = [], out_disk = empty_disk\<rparr>"

lemma sample_device: "device_ok 4 sample_start [1, 2, 3, 4, 5, 6] [17]"
  by (simp add: device_ok_def sample_start_def recv_limit_def)

lemma sample_arrivals:
  "set (map fst sample_upload) = set (butlast (send_raw_stream 4 sample_start [1, 2, 3, 4, 5, 6] [17]))"
  "fst sample_end = last (send_raw_stream 4 sample_start [1, 2, 3, 4, 5, 6] [17])"
  by (simp_all add: sample_upload_def sample_end_def comp_def)

theorem upload_rebuilds_buffers_witness:
  "\<exists>c'. collector_loop (\<lambda>b. b) sample_args (output_paths ''out'') None
         (map (arrive (''dev'', 9)) (sample_upload @ [sample_end])) sample_collector = (c', Finished)
     \<and> completed c' = 1
     \<and> contents (out_disk c') (trial_file (raw_dir (output_paths ''out'')) 0 ''.bin'') = [1, 2, 3, 4, 5, 6]"
proof -
  let ?t = "sample_trial\<lparr>raw_chunks_expected := None, raw_len := None, raw_chunks := [], jitter_chunks := []\<rparr>"
  have t: "dict_get (states sample_collector) ((''dev'', 9), int (ds_trial sample_start)) = Some ?t"
    by (simp add: sample_collector_def sample_start_def dict_get_def)
  have "trial_fresh ?t" "result_interval ?t = Inr 16" "capture_id ?t = 0"
    by (simp_all add: trial_fresh_def result_interval_def sample_trial_def)
  moreover have "completed sample_collector = 0" "trials sample_args = 1"
    by (simp_all add: sample_collector_def sample_args_def)
  moreover have "list_all (\<lambda>d. s32_range (int d - 16)) [17]" by (simp add: s32_range_def)
  ultimately show ?thesis
    using upload_rebuilds_buffers [OF sample_device _ refl t _ _ _ _ sample_arrivals, of sample_args 16
        "\<lambda>b. b" "''out''" None] by auto
qed

lemma new_trial_fresh:
  assumes "send_stimulus sha args p env pr msg nn cid ht d = (pkts, d', Inr st)"
  shows "trial_fresh st \<and> result_interval st = Inr (stim_interval args msg) \<and> capture_id st = cid"
  using assms by (auto simp: send_stimulus_def Let_def new_trial_def result_simps stim_defs trial_fresh_def
      result_interval_def split: if_splits sum.splits prod.splits)

definition sample_hello :: message where
  "sample_hello = device_msg sample_start TYPE_HELLO 2 6 []"

definition sample_run :: "event list" where
  "sample_run = arrive (''dev'', 9) (send_binary_msg sample_start TYPE_HELLO 2 6 [], 1, 1, sample_env)
     # map (arrive (''dev'', 9)) (sample_upload @ [sample_end])"

lemma sample_run_finishes:
  "\<exists>d' c. collector_main (\<lambda>b. b) sample_args empty_disk 0 sample_run = (d', Inr (c, Finished)) \<and> completed c = 1"
proof -
  define d where "d = write_manifest sample_args 0 (snd (prepare_outputs sample_args empty_disk))"
  let ?p = "output_paths ''out''"
  have prep: "prepare_outputs sample_args empty_disk = (?p, snd (prepare_outputs sample_args empty_disk))"
    by (simp add: prepare_outputs_def Let_def sample_args_def)
  have hello: "parse_message (send_binary_msg sample_start TYPE_HELLO 2 6 []) = Some sample_hello"
    unfolding sample_hello_def
    by (rule parse_binary_msg) (simp_all add: sample_start_def TYPE_HELLO_def fits_def)
  have "ok (snd (snd (send_stimulus (\<lambda>b. b) sample_args ?p sample_env (''dev'', 9) sample_hello
      (nonce sample_hello) 0 1 d)))"
    by (simp add: send_stimulus_ok_iff stim_defs sample_args_def sample_hello_def device_msg_def sample_start_def
        or_else_def fits_def burst_sleep_us_def list_all_iff)
  then obtain pkts d1 st where st: "send_stimulus (\<lambda>b. b) sample_args ?p sample_env (''dev'', 9) sample_hello
      (nonce sample_hello) 0 1 d = (pkts, d1, Inr st)"
    by (metis ok_iff prod.collapse)
  note fresh = new_trial_fresh [OF st]
  let ?init = "start_collector d 0"
  let ?c = "?init\<lparr>last_rx := 1, capture_counter := 1, net := pkts, out_disk := d1,
    states := [(((''dev'', 9), 7), st)]\<rparr>"
  have cut: "take recv_limit (send_binary_msg sample_start TYPE_HELLO 2 6 []) = send_binary_msg sample_start TYPE_HELLO 2 6 []"
    by (simp add: binary_msg_length sample_start_def recv_limit_def)
  have h: "trial sample_hello = 7" "msg_type sample_hello = TYPE_HELLO"
    by (simp_all add: sample_hello_def device_msg_def sample_start_def)
  have "collector_step (\<lambda>b. b) sample_args ?p None (hd sample_run) ?init = (?c, Running)"
    using st h by (simp add: sample_run_def arrive_def cut handle_datagram_message [OF hello] handle_hello_def
        Let_def or_else_def start_collector_def dict_set_def)
  then have loop: "collector_loop (\<lambda>b. b) sample_args ?p None sample_run ?init =
      collector_loop (\<lambda>b. b) sample_args ?p None (map (arrive (''dev'', 9)) (sample_upload @ [sample_end])) ?c"
    by (subst collector_loop.simps) (simp add: sample_run_def start_collector_def sample_args_def)
  have t: "dict_get (states ?c) ((''dev'', 9), int (ds_trial sample_start)) = Some st"
    by (simp add: sample_start_def dict_get_def)
  have "stim_interval sample_args sample_hello = 16"
    by (simp add: stim_defs sample_args_def sample_hello_def device_msg_def sample_start_def or_else_def)
  then have "\<exists>c'. collector_loop (\<lambda>b. b) sample_args ?p None sample_run ?init = (c', Finished) \<and> completed c' = 1"
    using upload_run [OF sample_device _ refl t _ _ _ _ sample_arrivals, of sample_args 16 "\<lambda>b. b" "''out''" None] fresh
    unfolding loop by (auto simp: start_collector_def sample_args_def s32_range_def)
  moreover have "payload_bytes sample_args = 4" "interval_jitter_us sample_args = 0"
      "nonce_hex sample_args = None" "\<not> arg_fixed_nonce sample_args"
    by (simp_all add: sample_args_def)
  ultimately show ?thesis
    by (subst collector_main_def, subst prep) (auto simp: Let_def d_def)
qed

text \<open>The whole run of the small exchange leaves files and table in agreement.\<close>

theorem collector_files_agree_witness:
  "\<exists>d' c. collector_main (\<lambda>b. b) sample_args empty_disk 0 sample_run = (d', Inr (c, Finished))
     \<and> length (filter row_complete (trial_table d')) = 1
     \<and> contents d' (all_bin (output_paths (out_dir sample_args))) =
         named_bytes d' ''raw_file'' (filter row_complete (trial_table d'))
     \<and> contents d' (all_jitter_residual (output_paths (out_dir sample_args))) =
         named_bytes d' ''jitter_residual_file'' (filter row_jitter (trial_table d'))"
proof -
  obtain d' c where run: "collector_main (\<lambda>b. b) sample_args empty_disk 0 sample_run = (d', Inr (c, Finished))"
    and c: "completed c = 1" using sample_run_finishes by blast
  have "\<not> append_mode sample_args" by (simp add: sample_args_def)
  from collector_files_agree [OF this run] c run show ?thesis
    by (auto simp: disk_consistent_def residuals_consistent_def)
qed

end
