(* ===== verification/Bits.thy ===== *)
theory Bits
  imports Prelude
begin

text \<open>
  Windows of bytes compared bit by bit: the number of differing bits of two windows, the bits
  of a window from the most significant one on, transitions between neighbouring bits, and the
  pairs of indices \<open>i < j\<close> that the pairwise statistics run over. The locale \<open>window_distance\<close>
  is the contract of a distance on windows; it is interpreted on the differing-bit count.
\<close>

section \<open>Differing bits\<close>

definition xor_count :: "bytes \<Rightarrow> bytes \<Rightarrow> nat" where
  "xor_count a b = sum_list (map (\<lambda>(x, y). bit_count (x XOR y)) (zip a b))"

lemma xor_count_simps [simp]:
  "xor_count [] b = 0" "xor_count a [] = 0"
  "xor_count (x # a) (y # b) = bit_count (x XOR y) + xor_count a b"
  by (simp_all add: xor_count_def)

lemma xor_count_comm: "xor_count a b = xor_count b a"
  by (induction a b rule: list_induct2') (auto simp: bit_count_xor_comm)

lemma xor_count_bound: "xor_count a b \<le> 8 * min (length a) (length b)"
proof (induction a b rule: list_induct2')
  case (4 x a y b)
  then show ?case using bit_count_le [of "x XOR y"] by simp
qed auto

lemma byte_xor_eq_0 [simp]: "(x :: byte) XOR y = 0 \<longleftrightarrow> x = y"
  by (metis word_bw_same(3) xor.assoc xor.right_neutral)

lemma xor_count_eq_0: "length a = length b \<Longrightarrow> xor_count a b = 0 \<longleftrightarrow> a = b"
  by (induction a b rule: list_induct2) auto

lemma xor_count_triangle:
  "length a = length b \<Longrightarrow> length b = length c \<Longrightarrow> xor_count a c \<le> xor_count a b + xor_count b c"
proof (induction a b c rule: list_induct3)
  case (Cons x xs y ys z zs)
  then show ?case using bit_count_xor_triangle [of x z y] by simp
qed simp

lemma xor_count_append:
  "length a = length b \<Longrightarrow> xor_count (a @ c) (b @ d) = xor_count a b + xor_count c d"
  by (induction a b rule: list_induct2) auto

section \<open>Bits of a window\<close>

text \<open>The bits of a byte from the most significant to the least, and of a window.\<close>

definition byte_bits :: "byte \<Rightarrow> bool list" where
  "byte_bits b = map (\<lambda>i. bit b (7 - i)) [0..<8]"

definition window_bits :: "bytes \<Rightarrow> bool list" where
  "window_bits bs = concat (map byte_bits bs)"

lemma length_byte_bits [simp]: "length (byte_bits b) = 8"
  by (simp add: byte_bits_def)

lemma length_window_bits [simp]: "length (window_bits bs) = 8 * length bs"
  by (induction bs) (simp_all add: window_bits_def)

lemma window_bits_Cons [simp]: "window_bits (b # bs) = byte_bits b @ window_bits bs"
  and window_bits_Nil [simp]: "window_bits [] = []"
  by (simp_all add: window_bits_def)

lemma upt_8: "[0..<8] = [0, 1, 2, 3, 4, 5, 6, 7 :: nat]"
  by (simp add: upt_rec numeral_eq_Suc)

lemma count_byte_bits: "length (filter (\<lambda>a. a) (byte_bits b)) = bit_count b"
  by (simp add: byte_bits_def bit_count_def upt_8)

lemma count_window_bits:
  "length (filter (\<lambda>a. a) (window_bits bs)) = sum_list (map bit_count bs)"
  by (induction bs) (simp_all add: count_byte_bits)

lemma byte_bits_xor [simp]: "map2 (\<lambda>x y. x = (\<not> y)) (byte_bits a) (byte_bits b) = byte_bits (a XOR b)"
  by (simp add: byte_bits_def upt_8 bit_xor_iff)

text \<open>The differing-bit count is the number of positions at which the bit strings differ.\<close>

lemma xor_count_bits:
  "length a = length b \<Longrightarrow>
     xor_count a b = length (filter (\<lambda>a. a) (map2 (\<lambda>x y. x = (\<not> y)) (window_bits a) (window_bits b)))"
proof (induction a b rule: list_induct2)
  case (Cons x xs y ys)
  then show ?case by (simp add: count_byte_bits)
qed simp

fun transitions :: "bool list \<Rightarrow> nat" where
  "transitions (a # b # xs) = (if a \<noteq> b then 1 else 0) + transitions (b # xs)"
| "transitions xs = 0"

lemma transitions_le: "transitions xs \<le> length xs - 1"
  by (induction xs rule: transitions.induct) auto

lemma transitions_map_Not: "transitions (map Not xs) = transitions xs"
  by (induction xs rule: transitions.induct) auto

lemma transitions_rev_aux:
  "transitions (xs @ [a, b]) = transitions (xs @ [a]) + (if a \<noteq> b then 1 else 0)"
  by (induction xs rule: transitions.induct) auto

lemma transitions_eq_0: "transitions xs = 0 \<longleftrightarrow> (\<forall>x \<in> set xs. x = hd xs)"
  by (induction xs rule: transitions.induct) auto

section \<open>Pairs of indices\<close>

definition index_pairs :: "nat \<Rightarrow> (nat \<times> nat) list" where
  "index_pairs n = concat (map (\<lambda>i. map (\<lambda>j. (i, j)) [Suc i..<n]) [0..<n])"

lemma set_index_pairs: "set (index_pairs n) = {(i, j). i < j \<and> j < n}"
  by (force simp: index_pairs_def)

lemma index_pairs_Suc:
  "mset (index_pairs (Suc n)) = mset (index_pairs n) + mset (map (\<lambda>i. (i, n)) [0..<n])"
proof -
  have "mset (concat (map (\<lambda>i. map (\<lambda>j. (i, j)) [Suc i..<Suc n]) xs))
      = mset (concat (map (\<lambda>i. map (\<lambda>j. (i, j)) [Suc i..<n]) xs)) + mset (map (\<lambda>i. (i, n)) xs)"
    if "\<forall>i \<in> set xs. i < n" for xs
    using that by (induction xs) auto
  from this [of "[0..<n]"] show ?thesis
    by (simp add: index_pairs_def)
qed

lemma length_index_pairs: "length (index_pairs n) = n * (n - 1) div 2"
proof (induction n)
  case 0
  then show ?case by (simp add: index_pairs_def)
next
  case (Suc n)
  have "length (index_pairs (Suc n)) = length (index_pairs n) + n"
    using arg_cong [OF index_pairs_Suc [of n], of size] by simp
  also have "\<dots> = n * (n - 1) div 2 + n" by (simp only: Suc.IH)
  also have "\<dots> = Suc n * n div 2" by (cases n) (simp_all add: algebra_simps)
  finally show ?case by simp
qed

lemma distinct_index_pairs: "distinct (index_pairs n)"
proof (induction n)
  case 0
  then show ?case by (simp add: index_pairs_def)
next
  case (Suc n)
  have "distinct (index_pairs n @ map (\<lambda>i. (i, n)) [0..<n])"
    using Suc by (auto simp: set_index_pairs distinct_map inj_on_def)
  then show ?case
    using index_pairs_Suc [of n] by (metis mset_append mset_eq_imp_distinct_iff)
qed

section \<open>Distances on windows\<close>

locale window_distance =
  fixes d :: "'a \<Rightarrow> 'a \<Rightarrow> nat" and size_of :: "'a \<Rightarrow> nat"
  assumes d_comm: "d a b = d b a"
    and d_zero: "size_of a = size_of b \<Longrightarrow> d a b = 0 \<longleftrightarrow> a = b"
    and d_triangle: "size_of a = size_of b \<Longrightarrow> size_of b = size_of c \<Longrightarrow> d a c \<le> d a b + d b c"
    and d_bound: "d a b \<le> size_of a"
begin

text \<open>All pairwise distances of windows of one size vanish exactly when the windows are equal.\<close>

lemma pairwise_zero:
  assumes "\<forall>w \<in> set ws. size_of w = n"
  shows "(\<forall>(i, j) \<in> set (index_pairs (length ws)). d (ws ! i) (ws ! j) = 0)
     \<longleftrightarrow> (\<forall>v \<in> set ws. \<forall>w \<in> set ws. v = w)"
proof
  assume z: "\<forall>(i, j) \<in> set (index_pairs (length ws)). d (ws ! i) (ws ! j) = 0"
  have "ws ! i = ws ! j" if "i < length ws" "j < length ws" "i < j" for i j
    using z that assms d_zero by (force simp: set_index_pairs)
  then have "ws ! i = ws ! j" if "i < length ws" "j < length ws" for i j
    using that by (metis linorder_less_linear)
  then show "\<forall>v \<in> set ws. \<forall>w \<in> set ws. v = w"
    by (metis in_set_conv_nth)
next
  assume e: "\<forall>v \<in> set ws. \<forall>w \<in> set ws. v = w"
  show "\<forall>(i, j) \<in> set (index_pairs (length ws)). d (ws ! i) (ws ! j) = 0"
  proof (clarsimp simp: set_index_pairs)
    fix i j assume "i < j" "j < length ws"
    then have "ws ! i = ws ! j" using e nth_mem by (metis order.strict_trans)
    then show "d (ws ! i) (ws ! j) = 0" using d_zero [of "ws ! i" "ws ! j"] by simp
  qed
qed

text \<open>The distance between the ends of a chain is at most the sum of the steps.\<close>

lemma chain_bound:
  assumes "\<forall>w \<in> set (v # ws). size_of w = n"
  shows "d v (last (v # ws)) \<le> sum_list (map2 d (v # ws) ws)"
  using assms
proof (induction ws arbitrary: v)
  case Nil
  then show ?case using d_zero [of v v] by simp
next
  case (Cons w ws)
  have "size_of (last (w # ws)) = n"
    using Cons.prems last_in_set [of "w # ws"] by auto
  then have "d v (last (w # ws)) \<le> d v w + d w (last (w # ws))"
    using Cons.prems by (intro d_triangle) auto
  also have "d w (last (w # ws)) \<le> sum_list (map2 d (w # ws) ws)"
    using Cons.prems by (intro Cons.IH) auto
  finally show ?case by simp
qed

end

interpretation ham: window_distance xor_count "\<lambda>a. 8 * length a"
proof unfold_locales
  show "xor_count a b \<le> 8 * length a" for a b
    using xor_count_bound [of a b] by simp
qed (auto simp: xor_count_comm xor_count_eq_0 xor_count_triangle)

end
