(* ===== verification/Stats.thy ===== *)
theory Stats
  imports Prelude
begin

text \<open>
  The statistics module on lists of reals (\<open>mean\<close>, \<open>median\<close>, \<open>pstdev\<close>, \<open>min\<close>, \<open>max\<close>) with the
  error on empty data, and the two entropy figures the analysis scripts compute from counts:
  the Shannon entropy and the most-common-value min-entropy. Facts: a summary lies in the range
  of the data, and min-entropy is at most Shannon entropy, which is at most the logarithm of
  the number of distinct values.
\<close>

section \<open>Location and spread\<close>

definition mean :: "real list \<Rightarrow> real" where
  "mean xs = sum_list xs / real (length xs)"

definition median :: "real list \<Rightarrow> real" where
  "median xs =
     (let s = sort xs; n = length xs
      in if odd n then s ! (n div 2) else (s ! (n div 2 - 1) + s ! (n div 2)) / 2)"

definition pstdev :: "real list \<Rightarrow> real" where
  "pstdev xs = sqrt (sum_list (map (\<lambda>x. (x - mean xs)\<^sup>2) xs) / real (length xs))"

fun lmin :: "real list \<Rightarrow> real" where
  "lmin [] = 0"
| "lmin [x] = x"
| "lmin (x # y # xs) = min x (lmin (y # xs))"

fun lmax :: "real list \<Rightarrow> real" where
  "lmax [] = 0"
| "lmax [x] = x"
| "lmax (x # y # xs) = max x (lmax (y # xs))"

text \<open>The library's versions on data that may be empty.\<close>

definition py_mean :: "real list \<Rightarrow> real result" where
  "py_mean xs = (if xs = [] then Inl StatisticsError else Inr (mean xs))"

definition py_min :: "real list \<Rightarrow> real result" where
  "py_min xs = (if xs = [] then Inl ValueError else Inr (lmin xs))"

definition py_max :: "real list \<Rightarrow> real result" where
  "py_max xs = (if xs = [] then Inl ValueError else Inr (lmax xs))"

lemma lmin_le: "x \<in> set xs \<Longrightarrow> lmin xs \<le> x"
  by (induction xs rule: lmin.induct) auto

lemma lmax_ge: "x \<in> set xs \<Longrightarrow> x \<le> lmax xs"
  by (induction xs rule: lmax.induct) auto

lemma lmin_in: "xs \<noteq> [] \<Longrightarrow> lmin xs \<in> set xs"
  by (induction xs rule: lmin.induct) (auto simp: min_def)

lemma lmax_in: "xs \<noteq> [] \<Longrightarrow> lmax xs \<in> set xs"
  by (induction xs rule: lmax.induct) (auto simp: max_def)

lemma sum_list_bounds:
  fixes xs :: "real list"
  assumes "\<And>x. x \<in> set xs \<Longrightarrow> l \<le> x \<and> x \<le> u"
  shows "real (length xs) * l \<le> sum_list xs \<and> sum_list xs \<le> real (length xs) * u"
  using assms
proof (induction xs)
  case (Cons x xs)
  then have "real (length xs) * l \<le> sum_list xs \<and> sum_list xs \<le> real (length xs) * u"
    and "l \<le> x \<and> x \<le> u" by auto
  then show ?case by (auto simp: algebra_simps)
qed simp

lemma mean_bounds:
  assumes "xs \<noteq> []"
  shows "lmin xs \<le> mean xs" and "mean xs \<le> lmax xs"
proof -
  have "real (length xs) * lmin xs \<le> sum_list xs \<and> sum_list xs \<le> real (length xs) * lmax xs"
    by (rule sum_list_bounds) (simp add: lmin_le lmax_ge)
  moreover have "0 < real (length xs)" using assms by simp
  ultimately show "lmin xs \<le> mean xs" and "mean xs \<le> lmax xs"
    by (simp_all add: mean_def field_simps)
qed

lemma median_bounds:
  assumes "xs \<noteq> []"
  shows "lmin xs \<le> median xs" and "median xs \<le> lmax xs"
proof -
  have n: "0 < length xs" using assms by simp
  then have i: "length xs div 2 < length xs" "length xs div 2 - 1 < length xs" by linarith+
  then have "sort xs ! (length xs div 2) \<in> set xs" "sort xs ! (length xs div 2 - 1) \<in> set xs"
    by (metis length_sort nth_mem set_sort)+
  then have "lmin xs \<le> sort xs ! (length xs div 2)" "sort xs ! (length xs div 2) \<le> lmax xs"
    and "lmin xs \<le> sort xs ! (length xs div 2 - 1)" "sort xs ! (length xs div 2 - 1) \<le> lmax xs"
    by (simp_all only: lmin_le lmax_ge)
  then show "lmin xs \<le> median xs" and "median xs \<le> lmax xs"
    by (simp_all add: median_def Let_def field_simps)
qed

lemma pstdev_nonneg: "0 \<le> pstdev xs"
  unfolding pstdev_def by (intro real_sqrt_ge_zero divide_nonneg_nonneg sum_list_nonneg) auto

lemma mean_replicate [simp]: "0 < n \<Longrightarrow> mean (replicate n x) = x"
  by (simp add: mean_def sum_list_replicate)

lemma mean_mset: "mset xs = mset ys \<Longrightarrow> mean xs = mean ys"
  by (metis mean_def mset_eq_length sum_mset_sum_list)

text \<open>
  What every script reports about a list of measurements: their number and, when there are
  any, figures that lie between the smallest and the largest.
\<close>

locale range_summary =
  fixes lo mid hi :: "real list \<Rightarrow> real"
  assumes lo_in: "xs \<noteq> [] \<Longrightarrow> lo xs \<in> set xs"
    and hi_in: "xs \<noteq> [] \<Longrightarrow> hi xs \<in> set xs"
    and lo_mid: "xs \<noteq> [] \<Longrightarrow> lo xs \<le> mid xs"
    and mid_hi: "xs \<noteq> [] \<Longrightarrow> mid xs \<le> hi xs"
begin

lemma summary_within:
  assumes "xs \<noteq> []" and "\<forall>x \<in> set xs. l \<le> x \<and> x \<le> u"
  shows "l \<le> lo xs \<and> lo xs \<le> mid xs \<and> mid xs \<le> hi xs \<and> hi xs \<le> u"
  using assms lo_in hi_in lo_mid mid_hi by blast

lemma summary_constant:
  assumes "xs \<noteq> []" and "\<forall>x \<in> set xs. x = c"
  shows "lo xs = c \<and> mid xs = c \<and> hi xs = c"
proof -
  have "lo xs = c" "hi xs = c" using assms lo_in hi_in by blast+
  then show ?thesis using assms(1) lo_mid [of xs] mid_hi [of xs] by simp
qed

end

interpretation mean_range: range_summary lmin mean lmax
  by unfold_locales (simp_all add: lmin_in lmax_in mean_bounds)

interpretation median_range: range_summary lmin median lmax
  by unfold_locales (simp_all add: lmin_in lmax_in median_bounds)

text \<open>The Cauchy-Schwarz inequality for the sums of a list of pairs.\<close>

lemma pearson_sums:
  fixes ps :: "(real \<times> real) list"
  shows "(sum_list (map (\<lambda>(x, y). x * y) ps))\<^sup>2
     \<le> sum_list (map (\<lambda>(x, _). x\<^sup>2) ps) * sum_list (map (\<lambda>(_, y). y\<^sup>2) ps)"
proof (induction ps)
  case (Cons p ps)
  obtain x y where p: "p = (x, y)" by force
  let ?A = "sum_list (map (\<lambda>(x, _). x\<^sup>2) ps)" and ?B = "sum_list (map (\<lambda>(_, y). y\<^sup>2) ps)"
  let ?C = "sum_list (map (\<lambda>(x, y). x * y) ps)"
  have pos: "0 \<le> ?A" "0 \<le> ?B" by (rule sum_list_nonneg; auto)+
  have "\<bar>?C\<bar> \<le> sqrt ?A * sqrt ?B"
    using Cons.IH real_le_rsqrt [of "\<bar>?C\<bar>" "?A * ?B"] by (simp add: real_sqrt_mult)
  then have "2 * \<bar>x * y\<bar> * \<bar>?C\<bar> \<le> 2 * \<bar>x * y\<bar> * (sqrt ?A * sqrt ?B)"
    by (intro mult_left_mono) simp_all
  moreover have "2 * (x * y) * ?C \<le> 2 * \<bar>x * y\<bar> * \<bar>?C\<bar>"
    using abs_ge_self [of "2 * (x * y) * ?C"] by (simp add: abs_mult)
  ultimately have "2 * (x * y) * ?C \<le> 2 * \<bar>x * y\<bar> * (sqrt ?A * sqrt ?B)" by linarith
  also have "\<dots> = 2 * (\<bar>y\<bar> * sqrt ?A) * (\<bar>x\<bar> * sqrt ?B)" by (simp add: abs_mult)
  also have "\<dots> \<le> (\<bar>y\<bar> * sqrt ?A)\<^sup>2 + (\<bar>x\<bar> * sqrt ?B)\<^sup>2"
    using sum_squares_bound [of "\<bar>y\<bar> * sqrt ?A" "\<bar>x\<bar> * sqrt ?B"] by (simp add: mult.assoc)
  also have "\<dots> = y\<^sup>2 * ?A + x\<^sup>2 * ?B" using pos by (simp add: power_mult_distrib)
  finally have "2 * (x * y) * ?C \<le> y\<^sup>2 * ?A + x\<^sup>2 * ?B" .
  moreover have "(x * y + ?C)\<^sup>2 = (x * y)\<^sup>2 + 2 * (x * y) * ?C + ?C\<^sup>2" by (simp add: power2_sum)
  moreover have "(x\<^sup>2 + ?A) * (y\<^sup>2 + ?B) = (x * y)\<^sup>2 + (y\<^sup>2 * ?A + x\<^sup>2 * ?B) + ?A * ?B"
    by (simp add: power_mult_distrib algebra_simps)
  ultimately show ?case using Cons.IH by (simp add: p)
qed simp

lemma ratio_bounds:
  assumes "c\<^sup>2 \<le> a * b" and "sqrt (a * b) \<noteq> 0"
  shows "-1 \<le> c / sqrt (a * b) \<and> c / sqrt (a * b) \<le> (1 :: real)"
proof -
  have "0 \<le> a * b" using assms(1) zero_le_power2 [of c] by linarith
  then have pos: "0 < sqrt (a * b)" using assms(2) by (metis order_le_less real_sqrt_ge_0_iff)
  have "\<bar>c\<bar> \<le> sqrt (a * b)" using assms(1) by (metis real_le_rsqrt power2_abs)
  then show ?thesis using pos by (simp add: divide_le_eq le_divide_eq abs_le_iff)
qed

section \<open>Entropy of a sample\<close>

definition freq :: "'a list \<Rightarrow> 'a \<Rightarrow> real" where
  "freq xs v = real (count_list xs v) / real (length xs)"

text \<open>Both sums run over the distinct values, as \<open>Counter(data).values()\<close> does.\<close>

definition shannon_bits :: "'a list \<Rightarrow> real" where
  "shannon_bits xs = - sum_list (map (\<lambda>v. freq xs v * log 2 (freq xs v)) (remdups xs))"

definition max_count :: "'a list \<Rightarrow> nat" where
  "max_count xs = fold (\<lambda>v m. max m (count_list xs v)) (remdups xs) 0"

definition mcv_bits :: "'a list \<Rightarrow> real" where
  "mcv_bits xs = - log 2 (real (max_count xs) / real (length xs))"

lemma fold_max_bounds:
  fixes f :: "'a \<Rightarrow> nat"
  shows "m \<le> fold (\<lambda>v m. max m (f v)) vs m \<and> (\<forall>v \<in> set vs. f v \<le> fold (\<lambda>v m. max m (f v)) vs m)"
proof (induction vs arbitrary: m)
  case (Cons v vs)
  from Cons.IH [of "max m (f v)"] show ?case by auto
qed simp

lemma fold_max_in:
  fixes f :: "'a \<Rightarrow> nat"
  shows "fold (\<lambda>v m. max m (f v)) vs m \<in> insert m (f ` set vs)"
proof (induction vs arbitrary: m)
  case (Cons v vs)
  from Cons.IH [of "max m (f v)"] show ?case by (auto simp: max_def split: if_splits)
qed simp

lemma max_count_ge: "v \<in> set xs \<Longrightarrow> count_list xs v \<le> max_count xs"
  unfolding max_count_def using fold_max_bounds [of 0 "count_list xs" "remdups xs"] by auto

lemma max_count_attained: "xs \<noteq> [] \<Longrightarrow> \<exists>v \<in> set xs. max_count xs = count_list xs v"
proof -
  assume ne: "xs \<noteq> []"
  have "max_count xs \<in> insert 0 (count_list xs ` set xs)"
    unfolding max_count_def using fold_max_in [of "count_list xs" "remdups xs" 0] by simp
  moreover have "0 < max_count xs"
    using ne max_count_ge [of "hd xs" xs] by (metis count_list_0_iff gr0I hd_in_set le_zero_eq)
  ultimately show ?thesis by auto
qed

lemma count_list_le: "count_list xs v \<le> length xs"
  by (induction xs) auto

lemma freq_pos: "v \<in> set xs \<Longrightarrow> 0 < freq xs v"
  using count_list_0_iff [of xs v] length_pos_if_in_set [of v xs]
  by (simp add: freq_def zero_less_divide_iff)

lemma freq_le_1: "freq xs v \<le> 1"
  using count_list_le [of xs v] by (cases "xs = []") (auto simp: freq_def field_simps)

lemma sum_freq: "xs \<noteq> [] \<Longrightarrow> (\<Sum>v \<in> set xs. freq xs v) = 1"
proof -
  assume "xs \<noteq> []"
  have "(\<Sum>v \<in> set xs. real (count_list xs v)) = real (length xs)"
    by (simp add: sum_count_set flip: of_nat_sum)
  with \<open>xs \<noteq> []\<close> show ?thesis by (simp add: freq_def flip: sum_divide_distrib)
qed

lemma shannon_sum: "shannon_bits xs = (\<Sum>v \<in> set xs. freq xs v * - log 2 (freq xs v))"
proof -
  have "sum_list (map g (remdups xs)) = (\<Sum>v \<in> set xs. g v)" for g :: "'a \<Rightarrow> real"
    by (simp add: sum_list_distinct_conv_sum_set)
  then show ?thesis by (simp add: shannon_bits_def sum_negf)
qed

lemma mcv_nonneg: "xs \<noteq> [] \<Longrightarrow> 0 \<le> mcv_bits xs"
proof -
  assume "xs \<noteq> []"
  then obtain v where v: "v \<in> set xs" "max_count xs = count_list xs v"
    using max_count_attained by blast
  then have "mcv_bits xs = - log 2 (freq xs v)" by (simp add: mcv_bits_def freq_def)
  with freq_pos [OF v(1)] freq_le_1 [of xs v] show ?thesis by simp
qed

lemma mcv_le_shannon:
  assumes "xs \<noteq> []"
  shows "mcv_bits xs \<le> shannon_bits xs"
proof -
  have "mcv_bits xs = (\<Sum>v \<in> set xs. freq xs v * mcv_bits xs)"
    using sum_freq [OF assms] by (simp flip: sum_distrib_right)
  also have "\<dots> \<le> (\<Sum>v \<in> set xs. freq xs v * - log 2 (freq xs v))"
  proof (rule sum_mono)
    fix v assume v: "v \<in> set xs"
    have "freq xs v \<le> real (max_count xs) / real (length xs)"
      using max_count_ge [OF v] by (simp add: freq_def divide_right_mono)
    with freq_pos [OF v] have "mcv_bits xs \<le> - log 2 (freq xs v)"
      by (auto simp: mcv_bits_def intro!: log_mono)
    with freq_pos [OF v] show "freq xs v * mcv_bits xs \<le> freq xs v * - log 2 (freq xs v)"
      by (intro mult_left_mono) auto
  qed
  finally show ?thesis by (simp add: shannon_sum)
qed

text \<open>Gibbs' inequality against the uniform distribution on the values that occur.\<close>

lemma shannon_le_log_distinct:
  assumes "xs \<noteq> []"
  shows "shannon_bits xs \<le> log 2 (real (card (set xs)))"
proof -
  define k where "k = real (card (set xs))"
  have k: "0 < k" using assms by (simp add: k_def card_gt_0_iff)
  have "shannon_bits xs - log 2 k = (\<Sum>v \<in> set xs. freq xs v * (- log 2 (freq xs v) - log 2 k))"
    using sum_freq [OF assms]
    by (simp add: shannon_sum sum_subtractf right_diff_distrib flip: sum_distrib_right)
  also have "\<dots> \<le> (\<Sum>v \<in> set xs. (1 / k - freq xs v) / ln 2)"
  proof (rule sum_mono)
    fix v assume "v \<in> set xs"
    then have f: "0 < freq xs v" by (rule freq_pos)
    have "- log 2 (freq xs v) - log 2 k = ln (1 / (freq xs v * k)) / ln 2"
      using f k by (simp add: log_def ln_div ln_mult diff_divide_distrib add_divide_distrib)
    also have "\<dots> \<le> (1 / (freq xs v * k) - 1) / ln 2"
      using f k by (intro divide_right_mono ln_le_minus_one) auto
    finally have "freq xs v * (- log 2 (freq xs v) - log 2 k)
        \<le> freq xs v * ((1 / (freq xs v * k) - 1) / ln 2)"
      using f by (intro mult_left_mono) auto
    also have "\<dots> = (1 / k - freq xs v) / ln 2"
      using f k by (simp add: field_simps)
    finally show "freq xs v * (- log 2 (freq xs v) - log 2 k) \<le> (1 / k - freq xs v) / ln 2" .
  qed
  also have "\<dots> = 0"
    using sum_freq [OF assms] k assms by (simp add: sum_subtractf k_def flip: sum_divide_distrib)
  finally show ?thesis by (simp add: k_def)
qed

lemma shannon_le_8: "shannon_bits (xs :: bytes) \<le> 8"
proof (cases "xs = []")
  case False
  have "card (set xs) \<le> card (UNIV :: byte set)"
    by (rule card_mono) auto
  then have "real (card (set xs)) \<le> 2 ^ 8"
    by (simp add: card_word)
  moreover have "0 < card (set xs)" using False by (simp add: card_gt_0_iff)
  ultimately have "log 2 (real (card (set xs))) \<le> log 2 (2 ^ 8)"
    by (intro log_mono) auto
  also have "log 2 (2 ^ 8 :: real) = 8" using log_pow_cancel [of 2 8] by simp
  finally show ?thesis using shannon_le_log_distinct [OF False] by simp
qed (simp add: shannon_bits_def)

end
