(* ===== verification/PyPath.thy ===== *)
theory PyPath
  imports PyText
begin

text \<open>
  Paths as \<open>pathlib\<close> has them: the parts of a path, joining, the parent and the last part, and
  the text of a path.
\<close>

text \<open>A path is its parts; an absolute path starts with the part \<open>/\<close>. The empty path is \<open>.\<close>.\<close>

type_synonym path = "string list"

definition path_of :: "string \<Rightarrow> path" where
  "path_of s = (if startswith s ''/'' then [''/''] else [])
     @ filter (\<lambda>p. p \<noteq> [] \<and> p \<noteq> ''.'') (split_on CHR ''/'' s)"

definition is_absolute :: "path \<Rightarrow> bool" where
  "is_absolute p = (take 1 p = [''/''])"

definition path_div :: "path \<Rightarrow> path \<Rightarrow> path" where
  "path_div a b = (if is_absolute b then b else a @ b)"

definition parent :: "path \<Rightarrow> path" where
  "parent p = (if p = [''/''] then p else butlast p)"

definition path_name :: "path \<Rightarrow> string" where
  "path_name p = (if p = [] \<or> p = [''/''] then [] else last p)"

text \<open>\<open>str(path)\<close>.\<close>

definition path_str :: "path \<Rightarrow> string" where
  "path_str p =
     (if p = [] then ''.'' else if is_absolute p then ''/'' @ join ''/'' (tl p) else join ''/'' p)"

end
