(* ===== verification/AebSources.thy ===== *)
theory AebSources
  imports AebUpload Bits Stats PyPath
begin

text \<open>
  The source analysis of the RF-actuated experiment (\<open>analyze_aeb_sources.py\<close>): path
  resolution, entropy and bit statistics of byte streams, pairwise and consecutive distances of
  windows, correlation of windows, reading the jitter tables, and the main run that splits the
  collector's trials into source streams. The file system is a map from paths to nodes, the
  random sample of pairs and SHA-256 are parameters. Its JSON and CSV rendering is not modelled:
  the run returns the values that are written.
\<close>

section \<open>Files\<close>

text \<open>
  A regular file comes with the rows that \<open>csv.DictReader\<close> reads from it; the syntax of CSV is
  not modelled.
\<close>

datatype node = File bytes "(string, string) dict list" | Dir

type_synonym file_system = "path \<Rightarrow> node option"

definition look :: "file_system \<Rightarrow> path \<Rightarrow> node option" where
  "look fs p = (if p = [] then Some Dir else fs p)"

definition path_exists :: "file_system \<Rightarrow> path \<Rightarrow> bool" where
  "path_exists fs p = (look fs p \<noteq> None)"

definition open_file :: "file_system \<Rightarrow> path \<Rightarrow> (bytes \<times> (string, string) dict list) result" where
  "open_file fs p =
     (case look fs p of None \<Rightarrow> Inl FileNotFoundError | Some Dir \<Rightarrow> Inl IsADirectoryError
      | Some (File bs rs) \<Rightarrow> Inr (bs, rs))"

definition read_bytes :: "file_system \<Rightarrow> path \<Rightarrow> bytes result" where
  "read_bytes fs p = rbind (open_file fs p) (\<lambda>f. Inr (fst f))"

definition read_csv :: "file_system \<Rightarrow> path \<Rightarrow> (string, string) dict list result" where
  "read_csv fs p = rbind (open_file fs p) (\<lambda>f. Inr (snd f))"

text \<open>The rows of a table written with a header, as \<open>DictReader\<close> gives them back.\<close>

fun table_dicts :: "string list list \<Rightarrow> (string, string) dict list" where
  "table_dicts [] = []"
| "table_dicts (h # rows) = map (zip h) rows"

text \<open>The first of several candidates that exists.\<close>

fun first_existing :: "file_system \<Rightarrow> path list \<Rightarrow> path option" where
  "first_existing fs [] = None"
| "first_existing fs (p # ps) = (if path_exists fs p then Some p else first_existing fs ps)"

definition marker_candidates :: "path \<Rightarrow> path \<Rightarrow> path list" where
  "marker_candidates run_dir p =
     map (\<lambda>m. path_div run_dir (dropWhile (\<lambda>x. x \<noteq> m) p))
       (filter (\<lambda>m. m \<in> set p) [''raw'', ''jitter'', ''joint'', ''stimulus''])"

definition resolve_path :: "file_system \<Rightarrow> path \<Rightarrow> string \<Rightarrow> path" where
  "resolve_path fs run_dir value =
     (let p = path_of value
      in if is_absolute p then p else if path_exists fs p then p
         else (case first_existing fs
                 (marker_candidates run_dir p
                  @ [path_div run_dir p, path_div (parent (parent run_dir)) p]
                  @ map (\<lambda>m. path_div run_dir [m, path_name p]) [''raw'', ''jitter'', ''joint'']) of
                 Some q \<Rightarrow> q | None \<Rightarrow> p))"

section \<open>Statistics of a stream\<close>

definition byte_shannon_entropy :: "bytes \<Rightarrow> real" where
  "byte_shannon_entropy d = (if d = [] then 0 else shannon_bits d)"

definition mcv_min_entropy :: "'a list \<Rightarrow> real" where
  "mcv_min_entropy vs = (if vs = [] then 0 else mcv_bits vs)"

definition ones_count :: "bytes \<Rightarrow> nat" where
  "ones_count d = sum_list (map bit_count d)"

text \<open>The two nested loops of \<open>bit_transitions\<close>, with the previous bit and the count as state.\<close>

definition transition_step :: "bool \<Rightarrow> bool option \<times> nat \<Rightarrow> bool option \<times> nat" where
  "transition_step cur s =
     (case s of (prev, n) \<Rightarrow> (Some cur, if prev \<noteq> None \<and> prev \<noteq> Some cur then n + 1 else n))"

definition bit_transitions :: "bytes \<Rightarrow> nat" where
  "bit_transitions d =
     snd (fold (\<lambda>b. fold (\<lambda>i. transition_step (bit b i)) [7, 6, 5, 4, 3, 2, 1, 0 :: nat]) d (None, 0))"

definition hamming_bits :: "bytes \<Rightarrow> bytes \<Rightarrow> nat" where
  "hamming_bits a b = sum_list (map (\<lambda>(x, y). bit_count (x XOR y)) (zip a b))"

text \<open>\<open>sample\<close> stands for \<open>random.Random(seed).sample(pairs, k)\<close>.\<close>

definition pair_indices ::
    "((nat \<times> nat) list \<Rightarrow> nat \<Rightarrow> (nat \<times> nat) list) \<Rightarrow> nat \<Rightarrow> nat \<Rightarrow> (nat \<times> nat) list" where
  "pair_indices sample n max_pairs =
     (let ps = concat (map (\<lambda>i. map (\<lambda>j. (i, j)) [i + 1..<n]) [0..<n])
      in if length ps \<le> max_pairs then ps else sample ps max_pairs)"

record range_summary_row =
  r_count :: nat
  r_min :: "real option"
  r_mean :: "real option"
  r_max :: "real option"

definition summarize :: "real list \<Rightarrow> range_summary_row" where
  "summarize vs =
     (if vs = [] then \<lparr>r_count = 0, r_min = None, r_mean = None, r_max = None\<rparr>
      else \<lparr>r_count = length vs, r_min = Some (lmin vs), r_mean = Some (mean vs), r_max = Some (lmax vs)\<rparr>)"

record stream_stats =
  s_bytes :: nat
  s_sha256 :: string
  s_shannon :: real
  s_mcv :: real
  s_ones_ratio :: "real option"
  s_transition_ratio :: "real option"

definition binary_stats :: "(bytes \<Rightarrow> bytes) \<Rightarrow> bytes \<Rightarrow> stream_stats" where
  "binary_stats sha d =
     (if d = [] then \<lparr>s_bytes = 0, s_sha256 = hex_of (sha d), s_shannon = 0, s_mcv = 0,
        s_ones_ratio = None, s_transition_ratio = None\<rparr>
      else (let bits = length d * 8; den = (if bits > 1 then bits - 1 else 1)
            in \<lparr>s_bytes = length d, s_sha256 = hex_of (sha d), s_shannon = byte_shannon_entropy d,
                s_mcv = mcv_min_entropy d, s_ones_ratio = Some (real (ones_count d) / real bits),
                s_transition_ratio = Some (real (bit_transitions d) / real den)\<rparr>))"

section \<open>Windows\<close>

definition window_percent :: "bytes \<Rightarrow> bytes \<Rightarrow> real list" where
  "window_percent a b =
     (let den = min (length a) (length b) * 8
      in if den \<noteq> 0 then [100 * real (hamming_bits a b) / real den] else [])"

definition source_pair_hamming ::
    "((nat \<times> nat) list \<Rightarrow> nat \<Rightarrow> (nat \<times> nat) list) \<Rightarrow> bytes list \<Rightarrow> nat \<Rightarrow> range_summary_row" where
  "source_pair_hamming sample ws max_pairs =
     summarize (concat (map (\<lambda>(i, j). window_percent (ws ! i) (ws ! j)) (pair_indices sample (length ws) max_pairs)))"

definition consecutive_hamming :: "bytes list \<Rightarrow> range_summary_row" where
  "consecutive_hamming ws = summarize (concat (map (\<lambda>(a, b). window_percent a b) (zip ws (tl ws))))"

definition pearson_pairs :: "(real \<times> real) list \<Rightarrow> real option" where
  "pearson_pairs pairs =
     (if pairs = [] then None
      else (let fm = mean (map fst pairs); sm = mean (map snd pairs);
                cov = sum_list (map (\<lambda>(f, s). (f - fm) * (s - sm)) pairs);
                fv = sum_list (map (\<lambda>(f, _). (f - fm)\<^sup>2) pairs);
                sv = sum_list (map (\<lambda>(_, s). (s - sm)\<^sup>2) pairs);
                den = sqrt (fv * sv)
            in if den = 0 then None else Some (cov / den)))"

definition byte_pearson :: "bytes \<Rightarrow> bytes \<Rightarrow> real option" where
  "byte_pearson first second = pearson_pairs (map (\<lambda>(x, y). (real (unat x), real (unat y))) (zip first second))"

definition consecutive_byte_pearson :: "bytes list \<Rightarrow> range_summary_row" where
  "consecutive_byte_pearson ws =
     summarize (concat (map (\<lambda>(a, b). case byte_pearson a b of None \<Rightarrow> [] | Some r \<Rightarrow> [r]) (zip ws (tl ws))))"

section \<open>Jitter tables\<close>

definition jitter_row :: "(string, string) dict \<Rightarrow> (int \<times> int) result" where
  "jitter_row row =
     rbind (dict_item row ''delta_us'') (\<lambda>ds. rbind (py_int ds) (\<lambda>delta.
       (case dict_get row ''residual_us'' of
          Some rs \<Rightarrow> if rs \<noteq> [] then rbind (py_int rs) (\<lambda>r. Inr (delta, r)) else Inr (delta, delta)
        | None \<Rightarrow> Inr (delta, delta))))"

definition load_jitter_csv :: "(string, string) dict list \<Rightarrow> (int list \<times> int list) result" where
  "load_jitter_csv rows = rbind (rmap jitter_row rows) (\<lambda>ps. Inr (map fst ps, map snd ps))"

definition pack_u32 :: "int list \<Rightarrow> bytes result" where
  "pack_u32 vs = rbind (rmap (pack_le 4) vs) (\<lambda>bs. Inr (concat bs))"

definition pack_s32_all :: "int list \<Rightarrow> bytes result" where
  "pack_s32_all vs = rbind (rmap pack_s32 vs) (\<lambda>bs. Inr (concat bs))"

definition low8 :: "int list \<Rightarrow> bytes" where
  "low8 vs = map (\<lambda>v. byte_of_nat (nat (v mod 256))) vs"

section \<open>The run\<close>

record trial_streams =
  t_capture :: int
  t_raw :: bytes
  t_deltas :: "int list"
  t_residuals :: "int list"
  t_delta_bytes :: bytes
  t_residual_bytes :: bytes

definition load_trial :: "file_system \<Rightarrow> path \<Rightarrow> (string, string) dict \<Rightarrow> trial_streams result" where
  "load_trial fs run_dir row =
     rbind (rbind (dict_item row ''capture_id'') py_int) (\<lambda>cid.
     rbind (dict_item row ''raw_file'') (\<lambda>rf.
     rbind (dict_item row ''jitter_file'') (\<lambda>jf.
     rbind (read_bytes fs (resolve_path fs run_dir rf)) (\<lambda>raw.
     rbind (rbind (read_csv fs (resolve_path fs run_dir jf)) load_jitter_csv) (\<lambda>(deltas, residuals).
     rbind (pack_u32 deltas) (\<lambda>db.
     rbind (pack_s32_all residuals) (\<lambda>rb.
       Inr \<lparr>t_capture = cid, t_raw = raw, t_deltas = deltas, t_residuals = residuals,
            t_delta_bytes = db, t_residual_bytes = rb\<rparr>)))))))"

definition t_joint :: "trial_streams \<Rightarrow> bytes" where
  "t_joint t = t_raw t @ t_delta_bytes t"

text \<open>One row of \<open>source_trials.csv\<close>.\<close>

record source_trial_row =
  q_capture :: int
  q_raw_bytes :: nat
  q_jitter_count :: nat
  q_hashes :: "string list"
  q_entropies :: "real list"
  q_uniques :: "nat list"

definition source_trial_row :: "(bytes \<Rightarrow> bytes) \<Rightarrow> trial_streams \<Rightarrow> source_trial_row" where
  "source_trial_row sha t =
     \<lparr>q_capture = t_capture t, q_raw_bytes = length (t_raw t), q_jitter_count = length (t_deltas t),
      q_hashes = map (\<lambda>d. hex_of (sha d)) [t_raw t, t_delta_bytes t, t_residual_bytes t, t_joint t],
      q_entropies = [mcv_min_entropy (t_raw t), mcv_min_entropy (t_deltas t), mcv_min_entropy (t_residuals t)],
      q_uniques = [length (remdups (t_deltas t)), length (remdups (t_residuals t))]\<rparr>"

text \<open>The values at one position of all vectors that reach it, in the order of the vectors.\<close>

definition by_position :: "int list list \<Rightarrow> nat \<Rightarrow> int list" where
  "by_position vs i = concat (map (\<lambda>v. if i < length v then [v ! i] else []) vs)"

record position_side =
  p_unique :: nat
  p_mcv_count :: nat
  p_mcv_probability :: "real option"
  p_min_entropy :: real
  p_min :: "real option"
  p_mean :: "real option"
  p_max :: "real option"

definition position_side :: "int list \<Rightarrow> position_side" where
  "position_side vs =
     (let r = summarize (map of_int vs)
      in \<lparr>p_unique = length (remdups vs), p_mcv_count = max_count vs,
          p_mcv_probability = (if vs = [] then None else Some (real (max_count vs) / real (length vs))),
          p_min_entropy = mcv_min_entropy vs, p_min = r_min r, p_mean = r_mean r, p_max = r_max r\<rparr>)"

record position_row =
  pos_index :: nat
  pos_count :: nat
  pos_delta :: position_side
  pos_residual :: position_side

definition position_rows :: "int list list \<Rightarrow> int list list \<Rightarrow> position_row list" where
  "position_rows ds rs =
     map (\<lambda>i. \<lparr>pos_index = i, pos_count = length (by_position ds i),
               pos_delta = position_side (by_position ds i), pos_residual = position_side (by_position rs i)\<rparr>)
       [0..<fold max (map length (ds @ rs)) 0]"

record jitter_report =
  j_stats :: stream_stats
  j_samples :: nat
  j_unique_samples :: nat
  j_unique_vectors :: nat
  j_position :: range_summary_row
  j_position_sum :: real

record source_report =
  rep_rows :: "source_trial_row list"
  rep_positions :: "position_row list"
  rep_streams :: "(string, bytes) dict"
  rep_deterministic :: bool
  rep_complete :: nat
  rep_wdev :: stream_stats
  rep_wdev_unique :: nat
  rep_wdev_hamming :: range_summary_row
  rep_wdev_consecutive :: range_summary_row
  rep_wdev_pearson :: range_summary_row
  rep_delta :: jitter_report
  rep_residual :: jitter_report
  rep_delta_low8 :: stream_stats
  rep_residual_low8 :: stream_stats
  rep_joint :: stream_stats
  rep_joint_unique :: nat
  rep_joint_hamming :: range_summary_row

text \<open>\<open>deterministic_stimulus\<close> on the manifest the collector wrote; without one it is false.\<close>

definition deterministic_stimulus :: "manifest option \<Rightarrow> bool" where
  "deterministic_stimulus m =
     (case m of None \<Rightarrow> False
      | Some m \<Rightarrow> manifest_fixed_nonce m \<and> manifest_payload_mode m = Constant
          \<and> manifest_interval_jitter_us m = 0)"

definition jitter_report ::
    "(bytes \<Rightarrow> bytes) \<Rightarrow> bytes \<Rightarrow> int list \<Rightarrow> bytes list \<Rightarrow> real list \<Rightarrow> jitter_report" where
  "jitter_report sha packed vals vecs ents =
     \<lparr>j_stats = binary_stats sha packed, j_samples = length vals, j_unique_samples = length (remdups vals),
      j_unique_vectors = length (remdups (map (\<lambda>b. hex_of (sha b)) vecs)), j_position = summarize ents,
      j_position_sum = sum_list ents\<rparr>"

definition analyze_sources ::
    "(bytes \<Rightarrow> bytes) \<Rightarrow> ((nat \<times> nat) list \<Rightarrow> nat \<Rightarrow> (nat \<times> nat) list) \<Rightarrow> nat \<Rightarrow> file_system \<Rightarrow>
     path \<Rightarrow> (string, string) dict list \<Rightarrow> manifest option \<Rightarrow> source_report result" where
  "analyze_sources sha sample max_pairs fs run_dir rows mf =
     (let crows = filter (\<lambda>r. dict_get r ''complete'' = Some ''True'') rows
      in rbind (rmap (load_trial fs run_dir) crows) (\<lambda>ts.
         let ws = map t_raw ts; js = map t_joint ts;
             dvals = concat (map t_deltas ts); rvals = concat (map t_residuals ts);
             prows = position_rows (map t_deltas ts) (map t_residuals ts)
         in rbind (pack_u32 dvals) (\<lambda>du. rbind (pack_s32_all rvals) (\<lambda>rs. Inr
           \<lparr>rep_rows = map (source_trial_row sha) ts, rep_positions = prows,
            rep_streams = [(''wdev_all.bin'', concat ws), (''jitter_delta_u32le_all.bin'', du),
              (''jitter_residual_s32le_all.bin'', rs), (''jitter_delta_low8_all.bin'', low8 dvals),
              (''jitter_residual_low8_all.bin'', low8 rvals), (''response_joint_all.bin'', concat js)],
            rep_deterministic = deterministic_stimulus mf, rep_complete = length crows,
            rep_wdev = binary_stats sha (concat ws),
            rep_wdev_unique = length (remdups (map (\<lambda>w. hex_of (sha w)) ws)),
            rep_wdev_hamming = source_pair_hamming sample ws max_pairs,
            rep_wdev_consecutive = consecutive_hamming ws, rep_wdev_pearson = consecutive_byte_pearson ws,
            rep_delta = jitter_report sha du dvals (map t_delta_bytes ts) (map (p_min_entropy \<circ> pos_delta) prows),
            rep_residual = jitter_report sha rs rvals (map t_residual_bytes ts)
              (map (p_min_entropy \<circ> pos_residual) prows),
            rep_delta_low8 = binary_stats sha (low8 dvals), rep_residual_low8 = binary_stats sha (low8 rvals),
            rep_joint = binary_stats sha (concat js),
            rep_joint_unique = length (remdups (map (\<lambda>j. hex_of (sha j)) js)),
            rep_joint_hamming = source_pair_hamming sample js max_pairs\<rparr>))))"

section \<open>Facts\<close>

lemma fold_transition_step:
  "fold transition_step bs (prev, n) =
     (if bs = [] then prev else Some (last bs),
      n + transitions (case prev of None \<Rightarrow> bs | Some p \<Rightarrow> p # bs))"
  by (induction bs arbitrary: prev n) (auto simp: transition_step_def split: option.splits)

lemma bit_transitions_fold: "bit_transitions d = snd (fold transition_step (window_bits d) (None, 0))"
proof -
  have "fold (\<lambda>b. fold (\<lambda>i. transition_step (bit b i)) [7, 6, 5, 4, 3, 2, 1, 0 :: nat]) d s
      = fold transition_step (window_bits d) s" for s
    by (induction d arbitrary: s) (simp_all add: byte_bits_def upt_8)
  then show ?thesis by (simp add: bit_transitions_def)
qed

lemma bit_transitions_eq: "bit_transitions d = transitions (window_bits d)"
  by (simp add: bit_transitions_fold fold_transition_step)

lemma hamming_bits_eq: "hamming_bits = xor_count"
  by (simp add: fun_eq_iff hamming_bits_def xor_count_def)

lemma pair_indices_all: "n * (n - 1) div 2 \<le> m \<Longrightarrow> pair_indices sample n m = index_pairs n"
  using length_index_pairs [of n] by (simp add: pair_indices_def index_pairs_def Let_def)

lemma ones_count_le: "ones_count d \<le> 8 * length d"
  by (induction d) (simp_all add: ones_count_def add_mono bit_count_le)

lemma mcv_min_entropy_bounds:
  "0 \<le> mcv_min_entropy d" "d \<noteq> [] \<Longrightarrow> mcv_min_entropy d \<le> shannon_bits d"
  by (simp_all add: mcv_min_entropy_def mcv_nonneg mcv_le_shannon)

lemma percent_bounds: "c \<le> m \<Longrightarrow> 0 \<le> 100 * real c / real m \<and> 100 * real c / real m \<le> 100"
  by (cases "m = 0") (simp_all add: divide_le_eq)

lemma window_percent_bounds: "x \<in> set (window_percent a b) \<Longrightarrow> 0 \<le> x \<and> x \<le> 100"
proof -
  assume "x \<in> set (window_percent a b)"
  then have x: "x = 100 * real (xor_count a b) / real (min (length a) (length b) * 8)"
    by (auto simp: window_percent_def hamming_bits_eq Let_def split: if_splits)
  show ?thesis
    unfolding x using xor_count_bound [of a b] by (intro percent_bounds) (simp add: mult.commute)
qed

section \<open>Properties\<close>

text \<open>
  The nested loops that count bit transitions compute the number of neighbouring
  positions at which the bit string of the window changes, bits taken from the most significant of the
  first byte on; it is at most the number of bits less one.
\<close>

theorem bit_transitions_correct:
  "bit_transitions d = transitions (window_bits d) \<and> bit_transitions d \<le> 8 * length d - 1"
  using transitions_le [of "window_bits d"] by (simp add: bit_transitions_eq)

text \<open>
  The figures of a stream are in their ranges: the min-entropy per byte is not negative and at
  most the Shannon entropy, which is at most 8 bits; the ratios of ones and of transitions are
  between 0 and 1 and are given exactly when the stream is not empty.
\<close>

theorem stream_figures_in_range:
  "case binary_stats sha d of r \<Rightarrow>
     0 \<le> s_mcv r \<and> s_mcv r \<le> s_shannon r \<and> s_shannon r \<le> 8
   \<and> pred_option (\<lambda>x. 0 \<le> x \<and> x \<le> 1) (s_ones_ratio r)
   \<and> pred_option (\<lambda>x. 0 \<le> x \<and> x \<le> 1) (s_transition_ratio r)
   \<and> (s_ones_ratio r = None) = (d = []) \<and> (s_transition_ratio r = None) = (d = []) \<and> s_bytes r = length d"
proof (cases "d = []")
  case True
  then show ?thesis by (simp add: binary_stats_def)
next
  case False
  then have "8 \<le> length d * 8" by (cases d) simp_all
  moreover have "real (transitions (window_bits d)) \<le> real (length d) * 8 - 1"
    using transitions_le [of "window_bits d"] \<open>8 \<le> length d * 8\<close> by simp
  ultimately show ?thesis
    using False ones_count_le [of d] transitions_le [of "window_bits d"] mcv_min_entropy_bounds(1) [of d] mcv_min_entropy_bounds(2) [OF False]
      shannon_le_8 [of d]
    by (simp add: binary_stats_def Let_def byte_shannon_entropy_def bit_transitions_eq divide_le_eq mult.commute)
qed

lemma pearson_bounds:
  assumes "pearson_pairs ps = Some r"
  shows "- 1 \<le> r \<and> r \<le> 1"
proof -
  define fm where "fm = mean (map fst ps)"
  define sm where "sm = mean (map snd ps)"
  have r: "r = sum_list (map (\<lambda>(f, s). (f - fm) * (s - sm)) ps)
      / sqrt (sum_list (map (\<lambda>(f, _). (f - fm)\<^sup>2) ps) * sum_list (map (\<lambda>(_, s). (s - sm)\<^sup>2) ps))"
    and nz: "sqrt (sum_list (map (\<lambda>(f, _). (f - fm)\<^sup>2) ps) * sum_list (map (\<lambda>(_, s). (s - sm)\<^sup>2) ps)) \<noteq> 0"
    using assms unfolding pearson_pairs_def Let_def fm_def [symmetric] sm_def [symmetric]
    by (metis option.distinct(1) option.inject)+
  have "(sum_list (map (\<lambda>(f, s). (f - fm) * (s - sm)) ps))\<^sup>2
      \<le> sum_list (map (\<lambda>(f, _). (f - fm)\<^sup>2) ps) * sum_list (map (\<lambda>(_, s). (s - sm)\<^sup>2) ps)"
    using pearson_sums [of "map (\<lambda>(f, s). (f - fm, s - sm)) ps"] by (simp add: comp_def case_prod_unfold)
  then show ?thesis unfolding r using nz by (rule ratio_bounds)
qed

text \<open>
  A correlation of two windows, when it is defined, is between -1 and 1.
\<close>

theorem byte_pearson_range: "pred_option (\<lambda>r. - 1 \<le> r \<and> r \<le> 1) (byte_pearson a b)"
  using pearson_bounds by (cases "byte_pearson a b") (auto simp: byte_pearson_def)

lemma lmax_eq_0:
  assumes "vs \<noteq> []" and "\<forall>x \<in> set vs. 0 \<le> x"
  shows "lmax vs = 0 \<longleftrightarrow> (\<forall>x \<in> set vs. x = 0)"
proof
  assume "lmax vs = 0"
  then show "\<forall>x \<in> set vs. x = 0" using lmax_ge [of _ vs] assms(2) by force
next
  assume "\<forall>x \<in> set vs. x = 0"
  then show "lmax vs = 0" using lmax_in [OF assms(1)] by blast
qed

text \<open>The percentages of all pairs of non-empty windows of one length.\<close>

lemma pair_lengths:
  "\<forall>w \<in> set ws. length w = n \<Longrightarrow> (i, j) \<in> set (index_pairs (length ws)) \<Longrightarrow>
     length (ws ! i) = n \<and> length (ws ! j) = n"
  by (simp add: set_index_pairs)

lemma concat_map_singletons: "(\<And>x. x \<in> set xs \<Longrightarrow> f x = [g x]) \<Longrightarrow> concat (map f xs) = map g xs"
  by (induction xs) simp_all

lemma pair_percents:
  assumes "\<forall>w \<in> set ws. length w = n" and "0 < n" and "length ws * (length ws - 1) div 2 \<le> m"
  shows "concat (map (\<lambda>(i, j). window_percent (ws ! i) (ws ! j)) (pair_indices sample (length ws) m))
    = map (\<lambda>(i, j). 100 * real (xor_count (ws ! i) (ws ! j)) / real (8 * n)) (index_pairs (length ws))"
  unfolding pair_indices_all [OF assms(3)]
proof (rule concat_map_singletons, clarify)
  fix i j assume "(i, j) \<in> set (index_pairs (length ws))"
  then have len: "length (ws ! i) = n" "length (ws ! j) = n" using pair_lengths [OF assms(1)] by simp_all
  show "window_percent (ws ! i) (ws ! j) = [100 * real (xor_count (ws ! i) (ws ! j)) / real (8 * n)]"
    unfolding window_percent_def len hamming_bits_eq using assms(2) by (simp add: Let_def mult.commute)
qed

text \<open>
  When the number of pairs is within the limit, the pairwise summary of windows of one length
  covers every pair once, its values are percentages, and its largest value is 0 exactly when all
  windows are the same.
\<close>

theorem pairwise_summary_exact:
  assumes "\<forall>w \<in> set ws. length w = n" and "0 < n" and "length ws * (length ws - 1) div 2 \<le> m"
    and "2 \<le> length ws"
  shows "case source_pair_hamming sample ws m of r \<Rightarrow>
     r_count r = length ws * (length ws - 1) div 2
   \<and> (\<exists>lo mid hi. r_min r = Some lo \<and> r_mean r = Some mid \<and> r_max r = Some hi
        \<and> 0 \<le> lo \<and> lo \<le> mid \<and> mid \<le> hi \<and> hi \<le> 100
        \<and> (hi = 0 \<longleftrightarrow> (\<forall>v \<in> set ws. \<forall>w \<in> set ws. v = w)))"
proof -
  let ?f = "\<lambda>(i, j). 100 * real (xor_count (ws ! i) (ws ! j)) / real (8 * n)"
  let ?vs = "map ?f (index_pairs (length ws))"
  have r: "source_pair_hamming sample ws m = summarize ?vs"
    by (simp add: source_pair_hamming_def pair_percents [OF assms(1-3)])
  have len: "length ?vs = length ws * (length ws - 1) div 2" by (simp add: length_index_pairs)
  have "(0, 1) \<in> set (index_pairs (length ws))" using assms(4) by (simp add: set_index_pairs)
  then have ne: "?vs \<noteq> []" by auto
  have b: "\<forall>x \<in> set ?vs. 0 \<le> x \<and> x \<le> 100"
    unfolding set_map ball_simps
  proof clarify
    fix x i j assume "(i, j) \<in> set (index_pairs (length ws))"
    then have "xor_count (ws ! i) (ws ! j) \<le> 8 * n"
      using pair_lengths [OF assms(1)] xor_count_bound [of "ws ! i" "ws ! j"] by simp
    then show "0 \<le> 100 * real (xor_count (ws ! i) (ws ! j)) / real (8 * n)
        \<and> 100 * real (xor_count (ws ! i) (ws ! j)) / real (8 * n) \<le> 100"
      by (rule percent_bounds)
  qed
  have zero: "lmax ?vs = 0 \<longleftrightarrow> (\<forall>v \<in> set ws. \<forall>w \<in> set ws. v = w)"
  proof -
    have "lmax ?vs = 0 \<longleftrightarrow> (\<forall>x \<in> set ?vs. x = 0)"
      using b by (intro lmax_eq_0 [OF ne]) blast
    also have "\<dots> \<longleftrightarrow> (\<forall>(i, j) \<in> set (index_pairs (length ws)). xor_count (ws ! i) (ws ! j) = 0)"
      using assms(2) by (auto simp: case_prod_unfold)
    also have "\<dots> \<longleftrightarrow> (\<forall>v \<in> set ws. \<forall>w \<in> set ws. v = w)"
      using ham.pairwise_zero [of ws "8 * n"] assms(1) by simp
    finally show ?thesis .
  qed
  define vs where "vs = ?vs"
  have "r_count (summarize vs) = length ws * (length ws - 1) div 2"
    and "r_min (summarize vs) = Some (lmin vs)" "r_mean (summarize vs) = Some (mean vs)"
      "r_max (summarize vs) = Some (lmax vs)"
    using ne len unfolding vs_def [symmetric] by (simp_all add: summarize_def)
  then show ?thesis
    using mean_range.summary_within [OF ne b] zero unfolding r vs_def [symmetric] by simp
qed

theorem pairwise_summary_exact_witness:
  "\<exists>hi. r_max (source_pair_hamming (\<lambda>ps k. take k ps) [[1, 2], [1, 3], [255, 0]] 3) = Some hi \<and> hi \<noteq> 0"
proof -
  have "\<not> (\<forall>v \<in> set [[1, 2], [1, 3], [255, 0 :: byte]]. \<forall>w \<in> set [[1, 2], [1, 3], [255, 0]]. v = w)"
    by simp
  then show ?thesis
    using pairwise_summary_exact [of "[[1, 2], [1, 3], [255, 0]]" 2 3 "\<lambda>ps k. take k ps"] by auto
qed

section \<open>Reading what the collector wrote\<close>

lemma table_dicts_jitter:
  "table_dicts (jitter_rows vs iv) =
     map (\<lambda>(i, v). [(''index'', str_of_nat i), (''delta_us'', str_of_int v), (''residual_us'', str_of_int (v - iv))])
       (zip [0..<length vs] vs)"
  by (auto simp: jitter_rows_def)

lemma str_of_int_nonempty [simp]: "str_of_int i \<noteq> []"
  by (simp add: str_of_int_def str_of_nat_def)

lemma jitter_row_written:
  "jitter_row [(''index'', i), (''delta_us'', str_of_int v), (''residual_us'', str_of_int w)] = Inr (v, w)"
  by (simp add: jitter_row_def dict_item_def dict_get_def)

lemma load_jitter_written: "load_jitter_csv (table_dicts (jitter_rows vs iv)) = Inr (vs, map (\<lambda>v. v - iv) vs)"
proof -
  have "rmap jitter_row (table_dicts (jitter_rows vs iv))
      = Inr (map (\<lambda>(i, v). (v, v - iv)) (zip [0..<length vs] vs))"
    unfolding table_dicts_jitter rmap_map
    by (rule rmap_Inr) (auto simp: jitter_row_written)
  moreover have "map (\<lambda>v. v - iv) (map snd (zip [0..<length vs] vs)) = map (\<lambda>v. v - iv) vs" by simp
  ultimately show ?thesis
    by (simp add: load_jitter_csv_def comp_def case_prod_unfold del: map_snd_zip) simp
qed

text \<open>A file system that shows the files and tables of the collector's disk.\<close>

definition fs_shows :: "file_system \<Rightarrow> disk \<Rightarrow> bool" where
  "fs_shows fs d \<longleftrightarrow>
     (\<forall>q. contents d q \<noteq> [] \<longrightarrow> (\<exists>rs. look fs (path_of q) = Some (File (contents d q) rs)))
   \<and> (\<forall>q t. dict_get (tables d) q = Some t \<longrightarrow> (\<exists>bs. look fs (path_of q) = Some (File bs (table_dicts t))))"

lemma resolve_existing: "look fs (path_of v) = Some x \<Longrightarrow> resolve_path fs run_dir v = path_of v"
  by (simp add: resolve_path_def path_exists_def Let_def)

lemma read_shown:
  "fs_shows fs d \<Longrightarrow> contents d q \<noteq> [] \<Longrightarrow>
     read_bytes fs (resolve_path fs run_dir q) = Inr (contents d q)"
  unfolding fs_shows_def
  by (auto simp: resolve_existing read_bytes_def open_file_def dest!: spec [of _ q])

lemma read_csv_shown:
  "fs_shows fs d \<Longrightarrow> dict_get (tables d) q = Some t \<Longrightarrow>
     read_csv fs (resolve_path fs run_dir q) = Inr (table_dicts t)"
  unfolding fs_shows_def
  by (auto simp: resolve_existing read_csv_def open_file_def dest!: spec [of _ q])

lemma tables_simps [simp]:
  "tables (write_file q bs d) = tables d" "tables (append_file q bs d) = tables d"
  "tables (write_table q rows d) = dict_set q rows (tables d)"
  by (simp_all add: write_file_def append_file_def write_table_def)

lemma path_of_empty [simp]: "path_of [] = []"
  by (simp add: path_of_def split_on_def startswith_def)

lemma read_csv_empty: "read_csv fs (resolve_path fs run_dir []) = Inl IsADirectoryError"
  by (simp add: resolve_path_def path_exists_def look_def read_csv_def open_file_def is_absolute_def)

lemma trial_row_jitter_file:
  "dict_get (trial_row st rp jp rs) ''capture_id'' = Some (str_of_nat (capture_id st))"
  "dict_get (trial_row st rp jp rs) ''raw_file'' = Some (rp_file rp)"
  "dict_get (trial_row st rp jp rs) ''jitter_file'' = Some (jp_file jp)"
  by (simp_all add: trial_row_def dict_get_def Let_def)

lemma complete_trial_files:
  assumes p: "p = output_paths out" and fin: "finalize_trial sha p st d = (d', Inr True)"
  obtains rlen rp jp rs where "trial_whole st rlen" "trial_table d' = trial_table d @ [trial_row st rp jp rs]"
    "rp_file rp = trial_file (raw_dir p) (capture_id st) ''.bin''"
    "contents d' (rp_file rp) = trial_raw st rlen" "trial_raw st rlen \<noteq> []"
    "contents d' (trial_file (joint_dir p) (capture_id st) ''.response.bin'') = trial_raw st rlen @ jp_bytes jp"
    "jitter_values st = [] \<Longrightarrow> jp_file jp = []"
    "jitter_values st \<noteq> [] \<Longrightarrow>
       pack_jitter_delta_u32le (jitter_values st) = Inr (jp_bytes jp)
       \<and> contents d' (trial_file (jitter_dir p) (capture_id st) ''.delta_u32le.bin'') = jp_bytes jp
       \<and> (\<exists>iv residual. result_interval st = Inr iv
            \<and> dict_get (tables d') (jp_file jp) = Some (jitter_rows (jitter_values st) iv)
            \<and> pack_jitter_residual_s32le (jitter_values st) iv = Inr residual
            \<and> contents d' (trial_file (jitter_dir p) (capture_id st) ''.residual_s32le.bin'') = residual)"
proof -
  obtain rlen rp d1 jp d2 rs d3 where raw: "finalize_raw sha p st rlen d = (rp, d1)"
    and jit: "finalize_jitter sha p st d1 = Inr (jp, d2)"
    and joint: "finalize_joint sha p st rp jp d2 = (rs, d3)" and c: "rp_complete rp"
    and d': "d' = d3\<lparr>trial_table := trial_table d3 @ [trial_row st rp jp rs]\<rparr>"
    by (rule finalize_trial_Inr [OF fin]) auto
  have w: "trial_whole st rlen" using finalize_raw_complete_iff [OF raw] c by simp
  note paths = trial_paths_distinct [OF p, of "capture_id st", simplified]
    trial_paths_distinct_rev [OF p, of "capture_id st", simplified]
  from finalize_raw_whole [OF w, of sha p d, unfolded raw]
  have d1: "d1 = append_file (all_bin p) (trial_raw st rlen)
       (write_file (trial_file (raw_dir p) (capture_id st) ''.bin'') (trial_raw st rlen) d)"
    and rp: "rp_raw rp = trial_raw st rlen" "rp_file rp = trial_file (raw_dir p) (capture_id st) ''.bin''"
    by simp_all
  have d3: "d3 = append_file (all_joint p) (rp_raw rp @ jp_bytes jp)
       (write_file (trial_file (joint_dir p) (capture_id st) ''.response.bin'') (rp_raw rp @ jp_bytes jp) d2)"
    using joint unfolding finalize_joint_simps(1) [OF c] Let_def by simp
  have ne: "trial_raw st rlen \<noteq> []"
    using w by (auto simp: trial_whole_def trial_raw_def)
  show ?thesis
    by (rule finalize_jitter_cases [OF jit]; rule that [OF w _ rp(2) _ ne])
      (auto simp: d' d3 d1 rp paths)
qed

text \<open>
  C4: What the collector stores of a complete trial with inter-arrival times is what the analysis
  reads: the raw window is the raw file, the inter-arrival times and their differences to the
  trial's interval come back from the jitter table, packing them again gives the bytes of the stored
  delta and residual files, and the joint window is the stored response file. (A complete trial without
  inter-arrival times stops the analysis, as shown next.)
\<close>

theorem analysis_reads_collected_trial:
  assumes "finalize_trial sha (output_paths out) st d = (d', Inr True)" and "jitter_values st \<noteq> []"
    and "fs_shows fs d'"
  shows "\<exists>t iv. load_trial fs run_dir (last (trial_table d')) = Inr t
     \<and> t_capture t = int (capture_id st)
     \<and> t_raw t = contents d' (trial_file (raw_dir (output_paths out)) (capture_id st) ''.bin'')
     \<and> t_deltas t = jitter_values st
     \<and> result_interval st = Inr iv \<and> t_residuals t = map (\<lambda>v. v - iv) (jitter_values st)
     \<and> t_delta_bytes t = contents d' (trial_file (jitter_dir (output_paths out)) (capture_id st) ''.delta_u32le.bin'')
     \<and> t_residual_bytes t = contents d' (trial_file (jitter_dir (output_paths out)) (capture_id st) ''.residual_s32le.bin'')
     \<and> t_joint t = contents d' (trial_file (joint_dir (output_paths out)) (capture_id st) ''.response.bin'')"
proof -
  let ?p = "output_paths out"
  obtain rlen rp jp rs where t: "trial_table d' = trial_table d @ [trial_row st rp jp rs]"
    and rf: "rp_file rp = trial_file (raw_dir ?p) (capture_id st) ''.bin''"
    and raw: "contents d' (rp_file rp) = trial_raw st rlen" "trial_raw st rlen \<noteq> []"
    and joint: "contents d' (trial_file (joint_dir ?p) (capture_id st) ''.response.bin'') = trial_raw st rlen @ jp_bytes jp"
    and jit: "pack_jitter_delta_u32le (jitter_values st) = Inr (jp_bytes jp)
       \<and> contents d' (trial_file (jitter_dir ?p) (capture_id st) ''.delta_u32le.bin'') = jp_bytes jp
       \<and> (\<exists>iv residual. result_interval st = Inr iv
            \<and> dict_get (tables d') (jp_file jp) = Some (jitter_rows (jitter_values st) iv)
            \<and> pack_jitter_residual_s32le (jitter_values st) iv = Inr residual
            \<and> contents d' (trial_file (jitter_dir ?p) (capture_id st) ''.residual_s32le.bin'') = residual)"
    by (rule complete_trial_files [OF refl assms(1)]) (use assms(2) in auto)
  from jit obtain iv residual where iv: "result_interval st = Inr iv"
    and tab: "dict_get (tables d') (jp_file jp) = Some (jitter_rows (jitter_values st) iv)"
    and res: "pack_jitter_residual_s32le (jitter_values st) iv = Inr residual"
    and stored: "contents d' (trial_file (jitter_dir ?p) (capture_id st) ''.residual_s32le.bin'') = residual"
    and delta: "pack_jitter_delta_u32le (jitter_values st) = Inr (jp_bytes jp)" by blast
  have "pack_u32 (jitter_values st) = Inr (jp_bytes jp)"
    and "pack_s32_all (map (\<lambda>v. v - iv) (jitter_values st)) = Inr residual"
    using delta res by (simp_all add: pack_u32_def pack_s32_all_def pack_jitter_delta_u32le_def
        pack_jitter_residual_s32le_def)
  then have "load_trial fs run_dir (trial_row st rp jp rs) = Inr
      \<lparr>t_capture = int (capture_id st), t_raw = trial_raw st rlen, t_deltas = jitter_values st,
       t_residuals = map (\<lambda>v. v - iv) (jitter_values st), t_delta_bytes = jp_bytes jp, t_residual_bytes = residual\<rparr>"
    using read_shown [OF assms(3), of "rp_file rp" run_dir] raw read_csv_shown [OF assms(3) tab, of run_dir]
    by (simp add: load_trial_def dict_item_def trial_row_jitter_file load_jitter_written)
  then show ?thesis using t raw rf joint iv stored jit by (simp add: t_joint_def)
qed

text \<open>
  A complete trial without any inter-arrival time, as the idle condition gives, stops the
  analysis: its empty jitter path names the current directory, which exists and cannot be read.
\<close>

theorem idle_trial_stops_analysis:
  assumes "finalize_trial sha (output_paths out) st d = (d', Inr True)" and "jitter_values st = []"
    and "fs_shows fs d'"
  shows "load_trial fs run_dir (last (trial_table d')) = Inl IsADirectoryError"
proof -
  obtain rlen rp jp rs where t: "trial_table d' = trial_table d @ [trial_row st rp jp rs]"
    and raw: "contents d' (rp_file rp) = trial_raw st rlen" "trial_raw st rlen \<noteq> []" and jf: "jp_file jp = []"
    by (rule complete_trial_files [OF refl assms(1)]) (use assms(2) in auto)
  then show ?thesis
    using read_shown [OF assms(3), of "rp_file rp" run_dir] raw read_csv_empty [of fs run_dir]
    by (simp add: load_trial_def dict_item_def trial_row_jitter_file)
qed

text \<open>The file system that a disk with distinct paths shows.\<close>

definition disk_fs :: "disk \<Rightarrow> file_system" where
  "disk_fs d p =
     map_of (map (\<lambda>(q, bs). (path_of q, File bs [])) (files d)
       @ map (\<lambda>(q, t). (path_of q, File [] (table_dicts t))) (tables d)) p"

definition disk_paths :: "disk \<Rightarrow> path list" where
  "disk_paths d = map path_of (dict_keys (files d) @ dict_keys (tables d))"

lemma disk_fs_shows:
  assumes "distinct (disk_paths d)" and "[] \<notin> set (disk_paths d)"
  shows "fs_shows (disk_fs d) d"
proof -
  let ?ns = "map (\<lambda>(q, bs). (path_of q, File bs [])) (files d)
       @ map (\<lambda>(q, t). (path_of q, File [] (table_dicts t))) (tables d)"
  have "map fst ?ns = disk_paths d"
    by (simp add: disk_paths_def dict_keys_def case_prod_unfold)
  then have fst_ns: "map fst ?ns = disk_paths d" .
  have get: "disk_fs d p = Some n" if "(p, n) \<in> set ?ns" for p n
    unfolding disk_fs_def by (rule map_of_is_SomeI) (use assms(1) that in \<open>simp_all only: fst_ns\<close>)
  have look: "look (disk_fs d) p = Some n" if "(p, n) \<in> set ?ns" for p n
  proof -
    have "p \<in> set (disk_paths d)" using that unfolding fst_ns [symmetric] set_map by (rule rev_image_eqI) simp
    then show ?thesis using get [OF that] assms(2) by (auto simp: look_def)
  qed
  have "look (disk_fs d) (path_of q) = Some (File (contents d q) [])" if "contents d q \<noteq> []" for q
  proof -
    have "(q, contents d q) \<in> set (files d)"
      using that by (auto simp: contents_def dict_get_or_def dict_get_def dest: map_of_SomeD split: option.splits)
    then show ?thesis by (intro look) force
  qed
  moreover have "look (disk_fs d) (path_of q) = Some (File [] (table_dicts t))" if "dict_get (tables d) q = Some t" for q t
    using that by (intro look) (force simp: dict_get_def dest: map_of_SomeD)
  ultimately show ?thesis by (auto simp: fs_shows_def)
qed

definition sample_disk :: disk where
  "sample_disk = fst (finalize_trial (\<lambda>b. b) (output_paths ''out'') sample_trial empty_disk)"

definition idle_disk :: disk where
  "idle_disk = fst (finalize_trial (\<lambda>b. b) (output_paths ''out'') (sample_trial\<lparr>jitter_chunks := []\<rparr>) empty_disk)"

theorem analysis_reads_collected_trial_witness:
  "\<exists>t. load_trial (disk_fs sample_disk) [''/'', ''runs''] (last (trial_table sample_disk)) = Inr t
     \<and> t_deltas t = [17]"
proof -
  have s: "finalize_trial (\<lambda>b. b) (output_paths ''out'') sample_trial empty_disk = (sample_disk, Inr True)"
  proof -
    have "snd (finalize_trial (\<lambda>b. b) (output_paths ''out'') sample_trial empty_disk) = Inr True" by code_simp
    then show ?thesis by (simp add: sample_disk_def prod_eq_iff)
  qed
  have "distinct (disk_paths sample_disk)" "[] \<notin> set (disk_paths sample_disk)" by code_simp+
  then have f: "fs_shows (disk_fs sample_disk) sample_disk" by (rule disk_fs_shows)
  have j: "jitter_values sample_trial = [17]" by code_simp
  show ?thesis using analysis_reads_collected_trial [OF s _ f, of "[''/'', ''runs'']"] j by auto
qed

theorem idle_trial_stops_analysis_witness:
  "load_trial (disk_fs idle_disk) [''/'', ''runs''] (last (trial_table idle_disk)) = Inl IsADirectoryError"
proof -
  have s: "finalize_trial (\<lambda>b. b) (output_paths ''out'') (sample_trial\<lparr>jitter_chunks := []\<rparr>) empty_disk = (idle_disk, Inr True)"
  proof -
    have "snd (finalize_trial (\<lambda>b. b) (output_paths ''out'') (sample_trial\<lparr>jitter_chunks := []\<rparr>) empty_disk) = Inr True" by code_simp
    then show ?thesis by (simp add: idle_disk_def prod_eq_iff)
  qed
  have "distinct (disk_paths idle_disk)" "[] \<notin> set (disk_paths idle_disk)" by code_simp+
  then have f: "fs_shows (disk_fs idle_disk) idle_disk" by (rule disk_fs_shows)
  have j: "jitter_values (sample_trial\<lparr>jitter_chunks := []\<rparr>) = []" by code_simp
  show ?thesis by (rule idle_trial_stops_analysis [OF s j f])
qed

section \<open>The run as a whole\<close>

lemma pack_all_concat:
  assumes "\<And>t. t \<in> set ts \<Longrightarrow> \<exists>bs. rmap f (g t) = Inr bs \<and> h t = concat bs"
  shows "\<exists>bs. rmap f (concat (map g ts)) = Inr bs \<and> concat bs = concat (map h ts)"
  using assms
proof (induction ts)
  case (Cons t ts)
  obtain bs where "rmap f (g t) = Inr bs" "h t = concat bs" using Cons.prems [of t] by auto
  moreover obtain cs where "rmap f (concat (map g ts)) = Inr cs" "concat cs = concat (map h ts)"
    using Cons by auto
  ultimately show ?case by (simp add: rmap_append)
qed simp

lemma load_trial_packed:
  assumes "load_trial fs run_dir row = Inr t"
  shows "pack_u32 (t_deltas t) = Inr (t_delta_bytes t)" "pack_s32_all (t_residuals t) = Inr (t_residual_bytes t)"
  using assms by (auto simp: load_trial_def result_simps)

lemma rmap_in: "rmap f xs = Inr ys \<Longrightarrow> y \<in> set ys \<Longrightarrow> \<exists>x \<in> set xs. f x = Inr y"
  by (induction xs arbitrary: ys) (auto simp: result_simps)

lemma by_position_snoc:
  "by_position (v # vs) i = (if i < length v then [v ! i] else []) @ by_position vs i"
  by (simp add: by_position_def)

lemma sum_positions:
  "\<forall>v \<in> set vs. length v \<le> n \<Longrightarrow>
     sum_list (map (\<lambda>i. length (by_position vs i)) [0..<n]) = sum_list (map length vs)"
proof (induction vs)
  case Nil
  then show ?case by (simp add: by_position_def)
next
  case (Cons v vs)
  have "sum_list (map (\<lambda>i. if i < l then 1 else 0) [0..<k]) = min l k" for l k :: nat
    by (induction k) auto
  then show ?case
    using Cons by (simp add: by_position_snoc sum_list_addf if_distrib [of length] cong: if_cong)
qed

lemma fold_max_ge: "x \<in> set xs \<Longrightarrow> x \<le> fold max xs (m :: nat)"
proof -
  have "m \<le> fold max xs m \<and> (\<forall>x \<in> set xs. x \<le> fold max xs m)" for m
    by (induction xs arbitrary: m) (force simp: max_def)+
  then show "x \<in> set xs \<Longrightarrow> x \<le> fold max xs m" by blast
qed

lemma packed_streams:
  assumes "rmap (load_trial fs run_dir) rs = Inr ts"
  shows "pack_u32 (concat (map t_deltas ts)) = Inr (concat (map t_delta_bytes ts))"
    and "pack_s32_all (concat (map t_residuals ts)) = Inr (concat (map t_residual_bytes ts))"
proof -
  have packed: "pack_u32 (t_deltas t) = Inr (t_delta_bytes t)"
      "pack_s32_all (t_residuals t) = Inr (t_residual_bytes t)" if "t \<in> set ts" for t
    using rmap_in [OF assms that] load_trial_packed by auto
  show "pack_u32 (concat (map t_deltas ts)) = Inr (concat (map t_delta_bytes ts))"
    using pack_all_concat [of ts "pack_le 4" t_deltas t_delta_bytes] packed(1)
    by (fastforce simp: pack_u32_def result_simps)
  show "pack_s32_all (concat (map t_residuals ts)) = Inr (concat (map t_residual_bytes ts))"
    using pack_all_concat [of ts pack_s32 t_residuals t_residual_bytes] packed(2)
    by (fastforce simp: pack_s32_all_def result_simps)
qed

lemma analyze_sources_ok:
  "rmap (load_trial fs run_dir) (filter (\<lambda>r. dict_get r ''complete'' = Some ''True'') rows) = Inr ts \<Longrightarrow>
     \<exists>rep. analyze_sources sha sample m fs run_dir rows mf = Inr rep"
  by (simp add: analyze_sources_def Let_def packed_streams)

text \<open>
  The exported streams are made of the complete trials in table order: the window stream is the
  concatenation of the raw windows, the delta and residual streams are the concatenations of
  the trials' packed vectors, and the joint stream interleaves windows and deltas trial by trial. The
  per-position summary accounts for every inter-arrival time exactly once.
\<close>

theorem exported_streams:
  assumes "analyze_sources sha sample m fs run_dir rows mf = Inr rep"
  shows "\<exists>ts. rmap (load_trial fs run_dir) (filter (\<lambda>r. dict_get r ''complete'' = Some ''True'') rows) = Inr ts
     \<and> rep_complete rep = length ts
     \<and> dict_get (rep_streams rep) ''wdev_all.bin'' = Some (concat (map t_raw ts))
     \<and> dict_get (rep_streams rep) ''jitter_delta_u32le_all.bin'' = Some (concat (map t_delta_bytes ts))
     \<and> dict_get (rep_streams rep) ''jitter_residual_s32le_all.bin'' = Some (concat (map t_residual_bytes ts))
     \<and> dict_get (rep_streams rep) ''response_joint_all.bin'' = Some (concat (map (\<lambda>t. t_raw t @ t_delta_bytes t) ts))
     \<and> sum_list (map pos_count (rep_positions rep)) = j_samples (rep_delta rep)"
proof -
  let ?rows = "filter (\<lambda>r. dict_get r ''complete'' = Some ''True'') rows"
  obtain ts where ts: "rmap (load_trial fs run_dir) ?rows = Inr ts"
    using assms by (auto simp: analyze_sources_def Let_def result_simps)
  note du = packed_streams(1) [OF ts] and rs = packed_streams(2) [OF ts]
  let ?n = "fold max (map length (map t_deltas ts @ map t_residuals ts)) 0"
  have pos: "sum_list (map (\<lambda>i. length (by_position (map t_deltas ts) i)) [0..<?n])
      = length (concat (map t_deltas ts))"
  proof (subst sum_positions)
    have "length v \<in> set (map length (map t_deltas ts @ map t_residuals ts))" if "v \<in> set (map t_deltas ts)" for v
      using that by auto
    then show "\<forall>v \<in> set (map t_deltas ts). length v \<le> ?n" using fold_max_ge by blast
  qed (simp add: length_concat)
  have "map pos_count (position_rows (map t_deltas ts) (map t_residuals ts))
      = map (\<lambda>i. length (by_position (map t_deltas ts) i)) [0..<?n]"
    by (simp add: position_rows_def comp_def)
  moreover have "rep_complete rep = length ?rows"
      "rep_positions rep = position_rows (map t_deltas ts) (map t_residuals ts)"
      "j_samples (rep_delta rep) = length (concat (map t_deltas ts))"
      "dict_get (rep_streams rep) ''wdev_all.bin'' = Some (concat (map t_raw ts))"
      "dict_get (rep_streams rep) ''jitter_delta_u32le_all.bin'' = Some (concat (map t_delta_bytes ts))"
      "dict_get (rep_streams rep) ''jitter_residual_s32le_all.bin'' = Some (concat (map t_residual_bytes ts))"
      "dict_get (rep_streams rep) ''response_joint_all.bin'' = Some (concat (map t_joint ts))"
    using assms ts unfolding analyze_sources_def Let_def
    by (auto simp: du rs jitter_report_def dict_get_def [of "_ # _"])
  moreover have "t_joint = (\<lambda>t. t_raw t @ t_delta_bytes t)" by (simp add: fun_eq_iff t_joint_def)
  ultimately show ?thesis using ts pos rmap_length [OF ts] by simp
qed

theorem exported_streams_witness:
  "\<exists>rep. analyze_sources (\<lambda>b. b) (\<lambda>ps k. take k ps) 2000 (disk_fs sample_disk) [''/'', ''runs'']
       (trial_table sample_disk) None = Inr rep
     \<and> sum_list (map pos_count (rep_positions rep)) = j_samples (rep_delta rep)"
proof -
  have "ok (rmap (load_trial (disk_fs sample_disk) [''/'', ''runs''])
      (filter (\<lambda>r. dict_get r ''complete'' = Some ''True'') (trial_table sample_disk)))" by code_simp
  then obtain rep where "analyze_sources (\<lambda>b. b) (\<lambda>ps k. take k ps) 2000 (disk_fs sample_disk) [''/'', ''runs'']
       (trial_table sample_disk) None = Inr rep"
    using analyze_sources_ok by (metis ok_iff)
  with exported_streams [OF this] show ?thesis by blast
qed

end
