(* ===== verification/Capsule.thy ===== *)
theory Capsule
  imports Protocol PyNumber
begin

text \<open>
  The capsule bootstrap: the beacon server (\<open>teb_beacon_server.py\<close>) and the parts of the device
  that talk to it (\<open>teb_protocol.c\<close> and the checks of \<open>derive_seed\<close> in \<open>main.c\<close>) in the development
  profile. Parameters: SHA-256, the Ed25519 signature and its verification, and what the
  environment gives for each packet (the clock and 32 random bytes).
\<close>

section \<open>Server\<close>

definition HELLO_LEN :: nat where "HELLO_LEN = 88"
definition CAPSULE_SIGNED_LEN :: nat where "CAPSULE_SIGNED_LEN = 96"
definition CAPSULE_LEN :: nat where "CAPSULE_LEN = 160"
definition HELLO_MAGIC :: bytes where "HELLO_MAGIC = ascii_bytes ''TEBH''"
definition CAPSULE_MAGIC :: bytes where "CAPSULE_MAGIC = ascii_bytes ''TEBC''"
definition TEB_VERSION :: int where "TEB_VERSION = 1"
definition PROFILE_DEV :: int where "PROFILE_DEV = 1"

record hello =
  h_flags :: int
  h_device :: int
  h_counter :: int
  h_uptime :: int
  h_sram :: bytes
  h_timing :: bytes
  h_hash :: bytes

definition parse_hello :: "(bytes \<Rightarrow> bytes) \<Rightarrow> bytes \<Rightarrow> hello result" where
  "parse_hello sha d =
     (if length d \<noteq> HELLO_LEN then Inl ValueError
      else if field_at 0 4 d \<noteq> HELLO_MAGIC then Inl ValueError
      else if unpack_be (field_at 4 1 d) \<noteq> TEB_VERSION then Inl ValueError
      else if unpack_be (field_at 5 1 d) \<noteq> PROFILE_DEV then Inl ValueError
      else Inr \<lparr>h_flags = unpack_be (field_at 6 2 d), h_device = unpack_be (field_at 8 8 d),
                h_counter = unpack_be (field_at 16 4 d), h_uptime = unpack_be (field_at 20 4 d),
                h_sram = field_at 24 32 d, h_timing = field_at 56 32 d, h_hash = sha d\<rparr>)"

text \<open>What the environment gives while one packet is served: \<open>int(time.time() * 1000)\<close> and \<open>os.urandom(32)\<close>.\<close>

record serve_env =
  now_ms :: int
  urandom :: bytes

definition build_capsule ::
    "(bytes \<Rightarrow> bytes result) \<Rightarrow> serve_env \<Rightarrow> hello \<Rightarrow> int \<Rightarrow> bytes result" where
  "build_capsule sign env h sq =
     rbind (pack_be 1 TEB_VERSION) (\<lambda>ver. rbind (pack_be 1 PROFILE_DEV) (\<lambda>prof.
     rbind (pack_be 2 (int CAPSULE_SIGNED_LEN)) (\<lambda>len. rbind (pack_be 8 (h_device h)) (\<lambda>dev.
     rbind (pack_be 4 (h_counter h)) (\<lambda>cnt. rbind (pack_be 8 (now_ms env)) (\<lambda>tm.
     rbind (pack_be 4 sq) (\<lambda>sqb.
       let signed = pack_bytes 4 CAPSULE_MAGIC @ ver @ prof @ len @ dev @ cnt @ tm @ sqb
             @ pack_bytes 32 (urandom env) @ pack_bytes 32 (h_hash h)
       in rbind (sign signed) (\<lambda>sig.
            if length signed \<noteq> CAPSULE_SIGNED_LEN \<or> length sig \<noteq> 64 then Inl AssertionError
            else Inr (signed @ sig)))))))))"

record server =
  sequence :: int
  served :: "(int \<times> bytes) list"

text \<open>
  One turn of the endless loop. Every exception is caught and reported, and leaves what was
  assigned before it. \<open>served\<close> records the sequence number and the datagram of each reply.
\<close>

definition serve :: "(bytes \<Rightarrow> bytes) \<Rightarrow> (bytes \<Rightarrow> bytes result) \<Rightarrow> bytes \<times> serve_env \<Rightarrow> server \<Rightarrow> server" where
  "serve sha sign ev s =
     (case ev of (d, env) \<Rightarrow>
        (case parse_hello sha d of
           Inl e \<Rightarrow> s
         | Inr h \<Rightarrow>
             (let s1 = s\<lparr>sequence := sequence s + 1\<rparr>
              in (case build_capsule sign env h (sequence s1) of
                    Inl e \<Rightarrow> s1
                  | Inr c \<Rightarrow> s1\<lparr>served := served s1 @ [(sequence s1, c)]\<rparr>))))"

definition serve_all ::
    "(bytes \<Rightarrow> bytes) \<Rightarrow> (bytes \<Rightarrow> bytes result) \<Rightarrow> (bytes \<times> serve_env) list \<Rightarrow> server" where
  "serve_all sha sign evs = fold (serve sha sign) evs \<lparr>sequence = 0, served = []\<rparr>"

section \<open>Device\<close>

text \<open>The shift loops of \<open>teb_store_*_be\<close> and \<open>teb_load_*_be\<close>.\<close>

definition store_be :: "nat \<Rightarrow> 'a::len word \<Rightarrow> bytes" where
  "store_be w v = map (\<lambda>i. ucast (drop_bit (8 * i) v)) (rev [0..<w])"

definition load_be :: "bytes \<Rightarrow> 'a::len word" where
  "load_be bs = foldl (\<lambda>v b. push_bit 8 v OR ucast b) 0 bs"

record teb_hello_fields =
  device_id :: "64 word"
  boot_counter :: "32 word"
  uptime_ms :: "32 word"
  sram_commitment :: bytes
  timing_commitment :: bytes

definition teb_build_hello :: "teb_hello_fields \<Rightarrow> bytes" where
  "teb_build_hello f =
     HELLO_MAGIC @ [1] @ [1] @ store_be 2 (0 :: 16 word) @ store_be 8 (device_id f)
       @ store_be 4 (boot_counter f) @ store_be 4 (uptime_ms f)
       @ take 32 (sram_commitment f) @ take 32 (timing_commitment f)"

record teb_capsule_fields =
  c_device :: "64 word"
  c_counter :: "32 word"
  c_time :: "64 word"
  c_sequence :: "32 word"
  c_beacon :: bytes
  c_hello_hash :: bytes
  c_signature :: bytes

datatype errno = EMSGSIZE | EBADMSG | EPROTONOSUPPORT | EACCES | ESIGNATURE

definition teb_parse_capsule :: "bytes \<Rightarrow> errno + teb_capsule_fields" where
  "teb_parse_capsule buf =
     (if length buf \<noteq> CAPSULE_LEN then Inl EMSGSIZE
      else if field_at 0 4 buf \<noteq> CAPSULE_MAGIC then Inl EBADMSG
      else if buf ! 4 \<noteq> 1 then Inl EPROTONOSUPPORT
      else if buf ! 5 \<noteq> 1 then Inl EPROTONOSUPPORT
      else if (load_be (field_at 6 2 buf) :: 16 word) \<noteq> 96 then Inl EBADMSG
      else Inr \<lparr>c_device = load_be (field_at 8 8 buf), c_counter = load_be (field_at 16 4 buf),
                c_time = load_be (field_at 20 8 buf), c_sequence = load_be (field_at 28 4 buf),
                c_beacon = field_at 32 32 buf, c_hello_hash = field_at 64 32 buf,
                c_signature = drop CAPSULE_SIGNED_LEN buf\<rparr>)"

text \<open>The checks of \<open>derive_seed\<close> up to the point where the beacon is used.\<close>

definition accept_capsule ::
    "(bytes \<Rightarrow> bytes) \<Rightarrow> (bytes \<Rightarrow> bytes \<Rightarrow> bool) \<Rightarrow> teb_hello_fields \<Rightarrow> bytes \<Rightarrow> errno + teb_capsule_fields" where
  "accept_capsule sha verify f capsule =
     (case teb_parse_capsule capsule of
        Inl e \<Rightarrow> Inl e
      | Inr c \<Rightarrow>
          if c_device c \<noteq> device_id f \<or> c_counter c \<noteq> boot_counter f then Inl EACCES
          else if sha (teb_build_hello f) \<noteq> c_hello_hash c then Inl EACCES
          else if \<not> verify (take CAPSULE_SIGNED_LEN capsule) (c_signature c) then Inl ESIGNATURE
          else Inr c)"

section \<open>The two byte orders agree\<close>

lemma le_bytes_map: "le_bytes w n = map (\<lambda>i. byte_of_nat (n div 256 ^ i)) [0..<w]"
proof (induction w arbitrary: n)
  case (Suc w)
  have "[0..<Suc w] = 0 # map Suc [0..<w]" by (simp add: upt_conv_Cons map_Suc_upt)
  then show ?case using Suc by (simp add: div_mult2_eq del: upt_Suc)
qed simp

lemma store_be_eq: "store_be w v = be_bytes w (unat v)"
proof -
  have "unat (ucast (drop_bit (8 * i) v) :: byte) = unat v div 256 ^ i mod 256" for i
    unfolding unsigned_ucast_eq unat_drop_bit_eq
    by (simp add: drop_bit_eq_div take_bit_eq_mod power_mult)
  then have "ucast (drop_bit (8 * i) v) = byte_of_nat (unat v div 256 ^ i)" for i
    by (simp add: word_unat_eq_iff)
  then show ?thesis
    by (simp add: store_be_def be_bytes_def le_bytes_map rev_map)
qed

lemma load_step:
  fixes v :: "'a::len word" and b :: byte
  assumes "8 \<le> LENGTH('a)" and "unat v * 256 + 255 < 2 ^ LENGTH('a)"
  shows "unat (push_bit 8 v OR ucast b) = unat v * 256 + unat b"
proof -
  have "push_bit 8 v OR ucast b = push_bit 8 v + ucast b"
    by (rule disjunctive_add_eq_or [symmetric]) (auto simp: bit_eq_iff bit_simps dest: bit_imp_le_length)
  moreover have "unat (push_bit 8 v) = unat v * 256"
    unfolding unsigned_push_bit_eq using assms(2) by (simp add: take_bit_eq_mod push_bit_eq_mult)
  moreover have "unat (ucast b :: 'a word) = unat b"
  proof -
    have "unat b < 2 ^ 8" using unat_byte_lt [of b] by simp
    also have "(2 :: nat) ^ 8 \<le> 2 ^ LENGTH('a)" using assms(1) by (rule power_increasing) simp
    finally show ?thesis by (simp add: unsigned_ucast_eq take_bit_eq_mod)
  qed
  moreover have "unat v * 256 + unat b < 2 ^ LENGTH('a)"
    using assms(2) unat_byte_lt [of b] by linarith
  ultimately show ?thesis by (simp add: unat_word_ariths)
qed

lemma load_be_eq:
  assumes "8 * length bs \<le> LENGTH('a)"
  shows "unat (load_be bs :: 'a::len word) = be_value bs"
  using assms
proof (induction bs rule: rev_induct)
  case Nil
  then show ?case by (simp add: load_be_def be_value_def)
next
  case (snoc b bs)
  let ?v = "load_be bs :: 'a word"
  have v: "unat ?v = be_value bs" using snoc by simp
  have "unat ?v < 256 ^ length bs" using be_value_bound [of bs] by (simp add: v)
  then have "(unat ?v + 1) * 256 \<le> 256 ^ length bs * 256" by (intro mult_right_mono) auto
  also have "256 ^ length bs * 256 = (2 :: nat) ^ (8 * length (bs @ [b]))"
    using power_mult [of "2 :: nat" 8 "length (bs @ [b])"] by simp
  also have "\<dots> \<le> 2 ^ LENGTH('a)" using snoc.prems by (intro power_increasing) simp_all
  finally have "unat ?v * 256 + 255 < 2 ^ LENGTH('a)" by simp
  moreover have "8 \<le> LENGTH('a)" using snoc.prems by simp
  ultimately have "unat (push_bit 8 ?v OR ucast b) = be_value bs * 256 + unat b"
    using load_step [of ?v b] v by simp
  then show ?case by (simp add: load_be_def be_value_def)
qed

lemma load_store_be: "8 * w \<le> LENGTH('a) \<Longrightarrow> unat v < 256 ^ w \<Longrightarrow> load_be (store_be w v) = (v :: 'a::len word)"
  by (simp add: word_unat_eq_iff load_be_eq store_be_eq be_value_be_bytes)

lemma unpack_store_be: "unat v < 256 ^ w \<Longrightarrow> unpack_be (store_be w v) = int (unat v)"
  by (simp add: unpack_be_def store_be_eq be_value_be_bytes)

lemma length_store_be [simp]: "length (store_be w v) = w"
  by (simp add: store_be_def)

lemma unat_64_less: "unat (v :: 64 word) < 256 ^ 8"
  using unsigned_less [of v, where 'a = nat] by simp

lemma unat_32_less: "unat (v :: 32 word) < 256 ^ 4"
  using unsigned_less [of v, where 'a = nat] by simp

section \<open>The exchange\<close>

definition hello_ok :: "teb_hello_fields \<Rightarrow> bool" where
  "hello_ok f \<longleftrightarrow> length (sram_commitment f) = 32 \<and> length (timing_commitment f) = 32"

lemma magic_lengths [simp]: "length HELLO_MAGIC = 4" "length CAPSULE_MAGIC = 4"
  by (simp_all add: HELLO_MAGIC_def CAPSULE_MAGIC_def ascii_bytes_def)

lemma length_hello [simp]: "hello_ok f \<Longrightarrow> length (teb_build_hello f) = HELLO_LEN"
  by (simp add: teb_build_hello_def hello_ok_def HELLO_LEN_def)

lemma one_byte: "unpack_be [b] = int (unat b)"
  by (simp add: unpack_be_def be_value_def)

lemma parse_built_hello:
  assumes "hello_ok f"
  shows "parse_hello sha (teb_build_hello f) = Inr \<lparr>h_flags = 0, h_device = int (unat (device_id f)),
     h_counter = int (unat (boot_counter f)), h_uptime = int (unat (uptime_ms f)),
     h_sram = sram_commitment f, h_timing = timing_commitment f, h_hash = sha (teb_build_hello f)\<rparr>"
proof -
  let ?d = "teb_build_hello f"
  have d: "?d = HELLO_MAGIC @ [1] @ [1] @ store_be 2 (0 :: 16 word) @ store_be 8 (device_id f)
       @ store_be 4 (boot_counter f) @ store_be 4 (uptime_ms f) @ sram_commitment f @ timing_commitment f"
    using assms by (simp add: teb_build_hello_def hello_ok_def)
  have "field_at 0 4 ?d = HELLO_MAGIC" "field_at 4 1 ?d = [1]" "field_at 5 1 ?d = [1]"
    "field_at 6 2 ?d = store_be 2 (0 :: 16 word)" "field_at 8 8 ?d = store_be 8 (device_id f)"
    "field_at 16 4 ?d = store_be 4 (boot_counter f)" "field_at 20 4 ?d = store_be 4 (uptime_ms f)"
    "field_at 24 32 ?d = sram_commitment f" "field_at 56 32 ?d = timing_commitment f"
    using assms unfolding d by (simp_all add: codec_simps field_at_def hello_ok_def)
  then show ?thesis
    using assms unat_64_less [of "device_id f"] unat_32_less [of "boot_counter f"] unat_32_less [of "uptime_ms f"]
    by (simp add: parse_hello_def one_byte TEB_VERSION_def PROFILE_DEV_def unpack_store_be)
qed

text \<open>The reply to a greeting, and what the device reads from it.\<close>

lemma build_capsule_Inr:
  "build_capsule sign env h sq = Inr c \<longleftrightarrow>
     fits 8 (h_device h) \<and> fits 4 (h_counter h) \<and> fits 8 (now_ms env) \<and> fits 4 sq
   \<and> (let signed = CAPSULE_MAGIC @ [1] @ [1] @ be_bytes 2 96 @ be_bytes 8 (nat (h_device h))
            @ be_bytes 4 (nat (h_counter h)) @ be_bytes 8 (nat (now_ms env)) @ be_bytes 4 (nat sq)
            @ pack_bytes 32 (urandom env) @ pack_bytes 32 (h_hash h)
      in \<exists>sig. sign signed = Inr sig \<and> length sig = 64 \<and> c = signed @ sig)"
proof -
  have one: "be_bytes 1 (nat 1) = [1]"
    by (simp add: be_bytes_def byte_of_nat_def)
  show ?thesis
    by (auto simp: build_capsule_def result_simps Let_def TEB_VERSION_def PROFILE_DEV_def fits_def
        CAPSULE_SIGNED_LEN_def one be_bytes_def byte_of_nat_def split: if_splits)
qed

lemma load_be_bytes:
  assumes "fits w i" and "8 * w \<le> LENGTH('a)"
  shows "(load_be (be_bytes w (nat i)) :: 'a::len word) = word_of_int i"
proof -
  have "i < 256 ^ w" and "0 \<le> i" using assms(1) by (simp_all add: fits_def)
  moreover have "(256 :: int) ^ w = 2 ^ (8 * w)" by (simp add: power_mult)
  moreover have "(2 :: int) ^ (8 * w) \<le> 2 ^ LENGTH('a)" using assms(2) by (rule power_increasing) simp
  ultimately have "i < 2 ^ LENGTH('a)" by linarith
  then have "unat (word_of_int i :: 'a word) = nat i"
    using \<open>0 \<le> i\<close> by (simp add: unsigned_of_int take_bit_eq_mod mod_pos_pos_trivial)
  moreover have "be_value (be_bytes w (nat i)) = nat i"
    using assms(1) by (simp add: be_value_be_bytes fits_def nat_less_iff)
  ultimately show ?thesis
    using assms(2) by (simp add: word_unat_eq_iff load_be_eq)
qed

lemma parse_reply:
  assumes "build_capsule sign env h sq = Inr c" and "length (urandom env) = 32" and "length (h_hash h) = 32"
  shows "\<exists>sig. sign (take CAPSULE_SIGNED_LEN c) = Inr sig \<and> teb_parse_capsule c = Inr
     \<lparr>c_device = word_of_int (h_device h), c_counter = word_of_int (h_counter h), c_time = word_of_int (now_ms env),
      c_sequence = word_of_int sq, c_beacon = urandom env, c_hello_hash = h_hash h, c_signature = sig\<rparr>"
proof -
  let ?signed = "CAPSULE_MAGIC @ [1] @ [1] @ be_bytes 2 96 @ be_bytes 8 (nat (h_device h))
            @ be_bytes 4 (nat (h_counter h)) @ be_bytes 8 (nat (now_ms env)) @ be_bytes 4 (nat sq)
            @ urandom env @ h_hash h"
  obtain sig where f: "fits 8 (h_device h)" "fits 4 (h_counter h)" "fits 8 (now_ms env)" "fits 4 sq"
    and sig: "sign ?signed = Inr sig" "length sig = 64" and c: "c = ?signed @ sig"
    using assms by (auto simp: build_capsule_Inr Let_def)
  have len: "length ?signed = CAPSULE_SIGNED_LEN"
    using assms by (simp add: CAPSULE_SIGNED_LEN_def)
  have "field_at 0 4 c = CAPSULE_MAGIC" "c ! 4 = 1" "c ! 5 = 1" "field_at 6 2 c = be_bytes 2 96"
    "field_at 8 8 c = be_bytes 8 (nat (h_device h))" "field_at 16 4 c = be_bytes 4 (nat (h_counter h))"
    "field_at 20 8 c = be_bytes 8 (nat (now_ms env))" "field_at 28 4 c = be_bytes 4 (nat sq)"
    "field_at 32 32 c = urandom env" "field_at 64 32 c = h_hash h" "drop CAPSULE_SIGNED_LEN c = sig"
    using assms unfolding c by (simp_all add: codec_simps field_at_def nth_append CAPSULE_SIGNED_LEN_def)
  moreover have "length c = CAPSULE_LEN"
    using sig(2) len by (simp add: c CAPSULE_LEN_def CAPSULE_SIGNED_LEN_def)
  moreover have "(load_be (be_bytes 2 96) :: 16 word) = 96"
    using load_be_bytes [of 2 96, where 'a = 16] by (simp add: fits_def)
  moreover have "take CAPSULE_SIGNED_LEN c = ?signed"
    by (metis append_eq_conv_conj c len)
  ultimately show ?thesis
    using sig(1) by (simp add: teb_parse_capsule_def load_be_bytes f)
qed

lemma exchange:
  assumes "hello_ok f" and "length (sha (teb_build_hello f)) = 32"
    and "\<And>m. \<exists>sig. sign m = Inr sig \<and> length sig = 64 \<and> verify m sig"
    and "fits 8 (now_ms env)" and "length (urandom env) = 32" and "fits 4 (sequence s + 1)"
  shows "\<exists>c flds. serve sha sign (teb_build_hello f, env) s
       = s\<lparr>sequence := sequence s + 1, served := served s @ [(sequence s + 1, c)]\<rparr>
     \<and> accept_capsule sha verify f c = Inr flds
     \<and> c_beacon flds = urandom env \<and> c_time flds = word_of_int (now_ms env)
     \<and> c_sequence flds = word_of_int (sequence s + 1)"
proof -
  let ?h = "\<lparr>h_flags = 0, h_device = int (unat (device_id f)),
     h_counter = int (unat (boot_counter f)), h_uptime = int (unat (uptime_ms f)),
     h_sram = sram_commitment f, h_timing = timing_commitment f, h_hash = sha (teb_build_hello f)\<rparr>"
  have fit: "fits 8 (h_device ?h)" "fits 4 (h_counter ?h)"
    using unat_64_less [of "device_id f"] unat_32_less [of "boot_counter f"]
    by (simp_all add: fits_def flip: of_nat_less_iff [where 'a = int])
  obtain c where c: "build_capsule sign env ?h (sequence s + 1) = Inr c"
    using fit assms(3-6) unfolding build_capsule_Inr Let_def by blast
  obtain sig where sig: "sign (take CAPSULE_SIGNED_LEN c) = Inr sig"
    and parse: "teb_parse_capsule c = Inr
     \<lparr>c_device = word_of_int (h_device ?h), c_counter = word_of_int (h_counter ?h), c_time = word_of_int (now_ms env),
      c_sequence = word_of_int (sequence s + 1), c_beacon = urandom env, c_hello_hash = h_hash ?h, c_signature = sig\<rparr>"
    using parse_reply [OF c assms(5)] assms(2) by auto
  have "verify (take CAPSULE_SIGNED_LEN c) sig"
    using assms(3) [of "take CAPSULE_SIGNED_LEN c"] sig by auto
  then have "accept_capsule sha verify f c = Inr
     \<lparr>c_device = word_of_int (h_device ?h), c_counter = word_of_int (h_counter ?h), c_time = word_of_int (now_ms env),
      c_sequence = word_of_int (sequence s + 1), c_beacon = urandom env, c_hello_hash = h_hash ?h, c_signature = sig\<rparr>"
    by (simp add: accept_capsule_def parse)
  moreover have "serve sha sign (teb_build_hello f, env) s
       = s\<lparr>sequence := sequence s + 1, served := served s @ [(sequence s + 1, c)]\<rparr>"
    using c by (simp add: serve_def parse_built_hello [OF assms(1)] Let_def)
  ultimately show ?thesis by auto
qed

text \<open>
  C11: A device that greets the server gets a capsule that it accepts, and the capsule
  carries the server's random beacon, clock and fresh sequence number. This rests on the signature scheme:
  signing gives 64 bytes that verify; and on SHA-256 giving 32 bytes.
\<close>

theorem capsule_exchange:
  assumes "hello_ok f" and "length (sha (teb_build_hello f)) = 32"
    and "\<And>m. \<exists>sig. sign m = Inr sig \<and> length sig = 64 \<and> verify m sig"
    and "fits 8 (now_ms env)" and "length (urandom env) = 32" and "fits 4 (sequence s + 1)"
  shows "\<exists>c flds. serve sha sign (teb_build_hello f, env) s
       = s\<lparr>sequence := sequence s + 1, served := served s @ [(sequence s + 1, c)]\<rparr>
     \<and> accept_capsule sha verify f c = Inr flds
     \<and> c_beacon flds = urandom env \<and> c_time flds = word_of_int (now_ms env)
     \<and> c_sequence flds = word_of_int (sequence s + 1)"
  using assms by (rule exchange)

definition sample_fields :: teb_hello_fields where
  "sample_fields = \<lparr>device_id = 0x1234, boot_counter = 7, uptime_ms = 900,
     sram_commitment = replicate 32 3, timing_commitment = replicate 32 4\<rparr>"

theorem capsule_exchange_witness:
  "\<exists>c flds. accept_capsule (\<lambda>b. take 32 b) (\<lambda>m sig. sig = replicate 64 9) sample_fields c = Inr flds
     \<and> c_beacon flds = replicate 32 5 \<and> c_sequence flds = word_of_int (41 + 1)"
proof -
  have "hello_ok sample_fields" by (simp add: hello_ok_def sample_fields_def)
  moreover from this have "length (take 32 (teb_build_hello sample_fields)) = 32" by (simp add: HELLO_LEN_def)
  ultimately show ?thesis
    using capsule_exchange [of sample_fields "take 32" "\<lambda>m. Inr (replicate 64 9)" "\<lambda>m sig. sig = replicate 64 9"
        "\<lparr>now_ms = 1700000000000, urandom = replicate 32 5\<rparr>" "\<lparr>sequence = 41, served = []\<rparr>"]
    by (auto simp: fits_def)
qed

lemma serve_all_sequences:
  "sorted_wrt (<) (map fst (served (serve_all sha sign evs)))
     \<and> list_all (\<lambda>q. 0 < q \<and> q \<le> sequence (serve_all sha sign evs)) (map fst (served (serve_all sha sign evs)))
     \<and> 0 \<le> sequence (serve_all sha sign evs) \<and> sequence (serve_all sha sign evs) \<le> int (length evs)"
proof (induction evs rule: rev_induct)
  case Nil
  then show ?case by (simp add: serve_all_def)
next
  case (snoc ev evs)
  let ?s = "serve_all sha sign evs"
  have s': "serve_all sha sign (evs @ [ev]) = serve sha sign ev ?s" by (simp add: serve_all_def)
  obtain d env where ev: "ev = (d, env)" by force
  show ?case
  proof (cases "parse_hello sha d")
    case (Inl e)
    then show ?thesis using snoc unfolding s' by (simp add: serve_def ev)
  next
    case (Inr h)
    then show ?thesis using snoc unfolding s'
      by (cases "build_capsule sign env h (sequence ?s + 1)")
        (auto simp: serve_def ev Let_def sorted_wrt_append list_all_iff)
  qed
qed

text \<open>
  The sequence numbers of the capsules a server run gives out are strictly increasing, positive
  and at most the number of packets received, whatever arrives and whenever signing fails.
\<close>

theorem sequence_numbers_increase:
  "sorted_wrt (<) (map fst (served (serve_all sha sign evs)))
     \<and> list_all (\<lambda>q. 0 < q \<and> q \<le> int (length evs)) (map fst (served (serve_all sha sign evs)))"
  using serve_all_sequences [of sha sign evs] by (auto simp: list_all_iff)

text \<open>
  Once the sequence number has left the range of its 32-bit field, the server answers no device
  any more: every greeting is parsed, counted and rejected.
\<close>

theorem sequence_exhaustion:
  assumes "2 ^ 32 - 1 \<le> sequence s"
  shows "served (fold (serve sha sign) evs s) = served s"
proof -
  have "2 ^ 32 - 1 \<le> sequence (fold (serve sha sign) evs s) \<and> served (fold (serve sha sign) evs s) = served s"
    using assms
  proof (induction evs arbitrary: s)
    case (Cons ev evs)
    obtain d env where ev: "ev = (d, env)" by force
    have "build_capsule sign env h (sequence s + 1) \<noteq> Inr c" for h c
      using Cons.prems by (auto simp: build_capsule_Inr fits_def)
    then have "2 ^ 32 - 1 \<le> sequence (serve sha sign ev s) \<and> served (serve sha sign ev s) = served s"
      using Cons.prems by (auto simp: serve_def ev Let_def split: sum.splits)
    then show ?case using Cons.IH [of "serve sha sign ev s"] by simp
  qed simp
  then show ?thesis by simp
qed

theorem sequence_exhaustion_witness:
  "served (fold (serve (\<lambda>b. take 32 b) (\<lambda>m. Inr (replicate 64 9)))
     [(teb_build_hello sample_fields, \<lparr>now_ms = 1, urandom = replicate 32 5\<rparr>)] \<lparr>sequence = 4294967295, served = []\<rparr>) = []"
proof -
  have "2 ^ 32 - 1 \<le> sequence \<lparr>sequence = 4294967295, served = []\<rparr>" by simp
  from sequence_exhaustion [OF this] show ?thesis by (simp only: server.simps)
qed

text \<open>The greeting as a datagram protocol between device and server.\<close>

definition read_hello :: "bytes \<Rightarrow> teb_hello_fields option" where
  "read_hello d =
     (case parse_hello (\<lambda>b. b) d of Inl e \<Rightarrow> None
      | Inr h \<Rightarrow> Some \<lparr>device_id = word_of_int (h_device h), boot_counter = word_of_int (h_counter h),
          uptime_ms = word_of_int (h_uptime h), sram_commitment = h_sram h, timing_commitment = h_timing h\<rparr>)"

interpretation teb_hello: datagram_protocol "\<lambda>f. Inr (teb_build_hello f)" read_hello hello_ok
  by unfold_locales (auto simp: read_hello_def parse_built_hello)

lemma accept_capsule_Inr:
  "accept_capsule sha verify f c = Inr x \<Longrightarrow>
     teb_parse_capsule c = Inr x \<and> c_hello_hash x = sha (teb_build_hello f)
     \<and> c_device x = device_id f \<and> c_counter x = boot_counter f
     \<and> verify (take CAPSULE_SIGNED_LEN c) (c_signature x)"
  unfolding accept_capsule_def by (cases "teb_parse_capsule c") (auto split: if_splits)

text \<open>
  A capsule is bound to one greeting: if two devices, or one device in two boots, both
  accept the same capsule, and SHA-256 does not collide on their greetings, then all fields of the two
  greetings agree. A capsule recorded for another boot or another device is refused.
\<close>

theorem capsule_binds_hello:
  assumes "accept_capsule sha verify f c = Inr x" and "accept_capsule sha verify f' c = Inr y"
    and "hello_ok f" and "hello_ok f'" and "inj_on sha {teb_build_hello f, teb_build_hello f'}"
  shows "f = f'"
proof -
  have "sha (teb_build_hello f) = sha (teb_build_hello f')"
    using accept_capsule_Inr [OF assms(1)] accept_capsule_Inr [OF assms(2)] by (metis sum.inject(2))
  then have "teb_build_hello f = teb_build_hello f'"
    by (rule inj_onD [OF assms(5)]) blast+
  then show ?thesis using teb_hello.build_inject [OF assms(3,4)] by blast
qed

lemma sample_reply:
  "\<exists>c x. accept_capsule (take 32) (\<lambda>m sig. sig = replicate 64 9) sample_fields c = Inr x"
proof -
  have "hello_ok sample_fields" by (simp add: hello_ok_def sample_fields_def)
  moreover from this have "length (take 32 (teb_build_hello sample_fields)) = 32" by (simp add: HELLO_LEN_def)
  moreover have "\<exists>sig. Inr (replicate 64 9) = (Inr sig :: bytes result) \<and> length sig = 64 \<and> sig = replicate 64 9" for m :: bytes
    by (intro exI [of _ "replicate 64 9"] conjI refl length_replicate)
  moreover have "fits 8 (now_ms \<lparr>now_ms = 1, urandom = replicate 32 5\<rparr>)"
      "fits 4 (sequence \<lparr>sequence = 0, served = []\<rparr> + 1)" by (simp_all add: fits_def)
  moreover have "length (urandom \<lparr>now_ms = 1, urandom = replicate 32 5\<rparr>) = 32" by simp
  ultimately show ?thesis
    using exchange [of sample_fields "take 32" "\<lambda>m. Inr (replicate 64 9)" "\<lambda>m sig. sig = replicate 64 9"
        "\<lparr>now_ms = 1, urandom = replicate 32 5\<rparr>" "\<lparr>sequence = 0, served = []\<rparr>"]
    by blast
qed

theorem capsule_binds_hello_witness:
  "\<exists>c x. accept_capsule (take 32) (\<lambda>m sig. sig = replicate 64 9) sample_fields c = Inr x
     \<and> (\<forall>y. accept_capsule (take 32) (\<lambda>m sig. sig = replicate 64 9) (sample_fields\<lparr>boot_counter := 8\<rparr>) c \<noteq> Inr y)"
proof -
  let ?f = "sample_fields\<lparr>boot_counter := 8\<rparr>"
  obtain c x where x: "accept_capsule (take 32) (\<lambda>m sig. sig = replicate 64 9) sample_fields c = Inr x"
    using sample_reply by blast
  have h: "hello_ok sample_fields" "hello_ok ?f" by (simp_all add: hello_ok_def sample_fields_def)
  have "take 32 (teb_build_hello sample_fields) \<noteq> take 32 (teb_build_hello ?f)" by code_simp
  then have inj: "inj_on (take 32) {teb_build_hello sample_fields, teb_build_hello ?f}" by auto
  have "sample_fields \<noteq> ?f" by (simp add: sample_fields_def)
  then have "accept_capsule (take 32) (\<lambda>m sig. sig = replicate 64 9) ?f c \<noteq> Inr y" for y
    using capsule_binds_hello [OF x _ h inj, of y] by blast
  with x show ?thesis by blast
qed

end
