(* ===== verification/TebLog.thy ===== *)
theory TebLog
  imports PyNumber Stats
begin

text \<open>
  The parser of the capsule experiment's serial logs (\<open>parse_teb_boot_log.py\<close>): the regular
  expressions as functions on stripped lines, the line-driven state machine that collects boot
  runs, the server log, the summary statistics and the LaTeX table. A text file is its text;
  the CSV file is the list of its rows. The figure and the JSON text are not modelled.
\<close>

section \<open>Values of a run\<close>

text \<open>A run is a dictionary whose values are strings, integers or floats.\<close>

datatype val = S string | I int | F real

type_synonym run = "(string, val) dict"

definition val_text :: "(real \<Rightarrow> string) \<Rightarrow> val \<Rightarrow> string" where
  "val_text repr v = (case v of S s \<Rightarrow> s | I i \<Rightarrow> str_of_int i | F x \<Rightarrow> repr x)"

definition ED25519_CAPSULE_LEN :: int where "ED25519_CAPSULE_LEN = 160"
definition PQ_CAPSULE_LEN :: int where "PQ_CAPSULE_LEN = 3252"

definition CSV_FIELDS :: "string list" where
  "CSV_FIELDS =
     [''run'', ''result'', ''error'', ''profile'', ''device_id'', ''boot_counter'', ''ipv4_addr'',
      ''ipv4_gateway'', ''local_hw_refill'', ''bootstrap_state'', ''pre_wifi_ms'',
      ''wifi_association_ms'', ''dhcp_ms'', ''post_ipv4_settle_ms'', ''time_to_seed_ms'',
      ''capsule_exchange_ms'', ''capsule_wait_ms'', ''hello_send_us'', ''capsule_processing_us'',
      ''verify_us'', ''kem_decaps_us'', ''hkdf_us'', ''entropy_add_us'', ''hello_tx_bytes'',
      ''capsule_rx_bytes'', ''application_datagrams'', ''capsule_input_bytes'',
      ''capsule_credit_bits'', ''credited_bits'', ''external_bytes'', ''hw_bytes'',
      ''heap_free_before_wifi'', ''heap_used_before_wifi'', ''heap_peak_before_wifi'',
      ''heap_free_before_capsule'', ''heap_used_before_capsule'', ''heap_peak_before_capsule'',
      ''heap_free_after_capsule'', ''heap_used_after_capsule'', ''heap_peak_after_capsule'',
      ''sram_ones'', ''sram_one_rate'', ''sram_transitions'', ''sram_transition_rate'',
      ''timing_min_delta'', ''timing_max_delta'', ''timing_mean_delta'', ''gateway_time_ms'',
      ''gateway_sequence'']"

text \<open>\<open>parse_int\<close>: a missing or unreadable value gives \<open>None\<close>; the text of a float is no integer.\<close>

definition parse_int :: "val option \<Rightarrow> int option" where
  "parse_int v =
     (case v of None \<Rightarrow> None | Some (F x) \<Rightarrow> None | Some (I i) \<Rightarrow> Some i
      | Some (S s) \<Rightarrow> (case py_int_base 0 s of Inl e \<Rightarrow> None | Inr i \<Rightarrow> Some i))"

definition set_rate :: "string \<Rightarrow> string \<Rightarrow> real \<Rightarrow> run \<Rightarrow> run" where
  "set_rate src dst den r =
     (case parse_int (dict_get r src) of None \<Rightarrow> r | Some n \<Rightarrow> dict_set dst (F (of_int n / den)) r)"

definition finalize_run :: "run \<Rightarrow> run" where
  "finalize_run r =
     (if r = [] then r
      else (let pq = (dict_get r ''profile'' = Some (S ''pq-mlkem512-mldsa44''));
                r1 = dict_setdefault ''hello_tx_bytes'' (I 88) r;
                r2 = dict_setdefault ''capsule_rx_bytes'' (I (if pq then PQ_CAPSULE_LEN else ED25519_CAPSULE_LEN)) r1;
                r3 = dict_setdefault ''application_datagrams'' (I 2) r2;
                r4 = (if dict_in ''result'' r3 then r3 else dict_set ''result'' (S ''incomplete'') r3)
            in set_rate ''timing_sum_delta'' ''timing_mean_delta'' 512
                 (set_rate ''sram_transitions'' ''sram_transition_rate'' (4096 * 8 - 1)
                   (set_rate ''sram_ones'' ''sram_one_rate'' (4096 * 8) r4))))"

section \<open>Regular expressions\<close>

text \<open>\<open>^tag\s+(.+)$\<close> on a stripped line.\<close>

definition match_rest :: "string \<Rightarrow> string \<Rightarrow> string option" where
  "match_rest tag line =
     (let r = drop (length tag) line; b = dropWhile is_space r
      in if startswith line tag \<and> takeWhile is_space r \<noteq> [] \<and> b \<noteq> [] then Some b else None)"

text \<open>
  \<open>^tag\s+([^,]+),(.+)$\<close>: the key ends at the first comma after the white space; when nothing
  stands between them, the white space gives its last character to the key.
\<close>

definition match_pair :: "string \<Rightarrow> string \<Rightarrow> (string \<times> string) option" where
  "match_pair tag line =
     (let r = drop (length tag) line; ws = takeWhile is_space r
      in if startswith line tag \<and> ws \<noteq> [] then
           (case split1 CHR '','' (dropWhile is_space r) of
              None \<Rightarrow> None
            | Some (k, v) \<Rightarrow>
                if v = [] then None
                else if k \<noteq> [] then Some (k, v)
                else if 2 \<le> length ws then Some ([last ws], v) else None)
         else None)"

definition is_addr_char :: "char \<Rightarrow> bool" where
  "is_addr_char c = (is_digit_char c \<or> c = CHR ''.'')"

text \<open>\<open>IPv4 ready: addr=([0-9.]+) gw=([0-9.]+)\<close> at one position, and the search from the left.\<close>

definition ipv4_here :: "string \<Rightarrow> (string \<times> string) option" where
  "ipv4_here s =
     (let p = ''IPv4 ready: addr=''; q = '' gw=''; r = drop (length p) s;
          a = takeWhile is_addr_char r; r2 = dropWhile is_addr_char r;
          g = takeWhile is_addr_char (drop (length q) r2)
      in if startswith s p \<and> a \<noteq> [] \<and> startswith r2 q \<and> g \<noteq> [] then Some (a, g) else None)"

fun search :: "(string \<Rightarrow> 'a option) \<Rightarrow> string \<Rightarrow> 'a option" where
  "search f [] = f []"
| "search f (c # cs) = (case f (c # cs) of Some x \<Rightarrow> Some x | None \<Rightarrow> search f cs)"

text \<open>The last position at which \<open>f\<close> matches, as a greedy \<open>.*\<close> before it finds.\<close>

fun search_last :: "(string \<Rightarrow> 'a option) \<Rightarrow> string \<Rightarrow> 'a option" where
  "search_last f [] = f []"
| "search_last f (c # cs) = (case search_last f cs of Some x \<Rightarrow> Some x | None \<Rightarrow> f (c # cs))"

definition number_after :: "string \<Rightarrow> string \<Rightarrow> string option" where
  "number_after p s =
     (let ds = takeWhile is_digit_char (drop (length p) s)
      in if startswith s p \<and> ds \<noteq> [] then Some ds else None)"

text \<open>\<open>^\[TEB_SERVER\]\s+served,.*key=([0-9]+)\<close>.\<close>

definition match_served :: "string \<Rightarrow> string \<Rightarrow> string option" where
  "match_served key line =
     (case match_rest ''[TEB_SERVER]'' line of
        None \<Rightarrow> None
      | Some b \<Rightarrow> if startswith b ''served,'' then search_last (number_after (key @ ''='')) (drop 7 b) else None)"

section \<open>Reading a log\<close>

record log_state =
  runs :: "run list"
  current :: run

definition first_pair :: "string \<Rightarrow> (string \<times> string) option" where
  "first_pair line =
     fold (\<lambda>tag acc. case acc of None \<Rightarrow> match_pair tag line | Some p \<Rightarrow> Some p)
       [''[TEB_META]'', ''[TEB_METRIC]'', ''[TEB_POOL]'', ''[TEB_PUF]''] None"

definition parse_line :: "string \<Rightarrow> log_state \<Rightarrow> log_state" where
  "parse_line raw st =
     (let line = strip raw; cur = current st
      in if line = ''Asymmetric Entropy Capsule Bootstrap'' then
           (let rs = (if cur \<noteq> [] then runs st @ [finalize_run cur] else runs st)
            in \<lparr>runs = rs, current = [(''run'', I (int (length rs) + 1))]\<rparr>)
         else if cur = [] then st
         else (case first_pair line of
                 Some (k, v) \<Rightarrow> st\<lparr>current := dict_set k (S v) cur\<rparr>
               | None \<Rightarrow>
           (case match_rest ''[TEB_RESULT]'' line of
              Some r \<Rightarrow> \<lparr>runs = runs st @ [finalize_run (dict_set ''result'' (S r) cur)], current = []\<rparr>
            | None \<Rightarrow>
           (case match_rest ''[TEB_ERR]'' line of
              Some e \<Rightarrow> st\<lparr>current := dict_set ''result'' (S ''failed'') (dict_set ''error'' (S e) cur)\<rparr>
            | None \<Rightarrow>
           (case search ipv4_here line of
              Some (a, g) \<Rightarrow> st\<lparr>current := dict_set ''ipv4_gateway'' (S g) (dict_set ''ipv4_addr'' (S a) cur)\<rparr>
            | None \<Rightarrow>
           (case match_rest ''Profile:'' line of
              Some p \<Rightarrow> st\<lparr>current := dict_set ''profile'' (S p) cur\<rparr>
            | None \<Rightarrow> st))))))"

definition end_log :: "log_state \<Rightarrow> run list" where
  "end_log st = (if current st \<noteq> [] then runs st @ [finalize_run (current st)] else runs st)"

definition parse_log :: "string \<Rightarrow> run list" where
  "parse_log text = end_log (fold parse_line (splitlines text) \<lparr>runs = [], current = []\<rparr>)"

section \<open>Statistics\<close>

record stat =
  st_n :: nat
  st_mean :: "real option"
  st_median :: "real option"
  st_min :: "real option"
  st_max :: "real option"
  st_std :: "real option"

definition stats :: "real list \<Rightarrow> stat" where
  "stats vs =
     (if vs = [] then \<lparr>st_n = 0, st_mean = None, st_median = None, st_min = None, st_max = None, st_std = None\<rparr>
      else \<lparr>st_n = length vs, st_mean = Some (mean vs), st_median = Some (median vs), st_min = Some (lmin vs),
            st_max = Some (lmax vs), st_std = Some (if length vs > 1 then pstdev vs else 0)\<rparr>)"

record server_summary =
  sv_served :: nat
  sv_sequences :: "int list"
  sv_generation :: stat

definition server_step :: "string \<Rightarrow> nat \<times> int list \<times> real list \<Rightarrow> nat \<times> int list \<times> real list" where
  "server_step raw st =
     (case st of (n, sqs, ts) \<Rightarrow>
        (let line = strip raw; digits = (\<lambda>ds. dec_value ds);
             (n1, sqs1) = (case match_served ''seq'' line of None \<Rightarrow> (n, sqs) | Some ds \<Rightarrow> (n + 1, sqs @ [int (digits ds)]));
             ts1 = (case match_served ''server_us'' line of None \<Rightarrow> ts | Some ds \<Rightarrow> ts @ [real (digits ds)])
         in (n1, sqs1, ts1)))"

text \<open>The argument is the text of the log, or \<open>None\<close> when no file was named or it does not exist.\<close>

definition parse_server_log :: "string option \<Rightarrow> server_summary option" where
  "parse_server_log text =
     (case text of None \<Rightarrow> None
      | Some t \<Rightarrow> (case fold server_step (splitlines t) (0, [], []) of (n, sqs, ts) \<Rightarrow>
          Some \<lparr>sv_served = n, sv_sequences = sqs, sv_generation = stats ts\<rparr>))"

definition seeded :: "run \<Rightarrow> bool" where
  "seeded r = (dict_get r ''result'' = Some (S ''seeded''))"

text \<open>\<open>float(raw)\<close> of a value; a text that is no number is skipped by its caller.\<close>

definition val_float :: "val \<Rightarrow> real result" where
  "val_float v = (case v of S s \<Rightarrow> py_float s | I i \<Rightarrow> Inr (of_int i) | F x \<Rightarrow> Inr x)"

fun numeric_values :: "run list \<Rightarrow> string \<Rightarrow> real list result" where
  "numeric_values [] key = Inr []"
| "numeric_values (r # rs) key =
     (if \<not> seeded r then numeric_values rs key
      else (case dict_get r key of
              None \<Rightarrow> numeric_values rs key
            | Some v \<Rightarrow>
                if v = S [] then numeric_values rs key
                else (case val_float v of
                        Inr x \<Rightarrow> rbind (numeric_values rs key) (\<lambda>xs. Inr (x # xs))
                      | Inl ValueError \<Rightarrow> numeric_values rs key
                      | Inl e \<Rightarrow> Inl e)))"

definition SUMMARY_KEYS :: "string list" where
  "SUMMARY_KEYS =
     [''pre_wifi_ms'', ''wifi_association_ms'', ''dhcp_ms'', ''post_ipv4_settle_ms'', ''time_to_seed_ms'',
      ''capsule_exchange_ms'', ''capsule_wait_ms'', ''hello_send_us'', ''capsule_processing_us'',
      ''verify_us'', ''kem_decaps_us'', ''hkdf_us'', ''entropy_add_us'', ''capsule_input_bytes'',
      ''capsule_credit_bits'', ''credited_bits'', ''external_bytes'', ''hw_bytes'',
      ''heap_peak_after_capsule'', ''heap_used_after_capsule'', ''sram_one_rate'',
      ''sram_transition_rate'', ''timing_mean_delta'']"

record summary =
  sm_attempted :: nat
  sm_seeded :: nat
  sm_failed :: int
  sm_profile :: val
  sm_server :: "server_summary option"
  sm_stats :: "(string, stat) dict"

text \<open>The first element of an empty list is an \<open>IndexError\<close>.\<close>

definition summary_profile :: "run list \<Rightarrow> val result" where
  "summary_profile rs =
     (if rs = [] then Inr (S [])
      else (case filter seeded rs of
              [] \<Rightarrow> Inl IndexError
            | r # _ \<Rightarrow> Inr (dict_get_or r ''profile'' (dict_get_or (hd rs) ''profile'' (S [])))))"

definition summarize :: "run list \<Rightarrow> server_summary option \<Rightarrow> summary result" where
  "summarize rs server =
     rbind (summary_profile rs) (\<lambda>prof.
     rbind (rmap (\<lambda>key. rbind (numeric_values rs key) (\<lambda>vs. Inr (key, stats vs))) SUMMARY_KEYS) (\<lambda>st.
       Inr \<lparr>sm_attempted = length rs, sm_seeded = length (filter seeded rs),
            sm_failed = int (length rs) - int (length (filter seeded rs)), sm_profile = prof,
            sm_server = server, sm_stats = st\<rparr>))"

definition csv_row :: "run \<Rightarrow> val list" where
  "csv_row r = map (\<lambda>field. dict_get_or r field (S [])) CSV_FIELDS"

definition write_csv :: "run list \<Rightarrow> val list list" where
  "write_csv rs = map S CSV_FIELDS # map csv_row rs"

section \<open>The table\<close>

definition fmt :: "nat \<Rightarrow> real option \<Rightarrow> string" where
  "fmt digits v =
     (case v of None \<Rightarrow> ''N/A''
      | Some x \<Rightarrow> if isclose x (of_int (round_half_even x)) then fmt_fixed 0 x else fmt_fixed digits x)"

definition stat_text :: "summary \<Rightarrow> string \<Rightarrow> string \<Rightarrow> string result" where
  "stat_text sm key unit_text =
     rbind (dict_item (sm_stats sm) key) (\<lambda>item.
       if st_n item = 0 then Inr ''N/A''
       else (let med = fmt 1 (st_median item); lo = fmt 1 (st_min item); hi = fmt 1 (st_max item);
                 suffix = (if unit_text = [] then [] else CHR '' '' # unit_text)
             in Inr (if lo = hi then med @ suffix else med @ suffix @ '' ['' @ lo @ '', '' @ hi @ '']'')))"

definition tex_label :: "string \<Rightarrow> string" where
  "tex_label s = replace_char CHR ''_'' [CHR 0x5C, CHR ''_''] s"

definition tex_us :: string where
  "tex_us = [CHR 0x5C] @ ''si{'' @ [CHR 0x5C] @ ''micro'' @ [CHR 0x5C] @ ''second}''"

text \<open>The rows of the table: a label and either a fixed text or a statistic with its unit.\<close>

definition table_rows :: "(real \<Rightarrow> string) \<Rightarrow> summary \<Rightarrow> (string \<times> string) list result" where
  "table_rows repr sm =
     (let pq = (sm_profile sm = S ''pq-mlkem512-mldsa44'');
          len = (if pq then PQ_CAPSULE_LEN else ED25519_CAPSULE_LEN);
          stat = (\<lambda>label key u. rbind (stat_text sm key u) (\<lambda>t. Inr (label, t)))
      in rbind (stat_text sm ''capsule_credit_bits'' ''bits'') (\<lambda>credit.
         rmap (\<lambda>x. x)
           [Inr (''Seeded boots'', str_of_nat (sm_seeded sm) @ '' / '' @ str_of_nat (sm_attempted sm)),
            Inr (''Profile'', val_text repr (sm_profile sm)),
            stat ''Time to first credited seed'' ''time_to_seed_ms'' ''ms'',
            stat ''Pre-network setup'' ''pre_wifi_ms'' ''ms'',
            stat ''Wi-Fi association'' ''wifi_association_ms'' ''ms'',
            stat ''DHCP / IPv4'' ''dhcp_ms'' ''ms'',
            stat ''Post-DHCP settling delay'' ''post_ipv4_settle_ms'' ''ms'',
            stat ''BOOT_HELLO-to-capsule exchange'' ''capsule_exchange_ms'' ''ms'',
            stat ''Capsule processing'' ''capsule_processing_us'' tex_us,
            stat ''Signature verify'' ''verify_us'' tex_us,
            (if pq then stat ''ML-KEM-512 decapsulation'' ''kem_decaps_us'' tex_us
             else Inr (''ML-KEM-512 decapsulation'', ''N/A'')),
            stat ''HKDF-SHA256'' ''hkdf_us'' tex_us,
            stat ''Pool injection'' ''entropy_add_us'' tex_us,
            Inr (''BOOT_HELLO / capsule'', ''88 B / '' @ str_of_int len @ '' B''),
            Inr (''Application payload'', str_of_int (88 + len) @ '' B''),
            Inr (''Application datagrams'', ''2 UDP datagrams''),
            Inr (''Capsule input / credit'', ''32 B / '' @ credit),
            stat ''Pool credit after capsule'' ''credited_bits'' ''bits'',
            stat ''External pool input'' ''external_bytes'' ''B'',
            stat ''Local hardware bytes after gate'' ''hw_bytes'' ''B'',
            stat ''Heap peak after capsule'' ''heap_peak_after_capsule'' ''B'']))"

definition tex_row :: "string \<times> string \<Rightarrow> string" where
  "tex_row lv = tex_label (fst lv) @ '' & '' @ snd lv @ '' '' @ [CHR 0x5C, CHR 0x5C]"

definition write_table_tex :: "(real \<Rightarrow> string) \<Rightarrow> summary \<Rightarrow> string result" where
  "write_table_tex repr sm =
     rbind (table_rows repr sm) (\<lambda>rows.
       Inr ([CHR 0x5C] @ ''begin{tabular}{ll}'' @ [CHR 0x0A, CHR 0x5C] @ ''toprule'' @ [CHR 0x0A]
         @ ''Metric & Result '' @ [CHR 0x5C, CHR 0x5C, CHR 0x0A, CHR 0x5C] @ ''midrule'' @ [CHR 0x0A]
         @ join [CHR 0x0A] (map tex_row rows) @ [CHR 0x0A, CHR 0x5C] @ ''bottomrule''
         @ [CHR 0x0A, CHR 0x5C] @ ''end{tabular}'' @ [CHR 0x0A]))"

text \<open>What a run of the script with all its outputs requested writes: the CSV rows, the summary, the table.\<close>

definition teb_log_main ::
  "(real \<Rightarrow> string) \<Rightarrow> string \<Rightarrow> string option \<Rightarrow> (val list list \<times> summary \<times> string) result" where
  "teb_log_main repr txt server =
     (let rs = parse_log txt
      in rbind (summarize rs (parse_server_log server)) (\<lambda>sm.
         rbind (write_table_tex repr sm) (\<lambda>tex. Inr (write_csv rs, sm, tex))))"

section \<open>Facts about runs\<close>

lemma set_rate_get [simp]:
  "k \<noteq> dst \<Longrightarrow> dict_get (set_rate src dst den r) k = dict_get r k"
  by (simp add: set_rate_def split: option.splits)

definition run_finished :: "run \<Rightarrow> bool" where
  "run_finished r \<longleftrightarrow> dict_in ''result'' r \<and> dict_in ''hello_tx_bytes'' r \<and> dict_in ''capsule_rx_bytes'' r
     \<and> dict_in ''application_datagrams'' r"

lemma finalize_run_finished: "r \<noteq> [] \<Longrightarrow> run_finished (finalize_run r)"
  by (auto simp: run_finished_def finalize_run_def Let_def dict_in_def)

lemma dict_set_nonempty [simp]: "dict_set k v d \<noteq> []"
  by (cases d) (auto simp: dict_set_def)

lemma parse_line_finished:
  "list_all run_finished (runs st) \<Longrightarrow> list_all run_finished (runs (parse_line raw st))"
  by (auto simp: parse_line_def Let_def finalize_run_finished split: option.splits)

lemma parse_lines_finished:
  "list_all run_finished (runs st) \<Longrightarrow> list_all run_finished (runs (fold parse_line ls st))"
  by (induction ls arbitrary: st) (simp_all add: parse_line_finished)

text \<open>
  C32: Whatever the log holds, every run that the parser returns has a result, the sizes of the two
  datagrams and their number, so every row of the table is complete in these columns; and the
  parser never returns an empty run.
\<close>

theorem parsed_runs_finished: "list_all run_finished (parse_log text)"
  using parse_lines_finished [of "\<lparr>runs = [], current = []\<rparr>" "splitlines text"]
  by (simp add: parse_log_def end_log_def finalize_run_finished)

section \<open>Printed boots are read back\<close>

text \<open>A boot as the firmware prints it: tagged pairs and a result between a banner and the next.\<close>

type_synonym boot = "(string \<times> string \<times> string) list \<times> string"

definition TAGS :: "string list" where
  "TAGS = [''[TEB_META]'', ''[TEB_METRIC]'', ''[TEB_POOL]'', ''[TEB_PUF]'']"

definition pair_line :: "string \<times> string \<times> string \<Rightarrow> string" where
  "pair_line p = (case p of (tag, k, v) \<Rightarrow> tag @ '' '' @ k @ '','' @ v)"

definition boot_lines :: "boot \<Rightarrow> string list" where
  "boot_lines b = ''Asymmetric Entropy Capsule Bootstrap'' # map pair_line (fst b) @ [''[TEB_RESULT] '' @ snd b]"

definition boots_text :: "boot list \<Rightarrow> string" where
  "boots_text bs = concat (map (\<lambda>l. l @ [CHR 0x0A]) (concat (map boot_lines bs)))"

definition plain_pair :: "string \<times> string \<times> string \<Rightarrow> bool" where
  "plain_pair p = (case p of (tag, k, v) \<Rightarrow> tag \<in> set TAGS \<and> clean_text k \<and> CHR '','' \<notin> set k \<and> clean_text v)"

definition plain_boot :: "boot \<Rightarrow> bool" where
  "plain_boot b \<longleftrightarrow> list_all plain_pair (fst b) \<and> clean_text (snd b)"

text \<open>What the parser makes of one boot, the \<open>n\<close>-th of the log.\<close>

definition boot_run :: "nat \<Rightarrow> boot \<Rightarrow> run" where
  "boot_run n b = finalize_run (dict_set ''result'' (S (snd b))
     (fold (\<lambda>(tag, k, v). dict_set k (S v)) (fst b) [(''run'', I (int n))]))"

lemma match_pair_same:
  "clean_text k \<Longrightarrow> CHR '','' \<notin> set k \<Longrightarrow> v \<noteq> [] \<Longrightarrow> match_pair tag (tag @ CHR '' '' # k @ CHR '','' # v) = Some (k, v)"
  using clean_textD(1) [of k "CHR '','' # v"] clean_textD(2) [of k]
  by (simp add: match_pair_def Let_def split1_append)

lemma match_pair_other: "\<not> startswith l tag \<Longrightarrow> match_pair tag l = None"
  by (simp add: match_pair_def)

lemma match_rest_same: "clean_text r \<Longrightarrow> match_rest tag (tag @ CHR '' '' # r) = Some r"
  by (cases r) (auto simp: match_rest_def Let_def clean_text_def)

lemma first_pair_line:
  assumes "plain_pair (tag, k, v)"
  shows "first_pair (tag @ CHR '' '' # k @ CHR '','' # v) = Some (k, v)"
proof -
  have t: "tag \<in> set TAGS" and k: "clean_text k" "CHR '','' \<notin> set k" and v: "v \<noteq> []"
    using assms clean_textD(2) by (auto simp: plain_pair_def)
  note same = match_pair_same [OF k v]
  from t consider "tag = ''[TEB_META]''" | "tag = ''[TEB_METRIC]''" | "tag = ''[TEB_POOL]''" | "tag = ''[TEB_PUF]''"
    by (auto simp: TAGS_def)
  then show ?thesis
  proof cases
    case 1
    with same [of "''[TEB_META]''"] show ?thesis by (simp add: first_pair_def)
  next
    case 2
    with same [of "''[TEB_METRIC]''"] show ?thesis
      by (simp add: first_pair_def match_pair_other startswith_Cons)
  next
    case 3
    with same [of "''[TEB_POOL]''"] show ?thesis
      by (simp add: first_pair_def match_pair_other startswith_Cons)
  next
    case 4
    with same [of "''[TEB_PUF]''"] show ?thesis
      by (simp add: first_pair_def match_pair_other startswith_Cons)
  qed
qed

lemma first_pair_result: "first_pair (''[TEB_RESULT] '' @ r) = None"
  by (simp add: first_pair_def match_pair_other startswith_Cons)

lemma bracket_clean:
  assumes "clean_text v"
  shows "strip (CHR ''['' # s @ v) = CHR ''['' # s @ v"
  using assms by (intro strip_clean) (auto simp: clean_text_def is_space_def code_def)

lemma parse_line_pair:
  assumes "strip l = l" and "l \<noteq> ''Asymmetric Entropy Capsule Bootstrap''" and "current st \<noteq> []"
    and "first_pair l = Some (k, v)"
  shows "parse_line l st = st\<lparr>current := dict_set k (S v) (current st)\<rparr>"
  using assms by (simp add: parse_line_def Let_def)

lemma parse_line_result:
  assumes "strip l = l" and "l \<noteq> ''Asymmetric Entropy Capsule Bootstrap''" and "current st \<noteq> []"
    and "first_pair l = None" and "match_rest ''[TEB_RESULT]'' l = Some r"
  shows "parse_line l st = \<lparr>runs = runs st @ [finalize_run (dict_set ''result'' (S r) (current st))], current = []\<rparr>"
  using assms by (simp add: parse_line_def Let_def)

lemma parse_pair_line:
  assumes "plain_pair p" and "current st \<noteq> []"
  shows "parse_line (pair_line p) st = st\<lparr>current := (case p of (tag, k, v) \<Rightarrow> dict_set k (S v)) (current st)\<rparr>"
proof -
  obtain tag k v where p: "p = (tag, k, v)" by (cases p) auto
  obtain u where u: "tag = CHR ''['' # u" using assms(1) by (auto simp: p plain_pair_def TAGS_def)
  have l: "pair_line p = tag @ CHR '' '' # k @ CHR '','' # v" by (simp add: p pair_line_def)
  have "strip (pair_line p) = pair_line p"
    using bracket_clean [of v "u @ CHR '' '' # k @ [CHR '','']"] assms(1)
    by (simp add: l u) (simp add: p plain_pair_def)
  moreover have "pair_line p \<noteq> ''Asymmetric Entropy Capsule Bootstrap''"
    by (simp add: l u)
  moreover have "first_pair (pair_line p) = Some (k, v)"
    unfolding l using first_pair_line assms(1) p by blast
  ultimately show ?thesis
    using parse_line_pair [of "pair_line p" st k v] assms(2) by (simp add: p)
qed

lemma fold_pair_lines:
  assumes "list_all plain_pair ps" and "current st \<noteq> []"
  shows "fold parse_line (map pair_line ps) st
    = st\<lparr>current := fold (\<lambda>(tag, k, v). dict_set k (S v)) ps (current st)\<rparr>"
  using assms by (induction ps arbitrary: st) (auto simp: parse_pair_line split: prod.splits)

lemma fold_set_nonempty: "d \<noteq> [] \<Longrightarrow> fold (\<lambda>(tag, k, v). dict_set k (S v)) ps d \<noteq> []"
proof (induction ps arbitrary: d)
  case (Cons p ps)
  then show ?case by (cases p) simp
qed simp

lemma parse_result_line:
  assumes "clean_text r" and "current st \<noteq> []"
  shows "parse_line (''[TEB_RESULT] '' @ r) st
    = \<lparr>runs = runs st @ [finalize_run (dict_set ''result'' (S r) (current st))], current = []\<rparr>"
proof -
  define l where "l = ''[TEB_RESULT] '' @ r"
  have "strip l = l"
    unfolding l_def append_Cons append_Nil using bracket_clean [OF assms(1), of "''TEB_RESULT] ''"]
    by (simp only: append_Cons append_Nil)
  moreover have "match_rest ''[TEB_RESULT]'' l = Some r"
    unfolding l_def append_Cons append_Nil using match_rest_same [OF assms(1), of "''[TEB_RESULT]''"]
    by (simp only: append_Cons append_Nil)
  moreover have "first_pair l = None" unfolding l_def by (rule first_pair_result)
  moreover have "l \<noteq> ''Asymmetric Entropy Capsule Bootstrap''" by (simp add: l_def)
  ultimately show ?thesis unfolding l_def [symmetric] by (intro parse_line_result assms(2))
qed

lemma parse_banner:
  "current st = [] \<Longrightarrow> parse_line ''Asymmetric Entropy Capsule Bootstrap'' st
    = \<lparr>runs = runs st, current = [(''run'', I (int (Suc (length (runs st)))))]\<rparr>"
proof -
  have "strip ''Asymmetric Entropy Capsule Bootstrap'' = ''Asymmetric Entropy Capsule Bootstrap''"
    by (rule strip_clean) (simp_all add: is_space_def code_def)
  then show "current st = [] \<Longrightarrow> ?thesis" by (simp add: parse_line_def Let_def)
qed

lemma parse_boot:
  assumes "plain_boot b" and "current st = []"
  shows "fold parse_line (boot_lines b) st = \<lparr>runs = runs st @ [boot_run (Suc (length (runs st))) b], current = []\<rparr>"
proof -
  let ?d = "[(''run'', I (int (Suc (length (runs st)))))]"
  let ?s = "\<lparr>runs = runs st, current = ?d\<rparr>"
  have p: "list_all plain_pair (fst b)" and r: "clean_text (snd b)"
    using assms(1) by (simp_all add: plain_boot_def)
  have ne: "fold (\<lambda>(tag, k, v). dict_set k (S v)) (fst b) ?d \<noteq> []"
    by (rule fold_set_nonempty) simp
  have "fold parse_line (boot_lines b) st
      = parse_line (''[TEB_RESULT] '' @ snd b) (fold parse_line (map pair_line (fst b)) ?s)"
    unfolding boot_lines_def fold_Cons fold_append comp_apply parse_banner [OF assms(2)] by (simp only: fold_Nil id_apply)
  also have "\<dots> = parse_line (''[TEB_RESULT] '' @ snd b)
      (?s\<lparr>current := fold (\<lambda>(tag, k, v). dict_set k (S v)) (fst b) (current ?s)\<rparr>)"
    by (subst fold_pair_lines [OF p]) simp_all
  also have "\<dots> = \<lparr>runs = runs st @ [boot_run (Suc (length (runs st))) b], current = []\<rparr>"
    using ne by (subst parse_result_line [OF r]) (simp_all add: boot_run_def)
  finally show ?thesis .
qed

lemma parse_boots:
  assumes "list_all plain_boot bs" and "current st = []"
  shows "fold parse_line (concat (map boot_lines bs)) st
    = \<lparr>runs = runs st @ map2 boot_run [Suc (length (runs st))..<Suc (length (runs st) + length bs)] bs, current = []\<rparr>"
  using assms
proof (induction bs arbitrary: st)
  case Nil
  then show ?case by simp
next
  case (Cons b bs)
  then show ?case
    by (simp add: parse_boot del: upt_Suc) (simp add: upt_conv_Cons del: upt_Suc)
qed

lemma unbroken_literals:
  "unbroken ''Asymmetric Entropy Capsule Bootstrap''" "unbroken ''[TEB_RESULT] ''"
  "tag \<in> set TAGS \<Longrightarrow> unbroken tag"
  by (auto simp: TAGS_def is_line_break_def code_def)

lemma pair_line_whole: "plain_pair p \<Longrightarrow> unbroken (pair_line p)"
  using unbroken_literals(3)
  by (auto simp: plain_pair_def pair_line_def clean_text_def split: prod.splits)
    (simp_all add: is_line_break_def code_def)

lemma list_all_ends: "P x \<Longrightarrow> list_all P xs \<Longrightarrow> P y \<Longrightarrow> list_all P (x # xs @ [y])"
  by simp

lemma boot_lines_whole:
  assumes "plain_boot b"
  shows "list_all unbroken (boot_lines b)"
proof -
  have "list_all unbroken (map pair_line (fst b))"
    using assms pair_line_whole unfolding plain_boot_def list.pred_map comp_def
    by (blast intro: list.pred_mono_strong)
  moreover have "unbroken (''[TEB_RESULT] '' @ snd b)"
    using assms unbroken_literals(2) unfolding list_all_append by (simp add: plain_boot_def clean_text_def)
  ultimately show ?thesis
    unfolding boot_lines_def using unbroken_literals(1) by (intro list_all_ends)
qed



section \<open>The summary\<close>

definition stat_ok :: "stat \<Rightarrow> bool" where
  "stat_ok s =
     (case (st_mean s, st_median s, st_min s, st_max s, st_std s) of
        (Some a, Some m, Some l, Some u, Some d) \<Rightarrow> 0 < st_n s \<and> l \<le> a \<and> a \<le> u \<and> l \<le> m \<and> m \<le> u \<and> 0 \<le> d
      | (None, None, None, None, None) \<Rightarrow> st_n s = 0
      | _ \<Rightarrow> False)"

lemma stats_ok: "stat_ok (stats vs)"
  using mean_bounds [of vs] median_bounds [of vs] pstdev_nonneg [of vs] by (simp add: stat_ok_def stats_def)

lemma numeric_values_count: "numeric_values rs k = Inr vs \<Longrightarrow> length vs \<le> length (filter seeded rs)"
proof (induction rs arbitrary: vs)
  case (Cons r rs)
  then show ?case
    by (auto simp: result_simps le_SucI split: if_splits option.splits sum.splits py_error.splits)
qed simp

lemma stats_n: "st_n (stats vs) = length vs"
  by (simp add: stats_def)

lemma rmap_keys:
  "rmap (\<lambda>k. rbind (f k) (\<lambda>v. Inr (k, g v))) ks = Inr d \<Longrightarrow>
     map fst d = ks \<and> (\<forall>(k, s) \<in> set d. \<exists>v. f k = Inr v \<and> s = g v)"
  by (induction ks arbitrary: d) (auto simp: result_simps)

text \<open>
  A summary accounts for every boot (seeded and failed boots add up to the attempts), has
  one statistic per reported metric in the fixed order, and each statistic is over at most the
  seeded boots, with mean and median between minimum and maximum and a deviation that is not
  negative, or empty in all its fields.
\<close>

theorem summary_consistent:
  assumes "summarize rs server = Inr sm"
  shows "int (sm_seeded sm) + sm_failed sm = int (sm_attempted sm) \<and> 0 \<le> sm_failed sm
    \<and> map fst (sm_stats sm) = SUMMARY_KEYS
    \<and> (\<forall>(k, s) \<in> set (sm_stats sm). stat_ok s \<and> st_n s \<le> sm_seeded sm)"
proof -
  obtain d where d: "rmap (\<lambda>key. rbind (numeric_values rs key) (\<lambda>vs. Inr (key, stats vs))) SUMMARY_KEYS = Inr d"
    and sm: "sm_stats sm = d" "sm_seeded sm = length (filter seeded rs)" "sm_attempted sm = length rs"
      "sm_failed sm = int (length rs) - int (length (filter seeded rs))"
    using assms by (auto simp: summarize_def result_simps)
  have "stat_ok s \<and> st_n s \<le> length (filter seeded rs)" if "(k, s) \<in> set d" for k s
    using rmap_keys [OF d] that numeric_values_count [of rs k] by (fastforce simp: stats_ok stats_n)
  with rmap_keys [OF d] show ?thesis by (auto simp: sm)
qed

theorem summary_consistent_witness:
  "\<exists>sm. summarize [[(''result'', S ''seeded''), (''dhcp_ms'', S ''12'')], [(''result'', S ''failed'')]] None = Inr sm
    \<and> int (sm_seeded sm) + sm_failed sm = int (sm_attempted sm) \<and> sm_attempted sm = 2"
  (is "\<exists>sm. summarize ?rs None = _ \<and> _")
proof -
  have "\<exists>sm. summarize ?rs None = Inr sm \<and> sm_attempted sm = 2"
    by (simp add: summarize_def summary_profile_def SUMMARY_KEYS_def seeded_def dict_get_def val_float_def
        py_float_def int_strip_def is_space_def is_ascii_space_def code_def Let_def split_sign_def lower_def
        is_digit_char_def read_decimal_def read_exponent_def float_max_bound_def scale10_def dec_value_def)
  then show ?thesis using summary_consistent by blast
qed

text \<open>
  Over a log in which at least one boot was attempted and none was seeded, the summary ends in
  an index error instead of reporting the failed boots: the guard of the profile expression tests
  the attempted boots and then takes the first seeded one.
\<close>

theorem all_failed_stops_summary:
  assumes "rs \<noteq> []" and "filter seeded rs = []"
  shows "summarize rs server = Inl IndexError"
  using assms by (simp add: summarize_def summary_profile_def)

theorem all_failed_stops_summary_witness:
  "summarize [[(''result'', S ''failed'')]] None = Inl IndexError"
  by (rule all_failed_stops_summary) (simp_all add: seeded_def dict_get_def)

text \<open>Every statistic the table asks for is among those of the summary.\<close>

lemma dict_get_keys: "k \<in> set (map fst d) \<Longrightarrow> \<exists>s. dict_get d k = Some s"
  by (induction d) (auto simp: dict_get_def)

lemma stat_text_total: "k \<in> set (map fst (sm_stats sm)) \<Longrightarrow> ok (stat_text sm k u)"
proof -
  assume "k \<in> set (map fst (sm_stats sm))"
  then obtain s where "dict_item (sm_stats sm) k = Inr s" using dict_get_keys by fastforce
  then show ?thesis unfolding stat_text_def Let_def by (simp only: rbind_Inr if_split ok_simps simp_thms)
qed

lemma rmap_id_ok:
  assumes "list_all ok rs" and "length rs = n"
  shows "\<exists>ys. rmap (\<lambda>x. x) rs = Inr ys \<and> length ys = n"
proof -
  have "\<exists>ys. rmap (\<lambda>x. x) rs = Inr ys \<and> length ys = length rs"
    using assms(1) by (induction rs) (auto simp: ok_iff)
  with assms(2) show ?thesis by simp
qed

lemma list_all_intros: "list_all P []" "P x \<Longrightarrow> list_all P xs \<Longrightarrow> list_all P (x # xs)"
  by simp_all

lemma ok_if: "ok a \<Longrightarrow> ok b \<Longrightarrow> ok (if c then a else b)"
  by simp

lemma ok_bind: "ok r \<Longrightarrow> ok (rbind r (\<lambda>t. Inr (f t)))"
  by (auto simp: ok_iff)

lemma table_rows_total:
  assumes "map fst (sm_stats sm) = SUMMARY_KEYS"
  shows "\<exists>rows. table_rows repr sm = Inr rows \<and> length rows = 21"
proof -
  have k: "ok (stat_text sm k u)" if "k \<in> set SUMMARY_KEYS" for k u
    using stat_text_total [of k sm u] that assms by simp
  have row: "ok (rbind (stat_text sm k u) (\<lambda>t. Inr (label, t)))" if "k \<in> set SUMMARY_KEYS" for k u and label :: string
    using k [OF that] by (rule ok_bind)
  have keys: "list_all (\<lambda>k. k \<in> set SUMMARY_KEYS) [''capsule_credit_bits'', ''time_to_seed_ms'', ''pre_wifi_ms'', ''wifi_association_ms'', ''dhcp_ms'',
      ''post_ipv4_settle_ms'', ''capsule_exchange_ms'', ''capsule_processing_us'', ''verify_us'', ''kem_decaps_us'',
      ''hkdf_us'', ''entropy_add_us'', ''credited_bits'', ''external_bytes'', ''hw_bytes'', ''heap_peak_after_capsule'']"
    by (simp add: SUMMARY_KEYS_def)
  obtain credit where c: "stat_text sm ''capsule_credit_bits'' ''bits'' = Inr credit"
    using k keys unfolding list.pred_inject ok_iff by blast
  show ?thesis
    unfolding table_rows_def Let_def c rbind_Inr
    apply (rule rmap_id_ok)
     apply (intro list_all_intros ok_if row ok_simps(1))
                   apply (insert keys)
                   apply (simp_all only: list.pred_inject)
    apply simp
    done
qed

text \<open>
  The script fails only where the summary does: whenever the log can be summarised, the CSV
  table has a header and one row per boot with one value per column, and the LaTeX table can be
  written, because every statistic it prints is in the summary.
\<close>

theorem outputs_complete:
  assumes "summarize (parse_log txt) (parse_server_log server) = Inr sm"
  shows "\<exists>tex. teb_log_main repr txt server = Inr (write_csv (parse_log txt), sm, tex)
    \<and> length (write_csv (parse_log txt)) = length (parse_log txt) + 1
    \<and> list_all (\<lambda>row. length row = length CSV_FIELDS) (write_csv (parse_log txt))"
proof -
  have "map fst (sm_stats sm) = SUMMARY_KEYS"
    using assms rmap_keys by (fastforce simp: summarize_def result_simps)
  then have "\<exists>tex. teb_log_main repr txt server = Inr (write_csv (parse_log txt), sm, tex)"
    using table_rows_total [of sm repr] assms by (auto simp: teb_log_main_def write_table_tex_def)
  moreover have "list_all (\<lambda>row. length row = length CSV_FIELDS) (write_csv (parse_log txt))"
    by (simp add: write_csv_def csv_row_def list_all_iff)
  ultimately show ?thesis by (simp add: write_csv_def)
qed

theorem outputs_complete_witness:
  "\<exists>sm tex. teb_log_main (\<lambda>x. fmt_fixed 6 x) [] None = Inr (write_csv (parse_log []), sm, tex)"
proof -
  have "\<exists>sm. summarize (parse_log []) (parse_server_log None) = Inr sm"
    by (simp add: parse_log_def splitlines_def end_log_def parse_server_log_def summarize_def
        summary_profile_def SUMMARY_KEYS_def)
  then show ?thesis using outputs_complete by blast
qed

end
