(* ===== verification/PyIO.thy ===== *)
theory PyIO
  imports PyText
begin

text \<open>
  Code with side effects: a step takes the state of the world, may raise, and returns the state
  either way. Sequencing, loops, \<open>try ... finally\<close>, and the rules that carry an invariant of
  the state, or a relation between the state before and after, through them. The locale
  \<open>preorder_effect\<close> is the contract of such a relation.
\<close>

type_synonym ('s, 'a) io = "'s \<Rightarrow> 'a result \<times> 's"

definition io_return :: "'a \<Rightarrow> ('s, 'a) io" where
  "io_return x s = (Inr x, s)"

definition io_raise :: "py_error \<Rightarrow> ('s, 'a) io" where
  "io_raise e s = (Inl e, s)"

definition io_bind :: "('s, 'a) io \<Rightarrow> ('a \<Rightarrow> ('s, 'b) io) \<Rightarrow> ('s, 'b) io" where
  "io_bind m f s = (case m s of (Inl e, s') \<Rightarrow> (Inl e, s') | (Inr x, s') \<Rightarrow> f x s')"

definition io_lift :: "'a result \<Rightarrow> ('s, 'a) io" where
  "io_lift r s = (r, s)"

definition io_get :: "('s \<Rightarrow> 'a) \<Rightarrow> ('s, 'a) io" where
  "io_get f s = (Inr (f s), s)"

definition io_modify :: "('s \<Rightarrow> 's) \<Rightarrow> ('s, unit) io" where
  "io_modify f s = (Inr (), f s)"

abbreviation io_then :: "('s, unit) io \<Rightarrow> ('s, 'b) io \<Rightarrow> ('s, 'b) io" where
  "io_then m n \<equiv> io_bind m (\<lambda>_. n)"

fun io_each :: "('x \<Rightarrow> ('s, unit) io) \<Rightarrow> 'x list \<Rightarrow> ('s, unit) io" where
  "io_each f [] = io_return ()"
| "io_each f (x # xs) = io_then (f x) (io_each f xs)"

text \<open>\<open>try: body finally: fin\<close>: an exception of \<open>fin\<close> replaces that of the body.\<close>

definition io_finally :: "('s, 'a) io \<Rightarrow> ('s, unit) io \<Rightarrow> ('s, 'a) io" where
  "io_finally body fin s =
     (case body s of (r, s1) \<Rightarrow> (case fin s1 of (Inl e, s2) \<Rightarrow> (Inl e, s2) | (Inr _, s2) \<Rightarrow> (r, s2)))"

named_theorems io_simps

lemma io_run:
  "io_return x s = (Inr x, s)" "io_raise e s = (Inl e, s)" "io_lift r s = (r, s)"
  "io_get f s = (Inr (f s), s)" "io_modify g s = (Inr (), g s)"
  by (simp_all add: io_return_def io_raise_def io_lift_def io_get_def io_modify_def)

lemma io_bind_Inr [io_simps]:
  "io_bind m f s = (Inr y, t) \<longleftrightarrow> (\<exists>x s'. m s = (Inr x, s') \<and> f x s' = (Inr y, t))"
  by (auto simp: io_bind_def split: prod.splits sum.splits)

lemma io_bind_run [io_simps]:
  "m s = (Inr x, s') \<Longrightarrow> io_bind m f s = f x s'"
  "m s = (Inl e, s') \<Longrightarrow> io_bind m f s = (Inl e, s')"
  by (simp_all add: io_bind_def)

lemma io_bind_simps [simp]:
  "io_bind (io_return x) f = f x"
  "io_bind (io_raise e) f = io_raise e"
  "io_bind m io_return = m"
  "io_bind (io_bind m f) g = io_bind m (\<lambda>x. io_bind (f x) g)"
  by (rule ext; auto simp: io_bind_def io_return_def io_raise_def split: prod.splits sum.splits)+

lemma io_bindI: "m s = (Inr x, s') \<Longrightarrow> f x s' = res \<Longrightarrow> io_bind m f s = res"
  by (simp add: io_bind_def)

lemma io_finallyI: "body s = (Inr x, s') \<Longrightarrow> fin s' = (Inr (), t) \<Longrightarrow> io_finally body fin s = (Inr x, t)"
  by (auto simp: io_finally_def)

lemma io_finally_Inr [io_simps]:
  "io_finally body fin s = (Inr x, t) \<longleftrightarrow> (\<exists>s'. body s = (Inr x, s') \<and> fin s' = (Inr (), t))"
  unfolding io_finally_def by (cases "body s"; cases "fin (snd (body s))") (auto split: sum.splits)

lemma io_each_append: "io_each f (xs @ ys) = io_then (io_each f xs) (io_each f ys)"
  by (induction xs) simp_all

section \<open>Relations that every step keeps\<close>

text \<open>
  \<open>R\<close> relates the state before to the state after, whether the step returns or raises. A
  reflexive and transitive relation passes through sequences, loops and \<open>finally\<close>.
\<close>

definition io_rel :: "('s \<Rightarrow> 's \<Rightarrow> bool) \<Rightarrow> ('s, 'a) io \<Rightarrow> bool" where
  "io_rel R m \<longleftrightarrow> (\<forall>s. R s (snd (m s)))"

locale preorder_effect =
  fixes R :: "'s \<Rightarrow> 's \<Rightarrow> bool"
  assumes refl: "R s s" and trans: "R s t \<Longrightarrow> R t u \<Longrightarrow> R s u"
begin

lemma rel_pure: "io_rel R (io_return x)" "io_rel R (io_raise e)" "io_rel R (io_lift r)" "io_rel R (io_get f)"
  by (simp_all add: io_rel_def io_run refl)

lemma rel_bind: "io_rel R m \<Longrightarrow> (\<And>x. io_rel R (f x)) \<Longrightarrow> io_rel R (io_bind m f)"
  unfolding io_rel_def io_bind_def by (auto split: prod.splits sum.splits) (metis snd_conv trans)+

lemma rel_each: "(\<And>x. io_rel R (f x)) \<Longrightarrow> io_rel R (io_each f xs)"
  by (induction xs) (simp_all add: rel_pure rel_bind)

lemma rel_finally: "io_rel R body \<Longrightarrow> io_rel R fin \<Longrightarrow> io_rel R (io_finally body fin)"
  unfolding io_rel_def io_finally_def by (auto split: prod.splits sum.splits) (metis snd_conv trans)+

lemma rel_if: "io_rel R m \<Longrightarrow> io_rel R n \<Longrightarrow> io_rel R (if b then m else n)"
  by simp

end

end
