(* ===== verification/SramSerial.thy ===== *)
theory SramSerial
  imports PyNumber
begin

text \<open>
  The serial protocol of the SRAM startup experiment: the host's \<open>read_capture\<close> and
  \<open>arm_pattern\<close> (\<open>run_experiment.py\<close>) and the device's \<open>print_capture\<close>, \<open>fill_and_verify\<close>
  and command loop (\<open>src/main.c\<close>). The port is the list of what the successive \<open>readline\<close>
  calls return, each with the clock reading that admitted it; after the last of them the port
  stays silent until the deadline has passed.
\<close>

definition REGION_BYTES :: nat where "REGION_BYTES = 4096"

type_synonym reading = "real \<times> bytes"

section \<open>The host\<close>

text \<open>The fields of a tagged line: every token after the first that holds an equals sign.\<close>

definition line_fields :: "string \<Rightarrow> (string, string) dict" where
  "line_fields line = dict_update [] (List.map_filter (split1 CHR ''='') (drop 1 (split_ws line)))"

record capture =
  captured :: bytes
  received :: "nat set"
  address :: "int option"
  began :: bool
  ended :: bool

definition new_capture :: capture where
  "new_capture = \<lparr>captured = replicate REGION_BYTES 0, received = {}, address = None, began = False, ended = False\<rparr>"

definition begin_capture :: "(string, string) dict \<Rightarrow> capture \<Rightarrow> capture result" where
  "begin_capture fs c =
     rbind (py_int (dict_get_or fs ''bytes'' ''0'')) (\<lambda>n.
     if n \<noteq> int REGION_BYTES then Inl (RuntimeError ''firmware reported an unexpected SRAM region size'')
     else rbind (dict_item fs ''address'') (\<lambda>a.
       rbind (py_int_base 16 a) (\<lambda>addr.
       Inr (c\<lparr>address := Some addr, received := {}, began := True, ended := False\<rparr>))))"

text \<open>\<open>captured[offset:offset + len(data)] = data\<close>.\<close>

definition store_slice :: "nat \<Rightarrow> bytes \<Rightarrow> bytes \<Rightarrow> bytes" where
  "store_slice off data buf = take off buf @ data @ drop (off + length data) buf"

definition capture_data :: "(string, string) dict \<Rightarrow> capture \<Rightarrow> capture result" where
  "capture_data fs c =
     rbind (dict_item fs ''offset'') (\<lambda>os. rbind (py_int os) (\<lambda>off.
     rbind (dict_item fs ''hex'') (\<lambda>h. rbind (fromhex h) (\<lambda>data.
       if off < 0 \<or> off + int (length data) > int REGION_BYTES
       then Inl (RuntimeError ''firmware reported an invalid SRAM data offset'')
       else Inr (c\<lparr>captured := store_slice (nat off) data (captured c),
                   received := received c \<union> {nat off..<nat off + length data}\<rparr>)))))"

text \<open>What one line does: the new state and, when the capture is complete, its bytes and address.\<close>

definition capture_line :: "string \<Rightarrow> capture \<Rightarrow> (capture \<times> (bytes \<times> int) option) result" where
  "capture_line line c =
     (if startswith line ''[SRAM_CAPTURE_BEGIN]'' then
        rbind (begin_capture (line_fields line) c) (\<lambda>c'. Inr (c', None))
      else if began c \<and> startswith line ''[SRAM_DATA]'' then
        rbind (capture_data (line_fields line) c) (\<lambda>c'. Inr (c', None))
      else if began c \<and> line = ''[SRAM_CAPTURE_END]'' then Inr (c\<lparr>ended := True\<rparr>, None)
      else if startswith line ''[SRAM_READY]'' \<and> ended c then
        (case address c of
           None \<Rightarrow> Inl (RuntimeError ''SRAM capture was incomplete'')
         | Some a \<Rightarrow> if card (received c) \<noteq> REGION_BYTES then Inl (RuntimeError ''SRAM capture was incomplete'')
                     else Inr (c, Some (captured c, a)))
      else Inr (c, None))"

definition line_of :: "bytes \<Rightarrow> string" where
  "line_of raw = strip (decode_ascii raw)"

text \<open>The reading loops return their result, the bytes written to the log and the readings left.\<close>

fun read_capture_loop ::
    "real \<Rightarrow> reading list \<Rightarrow> capture \<Rightarrow> bytes \<Rightarrow> (bytes \<times> int) result \<times> bytes \<times> reading list" where
  "read_capture_loop deadline [] c lg =
     (Inl (RuntimeError ''timed out while waiting for a complete SRAM capture''), lg, [])"
| "read_capture_loop deadline ((now, raw) # rs) c lg =
     (if \<not> now < deadline then
        (Inl (RuntimeError ''timed out while waiting for a complete SRAM capture''), lg, (now, raw) # rs)
      else if raw = [] then read_capture_loop deadline rs c lg
      else (case capture_line (line_of raw) c of
              Inl e \<Rightarrow> (Inl e, lg @ raw, rs)
            | Inr (c', None) \<Rightarrow> read_capture_loop deadline rs c' (lg @ raw)
            | Inr (c', Some r) \<Rightarrow> (Inr r, lg @ raw, rs)))"

definition read_capture :: "real \<Rightarrow> reading list \<Rightarrow> bytes \<Rightarrow> (bytes \<times> int) result \<times> bytes \<times> reading list" where
  "read_capture deadline rs lg = read_capture_loop deadline rs new_capture lg"

definition fill_command :: "nat \<Rightarrow> bytes" where
  "fill_command p = ascii_bytes (''FILL '' @ fmt_hex 2 p @ [CHR 0x0A])"

definition unverified :: "nat \<Rightarrow> py_error" where
  "unverified p = RuntimeError (''firmware could not verify pattern '' @ fmt_hex 2 p)"

fun arm_loop :: "real \<Rightarrow> nat \<Rightarrow> reading list \<Rightarrow> bytes \<Rightarrow> unit result \<times> bytes \<times> reading list" where
  "arm_loop deadline p [] lg =
     (Inl (RuntimeError (''timed out while arming pattern '' @ fmt_hex 2 p)), lg, [])"
| "arm_loop deadline p ((now, raw) # rs) lg =
     (if \<not> now < deadline then
        (Inl (RuntimeError (''timed out while arming pattern '' @ fmt_hex 2 p)), lg, (now, raw) # rs)
      else if raw = [] then arm_loop deadline p rs lg
      else if startswith (line_of raw) ''[SRAM_ARMED]'' then
        (let fs = line_fields (line_of raw)
         in if dict_get fs ''pattern'' \<noteq> Some (fmt_hex 2 p) \<or> dict_get fs ''verify'' \<noteq> Some ''ok''
            then (Inl (unverified p), lg @ raw, rs) else (Inr (), lg @ raw, rs))
      else arm_loop deadline p rs (lg @ raw))"

text \<open>\<open>arm_pattern\<close> also gives the bytes it sends.\<close>

definition arm_pattern :: "real \<Rightarrow> nat \<Rightarrow> reading list \<Rightarrow> bytes \<Rightarrow> bytes \<times> unit result \<times> bytes \<times> reading list" where
  "arm_pattern deadline p rs lg = (fill_command p, arm_loop deadline p rs lg)"

section \<open>The device\<close>

definition DATA_BYTES_PER_LINE :: nat where "DATA_BYTES_PER_LINE = 64"
definition COMMAND_BYTES :: nat where "COMMAND_BYTES = 32"

definition data_line :: "nat \<Rightarrow> bytes \<Rightarrow> string" where
  "data_line off bs = ''[SRAM_DATA]'' @ '' offset='' @ str_of_nat off @ '' hex='' @ hex_of bs"

fun dump_lines :: "nat \<Rightarrow> bytes \<Rightarrow> string list" where
  "dump_lines off [] = []"
| "dump_lines off (b # bs) =
     data_line off (take DATA_BYTES_PER_LINE (b # bs))
       # dump_lines (off + DATA_BYTES_PER_LINE) (drop (DATA_BYTES_PER_LINE - 1) bs)"

definition begin_line :: "nat \<Rightarrow> string" where
  "begin_line a = ''[SRAM_CAPTURE_BEGIN]'' @ '' bytes='' @ str_of_nat REGION_BYTES @ '' address=0x'' @ nat_text 16 a"

definition print_capture :: "nat \<Rightarrow> bytes \<Rightarrow> string list" where
  "print_capture a region = begin_line a # dump_lines 0 region @ [''[SRAM_CAPTURE_END]'']"

definition ready_line :: string where
  "ready_line = ''[SRAM_READY] command=FILL_HEX_BYTE''"

text \<open>The bytes of a printed line on the port; the console driver ends it with CR LF.\<close>

definition uart_line :: "string \<Rightarrow> bytes" where
  "uart_line l = ascii_bytes (l @ [CHR 0x0D, CHR 0x0A])"

definition hex_nibble :: "byte \<Rightarrow> nat option" where
  "hex_nibble b =
     (let n = unat b in
        if 48 \<le> n \<and> n \<le> 57 then Some (n - 48) else if 97 \<le> n \<and> n \<le> 102 then Some (n - 87)
        else if 65 \<le> n \<and> n \<le> 70 then Some (n - 55) else None)"

definition parse_hex_byte :: "byte \<Rightarrow> byte \<Rightarrow> byte option" where
  "parse_hex_byte a b =
     (case (hex_nibble a, hex_nibble b) of
        (Some h, Some l) \<Rightarrow> Some (byte_of_nat (16 * h + l)) | _ \<Rightarrow> None)"

text \<open>
  The device: the command bytes collected so far, the measured region and what was printed. The
  memory is physical: \<open>mem i b\<close> is what cell \<open>i\<close> holds after \<open>b\<close> was written to it.
\<close>

record sram_device =
  command :: bytes
  region :: bytes
  printed :: "string list"

definition fill_and_verify :: "(nat \<Rightarrow> byte \<Rightarrow> byte) \<Rightarrow> byte \<Rightarrow> sram_device \<Rightarrow> sram_device" where
  "fill_and_verify mem p d =
     (let r = map (\<lambda>i. mem i p) [0..<REGION_BYTES]; valid = list_all (\<lambda>b. b = p) r
      in d\<lparr>region := r, printed := printed d @
            [''[SRAM_ARMED]'' @ '' pattern='' @ hex_byte p @ '' verify='' @ (if valid then ''ok'' else ''failed'')]\<rparr>)"

definition run_command :: "(nat \<Rightarrow> byte \<Rightarrow> byte) \<Rightarrow> sram_device \<Rightarrow> sram_device" where
  "run_command mem d =
     (let cmd = command d;
          pat = (if length cmd = 7 \<and> take 5 cmd = ascii_bytes ''FILL '' then parse_hex_byte (cmd ! 5) (cmd ! 6) else None)
      in (case pat of
            Some p \<Rightarrow> fill_and_verify mem p d
          | None \<Rightarrow> if cmd \<noteq> [] then d\<lparr>printed := printed d @ [''[SRAM_ERROR] invalid_command'']\<rparr> else d))"

definition device_char :: "(nat \<Rightarrow> byte \<Rightarrow> byte) \<Rightarrow> byte \<Rightarrow> sram_device \<Rightarrow> sram_device" where
  "device_char mem c d =
     (if c = 13 \<or> c = 10 then (run_command mem d)\<lparr>command := []\<rparr>
      else if length (command d) + 1 < COMMAND_BYTES then d\<lparr>command := command d @ [c]\<rparr>
      else d\<lparr>command := []\<rparr>)"

definition device_input :: "(nat \<Rightarrow> byte \<Rightarrow> byte) \<Rightarrow> bytes \<Rightarrow> sram_device \<Rightarrow> sram_device" where
  "device_input mem cs d = fold (device_char mem) cs d"

section \<open>Lines and their fields\<close>

lemma all_digits_plain:
  assumes "all_digits b s"
  shows "list_all (\<lambda>c. \<not> is_space c) s" and "is_ascii s"
proof -
  have "digit_value b c \<noteq> None \<Longrightarrow> code c < 128" for c
    by (auto simp: digit_value_def Let_def split: if_splits)
  then show "is_ascii s" using assms by (auto simp: all_digits_def is_ascii_def list_all_iff)
  show "list_all (\<lambda>c. \<not> is_space c) s"
    using assms digit_not_space by (fastforce simp: all_digits_def list_all_iff)
qed

lemma is_token_pair:
  "is_token k \<Longrightarrow> list_all (\<lambda>c. \<not> is_space c) v \<Longrightarrow> is_token (k @ v)"
  by (simp add: is_token_def)

lemma line_of_uart:
  assumes "is_token t" and "list_all is_token ts" and "is_ascii t" and "list_all is_ascii ts"
  shows "line_of (uart_line (t @ concat (map (\<lambda>t. CHR '' '' # t) ts))) = t @ concat (map (\<lambda>t. CHR '' '' # t) ts)"
proof -
  let ?l = "t @ concat (map (\<lambda>t. CHR '' '' # t) ts)"
  have sp: "is_ascii [CHR '' '']" "is_ascii [CHR 0x0D, CHR 0x0A]" "list_all is_space [CHR 0x0D, CHR 0x0A]"
    by (simp_all add: is_ascii_def is_space_def code_def)
  have "is_ascii (concat (map (\<lambda>t. CHR '' '' # t) ts))"
    using assms(4) sp(1) by (induction ts) (simp_all add: is_ascii_def)
  then have "is_ascii (?l @ [CHR 0x0D, CHR 0x0A])"
    using assms(3) sp(2) by (simp add: is_ascii_def)
  then show ?thesis
    using strip_line [OF assms(1,2) sp(3)] by (simp add: line_of_def uart_line_def decode_ascii_ascii)
qed

lemma fields_of_line:
  assumes "is_token t" and "list_all is_token ts"
  shows "line_fields (t @ concat (map (\<lambda>t. CHR '' '' # t) ts)) = dict_update [] (List.map_filter (split1 CHR ''='') ts)"
  using split_ws_line [OF assms, of "[]"] by (simp add: line_fields_def)

lemma two_fields:
  assumes "is_token t" "is_ascii t" and "j \<noteq> k"
    and "is_token j" "is_ascii j" "CHR ''='' \<notin> set j" and "is_token k" "is_ascii k" "CHR ''='' \<notin> set k"
    and "list_all (\<lambda>c. \<not> is_space c) v" "is_ascii v" "list_all (\<lambda>c. \<not> is_space c) w" "is_ascii w"
  shows "line_of (uart_line (t @ '' '' @ j @ ''='' @ v @ '' '' @ k @ ''='' @ w))
      = t @ '' '' @ j @ ''='' @ v @ '' '' @ k @ ''='' @ w"
    and "dict_get (line_fields (t @ '' '' @ j @ ''='' @ v @ '' '' @ k @ ''='' @ w)) j = Some v"
    and "dict_get (line_fields (t @ '' '' @ j @ ''='' @ v @ '' '' @ k @ ''='' @ w)) k = Some w"
proof -
  let ?ts = "[j @ CHR ''='' # v, k @ CHR ''='' # w]"
  have eq: "\<not> is_space CHR ''=''" "is_ascii [CHR ''='']" by (simp_all add: is_space_def is_ascii_def code_def)
  have ts: "list_all is_token ?ts" "list_all is_ascii ?ts"
    using assms eq by (simp_all add: is_token_def is_ascii_def)
  have l: "t @ '' '' @ j @ ''='' @ v @ '' '' @ k @ ''='' @ w = t @ concat (map (\<lambda>t. CHR '' '' # t) ?ts)" by simp
  show "line_of (uart_line (t @ '' '' @ j @ ''='' @ v @ '' '' @ k @ ''='' @ w))
      = t @ '' '' @ j @ ''='' @ v @ '' '' @ k @ ''='' @ w"
    unfolding l by (rule line_of_uart [OF assms(1) ts(1) assms(2) ts(2)])
  have "line_fields (t @ '' '' @ j @ ''='' @ v @ '' '' @ k @ ''='' @ w) = dict_update [] [(j, v), (k, w)]"
    unfolding l fields_of_line [OF assms(1) ts(1)] using assms(6,9) by (simp add: List.map_filter_simps split1_append)
  then show "dict_get (line_fields (t @ '' '' @ j @ ''='' @ v @ '' '' @ k @ ''='' @ w)) j = Some v"
    and "dict_get (line_fields (t @ '' '' @ j @ ''='' @ v @ '' '' @ k @ ''='' @ w)) k = Some w"
    using assms(3) by (simp_all add: dict_update_def)
qed

lemma plain_words:
  "is_token ''[SRAM_CAPTURE_BEGIN]''" "is_ascii ''[SRAM_CAPTURE_BEGIN]''" "is_token ''[SRAM_DATA]''"
  "is_ascii ''[SRAM_DATA]''" "is_token ''[SRAM_ARMED]''" "is_ascii ''[SRAM_ARMED]''"
  "is_token ''bytes''" "is_ascii ''bytes''" "is_token ''address''" "is_ascii ''address''"
  "is_token ''offset''" "is_ascii ''offset''" "is_token ''hex''" "is_ascii ''hex''"
  "is_token ''pattern''" "is_ascii ''pattern''" "is_token ''verify''" "is_ascii ''verify''"
  by (simp_all add: is_token_def is_ascii_def is_space_def code_def)

lemma str_of_nat_plain: "list_all (\<lambda>c. \<not> is_space c) (str_of_nat n)" "is_ascii (str_of_nat n)"
  using nat_text_digits [of 10 n] all_digits_plain by (auto simp: str_of_nat_def)

lemma data_line_read:
  "line_of (uart_line (data_line off bs)) = data_line off bs"
  "dict_get (line_fields (data_line off bs)) ''offset'' = Some (str_of_nat off)"
  "dict_get (line_fields (data_line off bs)) ''hex'' = Some (hex_of bs)"
  using two_fields [of "''[SRAM_DATA]''" "''offset''" "''hex''" "str_of_nat off" "hex_of bs"]
    all_digits_plain [OF hex_of_digits] str_of_nat_plain
  by (simp_all add: data_line_def plain_words)

lemma begin_line_read:
  "line_of (uart_line (begin_line a)) = begin_line a"
  "dict_get (line_fields (begin_line a)) ''bytes'' = Some (str_of_nat REGION_BYTES)"
  "dict_get (line_fields (begin_line a)) ''address'' = Some (''0x'' @ nat_text 16 a)"
proof -
  have h: "list_all (\<lambda>c. \<not> is_space c) (''0x'' @ nat_text 16 a)" "is_ascii (''0x'' @ nat_text 16 a)"
    using all_digits_plain [of 16 "nat_text 16 a"] nat_text_digits [of 16 a]
    by (auto simp: is_space_def is_ascii_def code_def)
  show "line_of (uart_line (begin_line a)) = begin_line a"
    "dict_get (line_fields (begin_line a)) ''bytes'' = Some (str_of_nat REGION_BYTES)"
    "dict_get (line_fields (begin_line a)) ''address'' = Some (''0x'' @ nat_text 16 a)"
    using two_fields [of "''[SRAM_CAPTURE_BEGIN]''" "''bytes''" "''address''" "str_of_nat REGION_BYTES" "''0x'' @ nat_text 16 a"]
      h str_of_nat_plain
    by (simp_all add: begin_line_def plain_words)
qed

lemma py_int_hex [simp]: "py_int_base 16 (CHR ''0'' # CHR ''x'' # nat_text 16 a) = Inr (int a)"
proof -
  have d: "all_digits 16 (nat_text 16 a)" by (rule nat_text_digits) simp_all
  have sp: "\<not> is_space CHR ''0''" "\<not> is_ascii_space CHR ''0''" by (simp_all add: is_space_def is_ascii_space_def code_def)
  have l: "last (nat_text 16 a) \<in> set (nat_text 16 a)" by simp
  then have "\<not> is_space (last (nat_text 16 a))" "\<not> is_ascii_space (last (nat_text 16 a))"
    using d digit_not_space [of 16 "last (nat_text 16 a)"] unfolding all_digits_def list_all_iff by fastforce+
  then have "int_strip (CHR ''0'' # CHR ''x'' # nat_text 16 a) = CHR ''0'' # CHR ''x'' # nat_text 16 a"
    unfolding int_strip_def Let_def using sp by (intro strip_ends) auto
  moreover have "drop_one_underscore (nat_text 16 a) = nat_text 16 a"
    using d by (cases "nat_text 16 a") (auto simp: drop_one_underscore_def all_digits_def)
  ultimately show ?thesis
    by (simp add: py_int_base_def split_sign_def read_base_def)
qed

section \<open>A capture as a run over lines\<close>

text \<open>The specification of the reading loop: no clock, no port, only the lines in order.\<close>

fun capture_run :: "string list \<Rightarrow> capture \<Rightarrow> (capture \<times> (bytes \<times> int) option) result" where
  "capture_run [] c = Inr (c, None)"
| "capture_run (l # ls) c =
     rbind (capture_line l c) (\<lambda>(c', r). case r of Some x \<Rightarrow> Inr (c', r) | None \<Rightarrow> capture_run ls c')"

definition run_result :: "(capture \<times> (bytes \<times> int) option) result \<Rightarrow> (bytes \<times> int) result" where
  "run_result r =
     (case r of Inl e \<Rightarrow> Inl e
      | Inr (c, None) \<Rightarrow> Inl (RuntimeError ''timed out while waiting for a complete SRAM capture'')
      | Inr (c, Some x) \<Rightarrow> Inr x)"

definition lines_read :: "reading list \<Rightarrow> string list" where
  "lines_read rs = map line_of (filter (\<lambda>raw. raw \<noteq> []) (map snd rs))"

lemma lines_read_simps [simp]:
  "lines_read [] = []"
  "lines_read ((t, raw) # rs) = (if raw = [] then lines_read rs else line_of raw # lines_read rs)"
  by (simp_all add: lines_read_def)

lemma loop_refines_run:
  "list_all (\<lambda>r. fst r < deadline) rs \<Longrightarrow>
     fst (read_capture_loop deadline rs c lg) = run_result (capture_run (lines_read rs) c)"
  by (induction deadline rs c lg rule: read_capture_loop.induct)
    (auto simp: run_result_def split: sum.splits option.splits)

text \<open>Whatever happens, every byte read is in the log, in order.\<close>

definition logged :: "reading list \<Rightarrow> bytes \<Rightarrow> 'r \<times> bytes \<times> reading list \<Rightarrow> bool" where
  "logged rs lg res \<longleftrightarrow> (\<exists>used. rs = used @ snd (snd res) \<and> fst (snd res) = lg @ concat (map snd used))"

lemma logged_intros:
  "logged rs lg (r, lg, rs)" "logged ((t, raw) # rs) lg (r, lg @ raw, rs)"
  "logged rs (lg @ raw) res \<Longrightarrow> logged ((t, raw) # rs) lg res"
proof -
  show "logged rs lg (r, lg, rs)" by (auto simp: logged_def intro: exI [of _ "[]"])
  show "logged ((t, raw) # rs) lg (r, lg @ raw, rs)" by (auto simp: logged_def intro: exI [of _ "[(t, raw)]"])
  show "logged rs (lg @ raw) res \<Longrightarrow> logged ((t, raw) # rs) lg res"
    unfolding logged_def by (elim exE, rule_tac x = "(t, raw) # used" in exI) simp
qed

lemma loop_logs: "logged rs lg (read_capture_loop deadline rs c lg)"
proof (induction deadline rs c lg rule: read_capture_loop.induct)
  case (2 deadline now raw rs c lg)
  consider (late) "\<not> now < deadline" | (silent) "now < deadline" "raw = []"
    | (line) "now < deadline" "raw \<noteq> []" by blast
  then show ?case
  proof cases
    case silent
    then show ?thesis using 2(1) logged_intros(3) [of rs lg raw _ now] by simp
  next
    case line
    then show ?thesis using 2(2)
      by (auto intro: logged_intros(2,3) split: sum.splits option.splits)
  qed (simp add: logged_intros(1))
qed (simp add: logged_intros(1))

lemma capture_run_append:
  "capture_run (ls @ ms) c =
     rbind (capture_run ls c) (\<lambda>(c', r). case r of Some x \<Rightarrow> Inr (c', r) | None \<Rightarrow> capture_run ms c')"
proof (induction ls arbitrary: c)
  case (Cons l ls)
  then show ?case by (cases "capture_line l c") (auto split: option.splits)
qed simp

lemma store_slice_append:
  assumes "off + length b1 \<le> length buf"
  shows "store_slice (off + length b1) b2 (store_slice off b1 buf) = store_slice off (b1 @ b2) buf"
  using assms by (simp add: store_slice_def) (simp only: ac_simps)

lemma length_store_slice: "off + length b \<le> length buf \<Longrightarrow> length (store_slice off b buf) = length buf"
  by (simp add: store_slice_def)

definition stored :: "nat \<Rightarrow> bytes \<Rightarrow> capture \<Rightarrow> capture" where
  "stored off b c = c\<lparr>captured := store_slice off b (captured c), received := received c \<union> {off..<off + length b}\<rparr>"

lemma capture_data_line:
  assumes "began c" and "off + length b \<le> REGION_BYTES"
  shows "capture_line (data_line off b) c = Inr (stored off b c, None)"
proof -
  have "startswith (data_line off b) ''[SRAM_DATA]''" "\<not> startswith (data_line off b) ''[SRAM_CAPTURE_BEGIN]''"
    by (simp_all add: data_line_def startswith_Cons)
  moreover have "capture_data (line_fields (data_line off b)) c = Inr (stored off b c)"
    using assms(2) data_line_read(2,3) [of off b]
    by (simp add: capture_data_def dict_item_def stored_def)
  ultimately show ?thesis using assms(1) by (simp add: capture_line_def)
qed

lemma stored_stored:
  "off + length b1 \<le> length (captured c) \<Longrightarrow>
     stored (off + length b1) b2 (stored off b1 c) = stored off (b1 @ b2) c"
proof -
  have "{off..<off + length b1} \<union> {off + length b1..<off + length b1 + length b2} = {off..<off + (length b1 + length b2)}"
    by auto
  then show "off + length b1 \<le> length (captured c) \<Longrightarrow> ?thesis"
    by (simp add: stored_def store_slice_append Un_assoc)
qed

lemma stored_Nil: "stored off [] c = c"
  by (simp add: stored_def store_slice_def)

lemma capture_dump_lines:
  assumes "began c" and "length (captured c) = REGION_BYTES" and "off + length bs \<le> REGION_BYTES"
  shows "capture_run (dump_lines off bs @ ls) c = capture_run ls (stored off bs c)"
  using assms
proof (induction off bs arbitrary: c rule: dump_lines.induct)
  case (1 off)
  then show ?case by (simp add: stored_Nil)
next
  case (2 off b bs)
  let ?h = "take DATA_BYTES_PER_LINE (b # bs)" and ?t = "drop (DATA_BYTES_PER_LINE - 1) bs"
  have all: "b # bs = ?h @ ?t" by (simp add: DATA_BYTES_PER_LINE_def)
  have off: "?t = [] \<or> off + DATA_BYTES_PER_LINE = off + length ?h" by (auto simp: DATA_BYTES_PER_LINE_def)
  have le: "off + length ?h \<le> REGION_BYTES" "off + length ?h + length ?t \<le> REGION_BYTES"
    using "2.prems"(3) arg_cong [OF all, of length] by (simp_all only: length_append)
  have "capture_run (dump_lines off (b # bs) @ ls) c
      = capture_run (dump_lines (off + DATA_BYTES_PER_LINE) ?t @ ls) (stored off ?h c)"
    using capture_data_line [OF "2.prems"(1) le(1)] by simp
  also have "\<dots> = capture_run ls (stored (off + length ?h) ?t (stored off ?h c))"
  proof (cases "?t = []")
    case True
    then show ?thesis by (simp add: stored_Nil)
  next
    case False
    then have o: "off + DATA_BYTES_PER_LINE = off + length ?h" using off by blast
    show ?thesis unfolding o
      using "2.prems" le by (intro "2.IH" [unfolded o]) (simp_all add: stored_def length_store_slice)
  qed
  also have "stored (off + length ?h) ?t (stored off ?h c) = stored off (b # bs) c"
    using "2.prems"(2) le(1) by (subst stored_stored) (simp_all only: flip: all)
  finally show ?case .
qed

lemma capture_line_length:
  "capture_line l c = Inr (c', r) \<Longrightarrow> length (captured c) = REGION_BYTES \<Longrightarrow> length (captured c') = REGION_BYTES"
  by (auto simp: capture_line_def begin_capture_def capture_data_def result_simps length_store_slice
      split: if_splits option.splits)

lemma capture_run_length:
  "capture_run ls c = Inr (c', r) \<Longrightarrow> length (captured c) = REGION_BYTES \<Longrightarrow> length (captured c') = REGION_BYTES"
  by (induction ls arbitrary: c) (auto simp: result_simps dest: capture_line_length split: option.splits)

lemma capture_begin_line:
  "capture_line (begin_line a) c
    = Inr (c\<lparr>address := Some (int a), received := {}, began := True, ended := False\<rparr>, None)"
proof -
  have "startswith (begin_line a) ''[SRAM_CAPTURE_BEGIN]''" by (simp add: begin_line_def startswith_Cons)
  moreover have "begin_capture (line_fields (begin_line a)) c
      = Inr (c\<lparr>address := Some (int a), received := {}, began := True, ended := False\<rparr>)"
    using begin_line_read(2,3) [of a] by (simp add: begin_capture_def dict_get_or_def dict_item_def)
  ultimately show ?thesis by (simp add: capture_line_def)
qed

lemma capture_end_line:
  "began c \<Longrightarrow> capture_line ''[SRAM_CAPTURE_END]'' c = Inr (c\<lparr>ended := True\<rparr>, None)"
  by (simp add: capture_line_def startswith_Cons)

lemma capture_ready_line:
  "ended c \<Longrightarrow> address c = Some a \<Longrightarrow> card (received c) = REGION_BYTES \<Longrightarrow>
     capture_line ready_line c = Inr (c, Some (captured c, a))"
  by (simp add: capture_line_def ready_line_def startswith_Cons)

lemma capture_run_print:
  assumes "length (captured c) = REGION_BYTES" and "length mem = REGION_BYTES"
  shows "\<exists>c'. capture_run (print_capture a mem) c = Inr (c', None)
    \<and> capture_line ready_line c' = Inr (c', Some (mem, int a))"
proof -
  let ?b = "c\<lparr>address := Some (int a), received := {}, began := True, ended := False\<rparr>"
  let ?d = "stored 0 mem ?b\<lparr>ended := True\<rparr>"
  have cap: "captured ?d = mem"
    using assms by (simp add: stored_def store_slice_def)
  have "capture_run (print_capture a mem) c = capture_run (dump_lines 0 mem @ [''[SRAM_CAPTURE_END]'']) ?b"
    by (simp add: print_capture_def capture_begin_line)
  also have "\<dots> = capture_run [''[SRAM_CAPTURE_END]''] (stored 0 mem ?b)"
    using assms by (intro capture_dump_lines) simp_all
  also have "\<dots> = Inr (?d, None)"
    using capture_end_line [of "stored 0 mem ?b"] by (simp add: stored_def)
  finally have "capture_run (print_capture a mem) c = Inr (?d, None)" .
  moreover have "capture_line ready_line ?d = Inr (?d, Some (captured ?d, int a))"
    using assms(2) by (intro capture_ready_line) (simp_all add: stored_def)
  ultimately show ?thesis unfolding cap by blast
qed

lemma capture_run_dump:
  assumes "length (captured c) = REGION_BYTES" and "length mem = REGION_BYTES"
  shows "\<exists>c'. capture_run (print_capture a mem @ [ready_line]) c = Inr (c', Some (mem, int a))"
  using capture_run_print [OF assms, of a] by (auto simp: capture_run_append)

text \<open>The bytes of the printed dump, line by line.\<close>

definition dump_bytes :: "nat \<Rightarrow> bytes \<Rightarrow> bytes list" where
  "dump_bytes a mem = map uart_line (print_capture a mem @ [ready_line])"

lemma line_of_dump: "map line_of (dump_bytes a mem) = print_capture a mem @ [ready_line]"
proof -
  have tail: "line_of (uart_line ''[SRAM_CAPTURE_END]'') = ''[SRAM_CAPTURE_END]''"
    using line_of_uart [of "''[SRAM_CAPTURE_END]''" "[]"]
    by (simp add: is_token_def is_space_def is_ascii_def code_def)
  have rdy: "line_of (uart_line ready_line) = ready_line"
    using line_of_uart [of "''[SRAM_READY]''" "[''command=FILL_HEX_BYTE'']"]
    by (simp add: ready_line_def is_token_def is_space_def is_ascii_def code_def)
  have "map (line_of \<circ> uart_line) (dump_lines off bs) = dump_lines off bs" for off bs
    by (induction off bs rule: dump_lines.induct) (simp_all add: data_line_read)
  then show ?thesis
    by (simp add: dump_bytes_def print_capture_def begin_line_read tail rdy)
qed

lemma uart_line_nonempty: "uart_line l \<noteq> []"
  by (simp add: uart_line_def ascii_bytes_def)

text \<open>
  The lines the reading loop acts on; a line that starts with none of these words passes by without
  effect wherever it appears.
\<close>

definition capture_word :: "string \<Rightarrow> bool" where
  "capture_word l \<longleftrightarrow> startswith l ''[SRAM_CAPTURE_BEGIN]'' \<or> startswith l ''[SRAM_DATA]''
     \<or> startswith l ''[SRAM_CAPTURE_END]'' \<or> startswith l ''[SRAM_READY]''"

lemma capture_line_other: "\<not> capture_word l \<Longrightarrow> capture_line l c = Inr (c, None)"
  by (auto simp: capture_word_def capture_line_def startswith_Cons)

lemma capture_run_words: "capture_run (filter capture_word ls) c = capture_run ls c"
proof (induction ls arbitrary: c)
  case (Cons l ls)
  have "(\<lambda>(c', r). case r of None \<Rightarrow> capture_run (filter capture_word ls) c' | Some x \<Rightarrow> Inr (c', r))
      = (\<lambda>(c', r). case r of None \<Rightarrow> capture_run ls c' | Some x \<Rightarrow> Inr (c', r))"
    using Cons.IH by (simp add: fun_eq_iff split: option.splits)
  then show ?case using Cons.IH by (simp add: capture_line_other)
qed simp

text \<open>
  C8: The memory the firmware prints is what the host reads. Before the dump the port may carry any
  output that neither completes nor breaks a capture, the dump itself may be interleaved with any
  lines that start with none of the four words of a capture, and after it anything may follow.
  If the lines arrive before the deadline, with read timeouts in between or not, \<open>read_capture\<close> returns
  precisely the bytes the firmware captured at boot and the address of the region, and what it
  consumed of the port is in the log unchanged.
\<close>

theorem capture_reads_dump:
  assumes "length mem = REGION_BYTES" and "list_all (\<lambda>r. fst r < deadline) rs"
    and "filter (\<lambda>raw. raw \<noteq> []) (map snd rs) = noise @ mixed @ later"
    and "capture_run (map line_of noise) new_capture = Inr (c, None)"
    and "filter (\<lambda>raw. capture_word (line_of raw)) mixed = dump_bytes a mem"
  shows "fst (read_capture deadline rs lg) = Inr (mem, int a)
    \<and> logged rs lg (read_capture deadline rs lg)"
proof -
  have "length (captured c) = REGION_BYTES"
    using capture_run_length [OF assms(4)] by (simp add: new_capture_def)
  from capture_run_dump [OF this assms(1)] obtain c'
    where c': "capture_run (print_capture a mem @ [ready_line]) c = Inr (c', Some (mem, int a))" by blast
  have "filter capture_word (map line_of mixed) = map line_of (dump_bytes a mem)"
    by (simp add: filter_map comp_def assms(5))
  then have "capture_run (map line_of mixed) c = Inr (c', Some (mem, int a))"
    using capture_run_words [of "map line_of mixed" c] c' by (simp add: line_of_dump)
  then have "capture_run (lines_read rs) new_capture = Inr (c', Some (mem, int a))"
    unfolding lines_read_def assms(3) by (simp add: capture_run_append assms(4))
  then show ?thesis
    using loop_refines_run [OF assms(2)] loop_logs by (simp add: read_capture_def run_result_def)
qed

text \<open>A dump among other lines: one before it, one after its first line and one after its end.\<close>

definition mixed_dump :: "bytes list" where
  "mixed_dump = hd (dump_bytes 64 (replicate 4096 170)) # uart_line ''[00:00] usb: resumed''
     # tl (dump_bytes 64 (replicate 4096 170))"

theorem capture_reads_dump_witness:
  "fst (read_capture 20 (map (\<lambda>raw. (1, raw)) ([uart_line ''*** Booting ***''] @ mixed_dump
       @ [uart_line ''[SRAM_DATA] torn''])) []) = Inr (replicate 4096 170, 64)"
proof -
  let ?mem = "replicate 4096 170 :: bytes"
  let ?rs = "map (\<lambda>raw. (1 :: real, raw)) ([uart_line ''*** Booting ***''] @ mixed_dump @ [uart_line ''[SRAM_DATA] torn''])"
  have o: "\<not> capture_word (line_of (uart_line ''*** Booting ***''))"
    "\<not> capture_word (line_of (uart_line ''[00:00] usb: resumed''))" by code_simp+
  have ne: "\<forall>raw \<in> set (dump_bytes 64 ?mem). raw \<noteq> []"
    by (auto simp: dump_bytes_def uart_line_nonempty)
  have d: "dump_bytes 64 ?mem \<noteq> []" by (simp add: dump_bytes_def)
  have "\<forall>l \<in> set (dump_lines off bs). capture_word l" for off bs
    by (induction off bs rule: dump_lines.induct) (simp_all add: capture_word_def data_line_def startswith_Cons)
  then have "\<forall>l \<in> set (print_capture 64 ?mem @ [ready_line]). capture_word l"
    by (auto simp: print_capture_def capture_word_def begin_line_def ready_line_def startswith_Cons)
  then have w: "\<forall>raw \<in> set (dump_bytes 64 ?mem). capture_word (line_of raw)"
    unfolding line_of_dump [symmetric] by auto
  have "filter (\<lambda>raw. raw \<noteq> []) (map snd ?rs)
      = [uart_line ''*** Booting ***''] @ mixed_dump @ [uart_line ''[SRAM_DATA] torn'']"
    using ne d list.set_sel [OF d] by (auto simp: mixed_dump_def uart_line_nonempty comp_def filter_id_conv)
  moreover have "filter (\<lambda>raw. capture_word (line_of raw)) mixed_dump = dump_bytes 64 ?mem"
  proof -
    have "filter (\<lambda>raw. capture_word (line_of raw)) (dump_bytes 64 ?mem) = dump_bytes 64 ?mem"
      using w by (simp add: filter_id_conv)
    then show ?thesis
      using d o w by (cases "dump_bytes 64 ?mem") (auto simp: mixed_dump_def)
  qed
  moreover have "capture_run (map line_of [uart_line ''*** Booting ***'']) new_capture = Inr (new_capture, None)"
    using o by (simp add: capture_line_other)
  ultimately show ?thesis
    using capture_reads_dump [of ?mem 20 ?rs "[uart_line ''*** Booting ***'']" mixed_dump
        "[uart_line ''[SRAM_DATA] torn'']" new_capture 64 "[]"]
    by (simp add: REGION_BYTES_def list_all_iff)
qed

section \<open>No byte of an earlier capture is returned\<close>

text \<open>Two states that differ at most in bytes not received yet.\<close>

definition same_received :: "capture \<Rightarrow> capture \<Rightarrow> bool" where
  "same_received c d \<longleftrightarrow>
     received c = received d \<and> address c = address d \<and> began c = began d \<and> ended c = ended d
     \<and> length (captured c) = REGION_BYTES \<and> length (captured d) = REGION_BYTES \<and> received c \<subseteq> {0..<REGION_BYTES}
     \<and> (\<forall>i \<in> received c. captured c ! i = captured d ! i)"

lemma store_slice_nth:
  "off + length b \<le> length buf \<Longrightarrow> i < length buf \<Longrightarrow>
     store_slice off b buf ! i = (if off \<le> i \<and> i < off + length b then b ! (i - off) else buf ! i)"
  by (auto simp: store_slice_def nth_append)

lemma same_received_data:
  assumes "same_received c d" and "capture_data fs c = Inr c'"
  shows "\<exists>d'. capture_data fs d = Inr d' \<and> same_received c' d'"
proof -
  obtain os off h b where f: "dict_get fs ''offset'' = Some os" "py_int os = Inr off"
    "dict_get fs ''hex'' = Some h" "fromhex h = Inr b"
    and le: "0 \<le> off" "off + int (length b) \<le> int REGION_BYTES" and c': "c' = stored (nat off) b c"
    using assms(2) by (auto simp: capture_data_def result_simps stored_def split: if_splits)
  have le': "nat off + length b \<le> REGION_BYTES" using le by linarith
  have "same_received (stored (nat off) b c) (stored (nat off) b d)"
    using assms(1) le' by (auto simp: same_received_def stored_def store_slice_nth length_store_slice)
  then show ?thesis
    using f le c' by (simp add: capture_data_def dict_item_def stored_def)
qed

lemma capture_data_error: "capture_data fs c = Inl e \<Longrightarrow> capture_data fs d = Inl e"
  by (auto simp: capture_data_def result_simps split: if_splits)

lemma begin_capture_uniform:
  "(\<exists>e. \<forall>c. begin_capture fs c = Inl e) \<or>
   (\<exists>a. \<forall>c. begin_capture fs c = Inr (c\<lparr>address := Some a, received := {}, began := True, ended := False\<rparr>))"
proof (cases "py_int (dict_get_or fs ''bytes'' ''0'')")
  case (Inr n)
  then show ?thesis
  proof (cases "dict_item fs ''address''")
    case (Inr a)
    then show ?thesis
      using \<open>py_int _ = Inr n\<close> unfolding begin_capture_def
      by (cases "n = int REGION_BYTES"; cases "py_int_base 16 a") (auto simp: dict_item_def)
  qed (cases "n = int REGION_BYTES", auto simp: begin_capture_def dict_item_def \<open>py_int _ = Inr n\<close>)
qed (auto simp: begin_capture_def)

lemma same_received_line:
  assumes "same_received c d"
  shows "case capture_line l c of
      Inl e \<Rightarrow> capture_line l d = Inl e
    | Inr (c', r) \<Rightarrow> \<exists>d'. capture_line l d = Inr (d', r) \<and> same_received c' d'"
proof -
  have flags: "received c = received d" "address c = address d" "began c = began d" "ended c = ended d"
    using assms by (simp_all add: same_received_def)
  have full: "captured c = captured d" if "card (received c) = REGION_BYTES"
  proof -
    have "received c = {0..<REGION_BYTES}"
      using assms that by (intro card_subset_eq) (auto simp: same_received_def)
    then show ?thesis using assms by (intro nth_equalityI) (auto simp: same_received_def)
  qed
  consider (start) "startswith l ''[SRAM_CAPTURE_BEGIN]''"
    | (data) "\<not> startswith l ''[SRAM_CAPTURE_BEGIN]''" "began c" "startswith l ''[SRAM_DATA]''"
    | (other) "\<not> startswith l ''[SRAM_CAPTURE_BEGIN]''" "\<not> (began c \<and> startswith l ''[SRAM_DATA]'')" by blast
  then show ?thesis
  proof cases
    case start
    from begin_capture_uniform [of "line_fields l"] show ?thesis
    proof (elim disjE exE)
      fix e assume "\<forall>c. begin_capture (line_fields l) c = Inl e"
      with start show ?thesis by (simp add: capture_line_def)
    next
      fix a assume "\<forall>c. begin_capture (line_fields l) c
        = Inr (c\<lparr>address := Some a, received := {}, began := True, ended := False\<rparr>)"
      with start assms show ?thesis by (simp add: capture_line_def same_received_def)
    qed
  next
    case data
    then have run: "capture_line l c = rbind (capture_data (line_fields l) c) (\<lambda>c'. Inr (c', None))"
      "capture_line l d = rbind (capture_data (line_fields l) d) (\<lambda>c'. Inr (c', None))"
      using flags by (simp_all add: capture_line_def)
    show ?thesis
    proof (cases "capture_data (line_fields l) c")
      case (Inl e)
      then show ?thesis using capture_data_error [of "line_fields l" c e d] by (simp add: run)
    next
      case (Inr c')
      with same_received_data [OF assms] obtain d' where "capture_data (line_fields l) d = Inr d'" "same_received c' d'"
        by blast
      with Inr show ?thesis by (simp add: run)
    qed
  next
    case other
    then show ?thesis using flags full assms
      by (auto simp: capture_line_def same_received_def split: option.splits)
  qed
qed

lemma same_received_loop:
  "same_received c d \<Longrightarrow> read_capture_loop deadline rs c lg = read_capture_loop deadline rs d lg"
proof (induction deadline rs c lg arbitrary: d rule: read_capture_loop.induct)
  case (2 deadline now raw rs c lg)
  show ?case
    using same_received_line [OF "2.prems", of "line_of raw"] 2
    by (auto split: sum.splits option.splits)
qed simp

text \<open>
  Nothing of the receive buffer's earlier contents is ever returned. From any state in which
  no byte counts as received, the whole outcome of the reading loop (result, log and what is left
  on the port) is the same whatever the buffer holds, for every sequence of lines: stale,
  repeated, truncated or interleaved captures included.
\<close>

theorem capture_ignores_stale_bytes:
  assumes "received c = {}" and "length (captured c) = REGION_BYTES" and "length buf = REGION_BYTES"
  shows "read_capture_loop deadline rs (c\<lparr>captured := buf\<rparr>) lg = read_capture_loop deadline rs c lg"
  using assms by (intro same_received_loop) (simp add: same_received_def)

theorem capture_ignores_stale_bytes_witness:
  "read_capture_loop 1 [] (new_capture\<lparr>captured := replicate 4096 255\<rparr>) [] = read_capture_loop 1 [] new_capture []"
  by (rule capture_ignores_stale_bytes) (simp_all add: new_capture_def REGION_BYTES_def)

section \<open>Arming a pattern\<close>

lemma char_of_48: "char_of (48 :: nat) = CHR ''0''"
  by (simp add: char_of_def bit_0)

lemma fmt_hex_byte: "p < 256 \<Longrightarrow> fmt_hex 2 p = hex_byte (byte_of_nat p)"
  by (simp add: fmt_hex_def zpad_def hex_byte_def nat_text.simps [of 16 p] nat_text.simps [of 16 "p div 16"])
    (auto simp: numeral_2_eq_2 digit_char_def char_of_48)

lemma hex_nibble_digit: "v < 16 \<Longrightarrow> hex_nibble (byte_of_nat (code (digit_char v))) = Some v"
  by (simp add: hex_nibble_def)

lemma parse_hex_byte_digits:
  "parse_hex_byte (byte_of_nat (code (digit_char (unat b div 16)))) (byte_of_nat (code (digit_char (unat b mod 16)))) = Some b"
proof -
  have "unat b div 16 < 16" using unat_byte_lt [of b] by (simp add: div_less_iff_less_mult)
  then show ?thesis by (simp add: parse_hex_byte_def hex_nibble_digit del: code_digit_char)
qed

lemma device_collects:
  assumes "list_all (\<lambda>c. c \<noteq> 13 \<and> c \<noteq> 10) cs" and "length (command d) + length cs < COMMAND_BYTES"
  shows "device_input mem cs d = d\<lparr>command := command d @ cs\<rparr>"
  using assms
proof (induction cs arbitrary: d)
  case (Cons c cs)
  then show ?case by (simp add: device_input_def device_char_def)
qed (simp add: device_input_def)

definition filled :: "(nat \<Rightarrow> byte \<Rightarrow> byte) \<Rightarrow> nat \<Rightarrow> bytes" where
  "filled mem p = map (\<lambda>i. mem i (byte_of_nat p)) [0..<REGION_BYTES]"

definition armed_line :: "nat \<Rightarrow> bool \<Rightarrow> string" where
  "armed_line p valid =
     ''[SRAM_ARMED]'' @ '' pattern='' @ fmt_hex 2 p @ '' verify='' @ (if valid then ''ok'' else ''failed'')"

lemma device_fill:
  assumes "p < 256" and "command d = []"
  shows "device_input mem (fill_command p) d
    = d\<lparr>region := filled mem p,
        printed := printed d @ [armed_line p (list_all (\<lambda>b. b = byte_of_nat p) (filled mem p))]\<rparr>"
proof -
  let ?b = "byte_of_nat p"
  let ?cs = "ascii_bytes (''FILL '' @ hex_byte ?b)"
  have split: "fill_command p = ?cs @ [10]"
    using assms(1) by (simp add: fill_command_def fmt_hex_byte ascii_bytes_def code_def byte_of_nat_def)
  have no_nl: "byte_of_nat (code (digit_char v)) \<noteq> 13 \<and> byte_of_nat (code (digit_char v)) \<noteq> 10" if "v < 16" for v
  proof -
    have "unat (byte_of_nat (code (digit_char v))) > 13" using that by simp
    then have "unat (byte_of_nat (code (digit_char v))) \<noteq> unat (13 :: byte)"
      "unat (byte_of_nat (code (digit_char v))) \<noteq> unat (10 :: byte)" by simp_all
    then show ?thesis by metis
  qed
  have nibbles: "unat ?b div 16 < 16" "unat ?b mod 16 < 16"
    using unat_byte_lt [of ?b] by (simp_all add: div_less_iff_less_mult)
  have lit: "list_all (\<lambda>c. c \<noteq> 13 \<and> c \<noteq> 10) (ascii_bytes ''FILL '')"
    by (simp add: ascii_bytes_def code_def byte_of_nat_def)
  have cs: "?cs = ascii_bytes ''FILL ''
      @ [byte_of_nat (code (digit_char (unat ?b div 16))), byte_of_nat (code (digit_char (unat ?b mod 16)))]"
    by (simp add: ascii_bytes_def hex_byte_def)
  have ok: "list_all (\<lambda>c. c \<noteq> 13 \<and> c \<noteq> 10) ?cs" "length ?cs = 7"
    unfolding cs using lit no_nl [OF nibbles(1)] no_nl [OF nibbles(2)] by (simp_all add: ascii_bytes_def)
  have "device_input mem ?cs d = d\<lparr>command := ?cs\<rparr>"
    using device_collects [OF ok(1), of d mem] ok(2) assms(2) by (simp add: COMMAND_BYTES_def)
  then have "device_input mem (fill_command p) d = device_char mem 10 (d\<lparr>command := ?cs\<rparr>)"
    unfolding split by (simp add: device_input_def)
  also have "\<dots> = (run_command mem (d\<lparr>command := ?cs\<rparr>))\<lparr>command := []\<rparr>"
    by (simp add: device_char_def)
  also have "run_command mem (d\<lparr>command := ?cs\<rparr>) = fill_and_verify mem ?b (d\<lparr>command := ?cs\<rparr>)"
    using ok(2) parse_hex_byte_digits [of ?b] unfolding cs
    by (simp add: run_command_def nth_append)
  finally show ?thesis
    using assms by (simp add: fill_and_verify_def filled_def armed_line_def fmt_hex_byte Let_def)
qed

lemma arm_loop_skips:
  assumes "list_all (\<lambda>r. fst r < deadline) rs"
    and "filter (\<lambda>raw. raw \<noteq> []) (map snd rs) = noise @ raw # ms"
    and "list_all (\<lambda>n. \<not> startswith (line_of n) ''[SRAM_ARMED]'') noise"
    and "startswith (line_of raw) ''[SRAM_ARMED]''"
  shows "fst (arm_loop deadline p rs lg) =
    (if dict_get (line_fields (line_of raw)) ''pattern'' = Some (fmt_hex 2 p)
        \<and> dict_get (line_fields (line_of raw)) ''verify'' = Some ''ok''
     then Inr () else Inl (unverified p))"
  using assms
proof (induction deadline p rs lg arbitrary: noise rule: arm_loop.induct)
  case (2 deadline p now r rs lg)
  show ?case
  proof (cases "r = []")
    case True
    then show ?thesis using 2(1) [of noise] 2(3-) by simp
  next
    case False
    then show ?thesis using 2(2) [of "tl noise"] 2(3-) by (cases noise) (auto simp: Let_def)
  qed
qed simp

lemma armed_line_read:
  "line_of (uart_line (armed_line p v)) = armed_line p v"
  "startswith (armed_line p v) ''[SRAM_ARMED]''"
  "dict_get (line_fields (armed_line p v)) ''pattern'' = Some (fmt_hex 2 p)"
  "dict_get (line_fields (armed_line p v)) ''verify'' = Some (if v then ''ok'' else ''failed'')"
proof -
  have hx: "list_all (\<lambda>c. \<not> is_space c) (fmt_hex 2 p)" "is_ascii (fmt_hex 2 p)"
    using zpad_digits [of 16 2 p] all_digits_plain [of 16 "fmt_hex 2 p"] by (simp_all add: fmt_hex_def)
  have vw: "list_all (\<lambda>c. \<not> is_space c) (if v then ''ok'' else ''failed'')" "is_ascii (if v then ''ok'' else ''failed'')"
    by (simp_all add: is_space_def is_ascii_def code_def)
  note f = two_fields [of "''[SRAM_ARMED]''" "''pattern''" "''verify''" "fmt_hex 2 p" "if v then ''ok'' else ''failed''"]
  show "line_of (uart_line (armed_line p v)) = armed_line p v"
    "dict_get (line_fields (armed_line p v)) ''pattern'' = Some (fmt_hex 2 p)"
    "dict_get (line_fields (armed_line p v)) ''verify'' = Some (if v then ''ok'' else ''failed'')"
    using f hx vw by (simp_all add: armed_line_def plain_words del: if_split)
  show "startswith (armed_line p v) ''[SRAM_ARMED]''" by (simp add: armed_line_def startswith_Cons)
qed

text \<open>
  C9: Arming a pattern and the firmware's command loop fit together. For every pattern byte the
  command the host sends makes an idle device overwrite the whole region with the pattern and
  print one reply; when this reply arrives before the deadline, after any other lines, the host
  accepts it if and only if every cell of the region then holds the pattern, and otherwise raises.
\<close>

theorem arm_pattern_handshake:
  assumes "p < 256" and "command d = []" and "list_all (\<lambda>r. fst r < deadline) rs"
    and "d' = device_input mem (fst (arm_pattern deadline p rs lg)) d"
    and "filter (\<lambda>raw. raw \<noteq> []) (map snd rs) = noise @ map uart_line (drop (length (printed d)) (printed d'))"
    and "list_all (\<lambda>n. \<not> startswith (line_of n) ''[SRAM_ARMED]'') noise"
  shows "region d' = filled mem p \<and> command d' = []
    \<and> fst (snd (arm_pattern deadline p rs lg))
      = (if list_all (\<lambda>b. b = byte_of_nat p) (region d') then Inr () else Inl (unverified p))"
proof -
  let ?v = "list_all (\<lambda>b. b = byte_of_nat p) (filled mem p)"
  have d': "d' = d\<lparr>region := filled mem p, printed := printed d @ [armed_line p ?v]\<rparr>"
    using assms(1,2,4) by (simp add: arm_pattern_def device_fill)
  note line = armed_line_read [of p ?v]
  have "startswith (line_of (uart_line (armed_line p ?v))) ''[SRAM_ARMED]''"
    unfolding line(1) by (rule line(2))
  moreover have "filter (\<lambda>raw. raw \<noteq> []) (map snd rs) = noise @ uart_line (armed_line p ?v) # []"
    using assms(5) by (simp add: d')
  ultimately have "fst (arm_loop deadline p rs lg) = (if ?v then Inr () else Inl (unverified p))"
    using arm_loop_skips [OF assms(3) _ assms(6), of "uart_line (armed_line p ?v)" "[]" p lg] line(3,4)
    unfolding line(1) by simp
  then show ?thesis using assms(2) by (simp add: d' arm_pattern_def)
qed

theorem arm_pattern_handshake_witness:
  "fst (snd (arm_pattern 5 170 [(1, uart_line (armed_line 170 True))] [])) = Inr ()"
proof -
  let ?d = "\<lparr>command = [], region = [], printed = []\<rparr>"
  have v: "list_all (\<lambda>b. b = byte_of_nat 170) (filled (\<lambda>i b. b) 170)" by (simp add: filled_def list_all_iff)
  have r: "device_input (\<lambda>i b. b) (fill_command 170) ?d = ?d\<lparr>region := filled (\<lambda>i b. b) 170, printed := [armed_line 170 True]\<rparr>"
    using device_fill [of 170 ?d "\<lambda>i b. b"] v by simp
  show ?thesis
    using arm_pattern_handshake [of 170 ?d 5 "[(1, uart_line (armed_line 170 True))]"
        "device_input (\<lambda>i b. b) (fill_command 170) ?d" "\<lambda>i b. b" "[]" "[]"] v
    by (simp add: r uart_line_nonempty arm_pattern_def)
qed

end
