(* ===== verification/SramStats.thy ===== *)
theory SramStats
  imports SramSerial Stats Bits
    "HOL-Library.List_Lexorder" "HOL-Library.Char_ord" "HOL-Library.Product_Lexorder"
begin

text \<open>
  What the SRAM startup experiment computes from its captures (\<open>run_experiment.py\<close>): agreement
  with the preceding pattern, pairwise Hamming fractions, the fraction of stable bits, the summary
  per condition and pattern, and the lines of the linker map kept as evidence.
\<close>

definition PATTERNS :: "nat list" where "PATTERNS = [0, 255, 170, 85]"

section \<open>Bit statistics\<close>

definition bit_agreement :: "bytes \<Rightarrow> nat \<Rightarrow> real result" where
  "bit_agreement data p =
     (let differing = sum_list (map (\<lambda>v. bit_count (v XOR byte_of_nat p)) data)
      in if data = [] then Inl ZeroDivisionError else Inr (1 - real differing / (8 * real (length data))))"

definition hamming_fraction :: "bytes \<Rightarrow> bytes \<Rightarrow> real result" where
  "hamming_fraction l r =
     (if l = [] then Inl ZeroDivisionError else Inr (real (xor_count l r) / (8 * real (length l))))"

text \<open>Whether all captures have the same bit at a position; a capture too short raises.\<close>

definition bit_values :: "bytes list \<Rightarrow> nat \<Rightarrow> nat \<Rightarrow> bool list result" where
  "bit_values cs i b = rmap (\<lambda>c. if i < length c then Inr (bit (c ! i) b) else Inl IndexError) cs"

definition stable_bit_fraction :: "bytes list \<Rightarrow> real result" where
  "stable_bit_fraction cs =
     (if cs = [] then Inr 0
      else rbind (rmap (\<lambda>(i, b). rbind (bit_values cs i b) (\<lambda>vs. Inr (card (set vs) = 1)))
                   [(i, b). i \<leftarrow> [0..<length (hd cs)], b \<leftarrow> [0..<8]]) (\<lambda>flags.
        if hd cs = [] then Inl ZeroDivisionError
        else Inr (real (length (filter (\<lambda>x. x) flags)) / (8 * real (length (hd cs))))))"

section \<open>The summary\<close>

record sram_row =
  capture_index :: nat
  condition :: string
  repetition :: nat
  pattern :: nat
  transitioned_utc :: string
  captured_utc :: string
  runtime_address :: string
  sha256 :: string
  ones_fraction :: real
  agreement :: real
  byte_match_fraction :: real
  file_name :: string

type_synonym group_key = "string \<times> nat"

text \<open>\<open>groups.setdefault(key, []).append(index)\<close> over the rows, and the groups by key.\<close>

definition add_to_group :: "nat \<times> sram_row \<Rightarrow> (group_key, nat list) dict \<Rightarrow> (group_key, nat list) dict" where
  "add_to_group ir g =
     (case ir of (i, r) \<Rightarrow>
        let k = (condition r, pattern r) in dict_set k (dict_get_or g k [] @ [i]) g)"

definition groups :: "sram_row list \<Rightarrow> (group_key, nat list) dict" where
  "groups rows = fold add_to_group (enumerate 0 rows) []"

definition sorted_groups :: "sram_row list \<Rightarrow> (group_key \<times> nat list) list" where
  "sorted_groups rows = sort_key fst (groups rows)"

definition pairwise_fractions :: "bytes list \<Rightarrow> real list result" where
  "pairwise_fractions cs = rmap (\<lambda>(i, j). hamming_fraction (cs ! i) (cs ! j)) (index_pairs (length cs))"

record group_summary =
  g_condition :: string
  g_pattern :: string
  g_captures :: nat
  g_bit_agreement :: real
  g_byte_match :: real
  g_stable :: real
  g_hamming :: "real option"
  g_unique :: nat

definition mean_or_none :: "real list \<Rightarrow> real option" where
  "mean_or_none xs = (if xs = [] then None else Some (mean xs))"

definition summarize_group :: "sram_row list \<Rightarrow> bytes list \<Rightarrow> group_key \<times> nat list \<Rightarrow> group_summary result" where
  "summarize_group rows payloads g =
     (case g of ((cond, pat), idx) \<Rightarrow>
        (let captures = map (\<lambda>i. payloads ! i) idx
         in rbind (pairwise_fractions captures) (\<lambda>pw.
            rbind (py_mean (map (\<lambda>i. agreement (rows ! i)) idx)) (\<lambda>ma.
            rbind (py_mean (map (\<lambda>i. byte_match_fraction (rows ! i)) idx)) (\<lambda>mb.
            rbind (stable_bit_fraction captures) (\<lambda>st.
            Inr \<lparr>g_condition = cond, g_pattern = ''0x'' @ fmt_hex 2 pat, g_captures = length idx,
                 g_bit_agreement = ma, g_byte_match = mb, g_stable = st, g_hamming = mean_or_none pw,
                 g_unique = card (set (map (\<lambda>i. sha256 (rows ! i)) idx))\<rparr>))))))"

record sram_summary =
  s_captures :: nat
  s_hamming :: "real option"
  s_agreement_min :: real
  s_agreement_max :: real
  s_group_min :: real
  s_group_max :: real
  s_stable :: real
  s_unique :: nat
  s_groups :: "group_summary list"

definition summarize :: "sram_row list \<Rightarrow> bytes list \<Rightarrow> sram_summary result" where
  "summarize rows payloads =
     rbind (rmap (summarize_group rows payloads) (sorted_groups rows)) (\<lambda>gs.
     rbind (pairwise_fractions payloads) (\<lambda>pw.
     let ag = map agreement rows; gm = map g_bit_agreement gs
     in rbind (py_min ag) (\<lambda>lo. rbind (py_max ag) (\<lambda>hi.
        rbind (py_min gm) (\<lambda>glo. rbind (py_max gm) (\<lambda>ghi.
        rbind (stable_bit_fraction payloads) (\<lambda>st.
        Inr \<lparr>s_captures = length rows, s_hamming = mean_or_none pw, s_agreement_min = lo, s_agreement_max = hi,
             s_group_min = glo, s_group_max = ghi, s_stable = st,
             s_unique = card (set (map sha256 rows)), s_groups = gs\<rparr>)))))))"

section \<open>Linker evidence\<close>

text \<open>
  The argument is the text of the linker map, \<open>None\<close> when there is none. The lines around each
  mention of the region are selected by index, once each, in order.
\<close>

definition selected_lines :: "string list \<Rightarrow> nat set" where
  "selected_lines ls =
     \<Union> (set (map (\<lambda>(i, l). if contains l ''sram_startup_region'' then {i - 2..<min (length ls) (i + 3)} else {})
        (enumerate 0 ls)))"

definition linker_evidence :: "string option \<Rightarrow> string" where
  "linker_evidence txt =
     (case txt of
        None \<Rightarrow> ''linker map unavailable'' @ [CHR 0x0A]
      | Some t \<Rightarrow>
          (let ls = splitlines t
           in join [CHR 0x0A] (map (\<lambda>i. ls ! i) (sorted_list_of_set (selected_lines ls))) @ [CHR 0x0A]))"

section \<open>Facts about the bit statistics\<close>

abbreviation fraction :: "real \<Rightarrow> bool" where
  "fraction x \<equiv> 0 \<le> x \<and> x \<le> 1"

lemma xor_count_replicate:
  "xor_count data (replicate (length data) b) = sum_list (map (\<lambda>v. bit_count (v XOR b)) data)"
  by (induction data) simp_all

text \<open>Agreement with a pattern is one minus the distance from the window filled with it.\<close>

lemma bit_agreement_hamming:
  "bit_agreement data p = rbind (hamming_fraction data (replicate (length data) (byte_of_nat p))) (\<lambda>h. Inr (1 - h))"
  by (simp add: bit_agreement_def hamming_fraction_def xor_count_replicate Let_def)

lemma hamming_fraction_range: "hamming_fraction l r = Inr h \<Longrightarrow> fraction h"
proof -
  assume h: "hamming_fraction l r = Inr h"
  have "xor_count l r \<le> 8 * length l" using xor_count_bound [of l r] by simp
  then have "real (xor_count l r) \<le> 8 * real (length l)" by linarith
  with h show ?thesis by (auto simp: hamming_fraction_def split: if_splits)
qed

lemma hamming_fraction_0:
  "length l = length r \<Longrightarrow> hamming_fraction l r = Inr 0 \<longleftrightarrow> l \<noteq> [] \<and> l = r"
  using xor_count_eq_0 [of l r] by (auto simp: hamming_fraction_def)

lemma bit_agreement_range: "bit_agreement data p = Inr a \<Longrightarrow> fraction a"
  using hamming_fraction_range by (fastforce simp: bit_agreement_hamming result_simps)

definition positions :: "nat \<Rightarrow> (nat \<times> nat) list" where
  "positions n = [(i, b). i \<leftarrow> [0..<n], b \<leftarrow> [0..<8]]"

lemma length_positions: "length (positions n) = 8 * n"
  by (induction n) (simp_all add: positions_def)

definition bit_stable :: "bytes list \<Rightarrow> nat \<Rightarrow> nat \<Rightarrow> bool" where
  "bit_stable cs i b = (\<forall>c \<in> set cs. bit (c ! i) b = bit (hd cs ! i) b)"

lemma card_image_1:
  assumes "cs \<noteq> []"
  shows "card (set (map f cs)) = 1 \<longleftrightarrow> (\<forall>c \<in> set cs. f c = f (hd cs))"
proof
  assume "card (set (map f cs)) = 1"
  then obtain x where "f ` set cs = {x}" by (auto simp: card_1_singleton_iff)
  then have "f c = x" if "c \<in> set cs" for c using that by blast
  then show "\<forall>c \<in> set cs. f c = f (hd cs)" using assms by simp
next
  assume "\<forall>c \<in> set cs. f c = f (hd cs)"
  then have "set (map f cs) \<subseteq> {f (hd cs)}" by (auto simp only: set_map image_iff)
  moreover have "f (hd cs) \<in> set (map f cs)" using assms by simp
  ultimately have "set (map f cs) = {f (hd cs)}" by blast
  then show "card (set (map f cs)) = 1" by simp
qed

lemma filter_all_iff: "length (filter P xs) = length xs \<longleftrightarrow> (\<forall>x \<in> set xs. P x)"
proof (induction xs)
  case (Cons x xs)
  have "length (filter P xs) \<noteq> Suc (length xs)" using length_filter_le [of P xs] by linarith
  with Cons show ?case by (cases "P x") auto
qed simp

lemma stable_bit_fraction_eq:
  assumes "cs \<noteq> []" and "\<forall>c \<in> set cs. length c = n" and "0 < n"
  shows "stable_bit_fraction cs
    = Inr (real (length (filter (\<lambda>(i, b). bit_stable cs i b) (positions n))) / (8 * real n))"
proof -
  have n: "length (hd cs) = n" "hd cs \<noteq> []" using assms by (auto simp flip: length_greater_0_conv)
  have vs: "bit_values cs i b = Inr (map (\<lambda>c. bit (c ! i) b) cs)" if "i < n" for i b
    unfolding bit_values_def using assms(2) that by (intro rmap_Inr) auto
  have "rmap (\<lambda>(i, b). rbind (bit_values cs i b) (\<lambda>vs. Inr (card (set vs) = 1))) (positions n)
      = Inr (map (\<lambda>(i, b). bit_stable cs i b) (positions n))"
  proof (rule rmap_Inr, clarify)
    fix i b assume "(i, b) \<in> set (positions n)"
    then have "i < n" by (auto simp: positions_def)
    then show "rbind (bit_values cs i b) (\<lambda>vs. Inr (card (set vs) = 1)) = Inr (bit_stable cs i b)"
      using card_image_1 [OF assms(1)] by (simp add: vs bit_stable_def del: set_map)
  qed
  then show ?thesis
    using assms(1) n by (simp add: stable_bit_fraction_def positions_def [symmetric] filter_map o_def case_prod_unfold)
qed

lemma stable_range:
  assumes "cs \<noteq> []" and "\<forall>c \<in> set cs. length c = n" and "0 < n" and "stable_bit_fraction cs = Inr f"
  shows "fraction f" and "f = 1 \<longleftrightarrow> (\<forall>c \<in> set cs. c = hd cs)"
proof -
  let ?P = "\<lambda>(i, b). bit_stable cs i b"
  have f: "f = real (length (filter ?P (positions n))) / (8 * real n)"
    using stable_bit_fraction_eq [OF assms(1-3)] assms(4) by simp
  have le: "length (filter ?P (positions n)) \<le> 8 * n"
    using length_filter_le [of ?P "positions n"] by (simp add: length_positions)
  then have "real (length (filter ?P (positions n))) \<le> 8 * real n" by (metis of_nat_le_iff of_nat_mult of_nat_numeral)
  then show "fraction f" using assms(3) by (simp add: f)
  have "f = 1 \<longleftrightarrow> real (length (filter ?P (positions n))) = 8 * real n"
    using assms(3) by (auto simp: f)
  also have "\<dots> \<longleftrightarrow> length (filter ?P (positions n)) = length (positions n)"
    unfolding length_positions by linarith
  also have "\<dots> \<longleftrightarrow> (\<forall>x \<in> set (positions n). ?P x)"
    by (rule filter_all_iff)
  also have "\<dots> \<longleftrightarrow> (\<forall>i < n. \<forall>b < 8. bit_stable cs i b)"
    by (auto simp: positions_def)
  also have "\<dots> \<longleftrightarrow> (\<forall>c \<in> set cs. c = hd cs)"
  proof
    assume s: "\<forall>i < n. \<forall>b < 8. bit_stable cs i b"
    show "\<forall>c \<in> set cs. c = hd cs"
    proof
      fix c assume c: "c \<in> set cs"
      have "c ! i = hd cs ! i" if "i < n" for i
        using s that c by (intro bit_word_eqI) (auto simp: bit_stable_def)
      then show "c = hd cs" using assms(1,2) c by (intro nth_equalityI) auto
    qed
  next
    assume "\<forall>c \<in> set cs. c = hd cs"
    then show "\<forall>i < n. \<forall>b < 8. bit_stable cs i b" by (metis bit_stable_def)
  qed
  finally show "f = 1 \<longleftrightarrow> (\<forall>c \<in> set cs. c = hd cs)" .
qed

section \<open>Facts about the groups\<close>

text \<open>Every capture is in exactly one group, the one of its condition and pattern.\<close>

lemma dict_get_map_of: "dict_get d k = map_of d k"
  by (simp add: dict_get_def)

lemma add_to_group_get:
  "dict_get_or (add_to_group (i, r) g) k [] =
     (if k = (condition r, pattern r) then dict_get_or g k [] @ [i] else dict_get_or g k [])"
  by (auto simp: add_to_group_def Let_def)

lemma groups_fold:
  "dict_get_or (fold add_to_group (enumerate n rows) g) k [] =
     dict_get_or g k [] @ map fst (filter (\<lambda>(i, r). (condition r, pattern r) = k) (enumerate n rows))"
  by (induction rows arbitrary: n g) (auto simp: add_to_group_get)

lemma groups_fold_ok: "dict_ok g \<Longrightarrow> dict_ok (fold add_to_group irs g)"
  by (induction irs arbitrary: g) (auto simp: add_to_group_def Let_def split: prod.splits)

lemma groups_fold_keys:
  "set (dict_keys (fold add_to_group irs g)) = set (dict_keys g) \<union> (\<lambda>(i, r). (condition r, pattern r)) ` set irs"
  by (induction irs arbitrary: g) (auto simp: add_to_group_def Let_def dict_keys_set dict_in_keys split: if_splits prod.splits)

lemma groups_keys:
  "set (map fst (groups rows)) = (\<lambda>i. (condition (rows ! i), pattern (rows ! i))) ` {0..<length rows}"
proof -
  have "enumerate 0 rows = map (\<lambda>i. (i, rows ! i)) [0..<length rows]"
    by (rule nth_equalityI) (simp_all add: nth_enumerate_eq)
  then have "set (dict_keys (groups rows)) = (\<lambda>(i, r). (condition r, pattern r)) ` (\<lambda>i. (i, rows ! i)) ` {0..<length rows}"
    unfolding groups_def groups_fold_keys by (simp add: dict_keys_def)
  then show ?thesis by (simp add: dict_keys_def image_image)
qed

lemma groups_ok: "dict_ok (groups rows)"
  unfolding groups_def by (rule groups_fold_ok) simp

lemma groups_entry:
  assumes "(k, idx) \<in> set (groups rows)"
  shows "idx = filter (\<lambda>i. (condition (rows ! i), pattern (rows ! i)) = k) [0..<length rows]" and "idx \<noteq> []"
proof -
  have g: "dict_get (groups rows) k = Some idx"
    using assms groups_ok by (simp add: dict_get_def dict_ok_def)
  have "idx = map fst (filter (\<lambda>(i, r). (condition r, pattern r) = k) (enumerate 0 rows))"
    using groups_fold [of 0 rows "[]" k] g by (simp add: groups_def dict_get_or_def)
  also have "\<dots> = filter (\<lambda>i. (condition (rows ! i), pattern (rows ! i)) = k) [0..<length rows]"
  proof -
    have "enumerate 0 rows = map (\<lambda>i. (i, rows ! i)) [0..<length rows]"
      by (rule nth_equalityI) (simp_all add: nth_enumerate_eq)
    then show ?thesis by (simp add: filter_map o_def)
  qed
  finally show idx: "idx = filter (\<lambda>i. (condition (rows ! i), pattern (rows ! i)) = k) [0..<length rows]" .
  have "k \<in> set (map fst (groups rows))" using assms by force
  then show "idx \<noteq> []"
    unfolding idx groups_keys by (auto simp: filter_empty_conv)
qed

lemma count_upt_filter: "count (mset (filter P [0..<n])) i = (if i < n \<and> P i then 1 else 0)"
  using distinct_count_atmost_1 [of "filter P [0..<n]"] by auto

lemma groups_cover: "mset (concat (map snd (groups rows))) = mset [0..<length rows]"
proof (rule multiset_eqI)
  fix i
  let ?k = "(condition (rows ! i), pattern (rows ! i))"
  have count: "count (mset (concat (map snd gs))) i = (if i < length rows \<and> ?k \<in> set (map fst gs) then 1 else 0)"
    if "distinct (map fst gs)"
      "\<forall>(k, idx) \<in> set gs. idx = filter (\<lambda>i. (condition (rows ! i), pattern (rows ! i)) = k) [0..<length rows]" for gs
    using that
  proof (induction gs)
    case (Cons g gs)
    then have "snd g = filter (\<lambda>i. (condition (rows ! i), pattern (rows ! i)) = fst g) [0..<length rows]"
      by (cases g) auto
    then have "count (mset (snd g)) i = (if i < length rows \<and> ?k = fst g then 1 else 0)"
      by (simp only: count_upt_filter)
    with Cons show ?case by auto
  qed simp
  have "\<forall>(k, idx) \<in> set (groups rows). idx = filter (\<lambda>i. (condition (rows ! i), pattern (rows ! i)) = k) [0..<length rows]"
    using groups_entry(1) by blast
  then have "count (mset (concat (map snd (groups rows)))) i
      = (if i < length rows \<and> ?k \<in> set (map fst (groups rows)) then 1 else 0)"
    using groups_ok [of rows] by (intro count) (simp_all only: dict_ok_def)
  also have "\<dots> = (if i < length rows then 1 else 0)"
    unfolding groups_keys by simp
  also have "\<dots> = count (mset [0..<length rows]) i"
    using count_upt_filter [of "\<lambda>_. True" "length rows" i] by simp
  finally show "count (mset (concat (map snd (groups rows)))) i = count (mset [0..<length rows]) i" .
qed

section \<open>The summary is total and consistent\<close>

abbreviation windows :: "nat \<Rightarrow> bytes list \<Rightarrow> bool" where
  "windows n cs \<equiv> 0 < n \<and> (\<forall>c \<in> set cs. length c = n)"

lemma pairwise_fractions_eq:
  assumes "windows n cs"
  shows "pairwise_fractions cs
    = Inr (map (\<lambda>(i, j). real (xor_count (cs ! i) (cs ! j)) / (8 * real n)) (index_pairs (length cs)))"
  unfolding pairwise_fractions_def
proof (rule rmap_Inr, clarify)
  fix i j assume "(i, j) \<in> set (index_pairs (length cs))"
  then have "length (cs ! i) = n" using assms by (auto simp: set_index_pairs)
  then show "hamming_fraction (cs ! i) (cs ! j) = Inr (real (xor_count (cs ! i) (cs ! j)) / (8 * real n))"
    using assms by (auto simp: hamming_fraction_def)
qed

lemma mean_zero_iff:
  assumes "xs \<noteq> []" and "\<forall>x \<in> set xs. 0 \<le> x"
  shows "mean xs = 0 \<longleftrightarrow> (\<forall>x \<in> set xs. x = 0)"
  using assms by (simp add: mean_def sum_list_nonneg_eq_0_iff)

lemma pairwise_mean_zero:
  assumes "windows n cs" and "2 \<le> length cs" and "pairwise_fractions cs = Inr pw"
  shows "mean_or_none pw = Some 0 \<longleftrightarrow> (\<forall>c \<in> set cs. c = hd cs)"
proof -
  let ?f = "\<lambda>(i, j). real (xor_count (cs ! i) (cs ! j)) / (8 * real n)"
  have pw: "pw = map ?f (index_pairs (length cs))" using pairwise_fractions_eq [OF assms(1)] assms(3) by simp
  have "(0, 1) \<in> set (index_pairs (length cs))" using assms(2) by (simp add: set_index_pairs)
  then have ne: "index_pairs (length cs) \<noteq> []" by auto
  have "\<forall>x \<in> set pw. 0 \<le> x" and "pw \<noteq> []" using ne by (auto simp: pw)
  then have "mean_or_none pw = Some 0 \<longleftrightarrow> (\<forall>x \<in> set pw. x = 0)"
    using mean_zero_iff [of pw] by (simp add: mean_or_none_def)
  also have "\<dots> \<longleftrightarrow> (\<forall>(i, j) \<in> set (index_pairs (length cs)). xor_count (cs ! i) (cs ! j) = 0)"
    using assms(1) by (auto simp: pw)
  also have "\<dots> \<longleftrightarrow> (\<forall>v \<in> set cs. \<forall>w \<in> set cs. v = w)"
    using assms(1) by (intro ham.pairwise_zero [where n = "8 * n"]) simp
  also have "\<dots> \<longleftrightarrow> (\<forall>c \<in> set cs. c = hd cs)"
    using assms(2) by (metis list.size(3) list.set_sel(1) not_numeral_le_zero)
  finally show ?thesis .
qed

lemma summarize_group_total:
  assumes "windows n payloads" and "length payloads = length rows" and "g \<in> set (groups rows)"
  shows "\<exists>s. summarize_group rows payloads g = Inr s \<and> g_captures s = length (snd g)
    \<and> lmin (map agreement rows) \<le> g_bit_agreement s \<and> g_bit_agreement s \<le> lmax (map agreement rows)
    \<and> fraction (g_stable s)"
proof -
  obtain cond pat idx where g: "g = ((cond, pat), idx)" by (cases g) auto
  have ne: "idx \<noteq> []" and idx: "\<forall>i \<in> set idx. i < length rows"
    using groups_entry [of "(cond, pat)" idx rows] assms(3) g by auto
  let ?cs = "map (\<lambda>i. payloads ! i) idx" and ?ag = "map (\<lambda>i. agreement (rows ! i)) idx"
  have w: "windows n ?cs" using assms(1,2) idx by auto
  then obtain st where st: "stable_bit_fraction ?cs = Inr st"
    using stable_bit_fraction_eq [of ?cs n] ne by auto
  then have "fraction st" using stable_range(1) [OF _ _ _ st] w ne by auto
  moreover have "lmin (map agreement rows) \<le> mean ?ag \<and> mean ?ag \<le> lmax (map agreement rows)"
  proof -
    have in_rows: "set ?ag \<subseteq> set (map agreement rows)" using idx by auto
    have "?ag \<noteq> []" using ne by simp
    then have "lmin ?ag \<le> mean ?ag" "mean ?ag \<le> lmax ?ag" "lmin ?ag \<in> set ?ag" "lmax ?ag \<in> set ?ag"
      by (rule mean_bounds lmin_in lmax_in)+
    moreover have "lmin (map agreement rows) \<le> lmin ?ag" "lmax ?ag \<le> lmax (map agreement rows)"
      using calculation in_rows by (simp_all only: lmin_le lmax_ge subsetD)
    ultimately show ?thesis by simp
  qed
  ultimately show ?thesis
    using pairwise_fractions_eq [OF w] st ne
    by (simp add: g summarize_group_def py_mean_def Let_def)
qed

lemma mset_concat_image: "mset (concat (map snd gs)) = \<Sum>\<^sub># (image_mset (\<lambda>g. mset (snd g)) (mset gs))"
  by (induction gs) simp_all

lemma rmap_total:
  "(\<And>x. x \<in> set xs \<Longrightarrow> \<exists>y. f x = Inr y \<and> P x y) \<Longrightarrow> \<exists>ys. rmap f xs = Inr ys \<and> list_all2 P xs ys"
proof (induction xs)
  case (Cons x xs)
  from Cons.prems [of x] obtain y where y: "f x = Inr y" "P x y" by auto
  from Cons obtain ys where "rmap f xs = Inr ys" "list_all2 P xs ys" by auto
  with y show ?case by simp
qed simp

lemma summary_total:
  assumes "windows n payloads" and "length payloads = length rows" and "rows \<noteq> []"
  shows "\<exists>s. summarize rows payloads = Inr s
    \<and> s_captures s = length rows \<and> sum_list (map g_captures (s_groups s)) = length rows
    \<and> s_agreement_min s \<le> s_group_min s \<and> s_group_min s \<le> s_group_max s \<and> s_group_max s \<le> s_agreement_max s
    \<and> fraction (s_stable s) \<and> (s_stable s = 1 \<longleftrightarrow> (\<forall>c \<in> set payloads. c = hd payloads))
    \<and> (length rows < 2 \<or> (s_hamming s = Some 0 \<longleftrightarrow> s_stable s = 1))"
proof -
  let ?P = "\<lambda>g s. g_captures s = length (snd g) \<and> lmin (map agreement rows) \<le> g_bit_agreement s
    \<and> g_bit_agreement s \<le> lmax (map agreement rows)"
  have sg: "mset (sorted_groups rows) = mset (groups rows)" by (simp add: sorted_groups_def)
  then have set_sg: "set (sorted_groups rows) = set (groups rows)" by (rule mset_eq_setD)
  have "\<exists>y. summarize_group rows payloads g = Inr y \<and> ?P g y" if "g \<in> set (sorted_groups rows)" for g
    using summarize_group_total [OF assms(1,2)] that set_sg by blast
  then obtain gs where gs: "rmap (summarize_group rows payloads) (sorted_groups rows) = Inr gs"
    and all: "list_all2 ?P (sorted_groups rows) gs"
    using rmap_total [of "sorted_groups rows" "summarize_group rows payloads" ?P] by blast
  obtain pw where pw: "pairwise_fractions payloads = Inr pw" using pairwise_fractions_eq [OF assms(1)] by blast
  have pne: "payloads \<noteq> []" using assms(2,3) by auto
  then obtain st where st: "stable_bit_fraction payloads = Inr st"
    using stable_bit_fraction_eq [of payloads n] assms(1) by auto
  have "groups rows \<noteq> []"
    using groups_keys [of rows] assms(3) by (cases "groups rows") auto
  then have gne: "map g_bit_agreement gs \<noteq> []"
    using list_all2_lengthD [OF all] sg by auto
  have "map g_captures gs = map (length \<circ> snd) (sorted_groups rows)"
    using all by (induction rule: list_all2_induct) simp_all
  then have "sum_list (map g_captures gs) = size (mset (concat (map snd (sorted_groups rows))))"
    by (simp add: length_concat o_def)
  also have "mset (concat (map snd (sorted_groups rows))) = mset (concat (map snd (groups rows)))"
    using sg by (simp only: mset_concat_image)
  finally have total: "sum_list (map g_captures gs) = length rows"
    unfolding groups_cover by simp
  have "\<forall>x \<in> set (map g_bit_agreement gs). lmin (map agreement rows) \<le> x \<and> x \<le> lmax (map agreement rows)"
    using all by (auto simp: list_all2_conv_all_nth in_set_conv_nth)
  then have range: "lmin (map agreement rows) \<le> lmin (map g_bit_agreement gs)
      \<and> lmin (map g_bit_agreement gs) \<le> mean (map g_bit_agreement gs)
      \<and> mean (map g_bit_agreement gs) \<le> lmax (map g_bit_agreement gs)
      \<and> lmax (map g_bit_agreement gs) \<le> lmax (map agreement rows)"
    by (rule mean_range.summary_within [OF gne])
  note stable = stable_range [OF pne _ _ st, of n]
  let ?s = "\<lparr>s_captures = length rows, s_hamming = mean_or_none pw, s_agreement_min = lmin (map agreement rows),
    s_agreement_max = lmax (map agreement rows), s_group_min = lmin (map g_bit_agreement gs),
    s_group_max = lmax (map g_bit_agreement gs), s_stable = st, s_unique = card (set (map sha256 rows)), s_groups = gs\<rparr>"
  have "summarize rows payloads = Inr ?s"
    using gs pw st assms(3) gne by (simp add: summarize_def py_min_def py_max_def Let_def)
  moreover have "length rows < 2 \<or> (mean_or_none pw = Some 0 \<longleftrightarrow> st = 1)"
    using pairwise_mean_zero [OF assms(1) _ pw] stable(2) assms(1,2) by force
  ultimately show ?thesis
    using total range stable assms(1) by (intro exI [of _ ?s]) simp
qed

text \<open>
  For any non-empty set of equally long captures the summary exists, counts every capture in
  exactly one group, and is consistent: group means lie between the extreme agreements, the
  stable-bit fraction is a fraction, and the two repeatability figures agree on the extreme case:
  the stable fraction is 1, and with two captures or more the mean pairwise Hamming distance is 0,
  exactly when all captures are the same.
\<close>

theorem summary_of_captures:
  assumes "windows n payloads" and "length payloads = length rows" and "rows \<noteq> []"
  shows "\<exists>s. summarize rows payloads = Inr s
    \<and> s_captures s = length rows \<and> sum_list (map g_captures (s_groups s)) = length rows
    \<and> s_agreement_min s \<le> s_group_min s \<and> s_group_min s \<le> s_group_max s \<and> s_group_max s \<le> s_agreement_max s
    \<and> fraction (s_stable s) \<and> (s_stable s = 1 \<longleftrightarrow> (\<forall>c \<in> set payloads. c = hd payloads))
    \<and> (length rows < 2 \<or> (s_hamming s = Some 0 \<longleftrightarrow> s_stable s = 1))"
  using assms by (rule summary_total)

text \<open>One row of a concrete run, for the witnesses.\<close>

definition sample_row :: sram_row where
  "sample_row = \<lparr>capture_index = 0, condition = ''rts'', repetition = 0, pattern = 170, transitioned_utc = [],
     captured_utc = [], runtime_address = ''0x40'', sha256 = ''00'', ones_fraction = 1 / 2, agreement = 1,
     byte_match_fraction = 1, file_name = ''raw/capture''\<rparr>"

theorem summary_of_captures_witness:
  "\<exists>s. summarize [sample_row, sample_row] [[170], [85]] = Inr s \<and> s_captures s = 2 \<and> s_stable s \<noteq> 1 \<and> s_hamming s \<noteq> Some 0"
  using summary_of_captures [of 1 "[[170], [85]]" "[sample_row, sample_row]"] by auto

section \<open>The evidence lines\<close>

lemma selected_lines_iff:
  "j \<in> selected_lines ls \<longleftrightarrow>
     j < length ls \<and> (\<exists>i < length ls. contains (ls ! i) ''sram_startup_region'' \<and> i \<le> j + 2 \<and> j \<le> i + 2)"
proof -
  have "j \<in> selected_lines ls \<longleftrightarrow>
    (\<exists>i < length ls. contains (ls ! i) ''sram_startup_region'' \<and> i - 2 \<le> j \<and> j < length ls \<and> j < i + 3)"
  proof -
    have e: "enumerate 0 ls = map (\<lambda>i. (i, ls ! i)) [0..<length ls]"
      by (rule nth_equalityI) (simp_all add: nth_enumerate_eq)
    show ?thesis unfolding selected_lines_def e by (auto split: if_splits)
  qed
  moreover have "i - 2 \<le> j \<and> j < length ls \<and> j < i + 3 \<longleftrightarrow> j < length ls \<and> i \<le> j + 2 \<and> j \<le> i + 2" for i
    by linarith
  ultimately show ?thesis by blast
qed

text \<open>
  The linker evidence holds, once each and in the order of the map, exactly the lines at most two
  lines away from a line that mentions the measured region.
\<close>

theorem linker_evidence_lines:
  "linker_evidence (Some txt) =
     join [CHR 0x0A] (map (\<lambda>j. splitlines txt ! j)
       (filter (\<lambda>j. \<exists>i < length (splitlines txt). contains (splitlines txt ! i) ''sram_startup_region'' \<and> i \<le> j + 2 \<and> j \<le> i + 2)
         [0..<length (splitlines txt)])) @ [CHR 0x0A]"
proof -
  let ?ls = "splitlines txt"
  let ?P = "\<lambda>j. \<exists>i < length ?ls. contains (?ls ! i) ''sram_startup_region'' \<and> i \<le> j + 2 \<and> j \<le> i + 2"
  have "sorted_list_of_set (selected_lines ?ls) = filter ?P [0..<length ?ls]"
  proof (rule sorted_distinct_set_unique)
    have "finite (selected_lines ?ls)" by (rule finite_subset [of _ "{0..<length ?ls}"]) (auto simp: selected_lines_iff)
    then show "set (sorted_list_of_set (selected_lines ?ls)) = set (filter ?P [0..<length ?ls])"
      by (auto simp: selected_lines_iff)
  qed (simp_all add: sorted_wrt_filter)
  then show ?thesis by (simp add: linker_evidence_def Let_def)
qed

end
