(* ===== verification/SramExperiment.thy ===== *)
theory SramExperiment
  imports PyIO PyPath SramStats
begin

text \<open>
  The SRAM startup experiment's run (\<open>run_experiment.py\<close>): build and flash commands, reset and
  power transitions, the loop over conditions, repetitions and patterns, and what it leaves on
  disk. The world is a state: what the port still has to say, the log, the actions on the board
  and the host in order, and the files. Parameters: the clock, the exit of each command and the
  look of the file system.
\<close>

section \<open>The shell words of a command\<close>

text \<open>\<open>shlex.split\<close>: the reader's states, the word read so far (reversed), whether it had quotes.\<close>

datatype lex_mode = Blank | Word | Quoted char | Escaped | QuotedEscape

definition lex_space :: "char \<Rightarrow> bool" where
  "lex_space c = (code c = 32 \<or> code c = 9 \<or> code c = 13 \<or> code c = 10)"

definition lex_quote :: "char \<Rightarrow> bool" where
  "lex_quote c = (code c = 34 \<or> code c = 39)"

definition lex_escape :: "char \<Rightarrow> bool" where
  "lex_escape c = (code c = 92)"

fun lex :: "lex_mode \<Rightarrow> string \<Rightarrow> bool \<Rightarrow> string \<Rightarrow> string list result" where
  "lex Blank w q [] = Inr []"
| "lex Word w q [] = Inr (if w \<noteq> [] \<or> q then [rev w] else [])"
| "lex (Quoted d) w q [] = Inl ValueError"
| "lex Escaped w q [] = Inl ValueError"
| "lex QuotedEscape w q [] = Inl ValueError"
| "lex Blank w q (c # cs) =
     (if lex_space c then lex Blank [] False cs
      else if lex_escape c then lex Escaped [] False cs
      else if lex_quote c then lex (Quoted c) [] True cs
      else lex Word [c] False cs)"
| "lex Word w q (c # cs) =
     (if lex_space c then
        (if w \<noteq> [] \<or> q then rbind (lex Blank [] False cs) (\<lambda>ws. Inr (rev w # ws)) else lex Blank [] False cs)
      else if lex_quote c then lex (Quoted c) w True cs
      else if lex_escape c then lex Escaped w q cs
      else lex Word (c # w) q cs)"
| "lex (Quoted d) w q (c # cs) =
     (if c = d then lex Word w q cs
      else if lex_escape c \<and> code d = 34 then lex QuotedEscape w q cs
      else lex (Quoted d) (c # w) q cs)"
| "lex Escaped w q (c # cs) = lex Word (c # w) q cs"
| "lex QuotedEscape w q (c # cs) =
     (if lex_escape c \<or> code c = 34 then lex (Quoted (char_of (34 :: nat))) (c # w) q cs
      else lex (Quoted (char_of (34 :: nat))) (c # char_of (92 :: nat) # w) q cs)"

definition shlex_split :: "string \<Rightarrow> string list result" where
  "shlex_split s = lex Blank [] False s"

section \<open>The world\<close>

datatype action =
    Open_Port | Close_Port | Set_Dtr bool | Set_Rts bool | Sleep real | Send bytes
  | Run_Command "string list"

record sram_manifest =
  m_board :: string
  m_serial :: string
  m_region :: nat
  m_patterns :: "string list"
  m_repetitions :: int
  m_conditions :: "string list"
  m_power_controller :: bool

record world =
  rx :: "reading list"
  serial_log :: bytes
  actions :: "action list"
  clock_reads :: nat
  commands_run :: nat
  raw_files :: "(string, bytes) dict"
  rows :: "sram_row list"
  payloads :: "bytes list"
  manifest :: "sram_manifest option"
  evidence :: string

record sram_env =
  clock :: "nat \<Rightarrow> real"
  command_error :: "nat \<Rightarrow> py_error option"
  device_polls :: "nat \<Rightarrow> (real \<times> bool) list"
  present :: "path \<Rightarrow> bool"
  resolve :: "path \<Rightarrow> path"
  home :: path
  which_west :: "string option"
  linker_map :: "path \<Rightarrow> string option"
  transition_utc :: "nat \<Rightarrow> string"
  capture_utc :: "nat \<Rightarrow> string"
  sha256_hex :: "bytes \<Rightarrow> string"

record sram_args =
  serial :: string
  board :: string
  build_dir :: string
  out_dir :: string
  repetitions :: int
  conditions :: string
  power_off_command :: "string option"
  power_on_command :: "string option"
  boot_timeout :: real
  device_timeout :: real
  reset_pulse_ms :: real
  skip_build :: bool
  skip_flash :: bool
  keep_build :: bool

definition act :: "action \<Rightarrow> (world, unit) io" where
  "act a = io_modify (\<lambda>w. w\<lparr>actions := actions w @ [a]\<rparr>)"

text \<open>\<open>time.sleep\<close> raises on a negative duration.\<close>

definition sleep :: "real \<Rightarrow> (world, unit) io" where
  "sleep d = (if d < 0 then io_raise ValueError else act (Sleep d))"

text \<open>\<open>time.monotonic() + timeout\<close>.\<close>

definition deadline_after :: "sram_env \<Rightarrow> real \<Rightarrow> (world, real) io" where
  "deadline_after env timeout w =
     (Inr (clock env (clock_reads w) + timeout), w\<lparr>clock_reads := clock_reads w + 1\<rparr>)"

definition run_checked :: "sram_env \<Rightarrow> string list \<Rightarrow> (world, unit) io" where
  "run_checked env cmd w =
     (let w' = w\<lparr>actions := actions w @ [Run_Command cmd], commands_run := commands_run w + 1\<rparr>
      in (case command_error env (commands_run w) of None \<Rightarrow> (Inr (), w') | Some e \<Rightarrow> (Inl e, w')))"

definition open_serial :: "(world, unit) io" where
  "open_serial =
     io_then (act (Set_Dtr False)) (io_then (act (Set_Rts False)) (io_then (act Open_Port)
       (io_then (act (Set_Dtr False)) (act (Set_Rts False)))))"

definition pulse_en :: "real \<Rightarrow> (world, unit) io" where
  "pulse_en ms =
     io_then (act (Set_Dtr False)) (io_then (act (Set_Rts True))
       (io_then (sleep (ms / 1000)) (act (Set_Rts False))))"

text \<open>The polls of the device path: the clock reading and whether the path exists then.\<close>

fun wait_polls :: "real \<Rightarrow> (real \<times> bool) list \<Rightarrow> (world, unit) io" where
  "wait_polls deadline [] = io_raise (RuntimeError ''serial device did not reappear'')"
| "wait_polls deadline ((now, there) # ps) =
     (if \<not> now < deadline then io_raise (RuntimeError ''serial device did not reappear'')
      else if there then io_return ()
      else io_then (sleep (1 / 10)) (wait_polls deadline ps))"

definition wait_for_device :: "sram_env \<Rightarrow> real \<Rightarrow> (world, unit) io" where
  "wait_for_device env timeout =
     io_bind (io_get clock_reads) (\<lambda>k. io_bind (deadline_after env timeout) (\<lambda>d. wait_polls d (device_polls env k)))"

text \<open>\<open>power_duration\<close>: \<open>None\<close> for a reset, the seconds without power otherwise.\<close>

definition power_duration :: "string \<Rightarrow> real option result" where
  "power_duration cond =
     (if cond = ''rts'' then Inr None
      else if startswith cond ''power-'' then rbind (py_float (drop 6 cond)) (\<lambda>d. Inr (Some d))
      else Inl ValueError)"

definition given :: "string option \<Rightarrow> bool" where
  "given s = (s \<noteq> None \<and> s \<noteq> Some [])"

definition perform_transition :: "sram_env \<Rightarrow> sram_args \<Rightarrow> string \<Rightarrow> (world, unit) io" where
  "perform_transition env args cond =
     io_bind (io_lift (power_duration cond)) (\<lambda>duration.
     case duration of
       None \<Rightarrow> pulse_en (reset_pulse_ms args)
     | Some d \<Rightarrow>
         if \<not> given (power_off_command args) \<or> \<not> given (power_on_command args)
         then io_raise (RuntimeError ''power conditions require --power-off-command and --power-on-command'')
         else io_then (act Close_Port)
           (io_bind (io_lift (shlex_split (the (power_off_command args)))) (\<lambda>off.
            io_then (run_checked env off)
           (io_then (io_finally (sleep d)
              (io_bind (io_lift (shlex_split (the (power_on_command args)))) (run_checked env)))
           (io_then (wait_for_device env (device_timeout args)) open_serial)))))"

section \<open>The port and the log\<close>

definition do_read_capture :: "sram_env \<Rightarrow> real \<Rightarrow> (world, bytes \<times> int) io" where
  "do_read_capture env timeout =
     io_bind (deadline_after env timeout) (\<lambda>d w.
       case read_capture d (rx w) (serial_log w) of (r, lg, rest) \<Rightarrow> (r, w\<lparr>serial_log := lg, rx := rest\<rparr>))"

definition do_arm_pattern :: "sram_env \<Rightarrow> nat \<Rightarrow> real \<Rightarrow> (world, unit) io" where
  "do_arm_pattern env p timeout =
     io_then (act (Send (fill_command p))) (io_bind (deadline_after env timeout) (\<lambda>d w.
       case arm_loop d p (rx w) (serial_log w) of (r, lg, rest) \<Rightarrow> (r, w\<lparr>serial_log := lg, rx := rest\<rparr>)))"

section \<open>The captures\<close>

type_synonym job = "string \<times> nat \<times> nat"

text \<open>The three nested loops, as the list of their iterations.\<close>

definition plan :: "string list \<Rightarrow> nat \<Rightarrow> job list" where
  "plan conds reps = [(c, r, p). c \<leftarrow> conds, r \<leftarrow> [0..<reps], p \<leftarrow> PATTERNS]"

definition capture_name :: "nat \<Rightarrow> job \<Rightarrow> string" where
  "capture_name i j =
     (case j of (c, r, p) \<Rightarrow>
        ''capture_'' @ fmt_dec 4 i @ ''_'' @ c @ ''_rep'' @ fmt_dec 2 r @ ''_after_'' @ fmt_hex 2 p @ ''.bin'')"

definition capture_row :: "sram_env \<Rightarrow> nat \<Rightarrow> job \<Rightarrow> bytes \<Rightarrow> int \<Rightarrow> sram_row result" where
  "capture_row env i j data addr =
     (case j of (c, r, p) \<Rightarrow>
        rbind (bit_agreement data p) (\<lambda>ag.
        Inr \<lparr>capture_index = i, condition = c, repetition = r, pattern = p,
             transitioned_utc = transition_utc env i, captured_utc = capture_utc env i,
             runtime_address = (if addr < 0 then ''0x-'' @ nat_text 16 (nat (- addr)) else ''0x'' @ nat_text 16 (nat addr)),
             sha256 = sha256_hex env data,
             ones_fraction = real (sum_list (map bit_count data)) / (8 * real (length data)),
             agreement = ag,
             byte_match_fraction = real (count_list data (byte_of_nat p)) / real (length data),
             file_name = ''raw/'' @ capture_name i j\<rparr>))"

definition store_capture :: "sram_env \<Rightarrow> job \<Rightarrow> bytes \<times> int \<Rightarrow> (world, unit) io" where
  "store_capture env j res w =
     (case res of (data, addr) \<Rightarrow>
        let i = length (rows w); w' = w\<lparr>raw_files := dict_set (capture_name i j) data (raw_files w)\<rparr>
        in (case capture_row env i j data addr of
              Inl e \<Rightarrow> (Inl e, w')
            | Inr row \<Rightarrow> (Inr (), w'\<lparr>rows := rows w @ [row], payloads := payloads w @ [data]\<rparr>)))"

definition capture_once :: "sram_env \<Rightarrow> sram_args \<Rightarrow> job \<Rightarrow> (world, unit) io" where
  "capture_once env args j =
     (case j of (c, r, p) \<Rightarrow>
        io_then (do_arm_pattern env p (boot_timeout args))
       (io_then (perform_transition env args c)
       (io_bind (do_read_capture env (boot_timeout args)) (store_capture env j))))"

definition capture_all :: "sram_env \<Rightarrow> sram_args \<Rightarrow> string list \<Rightarrow> (world, unit) io" where
  "capture_all env args conds =
     io_then open_serial
       (io_finally
         (io_then (pulse_en (reset_pulse_ms args))
           (io_bind (do_read_capture env (boot_timeout args)) (\<lambda>_.
             io_each (capture_once env args) (plan conds (nat (repetitions args))))))
         (act Close_Port))"

section \<open>Setting up\<close>

definition west_command :: "sram_env \<Rightarrow> path \<Rightarrow> string list result" where
  "west_command env app_root =
     (case which_west env of
        Some w \<Rightarrow> if w \<noteq> [] then Inr [w] else Inl (RuntimeError ''west was not found'')
      | None \<Rightarrow>
          (case filter (present env)
             [parent app_root @ [''entropy-capsule-bootstrap'', ''.venv'', ''bin'', ''python''],
              parent app_root @ [''.venv'', ''bin'', ''python'']] of
             [] \<Rightarrow> Inl (RuntimeError ''west was not found'')
           | c # _ \<Rightarrow> Inr [path_str c, ''-m'', ''west'']))"

definition build_environment :: "sram_env \<Rightarrow> path \<Rightarrow> (string, string) dict \<Rightarrow> (string, string) dict" where
  "build_environment env app_root environ =
     (let e = dict_setdefault ''CCACHE_DISABLE'' ''1'' environ;
          sdk = ''ZEPHYR_SDK_INSTALL_DIR''
      in if dict_get_or e sdk [] \<noteq> [] then e
         else (case filter (\<lambda>c. present env (c @ [''sdk_version'']))
                 [parent (parent app_root) @ [''code'', ''zephyr-sdk-0.17.0''],
                  home env @ [''zephyr-sdk-0.17.0''], [''/'', ''opt'', ''zephyr-sdk-0.17.0'']] of
                 [] \<Rightarrow> e
               | c # _ \<Rightarrow> dict_set sdk (path_str (resolve env c)) e))"

definition condition_list :: "string \<Rightarrow> string list" where
  "condition_list s = filter (\<lambda>c. c \<noteq> []) (map strip (split_on CHR '','' s))"

definition check_conditions :: "string list \<Rightarrow> unit result" where
  "check_conditions cs = rbind (rmap power_duration cs) (\<lambda>_. Inr ())"

definition in_app :: "path \<Rightarrow> string \<Rightarrow> path" where
  "in_app app_root s = (let p = path_of s in if is_absolute p then p else path_div app_root p)"

definition make_manifest :: "sram_args \<Rightarrow> string list \<Rightarrow> sram_manifest" where
  "make_manifest args conds =
     \<lparr>m_board = board args, m_serial = serial args, m_region = REGION_BYTES,
      m_patterns = map (\<lambda>p. ''0x'' @ fmt_hex 2 p) PATTERNS, m_repetitions = repetitions args,
      m_conditions = conds,
      m_power_controller = (given (power_off_command args) \<and> given (power_on_command args))\<rparr>"

definition build_firmware :: "sram_env \<Rightarrow> sram_args \<Rightarrow> string list \<Rightarrow> path \<Rightarrow> path \<Rightarrow> (world, unit) io" where
  "build_firmware env args west bdir app_root =
     (if skip_build args then io_return ()
      else run_checked env (west @ [''build'', ''-p'', (if keep_build args then ''auto'' else ''always''), ''-d'',
             path_str bdir, ''-b'', board args, path_str app_root]))"

definition flash_firmware :: "sram_env \<Rightarrow> sram_args \<Rightarrow> string list \<Rightarrow> path \<Rightarrow> (world, unit) io" where
  "flash_firmware env args west bdir =
     (if skip_flash args then io_return ()
      else run_checked env (west @ [''flash'', ''-d'', path_str bdir, ''--esp-device'', serial args]))"

text \<open>The end of the run: the table of captures needs a first row, then the summary is made.\<close>

definition conclude :: "(world, sram_summary) io" where
  "conclude w = ((if rows w = [] then Inl IndexError else summarize (rows w) (payloads w)), w)"

definition sram_main :: "sram_env \<Rightarrow> sram_args \<Rightarrow> path \<Rightarrow> (world, sram_summary) io" where
  "sram_main env args app_root =
     (let conds = condition_list (conditions args); bdir = in_app app_root (build_dir args);
          odir = in_app app_root (out_dir args)
      in if repetitions args \<le> 0 then io_raise (SystemExit ''--repetitions must be positive'')
         else if conds = [] then io_raise (SystemExit ''at least one condition is required'')
         else io_bind (io_lift (check_conditions conds)) (\<lambda>_.
              if present env odir then io_raise (SystemExit ''output directory already exists'')
              else io_bind (io_lift (west_command env app_root)) (\<lambda>west.
                io_then (build_firmware env args west bdir app_root)
               (io_then (flash_firmware env args west bdir)
               (io_then (io_modify (\<lambda>w. w\<lparr>manifest := Some (make_manifest args conds),
                          evidence := linker_evidence (linker_map env (bdir @ [''zephyr'', ''zephyr.map'']))\<rparr>))
               (io_then (capture_all env args conds) conclude))))))"

section \<open>What the steps leave alone\<close>

definition same_results :: "world \<Rightarrow> world \<Rightarrow> bool" where
  "same_results v w \<longleftrightarrow> rows w = rows v \<and> payloads w = payloads v \<and> raw_files w = raw_files v"

interpretation quiet: preorder_effect same_results
  by unfold_locales (auto simp: same_results_def)

lemmas quiet_rules = quiet.rel_pure quiet.rel_bind quiet.rel_each quiet.rel_finally quiet.rel_if

lemma quiet_modify: "(\<And>w. same_results w (f w)) \<Longrightarrow> io_rel same_results (io_modify f)"
  by (simp add: io_rel_def io_run)

lemma quiet_act: "io_rel same_results (act a)"
  unfolding act_def by (rule quiet_modify) (simp add: same_results_def)

lemma quiet_sleep: "io_rel same_results (sleep d)"
  unfolding sleep_def by (intro quiet_rules quiet_act)

lemma quiet_deadline: "io_rel same_results (deadline_after env t)"
  by (simp add: io_rel_def deadline_after_def same_results_def)

lemma quiet_run_checked: "io_rel same_results (run_checked env cmd)"
  by (simp add: io_rel_def run_checked_def Let_def same_results_def split: option.split)

lemma quiet_pulse: "io_rel same_results (pulse_en ms)"
  unfolding pulse_en_def by (intro quiet_rules quiet_act quiet_sleep)

lemma quiet_open: "io_rel same_results open_serial"
  unfolding open_serial_def by (intro quiet_rules quiet_act)

lemma quiet_polls: "io_rel same_results (wait_polls d ps)"
proof (induction d ps rule: wait_polls.induct)
  case (2 d now present ps)
  then show ?case by (auto intro!: quiet_rules quiet_sleep)
qed (auto intro: quiet_rules)

lemma quiet_wait: "io_rel same_results (wait_for_device env t)"
  unfolding wait_for_device_def by (intro quiet_rules quiet_deadline quiet_polls)

lemma quiet_transition: "io_rel same_results (perform_transition env args c)"
  unfolding perform_transition_def
  by (intro quiet_rules; split option.split; intro conjI allI impI;
      intro quiet_rules quiet_pulse quiet_act quiet_run_checked quiet_sleep quiet_wait quiet_open)

lemma quiet_read: "io_rel same_results (do_read_capture env t)"
  unfolding do_read_capture_def
  by (intro quiet.rel_bind quiet_deadline) (simp add: io_rel_def same_results_def split: prod.split)

lemma quiet_arm: "io_rel same_results (do_arm_pattern env p t)"
  unfolding do_arm_pattern_def
  by (intro quiet.rel_bind quiet_deadline quiet_act) (simp add: io_rel_def same_results_def split: prod.split)

section \<open>One capture\<close>

lemma do_read_eq:
  "do_read_capture env t w =
     (case read_capture (clock env (clock_reads w) + t) (rx w) (serial_log w) of (r, lg, rest) \<Rightarrow>
        (r, w\<lparr>clock_reads := clock_reads w + 1, serial_log := lg, rx := rest\<rparr>))"
  by (simp add: do_read_capture_def io_bind_def deadline_after_def)

lemma do_arm_eq:
  "do_arm_pattern env p t w =
     (case arm_loop (clock env (clock_reads w) + t) p (rx w) (serial_log w) of (r, lg, rest) \<Rightarrow>
        (r, w\<lparr>actions := actions w @ [Send (fill_command p)], clock_reads := clock_reads w + 1, serial_log := lg, rx := rest\<rparr>))"
  by (simp add: do_arm_pattern_def io_bind_def deadline_after_def act_def io_run)

lemma read_capture_length:
  "read_capture_loop d rs c lg = (Inr (data, a), lg', rest) \<Longrightarrow> length (captured c) = REGION_BYTES \<Longrightarrow> length data = REGION_BYTES"
proof (induction d rs c lg rule: read_capture_loop.induct)
  case (2 d now raw rs c lg)
  show ?case
  proof (cases "raw = [] \<or> \<not> now < d")
    case True
    then show ?thesis using 2 by (auto split: if_splits)
  next
    case False
    then obtain c' r where l: "capture_line (line_of raw) c = Inr (c', r)"
      using "2.prems"(1) by (auto split: sum.splits)
    have len: "length (captured c') = REGION_BYTES" by (rule capture_line_length [OF l "2.prems"(2)])
    show ?thesis
    proof (cases r)
      case None
      with l False 2 len show ?thesis by auto
    next
      case (Some x)
      then have "x = (data, a)" using l False "2.prems"(1) by simp
      with Some l have "data = captured c"
        by (auto simp: capture_line_def result_simps split: if_splits option.splits)
      with "2.prems"(2) show ?thesis by simp
    qed
  qed
qed simp

text \<open>What one successful iteration adds, \<open>i\<close> being its number.\<close>

definition adds_capture :: "sram_env \<Rightarrow> job \<Rightarrow> world \<Rightarrow> world \<Rightarrow> bool" where
  "adds_capture env j w w' \<longleftrightarrow> (\<exists>data addr row.
     length data = REGION_BYTES \<and> capture_row env (length (rows w)) j data addr = Inr row
   \<and> rows w' = rows w @ [row] \<and> payloads w' = payloads w @ [data]
   \<and> raw_files w' = dict_set (capture_name (length (rows w)) j) data (raw_files w))"

lemma quiet_result: "io_rel same_results m \<Longrightarrow> m w = (r, w') \<Longrightarrow> same_results w w'"
  unfolding io_rel_def by (metis snd_conv)

lemma capture_once_adds:
  assumes "capture_once env args j w = (Inr (), w')"
  shows "adds_capture env j w w'"
proof -
  obtain c r p where j: "j = (c, r, p)" by (cases j) auto
  obtain w1 w2 w3 res where 1: "do_arm_pattern env p (boot_timeout args) w = (Inr (), w1)"
    and 2: "perform_transition env args c w1 = (Inr (), w2)"
    and 3: "do_read_capture env (boot_timeout args) w2 = (Inr res, w3)"
    and 4: "store_capture env j res w3 = (Inr (), w')"
    using assms by (auto simp: capture_once_def j io_bind_Inr)
  have same: "rows w3 = rows w" "payloads w3 = payloads w" "raw_files w3 = raw_files w"
    using quiet_result [OF quiet_arm 1] quiet_result [OF quiet_transition 2] quiet_result [OF quiet_read 3]
    by (simp_all add: same_results_def)
  obtain data addr where res: "res = (data, addr)" by (cases res) auto
  have "length data = REGION_BYTES"
    using 3 read_capture_length [of "clock env (clock_reads w2) + boot_timeout args" "rx w2" new_capture "serial_log w2" data addr]
    by (auto simp: do_read_eq res read_capture_def split: prod.splits) (simp add: new_capture_def)
  with 4 same show ?thesis
    by (auto simp: store_capture_def res adds_capture_def Let_def split: sum.splits)
qed

section \<open>A whole run\<close>

definition results_ok :: "sram_env \<Rightarrow> job list \<Rightarrow> world \<Rightarrow> bool" where
  "results_ok env jobs w \<longleftrightarrow>
     length (rows w) = length jobs \<and> length (payloads w) = length jobs
   \<and> (\<forall>i < length jobs. length (payloads w ! i) = REGION_BYTES
        \<and> (\<exists>addr. capture_row env i (jobs ! i) (payloads w ! i) addr = Inr (rows w ! i))
        \<and> dict_get (raw_files w) (capture_name i (jobs ! i)) = Some (payloads w ! i))"

lemma capture_name_inj:
  assumes "capture_name i j = capture_name k l"
  shows "i = k"
proof -
  obtain c r p c' r' p' where jl: "j = (c, r, p)" "l = (c', r', p')" by (cases j, cases l) auto
  have u: "digit_value 10 CHR ''_'' = None" by simp
  have "fmt_dec 4 i @ CHR ''_'' # (c @ ''_rep'' @ fmt_dec 2 r @ ''_after_'' @ fmt_hex 2 p @ ''.bin'')
      = fmt_dec 4 k @ CHR ''_'' # (c' @ ''_rep'' @ fmt_dec 2 r' @ ''_after_'' @ fmt_hex 2 p' @ ''.bin'')"
    using assms by (simp add: capture_name_def jl)
  from digits_then_other [OF fmt_dec_digits fmt_dec_digits u u this]
  have "fmt_dec 4 i = fmt_dec 4 k" by blast
  then show ?thesis by (simp add: fmt_dec_inject)
qed

lemma results_ok_step:
  assumes "results_ok env jobs w" and "adds_capture env j w w'"
  shows "results_ok env (jobs @ [j]) w'"
proof -
  obtain data addr row where d: "length data = REGION_BYTES" "capture_row env (length jobs) j data addr = Inr row"
    and w': "rows w' = rows w @ [row]" "payloads w' = payloads w @ [data]"
      "raw_files w' = dict_set (capture_name (length jobs) j) data (raw_files w)"
    using assms by (auto simp: adds_capture_def results_ok_def)
  have "dict_get (raw_files w') (capture_name i (jobs ! i)) = Some (payloads w ! i)" if "i < length jobs" for i
  proof -
    have "capture_name i (jobs ! i) \<noteq> capture_name (length jobs) j"
      using capture_name_inj [of i "jobs ! i" "length jobs" j] that by auto
    then show ?thesis using assms(1) that by (simp add: w' results_ok_def)
  qed
  moreover have "dict_get (raw_files w') (capture_name (length jobs) j) = Some data" by (simp add: w')
  ultimately show ?thesis
    using assms(1) d w'(1,2) by (auto simp: results_ok_def nth_append less_Suc_eq)
qed

lemma capture_each_ok:
  "results_ok env done w \<Longrightarrow> io_each (capture_once env args) jobs w = (Inr (), w') \<Longrightarrow> results_ok env (done @ jobs) w'"
proof (induction jobs arbitrary: w "done")
  case Nil
  then show ?case by (simp add: io_run)
next
  case (Cons j jobs)
  then obtain w1 where "capture_once env args j w = (Inr (), w1)" "io_each (capture_once env args) jobs w1 = (Inr (), w')"
    by (auto simp: io_bind_Inr)
  from Cons.IH [OF results_ok_step [OF Cons.prems(1) capture_once_adds [OF this(1)]] this(2)]
  show ?case by simp
qed

lemma capture_all_ok:
  assumes "capture_all env args conds w = (Inr (), w')" and "results_ok env [] w"
  shows "results_ok env (plan conds (nat (repetitions args))) w'"
proof -
  let ?loop = "io_each (capture_once env args) (plan conds (nat (repetitions args)))"
  obtain w1 w2 w3 res w4 where 1: "open_serial w = (Inr (), w1)" and 2: "pulse_en (reset_pulse_ms args) w1 = (Inr (), w2)"
    and 3: "do_read_capture env (boot_timeout args) w2 = (Inr res, w3)" and 4: "?loop w3 = (Inr (), w4)"
    and 5: "act Close_Port w4 = (Inr (), w')"
    using assms(1) unfolding capture_all_def io_bind_Inr io_finally_Inr by auto
  have "results_ok env [] w3"
    using assms(2) quiet_result [OF quiet_open 1] quiet_result [OF quiet_pulse 2] quiet_result [OF quiet_read 3]
    by (simp add: results_ok_def same_results_def)
  from capture_each_ok [OF this 4] quiet_result [OF quiet_act 5] show ?thesis
    by (simp add: results_ok_def same_results_def)
qed

definition job_of :: "sram_row \<Rightarrow> job" where
  "job_of r = (condition r, repetition r, pattern r)"

lemma capture_row_fields:
  "capture_row env i j data addr = Inr r \<Longrightarrow>
     capture_index r = i \<and> job_of r = j \<and> sha256 r = sha256_hex env data \<and> file_name r = ''raw/'' @ capture_name i j
   \<and> bit_agreement data (pattern r) = Inr (agreement r)"
  by (cases j) (auto simp: capture_row_def job_of_def result_simps)

lemma length_plan: "length (plan conds reps) = length conds * reps * 4"
proof -
  have "length (concat (map (\<lambda>r. map (\<lambda>p. (c, r, p)) PATTERNS) [0..<reps])) = reps * 4" for c :: string
    by (induction reps) (simp_all add: PATTERNS_def)
  then show ?thesis by (induction conds) (simp_all add: plan_def)
qed

text \<open>The experiment's results are those of a finished plan.\<close>

definition experiment_done :: "sram_env \<Rightarrow> job list \<Rightarrow> world \<Rightarrow> sram_summary \<Rightarrow> bool" where
  "experiment_done env jobs w s \<longleftrightarrow>
     map job_of (rows w) = jobs \<and> map capture_index (rows w) = [0..<length jobs] \<and> length (payloads w) = length jobs
   \<and> s_captures s = length jobs \<and> sum_list (map g_captures (s_groups s)) = length jobs
   \<and> (\<forall>i < length jobs. length (payloads w ! i) = REGION_BYTES
        \<and> dict_get (raw_files w) (capture_name i (jobs ! i)) = Some (payloads w ! i)
        \<and> file_name (rows w ! i) = ''raw/'' @ capture_name i (jobs ! i)
        \<and> sha256 (rows w ! i) = sha256_hex env (payloads w ! i)
        \<and> bit_agreement (payloads w ! i) (pattern (rows w ! i)) = Inr (agreement (rows w ! i)))"

lemma summarize_counts:
  assumes "windows n ps" and "length ps = length rs" and "rs \<noteq> []" and "summarize rs ps = Inr s"
  shows "s_captures s = length rs \<and> sum_list (map g_captures (s_groups s)) = length rs"
proof -
  obtain t where "summarize rs ps = Inr t" "s_captures t = length rs"
    "sum_list (map g_captures (s_groups t)) = length rs"
    using summary_total [OF assms(1-3)] by blast
  with assms(4) show ?thesis by simp
qed

lemma results_done:
  assumes "results_ok env jobs w" and "conclude w = (Inr s, w')"
  shows "w' = w \<and> experiment_done env jobs w s"
proof -
  have len: "length (rows w) = length jobs" "length (payloads w) = length jobs"
    and each: "\<And>i. i < length jobs \<Longrightarrow> length (payloads w ! i) = REGION_BYTES
        \<and> (\<exists>addr. capture_row env i (jobs ! i) (payloads w ! i) addr = Inr (rows w ! i))
        \<and> dict_get (raw_files w) (capture_name i (jobs ! i)) = Some (payloads w ! i)"
    using assms(1) by (simp_all add: results_ok_def)
  have row: "capture_index (rows w ! i) = i \<and> job_of (rows w ! i) = jobs ! i
      \<and> sha256 (rows w ! i) = sha256_hex env (payloads w ! i) \<and> file_name (rows w ! i) = ''raw/'' @ capture_name i (jobs ! i)
      \<and> bit_agreement (payloads w ! i) (pattern (rows w ! i)) = Inr (agreement (rows w ! i))" if "i < length jobs" for i
    using each [OF that] capture_row_fields by blast
  have rest: "map job_of (rows w) = jobs" "map capture_index (rows w) = [0..<length jobs]"
    using row len by (auto intro!: nth_equalityI)
  have ne: "rows w \<noteq> []" and sm: "summarize (rows w) (payloads w) = Inr s" and w': "w' = w"
    using assms(2) by (auto simp: conclude_def split: if_splits)
  have "windows REGION_BYTES (payloads w)"
    using each len by (auto simp: in_set_conv_nth REGION_BYTES_def)
  from summarize_counts [OF this _ ne sm] len row each rest show ?thesis
    by (simp add: experiment_done_def w')
qed

lemma main_done:
  assumes "sram_main env args app_root w = (Inr s, w')" and "results_ok env [] w"
  shows "experiment_done env (plan (condition_list (conditions args)) (nat (repetitions args))) w' s"
proof -
  let ?cs = "condition_list (conditions args)" and ?b = "in_app app_root (build_dir args)"
  obtain w1 w2 w3 w4 west where 1: "build_firmware env args west ?b app_root w = (Inr (), w1)"
    and 2: "flash_firmware env args west ?b w1 = (Inr (), w2)"
    and 3: "w3 = w2\<lparr>manifest := Some (make_manifest args ?cs),
        evidence := linker_evidence (linker_map env (?b @ [''zephyr'', ''zephyr.map'']))\<rparr>"
    and 4: "capture_all env args ?cs w3 = (Inr (), w4)" and 5: "conclude w4 = (Inr s, w')"
    using assms(1) by (auto simp: sram_main_def Let_def io_bind_Inr io_run split: if_splits)
  have q: "io_rel same_results (build_firmware env args west ?b app_root)" "io_rel same_results (flash_firmware env args west ?b)"
    unfolding build_firmware_def flash_firmware_def by (intro quiet_rules quiet_run_checked)+
  have "results_ok env [] w3"
    using assms(2) quiet_result [OF q(1) 1] quiet_result [OF q(2) 2]
    by (simp add: 3 results_ok_def same_results_def)
  from results_done [OF capture_all_ok [OF 4 this] 5] show ?thesis by simp
qed

section \<open>A device that answers\<close>

text \<open>The port of a device whose lines are all there: each reading was admitted at time zero.\<close>

definition at_once :: "bytes list \<Rightarrow> reading list" where
  "at_once raws = map (\<lambda>raw. (0, raw)) raws"

definition answer :: "int \<Rightarrow> job \<times> bytes \<Rightarrow> bytes list" where
  "answer a jm = (case jm of ((c, r, p), mem) \<Rightarrow> uart_line (armed_line p True) # dump_bytes (nat a) mem)"

definition session :: "int \<Rightarrow> bytes \<Rightarrow> (job \<times> bytes) list \<Rightarrow> reading list" where
  "session a first jms = at_once (dump_bytes (nat a) first @ concat (map (answer a) jms))"

lemma loop_prefix:
  "list_all (\<lambda>r. fst r < d) rs \<Longrightarrow> capture_run (lines_read rs) c = Inr (c', None) \<Longrightarrow>
     read_capture_loop d (rs @ rest) c lg = read_capture_loop d rest c' (lg @ concat (map snd rs))"
proof (induction rs arbitrary: c lg)
  case (Cons r rs)
  then show ?case
    by (cases r; cases "snd r = []") (auto simp: rbind_eq_Inr split: option.splits)
qed simp

lemma read_dump:
  assumes "0 < d" and "length mem = REGION_BYTES"
  shows "read_capture d (at_once (dump_bytes a mem) @ rest) lg = (Inr (mem, int a), lg @ concat (dump_bytes a mem), rest)"
proof -
  have nc: "length (captured new_capture) = REGION_BYTES" by (simp add: new_capture_def)
  let ?pre = "at_once (map uart_line (print_capture a mem))"
  obtain c' where c': "capture_run (print_capture a mem) new_capture = Inr (c', None)"
    "capture_line ready_line c' = Inr (c', Some (mem, int a))"
    using capture_run_print [OF nc assms(2), of a] by blast
  have split: "at_once (dump_bytes a mem) = ?pre @ [(0, uart_line ready_line)]"
    by (simp add: at_once_def dump_bytes_def)
  have ml: "map line_of (map uart_line (print_capture a mem)) = print_capture a mem" "line_of (uart_line ready_line) = ready_line"
    using line_of_dump [of a mem] by (simp_all add: dump_bytes_def)
  have ne: "filter (\<lambda>raw. raw \<noteq> []) (map uart_line ls) = map uart_line ls" for ls
    by (auto simp: uart_line_nonempty intro!: filter_True)
  have lr: "lines_read ?pre = print_capture a mem"
    using ml(1) by (simp add: lines_read_def at_once_def o_def ne [unfolded o_def])
  have "list_all (\<lambda>r. fst r < d) ?pre" using assms(1) by (simp add: at_once_def list_all_iff)
  from loop_prefix [OF this, of new_capture c' "(0, uart_line ready_line) # rest" lg] c' lr ml(2) assms(1)
  show ?thesis
    by (simp add: read_capture_def split uart_line_nonempty) (simp add: at_once_def dump_bytes_def o_def)
qed

lemma arm_answered:
  assumes "0 < d"
  shows "arm_loop d p ((0, uart_line (armed_line p True)) # rest) lg = (Inr (), lg @ uart_line (armed_line p True), rest)"
  using assms armed_line_read [of p True] by (simp add: uart_line_nonempty)

lemma pulse_runs:
  "0 \<le> ms \<Longrightarrow> \<exists>as. pulse_en ms w = (Inr (), w\<lparr>actions := actions w @ as\<rparr>)"
  by (auto simp: pulse_en_def sleep_def act_def io_bind_def io_run)

lemma open_runs: "\<exists>as. open_serial w = (Inr (), w\<lparr>actions := actions w @ as\<rparr>)"
  by (auto simp: open_serial_def act_def io_bind_def io_run)

lemma capture_row_total: "data \<noteq> [] \<Longrightarrow> \<exists>row. capture_row env i j data addr = Inr row"
  by (cases j) (auto simp: capture_row_def bit_agreement_def Let_def)

lemma transition_rts:
  assumes "0 \<le> reset_pulse_ms args"
  shows "\<exists>as. perform_transition env args ''rts'' w = (Inr (), w\<lparr>actions := actions w @ as\<rparr>)"
  using pulse_runs [OF assms, of w]
  by (simp add: perform_transition_def power_duration_def io_bind_def io_run)

lemma capture_once_answered:
  assumes "0 \<le> reset_pulse_ms args" and "\<And>k. 0 < clock env k + boot_timeout args" and "length mem = REGION_BYTES"
    and "rx w = at_once (answer a ((''rts'', r, p), mem)) @ rest"
  shows "\<exists>w'. capture_once env args (''rts'', r, p) w = (Inr (), w') \<and> rx w' = rest \<and> payloads w' = payloads w @ [mem]"
proof -
  let ?line = "uart_line (armed_line p True)"
  let ?w1 = "w\<lparr>actions := actions w @ [Send (fill_command p)], clock_reads := clock_reads w + 1,
    serial_log := serial_log w @ ?line, rx := at_once (dump_bytes (nat a) mem) @ rest\<rparr>"
  have rx: "rx w = (0, ?line) # at_once (dump_bytes (nat a) mem) @ rest"
    using assms(4) by (simp add: answer_def at_once_def)
  have 1: "do_arm_pattern env p (boot_timeout args) w = (Inr (), ?w1)"
    using arm_answered [OF assms(2)] by (simp add: do_arm_eq rx)
  obtain as where 2: "perform_transition env args ''rts'' ?w1 = (Inr (), ?w1\<lparr>actions := actions ?w1 @ as\<rparr>)" (is "_ = (_, ?w2)")
    using transition_rts [OF assms(1)] by blast
  let ?w3 = "?w2\<lparr>clock_reads := clock_reads ?w2 + 1,
    serial_log := serial_log ?w2 @ concat (dump_bytes (nat a) mem), rx := rest\<rparr>"
  have 3: "do_read_capture env (boot_timeout args) ?w2 = (Inr (mem, int (nat a)), ?w3)"
    using read_dump [OF assms(2,3)] by (simp add: do_read_eq)
  have "mem \<noteq> []" using assms(3) by (auto simp: REGION_BYTES_def)
  then obtain row where "capture_row env (length (rows w)) (''rts'', r, p) mem (int (nat a)) = Inr row"
    using capture_row_total by blast
  then have 4: "store_capture env (''rts'', r, p) (mem, int (nat a)) ?w3
      = (Inr (), ?w3\<lparr>raw_files := dict_set (capture_name (length (rows w)) (''rts'', r, p)) mem (raw_files w),
          rows := rows w @ [row], payloads := payloads w @ [mem]\<rparr>)"
    by (simp add: store_capture_def)
  have "capture_once env args (''rts'', r, p) w
      = (Inr (), ?w3\<lparr>raw_files := dict_set (capture_name (length (rows w)) (''rts'', r, p)) mem (raw_files w),
          rows := rows w @ [row], payloads := payloads w @ [mem]\<rparr>)"
    unfolding capture_once_def prod.case by (rule io_bindI, rule 1, rule io_bindI, rule 2, rule io_bindI, rule 3, rule 4)
  then show ?thesis by simp
qed

lemma captures_answered:
  assumes "0 \<le> reset_pulse_ms args" and "\<And>k. 0 < clock env k + boot_timeout args"
    and "list_all (\<lambda>(j, mem). fst j = ''rts'' \<and> length mem = REGION_BYTES) jms"
    and "rx w = at_once (concat (map (answer a) jms)) @ rest"
  shows "\<exists>w'. io_each (capture_once env args) (map fst jms) w = (Inr (), w') \<and> payloads w' = payloads w @ map snd jms"
  using assms(3,4)
proof (induction jms arbitrary: w)
  case Nil
  then show ?case by (simp add: io_run)
next
  case (Cons jm jms)
  obtain r p mem where jm: "jm = ((''rts'', r, p), mem)" and len: "length mem = REGION_BYTES"
    using Cons.prems(1) by (cases jm; cases "fst jm") auto
  have "rx w = at_once (answer a ((''rts'', r, p), mem)) @ at_once (concat (map (answer a) jms)) @ rest"
    using Cons.prems(2) by (simp add: jm at_once_def)
  then obtain w1 where 1: "capture_once env args (''rts'', r, p) w = (Inr (), w1)"
    and rx: "rx w1 = at_once (concat (map (answer a) jms)) @ rest" and p: "payloads w1 = payloads w @ [mem]"
    using capture_once_answered [OF assms(1,2) len] by blast
  from Cons.IH [OF _ rx] Cons.prems(1) obtain w2
    where 2: "io_each (capture_once env args) (map fst jms) w1 = (Inr (), w2)" "payloads w2 = payloads w1 @ map snd jms"
    by auto
  have "io_each (capture_once env args) (map fst (jm # jms)) w = (Inr (), w2)"
    by (simp add: jm) (rule io_bindI, rule 1, rule 2(1))
  with p 2(2) show ?case by (simp add: jm)
qed

lemma experiment_runs:
  assumes conds: "condition_list (conditions args) = conds" "conds \<noteq> []" "list_all (\<lambda>c. c = ''rts'') conds"
    and host: "0 < repetitions args" "\<not> present env (in_app app_root (out_dir args))"
      "west_command env app_root = Inr west" "\<And>k. command_error env k = None"
    and times: "0 \<le> reset_pulse_ms args" "\<And>k. 0 < clock env k + boot_timeout args"
    and mems: "length mems = length conds * nat (repetitions args) * 4" "list_all (\<lambda>m. length m = REGION_BYTES) (first # mems)"
    and port: "rx w = session a first (zip (plan conds (nat (repetitions args))) mems)"
    and fresh: "results_ok env [] w"
  shows "\<exists>s w'. sram_main env args app_root w = (Inr s, w') \<and> payloads w' = mems
    \<and> experiment_done env (plan conds (nat (repetitions args))) w' s"
proof -
  let ?plan = "plan conds (nat (repetitions args))" and ?b = "in_app app_root (build_dir args)"
  let ?upd = "\<lambda>w. w\<lparr>manifest := Some (make_manifest args conds),
    evidence := linker_evidence (linker_map env (?b @ [''zephyr'', ''zephyr.map'']))\<rparr>"
  have cc: "check_conditions conds = Inr ()"
  proof -
    have "rmap power_duration conds = Inr (map (\<lambda>_. None) conds)"
      using conds(3) by (intro rmap_Inr) (auto simp: list_all_iff power_duration_def)
    then show ?thesis by (simp add: check_conditions_def)
  qed
  have run: "\<exists>as n. run_checked env cmd w = (Inr (), w\<lparr>actions := actions w @ as, commands_run := n\<rparr>)" for cmd w
    using host(4) by (auto simp: run_checked_def)
  have keep: "\<exists>w'. m w = (Inr (), w') \<and> rx w' = rx w \<and> same_results w w'"
    if "m = io_return () \<or> (\<exists>cmd. m = run_checked env cmd)" for m w
    using that
  proof (elim disjE exE)
    fix cmd assume "m = run_checked env cmd"
    with run [of cmd w] show ?thesis by (auto simp: same_results_def)
  qed (auto simp: io_run same_results_def)
  have m1: "build_firmware env args west ?b app_root = io_return ()
      \<or> (\<exists>cmd. build_firmware env args west ?b app_root = run_checked env cmd)"
    unfolding build_firmware_def by (cases "skip_build args") auto
  have m2: "flash_firmware env args west ?b = io_return () \<or> (\<exists>cmd. flash_firmware env args west ?b = run_checked env cmd)"
    unfolding flash_firmware_def by (cases "skip_flash args") auto
  obtain w1 where 1: "build_firmware env args west ?b app_root w = (Inr (), w1)" "rx w1 = rx w" "same_results w w1"
    using keep [OF m1] by blast
  obtain w2 where 2: "flash_firmware env args west ?b w1 = (Inr (), w2)" "rx w2 = rx w1" "same_results w1 w2"
    using keep [OF m2] by blast
  let ?w3 = "?upd w2"
  obtain a1 where o: "open_serial ?w3 = (Inr (), ?w3\<lparr>actions := actions ?w3 @ a1\<rparr>)" (is "_ = (_, ?w4)")
    using open_runs by blast
  obtain a2 where pl: "pulse_en (reset_pulse_ms args) ?w4 = (Inr (), ?w4\<lparr>actions := actions ?w4 @ a2\<rparr>)" (is "_ = (_, ?w5)")
    using pulse_runs [OF times(1)] by blast
  let ?jms = "zip ?plan mems"
  let ?rest = "at_once (concat (map (answer a) ?jms))"
  let ?w6 = "?w5\<lparr>clock_reads := clock_reads ?w5 + 1, serial_log := serial_log ?w5 @ concat (dump_bytes (nat a) first), rx := ?rest\<rparr>"
  have "rx ?w5 = at_once (dump_bytes (nat a) first) @ ?rest"
    using 1(2) 2(2) port by (simp add: session_def at_once_def)
  then have rd: "do_read_capture env (boot_timeout args) ?w5 = (Inr (first, int (nat a)), ?w6)"
    using read_dump [OF times(2), of first] mems(2) by (simp add: do_read_eq)
  have plan_len: "length ?plan = length mems" using mems(1) by (simp add: length_plan)
  have jobs: "list_all (\<lambda>(j, mem). fst j = ''rts'' \<and> length mem = REGION_BYTES) ?jms"
  proof -
    have "fst j = ''rts'' \<and> length mem = REGION_BYTES" if "(j, mem) \<in> set ?jms" for j mem
    proof
      from that have "j \<in> set ?plan" by (rule set_zip_leftD)
      then show "fst j = ''rts''" using conds(3) by (auto simp: plan_def list_all_iff)
      from that have "mem \<in> set mems" by (rule set_zip_rightD)
      then show "length mem = REGION_BYTES" using mems(2) by (simp add: list_all_iff)
    qed
    then show ?thesis by (auto simp: list_all_iff)
  qed
  obtain w7 where 7: "io_each (capture_once env args) ?plan ?w6 = (Inr (), w7)" "payloads w7 = payloads ?w6 @ mems"
    using captures_answered [OF times jobs, of ?w6 a "[]"] plan_len by auto
  have ca: "capture_all env args conds ?w3 = (Inr (), w7\<lparr>actions := actions w7 @ [Close_Port]\<rparr>)" (is "_ = (_, ?w8)")
    unfolding capture_all_def
    by (rule io_bindI, rule o, rule io_finallyI, rule io_bindI, rule pl, rule io_bindI, rule rd, rule 7(1))
      (simp add: act_def io_run)
  have r8: "results_ok env ?plan ?w8"
    using capture_all_ok [OF ca] fresh 1(3) 2(3) by (simp add: results_ok_def same_results_def)
  have p8: "payloads ?w8 = mems"
    using 7(2) fresh 1(3) 2(3) by (simp add: results_ok_def same_results_def)
  have lr: "length (rows ?w8) = length mems" using r8 plan_len by (simp add: results_ok_def)
  have pos: "0 < length mems" using mems(1) conds(2) host(1) by simp
  have "windows REGION_BYTES mems" using mems(2) by (simp add: REGION_BYTES_def list_all_iff)
  then obtain s where s: "summarize (rows ?w8) mems = Inr s"
    using summary_total [of REGION_BYTES mems "rows ?w8"] lr pos by fastforce
  have cl: "conclude ?w8 = (Inr s, ?w8)" using s p8 lr pos by (auto simp: conclude_def)
  have md: "io_modify ?upd w2 = (Inr (), ?w3)" by (simp add: io_run)
  have "sram_main env args app_root w = (Inr s, ?w8)"
  proof -
    have guards: "\<not> repetitions args \<le> 0" using host(1) by simp
    have l: "io_lift (Inr x) v = (Inr x, v)" for x :: 'x and v :: world by (simp add: io_run)
    show ?thesis
      unfolding sram_main_def Let_def conds(1) if_not_P [OF guards] if_not_P [OF conds(2)] cc
      by (rule io_bindI, rule l, unfold if_not_P [OF host(2)] host(3),
          rule io_bindI, rule l, rule io_bindI, rule 1(1), rule io_bindI, rule 2(1), rule io_bindI, rule md,
          rule io_bindI, rule ca, rule cl)
  qed
  with results_done [OF r8 cl] p8 show ?thesis by blast
qed

text \<open>
  C5: Whenever the experiment ends without an exception, its results are exactly those of the plan:
  one capture per condition, repetition and pattern, in loop order and numbered from zero; each
  has 4096 bytes, is in a raw file of its own under the name its row gives, and its hash and
  agreement are those of these bytes; and the summary's groups account for every capture.
\<close>

theorem experiment_results:
  assumes "sram_main env args app_root w = (Inr s, w')" and "rows w = []" and "payloads w = []"
  shows "experiment_done env (plan (condition_list (conditions args)) (nat (repetitions args))) w' s"
  using assms by (intro main_done) (simp_all add: results_ok_def)


text \<open>A small run for the witnesses: one reset condition, one repetition.\<close>

definition demo_env :: sram_env where
  "demo_env = \<lparr>clock = (\<lambda>_. 0), command_error = (\<lambda>_. None), device_polls = (\<lambda>_. []), present = (\<lambda>_. False),
     resolve = (\<lambda>p. p), home = [''/'', ''home''], which_west = Some ''west'', linker_map = (\<lambda>_. None),
     transition_utc = (\<lambda>_. ''t''), capture_utc = (\<lambda>_. ''c''), sha256_hex = hex_of\<rparr>"

definition demo_args :: sram_args where
  "demo_args = \<lparr>serial = ''/dev/ttyUSB0'', board = ''b'', build_dir = ''build'', out_dir = ''out'', repetitions = 1,
     conditions = ''rts'', power_off_command = Some ''relay off'', power_on_command = Some ''relay on'', boot_timeout = 20,
     device_timeout = 60, reset_pulse_ms = 100, skip_build = False, skip_flash = False, keep_build = False\<rparr>"

definition demo_mems :: "bytes list" where
  "demo_mems = map (\<lambda>b. replicate REGION_BYTES b) [0, 255, 170, 85]"

definition demo_world :: world where
  "demo_world = \<lparr>rx = session 64 (replicate REGION_BYTES 7) (zip (plan [''rts''] 1) demo_mems), serial_log = [],
     actions = [], clock_reads = 0, commands_run = 0, raw_files = [], rows = [], payloads = [], manifest = None, evidence = []\<rparr>"

lemma demo_facts:
  "condition_list (conditions demo_args) = [''rts'']" "repetitions demo_args = 1"
  "\<not> present demo_env p" "west_command demo_env app = Inr [''west'']" "command_error demo_env k = None"
  "0 \<le> reset_pulse_ms demo_args" "0 < clock demo_env k + boot_timeout demo_args"
  "length demo_mems = 4" "list_all (\<lambda>m. length m = REGION_BYTES) (replicate REGION_BYTES 7 # demo_mems)"
  "rx demo_world = session 64 (replicate REGION_BYTES 7) (zip (plan [''rts''] 1) demo_mems)"
  "rows demo_world = []" "payloads demo_world = []"
proof -
  show "condition_list (conditions demo_args) = [''rts'']"
    by (simp add: condition_list_def demo_args_def split_on_def strip_def lstrip_def rstrip_def is_space_def code_def)
qed (simp_all add: demo_args_def demo_env_def west_command_def demo_mems_def demo_world_def)

lemma demo_run: "\<exists>s w'. sram_main demo_env demo_args [] demo_world = (Inr s, w')"
  using experiment_runs [of demo_args "[''rts'']" demo_env "[]" "[''west'']" demo_mems "replicate REGION_BYTES 7" demo_world 64]
    demo_facts by (auto simp: results_ok_def)

theorem experiment_results_witness:
  "\<exists>s w'. sram_main demo_env demo_args [] demo_world = (Inr s, w') \<and> experiment_done demo_env (plan [''rts''] 1) w' s"
proof -
  obtain s w' where run: "sram_main demo_env demo_args [] demo_world = (Inr s, w')" using demo_run by blast
  from experiment_results [OF this demo_facts(11,12)] run demo_facts(1,2) show ?thesis by auto
qed


section \<open>Power\<close>

definition extends_actions :: "world \<Rightarrow> world \<Rightarrow> bool" where
  "extends_actions v w \<longleftrightarrow> (\<exists>as. actions w = actions v @ as)"

interpretation history: preorder_effect extends_actions
  by unfold_locales (auto simp: extends_actions_def)

lemmas history_rules = history.rel_pure history.rel_bind history.rel_each history.rel_finally history.rel_if

lemma history_act: "io_rel extends_actions (act a)"
  by (simp add: io_rel_def act_def io_run extends_actions_def)

lemma history_sleep: "io_rel extends_actions (sleep d)"
  unfolding sleep_def by (intro history_rules history_act)

lemma history_polls: "io_rel extends_actions (wait_polls d ps)"
proof (induction d ps rule: wait_polls.induct)
  case (2 d now there ps)
  then show ?case by (auto intro!: history_rules history_sleep)
qed (auto intro: history_rules)

lemma history_reconnect: "io_rel extends_actions (io_then (wait_for_device env t) open_serial)"
  unfolding wait_for_device_def open_serial_def
  by (intro history_rules history_act history_polls)
    (simp add: io_rel_def deadline_after_def extends_actions_def)

text \<open>
  Power is always restored: in a power condition, once the command that removes power has
  succeeded, the command that restores it is run, exactly once and before anything but the pause
  itself, even when the pause raises. Nothing done on the board before is undone or repeated.
\<close>

theorem power_is_restored:
  assumes "power_duration cond = Inr (Some d)"
    and "power_off_command args = Some a" and "a \<noteq> []" and "power_on_command args = Some b" and "b \<noteq> []"
    and "shlex_split a = Inr off" and "shlex_split b = Inr on" and "command_error env (commands_run w) = None"
  shows "\<exists>pause rest. actions (snd (perform_transition env args cond w))
      = actions w @ [Close_Port, Run_Command off] @ pause @ [Run_Command on] @ rest
    \<and> pause = (if d < 0 then [] else [Sleep d])"
proof -
  let ?pause = "if d < 0 then [] else [Sleep d]"
  let ?reconnect = "io_then (wait_for_device env (device_timeout args)) open_serial"
  define w1 where "w1 = w\<lparr>actions := actions w @ [Close_Port, Run_Command off], commands_run := commands_run w + 1\<rparr>"
  define fin where "fin = io_bind (io_lift (shlex_split b)) (run_checked env)"
  have "perform_transition env args cond w = io_then (io_finally (sleep d) fin) ?reconnect w1"
    using assms by (simp add: perform_transition_def given_def io_bind_def io_run act_def run_checked_def fin_def w1_def Let_def)
  moreover have "\<exists>r. io_finally (sleep d) fin w1 = (r, w1\<lparr>actions := actions w1 @ ?pause @ [Run_Command on],
      commands_run := commands_run w1 + 1\<rparr>)"
    using assms(7) by (auto simp: io_finally_def sleep_def fin_def io_bind_def io_run act_def run_checked_def Let_def
        split: option.splits)
  then obtain r w2 where "io_finally (sleep d) fin w1 = (r, w2)" and w2: "actions w2 = actions w1 @ ?pause @ [Run_Command on]"
    by auto
  ultimately have "extends_actions w2 (snd (perform_transition env args cond w))"
    using history_reconnect [of env "device_timeout args"] history.refl
    by (cases r) (auto simp: io_bind_def io_rel_def)
  then show ?thesis by (auto simp: extends_actions_def w2 w1_def)
qed

theorem power_is_restored_witness:
  "\<exists>rest. actions (snd (perform_transition demo_env demo_args ''power-10'' demo_world))
     = [Close_Port, Run_Command [''relay'', ''off''], Sleep 10, Run_Command [''relay'', ''on'']] @ rest"
proof -
  have "power_duration ''power-10'' = Inr (Some 10)"
    by (simp add: power_duration_def startswith_def py_float_def int_strip_def is_space_def is_ascii_space_def code_def
        Let_def split_sign_def lower_def is_digit_char_def read_decimal_def read_exponent_def float_max_bound_def
        scale10_def dec_value_def)
  moreover have "shlex_split ''relay off'' = Inr [''relay'', ''off'']" "shlex_split ''relay on'' = Inr [''relay'', ''on'']"
    by (simp_all add: shlex_split_def lex_space_def lex_quote_def lex_escape_def code_def)
  ultimately show ?thesis
    using power_is_restored [of "''power-10''" 10 demo_args "''relay off''" "''relay on''" "[''relay'', ''off'']"
        "[''relay'', ''on'']" demo_env demo_world]
    by (simp add: demo_args_def demo_env_def demo_world_def)
qed

end
