(* ===== verification/RebootFiles.thy ===== *)
theory RebootFiles
  imports PyIO PyPath PyDict PyNumber
begin

text \<open>
  What the reboot-slice scripts share: JSON values as \<open>json.loads\<close> gives them, a file system
  whose files hold bytes or a document (JSON, text lines, a CSV table) at the level the scripts
  write it, and the programs they run. Parameters: the text of a float or of a nested value, the
  bytes a document has on disk and the document a byte string reads as.
\<close>

section \<open>JSON values\<close>

datatype json =
    JNull | JBool bool | JInt int | JFloat real | JStr string
  | JArr "json list" | JObj "(string \<times> json) list"

text \<open>\<open>value.get(key, default)\<close>: only a dict has it.\<close>

definition json_get :: "string \<Rightarrow> json \<Rightarrow> json \<Rightarrow> json result" where
  "json_get k dflt j = (case j of JObj d \<Rightarrow> Inr (dict_get_or d k dflt) | _ \<Rightarrow> Inl AttributeError)"

text \<open>\<open>for x in value\<close>: a dict gives its keys, a string its characters.\<close>

definition json_iter :: "json \<Rightarrow> json list result" where
  "json_iter j =
     (case j of JArr vs \<Rightarrow> Inr vs | JObj d \<Rightarrow> Inr (map (JStr \<circ> fst) d) | JStr s \<Rightarrow> Inr (map (\<lambda>c. JStr [c]) s)
      | _ \<Rightarrow> Inl TypeError)"

definition json_truth :: "json \<Rightarrow> bool" where
  "json_truth j =
     (case j of JNull \<Rightarrow> False | JBool b \<Rightarrow> b | JInt i \<Rightarrow> i \<noteq> 0 | JFloat r \<Rightarrow> r \<noteq> 0 | JStr s \<Rightarrow> s \<noteq> []
      | JArr vs \<Rightarrow> vs \<noteq> [] | JObj d \<Rightarrow> d \<noteq> [])"

text \<open>\<open>str(value)\<close>; \<open>rep\<close> is the text of a float, a list or a dict.\<close>

definition json_str :: "(json \<Rightarrow> string) \<Rightarrow> json \<Rightarrow> string" where
  "json_str rep j =
     (case j of JNull \<Rightarrow> ''None'' | JBool b \<Rightarrow> (if b then ''True'' else ''False'') | JInt i \<Rightarrow> str_of_int i
      | JStr s \<Rightarrow> s | _ \<Rightarrow> rep j)"

text \<open>\<open>int(value)\<close>.\<close>

definition json_int :: "json \<Rightarrow> int result" where
  "json_int j =
     (case j of JBool b \<Rightarrow> Inr (if b then 1 else 0) | JInt i \<Rightarrow> Inr i
      | JFloat r \<Rightarrow> Inr (if r < 0 then \<lceil>r\<rceil> else \<lfloor>r\<rfloor>) | JStr s \<Rightarrow> py_int s | _ \<Rightarrow> Inl TypeError)"

text \<open>
  A value as a key of a dict: lists and dicts are not hashable, and numbers that are equal are
  one key.
\<close>

definition json_key :: "json \<Rightarrow> json result" where
  "json_key j =
     (case j of JArr _ \<Rightarrow> Inl TypeError | JObj _ \<Rightarrow> Inl TypeError | JBool b \<Rightarrow> Inr (JInt (if b then 1 else 0))
      | JFloat r \<Rightarrow> Inr (if r = of_int \<lfloor>r\<rfloor> then JInt \<lfloor>r\<rfloor> else j) | _ \<Rightarrow> Inr j)"

section \<open>Files\<close>

datatype node =
    Raw bytes | Doc json | Lines "string list" | Table "string list" "json list list" | Folder

record doc_env =
  float_text :: "json \<Rightarrow> string"
  encode :: "node \<Rightarrow> bytes"
  decode_json :: "bytes \<Rightarrow> json result"

record world =
  files :: "path \<Rightarrow> node option"
  commands :: "string list list"
  slept :: "real list"

definition exists_at :: "path \<Rightarrow> (world, bool) io" where
  "exists_at p = io_get (\<lambda>w. files w p \<noteq> None)"

definition open_read :: "path \<Rightarrow> (world, node) io" where
  "open_read p w =
     (case files w p of
        None \<Rightarrow> (Inl FileNotFoundError, w) | Some Folder \<Rightarrow> (Inl IsADirectoryError, w) | Some n \<Rightarrow> (Inr n, w))"

definition node_bytes :: "doc_env \<Rightarrow> node \<Rightarrow> bytes" where
  "node_bytes de n = (case n of Raw b \<Rightarrow> b | _ \<Rightarrow> encode de n)"

definition read_raw :: "doc_env \<Rightarrow> path \<Rightarrow> (world, bytes) io" where
  "read_raw de p = io_bind (open_read p) (\<lambda>n. io_return (node_bytes de n))"

definition read_json :: "doc_env \<Rightarrow> path \<Rightarrow> (world, json) io" where
  "read_json de p =
     io_bind (open_read p) (\<lambda>n. case n of Doc j \<Rightarrow> io_return j | _ \<Rightarrow> io_lift (decode_json de (node_bytes de n)))"

definition write_node :: "path \<Rightarrow> node \<Rightarrow> (world, unit) io" where
  "write_node p n w =
     (if files w p = Some Folder then (Inl IsADirectoryError, w) else (Inr (), w\<lparr>files := (files w)(p \<mapsto> n)\<rparr>))"

text \<open>\<open>p.mkdir(parents=True, exist_ok=True)\<close>.\<close>

definition is_file :: "node option \<Rightarrow> bool" where
  "is_file n = (n \<noteq> None \<and> n \<noteq> Some Folder)"

definition mkdirs :: "path \<Rightarrow> (world, unit) io" where
  "mkdirs p w =
     (if is_file (files w p) then (Inl FileExistsError, w)
      else if list_ex (\<lambda>i. is_file (files w (take i p))) [0..<length p] then (Inl NotADirectoryError, w)
      else (Inr (), w\<lparr>files := (\<lambda>q. if q = take (length q) p \<and> files w q = None then Some Folder else files w q)\<rparr>))"

text \<open>\<open>p.relative_to(base)\<close>.\<close>

definition relative_to :: "path \<Rightarrow> path \<Rightarrow> path result" where
  "relative_to p base = (if take (length base) p = base then Inr (drop (length base) p) else Inl ValueError)"

lemma relative_to_append [simp]: "relative_to (base @ p) base = Inr p"
  by (simp add: relative_to_def)

lemma open_read_state: "snd (open_read p w) = w"
  by (simp add: open_read_def split: option.splits node.splits)

text \<open>A table with a header from a list of dicts (\<open>csv.DictWriter\<close>); no rows, an empty file.\<close>

definition table_row :: "string list \<Rightarrow> (string \<times> json) list \<Rightarrow> json list result" where
  "table_row ks d =
     (if set (dict_keys d) \<subseteq> set ks then Inr (map (\<lambda>k. dict_get_or d k (JStr [])) ks) else Inl ValueError)"

definition table_of :: "(string \<times> json) list list \<Rightarrow> node result" where
  "table_of ds =
     (if ds = [] then Inr (Lines [])
      else (let ks = dict_keys (hd ds) in rbind (rmap (table_row ks) ds) (\<lambda>rs. Inr (Table ks rs))))"

definition write_csv :: "path \<Rightarrow> (string \<times> json) list list \<Rightarrow> (world, unit) io" where
  "write_csv p ds =
     io_then (mkdirs (parent p)) (io_bind (io_lift (table_of ds)) (write_node p))"

section \<open>Reading and writing\<close>

lemma read_raw_Raw [io_simps]: "files w p = Some (Raw b) \<Longrightarrow> read_raw de p w = (Inr b, w)"
  by (simp add: read_raw_def open_read_def io_bind_def io_run node_bytes_def)

lemma read_raw_None [io_simps]: "files w p = None \<Longrightarrow> read_raw de p w = (Inl FileNotFoundError, w)"
  by (simp add: read_raw_def open_read_def io_bind_def)

lemma read_json_Doc [io_simps]: "files w p = Some (Doc j) \<Longrightarrow> read_json de p w = (Inr j, w)"
  by (simp add: read_json_def open_read_def io_bind_def io_run)

lemma table_of_same_keys:
  assumes "ds \<noteq> []" and "\<And>d. d \<in> set ds \<Longrightarrow> dict_keys d = ks" and "distinct ks"
  shows "table_of ds = Inr (Table ks (map (map snd) ds))"
proof -
  have row: "table_row ks d = Inr (map snd d)" if d: "d \<in> set ds" for d
  proof -
    have k: "map fst d = ks" using assms(2) [OF d] by (simp add: dict_keys_def)
    have "map (\<lambda>k. dict_get_or d k (JStr [])) (map fst d) = map snd d"
      using assms(3) unfolding k [symmetric]
      by (auto simp: dict_get_or_def dict_get_def intro: eq_key_imp_eq_value)
    with k show ?thesis by (simp add: table_row_def dict_keys_def)
  qed
  have "rmap (table_row ks) ds = Inr (map (map snd) ds)" by (rule rmap_Inr) (rule row)
  moreover have "dict_keys (hd ds) = ks" using assms(1,2) by simp
  ultimately show ?thesis using assms(1) by (simp add: table_of_def Let_def)
qed

end
