(* ===== verification/RebootStats.thy ===== *)
theory RebootStats
  imports Stats Bits PyNumber
begin

text \<open>
  The byte statistics of a reboot slice (\<open>analyze_reboot_slices.py\<close>): the running state that
  chunks of a file update, with and without numpy, and the figures computed from it. A float is a
  real. The chi-square tail probability of scipy, when it is installed, and the complementary
  error function are parameters.
\<close>

section \<open>The running state\<close>

record slice_state =
  counts :: "nat list"
  n_bytes :: nat
  prev :: "nat option"
  pair_n :: nat
  sum_x :: real
  sum_y :: real
  sum_x2 :: real
  sum_y2 :: real
  sum_xy :: real

definition empty_state :: slice_state where
  "empty_state = \<lparr>counts = replicate 256 0, n_bytes = 0, prev = None, pair_n = 0, sum_x = 0, sum_y = 0,
     sum_x2 = 0, sum_y2 = 0, sum_xy = 0\<rparr>"

definition add_pair :: "nat \<Rightarrow> nat \<Rightarrow> slice_state \<Rightarrow> slice_state" where
  "add_pair x y st =
     st\<lparr>pair_n := pair_n st + 1, sum_x := sum_x st + real x, sum_y := sum_y st + real y,
        sum_x2 := sum_x2 st + real (x * x), sum_y2 := sum_y2 st + real (y * y), sum_xy := sum_xy st + real (x * y)\<rparr>"

definition pair_with_prev :: "nat list \<Rightarrow> slice_state \<Rightarrow> slice_state" where
  "pair_with_prev vs st = (case prev st of None \<Rightarrow> st | Some p \<Rightarrow> add_pair p (hd vs) st)"

text \<open>Without numpy: one byte, then one pair after the other.\<close>

definition update_pure :: "bytes \<Rightarrow> slice_state \<Rightarrow> slice_state" where
  "update_pure data st =
     (let vs = map unat data;
          st1 = st\<lparr>counts := fold (\<lambda>v cs. cs[v := cs ! v + 1]) vs (counts st), n_bytes := n_bytes st + length data\<rparr>
      in if data = [] then st1
         else (fold (\<lambda>(x, y). add_pair x y) (zip (butlast vs) (tl vs)) (pair_with_prev vs st1))\<lparr>prev := Some (last vs)\<rparr>)"

text \<open>With numpy: \<open>bincount\<close> and sums over whole arrays.\<close>

definition bincount :: "nat list \<Rightarrow> nat list" where
  "bincount vs = map (count_list vs) [0..<256]"

definition update_numpy :: "bytes \<Rightarrow> slice_state \<Rightarrow> slice_state" where
  "update_numpy data st =
     (let vs = map unat data;
          st1 = st\<lparr>counts := map2 (+) (counts st) (bincount vs), n_bytes := n_bytes st + length data\<rparr>
      in if data = [] then st1
         else (let st2 = pair_with_prev vs st1; xs = map real (butlast vs); ys = map real (tl vs);
                   st3 = (if length vs > 1 then
                            st2\<lparr>pair_n := pair_n st2 + length xs, sum_x := sum_x st2 + sum_list xs,
                                sum_y := sum_y st2 + sum_list ys, sum_x2 := sum_x2 st2 + sum_list (map2 (*) xs xs),
                                sum_y2 := sum_y2 st2 + sum_list (map2 (*) ys ys),
                                sum_xy := sum_xy st2 + sum_list (map2 (*) xs ys)\<rparr>
                          else st2)
               in st3\<lparr>prev := Some (last vs)\<rparr>))"

definition update_stats_from_bytes :: "bool \<Rightarrow> bytes \<Rightarrow> slice_state \<Rightarrow> slice_state" where
  "update_stats_from_bytes np data st = (if np then update_numpy data st else update_pure data st)"

section \<open>The figures\<close>

record metrics =
  mt_bytes :: nat
  mt_entropy :: real
  mt_mcv :: real
  mt_chi_square :: real
  mt_chi_exceed :: real
  mt_mean :: real
  mt_ones :: real
  mt_serial :: real
  mt_max_count :: nat

record math_env =
  chi2_sf :: "(real \<Rightarrow> nat \<Rightarrow> real) option"
  erfc :: "real \<Rightarrow> real"

definition chi_square_exceed_percent :: "math_env \<Rightarrow> real \<Rightarrow> real" where
  "chi_square_exceed_percent env v =
     (case chi2_sf env of
        Some sf \<Rightarrow> sf v 255 * 100
      | None \<Rightarrow>
          (let d = 2 / (9 * 255); z = ((v / 255) powr (1 / 3) - (1 - d)) / sqrt d
           in 50 * erfc env (z / sqrt 2)))"

definition BIT_COUNTS :: "nat list" where
  "BIT_COUNTS = map (\<lambda>i. bit_count (byte_of_nat i)) [0..<256]"

definition serial_of :: "slice_state \<Rightarrow> real" where
  "serial_of st =
     (if pair_n st > 1 then
        (let n = real (pair_n st); num = n * sum_xy st - sum_x st * sum_y st;
             dx = n * sum_x2 st - sum_x st * sum_x st; dy = n * sum_y2 st - sum_y st * sum_y st;
             den = sqrt (max dx 0 * max dy 0)
         in if den \<noteq> 0 then num / den else 0)
      else 0)"

definition metrics_from_counts :: "math_env \<Rightarrow> slice_state \<Rightarrow> metrics result" where
  "metrics_from_counts env st =
     (let cs = counts st; n = real (n_bytes st)
      in if n_bytes st = 0 then Inl ValueError
         else (let probs = map (\<lambda>c. real c / n) (filter (\<lambda>c. c \<noteq> 0) cs); expected = n / 256;
                   chi = sum_list (map (\<lambda>c. (real c - expected)\<^sup>2 / expected) cs);
                   mx = fold max cs 0
               in Inr \<lparr>mt_bytes = n_bytes st, mt_entropy = - sum_list (map (\<lambda>p. p * log 2 p) probs),
                    mt_mcv = - log 2 (real mx / n), mt_chi_square = chi, mt_chi_exceed = chi_square_exceed_percent env chi,
                    mt_mean = real (sum_list (map (\<lambda>(i, c). i * c) (enumerate 0 cs))) / n,
                    mt_ones = real (sum_list (map (\<lambda>(i, c). BIT_COUNTS ! i * c) (enumerate 0 cs))) / (n * 8),
                    mt_serial = serial_of st, mt_max_count = mx\<rparr>))"

definition finalize_state :: "math_env \<Rightarrow> slice_state \<Rightarrow> metrics result" where
  "finalize_state env st = metrics_from_counts env st"

text \<open>A file is read in chunks of at most \<open>k\<close> bytes; \<open>read(0)\<close> returns nothing.\<close>

function chunks :: "nat \<Rightarrow> bytes \<Rightarrow> bytes list" where
  "chunks k data = (if data = [] \<or> k = 0 then [] else take k data # chunks k (drop k data))"
  by pat_completeness auto
termination by (relation "measure (\<lambda>(k, data). length data)") auto

declare chunks.simps [simp del]

definition READ_BYTES :: nat where "READ_BYTES = 1048576"

text \<open>The digest of a file, fed in chunks, is the digest of their concatenation.\<close>

definition sha256_file :: "(bytes \<Rightarrow> bytes) \<Rightarrow> bytes \<Rightarrow> string" where
  "sha256_file sha data = hex_of (sha (concat (chunks READ_BYTES data)))"

definition metrics_for_file :: "(bytes \<Rightarrow> bytes) \<Rightarrow> bool \<Rightarrow> math_env \<Rightarrow> bytes \<Rightarrow> (metrics \<times> string) result" where
  "metrics_for_file sha np env data =
     rbind (finalize_state env (fold (update_stats_from_bytes np) (chunks READ_BYTES data) empty_state))
       (\<lambda>m. Inr (m, sha256_file sha data))"

text \<open>\<open>iter_windows\<close>: index, offset and figures of each window; a negative size reads everything.\<close>

fun window_rows :: "bool \<Rightarrow> math_env \<Rightarrow> nat \<Rightarrow> nat \<Rightarrow> bytes list \<Rightarrow> (nat \<times> nat \<times> metrics) list result" where
  "window_rows np env i off [] = Inr []"
| "window_rows np env i off (w # ws) =
     rbind (finalize_state env (update_stats_from_bytes np w empty_state)) (\<lambda>m.
     rbind (window_rows np env (i + 1) (off + length w) ws) (\<lambda>rest. Inr ((i, off, m) # rest)))"

definition window_list :: "int \<Rightarrow> bytes \<Rightarrow> bytes list" where
  "window_list w data = (if w < 0 then chunks (length data) data else chunks (nat w) data)"

definition iter_windows :: "bool \<Rightarrow> math_env \<Rightarrow> int \<Rightarrow> bytes \<Rightarrow> (nat \<times> nat \<times> metrics) list result" where
  "iter_windows np env w data = window_rows np env 0 0 (window_list w data)"

section \<open>The state is that of the bytes read\<close>

text \<open>The reference: counts and pair sums of the whole input.\<close>

definition state_of :: "bytes \<Rightarrow> slice_state" where
  "state_of data =
     (let vs = map unat data; ps = zip vs (tl vs)
      in \<lparr>counts = bincount vs, n_bytes = length vs, prev = (if vs = [] then None else Some (last vs)),
          pair_n = length ps, sum_x = sum_list (map (\<lambda>(x, y). real x) ps), sum_y = sum_list (map (\<lambda>(x, y). real y) ps),
          sum_x2 = sum_list (map (\<lambda>(x, y). real (x * x)) ps), sum_y2 = sum_list (map (\<lambda>(x, y). real (y * y)) ps),
          sum_xy = sum_list (map (\<lambda>(x, y). real (x * y)) ps)\<rparr>)"

definition add_pairs :: "(nat \<times> nat) list \<Rightarrow> slice_state \<Rightarrow> slice_state" where
  "add_pairs ps st = fold (\<lambda>(x, y). add_pair x y) ps st"

lemma add_pairs_eq:
  "add_pairs ps st = st\<lparr>pair_n := pair_n st + length ps, sum_x := sum_x st + sum_list (map (\<lambda>(x, y). real x) ps),
     sum_y := sum_y st + sum_list (map (\<lambda>(x, y). real y) ps), sum_x2 := sum_x2 st + sum_list (map (\<lambda>(x, y). real (x * x)) ps),
     sum_y2 := sum_y2 st + sum_list (map (\<lambda>(x, y). real (y * y)) ps),
     sum_xy := sum_xy st + sum_list (map (\<lambda>(x, y). real (x * y)) ps)\<rparr>"
  unfolding add_pairs_def by (induction ps arbitrary: st) (auto simp: add_pair_def)

lemma counts_fold:
  "\<forall>v \<in> set vs. v < length cs \<Longrightarrow>
     fold (\<lambda>v cs. cs[v := cs ! v + 1]) vs cs = map2 (+) cs (map (count_list vs) [0..<length cs])"
proof (induction vs arbitrary: cs)
  case Nil
  show ?case by (rule nth_equalityI) simp_all
next
  case (Cons v vs)
  then show ?case by (intro nth_equalityI) (auto simp: nth_list_update)
qed

lemma zip_butlast_tl: "zip (butlast vs) (tl vs) = zip vs (tl vs)"
  by (cases vs rule: rev_cases) (auto simp: zip_append1 butlast_append)

lemma numpy_sums:
  "sum_list (map real (butlast vs)) = sum_list (map (\<lambda>(x, y). real x) (zip vs (tl vs)))"
  "sum_list (map real (tl vs)) = sum_list (map (\<lambda>(x, y). real y) (zip vs (tl vs)))"
  "sum_list (map2 (*) (map real (butlast vs)) (map real (butlast vs))) = sum_list (map (\<lambda>(x, y). real (x * x)) (zip vs (tl vs)))"
  "sum_list (map2 (*) (map real (tl vs)) (map real (tl vs))) = sum_list (map (\<lambda>(x, y). real (y * y)) (zip vs (tl vs)))"
  "sum_list (map2 (*) (map real (butlast vs)) (map real (tl vs))) = sum_list (map (\<lambda>(x, y). real (x * y)) (zip vs (tl vs)))"
  by (induction vs rule: induct_list012) auto

text \<open>Both versions of the update are one function of the state.\<close>

definition update_ref :: "bytes \<Rightarrow> slice_state \<Rightarrow> slice_state" where
  "update_ref data st =
     (let vs = map unat data;
          st1 = st\<lparr>counts := map2 (+) (counts st) (bincount vs), n_bytes := n_bytes st + length data\<rparr>
      in if data = [] then st1
         else (add_pairs (case prev st of None \<Rightarrow> zip vs (tl vs) | Some p \<Rightarrow> zip (p # vs) vs) st1)\<lparr>prev := Some (last vs)\<rparr>)"

lemma unat_list_bound: "\<forall>v \<in> set (map unat (data :: bytes)). v < 256"
  by auto

lemma pair_with_prev_pairs:
  "vs \<noteq> [] \<Longrightarrow> add_pairs (zip vs (tl vs)) (pair_with_prev vs st)
    = add_pairs (case prev st of None \<Rightarrow> zip vs (tl vs) | Some p \<Rightarrow> zip (p # vs) vs) st"
  by (cases vs) (auto simp: pair_with_prev_def add_pairs_def split: option.split)

lemma bincount_Nil: "length cs = 256 \<Longrightarrow> map2 (+) cs (bincount []) = cs"
  by (rule nth_equalityI) (simp_all add: bincount_def)

lemma update_pure_ref:
  assumes "length (counts st) = 256"
  shows "update_pure data st = update_ref data st"
proof -
  have "fold (\<lambda>v cs. cs[v := cs ! v + 1]) (map unat data) (counts st) = map2 (+) (counts st) (bincount (map unat data))"
    using counts_fold [of "map unat data" "counts st"] unat_list_bound [of data] assms by (simp only: bincount_def)
  moreover have "fold (\<lambda>(x, y). add_pair x y) (zip (butlast vs) (tl vs)) st' = add_pairs (zip vs (tl vs)) st'" for vs st'
    by (simp add: add_pairs_def zip_butlast_tl)
  ultimately show ?thesis
    using pair_with_prev_pairs [of "map unat data"] bincount_Nil [OF assms]
    by (simp add: update_pure_def update_ref_def Let_def)
qed

lemma update_numpy_ref: "update_numpy data st = update_ref data st"
proof (cases "data = []")
  case False
  let ?vs = "map unat data"
  have len: "length (butlast ?vs) = length (zip ?vs (tl ?vs))" by simp
  have one: "\<not> length ?vs > 1 \<Longrightarrow> add_pairs (zip ?vs (tl ?vs)) st' = st'" for st'
    using False by (cases data) (auto simp: add_pairs_def)
  have "(if length ?vs > 1 then
      st2\<lparr>pair_n := pair_n st2 + length (map real (butlast ?vs)), sum_x := sum_x st2 + sum_list (map real (butlast ?vs)),
        sum_y := sum_y st2 + sum_list (map real (tl ?vs)),
        sum_x2 := sum_x2 st2 + sum_list (map2 (*) (map real (butlast ?vs)) (map real (butlast ?vs))),
        sum_y2 := sum_y2 st2 + sum_list (map2 (*) (map real (tl ?vs)) (map real (tl ?vs))),
        sum_xy := sum_xy st2 + sum_list (map2 (*) (map real (butlast ?vs)) (map real (tl ?vs)))\<rparr>
      else st2) = add_pairs (zip ?vs (tl ?vs)) st2" for st2
    using one len unfolding numpy_sums by (simp only: add_pairs_eq length_map split: if_split) simp
  then show ?thesis
    using False pair_with_prev_pairs [of ?vs] by (simp only: update_numpy_def update_ref_def Let_def) simp
qed (simp add: update_numpy_def update_ref_def)

lemma bincount_append: "bincount (a @ b) = map2 (+) (bincount a) (bincount b)"
  by (rule nth_equalityI) (simp_all add: bincount_def)

lemma adjacent_append:
  "a \<noteq> [] \<Longrightarrow> zip (a @ b) (tl (a @ b)) = zip a (tl a) @ zip (last a # b) b"
proof (induction a rule: induct_list012)
  case (2 x)
  then show ?case by (cases b) auto
qed auto

lemma state_of_append: "update_ref b (state_of a) = state_of (a @ b)"
proof (cases "b = []")
  case True
  have "map2 (+) (bincount vs) (bincount []) = bincount vs" for vs
    by (rule nth_equalityI) (simp_all add: bincount_def)
  with True show ?thesis by (simp add: update_ref_def state_of_def Let_def)
next
  case False
  show ?thesis
  proof (cases "a = []")
    case True
    have "map2 (+) (bincount []) (bincount vs) = bincount vs" for vs
      by (rule nth_equalityI) (simp_all add: bincount_def)
    with True False show ?thesis
      by (simp add: update_ref_def state_of_def Let_def add_pairs_eq)
  next
    case a: False
    have l: "last (map unat a @ map unat b) = last (map unat b)" using False by simp
    from a False show ?thesis
      using adjacent_append [of "map unat a" "map unat b"]
      by (simp add: update_ref_def state_of_def Let_def add_pairs_eq bincount_append last_map) (cases a, simp_all)
  qed
qed

lemma state_of_Nil: "state_of [] = empty_state"
proof -
  have "bincount [] = replicate 256 0" by (rule nth_equalityI) (simp_all add: bincount_def)
  then show ?thesis by (simp add: state_of_def empty_state_def)
qed

lemma counts_length: "length (counts (state_of a)) = 256"
  by (simp add: state_of_def bincount_def Let_def)

lemma update_state_of: "update_stats_from_bytes np b (state_of a) = state_of (a @ b)"
  using update_pure_ref [OF counts_length] by (simp add: update_stats_from_bytes_def update_numpy_ref state_of_append)

lemma fold_update_state: "fold (\<lambda>(np, b). update_stats_from_bytes np b) cs (state_of a) = state_of (a @ concat (map snd cs))"
  by (induction cs arbitrary: a) (auto simp: update_state_of)

text \<open>
  C13: However a file is cut into chunks, and whether each chunk goes through the numpy or the plain
  Python code, the running state ends as the counts and neighbour-pair sums of the whole input:
  no byte, and no pair across a chunk border, is lost or counted twice.
\<close>

theorem slice_state_exact:
  "fold (\<lambda>(np, b). update_stats_from_bytes np b) cs empty_state = state_of (concat (map snd cs))"
  using fold_update_state [of cs "[]"] by (simp add: state_of_Nil)

lemma concat_chunks: "0 < k \<Longrightarrow> concat (chunks k data) = data"
  by (induction k data rule: chunks.induct) (simp add: chunks.simps)

lemma fold_same_np: "fold (update_stats_from_bytes np) cs (state_of a) = state_of (a @ concat cs)"
  by (induction cs arbitrary: a) (auto simp: update_state_of)

lemma sha256_file_eq [simp]: "sha256_file sha data = hex_of (sha data)"
  by (simp add: sha256_file_def concat_chunks READ_BYTES_def)

lemma metrics_for_file_eq:
  "metrics_for_file sha np env data = rbind (finalize_state env (state_of data)) (\<lambda>m. Inr (m, hex_of (sha data)))"
  using fold_same_np [of np "chunks READ_BYTES data" "[]"]
  by (simp add: metrics_for_file_def concat_chunks READ_BYTES_def state_of_Nil)

section \<open>The figures are those of the bytes\<close>

lemma sum_list_upt: "sum_list (map f [0..<n]) = (\<Sum>i<n. f i)"
  by (induction n) (simp_all add: add.commute)

lemma unat_image_lt: "unat ` set (data :: bytes) \<subseteq> {..<256}"
  by auto

lemma unat_byte_inj: "unat a = unat (b :: byte) \<longleftrightarrow> a = b"
  by (metis byte_of_nat_unat)

lemma count_unat: "count_list (map unat (data :: bytes)) (unat b) = count_list data b"
  by (induction data) (auto simp: unat_byte_inj)

lemma count_unat_0: "v \<notin> unat ` set (data :: bytes) \<Longrightarrow> count_list (map unat data) v = 0"
  by (simp add: count_list_0_iff)

text \<open>A sum over the 256 counters is a sum over the bytes that occur.\<close>

lemma counter_sum:
  fixes g :: "nat \<Rightarrow> nat \<Rightarrow> 'a :: comm_monoid_add" and data :: bytes
  assumes "\<And>v. g v 0 = 0"
  shows "sum_list (map (\<lambda>v. g v (count_list (map unat data) v)) [0..<256]) = (\<Sum>b \<in> set data. g (unat b) (count_list data b))"
proof -
  have "sum_list (map (\<lambda>v. g v (count_list (map unat data) v)) [0..<256])
      = (\<Sum>v < 256. g v (count_list (map unat data) v))"
    by (rule sum_list_upt)
  also have "\<dots> = (\<Sum>v \<in> unat ` set data. g v (count_list (map unat data) v))"
    using unat_image_lt count_unat_0 assms by (intro sum.mono_neutral_right) auto
  also have "\<dots> = (\<Sum>b \<in> set data. g (unat b) (count_list data b))"
    by (subst sum.reindex) (auto simp: inj_on_def count_unat unat_byte_inj)
  finally show ?thesis .
qed

lemma enumerate_counts:
  "map (\<lambda>(i, c). h i c) (enumerate 0 (bincount vs)) = map (\<lambda>v. h v (count_list vs v)) [0..<256]"
  by (rule nth_equalityI) (simp_all add: bincount_def nth_enumerate_eq)

lemma entropy_of_counts:
  "sum_list (map (\<lambda>p. p * log 2 p) (map (\<lambda>c. real c / n) (filter (\<lambda>c. c \<noteq> 0) (bincount (map unat (data :: bytes))))))
    = (\<Sum>b \<in> set data. real (count_list data b) / n * log 2 (real (count_list data b) / n))"
proof -
  let ?g = "\<lambda>v c. real c / n * log 2 (real c / n)"
  have filt: "sum_list (map f (filter (\<lambda>c. c \<noteq> 0) cs)) = sum_list (map f cs)" if "f 0 = 0" for f :: "nat \<Rightarrow> real" and cs
    using that by (induction cs) auto
  have "sum_list (map (\<lambda>p. p * log 2 p) (map (\<lambda>c. real c / n) (filter (\<lambda>c. c \<noteq> 0) (bincount (map unat data)))))
      = sum_list (map (\<lambda>c. real c / n * log 2 (real c / n)) (filter (\<lambda>c. c \<noteq> 0) (bincount (map unat data))))"
    by (simp only: map_map comp_def)
  also have "\<dots> = sum_list (map (\<lambda>v. ?g v (count_list (map unat data) v)) [0..<256])"
    by (subst filt) (simp_all add: bincount_def o_def)
  also have "\<dots> = (\<Sum>b \<in> set data. ?g (unat b) (count_list data b))"
    by (rule counter_sum) simp
  finally show ?thesis .
qed

lemma fold_max_eq:
  fixes m :: nat
  assumes "m \<in> set xs" and "\<And>x. x \<in> set xs \<Longrightarrow> x \<le> m"
  shows "fold max xs 0 = m"
proof -
  have f: "fold max xs a = fold (\<lambda>v m. max m v) xs a" for a :: nat
    by (induction xs arbitrary: a) (simp_all add: max.commute)
  have "fold max xs 0 \<in> insert 0 (set xs)" using fold_max_in [of "\<lambda>x. x" xs 0] by (simp add: f)
  moreover have "m \<le> fold max xs 0" using fold_max_bounds [of 0 "\<lambda>x. x" xs] assms(1) by (auto simp: f)
  ultimately show ?thesis using assms by force
qed

lemma max_of_counts: "(data :: bytes) \<noteq> [] \<Longrightarrow> fold max (bincount (map unat data)) 0 = max_count data"
proof (rule fold_max_eq)
  assume ne: "data \<noteq> []"
  obtain b where b: "b \<in> set data" "max_count data = count_list data b"
    using max_count_attained [OF ne] by blast
  then have "max_count data = count_list (map unat data) (unat b)" by (simp add: count_unat)
  then show "max_count data \<in> set (bincount (map unat data))" by (auto simp: bincount_def)
  fix c assume "c \<in> set (bincount (map unat data))"
  then obtain v where c: "c = count_list (map unat data) v" by (auto simp: bincount_def)
  show "c \<le> max_count data"
  proof (cases "v \<in> unat ` set data")
    case True
    then show ?thesis using max_count_ge [of _ data] by (auto simp: c count_unat)
  qed (simp add: c count_unat_0)
qed

lemma weighted_count: "(\<Sum>b \<in> set xs. w b * count_list xs b) = sum_list (map w xs)" for w :: "'a \<Rightarrow> nat"
  by (simp add: sum_list_map_eq_sum_count mult.commute)

lemma BIT_COUNTS_nth: "BIT_COUNTS ! unat b = bit_count b"
  by (simp add: BIT_COUNTS_def)

section \<open>Serial correlation\<close>

lemma centred_sum:
  fixes ps :: "(real \<times> real) list"
  defines "n \<equiv> real (length ps)" and "sx \<equiv> sum_list (map fst ps)" and "sy \<equiv> sum_list (map snd ps)"
  assumes "ps \<noteq> []"
  shows "n * sum_list (map (\<lambda>(x, y). x * y) ps) - sx * sy
    = n * sum_list (map (\<lambda>(x, y). (x - sx / n) * (y - sy / n)) ps)"
proof -
  have n: "n \<noteq> 0" using assms(4) by (simp add: n_def)
  define T where "T = sum_list (map (\<lambda>(x, y). (x - sx / n) * (y - sy / n)) ps)"
  define P where "P = sum_list (map (\<lambda>(x, y). x * y) ps)"
  have "sum_list (map (\<lambda>(x, y). (x - a) * (y - b)) qs)
      = sum_list (map (\<lambda>(x, y). x * y) qs) - b * sum_list (map fst qs) - a * sum_list (map snd qs) + real (length qs) * a * b"
    for a b and qs :: "(real \<times> real) list"
    by (induction qs) (auto simp: algebra_simps)
  then have "T = P - sy / n * sx - sx / n * sy + n * (sx / n) * (sy / n)"
    unfolding T_def P_def sx_def sy_def n_def by simp
  then have "T = P - sx * sy / n" using n by simp
  then have "n * T = n * P - sx * sy" using n by (simp add: right_diff_distrib)
  then show ?thesis by (simp add: T_def P_def)
qed

lemma serial_bounds:
  fixes ps :: "(real \<times> real) list"
  defines "n \<equiv> real (length ps)" and "sx \<equiv> sum_list (map fst ps)" and "sy \<equiv> sum_list (map snd ps)"
  defines "num \<equiv> n * sum_list (map (\<lambda>(x, y). x * y) ps) - sx * sy"
    and "dx \<equiv> n * sum_list (map (\<lambda>(x, y). x * x) ps) - sx * sx"
    and "dy \<equiv> n * sum_list (map (\<lambda>(x, y). y * y) ps) - sy * sy"
  shows "\<bar>num\<bar> \<le> sqrt (max dx 0 * max dy 0)"
proof (cases "ps = []")
  case False
  let ?x = "\<lambda>x. x - sx / n" and ?y = "\<lambda>y. y - sy / n"
  let ?qs = "map (\<lambda>(x, y). (?x x, ?y y)) ps"
  let ?A = "sum_list (map (\<lambda>(x, _). (?x x)\<^sup>2) ps)" and ?B = "sum_list (map (\<lambda>(_, y). (?y y)\<^sup>2) ps)"
  have fs: "sum_list (map fst (map (\<lambda>(x, y). (x, x)) ps)) = sx" "sum_list (map snd (map (\<lambda>(x, y). (x, x)) ps)) = sx"
    "sum_list (map fst (map (\<lambda>(x, y). (y, y)) ps)) = sy" "sum_list (map snd (map (\<lambda>(x, y). (y, y)) ps)) = sy"
    by (simp_all add: sx_def sy_def comp_def case_prod_unfold)
  have num: "num = n * sum_list (map (\<lambda>(x, y). ?x x * ?y y) ps)"
    using centred_sum [OF False] by (simp add: num_def n_def sx_def sy_def)
  have dx: "dx = n * ?A"
    using centred_sum [of "map (\<lambda>(x, y). (x, x)) ps"] False
    unfolding fs dx_def n_def by (simp add: comp_def case_prod_unfold power2_eq_square)
  have dy: "dy = n * ?B"
    using centred_sum [of "map (\<lambda>(x, y). (y, y)) ps"] False
    unfolding fs dy_def n_def by (simp add: comp_def case_prod_unfold power2_eq_square)
  have pos: "0 \<le> ?A" "0 \<le> ?B" "0 \<le> n" by (auto intro!: sum_list_nonneg simp: n_def)
  have "(sum_list (map (\<lambda>(x, y). ?x x * ?y y) ps))\<^sup>2 \<le> ?A * ?B"
    using pearson_sums [of ?qs] by (simp add: comp_def case_prod_unfold)
  then have "num\<^sup>2 \<le> n\<^sup>2 * (?A * ?B)" by (simp add: num power_mult_distrib mult_left_mono)
  also have "\<dots> = max dx 0 * max dy 0"
  proof -
    have "max dx 0 = dx" "max dy 0 = dy" using pos by (simp_all add: dx dy)
    then show ?thesis by (simp add: dx dy power2_eq_square)
  qed
  finally show ?thesis by (intro real_le_rsqrt) simp
qed (simp add: num_def n_def sx_def)

lemma serial_range: "- 1 \<le> serial_of (state_of data) \<and> serial_of (state_of data) \<le> 1"
proof -
  let ?vs = "map unat data"
  let ?ps = "map (\<lambda>(x, y). (real x, real y)) (zip ?vs (tl ?vs))"
  let ?st = "state_of data"
  have s: "real (pair_n ?st) = real (length ?ps)" "sum_x ?st = sum_list (map fst ?ps)" "sum_y ?st = sum_list (map snd ?ps)"
    "sum_x2 ?st = sum_list (map (\<lambda>(x, y). x * x) ?ps)" "sum_y2 ?st = sum_list (map (\<lambda>(x, y). y * y) ?ps)"
    "sum_xy ?st = sum_list (map (\<lambda>(x, y). x * y) ?ps)"
    by (simp_all add: state_of_def Let_def comp_def case_prod_unfold)
  have le: "\<bar>a\<bar> \<le> d \<Longrightarrow> d \<noteq> 0 \<Longrightarrow> - 1 \<le> a / d \<and> a / d \<le> 1" for a d :: real
    by (cases "d < 0") (auto simp: field_simps abs_le_iff)
  show ?thesis
    unfolding serial_of_def Let_def s using le [OF serial_bounds [of ?ps]] by simp
qed

section \<open>What the figures mean\<close>

lemma real_byte_sum: "real (sum_list (map unat (data :: bytes))) = sum_list (map (\<lambda>b. real (unat b)) data)"
  by (induction data) simp_all

lemma finalize_state_of:
  assumes "data \<noteq> []"
  shows "\<exists>m. finalize_state env (state_of data) = Inr m \<and> mt_bytes m = length data
    \<and> mt_entropy m = shannon_bits data \<and> mt_mcv m = mcv_bits data \<and> mt_max_count m = max_count data
    \<and> mt_mean m = mean (map (\<lambda>b. real (unat b)) data)
    \<and> mt_ones m = real (length (filter (\<lambda>x. x) (window_bits data))) / real (length (window_bits data))
    \<and> mt_serial m = serial_of (state_of data) \<and> 0 \<le> mt_chi_square m"
proof -
  let ?c = "bincount (map unat data)" and ?n = "real (length data)"
  have st: "counts (state_of data) = ?c" "n_bytes (state_of data) = length data"
    by (simp_all add: state_of_def Let_def)
  have "- sum_list (map (\<lambda>p. p * log 2 p) (map (\<lambda>c. real c / ?n) (filter (\<lambda>c. c \<noteq> 0) ?c))) = shannon_bits data"
    unfolding entropy_of_counts shannon_sum freq_def by (simp add: sum_negf)
  moreover have "sum_list (map (\<lambda>(i, c). i * c) (enumerate 0 ?c)) = sum_list (map unat data)"
    unfolding enumerate_counts [of "\<lambda>i c. i * c"] counter_sum [of "\<lambda>i c. i * c", simplified] by (rule weighted_count)
  moreover have "sum_list (map (\<lambda>(i, c). BIT_COUNTS ! i * c) (enumerate 0 ?c)) = length (filter (\<lambda>x. x) (window_bits data))"
    unfolding enumerate_counts [of "\<lambda>i c. BIT_COUNTS ! i * c"] counter_sum [of "\<lambda>i c. BIT_COUNTS ! i * c", simplified]
      BIT_COUNTS_nth count_window_bits by (rule weighted_count)
  moreover have "0 \<le> sum_list (map (\<lambda>c. (real c - ?n / 256)\<^sup>2 / (?n / 256)) ?c)"
    by (intro sum_list_nonneg) auto
  moreover have "real (sum_list (map unat data)) / ?n = mean (map (\<lambda>b. real (unat b)) data)"
    by (simp add: mean_def real_byte_sum)
  ultimately show ?thesis
    using assms max_of_counts [OF assms] unfolding finalize_state_def metrics_from_counts_def st Let_def
    by (simp add: mcv_bits_def)
qed

definition slice_figures :: "bytes \<Rightarrow> metrics \<Rightarrow> bool" where
  "slice_figures data m \<longleftrightarrow>
     mt_bytes m = length data \<and> mt_entropy m = shannon_bits data \<and> mt_entropy m \<le> 8
     \<and> mt_mcv m = mcv_bits data \<and> 0 \<le> mt_mcv m \<and> mt_mcv m \<le> mt_entropy m \<and> mt_max_count m = max_count data
     \<and> mt_mean m = mean (map (\<lambda>b. real (unat b)) data) \<and> 0 \<le> mt_mean m \<and> mt_mean m \<le> 255
     \<and> mt_ones m = real (length (filter (\<lambda>x. x) (window_bits data))) / real (length (window_bits data))
     \<and> 0 \<le> mt_ones m \<and> mt_ones m \<le> 1 \<and> - 1 \<le> mt_serial m \<and> mt_serial m \<le> 1 \<and> 0 \<le> mt_chi_square m"

lemma finalize_figures:
  assumes "data \<noteq> []"
  shows "\<exists>m. finalize_state env (state_of data) = Inr m \<and> slice_figures data m"
proof -
  obtain m where m: "finalize_state env (state_of data) = Inr m" "mt_bytes m = length data"
    "mt_entropy m = shannon_bits data" "mt_mcv m = mcv_bits data" "mt_max_count m = max_count data"
    "mt_mean m = mean (map (\<lambda>b. real (unat b)) data)"
    "mt_ones m = real (length (filter (\<lambda>x. x) (window_bits data))) / real (length (window_bits data))"
    "mt_serial m = serial_of (state_of data)" "0 \<le> mt_chi_square m"
    using finalize_state_of [OF assms] by blast
  have le: "real (unat b) \<le> 255" for b :: byte using unat_byte_lt [of b] by linarith
  have "real (length data) * 0 \<le> sum_list (map (\<lambda>b. real (unat b)) data)
      \<and> sum_list (map (\<lambda>b. real (unat b)) data) \<le> real (length data) * 255"
    using sum_list_bounds [of "map (\<lambda>b. real (unat b)) data" 0 255] le
    by (metis (mono_tags, lifting) imageE length_map of_nat_0_le_iff set_map)
  then have "0 \<le> mean (map (\<lambda>b. real (unat b)) data) \<and> mean (map (\<lambda>b. real (unat b)) data) \<le> 255"
    using assms by (simp add: mean_def field_simps)
  moreover have "0 \<le> mt_ones m" "mt_ones m \<le> 1"
    using length_filter_le [of "\<lambda>x. x" "window_bits data"]
    by (simp_all add: m divide_le_eq_1 del: length_window_bits)
  ultimately show ?thesis
    using m mcv_nonneg [OF assms] mcv_le_shannon [OF assms] shannon_le_8 [of data] serial_range [of data]
    by (auto simp: slice_figures_def)
qed

lemma finalize_empty: "finalize_state env (state_of []) = Inl ValueError"
  by (simp add: finalize_state_def metrics_from_counts_def state_of_def)

lemma finalize_ok: "finalize_state env (state_of data) = Inr m \<Longrightarrow> slice_figures data m"
  using finalize_figures [of data env] finalize_empty [of env] by (cases "data = []") auto

text \<open>
  The figures of a file of any size, whichever implementation read it: an empty file raises
  ValueError, any other gives the Shannon entropy of its bytes (at most 8 bits), a most-common-value
  estimate between 0 and that entropy, the mean byte (0 to 255), the fraction of one bits (0 to 1),
  a serial correlation between -1 and 1, a chi-square value that is not negative, and the digest.
\<close>

theorem figures_of_slice:
  "(data = [] \<longrightarrow> metrics_for_file sha np env data = Inl ValueError)
   \<and> (data \<noteq> [] \<longrightarrow> (\<exists>m. metrics_for_file sha np env data = Inr (m, hex_of (sha data)) \<and> slice_figures data m))"
  using finalize_figures [of data env] finalize_empty [of env] by (auto simp: metrics_for_file_eq)

text \<open>The figures of a two-byte file.\<close>

theorem figures_of_slice_witness:
  "[7, 7 :: byte] \<noteq> [] \<and> ([] :: bytes) = []
   \<and> (\<exists>m. metrics_for_file rev True \<lparr>chi2_sf = None, erfc = (\<lambda>_. 0)\<rparr> [7, 7] = Inr (m, hex_of (rev [7, 7])) \<and> mt_bytes m = 2)
   \<and> metrics_for_file rev True \<lparr>chi2_sf = None, erfc = (\<lambda>_. 0)\<rparr> [] = Inl ValueError"
  using figures_of_slice [of "[7, 7]" rev True "\<lparr>chi2_sf = None, erfc = (\<lambda>_. 0)\<rparr>"]
    figures_of_slice [of "[]" rev True "\<lparr>chi2_sf = None, erfc = (\<lambda>_. 0)\<rparr>"]
  by (auto simp: slice_figures_def)

section \<open>Windows\<close>

lemma chunks_nonempty: "c \<in> set (chunks k data) \<Longrightarrow> c \<noteq> []"
  by (induction k data rule: chunks.induct) (subst (asm) (2) chunks.simps, auto split: if_splits)

lemma chunks_nth: "0 < k \<Longrightarrow> i < length (chunks k data) \<Longrightarrow> chunks k data ! i = take k (drop (i * k) data)"
proof (induction k data arbitrary: i rule: chunks.induct)
  case (1 k data)
  show ?case
  proof (cases "data = []")
    case False
    then have eq: "chunks k data = take k data # chunks k (drop k data)" using 1(2) by (simp add: chunks.simps)
    show ?thesis
    proof (cases i)
      case (Suc j)
      with 1 False eq have "chunks k (drop k data) ! j = take k (drop (j * k) (drop k data))" by auto
      with Suc eq show ?thesis by (simp add: add.commute)
    qed (simp add: eq)
  qed (use 1(3) in \<open>simp add: chunks.simps\<close>)
qed

lemma take_length_prefix: "take (length (take n xs)) xs = take n xs"
  by (metis append_eq_conv_conj append_take_drop_id)

lemma window_rows_exact:
  assumes "\<And>w. w \<in> set ws \<Longrightarrow> w \<noteq> []"
  shows "\<exists>rows. window_rows np env i off ws = Inr rows \<and> length rows = length ws
    \<and> (\<forall>j < length ws. \<exists>m. rows ! j = (i + j, off + length (concat (take j ws)), m)
          \<and> finalize_state env (state_of (ws ! j)) = Inr m)"
  using assms
proof (induction ws arbitrary: i off)
  case (Cons w ws)
  obtain m where m: "finalize_state env (state_of w) = Inr m" using finalize_figures [of w env] Cons.prems by force
  have "update_stats_from_bytes np w empty_state = state_of w"
    using update_state_of [of np w "[]"] by (simp add: state_of_Nil)
  moreover obtain rows where r: "window_rows np env (i + 1) (off + length w) ws = Inr rows" "length rows = length ws"
    "\<forall>j < length ws. \<exists>m. rows ! j = (i + 1 + j, off + length w + length (concat (take j ws)), m)
      \<and> finalize_state env (state_of (ws ! j)) = Inr m"
    using Cons by (metis list.set_intros(2))
  moreover have "\<exists>m'. ((i, off, m) # rows) ! j = (i + j, off + length (concat (take j (w # ws))), m')
      \<and> finalize_state env (state_of ((w # ws) ! j)) = Inr m'" if "j < length (w # ws)" for j
    using that r(3) m by (cases j) (auto simp: add.assoc)
  ultimately show ?case using m by (intro exI [of _ "(i, off, m) # rows"]) simp
qed simp

lemma length_concat_chunks: "0 < k \<Longrightarrow> j < length (chunks k data) \<Longrightarrow> length (concat (take j (chunks k data))) = j * k"
proof (induction k data arbitrary: j rule: chunks.induct)
  case (1 k data)
  then have ne: "data \<noteq> []" by (auto simp: chunks.simps)
  then have eq: "chunks k data = take k data # chunks k (drop k data)" using 1(2) by (simp add: chunks.simps)
  show ?case
  proof (cases j)
    case (Suc i)
    with 1 ne eq have "length (concat (take i (chunks k (drop k data)))) = i * k" and "drop k data \<noteq> []"
      by (auto simp: chunks.simps)
    with Suc eq show ?thesis by simp
  qed simp
qed

text \<open>
  The windows of a slice partition it: laid end to end they are the slice, the window with
  index \<open>i\<close> starts at \<open>i\<close> times the window size, and its row holds the figures of exactly its bytes.
\<close>

theorem windows_partition_slice:
  assumes "0 < w"
  shows "\<exists>rows. iter_windows np env w data = Inr rows
    \<and> concat (map (\<lambda>(i, off, m). take (mt_bytes m) (drop off data)) rows) = data
    \<and> (\<forall>j < length rows. \<exists>m. rows ! j = (j, j * nat w, m) \<and> slice_figures (take (nat w) (drop (j * nat w) data)) m)"
proof -
  let ?k = "nat w"
  let ?ws = "chunks ?k data"
  have k: "0 < ?k" using assms by simp
  have ws: "window_list w data = ?ws" using assms by (simp add: window_list_def)
  obtain rows where r: "window_rows np env 0 0 ?ws = Inr rows" "length rows = length ?ws"
    "\<forall>j < length ?ws. \<exists>m. rows ! j = (0 + j, 0 + length (concat (take j ?ws)), m) \<and> finalize_state env (state_of (?ws ! j)) = Inr m"
    using window_rows_exact [of ?ws np env 0 0] chunks_nonempty by blast
  have at: "\<exists>m. rows ! j = (j, j * ?k, m) \<and> slice_figures (?ws ! j) m" if "j < length ?ws" for j
    using r(3) that length_concat_chunks [OF k that] finalize_ok by fastforce
  have "map (\<lambda>(i, off, m). take (mt_bytes m) (drop off data)) rows = ?ws"
  proof (rule nth_equalityI)
    fix j assume "j < length (map (\<lambda>(i, off, m). take (mt_bytes m) (drop off data)) rows)"
    then have j: "j < length ?ws" using r(2) by simp
    then obtain m where "rows ! j = (j, j * ?k, m)" "slice_figures (?ws ! j) m" using at by blast
    then show "map (\<lambda>(i, off, m). take (mt_bytes m) (drop off data)) rows ! j = ?ws ! j"
      using j r(2) chunks_nth [OF k j] take_length_prefix by (simp add: slice_figures_def min.commute del: length_take)
  qed (simp add: r(2))
  then show ?thesis
    using r(1,2) at chunks_nth [OF k] by (auto simp: iter_windows_def ws concat_chunks [OF k])
qed

text \<open>Three bytes in windows of two.\<close>

theorem windows_partition_slice_witness:
  "(0 :: int) < 2 \<and> (\<exists>rows. iter_windows False \<lparr>chi2_sf = None, erfc = (\<lambda>_. 0)\<rparr> 2 [1, 2, 3] = Inr rows
     \<and> concat (map (\<lambda>(i, off, m). take (mt_bytes m) (drop off [1, 2, 3])) rows) = [1, 2, 3 :: byte])"
  using windows_partition_slice [of 2 False "\<lparr>chi2_sf = None, erfc = (\<lambda>_. 0)\<rparr>" "[1, 2, 3]"] by force

end
