(* ===== verification/RebootSlices.thy ===== *)
theory RebootSlices
  imports RebootFiles RebootStats
begin

text \<open>
  What \<open>analyze_reboot_slices.py\<close> computes across reboots: the aligned comparison of two files,
  groups of identical slices, trends, the first against the last reboots and windows, the run and
  aggregate paths of a manifest, and the summary of an external test battery.
\<close>

section \<open>Comparing two files\<close>

text \<open>One pair of chunks of equal length: equal bytes and differing bits, byte by byte or on arrays.\<close>

definition compare_chunk :: "bool \<Rightarrow> bytes \<Rightarrow> bytes \<Rightarrow> nat \<times> nat \<Rightarrow> nat \<times> nat" where
  "compare_chunk np a b st =
     (if np then
        (fst st + sum_list (map2 (\<lambda>x y. of_bool (x = y)) a b),
         snd st + sum_list (map (\<lambda>v. BIT_COUNTS ! unat v) (map2 (XOR) a b)))
      else
        fold (\<lambda>(x, y) (e, d). (e + of_bool (x = y), d + BIT_COUNTS ! unat (x XOR y))) (zip a b) st)"

text \<open>The loop: bytes compared, equal bytes, differing bits.\<close>

function compare_loop :: "bool \<Rightarrow> nat \<Rightarrow> bytes \<Rightarrow> bytes \<Rightarrow> nat \<times> nat \<times> nat \<Rightarrow> nat \<times> nat \<times> nat" where
  "compare_loop np k a b (n, st) =
     (let a1 = take k a; b1 = take k b
      in if a1 = [] \<or> b1 = [] then (n, st)
         else (let keep = min (length a1) (length b1);
                   a2 = (if length a1 \<noteq> length b1 then take keep a1 else a1);
                   b2 = (if length a1 \<noteq> length b1 then take keep b1 else b1);
                   st' = (n + length a2, compare_chunk np a2 b2 st)
               in if length a2 \<noteq> length b2 then st' else compare_loop np k (drop k a) (drop k b) st'))"
  by pat_completeness auto
termination by (relation "measure (\<lambda>(np, k, a, b, st). length a)") auto

declare compare_loop.simps [simp del]

record aligned =
  al_compared :: nat
  al_bits :: nat
  al_bit_ratio :: real
  al_equal :: nat
  al_equal_ratio :: real

definition compare_aligned_files :: "bool \<Rightarrow> nat \<Rightarrow> bytes \<Rightarrow> bytes \<Rightarrow> aligned" where
  "compare_aligned_files np k a b =
     (case compare_loop np k a b (0, 0, 0) of (n, eq, bits) \<Rightarrow>
        \<lparr>al_compared = n, al_bits = bits, al_bit_ratio = (if n \<noteq> 0 then real bits / real (n * 8) else 0),
         al_equal = eq, al_equal_ratio = (if n \<noteq> 0 then real eq / real n else 0)\<rparr>)"

section \<open>Trends and groups\<close>

definition linear_slope :: "real list \<Rightarrow> real list \<Rightarrow> real" where
  "linear_slope xs ys =
     (if length xs < 2 then 0
      else (let mx = mean xs; my = mean ys; denom = sum_list (map (\<lambda>x. (x - mx)\<^sup>2) xs)
            in if denom = 0 then 0 else sum_list (map2 (\<lambda>x y. (x - mx) * (y - my)) xs ys) / denom))"

record stat_row =
  sr_n :: nat
  sr_min :: "real option"
  sr_mean :: "real option"
  sr_max :: "real option"

definition stat_range :: "real list \<Rightarrow> stat_row" where
  "stat_range vs =
     (if vs = [] then \<lparr>sr_n = 0, sr_min = None, sr_mean = None, sr_max = None\<rparr>
      else \<lparr>sr_n = length vs, sr_min = Some (lmin vs), sr_mean = Some (mean vs), sr_max = Some (lmax vs)\<rparr>)"

text \<open>The indices are counted from 1.\<close>

definition add_seen :: "nat \<times> 'a \<Rightarrow> ('a, nat list) dict \<Rightarrow> ('a, nat list) dict" where
  "add_seen iv seen =
     (let d = dict_setdefault (snd iv) [] seen in dict_set (snd iv) (dict_get_or d (snd iv) [] @ [fst iv]) d)"

definition duplicate_run_groups :: "'a list \<Rightarrow> nat list list" where
  "duplicate_run_groups vs =
     filter (\<lambda>g. length g > 1) (map snd (fold add_seen (enumerate 1 vs) []))"

text \<open>\<open>fh.read(n)\<close>: a negative size reads everything.\<close>

definition read_at_most :: "int \<Rightarrow> bytes \<Rightarrow> bytes" where
  "read_at_most n b = (if n < 0 then b else take (nat n) b)"

definition prefix_sha256 :: "(bytes \<Rightarrow> bytes) \<Rightarrow> int \<Rightarrow> bytes \<Rightarrow> string" where
  "prefix_sha256 sha n b = hex_of (sha (read_at_most n b))"

record similarity =
  si_runs :: nat
  si_unique :: nat
  si_duplicates :: "nat list list"
  si_prefix_bytes :: int
  si_unique_prefix :: nat
  si_duplicate_prefix :: "nat list list"
  si_pairs :: nat
  si_bit_ratio :: stat_row
  si_equal_ratio :: stat_row
  si_first_last :: "aligned option"

definition cross_reboot_similarity ::
    "(bytes \<Rightarrow> bytes) \<Rightarrow> bool \<Rightarrow> bytes list \<Rightarrow> string list \<Rightarrow> int \<Rightarrow> similarity" where
  "cross_reboot_similarity sha np datas shas n =
     (let prefixes = map (prefix_sha256 sha n) datas;
          adjacent = map2 (compare_aligned_files np READ_BYTES) (butlast datas) (tl datas)
      in \<lparr>si_runs = length datas, si_unique = length (remdups shas), si_duplicates = duplicate_run_groups shas,
          si_prefix_bytes = n, si_unique_prefix = length (remdups prefixes), si_duplicate_prefix = duplicate_run_groups prefixes,
          si_pairs = length adjacent, si_bit_ratio = stat_range (map al_bit_ratio adjacent),
          si_equal_ratio = stat_range (map al_equal_ratio adjacent),
          si_first_last = (if length datas > 1 then Some (compare_aligned_files np READ_BYTES (hd datas) (last datas)) else None)\<rparr>)"

section \<open>The comparison is that of the common prefix\<close>

definition equal_count :: "bytes \<Rightarrow> bytes \<Rightarrow> nat" where
  "equal_count a b = length (filter (\<lambda>(x, y). x = y) (zip a b))"

lemma compare_chunk_eq:
  "compare_chunk np a b (e, d) = (e + equal_count a b, d + xor_count a b)"
proof -
  have "fold (\<lambda>(x, y) (e, d). (e + of_bool (x = y), d + BIT_COUNTS ! unat (x XOR y))) (zip a b) (e, d)
      = (e + equal_count a b, d + xor_count a b)"
    by (induction a b arbitrary: e d rule: list_induct2') (auto simp: equal_count_def BIT_COUNTS_nth)
  moreover have "sum_list (map2 (\<lambda>x y. of_bool (x = y)) a b) = equal_count a b"
    by (induction a b rule: list_induct2') (auto simp: equal_count_def)
  moreover have "sum_list (map (\<lambda>v. BIT_COUNTS ! unat v) (map2 (XOR) a b)) = xor_count a b"
    by (induction a b rule: list_induct2') (auto simp: BIT_COUNTS_nth)
  ultimately show ?thesis by (simp add: compare_chunk_def)
qed

lemma equal_count_take: "equal_count (take n a) (take n b) + equal_count (drop n a) (drop n b) = equal_count a b"
proof -
  have "zip a b = take n (zip a b) @ drop n (zip a b)" by simp
  then show ?thesis unfolding equal_count_def take_zip [symmetric] drop_zip [symmetric]
    by (metis filter_append length_append)
qed

lemma xor_count_take: "xor_count (take n a) (take n b) + xor_count (drop n a) (drop n b) = xor_count a b"
  by (induction a b arbitrary: n rule: list_induct2') (auto simp: take_Cons' drop_Cons')

lemma zip_min: "zip (take (min (length a) (length b)) a) (take (min (length a) (length b)) b) = zip a b"
  by (simp flip: take_zip)

lemma equal_count_min: "equal_count (take (min (length a) (length b)) a) (take (min (length a) (length b)) b) = equal_count a b"
  by (simp only: equal_count_def zip_min)

lemma xor_count_min: "xor_count (take (min (length a) (length b)) a) (take (min (length a) (length b)) b) = xor_count a b"
  by (simp only: xor_count_def zip_min)

lemma compare_loop_exact:
  "0 < k \<Longrightarrow> compare_loop np k a b (n, e, d) = (n + min (length a) (length b), e + equal_count a b, d + xor_count a b)"
proof (induction "length a" arbitrary: a b n e d rule: less_induct)
  case less
  show ?case
  proof (cases "a = [] \<or> b = []")
    case True
    then show ?thesis using less(2) by (auto simp: compare_loop.simps equal_count_def xor_count_def)
  next
    case False
    let ?a = "take k a" and ?b = "take k b"
    let ?m = "min (length ?a) (length ?b)"
    have len: "length (take ?m ?a) = ?m" "length (take ?m ?b) = ?m" by simp_all
    have cut: "(if length ?a \<noteq> length ?b then take ?m ?a else ?a) = take ?m ?a"
      "(if length ?a \<noteq> length ?b then take ?m ?b else ?b) = take ?m ?b"
      by (simp_all del: length_take take_take)
    have step: "compare_loop np k a b (n, e, d)
        = compare_loop np k (drop k a) (drop k b) (n + ?m, e + equal_count ?a ?b, d + xor_count ?a ?b)"
      using False less(2)
      by (simp only: compare_loop.simps [of np k a b] Let_def cut len compare_chunk_eq equal_count_min xor_count_min
          take_eq_Nil if_False simp_thms) simp
    have "length (drop k a) < length a" using False less(2) by simp
    then show ?thesis
      unfolding step using less False equal_count_take [of k a b] xor_count_take [of k a b] by auto
  qed
qed

text \<open>
  The aligned comparison of two files, in chunks of any size and with or without numpy, counts
  over exactly the common prefix: as many bytes as the shorter file has, the positions where they
  are equal, the bits in which they differ. Both ratios lie between 0 and 1, and two files of
  equal length are reported as fully equal exactly when they are the same.
\<close>

theorem comparison_exact:
  assumes "0 < k"
  shows "compare_aligned_files np k a b = compare_aligned_files np' READ_BYTES b a
    \<and> al_compared (compare_aligned_files np k a b) = min (length a) (length b)
    \<and> al_bits (compare_aligned_files np k a b) = xor_count a b
    \<and> al_equal (compare_aligned_files np k a b) = equal_count a b
    \<and> 0 \<le> al_bit_ratio (compare_aligned_files np k a b) \<and> al_bit_ratio (compare_aligned_files np k a b) \<le> 1
    \<and> 0 \<le> al_equal_ratio (compare_aligned_files np k a b) \<and> al_equal_ratio (compare_aligned_files np k a b) \<le> 1
    \<and> (length a = length b \<and> a \<noteq> [] \<longrightarrow> (al_bit_ratio (compare_aligned_files np k a b) = 0 \<longleftrightarrow> a = b))"
proof -
  have eq: "compare_aligned_files np k a b =
      \<lparr>al_compared = min (length a) (length b), al_bits = xor_count a b,
       al_bit_ratio = (if min (length a) (length b) \<noteq> 0 then real (xor_count a b) / real (min (length a) (length b) * 8) else 0),
       al_equal = equal_count a b,
       al_equal_ratio = (if min (length a) (length b) \<noteq> 0 then real (equal_count a b) / real (min (length a) (length b)) else 0)\<rparr>"
    if "0 < k" for np k a b
    using compare_loop_exact [OF that, of np a b 0 0 0] by (simp add: compare_aligned_files_def)
  have comm: "equal_count a b = equal_count b a"
    by (induction a b rule: list_induct2') (auto simp: equal_count_def)
  have bits: "real (xor_count a b) \<le> real (min (length a) (length b) * 8)"
    unfolding of_nat_le_iff using xor_count_bound [of a b] by (simp add: mult.commute)
  have equal: "real (equal_count a b) \<le> real (min (length a) (length b))"
    using length_filter_le [of "\<lambda>(x, y). x = y" "zip a b"] 
    unfolding of_nat_le_iff equal_count_def by simp
  have same: "compare_aligned_files np k a b = compare_aligned_files np' READ_BYTES b a"
    unfolding eq [OF assms] using eq [of READ_BYTES np' b a]
    by (simp add: READ_BYTES_def comm xor_count_comm min.commute)
  have "real (xor_count a b) / real (min (length a) (length b) * 8) \<le> 1"
    "real (equal_count a b) / real (min (length a) (length b)) \<le> 1"
    using bits equal unfolding divide_le_eq_1 by linarith+
  then show ?thesis
    unfolding same [symmetric] unfolding eq [OF assms] using xor_count_eq_0 [of a b] by simp
qed

text \<open>Three bytes against four, one of them different, in chunks of two.\<close>

theorem comparison_exact_witness:
  "(0 :: nat) < 2 \<and> al_compared (compare_aligned_files True 2 [1, 2, 3] [1, 0, 3, 4]) = 3
   \<and> al_equal (compare_aligned_files True 2 [1, 2, 3] [1, 0, 3, 4]) = 2
   \<and> (al_bit_ratio (compare_aligned_files True 2 [1, 2] [1, 2 :: byte]) = 0)"
  using comparison_exact [of 2 True "[1, 2, 3]" "[1, 0, 3, 4]" True, THEN conjunct2]
    comparison_exact [of 2 True "[1, 2]" "[1, 2]" True, THEN conjunct2]
  by (simp add: equal_count_def)

section \<open>Repeated slices\<close>

definition indices_of :: "'a list \<Rightarrow> 'a \<Rightarrow> nat list" where
  "indices_of vs v = map fst (filter (\<lambda>iv. snd iv = v) (enumerate 1 vs))"

lemma add_seen_get:
  "dict_get (add_seen iv d) v = (if v = snd iv then Some (dict_get_or d v [] @ [fst iv]) else dict_get d v)"
  by (auto simp: add_seen_def Let_def dict_get_or_def split: option.splits)

lemma add_seen_fold:
  "dict_get_or (fold add_seen ivs d) v [] = dict_get_or d v [] @ map fst (filter (\<lambda>iv. snd iv = v) ivs)"
  by (induction ivs arbitrary: d) (auto simp: dict_get_or_def add_seen_get split: option.splits)

lemma add_seen_ok: "dict_ok d \<Longrightarrow> dict_ok (add_seen iv d)"
  by (simp add: add_seen_def Let_def dict_setdefault_def)

lemma fold_add_seen_ok: "dict_ok d \<Longrightarrow> dict_ok (fold add_seen ivs d)"
  by (induction ivs arbitrary: d) (auto simp: add_seen_ok)

lemma set_duplicate_run_groups:
  "set (duplicate_run_groups vs) = {indices_of vs v |v. 1 < length (indices_of vs v)}"
proof -
  let ?d = "fold add_seen (enumerate 1 vs) []"
  have ok: "distinct (map fst ?d)" using fold_add_seen_ok [of "[]" "enumerate 1 vs"] by (simp add: dict_ok_def)
  have get: "dict_get_or ?d v [] = indices_of vs v" for v
    by (simp only: add_seen_fold) (simp add: indices_of_def dict_get_or_def dict_get_def)
  have sound: "g = indices_of vs v" if "(v, g) \<in> set ?d" for v g
    using map_of_is_SomeI [OF ok that] get [of v] by (simp add: dict_get_or_def dict_get_def)
  have complete: "(v, indices_of vs v) \<in> set ?d" if "indices_of vs v \<noteq> []" for v
    using that get [of v] by (auto simp: dict_get_or_def dict_get_def split: option.splits dest: map_of_SomeD)
  show ?thesis
  proof (intro set_eqI iffI)
    fix g assume "g \<in> set (duplicate_run_groups vs)"
    then obtain v where "(v, g) \<in> set ?d" "1 < length g" by (auto simp: duplicate_run_groups_def)
    then show "g \<in> {indices_of vs v |v. 1 < length (indices_of vs v)}" using sound by blast
  next
    fix g assume "g \<in> {indices_of vs v |v. 1 < length (indices_of vs v)}"
    then obtain v where v: "g = indices_of vs v" "1 < length g" by blast
    then have "(v, g) \<in> set ?d" using complete by force
    then show "g \<in> set (duplicate_run_groups vs)" using v(2) by (force simp: duplicate_run_groups_def)
  qed
qed

lemma in_indices_of: "i \<in> set (indices_of vs v) \<longleftrightarrow> 1 \<le> i \<and> i \<le> length vs \<and> vs ! (i - 1) = v"
  unfolding indices_of_def by (force simp: in_set_enumerate_eq image_iff)

lemma distinct_indices_of: "distinct (indices_of vs v)"
proof -
  have "distinct (map fst (filter (\<lambda>iv. snd iv = v) (enumerate n vs)))" for n :: nat
    by (rule distinct_map_filter) (simp add: map_fst_enumerate)
  then show ?thesis unfolding indices_of_def by blast
qed

lemma two_in_list: "distinct xs \<Longrightarrow> 1 < length xs \<longleftrightarrow> (\<exists>i \<in> set xs. \<exists>j \<in> set xs. i \<noteq> j)"
proof
  assume "distinct xs" "1 < length xs"
  moreover have "0 < length xs" using calculation by linarith
  ultimately have "xs ! 0 \<noteq> xs ! 1" "xs ! 0 \<in> set xs" "xs ! 1 \<in> set xs"
    by (simp_all only: nth_eq_iff_index_eq nth_mem)
  then show "\<exists>i \<in> set xs. \<exists>j \<in> set xs. i \<noteq> j" by blast
next
  assume "\<exists>i \<in> set xs. \<exists>j \<in> set xs. i \<noteq> j"
  then obtain i j where ij: "{i, j} \<subseteq> set xs" "i \<noteq> j" by auto
  then have "card {i, j} \<le> card (set xs)" by (intro card_mono) auto
  then show "1 < length xs" using ij card_length [of xs] by auto
qed

text \<open>
  The groups of identical slices are exact: two different reboots are in one reported group
  exactly when their digests are equal, and nothing is reported exactly when all differ.
\<close>

theorem duplicates_reported:
  "(\<forall>i j. i \<noteq> j \<longrightarrow>
      ((\<exists>g \<in> set (duplicate_run_groups vs). i \<in> set g \<and> j \<in> set g)
       \<longleftrightarrow> 1 \<le> i \<and> i \<le> length vs \<and> 1 \<le> j \<and> j \<le> length vs \<and> vs ! (i - 1) = vs ! (j - 1)))
   \<and> (duplicate_run_groups vs = [] \<longleftrightarrow> distinct vs)"
proof -
  have pair: "(\<exists>g \<in> set (duplicate_run_groups vs). i \<in> set g \<and> j \<in> set g)
      \<longleftrightarrow> 1 \<le> i \<and> i \<le> length vs \<and> 1 \<le> j \<and> j \<le> length vs \<and> vs ! (i - 1) = vs ! (j - 1)" if "i \<noteq> j" for i j
  proof
    assume "\<exists>g \<in> set (duplicate_run_groups vs). i \<in> set g \<and> j \<in> set g"
    then show "1 \<le> i \<and> i \<le> length vs \<and> 1 \<le> j \<and> j \<le> length vs \<and> vs ! (i - 1) = vs ! (j - 1)"
      by (auto simp: set_duplicate_run_groups in_indices_of)
  next
    assume *: "1 \<le> i \<and> i \<le> length vs \<and> 1 \<le> j \<and> j \<le> length vs \<and> vs ! (i - 1) = vs ! (j - 1)"
    let ?g = "indices_of vs (vs ! (i - 1))"
    have "i \<in> set ?g" "j \<in> set ?g" using * by (simp_all add: in_indices_of)
    moreover have "1 < length ?g"
      by (rule two_in_list [OF distinct_indices_of, THEN iffD2]) (use calculation that in blast)
    ultimately show "\<exists>g \<in> set (duplicate_run_groups vs). i \<in> set g \<and> j \<in> set g"
      by (auto simp: set_duplicate_run_groups)
  qed
  have "duplicate_run_groups vs \<noteq> [] \<longleftrightarrow> \<not> distinct vs"
  proof
    assume "duplicate_run_groups vs \<noteq> []"
    then have "hd (duplicate_run_groups vs) \<in> set (duplicate_run_groups vs)" by simp
    then obtain v where "1 < length (indices_of vs v)" unfolding set_duplicate_run_groups by blast
    then obtain i j where "i \<in> set (indices_of vs v)" "j \<in> set (indices_of vs v)" "i \<noteq> j"
      using two_in_list [OF distinct_indices_of, of vs v] by blast
    then have "i - 1 < length vs" "j - 1 < length vs" "i - 1 \<noteq> j - 1" "vs ! (i - 1) = vs ! (j - 1)"
      unfolding in_indices_of by auto
    then show "\<not> distinct vs" by (auto simp: distinct_conv_nth)
  next
    assume "\<not> distinct vs"
    then obtain i j where "i < length vs" "j < length vs" "i \<noteq> j" "vs ! i = vs ! j" by (auto simp: distinct_conv_nth)
    then show "duplicate_run_groups vs \<noteq> []" using pair [of "Suc i" "Suc j"] by auto
  qed
  with pair show ?thesis by blast
qed

text \<open>Runs 1 and 3 are the same.\<close>

theorem duplicates_reported_witness:
  "(1 :: nat) \<noteq> 3 \<and> (\<exists>g \<in> set (duplicate_run_groups [5, 6, 5 :: nat]). 1 \<in> set g \<and> 3 \<in> set g)"
  using duplicates_reported [of "[5, 6, 5 :: nat]"] by (auto elim: allE [of _ 1])

section \<open>The trend of a line\<close>

lemma sum_centred: "xs \<noteq> [] \<Longrightarrow> sum_list (map (\<lambda>x. x - mean xs) xs) = 0"
  by (simp add: sum_list_subtractf mean_def sum_list_triv)

text \<open>
  The slope per reboot is the coefficient of a linear trend, whatever its offset, as soon as
  two reboot numbers differ; with fewer than two reboots, or all at one number, it is 0.
\<close>

theorem slope_of_line:
  "(xs \<noteq> [] \<and> (\<exists>x \<in> set xs. x \<noteq> hd xs) \<longrightarrow> linear_slope xs (map (\<lambda>x. a * x + b) xs) = a)
   \<and> (length xs < 2 \<or> (\<forall>x \<in> set xs. x = hd xs) \<longrightarrow> linear_slope xs ys = 0)"
proof -
  let ?d = "sum_list (map (\<lambda>x. (x - mean xs)\<^sup>2) xs)"
  have zero: "?d = 0 \<longleftrightarrow> (\<forall>x \<in> set xs. x = mean xs)"
    by (subst sum_list_nonneg_eq_0_iff) auto
  have const: "\<forall>x \<in> set xs. x = hd xs \<Longrightarrow> xs \<noteq> [] \<Longrightarrow> mean xs = hd xs"
    by (metis length_greater_0_conv mean_replicate replicate_length_same)
  have line: "linear_slope xs (map (\<lambda>x. a * x + b) xs) = a" if ne: "xs \<noteq> []" and x: "\<exists>x \<in> set xs. x \<noteq> hd xs"
  proof -
    have two: "\<not> length xs < 2" using ne x by (cases xs; cases "tl xs") auto
    have d: "?d \<noteq> 0" unfolding zero using ne x by (metis list.set_sel(1))
    have m: "mean (map (\<lambda>x. a * x + b) xs) = a * mean xs + b"
      using ne by (simp add: mean_def sum_list_addf sum_list_const_mult sum_list_triv add_divide_distrib del: sum_list_mult_const)
    have "map2 (\<lambda>x y. (x - mx) * (y - (a * mx + b))) xs (map (\<lambda>x. a * x + b) xs) = map (\<lambda>x. a * (x - mx)\<^sup>2) xs" for mx
      by (induction xs) (simp_all add: power2_eq_square algebra_simps)
    then show ?thesis using two d by (simp add: linear_slope_def Let_def m sum_list_const_mult)
  qed
  moreover have "linear_slope xs ys = 0" if "length xs < 2 \<or> (\<forall>x \<in> set xs. x = hd xs)"
  proof (cases "length xs < 2")
    case False
    then have "?d = 0" using that zero const by (metis (no_types, lifting) list.size(3) zero_less_numeral)
    then show ?thesis unfolding linear_slope_def Let_def by simp
  qed (simp add: linear_slope_def)
  ultimately show ?thesis by blast
qed

text \<open>A trend of two per reboot.\<close>

theorem slope_of_line_witness:
  "[1, 2, 3 :: real] \<noteq> [] \<and> (\<exists>x \<in> set [1, 2, 3 :: real]. x \<noteq> hd [1, 2, 3])
   \<and> linear_slope [1, 2, 3] (map (\<lambda>x. 2 * x + 5) [1, 2, 3]) = 2 \<and> linear_slope [4] [9] = 0"
  using slope_of_line [of "[1, 2, 3]" 2 5] slope_of_line [of "[4]" 0 0 "[9]"] by simp

end
