(* ===== verification/RebootReport.thy ===== *)
theory RebootReport
  imports RebootSlices
begin

text \<open>
  The run of \<open>analyze_reboot_slices.py\<close>: the dataset's manifest, the rows of the two CSV tables,
  the summary over reboots, the results of an external test battery, the Markdown report, and
  \<open>main\<close>. Parameters: SHA-256, path resolution, the text of floats, what the battery does.
\<close>

section \<open>Environment\<close>

record slice_env =
  docs :: doc_env
  numpy :: bool
  maths :: math_env
  sha256 :: "bytes \<Rightarrow> bytes"
  resolved :: "path \<Rightarrow> path"
  comma_float :: "real \<Rightarrow> string"
  run_program :: "string list \<Rightarrow> (path \<Rightarrow> node option) \<Rightarrow> py_error option \<times> (path \<Rightarrow> node option)"

record slice_args =
  dataset_root :: path
  out_dir :: "path option"
  window_bytes :: int
  prefix_bytes :: int
  want_randlab :: bool
  randlab :: path
  tools_root :: path
  randlab_profile :: string
  suites :: "string list"

definition DEFAULT_SUITES :: "string list" where
  "DEFAULT_SUITES =
     [''ent'', ''entropy-iid'', ''entropy-non-iid'', ''borel'', ''ais31-p1-t0'', ''ais31-p1-t1-t5'', ''ais31-p2'',
      ''gmt-sts'', ''practrand'', ''testu01-rabbit'']"

section \<open>The manifest\<close>

definition load_manifest :: "doc_env \<Rightarrow> path \<Rightarrow> (world, json) io" where
  "load_manifest de base =
     io_bind (exists_at (base @ [''manifest.json'']))
       (\<lambda>e. if e then read_json de (base @ [''manifest.json'']) else io_raise FileNotFoundError)"

definition captured_path :: "(json \<Rightarrow> string) \<Rightarrow> path \<Rightarrow> json \<Rightarrow> path list result" where
  "captured_path rep base run =
     (case run of
        JObj d \<Rightarrow>
          (if dict_get d ''status'' \<noteq> Some (JStr ''captured'') then Inr []
           else rbind (dict_item d ''path'') (\<lambda>p. Inr [path_div base (path_of (json_str rep p))]))
      | _ \<Rightarrow> Inr [])"

definition run_paths :: "(json \<Rightarrow> string) \<Rightarrow> path \<Rightarrow> json \<Rightarrow> path list result" where
  "run_paths rep base manifest =
     rbind (json_get ''runs'' (JArr []) manifest) (\<lambda>runs.
     rbind (json_iter runs) (\<lambda>vs.
     rbind (rmap (captured_path rep base) vs) (\<lambda>pss. Inr (concat pss))))"

definition aggregate_path :: "(json \<Rightarrow> string) \<Rightarrow> path \<Rightarrow> json \<Rightarrow> path result" where
  "aggregate_path rep base manifest =
     rbind (json_get ''aggregate'' (JObj []) manifest) (\<lambda>agg.
       case agg of
         JObj d \<Rightarrow> (case dict_get d ''path'' of None \<Rightarrow> Inl ValueError
                     | Some p \<Rightarrow> Inr (path_div base (path_of (json_str rep p))))
       | _ \<Rightarrow> Inl ValueError)"

section \<open>Rows\<close>

record run_row =
  r_run :: nat
  r_path :: string
  r_metrics :: metrics
  r_sha256 :: string

record window_row =
  w_run :: nat
  w_window :: nat
  w_offset :: nat
  w_metrics :: metrics

definition metrics_dict :: "metrics \<Rightarrow> (string \<times> json) list" where
  "metrics_dict m =
     [(''bytes'', JInt (int (mt_bytes m))), (''entropy_bits_per_byte'', JFloat (mt_entropy m)),
      (''mcv_min_entropy_bits_per_byte'', JFloat (mt_mcv m)), (''chi_square'', JFloat (mt_chi_square m)),
      (''chi_square_exceed_percent'', JFloat (mt_chi_exceed m)), (''mean_byte'', JFloat (mt_mean m)),
      (''ones_ratio'', JFloat (mt_ones m)), (''serial_correlation'', JFloat (mt_serial m)),
      (''most_common_byte_count'', JInt (int (mt_max_count m)))]"

definition run_row_dict :: "run_row \<Rightarrow> (string \<times> json) list" where
  "run_row_dict r =
     [(''run'', JInt (int (r_run r))), (''path'', JStr (r_path r))] @ metrics_dict (r_metrics r)
     @ [(''sha256'', JStr (r_sha256 r))]"

definition window_row_dict :: "window_row \<Rightarrow> (string \<times> json) list" where
  "window_row_dict r =
     [(''run'', JInt (int (w_run r))), (''window'', JInt (int (w_window r))), (''offset'', JInt (int (w_offset r))),
      (''window_bytes'', JInt (int (mt_bytes (w_metrics r))))] @ metrics_dict (w_metrics r)"

definition analyze_run ::
    "slice_env \<Rightarrow> slice_args \<Rightarrow> path \<Rightarrow> nat \<times> path \<Rightarrow> (world, run_row \<times> window_row list) io" where
  "analyze_run env args base ip =
     io_bind (read_raw (docs env) (snd ip)) (\<lambda>data.
     io_bind (io_lift (metrics_for_file (sha256 env) (numpy env) (maths env) data)) (\<lambda>ms.
     io_bind (io_lift (relative_to (snd ip) base)) (\<lambda>rel.
     io_bind (read_raw (docs env) (snd ip)) (\<lambda>data.
     io_bind (io_lift (iter_windows (numpy env) (maths env) (window_bytes args) data)) (\<lambda>ws.
     io_return
       (\<lparr>r_run = fst ip, r_path = path_str rel, r_metrics = fst ms, r_sha256 = snd ms\<rparr>,
        map (\<lambda>(i, off, m). \<lparr>w_run = fst ip, w_window = i, w_offset = off, w_metrics = m\<rparr>) ws))))))"

fun analyze_runs ::
    "slice_env \<Rightarrow> slice_args \<Rightarrow> path \<Rightarrow> (nat \<times> path) list \<Rightarrow> (world, run_row list \<times> window_row list) io" where
  "analyze_runs env args base [] = io_return ([], [])"
| "analyze_runs env args base (ip # ips) =
     io_bind (analyze_run env args base ip) (\<lambda>r.
     io_bind (analyze_runs env args base ips) (\<lambda>rs.
     io_return (fst r # fst rs, snd r @ snd rs)))"

section \<open>The summary over reboots\<close>

datatype metric = Entropy | Mcv | Chi_Exceed | Mean_Byte | Ones_Ratio | Serial

fun metric_value :: "metric \<Rightarrow> metrics \<Rightarrow> real" where
  "metric_value Entropy m = mt_entropy m"
| "metric_value Mcv m = mt_mcv m"
| "metric_value Chi_Exceed m = mt_chi_exceed m"
| "metric_value Mean_Byte m = mt_mean m"
| "metric_value Ones_Ratio m = mt_ones m"
| "metric_value Serial m = mt_serial m"

fun metric_key :: "metric \<Rightarrow> string" where
  "metric_key Entropy = ''entropy_bits_per_byte''"
| "metric_key Mcv = ''mcv_min_entropy_bits_per_byte''"
| "metric_key Chi_Exceed = ''chi_square_exceed_percent''"
| "metric_key Mean_Byte = ''mean_byte''"
| "metric_key Ones_Ratio = ''ones_ratio''"
| "metric_key Serial = ''serial_correlation''"

fun metric_label :: "metric \<Rightarrow> string" where
  "metric_label Entropy = ''Entropy''"
| "metric_label Mcv = ''MCV min-entropy''"
| "metric_label Chi_Exceed = ''Chi-square exceed %''"
| "metric_label Mean_Byte = ''Mean byte''"
| "metric_label Ones_Ratio = ''Ones ratio''"
| "metric_label Serial = ''Serial correlation''"

definition RUN_METRICS :: "metric list" where
  "RUN_METRICS = [Entropy, Mcv, Chi_Exceed, Mean_Byte, Ones_Ratio, Serial]"

definition WINDOW_METRICS :: "metric list" where
  "WINDOW_METRICS = [Entropy, Mcv, Serial]"

record shift =
  sh_first :: real
  sh_last :: real
  sh_difference :: real
  sh_n :: nat

definition quartile_of :: "run_row list \<Rightarrow> nat" where
  "quartile_of rs = max 1 (length rs div 4)"

definition first_last_runs :: "run_row list \<Rightarrow> metric \<Rightarrow> shift result" where
  "first_last_runs rs k =
     (let vs = map (metric_value k \<circ> r_metrics) rs; q = quartile_of rs
      in rbind (py_mean (take q vs)) (\<lambda>f. rbind (py_mean (drop (length vs - q) vs)) (\<lambda>l.
           Inr \<lparr>sh_first = f, sh_last = l, sh_difference = l - f, sh_n = q\<rparr>)))"

definition max_window_by_run :: "window_row list \<Rightarrow> (nat, int) dict" where
  "max_window_by_run ws =
     fold (\<lambda>r d. dict_set (w_run r) (max (dict_get_or d (w_run r) (- 1)) (int (w_window r))) d) ws []"

definition first_windows :: "window_row list \<Rightarrow> window_row list" where
  "first_windows ws = filter (\<lambda>r. w_window r = 0) ws"

definition last_windows :: "window_row list \<Rightarrow> window_row list" where
  "last_windows ws = filter (\<lambda>r. dict_get (max_window_by_run ws) (w_run r) = Some (int (w_window r))) ws"

definition first_last_windows :: "window_row list \<Rightarrow> metric \<Rightarrow> shift result" where
  "first_last_windows ws k =
     (let fs = map (metric_value k \<circ> w_metrics) (first_windows ws); ls = map (metric_value k \<circ> w_metrics) (last_windows ws)
      in rbind (py_mean fs) (\<lambda>f. rbind (py_mean ls) (\<lambda>l.
           Inr \<lparr>sh_first = f, sh_last = l, sh_difference = l - f, sh_n = min (length fs) (length ls)\<rparr>)))"

section \<open>The external test battery\<close>

definition randlab_command :: "slice_env \<Rightarrow> slice_args \<Rightarrow> path \<Rightarrow> path \<Rightarrow> string list" where
  "randlab_command env args input out =
     [path_str (resolved env (randlab args)), ''run'', ''--tools-root'', path_str (resolved env (tools_root args)),
      ''--input'', path_str input, ''--format'', ''raw'', ''--profile'', randlab_profile args]
     @ concat (map (\<lambda>s. [''--suite'', s]) (if suites args \<noteq> [] then suites args else DEFAULT_SUITES))
     @ [''--out'', path_str out]"

definition run_command :: "slice_env \<Rightarrow> string list \<Rightarrow> (world, unit) io" where
  "run_command env cmd w =
     (case run_program env cmd (files w) of (err, fs) \<Rightarrow>
        let w' = w\<lparr>files := fs, commands := commands w @ [cmd]\<rparr>
        in (case err of None \<Rightarrow> (Inr (), w') | Some e \<Rightarrow> (Inl e, w')))"

definition run_randlab :: "slice_env \<Rightarrow> slice_args \<Rightarrow> path \<Rightarrow> path \<Rightarrow> (world, unit) io" where
  "run_randlab env args input out =
     io_bind (exists_at (resolved env (randlab args)))
       (\<lambda>e. if e then run_command env (randlab_command env args input out) else io_raise FileNotFoundError)"

record suite_row =
  su_status :: json
  su_failed :: json
  su_metrics :: "(json, json) dict"

definition metric_item :: "json \<Rightarrow> (json \<times> json) list result" where
  "metric_item j =
     (case j of JObj d \<Rightarrow> rbind (json_key (dict_get_or d ''name'' JNull)) (\<lambda>k. Inr [(k, dict_get_or d ''value'' JNull)])
      | _ \<Rightarrow> Inr [])"

definition suite_result :: "json \<Rightarrow> (json, suite_row) dict \<Rightarrow> (json, suite_row) dict result" where
  "suite_result res summary =
     rbind (json_get ''suite'' JNull res) (\<lambda>suite.
       if \<not> json_truth suite then Inr summary
       else rbind (json_get ''metrics'' (JArr []) res) (\<lambda>ms.
            rbind (json_iter ms) (\<lambda>vs.
            rbind (rmap metric_item vs) (\<lambda>items.
            rbind (json_get ''status'' JNull res) (\<lambda>st.
            rbind (json_get ''failed_metrics'' (JArr []) res) (\<lambda>failed.
            rbind (json_key suite) (\<lambda>k.
              Inr (dict_set k \<lparr>su_status = st, su_failed = failed, su_metrics = dict_update [] (concat items)\<rparr> summary))))))))"

definition summarize_results :: "json \<Rightarrow> (json, suite_row) dict result" where
  "summarize_results manifest =
     rbind (json_get ''results'' (JArr []) manifest) (\<lambda>rs. rbind (json_iter rs) (\<lambda>vs. rfold suite_result vs []))"

definition summarize_randlab :: "doc_env \<Rightarrow> path \<Rightarrow> (world, (json, suite_row) dict option) io" where
  "summarize_randlab de out =
     io_bind (exists_at (out @ [''manifest.json''])) (\<lambda>e.
       if \<not> e then io_return None
       else io_bind (read_json de (out @ [''manifest.json''])) (\<lambda>m.
            io_bind (io_lift (summarize_results m)) (\<lambda>s. io_return (Some s))))"

section \<open>The summary\<close>

record slice_summary =
  sm_root :: string
  sm_manifest :: json
  sm_aggregate :: "metrics \<times> string"
  sm_per_run :: "(metric \<times> stat_row) list"
  sm_slopes :: "(metric \<times> real) list"
  sm_quartiles :: "(metric \<times> shift) list"
  sm_windows :: "(metric \<times> shift) list"
  sm_cross :: similarity
  sm_randlab :: "(json, suite_row) dict option"

definition prefix_size :: "slice_args \<Rightarrow> json \<Rightarrow> int result" where
  "prefix_size args manifest =
     rbind (json_get ''bytes_per_run'' (JInt (prefix_bytes args)) manifest) (\<lambda>v.
     rbind (json_int v) (\<lambda>n. Inr (min (prefix_bytes args) n)))"

definition keyed :: "(metric \<Rightarrow> 'a result) \<Rightarrow> metric \<Rightarrow> (metric \<times> 'a) result" where
  "keyed g k = rbind (g k) (\<lambda>v. Inr (k, v))"

text \<open>The part of \<open>main\<close> between the loop over the files and the test battery.\<close>

definition trends ::
    "run_row list \<Rightarrow> window_row list \<Rightarrow> ((metric \<times> stat_row) list \<times> (metric \<times> real) list
       \<times> (metric \<times> shift) list \<times> (metric \<times> shift) list) result" where
  "trends rs ws =
     (let xs = map (real \<circ> r_run) rs; vals = (\<lambda>k. map (metric_value k \<circ> r_metrics) rs)
      in rbind (rmap (keyed (first_last_runs rs)) RUN_METRICS) (\<lambda>qs.
         rbind (if ws = [] then Inr [] else rmap (keyed (first_last_windows ws)) WINDOW_METRICS) (\<lambda>wins.
           Inr (map (\<lambda>k. (k, stat_range (vals k))) RUN_METRICS,
                map (\<lambda>k. (k, linear_slope xs (vals k))) RUN_METRICS, qs, wins))))"

text \<open>The JSON of the summary.\<close>

definition opt_json :: "real option \<Rightarrow> json" where
  "opt_json v = (case v of None \<Rightarrow> JNull | Some x \<Rightarrow> JFloat x)"

definition stat_json :: "stat_row \<Rightarrow> json" where
  "stat_json r =
     JObj [(''n'', JInt (int (sr_n r))), (''min'', opt_json (sr_min r)), (''mean'', opt_json (sr_mean r)),
           (''max'', opt_json (sr_max r))]"

definition shift_json :: "string \<Rightarrow> shift \<Rightarrow> json" where
  "shift_json n s =
     JObj [(''first_mean'', JFloat (sh_first s)), (''last_mean'', JFloat (sh_last s)),
           (''difference'', JFloat (sh_difference s)), (n, JInt (int (sh_n s)))]"

definition aligned_json :: "aligned \<Rightarrow> json" where
  "aligned_json a =
     JObj [(''compared_bytes'', JInt (int (al_compared a))), (''differing_bits'', JInt (int (al_bits a))),
           (''bit_difference_ratio'', JFloat (al_bit_ratio a)), (''equal_bytes'', JInt (int (al_equal a))),
           (''byte_equal_ratio'', JFloat (al_equal_ratio a))]"

definition groups_json :: "nat list list \<Rightarrow> json" where
  "groups_json gs = JArr (map (\<lambda>g. JArr (map (JInt \<circ> int) g)) gs)"

definition similarity_json :: "similarity \<Rightarrow> json" where
  "similarity_json s =
     JObj [(''runs'', JInt (int (si_runs s))), (''unique_sha256'', JInt (int (si_unique s))),
           (''duplicate_sha256_runs'', groups_json (si_duplicates s)), (''prefix_bytes'', JInt (si_prefix_bytes s)),
           (''unique_prefix_sha256'', JInt (int (si_unique_prefix s))),
           (''duplicate_prefix_runs'', groups_json (si_duplicate_prefix s)), (''adjacent_pairs'', JInt (int (si_pairs s))),
           (''adjacent_bit_difference_ratio'', stat_json (si_bit_ratio s)),
           (''adjacent_byte_equal_ratio'', stat_json (si_equal_ratio s)),
           (''first_last'', (case si_first_last s of None \<Rightarrow> JNull | Some a \<Rightarrow> aligned_json a))]"

text \<open>A key of a dict as \<open>json.dumps\<close> writes it.\<close>

definition key_text :: "(json \<Rightarrow> string) \<Rightarrow> json \<Rightarrow> string" where
  "key_text rep k = (case k of JNull \<Rightarrow> ''null'' | _ \<Rightarrow> json_str rep k)"

definition suite_json :: "(json \<Rightarrow> string) \<Rightarrow> suite_row \<Rightarrow> json" where
  "suite_json rep s =
     JObj [(''status'', su_status s), (''failed_metrics'', su_failed s),
           (''metrics'', JObj (map (\<lambda>(k, v). (key_text rep k, v)) (su_metrics s)))]"

definition summary_json :: "(json \<Rightarrow> string) \<Rightarrow> slice_summary \<Rightarrow> json" where
  "summary_json rep s =
     JObj [(''dataset_root'', JStr (sm_root s)), (''manifest'', sm_manifest s),
           (''aggregate_metrics'', JObj (metrics_dict (fst (sm_aggregate s)) @ [(''sha256'', JStr (snd (sm_aggregate s)))])),
           (''per_run'', JObj (map (\<lambda>(k, r). (metric_key k, stat_json r)) (sm_per_run s))),
           (''slopes'', JObj (map (\<lambda>(k, x). (metric_key k, JFloat x)) (sm_slopes s))),
           (''first_last_quartile'', JObj (map (\<lambda>(k, x). (metric_key k, shift_json ''quartile_n'' x)) (sm_quartiles s))),
           (''first_last_window'', JObj (map (\<lambda>(k, x). (metric_key k, shift_json ''n'' x)) (sm_windows s))),
           (''cross_reboot_similarity'', similarity_json (sm_cross s)),
           (''randlab'', (case sm_randlab s of None \<Rightarrow> JNull
              | Some d \<Rightarrow> JObj (map (\<lambda>(k, r). (key_text rep k, suite_json rep r)) d)))]"

section \<open>The Markdown report\<close>

text \<open>\<open>f\"{n:,}\"\<close> of a value of the manifest.\<close>

definition fmt_comma_json :: "(real \<Rightarrow> string) \<Rightarrow> json \<Rightarrow> string result" where
  "fmt_comma_json cf j =
     (case j of JInt i \<Rightarrow> Inr (fmt_comma i) | JBool b \<Rightarrow> Inr (fmt_comma (if b then 1 else 0)) | JFloat r \<Rightarrow> Inr (cf r)
      | JStr _ \<Rightarrow> Inl ValueError | _ \<Rightarrow> Inl TypeError)"

definition fmt :: "(json \<Rightarrow> string) \<Rightarrow> nat \<Rightarrow> json \<Rightarrow> string" where
  "fmt rep digits j =
     (case j of JNull \<Rightarrow> ''N/A'' | JFloat r \<Rightarrow> fmt_fixed digits r | _ \<Rightarrow> json_str rep j)"

definition fmt_opt :: "real option \<Rightarrow> string" where
  "fmt_opt v = (case v of None \<Rightarrow> ''N/A'' | Some r \<Rightarrow> fmt_fixed 6 r)"

text \<open>A table row of already formatted cells.\<close>

definition md_row :: "string list \<Rightarrow> string" where
  "md_row cells = ''| '' @ join '' | '' cells @ '' |''"

definition md_head :: "slice_env \<Rightarrow> json \<Rightarrow> metrics \<times> string \<Rightarrow> nat \<Rightarrow> string list result" where
  "md_head env manifest agg n =
     rbind (json_get ''bytes_per_run'' JNull manifest) (\<lambda>per.
     rbind (fmt_comma_json (comma_float env) per) (\<lambda>per_text.
     rbind (json_get ''aggregate_bytes'' JNull manifest) (\<lambda>tot.
     rbind (fmt_comma_json (comma_float env) tot) (\<lambda>tot_text. let m = fst agg in Inr
       [''# Wi-Fi Idle Reboot RNG Analysis'', [], ''## Dataset'', [], ''- Runs: '' @ str_of_nat n,
        ''- Bytes per run: '' @ per_text, ''- Aggregate bytes: '' @ tot_text,
        ''- Aggregate SHA-256: `'' @ snd agg @ ''`'', [], ''## Aggregate Raw Metrics'', [], ''| Metric | Value |'',
        ''| :--- | ---: |'',
        md_row [''Entropy (bits/byte)'', fmt_fixed 6 (mt_entropy m)],
        md_row [''MCV min-entropy (bits/byte)'', fmt_fixed 6 (mt_mcv m)],
        md_row [''Chi-square exceed %'', fmt_fixed 6 (mt_chi_exceed m) @ ''%''],
        md_row [''Mean byte'', fmt_fixed 6 (mt_mean m)],
        md_row [''Ones ratio'', fmt_fixed 6 (mt_ones m)],
        md_row [''Serial correlation'', fmt_fixed 6 (mt_serial m)], [],
        ''## Per-Reboot Ranges'', [], ''| Metric | Min | Mean | Max | Slope per reboot |'',
        ''| :--- | ---: | ---: | ---: | ---: |'']))))"

definition md_range :: "slice_summary \<Rightarrow> metric \<Rightarrow> string result" where
  "md_range s k =
     rbind (dict_item (sm_per_run s) k) (\<lambda>r. rbind (dict_item (sm_slopes s) k) (\<lambda>x.
       Inr (md_row [metric_label k, fmt_opt (sr_min r), fmt_opt (sr_mean r), fmt_opt (sr_max r), fmt_fixed 9 x])))"

definition md_shift :: "(metric \<times> shift) list \<Rightarrow> metric \<Rightarrow> string result" where
  "md_shift d k =
     rbind (dict_item d k) (\<lambda>x.
       Inr (md_row [metric_label k, fmt_fixed 6 (sh_first x), fmt_fixed 6 (sh_last x), fmt_fixed 9 (sh_difference x)]))"

definition md_slashes :: "stat_row \<Rightarrow> string" where
  "md_slashes r = join '' / '' [fmt_opt (sr_min r), fmt_opt (sr_mean r), fmt_opt (sr_max r)]"

definition md_cross :: "similarity \<Rightarrow> string list" where
  "md_cross s =
     [[], ''## Cross-Reboot Similarity'', [], ''| Check | Value |'', ''| :--- | ---: |'',
      md_row [''Unique full-slice SHA-256 values'', str_of_nat (si_unique s) @ '' / '' @ str_of_nat (si_runs s)],
      md_row [''Unique first-'' @ str_of_int (si_prefix_bytes s) @ ''-byte prefixes'',
              str_of_nat (si_unique_prefix s) @ '' / '' @ str_of_nat (si_runs s)],
      md_row [''Adjacent aligned bit-difference ratio, min/mean/max'', md_slashes (si_bit_ratio s)],
      md_row [''Adjacent aligned byte-equal ratio, min/mean/max'', md_slashes (si_equal_ratio s)],
      md_row [''First-vs-last aligned bit-difference ratio'', fmt_opt (map_option al_bit_ratio (si_first_last s))],
      md_row [''First-vs-last aligned byte-equal ratio'', fmt_opt (map_option al_equal_ratio (si_first_last s))]]"

definition md_windows :: "slice_summary \<Rightarrow> window_row list \<Rightarrow> string list result" where
  "md_windows s ws =
     (if ws = [] then Inr []
      else rbind (rmap (md_shift (sm_windows s)) WINDOW_METRICS) (\<lambda>rs. Inr
        ([[], ''## Within-Reboot Windows'', [],
          ''Window metrics are computed on fixed-size chunks inside each reboot slice.'',
          ''The summary below compares the first and last window of each reboot.'', [],
          ''| Metric | First-window mean | Last-window mean | Difference |'', ''| :--- | ---: | ---: | ---: |''] @ rs)))"

definition suite_metric :: "suite_row \<Rightarrow> string \<Rightarrow> json" where
  "suite_metric r k = dict_get_or (su_metrics r) (JStr k) JNull"

definition suite_detail :: "(json \<Rightarrow> string) \<Rightarrow> string \<Rightarrow> suite_row \<Rightarrow> string" where
  "suite_detail rep suite r =
     (let st = json_str rep (su_status r)
      in if suite = ''ent'' then
           st @ ''; entropy '' @ fmt rep 6 (suite_metric r ''entropy'') @ '', serial ''
           @ fmt rep 6 (suite_metric r ''serial_correlation'')
         else if suite = ''entropy-iid'' \<or> suite = ''entropy-non-iid'' then
           st @ ''; min-entropy '' @ fmt rep 6 (suite_metric r ''min(H_original, 8 X H_bitstring)'')
         else if suite = ''testu01-rabbit'' then
           st @ ''; suspect p-values '' @ fmt rep 0 (suite_metric r ''suspect_p_values'')
         else st)"

definition md_randlab :: "(json \<Rightarrow> string) \<Rightarrow> (json, suite_row) dict option \<Rightarrow> string list" where
  "md_randlab rep d =
     (case d of None \<Rightarrow> [] | Some [] \<Rightarrow> []
      | Some rs \<Rightarrow> [[], ''## Randlab Aggregate'', [], ''| Suite | Status / Key Metric |'', ''| :--- | :--- |'']
          @ concat (map (\<lambda>suite. case dict_get rs (JStr suite) of None \<Rightarrow> []
                     | Some r \<Rightarrow> [md_row [suite, suite_detail rep suite r]]) DEFAULT_SUITES))"

definition md_tail :: "string list" where
  "md_tail =
     [[], ''## Interpretation'', [],
      ''This analysis checks whether post-association Wi-Fi-idle WDEV output changes'',
      ''across repeated reset-triggered captures. It does not prove boot-time'',
      ''conditional min-entropy and it is not a cold-power SRAM-startup test.'',
      ''A reboot-state weakness should show up as exact slice/prefix repeats,'',
      ''unusually high aligned similarity across boots, a visible per-reboot'',
      ''trend, a first-versus-last reboot shift, or a concentration of'',
      ''statistical failures in later slices rather than only an aggregate'',
      ''battery warning.'', [], ''Generated files:'', [],
      ''- `run_metrics.csv`: one row per reboot slice'',
      ''- `window_metrics.csv`: one row per fixed-size window'',
      ''- `summary.json`: machine-readable summary'']"

definition write_markdown :: "slice_env \<Rightarrow> nat \<Rightarrow> window_row list \<Rightarrow> slice_summary \<Rightarrow> string list result" where
  "write_markdown env n ws s =
     rbind (md_head env (sm_manifest s) (sm_aggregate s) n) (\<lambda>hd.
     rbind (rmap (md_range s) RUN_METRICS) (\<lambda>ranges.
     rbind (rmap (md_shift (sm_quartiles s)) [Entropy, Mcv, Chi_Exceed, Serial]) (\<lambda>quarts.
     rbind (md_windows s ws) (\<lambda>wins. Inr
       (hd @ ranges
        @ [[], ''## Early vs Late Reboots'', [], ''| Metric | First quartile mean | Last quartile mean | Difference |'',
           ''| :--- | ---: | ---: | ---: |'']
        @ quarts @ md_cross (sm_cross s) @ wins @ md_randlab (float_text (docs env)) (sm_randlab s) @ md_tail)))))"

section \<open>The run\<close>

definition results_dir :: "slice_env \<Rightarrow> slice_args \<Rightarrow> path" where
  "results_dir env args =
     resolved env (case out_dir args of Some o_dir \<Rightarrow> o_dir | None \<Rightarrow> resolved env (dataset_root args) @ [''results''])"

definition write_outputs ::
    "slice_env \<Rightarrow> path \<Rightarrow> run_row list \<Rightarrow> window_row list \<Rightarrow> slice_summary \<Rightarrow> (world, unit) io" where
  "write_outputs env out rs ws s =
     io_then (write_csv (out @ [''run_metrics.csv'']) (map run_row_dict rs))
    (io_then (write_csv (out @ [''window_metrics.csv'']) (map window_row_dict ws))
    (io_then (write_node (out @ [''summary.json'']) (Doc (summary_json (float_text (docs env)) s)))
    (io_bind (io_lift (write_markdown env (length rs) ws s)) (\<lambda>lines. write_node (out @ [''analysis.md'']) (Lines lines)))))"

definition read_slices :: "slice_env \<Rightarrow> path list \<Rightarrow> (world, bytes list) io" where
  "read_slices env ps w = (case rmap (\<lambda>p. fst (read_raw (docs env) p w)) ps of r \<Rightarrow> (r, w))"

definition analyze_main :: "slice_env \<Rightarrow> slice_args \<Rightarrow> (world, slice_summary) io" where
  "analyze_main env args =
     (let base = resolved env (dataset_root args); out = results_dir env args; rep = float_text (docs env)
      in io_then (mkdirs out)
        (io_bind (load_manifest (docs env) base) (\<lambda>manifest.
         io_bind (io_lift (run_paths rep base manifest)) (\<lambda>paths.
         io_bind (io_lift (aggregate_path rep base manifest)) (\<lambda>aggregate.
         if paths = [] then io_raise (SystemExit ''manifest contains no captured runs'')
         else io_bind (exists_at aggregate) (\<lambda>e.
           if \<not> e then io_raise (SystemExit (''aggregate file missing: '' @ path_str aggregate))
           else
             io_bind (read_raw (docs env) aggregate) (\<lambda>agg_data.
             io_bind (io_lift (metrics_for_file (sha256 env) (numpy env) (maths env) agg_data)) (\<lambda>agg.
             io_bind (analyze_runs env args base (enumerate 1 paths)) (\<lambda>rws.
             io_bind (io_lift (trends (fst rws) (snd rws))) (\<lambda>tr.
             io_bind (io_lift (prefix_size args manifest)) (\<lambda>n.
             io_bind (read_slices env paths) (\<lambda>datas.
             io_then (if want_randlab args then run_randlab env args aggregate (out @ [''randlab_aggregate'']) else io_return ())
            (io_bind (summarize_randlab (docs env) (out @ [''randlab_aggregate''])) (\<lambda>rl.
             let s = \<lparr>sm_root = path_str base, sm_manifest = manifest, sm_aggregate = agg, sm_per_run = fst tr,
                   sm_slopes = fst (snd tr), sm_quartiles = fst (snd (snd tr)), sm_windows = snd (snd (snd tr)),
                   sm_cross = cross_reboot_similarity (sha256 env) (numpy env) datas (map r_sha256 (fst rws)) n,
                   sm_randlab = rl\<rparr>
             in io_then (write_outputs env out (fst rws) (snd rws) s) (io_return s)))))))))))))))"

end
