(* ===== verification/RebootCollect.thy ===== *)
theory RebootCollect
  imports RebootReport "HOL-Library.List_Lexorder" "HOL-Library.Char_ord"
begin

text \<open>
  The collector of reboot slices (\<open>collect_reboot_slices.py\<close>): sizes, the serial port, the build
  and capture commands and their logs, the loop over the resets, the concatenation, manifest and
  README. Parameters: what a program does when it is run, the clocks, SHA-256, path resolution.
\<close>

section \<open>Arguments and environment\<close>

record collect_args =
  port :: string
  baud :: int
  runs :: int
  bytes_per_run :: "int option"
  total_bytes :: "int option"
  output_root :: path
  condition :: string
  wifi_ssid :: "string option"
  wifi_pass :: "string option"
  board :: "string option"
  build_dir :: "string option"
  raw_delay_ms :: int
  startup_timeout :: real
  progress_interval :: real
  drain_seconds :: real
  post_drain_seconds :: real
  cooldown_seconds :: real
  skip_build :: bool
  no_flash :: bool
  clean_build :: bool
  resume :: bool

record collect_env =
  c_docs :: doc_env
  c_sha256 :: "bytes \<Rightarrow> bytes"
  c_resolved :: "path \<Rightarrow> path"
  project_root :: path
  python_exe :: string
  os_environ :: "(string, string) dict"
  glob_ports :: "string list"
  listed_ports :: "string list"
  started_at :: string
  finished_at :: string
  collected_at :: string
  capture_time :: "nat \<Rightarrow> real"
  spawn :: "nat \<Rightarrow> string list \<Rightarrow> (string, string) dict option \<Rightarrow> (path \<Rightarrow> node option)
              \<Rightarrow> int \<times> string list \<times> (path \<Rightarrow> node option)"

definition DEFAULT_BYTES_PER_RUN :: int where "DEFAULT_BYTES_PER_RUN = 8388608"

definition BUILD_SCRIPT :: "collect_env \<Rightarrow> path" where
  "BUILD_SCRIPT env = project_root env @ [''scripts'', ''build.sh'']"

definition CAPTURE_SCRIPT :: "collect_env \<Rightarrow> path" where
  "CAPTURE_SCRIPT env = project_root env @ [''scripts'', ''capture_binary.py'']"

section \<open>Sizes and the serial port\<close>

definition derive_bytes_per_run :: "collect_args \<Rightarrow> int result" where
  "derive_bytes_per_run args =
     (case total_bytes args of
        Some t \<Rightarrow>
          (if t \<le> 0 then Inl ValueError
           else (case bytes_per_run args of
                   Some b \<Rightarrow> if b * runs args \<noteq> t then Inl ValueError else Inr b
                 | None \<Rightarrow>
                     (if runs args = 0 then Inl ZeroDivisionError
                      else if t mod runs args \<noteq> 0 then Inl ValueError else Inr (t div runs args))))
      | None \<Rightarrow>
          (case bytes_per_run args of
             Some b \<Rightarrow> Inr (if b \<noteq> 0 then b else DEFAULT_BYTES_PER_RUN) | None \<Rightarrow> Inr DEFAULT_BYTES_PER_RUN))"

definition port_candidates :: "string list \<Rightarrow> string list \<Rightarrow> string list" where
  "port_candidates globbed listed =
     sort (remdups (fold (\<lambda>d cs. if d \<in> set cs then cs else cs @ [d]) listed globbed))"

definition detect_serial_port :: "string list \<Rightarrow> string list \<Rightarrow> string result" where
  "detect_serial_port globbed listed =
     (let cs = port_candidates globbed listed; pref = filter (\<lambda>p. contains p ''CP210'' \<or> contains p ''Silicon_Labs'') cs
      in if cs = [] then Inl (RuntimeError ''no serial ports found'')
         else if length cs = 1 then Inr (hd cs)
         else if length pref = 1 then Inr (hd pref)
         else Inl (RuntimeError (''multiple serial ports found: '' @ join '', '' cs)))"

section \<open>Commands\<close>

text \<open>The password after \<open>--wifi-pass\<close>, \<open>--password\<close> or \<open>--pass\<close> is hidden.\<close>

fun redact :: "bool \<Rightarrow> string list \<Rightarrow> string list" where
  "redact hide [] = []"
| "redact hide (t # ts) =
     (if hide then ''<redacted>'' # redact False ts
      else t # redact (t = ''--wifi-pass'' \<or> t = ''--password'' \<or> t = ''--pass'') ts)"

definition display_command :: "string list \<Rightarrow> string" where
  "display_command cmd = join '' '' (redact False cmd)"

definition run_command :: "collect_env \<Rightarrow> string list \<Rightarrow> path \<Rightarrow> (string, string) dict option \<Rightarrow> (world, unit) io" where
  "run_command env cmd log_path e =
     (let header = ''[HOST_CMD] '' @ display_command cmd
      in io_then (mkdirs (parent log_path))
        (io_then (write_node log_path (Lines [header]))
        (\<lambda>w. case spawn env (length (commands w)) cmd e (files w) of (ret, out, fs) \<Rightarrow>
           let w' = w\<lparr>files := fs(log_path \<mapsto> Lines (header # out)), commands := commands w @ [cmd]\<rparr>
           in (if ret \<noteq> 0 then Inl CalledProcessError else Inr (), w'))))"

definition optional :: "string \<Rightarrow> string option \<Rightarrow> string list" where
  "optional flag v = (case v of None \<Rightarrow> [] | Some x \<Rightarrow> [flag, x])"

definition build_command :: "collect_env \<Rightarrow> collect_args \<Rightarrow> int \<Rightarrow> string list" where
  "build_command env args n =
     [path_str (BUILD_SCRIPT env), ''--condition'', condition args, ''--raw-bytes'', str_of_int n,
      ''--raw-delay-ms'', str_of_int (raw_delay_ms args), ''--flash-port'', port args]
     @ (if no_flash args then [] else [''--flash'']) @ (if clean_build args then [''--clean''] else [])
     @ optional ''--board'' (board args) @ optional ''--build-dir'' (build_dir args)"

definition set_optional :: "string \<Rightarrow> string option \<Rightarrow> (string, string) dict \<Rightarrow> (string, string) dict" where
  "set_optional k v d = (case v of None \<Rightarrow> d | Some x \<Rightarrow> dict_set k x d)"

definition build_firmware :: "collect_env \<Rightarrow> collect_args \<Rightarrow> int \<Rightarrow> path \<Rightarrow> (world, unit) io" where
  "build_firmware env args n logs_dir =
     (if skip_build args then io_return ()
      else run_command env (build_command env args n) (logs_dir @ [''build_flash.log''])
             (Some (set_optional ''WIFI_PASS'' (wifi_pass args) (set_optional ''WIFI_SSID'' (wifi_ssid args) (os_environ env)))))"

definition capture_command :: "collect_env \<Rightarrow> collect_args \<Rightarrow> path \<Rightarrow> int \<Rightarrow> string list" where
  "capture_command env args out n =
     (let real_text = (\<lambda>r. float_text (c_docs env) (JFloat r))
      in [python_exe env, ''-u'', path_str (CAPTURE_SCRIPT env), ''--port'', port args, ''--baud'', str_of_int (baud args),
          ''--bytes'', str_of_int n, ''--output'', path_str out, ''--startup-timeout'', real_text (startup_timeout args),
          ''--progress-interval'', real_text (progress_interval args), ''--drain-seconds'', real_text (drain_seconds args),
          ''--post-capture-drain-seconds'', real_text (post_drain_seconds args), ''--reset''])"

definition capture_one :: "collect_env \<Rightarrow> collect_args \<Rightarrow> nat \<Rightarrow> path \<Rightarrow> path \<Rightarrow> int \<Rightarrow> (world, real) io" where
  "capture_one env args i out log_path n =
     io_then (run_command env (capture_command env args out n) log_path None) (io_return (capture_time env i))"

section \<open>Concatenation\<close>

definition append_node :: "doc_env \<Rightarrow> path \<Rightarrow> bytes \<Rightarrow> (world, unit) io" where
  "append_node de p bs = io_bind (read_raw de p) (\<lambda>old. write_node p (Raw (old @ bs)))"

definition tmp_of :: "path \<Rightarrow> path" where
  "tmp_of p = parent p @ [path_name p @ ''.tmp'']"

text \<open>\<open>tmp.replace(p)\<close>.\<close>

definition replace_file :: "path \<Rightarrow> path \<Rightarrow> (world, unit) io" where
  "replace_file tmp p w =
     (if files w p = Some Folder then (Inl IsADirectoryError, w)
      else (Inr (), w\<lparr>files := (files w)(p := files w tmp, tmp := None)\<rparr>))"

definition hash_file :: "collect_env \<Rightarrow> path \<Rightarrow> (world, string) io" where
  "hash_file env p = io_bind (read_raw (c_docs env) p) (\<lambda>b. io_return (sha256_file (c_sha256 env) b))"

definition concatenate :: "collect_env \<Rightarrow> path list \<Rightarrow> path \<Rightarrow> (world, string) io" where
  "concatenate env ps out =
     io_then (write_node (tmp_of out) (Raw []))
    (io_then (io_each (\<lambda>p. io_bind (read_raw (c_docs env) p) (append_node (c_docs env) (tmp_of out))) ps)
    (io_then (replace_file (tmp_of out) out) (hash_file env out)))"

section \<open>One reset after the other\<close>

record run_entry =
  e_run :: nat
  e_path :: string
  e_bytes :: nat
  e_sha256 :: string
  e_seconds :: "real option"

definition slice_name :: "collect_args \<Rightarrow> int \<Rightarrow> nat \<Rightarrow> string" where
  "slice_name args n i =
     condition args @ ''_reboot_'' @ fmt_dec (max 3 (length (str_of_int (runs args)))) i @ ''_'' @ str_of_int n @ ''.bin''"

definition log_name :: "collect_args \<Rightarrow> nat \<Rightarrow> string" where
  "log_name args i = ''capture_'' @ fmt_dec (max 3 (length (str_of_int (runs args)))) i @ ''.log''"

definition size_at :: "doc_env \<Rightarrow> path \<Rightarrow> (world, nat) io" where
  "size_at de p = io_get (\<lambda>w. case files w p of None \<Rightarrow> 0 | Some nd \<Rightarrow> length (node_bytes de nd))"

definition capture_or_reuse :: "collect_env \<Rightarrow> collect_args \<Rightarrow> path \<Rightarrow> int \<Rightarrow> nat \<Rightarrow> (world, real option) io" where
  "capture_or_reuse env args base n i =
     (let out = base @ [''raw'', slice_name args n i]
      in io_bind (exists_at out) (\<lambda>ex. io_bind (size_at (c_docs env) out) (\<lambda>sz.
           if resume args \<and> ex \<and> int sz = n then io_return None
           else io_bind (capture_one env args i out (base @ [''logs'', log_name args i]) n) (\<lambda>t. io_return (Some t)))))"

definition cool_down :: "collect_args \<Rightarrow> nat \<Rightarrow> (world, unit) io" where
  "cool_down args i =
     (if cooldown_seconds args > 0 \<and> int i \<noteq> runs args
      then io_modify (\<lambda>w. w\<lparr>slept := slept w @ [cooldown_seconds args]\<rparr>) else io_return ())"

definition collect_run :: "collect_env \<Rightarrow> collect_args \<Rightarrow> path \<Rightarrow> int \<Rightarrow> nat \<Rightarrow> (world, run_entry) io" where
  "collect_run env args base n i =
     (let out = base @ [''raw'', slice_name args n i]
      in io_bind (capture_or_reuse env args base n i) (\<lambda>t.
         io_bind (size_at (c_docs env) out) (\<lambda>sz.
         if int sz \<noteq> n then
           io_raise (RuntimeError (path_str out @ '' has '' @ str_of_nat sz @ '' bytes, expected '' @ str_of_int n))
         else io_bind (hash_file env out) (\<lambda>h.
              io_then (cool_down args i)
                (io_return \<lparr>e_run = i, e_path = path_str [''raw'', slice_name args n i], e_bytes = sz, e_sha256 = h,
                            e_seconds = t\<rparr>)))))"

fun collect_runs :: "collect_env \<Rightarrow> collect_args \<Rightarrow> path \<Rightarrow> int \<Rightarrow> nat list \<Rightarrow> (world, run_entry list) io" where
  "collect_runs env args base n [] = io_return []"
| "collect_runs env args base n (i # is) =
     io_bind (collect_run env args base n i) (\<lambda>e. io_bind (collect_runs env args base n is) (\<lambda>es. io_return (e # es)))"

section \<open>Manifest, README and the run\<close>

definition entry_json :: "run_entry \<Rightarrow> json" where
  "entry_json e =
     JObj [(''run'', JInt (int (e_run e))), (''status'', JStr ''captured''), (''path'', JStr (e_path e)),
           (''bytes'', JInt (int (e_bytes e))), (''sha256'', JStr (e_sha256 e)),
           (''capture_seconds'', (case e_seconds e of None \<Rightarrow> JNull | Some t \<Rightarrow> JFloat t))]"

definition manifest_json ::
    "collect_env \<Rightarrow> collect_args \<Rightarrow> int \<Rightarrow> string \<Rightarrow> nat \<Rightarrow> string \<Rightarrow> run_entry list \<Rightarrow> json" where
  "manifest_json env args n agg_name agg_size agg_sha es =
     JObj [(''schema'', JStr ''esp32-rf-rng-state-reboot-slices-v1''), (''started_utc'', JStr (started_at env)),
           (''finished_utc'', JStr (finished_at env)), (''condition'', JStr (condition args)),
           (''runs_requested'', JInt (runs args)), (''runs_captured'', JInt (int (length es))),
           (''bytes_per_run'', JInt n), (''aggregate_bytes'', JInt (n * int (length es))), (''serial_port'', JStr (port args)),
           (''baud'', JInt (baud args)), (''raw_delay_ms'', JInt (raw_delay_ms args)),
           (''startup_timeout_seconds'', JFloat (startup_timeout args)),
           (''capture_script'', JStr ''scripts/capture_binary.py''),
           (''aggregate'', JObj [(''path'', JStr (path_str [''raw'', agg_name])), (''bytes'', JInt (int agg_size)),
              (''sha256'', JStr agg_sha)]),
           (''runs'', JArr (map entry_json es))]"

definition readme_lines :: "collect_env \<Rightarrow> collect_args \<Rightarrow> int \<Rightarrow> string \<Rightarrow> string \<Rightarrow> run_entry list \<Rightarrow> string list" where
  "readme_lines env args n agg_name agg_sha es =
     [''# Wi-Fi Idle Reboot RNG Dataset'', [], ''Collected: '' @ collected_at env, [], ''## Parameters'', [],
      ''- Condition: `'' @ condition args @ ''`'', ''- Runs requested: '' @ str_of_int (runs args),
      ''- Runs captured: '' @ str_of_nat (length es), ''- Bytes per reboot: '' @ fmt_comma n,
      ''- Aggregate bytes: '' @ fmt_comma (n * int (length es)),
      ''- Raw delay before trigger: '' @ str_of_int (raw_delay_ms args) @ '' ms'',
      ''- Serial baud: '' @ str_of_int (baud args), [], ''## Files'', [],
      ''- `raw/wifi_idle_reboot_###_*.bin`: one reset-triggered Wi-Fi-idle slice per boot'',
      ''- `raw/'' @ agg_name @ ''`: concatenation of captured slices in run order'',
      ''- `manifest.json`: machine-readable capture metadata'',
      ''- `logs/`: build, flash, and per-run capture logs'', [], ''## Aggregate'', [],
      ''- File: `raw/'' @ agg_name @ ''`'', ''- SHA-256: `'' @ agg_sha @ ''`'', [],
      ''This benchmark tests post-association Wi-Fi-idle WDEV output after repeated'',
      ''ESP32 resets. It is not a first-instruction cold-boot entropy capture.'']"

definition concat_name :: "collect_args \<Rightarrow> int \<Rightarrow> nat \<Rightarrow> string" where
  "concat_name args n k = condition args @ ''_reboot_concat_'' @ str_of_int (n * int k) @ ''.bin''"

definition choose_port :: "collect_env \<Rightarrow> collect_args \<Rightarrow> collect_args result" where
  "choose_port env args =
     (if port args \<noteq> ''auto'' then Inr args
      else (case detect_serial_port (glob_ports env) (listed_ports env) of
              Inr p \<Rightarrow> Inr (args\<lparr>port := p\<rparr>)
            | Inl (RuntimeError e) \<Rightarrow> Inl (SystemExit (''serial auto-detection failed: '' @ e))
            | Inl e \<Rightarrow> Inl e))"

definition finish_dataset :: "collect_env \<Rightarrow> collect_args \<Rightarrow> path \<Rightarrow> int \<Rightarrow> run_entry list \<Rightarrow> (world, json) io" where
  "finish_dataset env args base n es =
     (let agg_name = concat_name args n (length es); agg = base @ [''raw'', agg_name];
          outs = map (\<lambda>e. base @ [''raw'', slice_name args n (e_run e)]) es
      in io_bind (concatenate env outs agg) (\<lambda>h.
         io_bind (size_at (c_docs env) agg) (\<lambda>sz.
         let m = manifest_json env args n agg_name sz h es
         in io_then (write_node (base @ [''manifest.json'']) (Doc m))
           (io_then (write_node (base @ [''README.md'']) (Lines (readme_lines env args n agg_name h es)))
             (io_return m)))))"

definition collect_main :: "collect_env \<Rightarrow> collect_args \<Rightarrow> (world, json) io" where
  "collect_main env args0 =
     (if runs args0 \<le> 0 then io_raise (SystemExit ''--runs must be positive'')
      else io_bind (io_lift (derive_bytes_per_run args0)) (\<lambda>n.
        if n \<le> 0 then io_raise (SystemExit ''bytes per run must be positive'')
        else io_bind (io_lift (choose_port env args0)) (\<lambda>args.
          let base = c_resolved env (output_root args)
          in io_then (mkdirs (base @ [''raw'']))
            (io_then (mkdirs (base @ [''logs'']))
            (io_then (build_firmware env args n (base @ [''logs'']))
            (io_bind (collect_runs env args base n [1..<Suc (nat (runs args))]) (finish_dataset env args base n)))))))"

end
