(* ===== verification/RebootAnalysis.thy ===== *)
theory RebootAnalysis
  imports RebootReport
begin

text \<open>
  The analysis of a complete dataset of reboot slices succeeds and says what the slices are:
  rows, windows, summary, report. A manifest without its sizes makes the report fail after the
  tables and the summary are written.
\<close>

section \<open>First and last windows\<close>

lemma max_window_fold:
  "dict_get_or (fold (\<lambda>r d. dict_set (w_run r) (max (dict_get_or d (w_run r) (- 1)) (int (w_window r))) d) ws d) k (- 1)
    = fold max (map (int \<circ> w_window) (filter (\<lambda>r. w_run r = k) ws)) (dict_get_or d k (- 1))"
  by (induction ws arbitrary: d) (auto simp: max.commute)

lemma max_window_get:
  "dict_get_or (max_window_by_run ws) k (- 1) = fold max (map (int \<circ> w_window) (filter (\<lambda>r. w_run r = k) ws)) (- 1)"
  unfolding max_window_by_run_def max_window_fold by (simp add: dict_get_or_def)

lemma fold_max_Max: "fold max xs (a :: int) = Max (insert a (set xs))"
  using Max.set_eq_fold [of a xs] by simp

lemma last_windows_exact:
  "r \<in> set (last_windows ws) \<longleftrightarrow> r \<in> set ws \<and> (\<forall>q \<in> set ws. w_run q = w_run r \<longrightarrow> w_window q \<le> w_window r)"
proof -
  let ?S = "set (map (int \<circ> w_window) (filter (\<lambda>q. w_run q = w_run r) ws))"
  have neq: "dict_get (max_window_by_run ws) (w_run r) = Some (int (w_window r))
      \<longleftrightarrow> dict_get_or (max_window_by_run ws) (w_run r) (- 1) = int (w_window r)"
    by (auto simp: dict_get_or_def split: option.splits)
  show ?thesis
  proof (cases "r \<in> set ws")
    case True
    then have mem: "int (w_window r) \<in> ?S" by auto
    have "Max (insert (- 1) ?S) = int (w_window r) \<longleftrightarrow> (\<forall>x \<in> ?S. x \<le> int (w_window r))"
      using mem by (subst Max_eq_iff) auto
    then show ?thesis
      using True by (simp only: last_windows_def set_filter mem_Collect_eq neq max_window_get fold_max_Max) auto
  qed (simp add: last_windows_def)
qed

lemma last_windows_nonempty:
  assumes "ws \<noteq> []"
  shows "last_windows ws \<noteq> []"
proof -
  have "Max (w_window ` set ws) \<in> w_window ` set ws" using assms by (intro Max_in) auto
  then obtain r where "r \<in> set ws" "w_window r = Max (w_window ` set ws)" by auto
  moreover then have "\<forall>q \<in> set ws. w_window q \<le> w_window r" by (auto intro: Max_ge)
  ultimately obtain r where r: "r \<in> set ws" "\<forall>q \<in> set ws. w_window q \<le> w_window r" by blast
  then have "r \<in> set (last_windows ws)" by (simp add: last_windows_exact)
  then show ?thesis by auto
qed

section \<open>The rows\<close>

lemma iter_windows_rows:
  obtains ws where "iter_windows np env k data = Inr ws" "\<And>j. j < length ws \<Longrightarrow> fst (ws ! j) = j"
    "\<And>i off m. (i, off, m) \<in> set ws \<Longrightarrow> \<exists>part. part \<noteq> [] \<and> slice_figures part m"
proof -
  have "w \<noteq> []" if "w \<in> set (window_list k data)" for w
    using that chunks_nonempty by (auto simp: window_list_def split: if_splits)
  then obtain ws where ws: "window_rows np env 0 0 (window_list k data) = Inr ws" "length ws = length (window_list k data)"
    "\<forall>j < length (window_list k data). \<exists>m. ws ! j = (0 + j, 0 + length (concat (take j (window_list k data))), m)
       \<and> finalize_state env (state_of (window_list k data ! j)) = Inr m"
    using window_rows_exact [of "window_list k data" np env 0 0] by blast
  have "\<exists>part. part \<noteq> [] \<and> slice_figures part m" if "(i, off, m) \<in> set ws" for i off m
    using that ws \<open>\<And>w. w \<in> set (window_list k data) \<Longrightarrow> w \<noteq> []\<close> finalize_ok
    by (metis (no_types, lifting) in_set_conv_nth nth_mem prod.inject)
  moreover have "fst (ws ! j) = j" if "j < length ws" for j using ws(2,3) that by auto
  ultimately show ?thesis using that [of ws] ws(1) by (simp add: iter_windows_def)
qed

text \<open>What the loop over the runs leaves: one row per run, and windows counted from 0 within each.\<close>

definition rows_ok :: "slice_env \<Rightarrow> path \<Rightarrow> (nat \<times> path) list \<Rightarrow> (path \<Rightarrow> bytes) \<Rightarrow> run_row list \<Rightarrow> bool" where
  "rows_ok env base ips d rs \<longleftrightarrow>
     list_all2 (\<lambda>ip r. r_run r = fst ip \<and> r_path r = path_str (drop (length base) (snd ip))
       \<and> r_sha256 r = hex_of (sha256 env (d (snd ip))) \<and> slice_figures (d (snd ip)) (r_metrics r)) ips rs"

definition windows_ok :: "window_row list \<Rightarrow> bool" where
  "windows_ok ws \<longleftrightarrow> (\<forall>r \<in> set ws. \<exists>q \<in> set ws. w_run q = w_run r \<and> w_window q = 0)"

lemma windows_ok_append: "windows_ok a \<Longrightarrow> windows_ok b \<Longrightarrow> windows_ok (a @ b)"
  unfolding windows_ok_def by (metis Un_iff set_append)

lemma analyze_run_ok:
  assumes "read_raw (docs env) p w = (Inr data, w)" and "data \<noteq> []" and "take (length base) p = base"
  obtains r ws where "analyze_run env args base (i, p) w = (Inr (r, ws), w)" "windows_ok ws" "rows_ok env base [(i, p)] (\<lambda>_. data) [r]"
proof -
  obtain m where m: "metrics_for_file (sha256 env) (numpy env) (maths env) data = Inr (m, hex_of (sha256 env data))" "slice_figures data m"
    using finalize_figures [OF assms(2), of "maths env"] by (auto simp: metrics_for_file_eq)
  obtain ws where ws: "iter_windows (numpy env) (maths env) (window_bytes args) data = Inr ws"
    "\<And>j. j < length ws \<Longrightarrow> fst (ws ! j) = j"
    by (rule iter_windows_rows [of "numpy env" "maths env" "window_bytes args" data]) (rule that)
  let ?ws = "map (\<lambda>(i', off, m). \<lparr>w_run = i, w_window = i', w_offset = off, w_metrics = m\<rparr>) ws"
  have "windows_ok ?ws"
    unfolding windows_ok_def
  proof
    fix r assume r: "r \<in> set ?ws"
    then have ne: "0 < length ws" by auto
    then have "?ws ! 0 \<in> set ?ws" by simp
    moreover have "w_run (?ws ! 0) = w_run r" "w_window (?ws ! 0) = 0"
      using r ne ws(2) [OF ne] by (auto split: prod.splits)
    ultimately show "\<exists>q \<in> set ?ws. w_run q = w_run r \<and> w_window q = 0" by blast
  qed
  moreover have "relative_to p base = Inr (drop (length base) p)" using assms(3) by (simp add: relative_to_def)
  ultimately show ?thesis
    using m ws(1) assms(1)
    by (intro that [of "\<lparr>r_run = i, r_path = path_str (drop (length base) p), r_metrics = m, r_sha256 = hex_of (sha256 env data)\<rparr>" ?ws])
      (auto simp: analyze_run_def io_bind_def io_run rows_ok_def)
qed

lemma analyze_runs_ok:
  assumes "\<And>i p. (i, p) \<in> set ips \<Longrightarrow> read_raw (docs env) p w = (Inr (d p), w) \<and> d p \<noteq> [] \<and> take (length base) p = base"
  shows "\<exists>rs ws. analyze_runs env args base ips w = (Inr (rs, ws), w) \<and> windows_ok ws \<and> rows_ok env base ips d rs"
  using assms
proof (induction ips)
  case Nil
  show ?case by (simp add: io_run windows_ok_def rows_ok_def)
next
  case (Cons ip ips)
  obtain i p where ip: "ip = (i, p)" by force
  obtain r ws where r: "analyze_run env args base (i, p) w = (Inr (r, ws), w)" "windows_ok ws" "rows_ok env base [(i, p)] (\<lambda>_. d p) [r]"
    using analyze_run_ok Cons.prems [of i p] ip by (metis list.set_intros(1))
  obtain rs ws' where rs: "analyze_runs env args base ips w = (Inr (rs, ws'), w)" "windows_ok ws'" "rows_ok env base ips d rs"
    using Cons by (metis list.set_intros(2))
  show ?case
    using r rs windows_ok_append [OF r(2) rs(2)]
    by (intro exI [of _ "r # rs"] exI [of _ "ws @ ws'"]) (auto simp: ip io_bind_def io_run rows_ok_def)
qed

section \<open>The trends exist\<close>

lemma rmap_keyed: "(\<And>k. k \<in> set ks \<Longrightarrow> g k = Inr (h k)) \<Longrightarrow> rmap (keyed g) ks = Inr (map (\<lambda>k. (k, h k)) ks)"
  by (rule rmap_Inr) (simp add: keyed_def)

lemma first_last_runs_ok: "rs \<noteq> [] \<Longrightarrow> ok (first_last_runs rs k)"
proof -
  assume "rs \<noteq> []"
  moreover from this have "\<not> length rs \<le> length rs - quartile_of rs" "quartile_of rs \<noteq> 0"
    by (cases rs; auto simp: quartile_of_def)+
  ultimately show ?thesis by (auto simp: first_last_runs_def Let_def py_mean_def)
qed

lemma first_last_windows_ok: "ws \<noteq> [] \<Longrightarrow> windows_ok ws \<Longrightarrow> ok (first_last_windows ws k)"
proof -
  assume ws: "ws \<noteq> []" "windows_ok ws"
  then have "hd ws \<in> set ws" by simp
  with ws(2) have "first_windows ws \<noteq> []" unfolding windows_ok_def first_windows_def filter_empty_conv by blast
  with last_windows_nonempty [OF ws(1)] show ?thesis by (simp add: first_last_windows_def py_mean_def Let_def)
qed

definition result_value :: "'a result \<Rightarrow> 'a" where
  "result_value r = (case r of Inr x \<Rightarrow> x | Inl _ \<Rightarrow> undefined)"

lemma ok_result_value: "ok r \<Longrightarrow> r = Inr (result_value r)"
  by (auto simp: ok_iff result_value_def)

lemma trends_ok:
  assumes "rs \<noteq> []" and "windows_ok ws"
  obtains qs wins where "trends rs ws = Inr (map (\<lambda>k. (k, stat_range (map (metric_value k \<circ> r_metrics) rs))) RUN_METRICS,
       map (\<lambda>k. (k, linear_slope (map (real \<circ> r_run) rs) (map (metric_value k \<circ> r_metrics) rs))) RUN_METRICS, qs, wins)"
    "map fst qs = RUN_METRICS" "ws \<noteq> [] \<Longrightarrow> map fst wins = WINDOW_METRICS"
proof -
  let ?q = "map (\<lambda>k. (k, result_value (first_last_runs rs k))) RUN_METRICS"
  have q: "rmap (keyed (first_last_runs rs)) RUN_METRICS = Inr ?q"
    by (rule rmap_keyed) (rule ok_result_value [OF first_last_runs_ok [OF assms(1)]])
  show ?thesis
  proof (cases "ws = []")
    case True
    then show ?thesis using q by (intro that [of ?q "[]"]) (simp_all add: trends_def Let_def comp_def)
  next
    case False
    have "rmap (keyed (first_last_windows ws)) WINDOW_METRICS = Inr (map (\<lambda>k. (k, result_value (first_last_windows ws k))) WINDOW_METRICS)"
      by (rule rmap_keyed) (rule ok_result_value [OF first_last_windows_ok [OF False assms(2)]])
    then show ?thesis
      using q False by (intro that [of ?q "map (\<lambda>k. (k, result_value (first_last_windows ws k))) WINDOW_METRICS"])
        (simp_all add: trends_def Let_def comp_def)
  qed
qed

section \<open>The report exists\<close>

lemma dict_item_keys: "k \<in> set (map fst d) \<Longrightarrow> \<exists>v. dict_get d k = Some v"
  unfolding dict_get_def by (metis map_of_eq_None_iff option.exhaust list.set_map)

lemma rmap_ok: "(\<And>x. x \<in> set xs \<Longrightarrow> ok (f x)) \<Longrightarrow> \<exists>ys. rmap f xs = Inr ys \<and> length ys = length xs"
proof (induction xs)
  case (Cons x xs)
  then obtain y ys where "f x = Inr y" "rmap f xs = Inr ys" "length ys = length xs"
    by (metis list.set_intros ok_iff)
  then show ?case by simp
qed simp

lemma md_shift_ok: "k \<in> set (map fst d) \<Longrightarrow> ok (md_shift d k)"
  using dict_item_keys [of k d] by (auto simp: md_shift_def dict_item_def)

lemma write_markdown_ok:
  assumes "sm_manifest s = JObj d" and "dict_get d ''bytes_per_run'' = Some (JInt n)"
    and "dict_get d ''aggregate_bytes'' = Some (JInt t)"
    and "map fst (sm_per_run s) = RUN_METRICS" and "map fst (sm_slopes s) = RUN_METRICS"
    and "map fst (sm_quartiles s) = RUN_METRICS" and "ws \<noteq> [] \<Longrightarrow> map fst (sm_windows s) = WINDOW_METRICS"
  shows "\<exists>ls. write_markdown env k ws s = Inr ls"
proof -
  have "\<exists>h. md_head env (sm_manifest s) (sm_aggregate s) k = Inr h"
    using assms(1-3) by (simp add: md_head_def json_get_def dict_get_or_def fmt_comma_json_def Let_def)
  moreover have "\<exists>rs. rmap (md_range s) RUN_METRICS = Inr rs"
  proof -
    have "ok (md_range s k)" if "k \<in> set RUN_METRICS" for k
      using dict_item_keys [of k "sm_per_run s"] dict_item_keys [of k "sm_slopes s"] that assms(4,5)
      by (auto simp: md_range_def dict_item_def)
    then show ?thesis using rmap_ok by blast
  qed
  moreover have "\<exists>qs. rmap (md_shift (sm_quartiles s)) [Entropy, Mcv, Chi_Exceed, Serial] = Inr qs"
  proof -
    have "ok (md_shift (sm_quartiles s) k)" if "k \<in> set [Entropy, Mcv, Chi_Exceed, Serial]" for k
      using that assms(6) by (intro md_shift_ok) (auto simp: RUN_METRICS_def)
    then show ?thesis using rmap_ok by blast
  qed
  moreover have "\<exists>wl. md_windows s ws = Inr wl"
  proof (cases "ws = []")
    case False
    then have "ok (md_shift (sm_windows s) k)" if "k \<in> set WINDOW_METRICS" for k
      using that assms(7) by (intro md_shift_ok) simp
    then show ?thesis using rmap_ok [of WINDOW_METRICS "md_shift (sm_windows s)"] by (auto simp: md_windows_def)
  qed (simp add: md_windows_def)
  ultimately show ?thesis by (auto simp: write_markdown_def)
qed

section \<open>The output files\<close>

definition folders_to :: "world \<Rightarrow> path \<Rightarrow> bool" where
  "folders_to w p \<longleftrightarrow> (\<forall>i \<le> length p. files w (take i p) = Some Folder)"

definition can_mkdir :: "world \<Rightarrow> path \<Rightarrow> bool" where
  "can_mkdir w p \<longleftrightarrow> (\<forall>i \<le> length p. \<not> is_file (files w (take i p)))"

lemma mkdirs_ok:
  assumes "can_mkdir w p"
  shows "\<exists>w1. mkdirs p w = (Inr (), w1) \<and> folders_to w1 p \<and> (\<forall>q. files w q \<noteq> None \<longrightarrow> files w1 q = files w q)
    \<and> (\<forall>q. q \<noteq> take (length q) p \<longrightarrow> files w1 q = files w q) \<and> commands w1 = commands w"
proof -
  let ?f = "\<lambda>q. if q = take (length q) p \<and> files w q = None then Some Folder else files w q"
  have no: "\<not> is_file (files w (take i p))" if "i \<le> length p" for i using assms that by (simp add: can_mkdir_def)
  then have "mkdirs p w = (Inr (), w\<lparr>files := ?f\<rparr>)"
    using no [of "length p"] by (auto simp: mkdirs_def list_ex_iff)
  moreover have "?f (take i p) = Some Folder" if "i \<le> length p" for i
    using no [OF that] that by (auto simp: is_file_def min_def)
  ultimately show ?thesis by (intro exI [of _ "w\<lparr>files := ?f\<rparr>"]) (auto simp: folders_to_def)
qed

lemma mkdirs_again: "folders_to w p \<Longrightarrow> mkdirs p w = (Inr (), w)"
proof -
  assume f: "folders_to w p"
  then have "(\<lambda>q. if q = take (length q) p \<and> files w q = None then Some Folder else files w q) = files w"
  proof (intro ext)
    fix q
    have "files w q = Some Folder" if "q = take (length q) p"
    proof (cases "length q \<le> length p")
      case True
      then show ?thesis using f that unfolding folders_to_def by (metis order.refl)
    next
      case False
      then show ?thesis using f that unfolding folders_to_def by (metis nat_le_linear order.refl take_all)
    qed
    then show "(if q = take (length q) p \<and> files w q = None then Some Folder else files w q) = files w q" by auto
  qed
  with f show ?thesis by (auto simp: mkdirs_def is_file_def folders_to_def list_ex_iff)
qed

lemma folders_to_write: "folders_to w p \<Longrightarrow> length q > length p \<Longrightarrow> folders_to (w\<lparr>files := (files w)(q \<mapsto> n)\<rparr>) p"
  unfolding folders_to_def by auto

lemma parent_snoc: "p @ [x] \<noteq> [''/''] \<Longrightarrow> parent (p @ [x]) = p"
  by (simp add: parent_def)

lemma write_csv_ok:
  assumes "folders_to w p" and "x \<noteq> ''/''" and "table_of ds = Inr t" and "files w (p @ [x]) \<noteq> Some Folder"
  shows "write_csv (p @ [x]) ds w = (Inr (), w\<lparr>files := (files w)(p @ [x] \<mapsto> t)\<rparr>)"
  using assms mkdirs_again [OF assms(1)] by (simp add: write_csv_def parent_snoc io_bind_def io_run write_node_def)

definition OUTPUTS :: "string list" where
  "OUTPUTS = [''run_metrics.csv'', ''window_metrics.csv'', ''summary.json'', ''analysis.md'']"

lemma write_outputs_ok:
  assumes "folders_to w p" and "\<And>x. x \<in> set OUTPUTS \<Longrightarrow> files w (p @ [x]) \<noteq> Some Folder"
    and "table_of (map run_row_dict rs) = Inr t" and "table_of (map window_row_dict ws) = Inr u"
    and "write_markdown env (length rs) ws s = r"
  shows "write_outputs env p rs ws s w =
    (case r of Inl e \<Rightarrow> (Inl e, w\<lparr>files := (files w)(p @ [''run_metrics.csv''] \<mapsto> t, p @ [''window_metrics.csv''] \<mapsto> u,
         p @ [''summary.json''] \<mapsto> Doc (summary_json (float_text (docs env)) s))\<rparr>)
     | Inr ls \<Rightarrow> (Inr (), w\<lparr>files := (files w)(p @ [''run_metrics.csv''] \<mapsto> t, p @ [''window_metrics.csv''] \<mapsto> u,
         p @ [''summary.json''] \<mapsto> Doc (summary_json (float_text (docs env)) s), p @ [''analysis.md''] \<mapsto> Lines ls)\<rparr>))"
proof -
  let ?w1 = "w\<lparr>files := (files w)(p @ [''run_metrics.csv''] \<mapsto> t)\<rparr>"
  let ?w2 = "w\<lparr>files := (files w)(p @ [''run_metrics.csv''] \<mapsto> t, p @ [''window_metrics.csv''] \<mapsto> u)\<rparr>"
  have 1: "write_csv (p @ [''run_metrics.csv'']) (map run_row_dict rs) w = (Inr (), ?w1)"
    using assms(1-3) by (intro write_csv_ok) (auto simp: OUTPUTS_def)
  have "folders_to ?w1 p" using assms(1) by (intro folders_to_write) auto
  then have 2: "write_csv (p @ [''window_metrics.csv'']) (map window_row_dict ws) ?w1 = (Inr (), ?w2)"
    using assms(2,4) write_csv_ok [of ?w1 p "''window_metrics.csv''" "map window_row_dict ws" u] by (simp add: OUTPUTS_def)
  show ?thesis
    using assms(2,5) by (cases r) (simp_all add: write_outputs_def io_bind_def 1 2 write_node_def io_run OUTPUTS_def)
qed

definition RUN_COLUMNS :: "string list" where
  "RUN_COLUMNS = [''run'', ''path'', ''bytes'', ''entropy_bits_per_byte'', ''mcv_min_entropy_bits_per_byte'', ''chi_square'',
     ''chi_square_exceed_percent'', ''mean_byte'', ''ones_ratio'', ''serial_correlation'', ''most_common_byte_count'', ''sha256'']"

definition WINDOW_COLUMNS :: "string list" where
  "WINDOW_COLUMNS = [''run'', ''window'', ''offset'', ''window_bytes'', ''bytes'', ''entropy_bits_per_byte'',
     ''mcv_min_entropy_bits_per_byte'', ''chi_square'', ''chi_square_exceed_percent'', ''mean_byte'', ''ones_ratio'',
     ''serial_correlation'', ''most_common_byte_count'']"

lemma run_row_keys: "dict_keys (run_row_dict r) = RUN_COLUMNS"
  by (simp add: run_row_dict_def metrics_dict_def RUN_COLUMNS_def dict_keys_def)

lemma window_row_keys: "dict_keys (window_row_dict r) = WINDOW_COLUMNS"
  by (simp add: window_row_dict_def metrics_dict_def WINDOW_COLUMNS_def dict_keys_def)

lemma table_of_map:
  assumes "xs \<noteq> []" and "\<And>x. dict_keys (g x) = ks" and "distinct ks"
  shows "table_of (map g xs) = Inr (Table ks (map (map snd \<circ> g) xs))"
  using table_of_same_keys [of "map g xs" ks] assms by (simp add: image_iff) fastforce

lemma run_table: "rs \<noteq> [] \<Longrightarrow> table_of (map run_row_dict rs) = Inr (Table RUN_COLUMNS (map (map snd \<circ> run_row_dict) rs))"
  by (rule table_of_map) (simp_all only: run_row_keys, simp_all add: RUN_COLUMNS_def)

lemma window_table: "\<exists>t. table_of (map window_row_dict ws) = Inr t"
proof (cases "ws = []")
  case False
  have "distinct WINDOW_COLUMNS" by (simp add: WINDOW_COLUMNS_def)
  with table_of_map [of ws window_row_dict, OF False window_row_keys] show ?thesis by blast
qed (simp add: table_of_def)

section \<open>A complete dataset\<close>

definition dataset_at ::
    "slice_env \<Rightarrow> world \<Rightarrow> path \<Rightarrow> (string \<times> json) list \<Rightarrow> path list \<Rightarrow> bytes list \<Rightarrow> path \<Rightarrow> bool" where
  "dataset_at env w base d ps datas agg \<longleftrightarrow>
     files w (base @ [''manifest.json'']) = Some (Doc (JObj d))
     \<and> run_paths (float_text (docs env)) base (JObj d) = Inr ps
     \<and> aggregate_path (float_text (docs env)) base (JObj d) = Inr agg
     \<and> list_all2 (\<lambda>p b. read_raw (docs env) p w = (Inr b, w) \<and> b \<noteq> [] \<and> take (length base) p = base) ps datas
     \<and> ps \<noteq> [] \<and> read_raw (docs env) agg w = (Inr (concat datas), w)"

definition report_ready :: "slice_env \<Rightarrow> slice_args \<Rightarrow> world \<Rightarrow> bool" where
  "report_ready env args w \<longleftrightarrow>
     (let out = results_dir env args
      in can_mkdir w out \<and> files w (out @ [''randlab_aggregate'', ''manifest.json'']) = None
         \<and> (\<forall>x \<in> set OUTPUTS. files w (out @ [x]) \<noteq> Some Folder) \<and> \<not> want_randlab args)"

lemma read_raw_keep:
  assumes "read_raw de p w = (Inr b, w)" and "\<And>q. files w q \<noteq> None \<Longrightarrow> files w1 q = files w q"
  shows "read_raw de p w1 = (Inr b, w1)"
proof -
  obtain n where "files w p = Some n" "n \<noteq> Folder"
    using assms(1) by (auto simp: read_raw_def open_read_def io_bind_def split: option.splits node.splits)
  moreover from this have "files w1 p = Some n" using assms(2) [of p] by simp
  ultimately show ?thesis
    using assms(1) by (auto simp: read_raw_def open_read_def io_bind_def io_run split: node.splits)
qed

lemma dataset_keep:
  "dataset_at env w base d ps datas agg \<Longrightarrow> (\<And>q. files w q \<noteq> None \<Longrightarrow> files w1 q = files w q)
    \<Longrightarrow> dataset_at env w1 base d ps datas agg"
  unfolding dataset_at_def by (auto intro: read_raw_keep elim!: list_all2_mono)

text \<open>The file system after the report.\<close>

definition reported :: "path \<Rightarrow> world \<Rightarrow> world \<Rightarrow> bool" where
  "reported out w w' \<longleftrightarrow>
     (\<forall>p. files w p \<noteq> None \<and> p \<notin> (\<lambda>x. out @ [x]) ` set OUTPUTS \<longrightarrow> files w' p = files w p) \<and> commands w' = commands w"

lemma read_slices_ok:
  assumes "list_all2 (\<lambda>p b. read_raw (docs env) p w = (Inr b, w) \<and> b \<noteq> [] \<and> take (length base) p = base) ps datas"
  shows "read_slices env ps w = (Inr datas, w)"
proof -
  have "rmap (\<lambda>p. fst (read_raw (docs env) p w)) ps = Inr datas"
    using assms by (induction rule: list_all2_induct) auto
  then show ?thesis by (simp add: read_slices_def)
qed


lemma concat_nonempty: "list_all2 (\<lambda>p b. P p b \<and> b \<noteq> [] \<and> Q p) ps datas \<Longrightarrow> ps \<noteq> [] \<Longrightarrow> concat datas \<noteq> []"
  by (cases ps; cases datas) auto

text \<open>The steps before the tables are written, on a complete dataset.\<close>

definition summary_of ::
    "slice_env \<Rightarrow> path \<Rightarrow> json \<Rightarrow> bytes list \<Rightarrow> run_row list \<Rightarrow> int \<Rightarrow> slice_summary \<Rightarrow> bool" where
  "summary_of env base m datas rs n s \<longleftrightarrow>
     sm_manifest s = m \<and> slice_figures (concat datas) (fst (sm_aggregate s))
     \<and> snd (sm_aggregate s) = hex_of (sha256 env (concat datas))
     \<and> map fst (sm_per_run s) = RUN_METRICS \<and> map fst (sm_slopes s) = RUN_METRICS \<and> map fst (sm_quartiles s) = RUN_METRICS
     \<and> sm_per_run s = map (\<lambda>k. (k, stat_range (map (metric_value k \<circ> r_metrics) rs))) RUN_METRICS
     \<and> sm_cross s = cross_reboot_similarity (sha256 env) (numpy env) datas (map (\<lambda>b. hex_of (sha256 env b)) datas) n"

lemma rows_ok_datas:
  "rows_ok env base (enumerate i ps) d rs \<Longrightarrow> map r_sha256 rs = map (\<lambda>p. hex_of (sha256 env (d p))) ps \<and> length rs = length ps"
proof (induction ps arbitrary: i rs)
  case (Cons p ps)
  then obtain r rs' where "rs = r # rs'" "rows_ok env base (enumerate (Suc i) ps) d rs'"
    "r_sha256 r = hex_of (sha256 env (d p))"
    by (auto simp: rows_ok_def list_all2_Cons1)
  with Cons.IH show ?case by simp
qed (simp add: rows_ok_def)

lemma analyze_until_report:
  assumes ds: "dataset_at env w base d ps datas agg" and base: "base = resolved env (dataset_root args)"
    and n: "prefix_size args (JObj d) = Inr n" and ready: "report_ready env args w"
  obtains w1 rs ws s dp where
    "folders_to w1 (results_dir env args)" "\<And>q. files w q \<noteq> None \<Longrightarrow> files w1 q = files w q"
    "commands w1 = commands w"
    "\<And>x. files w1 (results_dir env args @ [x]) = files w (results_dir env args @ [x])"
    "analyze_main env args w = io_then (write_outputs env (results_dir env args) rs ws s) (io_return s) w1"
    "rows_ok env base (enumerate 1 ps) dp rs" "map dp ps = datas"
    "summary_of env base (JObj d) datas rs n s" "ws \<noteq> [] \<Longrightarrow> map fst (sm_windows s) = WINDOW_METRICS"
proof -
  let ?out = "results_dir env args" and ?rep = "float_text (docs env)"
  from ready have r: "can_mkdir w ?out" "files w (?out @ [''randlab_aggregate'', ''manifest.json'']) = None"
    "\<And>x. x \<in> set OUTPUTS \<Longrightarrow> files w (?out @ [x]) \<noteq> Some Folder" "\<not> want_randlab args"
    by (auto simp: report_ready_def Let_def)
  obtain w1 where w1: "mkdirs ?out w = (Inr (), w1)" "folders_to w1 ?out" "\<And>q. files w q \<noteq> None \<Longrightarrow> files w1 q = files w q"
    "\<And>q. q \<noteq> take (length q) ?out \<Longrightarrow> files w1 q = files w q" "commands w1 = commands w"
    using mkdirs_ok [OF r(1)] by blast
  have long: "files w1 (?out @ x # xs) = files w (?out @ x # xs)" for x xs
    by (rule w1(4)) (simp add: append_eq_conv_conj)
  have ds1: "dataset_at env w1 base d ps datas agg" using dataset_keep [OF ds w1(3)] .
  then have m: "files w1 (base @ [''manifest.json'']) = Some (Doc (JObj d))" "run_paths ?rep base (JObj d) = Inr ps"
    "aggregate_path ?rep base (JObj d) = Inr agg" "ps \<noteq> []" "read_raw (docs env) agg w1 = (Inr (concat datas), w1)"
    and l2: "list_all2 (\<lambda>p b. read_raw (docs env) p w1 = (Inr b, w1) \<and> b \<noteq> [] \<and> take (length base) p = base) ps datas"
    by (simp_all add: dataset_at_def)
  let ?dp = "\<lambda>p. result_value (fst (read_raw (docs env) p w1))"
  have dp: "map ?dp ps = datas" using l2 by (induction rule: list_all2_induct) (auto simp: result_value_def)
  have "read_raw (docs env) p w1 = (Inr (?dp p), w1) \<and> ?dp p \<noteq> [] \<and> take (length base) p = base" if "(i, p) \<in> set (enumerate 1 ps)" for i p
    using that l2 by (auto simp: in_set_enumerate_eq list_all2_conv_all_nth result_value_def)
  then obtain rs ws where rows: "analyze_runs env args base (enumerate 1 ps) w1 = (Inr (rs, ws), w1)" "windows_ok ws"
    "rows_ok env base (enumerate 1 ps) ?dp rs"
    using analyze_runs_ok [of "enumerate 1 ps" env w1 ?dp base args] by blast
  have shas: "map r_sha256 rs = map (\<lambda>b. hex_of (sha256 env b)) datas" and len: "length rs = length ps"
    using rows_ok_datas [OF rows(3)] by (simp_all flip: dp)
  then have ne: "rs \<noteq> []" using m(4) by auto
  obtain qs wins where tr: "trends rs ws = Inr (map (\<lambda>k. (k, stat_range (map (metric_value k \<circ> r_metrics) rs))) RUN_METRICS,
       map (\<lambda>k. (k, linear_slope (map (real \<circ> r_run) rs) (map (metric_value k \<circ> r_metrics) rs))) RUN_METRICS, qs, wins)"
    "map fst qs = RUN_METRICS" "ws \<noteq> [] \<Longrightarrow> map fst wins = WINDOW_METRICS"
    by (rule trends_ok [OF ne rows(2)]) (rule that)
  obtain am where am: "metrics_for_file (sha256 env) (numpy env) (maths env) (concat datas) = Inr (am, hex_of (sha256 env (concat datas)))"
    "slice_figures (concat datas) am"
    using finalize_figures [OF concat_nonempty [OF l2 m(4)], of "maths env"] by (auto simp: metrics_for_file_eq)
  have ex: "files w1 agg \<noteq> None" using m(5) by (auto simp: read_raw_def open_read_def io_bind_def split: option.splits)
  let ?s = "\<lparr>sm_root = path_str base, sm_manifest = JObj d, sm_aggregate = (am, hex_of (sha256 env (concat datas))),
    sm_per_run = map (\<lambda>k. (k, stat_range (map (metric_value k \<circ> r_metrics) rs))) RUN_METRICS,
    sm_slopes = map (\<lambda>k. (k, linear_slope (map (real \<circ> r_run) rs) (map (metric_value k \<circ> r_metrics) rs))) RUN_METRICS,
    sm_quartiles = qs, sm_windows = wins,
    sm_cross = cross_reboot_similarity (sha256 env) (numpy env) datas (map r_sha256 rs) n, sm_randlab = None\<rparr>"
  have load: "load_manifest (docs env) base w1 = (Inr (JObj d), w1)"
    using m(1) by (simp add: load_manifest_def exists_at_def io_bind_def io_run read_json_Doc)
  have lab: "summarize_randlab (docs env) (?out @ [''randlab_aggregate'']) w1 = (Inr None, w1)"
    using r(2) long by (simp add: summarize_randlab_def exists_at_def io_bind_def io_run)
  have main: "analyze_main env args w = io_then (write_outputs env ?out rs ws ?s) (io_return ?s) w1"
    unfolding analyze_main_def Let_def base [symmetric]
    by (rule io_bindI, rule w1(1), rule io_bindI, rule load)
      (simp add: m(2-5) ex exists_at_def io_bind_def io_run am(1) rows(1) tr(1) n read_slices_ok [OF l2] r(4) lab del: One_nat_def)
  show ?thesis
    by (rule that [OF w1(2,3,5) _ main rows(3) dp])
      (use long tr am in \<open>simp_all add: summary_of_def shas comp_def\<close>)
qed

section \<open>The claims\<close>

lemma rows_of_datas:
  assumes "rows_ok env base (enumerate 1 ps) dp rs" and "map dp ps = datas"
  shows "length rs = length datas \<and> (\<forall>i < length datas. r_run (rs ! i) = i + 1
    \<and> r_sha256 (rs ! i) = hex_of (sha256 env (datas ! i)) \<and> slice_figures (datas ! i) (r_metrics (rs ! i)))"
  using assms by (auto simp: rows_ok_def list_all2_conv_all_nth nth_enumerate_eq)

lemma reported_writes:
  assumes "\<And>q. files w q \<noteq> None \<Longrightarrow> files w1 q = files w q" and "commands w1 = commands w"
    and "\<And>q. q \<notin> (\<lambda>x. out @ [x]) ` set OUTPUTS \<Longrightarrow> files w2 q = files w1 q" and "commands w2 = commands w1"
  shows "reported out w w2"
  using assms by (auto simp: reported_def)

definition report_of ::
    "slice_env \<Rightarrow> slice_args \<Rightarrow> path \<Rightarrow> json \<Rightarrow> bytes list \<Rightarrow> int \<Rightarrow> world \<Rightarrow> slice_summary \<Rightarrow> world \<Rightarrow> bool" where
  "report_of env args base m datas n w s w' \<longleftrightarrow>
     (\<exists>rs ls. length rs = length datas
        \<and> (\<forall>i < length datas. r_run (rs ! i) = i + 1 \<and> r_sha256 (rs ! i) = hex_of (sha256 env (datas ! i))
             \<and> slice_figures (datas ! i) (r_metrics (rs ! i)))
        \<and> summary_of env base m datas rs n s
        \<and> files w' (results_dir env args @ [''run_metrics.csv'']) = Some (Table RUN_COLUMNS (map (map snd \<circ> run_row_dict) rs))
        \<and> files w' (results_dir env args @ [''summary.json'']) = Some (Doc (summary_json (float_text (docs env)) s))
        \<and> files w' (results_dir env args @ [''analysis.md'']) = Some (Lines ls)
        \<and> reported (results_dir env args) w w')"

lemma analysis_reports:
  assumes ds: "dataset_at env w base d ps datas agg" and base: "base = resolved env (dataset_root args)"
    and sizes: "dict_get d ''bytes_per_run'' = Some (JInt b)" "dict_get d ''aggregate_bytes'' = Some (JInt t)"
    and ready: "report_ready env args w"
  shows "\<exists>s w'. analyze_main env args w = (Inr s, w') \<and> report_of env args base (JObj d) datas (min (prefix_bytes args) b) w s w'"
proof -
  let ?out = "results_dir env args" and ?n = "min (prefix_bytes args) b"
  have n: "prefix_size args (JObj d) = Inr ?n"
    using sizes(1) by (simp add: prefix_size_def json_get_def dict_get_or_def json_int_def)
  obtain w1 rs ws s dp where a:
    "folders_to w1 ?out" "\<And>q. files w q \<noteq> None \<Longrightarrow> files w1 q = files w q" "commands w1 = commands w"
    "\<And>x. files w1 (?out @ [x]) = files w (?out @ [x])"
    "analyze_main env args w = io_then (write_outputs env ?out rs ws s) (io_return s) w1"
    "rows_ok env base (enumerate 1 ps) dp rs" "map dp ps = datas" "summary_of env base (JObj d) datas rs ?n s"
    "ws \<noteq> [] \<Longrightarrow> map fst (sm_windows s) = WINDOW_METRICS"
    by (rule analyze_until_report [OF ds base n ready]) (rule that)
  have no: "files w1 (?out @ [x]) \<noteq> Some Folder" if "x \<in> set OUTPUTS" for x
    using a(4) [of x] ready that by (simp add: report_ready_def Let_def)
  have sm: "sm_manifest s = JObj d" "map fst (sm_per_run s) = RUN_METRICS" "map fst (sm_slopes s) = RUN_METRICS"
    "map fst (sm_quartiles s) = RUN_METRICS" using a(8) unfolding summary_of_def by blast+
  obtain ls where ls: "write_markdown env (length rs) ws s = Inr ls"
    using write_markdown_ok [OF sm(1) sizes sm(2-4) a(9)] by blast
  have "ps \<noteq> []" using ds by (simp add: dataset_at_def)
  then have ne: "rs \<noteq> []" using rows_of_datas [OF a(6,7)] a(7) by auto
  obtain u where u: "table_of (map window_row_dict ws) = Inr u" using window_table by blast
  let ?t = "Table RUN_COLUMNS (map (map snd \<circ> run_row_dict) rs)"
  let ?w2 = "w1\<lparr>files := (files w1)(?out @ [''run_metrics.csv''] \<mapsto> ?t, ?out @ [''window_metrics.csv''] \<mapsto> u,
    ?out @ [''summary.json''] \<mapsto> Doc (summary_json (float_text (docs env)) s), ?out @ [''analysis.md''] \<mapsto> Lines ls)\<rparr>"
  have "analyze_main env args w = (Inr s, ?w2)"
    using write_outputs_ok [OF a(1) no run_table [OF ne] u ls] by (simp add: a(5) io_bind_def io_run)
  moreover have "reported ?out w ?w2"
    by (rule reported_writes [OF a(2,3)]) (auto simp: OUTPUTS_def)
  ultimately show ?thesis
    using a(8) rows_of_datas [OF a(6,7)]
    by (intro exI [of _ s] exI [of _ ?w2]) (auto simp: report_of_def intro!: exI [of _ rs] exI [of _ ls])
qed

text \<open>
  C12: On a complete dataset (a manifest with its sizes, slices that are not empty, an aggregate that
  is their concatenation) the analysis runs to its end, changes no file but its four outputs and
  runs no program: the table has one row per slice, in order, with that slice's figures and digest,
  and the summary has the figures and digest of the aggregate and the similarity of the slices.
\<close>

theorem analysis_of_dataset:
  assumes "dataset_at env w base d ps datas agg" and "base = resolved env (dataset_root args)"
    and "dict_get d ''bytes_per_run'' = Some (JInt b)" and "dict_get d ''aggregate_bytes'' = Some (JInt t)"
    and "report_ready env args w"
  shows "\<exists>s w'. analyze_main env args w = (Inr s, w') \<and> report_of env args base (JObj d) datas (min (prefix_bytes args) b) w s w'"
  using assms by (rule analysis_reports)

text \<open>A dataset of one slice of two bytes.\<close>

definition demo_slice_env :: slice_env where
  "demo_slice_env =
     \<lparr>docs = \<lparr>float_text = (\<lambda>_. []), encode = (\<lambda>_. []), decode_json = (\<lambda>_. Inl ValueError)\<rparr>, numpy = True,
      maths = \<lparr>chi2_sf = None, erfc = (\<lambda>_. 0)\<rparr>, sha256 = rev, resolved = (\<lambda>p. p), comma_float = (\<lambda>_. []),
      run_program = (\<lambda>_ fs. (None, fs))\<rparr>"

definition demo_slice_args :: slice_args where
  "demo_slice_args =
     \<lparr>dataset_root = [''/'', ''d''], out_dir = None, window_bytes = 1, prefix_bytes = 4096, want_randlab = False,
      randlab = [], tools_root = [], randlab_profile = [], suites = []\<rparr>"

definition demo_manifest :: "(string \<times> json) list" where
  "demo_manifest =
     [(''bytes_per_run'', JInt 2), (''aggregate_bytes'', JInt 2), (''aggregate'', JObj [(''path'', JStr ''a'')]),
      (''runs'', JArr [JObj [(''status'', JStr ''captured''), (''path'', JStr ''a'')]])]"

definition demo_dataset :: "(string \<times> json) list \<Rightarrow> world" where
  "demo_dataset d =
     \<lparr>files = [[''/'', ''d'', ''manifest.json''] \<mapsto> Doc (JObj d), [''/'', ''d'', ''a''] \<mapsto> Raw [3, 4]],
      commands = [], slept = []\<rparr>"

lemma demo_paths:
  "captured_path rep [''/'', ''d''] (JObj [(''status'', JStr ''captured''), (''path'', JStr ''a'')]) = Inr [[''/'', ''d'', ''a'']]"
  by (simp add: captured_path_def json_str_def path_of_def path_div_def is_absolute_def startswith_def split_on_def dict_get_def dict_item_def)

lemma demo_dataset_at:
  assumes "dict_get d ''runs'' = dict_get demo_manifest ''runs''" and "dict_get d ''aggregate'' = dict_get demo_manifest ''aggregate''"
  shows "dataset_at demo_slice_env (demo_dataset d) [''/'', ''d''] d [[''/'', ''d'', ''a'']] [[3, 4]] [''/'', ''d'', ''a'']"
proof -
  have "run_paths rep [''/'', ''d''] (JObj d) = Inr [[''/'', ''d'', ''a'']]" for rep
    using assms(1) by (simp add: run_paths_def json_get_def dict_get_or_def demo_manifest_def dict_get_def json_iter_def demo_paths)
  moreover have "aggregate_path rep [''/'', ''d''] (JObj d) = Inr [''/'', ''d'', ''a'']" for rep
    using assms(2) by (simp add: aggregate_path_def json_get_def dict_get_or_def demo_manifest_def dict_get_def json_str_def
        path_of_def path_div_def is_absolute_def startswith_def split_on_def)
  moreover have "read_raw de [''/'', ''d'', ''a''] (demo_dataset d) = (Inr [3, 4], demo_dataset d)" for de
    by (rule read_raw_Raw) (simp add: demo_dataset_def)
  ultimately show ?thesis
    by (simp add: dataset_at_def demo_dataset_def)
qed

lemma demo_ready: "report_ready demo_slice_env demo_slice_args (demo_dataset d)"
proof -
  have "take i [''/'', ''d'', ''results''] \<noteq> [''/'', ''d'', ''a''] \<and> take i [''/'', ''d'', ''results''] \<noteq> [''/'', ''d'', ''manifest.json'']" for i :: nat
    by (auto simp: take_Cons')
  then show ?thesis
    by (auto simp: report_ready_def demo_slice_env_def demo_slice_args_def results_dir_def can_mkdir_def is_file_def
        demo_dataset_def Let_def)
qed

theorem analysis_of_dataset_witness:
  "\<exists>s w'. analyze_main demo_slice_env demo_slice_args (demo_dataset demo_manifest) = (Inr s, w')
     \<and> report_of demo_slice_env demo_slice_args [''/'', ''d''] (JObj demo_manifest) [[3, 4]] 2 (demo_dataset demo_manifest) s w'"
  using analysis_of_dataset [OF demo_dataset_at [OF refl refl] _ _ _ demo_ready, of 2 2]
  by (simp add: demo_slice_env_def demo_slice_args_def demo_manifest_def dict_get_def)

lemma head_without_sizes: "dict_get d ''bytes_per_run'' = None \<Longrightarrow> sm_manifest s = JObj d \<Longrightarrow> write_markdown env k ws s = Inl TypeError"
  by (simp add: write_markdown_def md_head_def json_get_def dict_get_or_def fmt_comma_json_def)

text \<open>
  A manifest that names its runs and its aggregate but not \<open>bytes_per_run\<close> passes every step
  that reads it with a default, and then stops the report: the tables and \<open>summary.json\<close> are
  written, TypeError is raised, and \<open>analysis.md\<close> stays as it was.
\<close>

theorem report_without_sizes:
  assumes ds: "dataset_at env w base d ps datas agg" and base: "base = resolved env (dataset_root args)"
    and none: "dict_get d ''bytes_per_run'' = None" and ready: "report_ready env args w"
  shows "\<exists>w' s rows. analyze_main env args w = (Inl TypeError, w')
    \<and> files w' (results_dir env args @ [''summary.json'']) = Some (Doc (summary_json (float_text (docs env)) s))
    \<and> files w' (results_dir env args @ [''run_metrics.csv'']) = Some (Table RUN_COLUMNS rows) \<and> length rows = length ps
    \<and> files w' (results_dir env args @ [''analysis.md'']) = files w (results_dir env args @ [''analysis.md''])"
proof -
  let ?out = "results_dir env args" and ?n = "prefix_bytes args"
  have n: "prefix_size args (JObj d) = Inr ?n"
    using none by (simp add: prefix_size_def json_get_def dict_get_or_def json_int_def)
  obtain w1 rs ws s dp where a:
    "folders_to w1 ?out" "\<And>q. files w q \<noteq> None \<Longrightarrow> files w1 q = files w q" "commands w1 = commands w"
    "\<And>x. files w1 (?out @ [x]) = files w (?out @ [x])"
    "analyze_main env args w = io_then (write_outputs env ?out rs ws s) (io_return s) w1"
    "rows_ok env base (enumerate 1 ps) dp rs" "map dp ps = datas" "summary_of env base (JObj d) datas rs ?n s"
    "ws \<noteq> [] \<Longrightarrow> map fst (sm_windows s) = WINDOW_METRICS"
    by (rule analyze_until_report [OF ds base n ready]) (rule that)
  have no: "files w1 (?out @ [x]) \<noteq> Some Folder" if "x \<in> set OUTPUTS" for x
    using a(4) [of x] ready that by (simp add: report_ready_def Let_def)
  have len: "length rs = length ps" using rows_of_datas [OF a(6,7)] a(7) by auto
  then have ne: "rs \<noteq> []" using ds by (auto simp: dataset_at_def)
  have md: "write_markdown env (length rs) ws s = Inl TypeError"
    by (rule head_without_sizes [OF none]) (use a(8) in \<open>simp add: summary_of_def\<close>)
  obtain u where u: "table_of (map window_row_dict ws) = Inr u" using window_table by blast
  show ?thesis
    using write_outputs_ok [OF a(1) no run_table [OF ne] u md] a(4) len by (auto simp: a(5) io_bind_def)
qed

text \<open>The same dataset without its sizes.\<close>

theorem report_without_sizes_witness:
  "\<exists>w'. analyze_main demo_slice_env demo_slice_args (demo_dataset (drop 2 demo_manifest)) = (Inl TypeError, w')
     \<and> files w' [''/'', ''d'', ''results'', ''analysis.md''] = None"
  using report_without_sizes [OF demo_dataset_at [of "drop 2 demo_manifest"] _ _ demo_ready]
  by (simp add: demo_slice_env_def demo_slice_args_def demo_manifest_def dict_get_def results_dir_def demo_dataset_def) blast

end
