(* ===== verification/RebootDataset.thy ===== *)
theory RebootDataset
  imports RebootCollect RebootAnalysis
begin

text \<open>
  What the collector leaves: passwords stay out of the logs, the names of the files it writes are
  distinct, its steps change those files only (interpretation \<open>framed\<close> of \<open>preorder_effect\<close>), and
  a collection that returns leaves a dataset the analysis reads as it was captured.
\<close>

section \<open>Passwords\<close>

abbreviation password_flags :: "string set" where
  "password_flags \<equiv> {''--wifi-pass'', ''--password'', ''--pass''}"

lemma redact_append:
  "a = [] \<or> last a \<notin> password_flags \<Longrightarrow> redact False (a @ c) = redact False a @ redact False c"
proof -
  assume l: "a = [] \<or> last a \<notin> password_flags"
  have "redact h (a @ c) = redact h a @ redact False c" if "a \<noteq> []" "last a \<notin> password_flags" for h
    using that
  proof (induction a arbitrary: h)
    case (Cons t a)
    show ?case
    proof (cases "a = []")
      case False
      then have "redact g (a @ c) = redact g a @ redact False c" for g using Cons by simp
      then show ?thesis by simp
    next
      case True
      with Cons.prems have "t \<notin> password_flags" by simp
      then show ?thesis unfolding True by simp
    qed
  qed simp
  with l show ?thesis by (cases "a = []") simp_all
qed

text \<open>
  The text of a command that goes to a log does not depend on the password in it: whatever
  follows a password option is replaced. And the build command, which is logged, never contains
  the Wi-Fi password, which reaches the build through the environment.
\<close>

theorem password_not_logged:
  "(f \<in> password_flags \<and> (a = [] \<or> last a \<notin> password_flags)
      \<longrightarrow> display_command (a @ f # s # b) = display_command (a @ f # s' # b))
   \<and> build_command env (args\<lparr>wifi_pass := p\<rparr>) n = build_command env args n"
  by (auto simp: display_command_def redact_append build_command_def)

theorem password_not_logged_witness:
  "''--wifi-pass'' \<in> password_flags
   \<and> display_command ([''build.sh''] @ ''--wifi-pass'' # ''hunter2'' # []) = display_command ([''build.sh''] @ ''--wifi-pass'' # [] # [])"
  using password_not_logged [of "''--wifi-pass''" "[''build.sh'']" "''hunter2''" "[]" "[]"] by simp

section \<open>Names\<close>

lemma digits_no_slash: "all_digits 10 s \<Longrightarrow> CHR ''/'' \<notin> set s"
  by (auto simp: all_digits_def list_all_iff digit_value_def code_def Let_def)

lemma str_of_int_no_slash: "0 \<le> i \<Longrightarrow> CHR ''/'' \<notin> set (str_of_int i)"
  using nat_text_digits [of 10 "nat i"] by (auto simp: str_of_int_def str_of_nat_def dest: digits_no_slash)

lemma slice_name_char:
  assumes "condition args = ''wifi_idle''" and "0 \<le> n"
  shows "CHR ''/'' \<notin> set (slice_name args n i)" and "slice_name args n i \<noteq> []" and "slice_name args n i \<noteq> ''.''"
  using str_of_int_no_slash [OF assms(2)] digits_no_slash [OF fmt_dec_digits] assms(1)
  by (auto simp: slice_name_def)

lemma concat_name_char:
  assumes "condition args = ''wifi_idle''" and "0 \<le> n"
  shows "CHR ''/'' \<notin> set (concat_name args n k)" and "concat_name args n k \<noteq> []" and "concat_name args n k \<noteq> ''.''"
  using str_of_int_no_slash [of "n * int k"] assms by (auto simp: concat_name_def)

lemma path_of_raw:
  assumes "CHR ''/'' \<notin> set x" and "x \<noteq> []" and "x \<noteq> ''.''"
  shows "path_of (path_str [''raw'', x]) = [''raw'', x]"
  using split_on_join [of "[''raw'', x]" "CHR ''/''"] assms
  by (simp add: path_str_def is_absolute_def path_of_def startswith_def)

lemma underscore_no_digit: "digit_value 10 CHR ''_'' = None"
  by simp

lemma slice_name_inject: "slice_name args n i = slice_name args n j \<longleftrightarrow> i = j"
proof
  assume "slice_name args n i = slice_name args n j"
  then have e: "fmt_dec w i @ CHR ''_'' # r = fmt_dec w j @ CHR ''_'' # r"
    if "w = max 3 (length (str_of_int (runs args)))" "r = str_of_int n @ ''.bin''" for w r
    using that by (simp add: slice_name_def)
  show "i = j"
    using digits_then_other [OF fmt_dec_digits fmt_dec_digits underscore_no_digit underscore_no_digit e [OF refl refl]]
    by (simp add: fmt_dec_inject)
qed simp

lemma digits_not_c: "all_digits 10 (s :: string) \<Longrightarrow> s \<noteq> [] \<Longrightarrow> s @ t \<noteq> CHR ''c'' # u"
  by (cases s) (auto simp: all_digits_def digit_value_def code_def Let_def)

lemma fmt_dec_nonempty: "0 < w \<Longrightarrow> fmt_dec w n \<noteq> []"
  unfolding fmt_dec_def by (metis length_zpad length_greater_0_conv less_max_iff_disj)

lemma slice_not_concat: "slice_name args n i \<noteq> concat_name args m k" "slice_name args n i \<noteq> concat_name args m k @ ''.tmp''"
  using digits_not_c [OF fmt_dec_digits fmt_dec_nonempty, of "max 3 (length (str_of_int (runs args)))" i]
  by (auto simp: slice_name_def concat_name_def)

section \<open>What a step leaves alone\<close>

definition frame :: "path set \<Rightarrow> world \<Rightarrow> world \<Rightarrow> bool" where
  "frame S v w \<longleftrightarrow> (\<forall>p \<in> S. files w p = files v p)"

interpretation framed: preorder_effect "frame S" for S
  by unfold_locales (auto simp: frame_def)

lemma frame_mkdirs: "(\<And>q. q \<in> S \<Longrightarrow> q \<noteq> take (length q) p) \<Longrightarrow> io_rel (frame S) (mkdirs p)"
  by (auto simp: io_rel_def frame_def mkdirs_def)

lemma frame_write: "p \<notin> S \<Longrightarrow> io_rel (frame S) (write_node p n)"
  by (auto simp: io_rel_def frame_def write_node_def)

lemma frame_read: "io_rel (frame S) (read_raw de p)"
  unfolding read_raw_def
  by (rule framed.rel_bind) (auto simp: io_rel_def open_read_state frame_def io_return_def)

lemma frame_command:
  assumes "log_path \<notin> S" and "\<And>q. q \<in> S \<Longrightarrow> q \<noteq> take (length q) (parent log_path)"
    and "\<And>k fs p. p \<in> S \<Longrightarrow> snd (snd (spawn env k cmd e fs)) p = fs p"
  shows "io_rel (frame S) (run_command env cmd log_path e)"
  unfolding run_command_def Let_def
proof (intro framed.rel_bind frame_mkdirs frame_write)
  show "io_rel (frame S) (\<lambda>w. case spawn env (length (commands w)) cmd e (files w) of (ret, out, fs) \<Rightarrow>
      (if ret \<noteq> 0 then Inl CalledProcessError else Inr (),
       w\<lparr>files := fs(log_path \<mapsto> Lines ((''[HOST_CMD] '' @ display_command cmd) # out)), commands := commands w @ [cmd]\<rparr>))" (is "io_rel _ ?f")
    unfolding io_rel_def
  proof
    fix w :: world
    obtain ret out fs where sp: "spawn env (length (commands w)) cmd e (files w) = (ret, out, fs)"
      by (metis prod_cases3)
    then have "fs p = files w p" if "p \<in> S" for p
      using assms(3) [OF that, of "length (commands w)" "files w"] by simp
    then show "frame S w (snd (?f w))" using assms(1) by (auto simp: frame_def sp)
  qed
qed (use assms in auto)

lemma frame_size: "io_rel (frame S) (size_at de p)" "io_rel (frame S) (exists_at p)"
  by (simp_all add: size_at_def exists_at_def framed.rel_pure)

lemma frame_cool: "io_rel (frame S) (cool_down args i)"
  by (auto simp: cool_down_def io_run io_rel_def frame_def)

abbreviation slice_at :: "collect_args \<Rightarrow> path \<Rightarrow> int \<Rightarrow> nat \<Rightarrow> path" where
  "slice_at args base n i \<equiv> base @ [''raw'', slice_name args n i]"

text \<open>The programs: a capture writes its output only, a build nothing of the dataset.\<close>

definition capture_writes_output :: "collect_env \<Rightarrow> collect_args \<Rightarrow> path \<Rightarrow> int \<Rightarrow> bool" where
  "capture_writes_output env args base n \<longleftrightarrow>
     (\<forall>k i fs p. p \<noteq> slice_at args base n i
        \<longrightarrow> snd (snd (spawn env k (capture_command env args (slice_at args base n i) n) None fs)) p = fs p)"

text \<open>The logs of the runs and the directories they are in.\<close>

definition log_area :: "path \<Rightarrow> path set" where
  "log_area base = {q. q = take (length q) (base @ [''logs'']) \<or> take (length base + 1) q = base @ [''logs'']}"

lemma frame_run:
  assumes "capture_writes_output env args base n" and "slice_at args base n i \<notin> S" and "S \<inter> log_area base = {}"
  shows "io_rel (frame S) (collect_run env args base n i)"
proof -
  have l: "base @ [''logs'', log_name args i] \<in> log_area base" by (simp add: log_area_def)
  have p: "parent (base @ [''logs'', log_name args i]) = base @ [''logs'']"
    by (cases base) (simp_all add: parent_def butlast_append)
  have q: "q \<in> S \<Longrightarrow> q \<noteq> take (length q) (base @ [''logs''])" for q using assms(3) by (auto simp: log_area_def)
  have "io_rel (frame S) (run_command env (capture_command env args (slice_at args base n i) n) (base @ [''logs'', log_name args i]) None)"
  proof (rule frame_command)
    show "snd (snd (spawn env k (capture_command env args (slice_at args base n i) n) None fs)) x = fs x" if "x \<in> S" for k fs x
      using assms(1,2) that unfolding capture_writes_output_def by metis
  qed (use assms(3) l p q in auto)
  then have "io_rel (frame S) (capture_or_reuse env args base n i)"
    unfolding capture_or_reuse_def capture_one_def Let_def
    by (intro framed.rel_bind framed.rel_if framed.rel_pure frame_size)
  then show ?thesis
    unfolding collect_run_def Let_def hash_file_def
    by (intro framed.rel_bind framed.rel_if framed.rel_pure frame_size frame_read frame_cool)
qed

lemma frame_runs:
  assumes "capture_writes_output env args base n" and "\<And>i. i \<in> set is \<Longrightarrow> slice_at args base n i \<notin> S" and "S \<inter> log_area base = {}"
  shows "io_rel (frame S) (collect_runs env args base n is)"
  using assms(2)
proof (induction "is")
  case (Cons i "is")
  then show ?case
    by (auto intro!: framed.rel_bind frame_run [OF assms(1)] framed.rel_pure assms(3))
qed (simp add: framed.rel_pure)

section \<open>The entries describe the slices\<close>

definition entry_ok :: "collect_env \<Rightarrow> collect_args \<Rightarrow> path \<Rightarrow> int \<Rightarrow> world \<Rightarrow> nat \<Rightarrow> run_entry \<Rightarrow> bytes \<Rightarrow> bool" where
  "entry_ok env args base n w i e b \<longleftrightarrow>
     e_run e = i \<and> e_path e = path_str [''raw'', slice_name args n i] \<and> int (length b) = n \<and> e_bytes e = length b
     \<and> e_sha256 e = hex_of (c_sha256 env b) \<and> read_raw (c_docs env) (slice_at args base n i) w = (Inr b, w)"

lemma read_raw_Inr: "read_raw de p w = (Inr b, w') \<longleftrightarrow> w' = w \<and> (\<exists>nd. files w p = Some nd \<and> nd \<noteq> Folder \<and> b = node_bytes de nd)"
  by (auto simp: read_raw_def open_read_def io_bind_def io_run split: option.splits node.splits)

lemma collect_run_entry:
  assumes "collect_run env args base n i w = (Inr e, w')"
  shows "\<exists>b. entry_ok env args base n w' i e b"
  using assms unfolding collect_run_def Let_def
  by (auto simp: io_simps io_run size_at_def hash_file_def read_raw_Inr cool_down_def entry_ok_def split: if_splits option.splits)

lemma entry_keep: "entry_ok env args base n w i e b \<Longrightarrow> files w' (slice_at args base n i) = files w (slice_at args base n i)
    \<Longrightarrow> entry_ok env args base n w' i e b"
  by (auto simp: entry_ok_def read_raw_Inr)

lemma io_rel_Inr: "io_rel R m \<Longrightarrow> m w = (r, w') \<Longrightarrow> R w w'"
  unfolding io_rel_def by (metis snd_conv)

lemma collect_runs_entries:
  assumes "capture_writes_output env args base n" and "distinct is" and "collect_runs env args base n is w = (Inr es, w')"
  shows "\<exists>bs. length bs = length is \<and> length es = length is \<and> (\<forall>j < length is. entry_ok env args base n w' (is ! j) (es ! j) (bs ! j))"
  using assms(2,3)
proof (induction "is" arbitrary: w es)
  case Nil
  then show ?case by (simp add: io_run)
next
  case (Cons i "is")
  then obtain e w1 es' where e: "collect_run env args base n i w = (Inr e, w1)" "es = e # es'"
    and es: "collect_runs env args base n is w1 = (Inr es', w')"
    by (auto simp: io_simps io_run)
  obtain b where b: "entry_ok env args base n w1 i e b" using collect_run_entry [OF e(1)] by blast
  have "io_rel (frame {slice_at args base n i}) (collect_runs env args base n is)"
    using Cons.prems(1) by (intro frame_runs assms(1)) (auto simp: slice_name_inject log_area_def)
  from io_rel_Inr [where m = "collect_runs env args base n is", OF this es]
  have "entry_ok env args base n w' i e b" by (intro entry_keep [OF b]) (simp add: frame_def)
  moreover obtain bs where "length bs = length is" "length es' = length is"
    "\<forall>j < length is. entry_ok env args base n w' (is ! j) (es' ! j) (bs ! j)"
    using Cons es by (metis distinct.simps(2))
  ultimately show ?case
    by (intro exI [of _ "b # bs"]) (auto simp: e(2) nth_Cons split: nat.splits)
qed

section \<open>The aggregate\<close>

lemma reads_keep:
  "list_all2 (\<lambda>p b. read_raw de p w = (Inr b, w)) ps bs \<Longrightarrow> (\<And>p. p \<in> set ps \<Longrightarrow> files w1 p = files w p)
    \<Longrightarrow> list_all2 (\<lambda>p b. read_raw de p w1 = (Inr b, w1)) ps bs"
  by (auto simp: list_all2_conv_all_nth read_raw_Inr)

lemma append_each:
  assumes "files w tmp = Some (Raw acc)" and "tmp \<notin> set ps"
    and "list_all2 (\<lambda>p b. read_raw de p w = (Inr b, w)) ps bs"
  shows "io_each (\<lambda>p. io_bind (read_raw de p) (append_node de tmp)) ps w
    = (Inr (), w\<lparr>files := (files w)(tmp \<mapsto> Raw (acc @ concat bs))\<rparr>)"
  using assms
proof (induction ps arbitrary: w acc bs)
  case Nil
  then have "files w = (files w)(tmp \<mapsto> Raw acc)" by auto
  with Nil show ?case by (simp add: io_run)
next
  case (Cons p ps)
  obtain b bs' where bs: "bs = b # bs'" "read_raw de p w = (Inr b, w)" "list_all2 (\<lambda>p b. read_raw de p w = (Inr b, w)) ps bs'"
    using Cons.prems(3) by (auto simp: list_all2_Cons1)
  let ?w1 = "w\<lparr>files := (files w)(tmp \<mapsto> Raw (acc @ b))\<rparr>"
  let ?step = "\<lambda>p. io_bind (read_raw de p) (append_node de tmp)"
  have step: "io_bind (read_raw de p) (append_node de tmp) w = (Inr (), ?w1)"
    using bs(2) Cons.prems(1) read_raw_Raw [OF Cons.prems(1), of de]
    by (simp add: io_bind_def append_node_def write_node_def)
  then have rest: "io_each ?step (p # ps) w = io_each ?step ps ?w1"
    unfolding io_each.simps io_bind_def [of "?step p"] step by simp
  have "list_all2 (\<lambda>p b. read_raw de p ?w1 = (Inr b, ?w1)) ps bs'"
    by (rule reads_keep [OF bs(3)]) (use Cons.prems(2) in auto)
  moreover have "(\<lambda>a. if a = tmp then x else if a = tmp then y else g a) = (\<lambda>a. if a = tmp then x else g a)"
    for x y and g :: "path \<Rightarrow> node option" by auto
  ultimately show ?case unfolding rest using Cons.IH [of ?w1 "acc @ b"] Cons.prems(2) by (simp add: bs(1))
qed

lemma concatenate_result:
  assumes "concatenate env ps out w = (Inr h, w')" and "tmp_of out \<notin> set ps" and "tmp_of out \<noteq> out"
    and "list_all2 (\<lambda>p b. read_raw (c_docs env) p w = (Inr b, w)) ps bs"
  shows "h = hex_of (c_sha256 env (concat bs)) \<and> files w' = (files w)(out \<mapsto> Raw (concat bs), tmp_of out := None)"
proof -
  let ?tmp = "tmp_of out"
  let ?w1 = "w\<lparr>files := (files w)(?tmp \<mapsto> Raw [])\<rparr>"
  from assms(1) obtain w2 where
    "write_node ?tmp (Raw []) w = (Inr (), ?w1)"
    and each: "io_each (\<lambda>p. io_bind (read_raw (c_docs env) p) (append_node (c_docs env) ?tmp)) ps ?w1 = (Inr (), w2)"
    and rest: "io_then (replace_file ?tmp out) (hash_file env out) w2 = (Inr h, w')"
    by (auto simp: concatenate_def io_simps write_node_def split: if_splits)
  have "list_all2 (\<lambda>p b. read_raw (c_docs env) p ?w1 = (Inr b, ?w1)) ps bs"
    by (rule reads_keep [OF assms(4)]) (use assms(2) in auto)
  from append_each [OF _ assms(2) this, of "[]"] each
  have "w2 = ?w1\<lparr>files := (files ?w1)(?tmp \<mapsto> Raw (concat bs))\<rparr>" by simp
  with rest assms(3) show ?thesis
    by (auto simp: io_simps io_run replace_file_def hash_file_def read_raw_Inr node_bytes_def split: if_splits)
qed

section \<open>The dataset\<close>

lemma manifest_paths:
  assumes "condition args = ''wifi_idle''" and "0 \<le> n"
    and "\<And>e. e \<in> set es \<Longrightarrow> e_path e = path_str [''raw'', slice_name args n (e_run e)]"
    and "manifest_json env args n (concat_name args n k) sz h es = JObj d"
  shows "run_paths rep base (JObj d) = Inr (map (\<lambda>e. slice_at args base n (e_run e)) es)"
    and "aggregate_path rep base (JObj d) = Inr (base @ [''raw'', concat_name args n k])"
    and "dict_get d ''bytes_per_run'' = Some (JInt n)" and "dict_get d ''aggregate_bytes'' = Some (JInt (n * int (length es)))"
    and "dict_get d ''aggregate'' = Some (JObj [(''path'', JStr (path_str [''raw'', concat_name args n k])), (''bytes'', JInt (int sz)),
           (''sha256'', JStr h)])"
proof -
  have rel: "path_div base [''raw'', x] = base @ [''raw'', x]" for x by (simp add: path_div_def is_absolute_def)
  have "captured_path rep base (entry_json e) = Inr [slice_at args base n (e_run e)]" if "e \<in> set es" for e
    using assms(3) [OF that] path_of_raw [OF slice_name_char [OF assms(1,2)]]
    by (simp add: captured_path_def entry_json_def dict_get_def dict_item_def json_str_def rel)
  then have "rmap (captured_path rep base) (map entry_json es) = Inr (map (\<lambda>e. [slice_at args base n (e_run e)]) es)"
    unfolding rmap_map by (intro rmap_Inr) simp
  moreover have d: "dict_get d ''runs'' = Some (JArr (map entry_json es))"
    using assms(4) by (auto simp: manifest_json_def dict_get_def)
  moreover have "concat (map (\<lambda>e. [f e]) es) = map f es" for f :: "run_entry \<Rightarrow> path" by (induction es) simp_all
  ultimately show "run_paths rep base (JObj d) = Inr (map (\<lambda>e. slice_at args base n (e_run e)) es)"
    by (simp add: run_paths_def json_get_def dict_get_or_def json_iter_def)
  show g: "dict_get d ''aggregate'' = Some (JObj [(''path'', JStr (path_str [''raw'', concat_name args n k])), (''bytes'', JInt (int sz)),
           (''sha256'', JStr h)])"
    and "dict_get d ''bytes_per_run'' = Some (JInt n)" and "dict_get d ''aggregate_bytes'' = Some (JInt (n * int (length es)))"
    using assms(4) by (auto simp: manifest_json_def dict_get_def)
  show "aggregate_path rep base (JObj d) = Inr (base @ [''raw'', concat_name args n k])"
    unfolding aggregate_path_def json_get_def dict_get_or_def json.case g option.case rbind_Inr
    by (simp add: dict_get_def json_str_def path_of_raw [OF concat_name_char [OF assms(1,2)]] rel)
qed

text \<open>
  A dataset of slices \<open>datas\<close>: as the analysis reads it, of the announced sizes, and with the digests
  of the slices and of the aggregate in the manifest.
\<close>

definition dataset_of ::
    "slice_env \<Rightarrow> collect_args \<Rightarrow> path \<Rightarrow> int \<Rightarrow> world \<Rightarrow> (string \<times> json) list \<Rightarrow> bytes list \<Rightarrow> bool" where
  "dataset_of senv args base n w d datas \<longleftrightarrow>
     int (length datas) = runs args \<and> (\<forall>b \<in> set datas. int (length b) = n)
     \<and> dataset_at senv w base d (map (slice_at args base n) [1..<Suc (length datas)]) datas
         (base @ [''raw'', concat_name args n (length datas)])
     \<and> dict_get d ''bytes_per_run'' = Some (JInt n) \<and> dict_get d ''aggregate_bytes'' = Some (JInt (n * runs args))
     \<and> (\<exists>es. dict_get d ''runs'' = Some (JArr (map entry_json es))
          \<and> map e_sha256 es = map (\<lambda>b. hex_of (sha256 senv b)) datas)
     \<and> (\<exists>p sz. dict_get d ''aggregate'' = Some (JObj [p, sz, (''sha256'', JStr (hex_of (sha256 senv (concat datas))))]))"

lemma tmp_of_concat: "tmp_of (base @ [''raw'', x]) = base @ [''raw'', x @ ''.tmp'']"
  by (simp add: tmp_of_def parent_def path_name_def butlast_append)

lemma finish_dataset_of:
  assumes fin: "finish_dataset env args base n es w = (Inr m, w')"
    and cond: "condition args = ''wifi_idle''" and n: "0 < n" and r: "runs args = int (length bs)" "bs \<noteq> []"
    and len: "length es = length bs" and en: "\<forall>j < length bs. entry_ok env args base n w (j + 1) (es ! j) (bs ! j)"
    and docs: "docs senv = c_docs env" "sha256 senv = c_sha256 env"
  shows "\<exists>d. m = JObj d \<and> dataset_of senv args base n w' d bs"
proof -
  let ?agg = "base @ [''raw'', concat_name args n (length es)]"
  let ?outs = "map (\<lambda>e. slice_at args base n (e_run e)) es"
  have runs: "map e_run es = [1..<Suc (length bs)]"
    using en len by (intro nth_equalityI) (auto simp: entry_ok_def simp del: upt_Suc)
  have "?outs = map (slice_at args base n) (map e_run es)" by simp
  then have outs: "?outs = map (slice_at args base n) [1..<Suc (length bs)]" unfolding runs .
  have read: "list_all2 (\<lambda>p b. read_raw (c_docs env) p w = (Inr b, w)) ?outs bs"
    using en len by (auto simp: list_all2_conv_all_nth entry_ok_def)
  have tmp: "tmp_of ?agg \<notin> set ?outs" "tmp_of ?agg \<noteq> ?agg"
    using slice_not_concat(2) [symmetric] by (auto simp: tmp_of_concat)
  from fin obtain h w1 m0 where con: "concatenate env ?outs ?agg w = (Inr h, w1)"
    and m: "m = manifest_json env args n (concat_name args n (length es)) (case files w1 ?agg of None \<Rightarrow> 0 | Some nd \<Rightarrow> length (node_bytes (c_docs env) nd)) h es"
    and w': "files w' = (files w1)(base @ [''manifest.json''] \<mapsto> Doc m, base @ [''README.md''] \<mapsto> m0)"
    unfolding finish_dataset_def Let_def
    by (auto simp: io_simps io_run size_at_def write_node_def split: if_splits)
  from concatenate_result [OF con tmp read]
  have h: "h = hex_of (c_sha256 env (concat bs))"
    and w1: "files w1 = (files w)(?agg \<mapsto> Raw (concat bs), tmp_of ?agg := None)" by blast+
  obtain d where d: "m = JObj d" by (simp add: m manifest_json_def)
  have same: "files w' (slice_at args base n i) = files w (slice_at args base n i)" for i
    using slice_not_concat by (simp add: w' w1 tmp_of_concat)
  have agg: "files w' ?agg = Some (Raw (concat bs))" using tmp(2) by (simp add: w' w1)
  have man: "files w' (base @ [''manifest.json'']) = Some (Doc (JObj d))" by (simp add: w' d)
  have ep: "e_path e = path_str [''raw'', slice_name args n (e_run e)]" if "e \<in> set es" for e
    using that en len by (auto simp: in_set_conv_nth entry_ok_def)
  note mp = manifest_paths [OF cond order.strict_implies_order [OF n] ep m [unfolded d, symmetric]]
  have rd: "list_all2 (\<lambda>p b. read_raw (c_docs env) p w' = (Inr b, w') \<and> b \<noteq> [] \<and> take (length base) p = base) ?outs bs"
    using read same en n len by (auto simp: list_all2_conv_all_nth read_raw_Inr entry_ok_def)
  have "dataset_at senv w' base d ?outs bs ?agg"
    using man mp(1,2) rd read_raw_Raw [OF agg] r len by (auto simp: dataset_at_def docs)
  moreover have "map e_sha256 es = map (\<lambda>b. hex_of (sha256 senv b)) bs"
    using en len by (intro nth_equalityI) (auto simp: entry_ok_def docs)
  moreover have "dict_get d ''runs'' = Some (JArr (map entry_json es))"
    using m d by (auto simp: manifest_json_def dict_get_def)
  moreover have "\<forall>b \<in> set bs. int (length b) = n" using en by (auto simp: in_set_conv_nth entry_ok_def)
  ultimately show ?thesis
    using mp(3-5) r len d unfolding outs len h
    by (intro exI [of _ d]) (auto simp: dataset_of_def docs simp del: upt_Suc)
qed

lemma collected:
  assumes col: "collect_main env args w = (Inr m, w')" and cond: "condition args = ''wifi_idle''"
    and port: "port args \<noteq> ''auto''" and base: "base = c_resolved env (output_root args)"
    and size: "derive_bytes_per_run args = Inr n" and only: "capture_writes_output env args base n"
    and docs: "docs senv = c_docs env" "sha256 senv = c_sha256 env"
  shows "\<exists>d datas. m = JObj d \<and> dataset_of senv args base n w' d datas"
proof -
  from col obtain w1 w2 es where pos: "0 < runs args" "0 < n"
    and es: "collect_runs env args base n [1..<Suc (nat (runs args))] w1 = (Inr es, w2)"
    and fin: "finish_dataset env args base n es w2 = (Inr m, w')"
    unfolding collect_main_def Let_def base size choose_port_def
    using port by (auto simp: io_simps io_run size split: if_splits)
  obtain bs where bs: "length bs = nat (runs args)" "length es = nat (runs args)"
    "\<forall>j < nat (runs args). entry_ok env args base n w2 ([1..<Suc (nat (runs args))] ! j) (es ! j) (bs ! j)"
    using collect_runs_entries [OF only _ es] by (auto simp del: upt_Suc)
  have "entry_ok env args base n w2 (j + 1) (es ! j) (bs ! j)" if "j < length bs" for j
    using bs(1,3) that by (auto simp del: upt_Suc)
  with finish_dataset_of [OF fin cond pos(2) _ _ _ _ docs, of bs] bs(1,2) pos(1) show ?thesis by fastforce
qed

end
