(* ===== verification/RebootPipeline.thy ===== *)
theory RebootPipeline
  imports RebootDataset
begin

text \<open>
  The collector and the analysis together: with a device that answers the collection completes,
  stays inside its directory, and the analysis of what it left reports the bytes of the device.
\<close>

section \<open>A device that answers\<close>

definition ready_dirs :: "path \<Rightarrow> world \<Rightarrow> bool" where
  "ready_dirs base w \<longleftrightarrow>
     folders_to w (base @ [''logs'']) \<and> (\<forall>x. files w (base @ [''logs'', x]) \<noteq> Some Folder)
     \<and> (\<forall>x. files w (base @ [''raw'', x]) \<noteq> Some Folder) \<and> files w (base @ [''manifest.json'']) \<noteq> Some Folder
     \<and> files w (base @ [''README.md'']) \<noteq> Some Folder"

lemma ready_write:
  "ready_dirs base w \<Longrightarrow> x = ''logs'' \<or> x = ''raw'' \<Longrightarrow> nd \<noteq> Folder
    \<Longrightarrow> ready_dirs base (w\<lparr>files := (files w)(base @ [x, y] \<mapsto> nd), commands := cs\<rparr>)"
  unfolding ready_dirs_def folders_to_def by auto

lemma run_command_ok:
  assumes "ready_dirs base w"
    and "\<And>fs. \<exists>out. spawn env (length (commands w)) cmd e fs = (0, out, g fs)"
  shows "\<exists>header out. run_command env cmd (base @ [''logs'', x]) e w =
    (Inr (), w\<lparr>files := (g ((files w)(base @ [''logs'', x] \<mapsto> Lines [header])))(base @ [''logs'', x] \<mapsto> Lines (header # out)),
       commands := commands w @ [cmd]\<rparr>)"
proof -
  let ?p = "base @ [''logs'', x]" and ?h = "''[HOST_CMD] '' @ display_command cmd"
  have par: "parent ?p = base @ [''logs'']" by (cases base) (simp_all add: parent_def butlast_append)
  obtain out where "spawn env (length (commands w)) cmd e ((files w)(?p \<mapsto> Lines [?h]))
      = (0, out, g ((files w)(?p \<mapsto> Lines [?h])))" using assms(2) by blast
  then show ?thesis
    using assms(1) mkdirs_again [of w "base @ [''logs'']"]
    by (intro exI [of _ ?h] exI [of _ out]) (simp add: run_command_def Let_def io_bind_def par ready_dirs_def write_node_def)
qed

definition device_answers :: "collect_env \<Rightarrow> collect_args \<Rightarrow> path \<Rightarrow> int \<Rightarrow> (nat \<Rightarrow> bytes) \<Rightarrow> bool" where
  "device_answers env args base n dev \<longleftrightarrow>
     (\<forall>k i fs. \<exists>out. spawn env k (capture_command env args (slice_at args base n i) n) None fs
        = (0, out, fs(slice_at args base n i \<mapsto> Raw (dev i))))
     \<and> (\<forall>i \<in> {1..nat (runs args)}. int (length (dev i)) = n)
     \<and> (skip_build args \<or> (\<forall>k e fs. \<exists>out. spawn env k (build_command env args n) e fs = (0, out, fs)))"

lemma device_writes_output: "device_answers env args base n dev \<Longrightarrow> capture_writes_output env args base n"
  unfolding capture_writes_output_def
proof (intro allI impI)
  fix k i and fs :: "path \<Rightarrow> node option" and p
  assume d: "device_answers env args base n dev" and p: "p \<noteq> slice_at args base n i"
  obtain out where "spawn env k (capture_command env args (slice_at args base n i) n) None fs
      = (0, out, fs(slice_at args base n i \<mapsto> Raw (dev i)))"
    using d unfolding device_answers_def by blast
  then show "snd (snd (spawn env k (capture_command env args (slice_at args base n i) n) None fs)) p = fs p" using p by simp
qed

lemma cool_down_files: "\<exists>w2. cool_down args i w = (Inr (), w2) \<and> files w2 = files w"
  by (simp add: cool_down_def io_run)

lemma collect_run_ok:
  assumes dev: "device_answers env args base n dev" and i: "i \<in> {1..nat (runs args)}"
    and ready: "ready_dirs base w" and free: "files w (slice_at args base n i) = None"
  shows "\<exists>e w'. collect_run env args base n i w = (Inr e, w') \<and> ready_dirs base w'
    \<and> files w' (slice_at args base n i) = Some (Raw (dev i))"
proof -
  let ?p = "slice_at args base n i" and ?c = "capture_command env args (slice_at args base n i) n"
  have "\<exists>out. spawn env (length (commands w)) ?c None fs = (0, out, (fs(?p \<mapsto> Raw (dev i))))" for fs
    using dev by (simp add: device_answers_def)
  then obtain h out where run: "run_command env ?c (base @ [''logs'', log_name args i]) None w =
      (Inr (), w\<lparr>files := (files w)(base @ [''logs'', log_name args i] \<mapsto> Lines [h], ?p \<mapsto> Raw (dev i),
          base @ [''logs'', log_name args i] \<mapsto> Lines (h # out)), commands := commands w @ [?c]\<rparr>)" (is "_ = (Inr (), ?w1)")
    using run_command_ok [OF ready, of env ?c None "\<lambda>fs. fs(?p \<mapsto> Raw (dev i))" "log_name args i"] by auto
  have w1: "files ?w1 ?p = Some (Raw (dev i))" by simp
  have r1: "ready_dirs base ?w1"
    using ready unfolding ready_dirs_def folders_to_def by auto
  have len: "int (length (dev i)) = n" using dev i by (simp add: device_answers_def)
  have cap: "capture_or_reuse env args base n i w = (Inr (Some (capture_time env i)), ?w1)"
    using free run by (simp add: capture_or_reuse_def capture_one_def Let_def io_bind_def io_run exists_at_def size_at_def)
  obtain w2 where cool: "cool_down args i ?w1 = (Inr (), w2)" "files w2 = files ?w1"
    using cool_down_files by blast
  have "\<exists>e. collect_run env args base n i w = (Inr e, w2)"
    using cap len cool(1) w1 read_raw_Raw [OF w1, of "c_docs env"]
    by (simp add: collect_run_def Let_def io_bind_def io_run size_at_def hash_file_def node_bytes_def del: fun_upd_apply)
  moreover have "ready_dirs base w2" using r1 cool(2) by (simp add: ready_dirs_def folders_to_def)
  ultimately show ?thesis using cool(2) w1 by auto
qed

lemma collect_runs_ok:
  assumes dev: "device_answers env args base n dev" and "set is \<subseteq> {1..nat (runs args)}" and "distinct is"
    and "ready_dirs base w" and "\<And>i. i \<in> set is \<Longrightarrow> files w (slice_at args base n i) = None"
  shows "\<exists>es w'. collect_runs env args base n is w = (Inr es, w') \<and> ready_dirs base w'
    \<and> (\<forall>i \<in> set is. files w' (slice_at args base n i) = Some (Raw (dev i)))"
  using assms(2-)
proof (induction "is" arbitrary: w)
  case Nil
  then show ?case by (simp add: io_run)
next
  case (Cons i "is")
  obtain e w1 where e: "collect_run env args base n i w = (Inr e, w1)" "ready_dirs base w1"
    "files w1 (slice_at args base n i) = Some (Raw (dev i))"
    using collect_run_ok [OF dev, of i w] Cons.prems by auto
  note only = device_writes_output [OF dev]
  have "io_rel (frame {slice_at args base n j |j. j \<in> set is}) (collect_run env args base n i)"
    using Cons.prems(2) by (intro frame_run only) (auto simp: slice_name_inject log_area_def)
  from io_rel_Inr [where m = "collect_run env args base n i", OF this e(1)]
  have "files w1 (slice_at args base n j) = None" if "j \<in> set is" for j
    using that Cons.prems(4) by (auto simp: frame_def)
  then obtain es w' where es: "collect_runs env args base n is w1 = (Inr es, w')" "ready_dirs base w'"
    "\<forall>i \<in> set is. files w' (slice_at args base n i) = Some (Raw (dev i))"
    using Cons.IH [of w1] Cons.prems e(2) by auto
  have "io_rel (frame {slice_at args base n i}) (collect_runs env args base n is)"
    using Cons.prems(2) by (intro frame_runs only) (auto simp: slice_name_inject log_area_def)
  from io_rel_Inr [where m = "collect_runs env args base n is", OF this es(1)]
  have "files w' (slice_at args base n i) = Some (Raw (dev i))" using e(3) by (simp add: frame_def)
  then show ?case using e(1) es by (auto simp: io_bind_def io_run)
qed

lemma finish_ok:
  assumes ready: "ready_dirs base w" and read: "\<And>e. e \<in> set es \<Longrightarrow> \<exists>b. read_raw (c_docs env) (slice_at args base n (e_run e)) w = (Inr b, w)"
  shows "\<exists>m w'. finish_dataset env args base n es w = (Inr m, w')"
proof -
  let ?agg = "base @ [''raw'', concat_name args n (length es)]"
  let ?ps = "map (\<lambda>e. slice_at args base n (e_run e)) es"
  let ?tmp = "tmp_of ?agg"
  let ?w1 = "w\<lparr>files := (files w)(?tmp \<mapsto> Raw [])\<rparr>"
  have tmp: "?tmp = base @ [''raw'', concat_name args n (length es) @ ''.tmp'']" by (rule tmp_of_concat)
  have out: "?tmp \<notin> set ?ps" "?tmp \<noteq> ?agg" using slice_not_concat(2) [symmetric] by (auto simp: tmp)
  have no: "files w ?tmp \<noteq> Some Folder" "files w ?agg \<noteq> Some Folder" using ready unfolding ready_dirs_def tmp by blast+
  define bs where "bs = map (\<lambda>e. result_value (fst (read_raw (c_docs env) (slice_at args base n (e_run e)) w))) es"
  have "list_all2 (\<lambda>p b. read_raw (c_docs env) p w = (Inr b, w)) ?ps bs"
    unfolding bs_def list_all2_conv_all_nth using read by (auto simp: result_value_def in_set_conv_nth) (metis fst_conv nth_mem sum.case(2))
  then have "list_all2 (\<lambda>p b. read_raw (c_docs env) p ?w1 = (Inr b, ?w1)) ?ps bs"
  proof (rule reads_keep)
    fix p assume "p \<in> set ?ps"
    then have "p \<noteq> ?tmp" using out(1) by metis
    then show "files ?w1 p = files w p" by simp
  qed
  from append_each [OF _ out(1) this, of "[]"]
  have each: "io_each (\<lambda>p. io_bind (read_raw (c_docs env) p) (append_node (c_docs env) ?tmp)) ?ps ?w1
      = (Inr (), ?w1\<lparr>files := (files ?w1)(?tmp \<mapsto> Raw (concat bs))\<rparr>)" by simp
  let ?w3 = "w\<lparr>files := (files w)(?tmp \<mapsto> Raw [], ?tmp \<mapsto> Raw (concat bs), ?agg \<mapsto> Raw (concat bs), ?tmp := None)\<rparr>"
  have w3: "files ?w3 ?agg = Some (Raw (concat bs))" using out(2) by simp
  have "concatenate env ?ps ?agg w = (Inr (hex_of (c_sha256 env (concat bs))), ?w3)"
    using no out(2) each read_raw_Raw [OF w3, of "c_docs env"]
    by (simp add: concatenate_def io_bind_def write_node_def replace_file_def hash_file_def io_run)
  moreover have "files ?w3 (base @ [x]) = files w (base @ [x])" for x by (simp add: tmp)
  ultimately show ?thesis
    using ready by (simp add: finish_dataset_def Let_def io_bind_def io_run size_at_def write_node_def ready_dirs_def tmp)
qed


section \<open>Nothing outside the dataset\<close>

definition outside :: "path \<Rightarrow> path set" where
  "outside base = {q. take (length base) q \<noteq> base \<and> q \<noteq> take (length q) base}"

lemma inside [simp]: "base @ q \<notin> outside base"
  by (simp add: outside_def)

lemma outside_dirs: "q \<in> outside base \<Longrightarrow> q \<noteq> take (length q) (base @ [x])"
  by (auto simp: outside_def take_Cons' split: if_splits)

lemma frame_finish:
  assumes "\<And>x. base @ [''raw'', x] \<notin> S" and "base @ [''manifest.json''] \<notin> S" and "base @ [''README.md''] \<notin> S"
  shows "io_rel (frame S) (finish_dataset env args base n es)"
proof -
  have rep: "p \<notin> S \<Longrightarrow> q \<notin> S \<Longrightarrow> io_rel (frame S) (replace_file p q)" for p q
    by (auto simp: io_rel_def frame_def replace_file_def)
  show ?thesis
    unfolding finish_dataset_def Let_def concatenate_def append_node_def hash_file_def tmp_of_concat
    by (intro framed.rel_bind framed.rel_each framed.rel_pure frame_size frame_read frame_write rep assms)
qed

text \<open>
  The commands the collector runs, and the relation of a step that changes the file at \<open>p\<close> only
  through one of them: the commands started meanwhile are its own, and if \<open>p\<close> has changed, one of
  them changed it.
\<close>

definition collector_command :: "collect_env \<Rightarrow> collect_args \<Rightarrow> path \<Rightarrow> string list \<Rightarrow> bool" where
  "collector_command env args base cmd \<longleftrightarrow>
     (\<exists>args' n. choose_port env args = Inr args' \<and> derive_bytes_per_run args = Inr n
        \<and> (cmd = build_command env args' n \<or> (\<exists>i. cmd = capture_command env args' (slice_at args' base n i) n)))"

definition changes :: "collect_env \<Rightarrow> nat \<Rightarrow> string list \<Rightarrow> path \<Rightarrow> bool" where
  "changes env k cmd p \<longleftrightarrow> (\<exists>e fs. snd (snd (spawn env k cmd e fs)) p \<noteq> fs p)"

definition blamed :: "collect_env \<Rightarrow> (string list \<Rightarrow> bool) \<Rightarrow> path \<Rightarrow> world \<Rightarrow> world \<Rightarrow> bool" where
  "blamed env C p v w \<longleftrightarrow> (\<exists>cs. commands w = commands v @ cs \<and> list_all C cs
     \<and> (files w p \<noteq> files v p \<longrightarrow> (\<exists>k < length cs. changes env (length (commands v) + k) (cs ! k) p)))"

lemma blamed_trans:
  assumes "blamed env C p u v" and "blamed env C p v w"
  shows "blamed env C p u w"
proof -
  obtain cs ds where cs: "commands v = commands u @ cs" "list_all C cs"
      "files v p \<noteq> files u p \<Longrightarrow> \<exists>k < length cs. changes env (length (commands u) + k) (cs ! k) p"
    and ds: "commands w = commands v @ ds" "list_all C ds"
      "files w p \<noteq> files v p \<Longrightarrow> \<exists>k < length ds. changes env (length (commands v) + k) (ds ! k) p"
    using assms unfolding blamed_def by blast
  have "\<exists>k < length (cs @ ds). changes env (length (commands u) + k) ((cs @ ds) ! k) p" if differ: "files w p \<noteq> files u p"
  proof (cases "files v p = files u p")
    case True
    then obtain k where "k < length ds" "changes env (length (commands v) + k) (ds ! k) p" using ds(3) differ True by metis
    then show ?thesis by (intro exI [of _ "length cs + k"]) (simp add: cs(1) nth_append add.assoc)
  next
    case False
    then show ?thesis using cs(3) by (metis length_append nth_append trans_less_add1)
  qed
  then show ?thesis using cs ds unfolding blamed_def by (intro exI [of _ "cs @ ds"]) simp
qed

interpretation blame: preorder_effect "blamed env C p" for env C p
  by unfold_locales (simp add: blamed_def, rule blamed_trans)

lemma blame_same: "(\<And>w. commands (snd (m w)) = commands w) \<Longrightarrow> io_rel (frame {p}) m \<Longrightarrow> io_rel (blamed env C p) m"
  by (simp add: io_rel_def frame_def blamed_def)

lemma mkdirs_commands: "commands (snd (mkdirs q w)) = commands w"
  by (simp add: mkdirs_def)

lemma blame_steps:
  "p \<noteq> take (length p) q \<Longrightarrow> io_rel (blamed env C p) (mkdirs q)"
  "p \<noteq> q \<Longrightarrow> io_rel (blamed env C p) (write_node q nd)"
  "p \<noteq> q \<Longrightarrow> p \<noteq> r \<Longrightarrow> io_rel (blamed env C p) (replace_file q r)"
  "io_rel (blamed env C p) (read_raw de q)" "io_rel (blamed env C p) (size_at de q)" "io_rel (blamed env C p) (exists_at q)"
  "io_rel (blamed env C p) (cool_down args i)"
  by (rule blame_same;
      auto simp: mkdirs_commands write_node_def replace_file_def read_raw_def io_bind_def open_read_def io_run size_at_def
        exists_at_def cool_down_def io_rel_def frame_def mkdirs_def split: option.split node.split)+

lemma blame_command:
  assumes "C cmd" and "p \<noteq> log_path" and "p \<noteq> take (length p) (parent log_path)"
  shows "io_rel (blamed env C p) (run_command env cmd log_path e)"
  unfolding run_command_def Let_def
proof (intro blame.rel_bind blame_steps assms(2,3))
  show "io_rel (blamed env C p) (\<lambda>w. case spawn env (length (commands w)) cmd e (files w) of (ret, out, fs) \<Rightarrow>
      (if ret \<noteq> 0 then Inl CalledProcessError else Inr (),
       w\<lparr>files := fs(log_path \<mapsto> Lines ((''[HOST_CMD] '' @ display_command cmd) # out)), commands := commands w @ [cmd]\<rparr>))" (is "io_rel _ ?f")
    unfolding io_rel_def
  proof
    fix w :: world
    obtain ret out fs where sp: "spawn env (length (commands w)) cmd e (files w) = (ret, out, fs)"
      by (metis prod_cases3)
    have "changes env (length (commands w)) cmd p" if "fs p \<noteq> files w p"
      using that sp unfolding changes_def by (intro exI [of _ e] exI [of _ "files w"]) simp
    then show "blamed env C p w (snd (?f w))" using assms(1,2) unfolding blamed_def by (intro exI [of _ "[cmd]"]) (auto simp: sp)
  qed
qed

lemma blame_log: "p \<in> outside base \<Longrightarrow> p \<noteq> base @ q"
  by auto

lemma blame_runs:
  assumes "p \<in> outside base" and "\<And>i. C (capture_command env args (slice_at args base n i) n)"
  shows "io_rel (blamed env C p) (collect_runs env args base n is)"
proof (induction "is")
  case (Cons i "is")
  have par: "parent (base @ [''logs'', x]) = base @ [''logs'']" for x by (cases base) (simp_all add: parent_def butlast_append)
  have "io_rel (blamed env C p) (run_command env (capture_command env args (slice_at args base n i) n) (base @ [''logs'', x]) e)" for x e
    using assms outside_dirs [OF assms(1)] by (intro blame_command) (auto simp: par blame_log)
  then have "io_rel (blamed env C p) (collect_run env args base n i)"
    unfolding collect_run_def capture_or_reuse_def capture_one_def hash_file_def Let_def
    by (intro blame.rel_bind blame.rel_if blame.rel_pure blame_steps)
  then show ?case using Cons by (auto intro!: blame.rel_bind blame.rel_pure)
qed (simp add: blame.rel_pure)

lemma blame_finish: "p \<in> outside base \<Longrightarrow> io_rel (blamed env C p) (finish_dataset env args base n es)"
  unfolding finish_dataset_def Let_def concatenate_def append_node_def hash_file_def tmp_of_concat
  by (intro blame.rel_bind blame.rel_each blame.rel_pure blame_steps blame_log)

lemma blame_main:
  assumes base: "base = c_resolved env (output_root args)" and p: "p \<in> outside base"
  shows "io_rel (blamed env (collector_command env args base) p) (collect_main env args)" (is "io_rel ?B _")
proof -
  have root: "choose_port env args = Inr args' \<Longrightarrow> c_resolved env (output_root args') = base" for args'
    by (auto simp: choose_port_def base split: if_splits sum.splits py_error.splits)
  have par: "parent (base @ [''logs'', x]) = base @ [''logs'']" for x by (cases base) (simp_all add: parent_def butlast_append)
  have body: "io_rel ?B
      (let base = c_resolved env (output_root args')
       in io_then (mkdirs (base @ [''raw'']))
            (io_then (mkdirs (base @ [''logs'']))
            (io_then (build_firmware env args' n (base @ [''logs'']))
            (io_bind (collect_runs env args' base n [1..<Suc (nat (runs args'))]) (finish_dataset env args' base n)))))"
    if d: "derive_bytes_per_run args = Inr n" "choose_port env args = Inr args'" for args' n
  proof -
    have "io_rel ?B (build_firmware env args' n (base @ [''logs'']))"
      using p d outside_dirs [OF p] unfolding build_firmware_def
      by (auto intro!: blame_command blame.rel_pure simp: collector_command_def par blame_log)
    moreover have "io_rel ?B (collect_runs env args' base n is)" for "is"
      by (rule blame_runs [OF p]) (use d in \<open>auto simp: collector_command_def\<close>)
    ultimately show ?thesis
      unfolding root [OF d(2)] Let_def by (intro blame.rel_bind blame_steps blame_finish p outside_dirs)
  qed
  have lift: "(\<And>x. r = Inr x \<Longrightarrow> io_rel ?B (f x)) \<Longrightarrow> io_rel ?B (io_bind (io_lift r) f)" for r and f :: "'x \<Rightarrow> (world, json) io"
    by (cases r) (simp_all add: io_rel_def io_bind_def io_run blame.refl)
  show ?thesis
    unfolding collect_main_def by (intro blame.rel_if blame.rel_pure lift body)
qed

section \<open>A fresh directory\<close>

definition fresh_root :: "path \<Rightarrow> world \<Rightarrow> bool" where
  "fresh_root base w \<longleftrightarrow> (\<forall>q. q \<noteq> [] \<longrightarrow> files w (base @ q) = None) \<and> can_mkdir w base"

lemma can_mkdir_snoc: "can_mkdir w base \<Longrightarrow> files w (base @ [x]) = None \<Longrightarrow> can_mkdir w (base @ [x])"
  unfolding can_mkdir_def by (auto simp: le_Suc_eq is_file_def)

lemma not_prefix: "x \<noteq> y \<Longrightarrow> base @ y # q \<noteq> take (length (base @ y # q)) (base @ [x])"
  by (auto simp: append_eq_conv_conj)

lemma fresh_dirs:
  assumes "fresh_root base w"
  obtains w1 w2 where "mkdirs (base @ [''raw'']) w = (Inr (), w1)" "mkdirs (base @ [''logs'']) w1 = (Inr (), w2)"
    "ready_dirs base w2" "\<And>x. files w2 (base @ [''raw'', x]) = None" "\<And>q. files w2 (base @ ''results'' # q) = None"
proof -
  have none: "files w (base @ x # q) = None" for x q using assms by (simp add: fresh_root_def)
  have c: "can_mkdir w base" using assms by (simp add: fresh_root_def)
  obtain w1 where w1: "mkdirs (base @ [''raw'']) w = (Inr (), w1)" "folders_to w1 (base @ [''raw''])"
    "\<And>q. q \<noteq> take (length q) (base @ [''raw'']) \<Longrightarrow> files w1 q = files w q" "commands w1 = commands w"
    using mkdirs_ok [OF can_mkdir_snoc [OF c none]] by blast
  have n1: "files w1 (base @ x # q) = None" if "x \<noteq> ''raw'' \<or> q \<noteq> []" for x q
    using w1(3) [of "base @ x # q"] that none not_prefix [of "''raw''" x base q] by (cases "x = ''raw''") (auto simp: append_eq_conv_conj)
  have "\<not> is_file (files w1 (take i (base @ [''logs''])))" if "i \<le> length (base @ [''logs''])" for i
  proof (cases "i \<le> length base")
    case True
    then have "files w1 (take i base) = Some Folder" using w1(2) by (simp add: folders_to_def) (metis le_SucI take_append take_0 append_Nil2 diff_is_0_eq)
    with True show ?thesis by (simp add: is_file_def)
  next
    case False
    with that have "take i (base @ [''logs'']) = base @ [''logs'']" by simp
    then show ?thesis using n1 [of "''logs''" "[]"] by (simp add: is_file_def)
  qed
  then have "can_mkdir w1 (base @ [''logs''])" by (simp add: can_mkdir_def)
  from mkdirs_ok [OF this] obtain w2 where w2: "mkdirs (base @ [''logs'']) w1 = (Inr (), w2)" "folders_to w2 (base @ [''logs''])"
    "\<And>q. q \<noteq> take (length q) (base @ [''logs'']) \<Longrightarrow> files w2 q = files w1 q" "commands w2 = commands w1" by blast
  have n2: "files w2 (base @ x # q) = None" if "x \<notin> {''raw'', ''logs''} \<or> q \<noteq> []" for x q
    using w2(3) [of "base @ x # q"] that n1 [of x q] not_prefix [of "''logs''" x base q] by (cases "x = ''logs''") (auto simp: append_eq_conv_conj)
  show ?thesis
    by (rule that [OF w1(1) w2(1)]) (use n2 w2(2) in \<open>auto simp: ready_dirs_def\<close>)
qed


lemma completes:
  assumes size: "derive_bytes_per_run args = Inr n" "0 < n" "0 < runs args" and cond: "condition args = ''wifi_idle''"
    and port: "port args \<noteq> ''auto''" and base: "base = c_resolved env (output_root args)"
    and dev: "device_answers env args base n dev" and fresh: "fresh_root base w"
    and docs: "docs senv = c_docs env" "sha256 senv = c_sha256 env"
  shows "\<exists>d w'. collect_main env args w = (Inr (JObj d), w') \<and> dataset_of senv args base n w' d (map dev [1..<Suc (nat (runs args))])
    \<and> folders_to w' (base @ [''logs'']) \<and> (\<forall>q. files w' (base @ ''results'' # q) = None)"
proof -
  let ?is = "[1..<Suc (nat (runs args))]"
  obtain w1 w2 where w: "mkdirs (base @ [''raw'']) w = (Inr (), w1)" "mkdirs (base @ [''logs'']) w1 = (Inr (), w2)"
    "ready_dirs base w2" "\<And>x. files w2 (base @ [''raw'', x]) = None" "\<And>q. files w2 (base @ ''results'' # q) = None"
    by (rule fresh_dirs [OF fresh]) (rule that)
  have "\<exists>w3. build_firmware env args n (base @ [''logs'']) w2 = (Inr (), w3) \<and> ready_dirs base w3
      \<and> (\<forall>x. files w3 (base @ [''raw'', x]) = None) \<and> (\<forall>q. files w3 (base @ ''results'' # q) = None)"
  proof (cases "skip_build args")
    case True
    then show ?thesis using w by (simp add: build_firmware_def io_run)
  next
    case False
    let ?e = "Some (set_optional ''WIFI_PASS'' (wifi_pass args) (set_optional ''WIFI_SSID'' (wifi_ssid args) (os_environ env)))"
    let ?c = "build_command env args n"
    have "\<exists>out. spawn env (length (commands w2)) ?c ?e fs = (0, out, fs)" for fs
      using dev False by (simp add: device_answers_def)
    then obtain h out where "run_command env ?c (base @ [''logs'', ''build_flash.log'']) ?e w2 =
        (Inr (), w2\<lparr>files := (files w2)(base @ [''logs'', ''build_flash.log''] \<mapsto> Lines [h],
           base @ [''logs'', ''build_flash.log''] \<mapsto> Lines (h # out)), commands := commands w2 @ [?c]\<rparr>)" (is "_ = (Inr (), ?w3)")
      using run_command_ok [OF w(3), of env ?c ?e "\<lambda>fs. fs" "''build_flash.log''"] by auto
    moreover have "ready_dirs base ?w3" using w(3) unfolding ready_dirs_def folders_to_def by auto
    ultimately show ?thesis using False w(4,5) by (simp add: build_firmware_def)
  qed
  then obtain w3 where w3: "build_firmware env args n (base @ [''logs'']) w2 = (Inr (), w3)" "ready_dirs base w3"
    "\<And>x. files w3 (base @ [''raw'', x]) = None" "\<And>q. files w3 (base @ ''results'' # q) = None" by blast
  obtain es w4 where es: "collect_runs env args base n ?is w3 = (Inr es, w4)" "ready_dirs base w4"
    "\<forall>i \<in> set ?is. files w4 (slice_at args base n i) = Some (Raw (dev i))"
    using collect_runs_ok [OF dev _ _ w3(2), of ?is] w3(3) by (force simp del: upt_Suc)
  obtain bs where bs: "length bs = length ?is" "length es = length ?is"
    "\<forall>j < length ?is. entry_ok env args base n w4 (?is ! j) (es ! j) (bs ! j)"
    using collect_runs_entries [OF device_writes_output [OF dev] _ es(1)] by (auto simp del: upt_Suc)
  have eq: "bs = map dev ?is"
  proof (rule nth_equalityI)
    fix j assume "j < length bs"
    then have j: "j < length ?is" using bs(1) by simp
    then have "files w4 (slice_at args base n (?is ! j)) = Some (Raw (dev (?is ! j)))" using es(3) nth_mem by blast
    then show "bs ! j = map dev ?is ! j"
      using bs(3) [rule_format, OF j] j by (auto simp: entry_ok_def read_raw_Inr node_bytes_def simp del: upt_Suc)
  qed (simp add: bs(1))
  have "\<exists>b. read_raw (c_docs env) (slice_at args base n (e_run e)) w4 = (Inr b, w4)" if "e \<in> set es" for e
    using that bs by (auto simp: in_set_conv_nth entry_ok_def simp del: upt_Suc)
  from finish_ok [OF es(2) this] obtain m w' where fin: "finish_dataset env args base n es w4 = (Inr m, w')" by blast
  have main: "collect_main env args w = (Inr m, w')"
    unfolding collect_main_def using size port w(1,2) w3(1) es(1) fin
    by (simp add: io_bind_def io_run choose_port_def Let_def base [symmetric] del: upt_Suc One_nat_def)
  have "entry_ok env args base n w4 (j + 1) (es ! j) (bs ! j)" if "j < length bs" for j
    using bs(1,3) that by (auto simp del: upt_Suc)
  moreover have "runs args = int (length bs)" "length es = length bs" using bs(1,2) size(3) by simp_all
  moreover from this have "bs \<noteq> []" using size(3) by auto
  ultimately obtain d where "m = JObj d" "dataset_of senv args base n w' d bs"
    using finish_dataset_of [OF fin cond size(2) _ _ _ _ docs, of bs] by blast
  moreover have "folders_to w' (base @ [''logs''])"
  proof -
    have "io_rel (frame {take i (base @ [''logs'']) |i. True}) (finish_dataset env args base n es)"
      by (rule frame_finish) (auto simp: take_Cons' dest!: arg_cong [where f = length])
    from io_rel_Inr [where m = "finish_dataset env args base n es", OF this fin]
    have "files w' (take i (base @ [''logs''])) = files w4 (take i (base @ [''logs'']))" for i
      unfolding frame_def by blast
    then show ?thesis using es(2) unfolding folders_to_def ready_dirs_def by metis
  qed
  moreover have "files w' (base @ ''results'' # q) = None" for q
  proof -
    let ?S = "{base @ ''results'' # q}"
    have "io_rel (frame ?S) (finish_dataset env args base n es)" by (rule frame_finish) auto
    from io_rel_Inr [where m = "finish_dataset env args base n es", OF this fin]
    have "files w' (base @ ''results'' # q) = files w4 (base @ ''results'' # q)" by (simp add: frame_def)
    moreover have "io_rel (frame ?S) (collect_runs env args base n ?is)"
      by (rule frame_runs [OF device_writes_output [OF dev]]) (auto simp: log_area_def)
    from io_rel_Inr [where m = "collect_runs env args base n ?is", OF this es(1)]
    have "files w4 (base @ ''results'' # q) = files w3 (base @ ''results'' # q)" by (simp add: frame_def)
    ultimately show ?thesis using w3(4) by simp
  qed
  ultimately show ?thesis using main unfolding eq by blast
qed

lemma ready_after:
  assumes "folders_to w (base @ [''logs''])" and "\<And>q. files w (base @ ''results'' # q) = None"
    and "results_dir senv aargs = base @ [''results'']" and "\<not> want_randlab aargs"
  shows "report_ready senv aargs w"
proof -
  have "\<not> is_file (files w (take i (base @ [''results''])))" if "i \<le> length (base @ [''results''])" for i
  proof (cases "i \<le> length base")
    case True
    then have "i \<le> length (base @ [''logs''])" by simp
    then have "files w (take i (base @ [''logs''])) = Some Folder" using assms(1) unfolding folders_to_def by blast
    with True show ?thesis by (simp add: is_file_def)
  next
    case False
    with that have "take i (base @ [''results'']) = base @ [''results'']" by simp
    then show ?thesis using assms(2) [of "[]"] by (simp add: is_file_def)
  qed
  then show ?thesis using assms(2-4) by (auto simp: report_ready_def can_mkdir_def Let_def)
qed

section \<open>The claims\<close>

text \<open>
  C6: Whenever the collector returns, whatever was captured now and whatever was reused, its
  directory is a complete dataset: one slice per requested run, each of the announced size, the
  aggregate their concatenation in run order (of the requested total size, where one was given),
  and the manifest has the paths and digests that the analysis will find.
\<close>

theorem collected_dataset:
  assumes "collect_main env args w = (Inr m, w')" and "condition args = ''wifi_idle''" and "port args \<noteq> ''auto''"
    and "base = c_resolved env (output_root args)" and "derive_bytes_per_run args = Inr n"
    and "capture_writes_output env args base n" and "docs senv = c_docs env" and "sha256 senv = c_sha256 env"
  shows "\<exists>d datas. m = JObj d \<and> dataset_of senv args base n w' d datas
    \<and> (\<forall>t. total_bytes args = Some t \<longrightarrow> int (length (concat datas)) = t)"
proof -
  obtain d datas where d: "m = JObj d" "dataset_of senv args base n w' d datas" using collected [OF assms] by blast
  have total: "\<forall>b \<in> set bs. int (length b) = k \<Longrightarrow> int (length (concat bs)) = k * int (length bs)" for bs :: "bytes list" and k
    by (induction bs) (auto simp: algebra_simps)
  have "\<forall>b \<in> set datas. int (length b) = n" "int (length datas) = runs args" using d(2) unfolding dataset_of_def by blast+
  then have "int (length (concat datas)) = n * runs args" using total [of datas n] by simp
  moreover have "n * runs args = t" if "total_bytes args = Some t" for t
    using assms(5) that by (auto simp: derive_bytes_per_run_def split: if_splits option.splits)
  ultimately show ?thesis using d by auto
qed

text \<open>One run of two bytes on a fresh disk.\<close>

definition demo_collect_args :: collect_args where
  "demo_collect_args =
     \<lparr>port = ''p'', baud = 921600, runs = 1, bytes_per_run = None, total_bytes = Some 2, output_root = [''/'', ''d''],
      condition = ''wifi_idle'', wifi_ssid = None, wifi_pass = None, board = None, build_dir = None, raw_delay_ms = 1000,
      startup_timeout = 90, progress_interval = 30, drain_seconds = 0, post_drain_seconds = 1, cooldown_seconds = 1,
      skip_build = True, no_flash = False, clean_build = False, resume = False\<rparr>"

definition demo_collect_env :: collect_env where
  "demo_collect_env =
     \<lparr>c_docs = docs demo_slice_env, c_sha256 = rev, c_resolved = (\<lambda>p. p), project_root = [''/'', ''s''], python_exe = ''python'',
      os_environ = [], glob_ports = [], listed_ports = [], started_at = [], finished_at = [], collected_at = [],
      capture_time = (\<lambda>_. 3),
      spawn = (\<lambda>k cmd e fs. (0, [], if hd cmd = ''python'' then fs(path_of (cmd ! 10) \<mapsto> Raw [3, 4]) else fs))\<rparr>"

definition demo_disk :: world where
  "demo_disk = \<lparr>files = (\<lambda>_. None), commands = [], slept = []\<rparr>"

lemma demo_output: "path_of (path_str (slice_at demo_collect_args [''/'', ''d''] 2 i)) = slice_at demo_collect_args [''/'', ''d''] 2 i"
  using split_on_join [of "[[], ''d'', ''raw'', slice_name demo_collect_args 2 i]" "CHR ''/''"]
    slice_name_char [of demo_collect_args 2 i]
  by (simp add: path_str_def is_absolute_def path_of_def startswith_def demo_collect_args_def)

lemma demo_device: "device_answers demo_collect_env demo_collect_args [''/'', ''d''] 2 (\<lambda>_. [3, 4])"
  using demo_output by (simp add: device_answers_def demo_collect_env_def capture_command_def Let_def)
    (simp add: demo_collect_args_def)

lemma demo_fresh: "fresh_root [''/'', ''d''] demo_disk"
  by (simp add: fresh_root_def demo_disk_def can_mkdir_def is_file_def)

lemma demo_args: "derive_bytes_per_run demo_collect_args = Inr 2" "condition demo_collect_args = ''wifi_idle''"
  "port demo_collect_args \<noteq> ''auto''" "runs demo_collect_args = 1" "output_root demo_collect_args = [''/'', ''d'']"
  "c_resolved demo_collect_env = (\<lambda>p. p)" "docs demo_slice_env = c_docs demo_collect_env"
  "sha256 demo_slice_env = c_sha256 demo_collect_env" "total_bytes demo_collect_args = Some 2"
  by (simp_all add: demo_collect_args_def demo_collect_env_def demo_slice_env_def derive_bytes_per_run_def)

lemma demo_collected:
  "\<exists>d w'. collect_main demo_collect_env demo_collect_args demo_disk = (Inr (JObj d), w')
     \<and> dataset_of demo_slice_env demo_collect_args [''/'', ''d''] 2 w' d [[3, 4]]"
  using completes [OF demo_args(1) _ _ demo_args(2,3) _ demo_device demo_fresh demo_args(7,8)] unfolding demo_args by auto

theorem collected_dataset_witness:
  "\<exists>d datas w'. collect_main demo_collect_env demo_collect_args demo_disk = (Inr (JObj d), w') \<and> length (concat datas) = 2
     \<and> dataset_of demo_slice_env demo_collect_args [''/'', ''d''] 2 w' d datas"
proof -
  obtain d w' where w': "collect_main demo_collect_env demo_collect_args demo_disk = (Inr (JObj d), w')"
    using demo_collected by blast
  then show ?thesis
    using collected_dataset [OF w' demo_args(2,3) _ demo_args(1) device_writes_output [OF demo_device] demo_args(7,8)]
    by (auto simp: demo_args)
qed

text \<open>
  C1: With a fresh dataset directory and a device that gives every capture its bytes, the
  collection completes, and the analysis of what it left completes as well: its rows, digests and
  figures are those of the bytes the device gave, in the order of the runs.
\<close>

theorem collection_then_analysis:
  assumes "derive_bytes_per_run args = Inr n" and "0 < n" and "0 < runs args" and "condition args = ''wifi_idle''"
    and "port args \<noteq> ''auto''" and "base = c_resolved env (output_root args)"
    and "device_answers env args base n dev" and "fresh_root base w"
    and "docs senv = c_docs env" and "sha256 senv = c_sha256 env" and "base = resolved senv (dataset_root aargs)"
    and "results_dir senv aargs = base @ [''results'']" and "\<not> want_randlab aargs"
  shows "\<exists>d w1 s w2. collect_main env args w = (Inr (JObj d), w1) \<and> analyze_main senv aargs w1 = (Inr s, w2)
    \<and> report_of senv aargs base (JObj d) (map dev [1..<Suc (nat (runs args))]) (min (prefix_bytes aargs) n) w1 s w2"
proof -
  obtain d w1 where d: "collect_main env args w = (Inr (JObj d), w1)"
    "dataset_of senv args base n w1 d (map dev [1..<Suc (nat (runs args))])"
    and ready: "report_ready senv aargs w1"
    using ready_after [OF _ _ assms(12,13)] completes [OF assms(1-8) assms(9,10)] by blast
  then have "dict_get d ''bytes_per_run'' = Some (JInt n)" "dict_get d ''aggregate_bytes'' = Some (JInt (n * runs args))"
    "dataset_at senv w1 base d (map (slice_at args base n) [1..<Suc (length (map dev [1..<Suc (nat (runs args))]))])
       (map dev [1..<Suc (nat (runs args))]) (base @ [''raw'', concat_name args n (length (map dev [1..<Suc (nat (runs args))]))])"
    by (simp_all add: dataset_of_def del: upt_Suc)
  from analysis_reports [OF this(3) assms(11) this(1,2) ready] d(1) show ?thesis by blast
qed

text \<open>The demonstration run, collected and analysed.\<close>

theorem collection_then_analysis_witness:
  "\<exists>d w1 s w2. collect_main demo_collect_env demo_collect_args demo_disk = (Inr (JObj d), w1)
     \<and> analyze_main demo_slice_env demo_slice_args w1 = (Inr s, w2)
     \<and> report_of demo_slice_env demo_slice_args [''/'', ''d''] (JObj d) [[3, 4]] 2 w1 s w2"
  using collection_then_analysis [OF demo_args(1) _ _ demo_args(2,3) _ demo_device demo_fresh demo_args(7,8), of demo_slice_args]
  by (simp add: demo_args) (simp add: demo_slice_env_def demo_slice_args_def results_dir_def)



end
