(* ===== verification/BinaryCapture.thy ===== *)
theory BinaryCapture
  imports RebootCollect "HOL-Library.Sublist"
begin

text \<open>
  The capture of a raw dump from the serial port (\<open>capture_binary.py\<close>): argument checks, opening
  and resetting the board, the scan of the console for the start marker with the trigger sent to
  an armed device, the collection of the bytes, and the UDP burst sender. The port is the list of
  what each read returned, an empty read being a timeout, with the clock before and after it is
  handled; when the list ends the program is still reading. The output file is one that can be written, and
  what is printed and the interruption by the user are left out.
\<close>

section \<open>Arguments\<close>

record capture_args =
  ca_port :: string
  ca_bytes :: "int option"
  ca_reset :: bool
  ca_startup_timeout :: real
  ca_drain_seconds :: real
  ca_udp_burst :: bool
  ca_target_ip :: "string option"
  ca_udp_port :: int
  ca_payload_bytes :: int
  ca_udp_byte :: string
  ca_interval_us :: int

definition DEFAULT_BYTES :: int where "DEFAULT_BYTES = 268435456"

definition parse_udp_byte :: "string \<Rightarrow> int result" where
  "parse_udp_byte v =
     rbind (py_int_base 0 v) (\<lambda>n. if n < 0 \<or> n > 255 then Inl ValueError else Inr n)"

text \<open>The same search as the collector's.\<close>

definition detect_serial_port :: "string list \<Rightarrow> string list \<Rightarrow> string result" where
  "detect_serial_port globbed listed = RebootCollect.detect_serial_port globbed listed"

text \<open>The checks before the port is opened: the port and the payload byte, or exit status 1.\<close>

definition check_args :: "string list \<Rightarrow> string list \<Rightarrow> capture_args \<Rightarrow> (string \<times> int) option" where
  "check_args globbed listed args =
     (case (if ca_port args = ''auto'' then detect_serial_port globbed listed else Inr (ca_port args)) of
        Inl _ \<Rightarrow> None
      | Inr p \<Rightarrow>
          (case parse_udp_byte (ca_udp_byte args) of
             Inl _ \<Rightarrow> None
           | Inr b \<Rightarrow>
               if ca_udp_port args \<le> 0 \<or> ca_udp_port args > 65535 then None
               else if ca_payload_bytes args \<le> 0 \<or> ca_payload_bytes args > 1400 then None
               else if ca_interval_us args \<le> 0 then None
               else Some (p, b)))"

section \<open>Opening the port\<close>

datatype port_op = Dtr bool | Rts bool | Pause real | Read_Waiting nat | Timeout real | Reset_Input

definition reset_esp32 :: "port_op list" where
  "reset_esp32 = [Reset_Input, Dtr False, Rts False, Pause (5 / 100), Rts True, Pause (1 / 10), Rts False]"

text \<open>
  Draining, over what the clock and \<open>in_waiting\<close> say in each pass: what is waiting is read and
  dropped until the time is over, and then the buffer is emptied.
\<close>

fun drain_passes :: "real \<Rightarrow> (real \<times> nat) list \<Rightarrow> port_op list" where
  "drain_passes deadline [] = []"
| "drain_passes deadline ((now, waiting) # ps) =
     (if now < deadline then (if waiting > 0 then Read_Waiting waiting else Pause (1 / 100)) # drain_passes deadline ps else [])"

definition drain_input :: "real \<Rightarrow> real \<Rightarrow> real \<Rightarrow> (real \<times> nat) list \<Rightarrow> port_op list" where
  "drain_input timeout start seconds passes =
     Timeout 0 # drain_passes (start + seconds) passes @ [Timeout timeout, Reset_Input]"

definition open_port :: "capture_args \<Rightarrow> real \<Rightarrow> (real \<times> nat) list \<Rightarrow> port_op list" where
  "open_port args start passes =
     [Dtr False, Rts False, Pause (5 / 100), Reset_Input]
     @ (if ca_drain_seconds args > 0 then drain_input 5 start (ca_drain_seconds args) passes else [])
     @ (if ca_reset args then reset_esp32 else [])"

section \<open>Lines of the console\<close>

definition marker :: bytes where "marker = ascii_bytes ''[BENCH_RAW_START]''"

definition armed_marker :: bytes where "armed_marker = ascii_bytes ''[BENCH_RAW_ARMED]''"

definition meta_prefix :: bytes where "meta_prefix = ascii_bytes ''[BENCH_META] raw_dump_bytes,''"

definition byte_strip :: "bytes \<Rightarrow> bytes" where
  "byte_strip bs =
     (let sp = (\<lambda>b. is_ascii_space (byte_char b)) in rev (dropWhile sp (rev (dropWhile sp bs))))"

text \<open>\<open>while b\"\\n\" in buf: line, _, buf = buf.partition(b\"\\n\")\<close>.\<close>

fun cut_lines :: "bytes \<Rightarrow> bytes \<Rightarrow> bytes list \<times> bytes" where
  "cut_lines acc [] = ([], rev acc)"
| "cut_lines acc (b # bs) =
     (if b = 10 then (case cut_lines [] bs of (ls, r) \<Rightarrow> (rev acc # ls, r)) else cut_lines (b # acc) bs)"

text \<open>The expression \<open>((?:\\d{1,3}\\.){3}\\d{1,3})\<close>, searched from the left.\<close>

definition digit_byte :: "byte \<Rightarrow> bool" where
  "digit_byte b = (48 \<le> unat b \<and> unat b \<le> 57)"

definition octet_dot :: "bytes \<Rightarrow> (bytes \<times> bytes) option" where
  "octet_dot bs =
     (let ds = takeWhile digit_byte bs; r = dropWhile digit_byte bs
      in if 1 \<le> length ds \<and> length ds \<le> 3 \<and> r \<noteq> [] \<and> hd r = 46 then Some (ds @ [46], tl r) else None)"

definition ipv4_here :: "bytes \<Rightarrow> bytes option" where
  "ipv4_here bs =
     (case octet_dot bs of None \<Rightarrow> None | Some (a, r) \<Rightarrow>
     (case octet_dot r of None \<Rightarrow> None | Some (b, r) \<Rightarrow>
     (case octet_dot r of None \<Rightarrow> None | Some (c, r) \<Rightarrow>
        let d = take 3 (takeWhile digit_byte r) in if d = [] then None else Some (a @ b @ c @ d))))"

fun ipv4_search :: "bytes \<Rightarrow> bytes option" where
  "ipv4_search [] = None"
| "ipv4_search (b # bs) = (case ipv4_here (b # bs) of Some m \<Rightarrow> Some m | None \<Rightarrow> ipv4_search bs)"

definition extract_ipv4_from_line :: "bytes \<Rightarrow> string option" where
  "extract_ipv4_from_line line =
     (if \<not> contains line (ascii_bytes ''IPv4'') then None else map_option (map byte_char) (ipv4_search line))"

text \<open>\<open>int(line.rsplit(b\",\", 1)[1])\<close> of bytes.\<close>

definition last_field :: "bytes \<Rightarrow> int result" where
  "last_field line =
     (let f = rev (takeWhile (\<lambda>b. b \<noteq> 44) (rev line))
      in if list_all (\<lambda>b. unat b < 128) f then py_int (map byte_char f) else Inl ValueError)"

section \<open>Scanning for the marker\<close>

record scan =
  s_buf :: bytes
  s_bytes :: "int option"
  s_ipv4 :: "string option"
  s_armed :: bool
  s_trigger :: bool
  s_last :: real
  s_waiting :: bool
  s_sender :: "string option"
  s_sent :: "bytes list"

definition truthy :: "string option \<Rightarrow> string option" where
  "truthy v = (case v of Some s \<Rightarrow> if s = [] then None else Some s | None \<Rightarrow> None)"

definition or_else :: "string option \<Rightarrow> string option \<Rightarrow> string option" where
  "or_else a b = (case truthy a of Some s \<Rightarrow> Some s | None \<Rightarrow> b)"

definition begin_scan :: "capture_args \<Rightarrow> scan" where
  "begin_scan args =
     \<lparr>s_buf = [], s_bytes = None, s_ipv4 = ca_target_ip args, s_armed = False, s_trigger = False, s_last = 0,
      s_waiting = False, s_sender = None, s_sent = []\<rparr>"

definition scan_line :: "bytes \<Rightarrow> scan \<Rightarrow> scan" where
  "scan_line raw st =
     (let line = byte_strip raw;
          st1 = (case extract_ipv4_from_line line of None \<Rightarrow> st | Some ip \<Rightarrow> st\<lparr>s_ipv4 := or_else (s_ipv4 st) (Some ip)\<rparr>);
          st2 = (if take (length meta_prefix) line = meta_prefix
                 then (case last_field line of Inr n \<Rightarrow> st1\<lparr>s_bytes := Some n\<rparr> | Inl _ \<Rightarrow> st1) else st1)
      in if take (length armed_marker) line = armed_marker then st2\<lparr>s_armed := True\<rparr> else st2)"

text \<open>The trigger; the flag says that the pass ends here (\<open>continue\<close>).\<close>

definition send_trigger :: "real \<Rightarrow> scan \<Rightarrow> scan" where
  "send_trigger after st = st\<lparr>s_sent := s_sent st @ [ascii_bytes ''G''], s_trigger := True, s_last := after\<rparr>"

definition try_trigger :: "capture_args \<Rightarrow> real \<Rightarrow> real \<Rightarrow> scan \<Rightarrow> bool \<times> scan" where
  "try_trigger args now after st =
     (if s_armed st \<and> \<not> s_trigger st \<and> now - s_last st > 1 / 4 then
        (if ca_udp_burst args then
           (case truthy (or_else (ca_target_ip args) (s_ipv4 st)) of
              None \<Rightarrow> (True, st\<lparr>s_waiting := True, s_last := after\<rparr>)
            | Some ip \<Rightarrow> (False, send_trigger after (if s_sender st = None then st\<lparr>s_sender := Some ip\<rparr> else st)))
         else (False, send_trigger after st))
      else (False, st))"

definition trim :: "scan \<Rightarrow> scan" where
  "trim st =
     (if length (s_buf st) > 4096 then st\<lparr>s_buf := drop (length (s_buf st) - length marker) (s_buf st)\<rparr> else st)"

text \<open>What follows the marker in the buffer, less the line end that directly follows.\<close>

definition after_marker :: "bytes \<Rightarrow> bytes" where
  "after_marker buf = dropWhile (\<lambda>b. b = 13 \<or> b = 10) (after_first marker buf)"

definition scan_data :: "capture_args \<Rightarrow> real \<Rightarrow> real \<Rightarrow> bytes \<Rightarrow> scan \<Rightarrow> scan" where
  "scan_data args now after data st =
     (let st1 = st\<lparr>s_buf := s_buf st @ data\<rparr>;
          st2 = (if contains (s_buf st1) armed_marker then st1\<lparr>s_armed := True\<rparr> else st1)
      in (case cut_lines [] (s_buf st2) of (lines, rest) \<Rightarrow>
            let st3 = (fold scan_line lines st2)\<lparr>s_buf := rest\<rparr>
            in (case try_trigger args now after st3 of (skip, st4) \<Rightarrow> if skip then st4 else trim st4)))"

type_synonym reading = "bytes \<times> real \<times> real"

datatype scan_end = Waiting scan | No_Output | Started scan bytes "reading list"

fun scan_loop :: "capture_args \<Rightarrow> real \<Rightarrow> reading list \<Rightarrow> scan \<Rightarrow> scan_end" where
  "scan_loop args start [] st = Waiting st"
| "scan_loop args start ((data, now, after) # rs) st =
     (if data = [] then
        (if now - start > ca_startup_timeout args then No_Output else scan_loop args start rs st)
      else if contains (s_buf st @ data) marker then Started (st\<lparr>s_buf := s_buf st @ data\<rparr>) (after_marker (s_buf st @ data)) rs
      else scan_loop args start rs (scan_data args now after data st))"

section \<open>Collecting\<close>

text \<open>\<open>xs[:n]\<close>; a negative \<open>n\<close> counts from the end.\<close>

definition slice_to :: "int \<Rightarrow> 'a list \<Rightarrow> 'a list" where
  "slice_to n xs = (if n < 0 then take (length xs - nat (- n)) xs else take (nat n) xs)"

definition target_bytes :: "capture_args \<Rightarrow> scan \<Rightarrow> int" where
  "target_bytes args st =
     (case ca_bytes args of Some n \<Rightarrow> n
      | None \<Rightarrow> (case s_bytes st of Some n \<Rightarrow> if n \<noteq> 0 then n else DEFAULT_BYTES | None \<Rightarrow> DEFAULT_BYTES))"

datatype collected = Complete bytes "reading list" | Gave_Up bytes | Reading bytes

fun collect :: "int \<Rightarrow> bytes \<Rightarrow> nat \<Rightarrow> reading list \<Rightarrow> collected" where
  "collect target out timeouts rs =
     (if int (length out) \<ge> target then Complete out rs
      else (case rs of
              [] \<Rightarrow> Reading out
            | (data, _) # rs' \<Rightarrow>
                (if data = [] then (if timeouts + 1 \<ge> 3 then Gave_Up out else collect target out (timeouts + 1) rs')
                 else collect target (out @ data) 0 rs')))"

declare collect.simps [simp del]

text \<open>The size of the next read.\<close>

definition read_size :: "int \<Rightarrow> nat \<Rightarrow> int" where
  "read_size target n = min 65536 (target - int n)"

section \<open>The run\<close>

text \<open>
  \<open>Saved\<close>: the file after success or after an error that was printed; both leave the program with
  exit status 0. \<open>Failed\<close>: exit status 1 and no file.
\<close>

datatype capture_end = Failed | Saved bool bytes | Unfinished

definition capture_main ::
    "string list \<Rightarrow> string list \<Rightarrow> capture_args \<Rightarrow> bool \<Rightarrow> real \<Rightarrow> reading list \<Rightarrow> capture_end" where
  "capture_main globbed listed args opens start rs =
     (case check_args globbed listed args of
        None \<Rightarrow> Failed
      | Some _ \<Rightarrow>
          (if \<not> opens then Failed
           else (case scan_loop args start rs (begin_scan args) of
                   Waiting _ \<Rightarrow> Unfinished
                 | No_Output \<Rightarrow> Failed
                 | Started st initial rest \<Rightarrow>
                     (let target = target_bytes args st
                      in (case collect target (slice_to target initial) 0 rest of
                            Complete out _ \<Rightarrow> Saved True out | Gave_Up out \<Rightarrow> Saved False out | Reading _ \<Rightarrow> Unfinished)))))"

definition exit_status :: "capture_end \<Rightarrow> int option" where
  "exit_status e = (case e of Failed \<Rightarrow> Some 1 | Saved _ _ \<Rightarrow> Some 0 | Unfinished \<Rightarrow> None)"

text \<open>The log lines printed after the capture.\<close>

fun post_lines :: "bytes \<Rightarrow> bytes list \<Rightarrow> string list" where
  "post_lines buf [] = []"
| "post_lines buf (data # ds) =
     (case cut_lines [] (buf @ data) of (lines, rest) \<Rightarrow>
        map decode_utf8 (filter (\<lambda>l. take 1 l = ascii_bytes ''['') (map byte_strip lines)) @ post_lines rest ds)"

definition drain_post_capture_logs :: "real \<Rightarrow> bytes list \<Rightarrow> string list" where
  "drain_post_capture_logs seconds ds = (if seconds \<le> 0 then [] else post_lines [] ds)"

section \<open>The UDP burst sender\<close>

record sender =
  u_packets :: nat
  u_bytes :: nat
  u_errors :: nat
  u_next :: real

definition sender_payload :: "int \<Rightarrow> int \<Rightarrow> bytes" where
  "sender_payload byte n = replicate (nat n) (byte_of_nat (nat byte))"

text \<open>One pass: what \<open>sendto\<close> returned or None for an OSError, the clock, and the wait that follows.\<close>

definition sender_pass :: "real \<Rightarrow> nat option \<times> real \<times> real \<Rightarrow> sender \<Rightarrow> real \<times> sender" where
  "sender_pass interval ev s =
     (case ev of (sent, now, now') \<Rightarrow>
        let s1 = (case sent of Some n \<Rightarrow> s\<lparr>u_packets := u_packets s + 1, u_bytes := u_bytes s + n\<rparr>
                  | None \<Rightarrow> s\<lparr>u_errors := u_errors s + 1\<rparr>);
            next' = u_next s1 + interval
        in if next' - now > 0 then (next' - now, s1\<lparr>u_next := next'\<rparr>) else (0, s1\<lparr>u_next := now'\<rparr>))"

fun sender_run :: "real \<Rightarrow> (nat option \<times> real \<times> real) list \<Rightarrow> sender \<Rightarrow> sender" where
  "sender_run interval [] s = s"
| "sender_run interval (e # es) s = sender_run interval es (snd (sender_pass interval e s))"

section \<open>No marker is missed\<close>

lemma find_sub_skip:
  "(\<And>i. i < length d \<Longrightarrow> take (length p) (drop i (d @ x)) \<noteq> p)
    \<Longrightarrow> find_sub p (d @ x) = map_option ((+) (length d)) (find_sub p x)"
proof (induction d)
  case (Cons c d)
  have "take (length p) (drop i (d @ x)) \<noteq> p" if "i < length d" for i
    using Cons.prems [of "Suc i"] that by simp
  moreover have "take (length p) (c # d @ x) \<noteq> p" using Cons.prems [of 0] by simp
  ultimately show ?case using Cons.IH by (cases "find_sub p x") auto
qed (cases "find_sub p x", auto)

lemma contains_at: "contains s p \<longleftrightarrow> (\<exists>i. i + length p \<le> length s \<and> take (length p) (drop i s) = p)"
  unfolding contains_def find_sub_None by simp

lemma marker_length: "length marker = 17"
  by (simp add: marker_def ascii_bytes_def)

lemma marker_not_Nil [simp]: "marker \<noteq> []"
  using marker_length by auto

lemma marker_no_newline: "10 \<notin> set marker"
  by (simp add: marker_def ascii_bytes_def byte_of_nat_def code_def)

text \<open>What the scan drops from its buffer: whole lines, or all but the last bytes of a long line.\<close>

definition droppable :: "bytes \<Rightarrow> bytes \<Rightarrow> bool" where
  "droppable d r \<longleftrightarrow> d = [] \<or> last d = 10 \<or> length marker \<le> length r"

lemma no_marker_starts:
  assumes no: "\<not> contains (d @ r) marker" and drop: "droppable d r" and i: "i < length d"
  shows "take (length marker) (drop i (d @ r @ f)) \<noteq> marker"
proof
  assume m: "take (length marker) (drop i (d @ r @ f)) = marker"
  then have len: "i + length marker \<le> length (d @ r @ f)"
  proof -
    have "length (take (length marker) (drop i (d @ r @ f))) = length marker" using m by simp
    then have "length marker \<le> length (d @ r @ f) - i" by (simp only: length_take length_drop min_def split: if_splits)
    then show ?thesis using i by (simp add: marker_length)
  qed
  have "\<not> i + length marker \<le> length (d @ r)"
  proof
    assume le: "i + length marker \<le> length (d @ r)"
    then have "take (length marker) (drop i (d @ r)) = marker"
      using m by (simp flip: append_assoc)
    with no le show False unfolding contains_at by blast
  qed
  then have "length d + length r < i + length marker" by simp
  then have l: "last d = 10" "d \<noteq> []" using drop i by (auto simp: droppable_def)
  let ?k = "length d - 1 - i"
  have k: "?k < length marker" using \<open>length d + length r < i + length marker\<close> i by linarith
  have "marker ! ?k = (d @ r @ f) ! (i + ?k)"
    using m k len by (metis add_leD1 nth_drop nth_take)
  also have "\<dots> = d ! (length d - 1)" using i l(2) by (simp add: nth_append)
  also have "\<dots> = 10" using l by (simp add: last_conv_nth)
  finally have "10 \<in> set marker" using k by (metis nth_mem)
  with marker_no_newline show False by blast
qed

definition scan_inv :: "bytes \<Rightarrow> bytes \<Rightarrow> bool" where
  "scan_inv S buf \<longleftrightarrow>
     (\<exists>D. S = D @ buf \<and> (\<forall>f. find_sub marker (S @ f) = map_option ((+) (length D)) (find_sub marker (buf @ f))))"

lemma scan_inv_contains: "scan_inv S buf \<Longrightarrow> contains (S @ f) marker = contains (buf @ f) marker"
  by (auto simp: scan_inv_def contains_def)

lemma scan_inv_after: "scan_inv S buf \<Longrightarrow> after_first marker (S @ f) = after_first marker (buf @ f)"
  unfolding scan_inv_def after_first_def by (auto split: option.splits simp: add.assoc)

lemma scan_inv_drop:
  assumes "scan_inv S (d @ r)" and "\<not> contains (d @ r) marker" and "droppable d r"
  shows "scan_inv S r"
proof -
  obtain D where D: "S = D @ d @ r" "\<And>f. find_sub marker (S @ f) = map_option ((+) (length D)) (find_sub marker ((d @ r) @ f))"
    using assms(1) unfolding scan_inv_def by blast
  have "find_sub marker (S @ f) = map_option ((+) (length (D @ d))) (find_sub marker (r @ f))" for f
    using D(2) [of f] find_sub_skip [of d marker "r @ f"] no_marker_starts [OF assms(2,3)]
    by (cases "find_sub marker (r @ f)") (auto simp: add.assoc)
  with D(1) show ?thesis unfolding scan_inv_def by (intro exI [of _ "D @ d"]) simp
qed

lemma scan_inv_more: "scan_inv S buf \<Longrightarrow> scan_inv (S @ data) (buf @ data)"
  unfolding scan_inv_def by fastforce

lemma cut_lines_split: "\<exists>d. rev acc @ bs = d @ snd (cut_lines acc bs) \<and> (d = [] \<or> last d = 10)"
proof (induction acc bs rule: cut_lines.induct)
  case (2 acc b bs)
  show ?case
  proof (cases "b = 10")
    case True
    then obtain d where d: "bs = d @ snd (cut_lines [] bs)" "d = [] \<or> last d = 10" using 2(1) by auto
    then have "rev acc @ b # bs = (rev acc @ [b] @ d) @ snd (cut_lines acc (b # bs))"
      using True by (simp split: prod.split) (metis snd_conv)
    then show ?thesis using d(2) True by (intro exI [of _ "rev acc @ [b] @ d"]) auto
  next
    case False
    then show ?thesis using 2(2) by simp
  qed
qed simp

lemma scan_line_buf [simp]: "s_buf (scan_line l st) = s_buf st"
  by (simp add: scan_line_def Let_def split: option.split sum.split)

lemma try_trigger_buf: "s_buf (snd (try_trigger args now after st)) = s_buf st"
  by (simp add: try_trigger_def send_trigger_def split: option.split)

lemma scan_data_buf:
  obtains r where "r = snd (cut_lines [] (s_buf st @ data))"
    "s_buf (scan_data args now after data st) = r \<or>
     (length r > 4096 \<and> s_buf (scan_data args now after data st) = drop (length r - length marker) r)"
proof -
  let ?st1 = "st\<lparr>s_buf := s_buf st @ data\<rparr>"
  let ?st2 = "if contains (s_buf ?st1) armed_marker then ?st1\<lparr>s_armed := True\<rparr> else ?st1"
  obtain ls r where c: "cut_lines [] (s_buf st @ data) = (ls, r)" by force
  let ?st3 = "(fold scan_line ls ?st2)\<lparr>s_buf := r\<rparr>"
  obtain skip st4 where t: "try_trigger args now after ?st3 = (skip, st4)" by force
  have "s_buf ?st2 = s_buf st @ data" by simp
  then have "scan_data args now after data st = (if skip then st4 else trim st4)"
    unfolding scan_data_def Let_def using c t by simp
  moreover have "s_buf st4 = r" using try_trigger_buf [of args now after ?st3] t by simp
  ultimately show ?thesis using that [of r] c by (auto simp: trim_def)
qed

lemma scan_data_inv:
  assumes "scan_inv S (s_buf st)" and no: "\<not> contains (s_buf st @ data) marker"
  shows "scan_inv (S @ data) (s_buf (scan_data args now after data st))"
proof -
  let ?buf = "s_buf st @ data"
  obtain r where r: "r = snd (cut_lines [] ?buf)"
    "s_buf (scan_data args now after data st) = r \<or>
     (length r > 4096 \<and> s_buf (scan_data args now after data st) = drop (length r - length marker) r)"
    by (rule scan_data_buf [of st data args now after]) (rule that)
  obtain d where d: "?buf = d @ r" "d = [] \<or> last d = 10" using cut_lines_split [of "[]" ?buf] r(1) by auto
  have 1: "scan_inv (S @ data) r"
    using scan_inv_drop [of "S @ data" d r] scan_inv_more [OF assms(1), of data] d no by (auto simp: droppable_def)
  have nr: "\<not> contains r marker" using no unfolding d(1) contains_iff by (metis append_assoc)
  show ?thesis
  proof (cases "s_buf (scan_data args now after data st) = r")
    case False
    then have l: "length r > 4096" "s_buf (scan_data args now after data st) = drop (length r - length marker) r" using r(2) by auto
    let ?t = "take (length r - length marker) r" and ?u = "drop (length r - length marker) r"
    have "length marker \<le> length ?u" using l(1) by (simp add: marker_length)
    then have "scan_inv (S @ data) ?u" using scan_inv_drop [of "S @ data" ?t ?u] 1 nr by (simp add: droppable_def)
    with l show ?thesis by simp
  qed (use 1 in simp)
qed

lemma scan_started:
  "scan_loop args start rs st = Started st' initial rest \<Longrightarrow> scan_inv S (s_buf st) \<Longrightarrow> \<not> contains S marker
   \<Longrightarrow> \<exists>pre data t. rs = pre @ (data, t) # rest \<and> \<not> contains (S @ concat (map fst pre)) marker
        \<and> contains (S @ concat (map fst pre) @ data) marker \<and> initial = after_marker (S @ concat (map fst pre) @ data)"
proof (induction args start rs st arbitrary: S rule: scan_loop.induct)
  case (2 args start data now after rs st)
  consider "data = []" | "data \<noteq> []" "contains (s_buf st @ data) marker" | "data \<noteq> []" "\<not> contains (s_buf st @ data) marker" by blast
  then show ?case
  proof cases
    case 1
    with 2(3) have "scan_loop args start rs st = Started st' initial rest" by (simp split: if_splits)
    from 2(1) [OF 1 _ this 2(4,5)] 2(3) 1 obtain pre d t where "rs = pre @ (d, t) # rest"
      "\<not> contains (S @ concat (map fst pre)) marker" "contains (S @ concat (map fst pre) @ d) marker"
      "initial = after_marker (S @ concat (map fst pre) @ d)" by (auto split: if_splits)
    then show ?thesis using 1 by (intro exI [of _ "(data, now, after) # pre"]) auto
  next
    case b: 2
    then have "initial = after_marker (s_buf st @ data)" "rest = rs" using 2(3) by auto
    then show ?thesis
      using b 2(4,5) scan_inv_contains [OF 2(4), of data] scan_inv_after [OF 2(4), of data]
      by (intro exI [of _ "[]"] exI [of _ data] exI [of _ "(now, after)"]) (simp add: after_marker_def)
  next
    case 3
    then have l: "scan_loop args start rs (scan_data args now after data st) = Started st' initial rest" using 2(3) by simp
    have no: "\<not> contains (S @ data) marker" using 3 scan_inv_contains [OF 2(4), of data] by simp
    from 2(2) [OF 3 l scan_data_inv [OF 2(4) 3(2)] no] obtain pre d t where "rs = pre @ (d, t) # rest"
      "\<not> contains ((S @ data) @ concat (map fst pre)) marker" "contains ((S @ data) @ concat (map fst pre) @ d) marker"
      "initial = after_marker ((S @ data) @ concat (map fst pre) @ d)" by blast
    then show ?thesis by (intro exI [of _ "(data, now, after) # pre"]) auto
  qed
qed simp

lemma scan_finds:
  "contains (S @ concat (map fst rs)) marker \<Longrightarrow> scan_inv S (s_buf st) \<Longrightarrow> \<not> contains S marker
   \<Longrightarrow> \<forall>(data, now, after) \<in> set rs. data = [] \<longrightarrow> now - start \<le> ca_startup_timeout args
   \<Longrightarrow> \<exists>st' initial rest. scan_loop args start rs st = Started st' initial rest"
proof (induction args start rs st arbitrary: S rule: scan_loop.induct)
  case (2 args start data now after rs st)
  show ?case
  proof (cases "data = [] \<or> contains (s_buf st @ data) marker")
    case True
    then show ?thesis using 2 by auto
  next
    case False
    then have "\<not> contains (S @ data) marker" using scan_inv_contains [OF 2(4), of data] by simp
    with False 2(2) [OF _ _ _ scan_data_inv [OF 2(4)]] 2(3,6) show ?thesis by auto
  qed
qed simp

lemma begin_scan_inv: "scan_inv [] (s_buf (begin_scan args))" "\<not> contains [] marker"
proof -
  have "map_option ((+) (0 :: nat)) v = v" for v by (cases v) simp_all
  then show "scan_inv [] (s_buf (begin_scan args))" by (simp add: scan_inv_def begin_scan_def)
qed (simp add: contains_at marker_length)

text \<open>
  C7: The start marker is never missed or taken twice, however the console text is cut into reads,
  however long its lines are, and whatever lines are dropped from the buffer: the scan stops at
  the first read with which the whole stream so far contains the marker, and what it passes on is
  what follows the marker in the stream, less the line end; and if the stream contains the marker
  and no silence exceeds the startup timeout, it does stop.
\<close>

theorem marker_found:
  "(\<forall>st initial rest. scan_loop args start rs (begin_scan args) = Started st initial rest \<longrightarrow>
      (\<exists>pre data t. rs = pre @ (data, t) # rest \<and> \<not> contains (concat (map fst pre)) marker
         \<and> contains (concat (map fst pre) @ data) marker \<and> initial = after_marker (concat (map fst pre) @ data)))
   \<and> (contains (concat (map fst rs)) marker \<and> (\<forall>(data, now, after) \<in> set rs. data = [] \<longrightarrow> now - start \<le> ca_startup_timeout args)
      \<longrightarrow> (\<exists>st initial rest. scan_loop args start rs (begin_scan args) = Started st initial rest))"
  using scan_started [OF _ begin_scan_inv] scan_finds [OF _ begin_scan_inv] by fastforce

definition demo_capture_args :: capture_args where
  "demo_capture_args =
     \<lparr>ca_port = ''p'', ca_bytes = Some 2, ca_reset = True, ca_startup_timeout = 90, ca_drain_seconds = 1,
      ca_udp_burst = False, ca_target_ip = None, ca_udp_port = 9999, ca_payload_bytes = 64, ca_udp_byte = ''0x42'',
      ca_interval_us = 1000\<rparr>"

lemma contains_self: "contains (u @ p @ v) p"
  unfolding contains_iff by blast

theorem marker_found_witness:
  "contains (concat (map fst [(take 5 marker, 0, 0), (drop 5 marker @ [1], 0, 0 :: real)])) marker
   \<and> (\<exists>st initial rest. scan_loop demo_capture_args 0 [(take 5 marker, 0, 0), (drop 5 marker @ [1], 0, 0)] (begin_scan demo_capture_args)
        = Started st initial rest)"
proof -
  have c: "contains (concat (map fst [(take 5 marker, 0, 0), (drop 5 marker @ [1], 0, 0 :: real)])) marker"
    using contains_self [of "[]" marker "[1]"] by (simp flip: append_assoc)
  then show ?thesis
    using marker_found [of demo_capture_args 0 "[(take 5 marker, 0, 0), (drop 5 marker @ [1], 0, 0)]"]
    by (simp del: scan_loop.simps)
qed


section \<open>What is saved\<close>

text \<open>What each read may return at most (\<open>ser.read(to_read)\<close>).\<close>

primrec reads_ok :: "int \<Rightarrow> nat \<Rightarrow> reading list \<Rightarrow> bool" where
  "reads_ok target n [] = True"
| "reads_ok target n (r # rs) =
     (int n \<ge> target \<or> (int (length (fst r)) \<le> read_size target n \<and> reads_ok target (n + length (fst r)) rs))"

lemma collect_complete:
  "collect target out k rs = Complete out' rest \<Longrightarrow>
     \<exists>used. rs = used @ rest \<and> out' = out @ concat (map fst used) \<and> target \<le> int (length out')
       \<and> (target \<le> int (length out) \<longrightarrow> used = [])
       \<and> (int (length out) \<le> target \<and> reads_ok target (length out) rs \<longrightarrow> int (length out') = target)"
proof (induction rs arbitrary: out k)
  case Nil
  then show ?case by (auto simp: collect.simps split: if_splits)
next
  case (Cons r rs)
  obtain data t where r: "r = (data, t)" by (cases r)
  show ?case
  proof (cases "target \<le> int (length out)")
    case True
    then show ?thesis using Cons.prems by (intro exI [of _ "[]"]) (auto simp: collect.simps)
  next
    case False
    then obtain k' where c: "collect target (out @ data) k' rs = Complete out' rest"
      using Cons.prems by (auto simp: collect.simps [of target out] r split: if_splits)
    from Cons.IH [OF this] obtain used where u: "rs = used @ rest" "out' = (out @ data) @ concat (map fst used)"
      "target \<le> int (length out')"
      "int (length (out @ data)) \<le> target \<and> reads_ok target (length (out @ data)) rs \<longrightarrow> int (length out') = target" by blast
    have "int (length out') = target" if "reads_ok target (length out) (r # rs)"
      using that False u(4) by (simp add: r read_size_def)
    then show ?thesis using u False by (intro exI [of _ "r # used"]) (auto simp: r)
  qed
qed

lemma collect_gave_up:
  "collect target out k rs = Gave_Up out' \<Longrightarrow>
     \<exists>used rest. rs = used @ rest \<and> out' = out @ concat (map fst used) \<and> int (length out') < target"
proof (induction rs arbitrary: out k)
  case Nil
  then show ?case by (auto simp: collect.simps split: if_splits)
next
  case (Cons r rs)
  obtain data t where r: "r = (data, t)" by (cases r)
  have lt: "int (length out) < target" using Cons.prems by (auto simp: collect.simps [of target out] split: if_splits)
  show ?case
  proof (cases "data = [] \<and> 3 \<le> k + 1")
    case True
    then show ?thesis using Cons.prems lt by (intro exI [of _ "[]"] exI [of _ "r # rs"]) (auto simp: collect.simps [of target out] r)
  next
    case False
    then obtain k' where "collect target (out @ data) k' rs = Gave_Up out'"
      using Cons.prems lt by (auto simp: collect.simps [of target out] r split: if_splits)
    from Cons.IH [OF this] obtain used rest where "rs = used @ rest" "out' = (out @ data) @ concat (map fst used)"
      "int (length out') < target" by blast
    then show ?thesis by (intro exI [of _ "r # used"] exI [of _ rest]) (simp add: r)
  qed
qed

definition dump_of :: "reading list \<Rightarrow> reading list \<Rightarrow> bytes" where
  "dump_of before rest = after_marker (concat (map fst before)) @ concat (map fst rest)"

lemma slice_to_prefix:
  assumes "0 \<le> target" and "target \<le> int (length (slice_to target xs)) \<longrightarrow> used = []" and "rest = used @ unread"
  shows "prefix (slice_to target xs @ used) (xs @ rest)"
proof (cases "target \<le> int (length (slice_to target xs))")
  case True
  then have "used = []" using assms(2) by blast
  then show ?thesis using assms(1) by (auto simp: slice_to_def take_is_prefix intro: prefix_order.trans)
next
  case False
  then have "slice_to target xs = xs" using assms(1) by (auto simp: slice_to_def)
  then show ?thesis using assms(3) by simp
qed


text \<open>A dump of two bytes in one read, and a device that falls silent after the first.\<close>

lemma demo_check: "check_args [] [] demo_capture_args = Some (''p'', 66)"
proof -
  have "py_int_base 0 ''0x42'' = Inr 66"
    by (simp add: py_int_base_def int_strip_def is_ascii_space_def code_def split_sign_def read_base_def drop_one_underscore_def
        read_digits_def digit_value_def Let_def)
  then show ?thesis by (simp add: check_args_def demo_capture_args_def parse_udp_byte_def)
qed

lemma demo_capture:
  "capture_main [] [] demo_capture_args True 0 ((marker @ x, 0, 0) # rs)
    = (case collect 2 (slice_to 2 (dropWhile (\<lambda>b. b = 13 \<or> b = 10) x)) 0 rs of
         Complete out _ \<Rightarrow> Saved True out | Gave_Up out \<Rightarrow> Saved False out | Reading _ \<Rightarrow> Unfinished)"
proof -
  have "find_sub marker (marker @ x) = Some 0"
    by (cases "marker @ x") (simp_all, metis append_eq_conv_conj)
  then have "after_marker (marker @ x) = dropWhile (\<lambda>b. b = 13 \<or> b = 10) x"
    by (simp add: after_marker_def after_first_def)
  moreover have "contains (marker @ x) marker" using contains_self [of "[]" marker x] by simp
  ultimately show ?thesis by (simp add: capture_main_def demo_check begin_scan_def target_bytes_def) (simp add: demo_capture_args_def)
qed


text \<open>
  The file depends on where the serial driver cuts the stream. The line end after the marker is
  dropped only if it arrives in the same read as the marker: otherwise it becomes the first two bytes
  of the dump. And when it does, the bytes 10 and 13 that begin the dump are dropped with it.
\<close>

theorem dump_depends_on_read_boundary:
  "concat (map fst [(marker @ [13, 10, 1, 2], 0, 0 :: real)]) = concat (map fst [(marker, 0, 0 :: real), ([13, 10], 0, 0), ([1, 2], 0, 0)])
   \<and> capture_main [] [] demo_capture_args True 0 [(marker @ [13, 10, 1, 2], 0, 0)] = Saved True [1, 2]
   \<and> capture_main [] [] demo_capture_args True 0 [(marker, 0, 0), ([13, 10], 0, 0), ([1, 2], 0, 0)] = Saved True [13, 10]
   \<and> capture_main [] [] demo_capture_args True 0 [(marker @ [13, 10, 10, 7, 8, 9], 0, 0)] = Saved True [7, 8]"
proof -
  have "capture_main [] [] demo_capture_args True 0 [(marker, 0, 0), ([13, 10], 0, 0), ([1, 2], 0, 0)] = Saved True [13, 10]"
    using demo_capture [of "[]" "[([13, 10], 0, 0), ([1, 2], 0, 0)]"] by (simp add: slice_to_def collect.simps)
  then show ?thesis unfolding demo_capture by (simp add: slice_to_def collect.simps)
qed

section \<open>The trigger\<close>

definition trigger_inv :: "bytes \<Rightarrow> scan \<Rightarrow> bool" where
  "trigger_inv S st \<longleftrightarrow>
     (s_armed st \<longrightarrow> contains S armed_marker) \<and> (s_trigger st \<longrightarrow> s_armed st)
     \<and> s_sent st = (if s_trigger st then [ascii_bytes ''G''] else [])
     \<and> (\<exists>D. S = D @ s_buf st)"

lemma contains_trans: "contains s l \<Longrightarrow> contains l p \<Longrightarrow> contains s p"
  unfolding contains_iff by (metis append_assoc)

lemma cut_lines_contained: "l \<in> set (fst (cut_lines acc bs)) \<Longrightarrow> contains (rev acc @ bs) l"
proof (induction acc bs rule: cut_lines.induct)
  case (2 acc b bs)
  show ?case
  proof (cases "b = 10")
    case True
    then consider "l = rev acc" | "l \<in> set (fst (cut_lines [] bs))" using 2(3) by (auto split: prod.splits)
    then show ?thesis
    proof cases
      case 1
      then show ?thesis using contains_self [of "[]" l "b # bs"] by simp
    next
      case b: 2
      then have "contains bs l" using 2(1) True by simp
      then show ?thesis using contains_trans [of "rev acc @ b # bs" bs] contains_self [of "rev acc @ [b]" bs "[]"] by simp
    qed
  qed (use 2 in auto)
qed simp

lemma byte_strip_contained: "contains bs (byte_strip bs)"
proof -
  let ?sp = "\<lambda>b. is_ascii_space (byte_char b)"
  let ?u = "dropWhile ?sp bs"
  have "bs = takeWhile ?sp bs @ ?u" by simp
  moreover have "?u = byte_strip bs @ rev (takeWhile ?sp (rev ?u))"
    unfolding byte_strip_def Let_def by (metis rev_append rev_rev_ident takeWhile_dropWhile_id)
  ultimately show ?thesis using contains_self by metis
qed

lemma scan_line_fields:
  "s_trigger (scan_line l st) = s_trigger st \<and> s_sent (scan_line l st) = s_sent st
   \<and> (s_armed (scan_line l st) \<longrightarrow> s_armed st \<or> contains l armed_marker)"
proof -
  have "take (length armed_marker) (byte_strip l) = armed_marker \<Longrightarrow> contains l armed_marker"
    using contains_trans [OF byte_strip_contained] contains_self [of "[]" armed_marker "drop (length armed_marker) (byte_strip l)"]
    by (metis append_Nil append_take_drop_id)
  then show ?thesis by (auto simp: scan_line_def Let_def split: option.splits sum.splits)
qed

lemma fold_scan_line:
  "(\<And>l. l \<in> set ls \<Longrightarrow> contains S l) \<Longrightarrow> (s_armed st \<longrightarrow> contains S armed_marker) \<Longrightarrow>
     s_trigger (fold scan_line ls st) = s_trigger st \<and> s_sent (fold scan_line ls st) = s_sent st
     \<and> (s_armed st \<longrightarrow> s_armed (fold scan_line ls st)) \<and> (s_armed (fold scan_line ls st) \<longrightarrow> contains S armed_marker)"
proof (induction ls arbitrary: st)
  case (Cons l ls)
  have mono: "s_armed st \<longrightarrow> s_armed (scan_line l st)"
    by (auto simp: scan_line_def Let_def split: option.splits sum.splits)
  have "s_armed (scan_line l st) \<longrightarrow> contains S armed_marker"
    using scan_line_fields [of l st] Cons.prems contains_trans by auto
  from Cons.IH [OF _ this] Cons.prems(1) mono scan_line_fields [of l st] show ?case by auto
qed simp

lemma try_trigger_inv: "trigger_inv S st \<Longrightarrow> trigger_inv S (snd (try_trigger args now after st))"
  by (auto simp: trigger_inv_def try_trigger_def send_trigger_def split: option.splits if_splits)

lemma trim_inv: "trigger_inv S st \<Longrightarrow> trigger_inv S (trim st)"
proof -
  have "\<exists>Da. D @ buf = Da @ drop n buf" for D buf :: bytes and n
    by (intro exI [of _ "D @ take n buf"]) simp
  then show "trigger_inv S st \<Longrightarrow> trigger_inv S (trim st)" unfolding trigger_inv_def trim_def by auto
qed

lemma scan_data_trigger:
  assumes "trigger_inv S st"
  shows "trigger_inv (S @ data) (scan_data args now after data st)"
proof -
  let ?st1 = "st\<lparr>s_buf := s_buf st @ data\<rparr>"
  let ?st2 = "if contains (s_buf ?st1) armed_marker then ?st1\<lparr>s_armed := True\<rparr> else ?st1"
  obtain ls r where c: "cut_lines [] (s_buf st @ data) = (ls, r)" by force
  let ?st3 = "(fold scan_line ls ?st2)\<lparr>s_buf := r\<rparr>"
  obtain skip st4 where t: "try_trigger args now after ?st3 = (skip, st4)" by force
  obtain D where D: "S = D @ s_buf st" using assms by (auto simp: trigger_inv_def)
  have buf: "contains (S @ data) (s_buf st @ data)" using contains_self [of D "s_buf st @ data" "[]"] by (simp add: D)
  have old: "contains S armed_marker \<Longrightarrow> contains (S @ data) armed_marker"
    using contains_trans [of "S @ data" S] contains_self [of "[]" S data] by simp
  have "contains (S @ data) l" if "l \<in> set ls" for l
    using contains_trans [OF buf] cut_lines_contained [of l "[]" "s_buf st @ data"] that c by simp
  moreover have "s_armed ?st2 \<longrightarrow> contains (S @ data) armed_marker"
    using assms old contains_trans [OF buf] by (auto simp: trigger_inv_def)
  ultimately have f: "s_trigger (fold scan_line ls ?st2) = s_trigger ?st2 \<and> s_sent (fold scan_line ls ?st2) = s_sent ?st2
     \<and> (s_armed ?st2 \<longrightarrow> s_armed (fold scan_line ls ?st2)) \<and> (s_armed (fold scan_line ls ?st2) \<longrightarrow> contains (S @ data) armed_marker)"
    by (rule fold_scan_line)
  have same: "s_trigger ?st2 = s_trigger st" "s_sent ?st2 = s_sent st" "s_armed st \<longrightarrow> s_armed ?st2" by simp_all
  obtain d where "s_buf st @ data = d @ r" using cut_lines_split [of "[]" "s_buf st @ data"] c by auto
  then have "\<exists>D. S @ data = D @ r" using D by (metis append_assoc)
  then have 3: "trigger_inv (S @ data) ?st3" using f same assms by (auto simp: trigger_inv_def split del: if_split)
  have "s_buf ?st2 = s_buf st @ data" by simp
  then have "scan_data args now after data st = (if skip then st4 else trim st4)"
    unfolding scan_data_def Let_def using c t by simp
  then show ?thesis using try_trigger_inv [OF 3, of args now after] trim_inv t by auto
qed

lemma scan_loop_trigger:
  "trigger_inv S st \<Longrightarrow>
     (case scan_loop args start rs st of
        Waiting st' \<Rightarrow> trigger_inv (S @ concat (map fst rs)) st'
      | Started st' _ rest \<Rightarrow> \<exists>before. rs = before @ rest \<and> trigger_inv (S @ concat (map fst before)) st'
      | No_Output \<Rightarrow> True)"
proof (induction args start rs st arbitrary: S rule: scan_loop.induct)
  case (2 args start data now after rs st)
  consider "data = []" | "data \<noteq> []" "contains (s_buf st @ data) marker" | "data \<noteq> []" "\<not> contains (s_buf st @ data) marker" by blast
  then show ?case
  proof cases
    case 1
    then show ?thesis
      using 2(1) [OF 1 _ 2(3)] by (auto split: scan_end.splits)
  next
    case b: 2
    have "trigger_inv (S @ data) (st\<lparr>s_buf := s_buf st @ data\<rparr>)"
      using 2(3) contains_trans [of "S @ data" S armed_marker] contains_self [of "[]" S data]
      by (auto simp: trigger_inv_def)
    then show ?thesis using b by (auto intro!: exI [of _ "[(data, now, after)]"])
  next
    case 3
    from 2(2) [OF 3 scan_data_trigger [OF 2(3)]] 3 show ?thesis
      by (auto split: scan_end.splits)
  qed
qed simp


text \<open>
  The trigger byte goes out at most once, and only to a device that announced itself: whatever
  is read from the port, with whatever cuts between the reads, the scan has sent nothing or the
  single byte \<open>G\<close>, and when it has sent it the console up to there contained the armed marker.
\<close>

theorem trigger_once:
  "case scan_loop args start rs (begin_scan args) of
     Waiting st \<Rightarrow> s_sent st = [] \<or> s_sent st = [ascii_bytes ''G''] \<and> contains (concat (map fst rs)) armed_marker
   | Started st _ rest \<Rightarrow>
       (\<exists>before. rs = before @ rest
          \<and> (s_sent st = [] \<or> s_sent st = [ascii_bytes ''G''] \<and> contains (concat (map fst before)) armed_marker))
   | No_Output \<Rightarrow> True"
proof -
  have "trigger_inv [] (begin_scan args)" by (simp add: trigger_inv_def begin_scan_def)
  from scan_loop_trigger [OF this, where args = args and start = start and rs = rs] show ?thesis
    by (auto simp: trigger_inv_def split: scan_end.splits if_splits)
qed

end
