(* ===== verification/RestartRun.thy ===== *)
theory RestartRun
  imports PyIO PyNumber
begin

text \<open>
  The restart experiment (\<open>run_restart_experiment.py\<close>): one reset of the board per attempt, the
  wait for the collector to record a complete trial, the table of attempts, the status file, and
  the clean-up. What the program observes (the collector process, its trial table and log, the
  serial driver) is a function of the number of observations made so far. The clock moves by the
  requested time in a sleep and by anything more that \<open>late\<close> says, never back.
\<close>

section \<open>The world\<close>

datatype restart_act =
    Opened | Closed | Dtr bool | Rts bool | Slept real | Spawned "string list" | Interrupted | Terminated

datatype status_value = SText string | SInt int | SFloat real | SBool bool

text \<open>What opening and reading the trial table gives; a row has the fields the line had.\<close>

datatype table_file = Absent | Unreadable | Table "(string, string) dict list"

record restart_row =
  reset_attempt :: nat
  successful_index :: "nat option"
  row_capture_id :: string
  reset_utc :: string
  completed_utc :: string
  elapsed_seconds :: string
  row_outcome :: string

record restart_world =
  rs_now :: real
  rs_tick :: nat
  rs_open :: bool
  rs_spawned :: bool
  rs_logging :: bool
  rs_acts :: "restart_act list"
  rs_state :: "(string, status_value) dict"
  rs_status :: "(string, status_value) dict list"
  rs_metadata :: "(string, status_value) dict"
  rs_serial :: bytes
  rs_rows :: "restart_row list"

record restart_env =
  late :: "nat \<Rightarrow> real"
  polls :: "nat \<Rightarrow> int option"
  wait_result :: "nat \<Rightarrow> int option"
  table_at :: "nat \<Rightarrow> table_file"
  log_at :: "nat \<Rightarrow> string option"
  input_at :: "nat \<Rightarrow> bytes option"
  open_error :: "nat \<Rightarrow> string option"
  line_error :: "nat \<Rightarrow> py_error option"
  spawn_error :: "nat \<Rightarrow> py_error option"
  utc :: "nat \<Rightarrow> string"
  collector_pid :: int
  out_exists :: bool
  error_text :: "py_error \<Rightarrow> string"
  float_text :: "real \<Rightarrow> string"
  python :: string
  collector_script :: string

record restart_args =
  ra_serial :: string
  ra_baud :: int
  ra_trials :: int
  ra_port :: int
  ra_out_dir :: string
  ra_trial_timeout :: real
  ra_max_attempts :: int
  ra_reset_pulse_ms :: real
  ra_settle_ms :: real
  ra_sample_bytes :: int
  ra_bursts :: int
  ra_interval_us :: int
  ra_nonce_hex :: string

type_synonym 'a restart = "(restart_world, 'a) io"

definition elapse :: "restart_env \<Rightarrow> real \<Rightarrow> restart_world \<Rightarrow> restart_world" where
  "elapse env d w = w\<lparr>rs_now := rs_now w + d + max 0 (late env (rs_tick w)), rs_tick := rs_tick w + 1\<rparr>"

definition observe :: "restart_env \<Rightarrow> (nat \<Rightarrow> 'a) \<Rightarrow> 'a restart" where
  "observe env f w = (Inr (f (rs_tick w)), elapse env 0 w)"

definition monotonic :: "restart_env \<Rightarrow> real restart" where
  "monotonic env w = (let w' = elapse env 0 w in (Inr (rs_now w'), w'))"

definition act :: "restart_act \<Rightarrow> unit restart" where
  "act a = io_modify (\<lambda>w. w\<lparr>rs_acts := rs_acts w @ [a]\<rparr>)"

definition sleep :: "restart_env \<Rightarrow> real \<Rightarrow> unit restart" where
  "sleep env d = (if d < 0 then io_raise ValueError else io_then (io_modify (elapse env d)) (act (Slept d)))"

definition set_line :: "restart_env \<Rightarrow> restart_act \<Rightarrow> unit restart" where
  "set_line env a =
     io_bind (observe env (line_error env)) (\<lambda>e. case e of Some e \<Rightarrow> io_raise e | None \<Rightarrow> act a)"

section \<open>Files and the port\<close>

text \<open>\<open>status.update(...)\<close> and \<open>write_json(status_path, status)\<close>.\<close>

definition update_status :: "restart_env \<Rightarrow> (string \<times> status_value) list \<Rightarrow> unit restart" where
  "update_status env kvs =
     io_bind (observe env (utc env)) (\<lambda>t. io_modify (\<lambda>w.
       let st = dict_update (rs_state w) (kvs @ [(''updated_utc'', SText t)])
       in w\<lparr>rs_state := st, rs_status := rs_status w @ [st]\<rparr>))"

definition complete_rows :: "table_file \<Rightarrow> (string, string) dict list" where
  "complete_rows t =
     (case t of Table rs \<Rightarrow> filter (\<lambda>r. dict_get r ''complete'' = Some ''True'') rs | _ \<Rightarrow> [])"

definition read_rows :: "restart_env \<Rightarrow> (string, string) dict list restart" where
  "read_rows env = observe env (\<lambda>k. complete_rows (table_at env k))"

definition pulse_en :: "restart_env \<Rightarrow> real \<Rightarrow> unit restart" where
  "pulse_en env seconds =
     io_then (set_line env (Dtr False)) (io_then (set_line env (Rts True))
       (io_then (sleep env seconds) (set_line env (Rts False))))"

definition write_serial_marker :: "restart_env \<Rightarrow> string \<Rightarrow> unit restart" where
  "write_serial_marker env message =
     io_bind (observe env (utc env)) (\<lambda>t. io_modify (\<lambda>w. w\<lparr>rs_serial := rs_serial w @
       ascii_bytes ([CHR 0x0A] @ ''[restart-runner '' @ t @ ''] '' @ message @ [CHR 0x0A])\<rparr>))"

definition drain_serial :: "restart_env \<Rightarrow> bool restart" where
  "drain_serial env =
     io_bind (observe env (input_at env)) (\<lambda>inp.
       case inp of
         None \<Rightarrow> io_return False
       | Some bs \<Rightarrow> io_then (io_modify (\<lambda>w. w\<lparr>rs_serial := rs_serial w @ bs\<rparr>)) (io_return True))"

text \<open>One pass of \<open>open_serial\<close>: the error of a failed attempt, or None when the port is open.\<close>

definition try_open :: "restart_env \<Rightarrow> string option restart" where
  "try_open env =
     io_bind (observe env (open_error env)) (\<lambda>e.
       case e of
         Some m \<Rightarrow> io_then (sleep env (1 / 4)) (io_return (Some m))
       | None \<Rightarrow> io_then (io_modify (\<lambda>w. w\<lparr>rs_open := True,
           rs_acts := rs_acts w @ [Dtr False, Rts False, Opened, Dtr False, Rts False]\<rparr>)) (io_return None))"

lemma elapse_now: "0 \<le> d \<Longrightarrow> rs_now w + d \<le> rs_now (elapse env d w)"
  by (simp add: elapse_def)

definition left :: "real \<Rightarrow> real \<Rightarrow> restart_world \<Rightarrow> nat" where
  "left step deadline w = nat \<lceil>(deadline - rs_now w) / step\<rceil>"

lemma left_decreases:
  assumes "0 < step" and "rs_now w < deadline" and "rs_now w + step \<le> rs_now w'"
  shows "left step deadline w' < left step deadline w"
proof -
  have "(deadline - rs_now w') / step \<le> (deadline - rs_now w - step) / step"
    using assms by (intro divide_right_mono) simp_all
  also have "\<dots> = (deadline - rs_now w) / step - 1" using assms(1) by (simp add: diff_divide_distrib)
  finally have "(deadline - rs_now w') / step \<le> (deadline - rs_now w) / step - 1" .
  then have "\<lceil>(deadline - rs_now w') / step\<rceil> \<le> \<lceil>(deadline - rs_now w) / step\<rceil> - 1"
    by (metis ceiling_diff_one ceiling_mono)
  moreover have "0 < \<lceil>(deadline - rs_now w) / step\<rceil>" using assms by simp
  ultimately show ?thesis by (simp add: left_def)
qed

lemma try_open_waits: "try_open env w = (Inr (Some m), w') \<Longrightarrow> rs_now w + 1 / 4 \<le> rs_now w'"
  by (auto simp: try_open_def observe_def io_bind_def io_run sleep_def act_def elapse_def split: option.splits)

function open_loop :: "restart_env \<Rightarrow> restart_args \<Rightarrow> real \<Rightarrow> string \<Rightarrow> unit restart" where
  "open_loop env args deadline err w =
     (let w1 = elapse env 0 w
      in if rs_now w1 < deadline then
           (case try_open env w1 of
              (Inl e, w2) \<Rightarrow> (Inl e, w2)
            | (Inr None, w2) \<Rightarrow> (Inr (), w2)
            | (Inr (Some m), w2) \<Rightarrow> open_loop env args deadline m w2)
         else (Inl (RuntimeError (''could not open serial device '' @ ra_serial args @ '': '' @ err)), w1))"
  by pat_completeness auto
termination
proof (relation "measure (\<lambda>(env, args, deadline, err, w). left (1 / 4) deadline w)")
  fix env args deadline err w w1 r w2 y m
  assume a: "w1 = elapse env 0 w" "rs_now w1 < deadline" "(r, w2) = try_open env w1" "r = Inr y" "y = Some m"
  have "rs_now w \<le> rs_now w1" using elapse_now [of 0 w env] a(1) by simp
  moreover have "rs_now w1 + 1 / 4 \<le> rs_now w2" using try_open_waits a(3-5) by metis
  ultimately have "left (1 / 4) deadline w2 < left (1 / 4) deadline w"
    using a(2) by (intro left_decreases) simp_all
  then show "((env, args, deadline, m, w2), env, args, deadline, err, w)
      \<in> measure (\<lambda>(env, args, deadline, err, w). left (1 / 4) deadline w)" by simp
qed simp

declare open_loop.simps [simp del]

definition open_serial :: "restart_env \<Rightarrow> restart_args \<Rightarrow> unit restart" where
  "open_serial env args =
     io_bind (monotonic env) (\<lambda>t. open_loop env args (t + 30) ''None'')"

text \<open>\<open>if not drain_serial(...)\<close>: close the port, open it again and leave a note in the log.\<close>

definition drain_or_reconnect :: "restart_env \<Rightarrow> restart_args \<Rightarrow> unit restart" where
  "drain_or_reconnect env args =
     io_bind (drain_serial env) (\<lambda>fine.
       if fine then io_return ()
       else io_then (\<lambda>w. if rs_open w then (Inr (), w\<lparr>rs_open := False, rs_acts := rs_acts w @ [Closed]\<rparr>) else (Inr (), w))
           (io_then (open_serial env args) (write_serial_marker env ''serial device reconnected'')))"

section \<open>Waiting\<close>

definition exited :: "int \<Rightarrow> py_error" where
  "exited status = RuntimeError (''collector exited with status '' @ str_of_int status)"

text \<open>\<open>if collector.poll() is not None: raise RuntimeError(...)\<close>.\<close>

definition check_collector :: "restart_env \<Rightarrow> unit restart" where
  "check_collector env =
     io_bind (observe env (polls env)) (\<lambda>p. case p of Some s \<Rightarrow> io_raise (exited s) | None \<Rightarrow> io_return ())"

definition collector_listening :: "restart_env \<Rightarrow> bool restart" where
  "collector_listening env =
     observe env (\<lambda>k. case log_at env k of Some t \<Rightarrow> contains t ''[collector] listening'' | None \<Rightarrow> False)"

text \<open>One pass of the wait for the collector: whether it is listening.\<close>

definition ready_step :: "restart_env \<Rightarrow> bool restart" where
  "ready_step env =
     io_then (check_collector env) (io_bind (collector_listening env) (\<lambda>r.
       if r then io_return True else io_then (sleep env (1 / 10)) (io_return False)))"

text \<open>
  What the steps around a reset leave alone. A relation that the passing of time, the serial log,
  and every action but driving EN low and starting the collector keep is kept by the steps that
  observe; one that opening and closing the port and the status file keep too, also by the waits.
\<close>

definition quiet_act :: "restart_act \<Rightarrow> bool" where
  "quiet_act a = (a \<noteq> Rts True \<and> (case a of Spawned _ \<Rightarrow> False | _ \<Rightarrow> True))"

lemma quiet_acts [simp]:
  "quiet_act (Dtr b)" "quiet_act (Rts False)" "quiet_act (Slept d)" "quiet_act Closed" "quiet_act Interrupted"
  "quiet_act Terminated"
  by (simp_all add: quiet_act_def)

locale quiet_steps = preorder_effect R for R :: "restart_world \<Rightarrow> restart_world \<Rightarrow> bool" +
  assumes elapse: "0 \<le> d \<Longrightarrow> R w (elapse env d w)"
    and serial: "R w (w\<lparr>rs_serial := bs\<rparr>)"
    and acts: "quiet_act a \<Longrightarrow> R w (w\<lparr>rs_acts := rs_acts w @ [a]\<rparr>)"
begin

lemma rel_modify: "(\<And>w. R w (f w)) \<Longrightarrow> io_rel R (io_modify f)"
  by (simp add: io_rel_def io_run)

lemma rel_observe: "io_rel R (observe env f)"
  by (simp add: io_rel_def observe_def elapse)

lemma rel_monotonic: "io_rel R (monotonic env)"
  by (simp add: io_rel_def monotonic_def elapse Let_def)

lemma rel_act: "quiet_act a \<Longrightarrow> io_rel R (act a)"
  unfolding act_def by (rule rel_modify) (rule acts)

lemma rel_sleep: "io_rel R (sleep env d)"
  unfolding sleep_def using rel_modify [of "elapse env d"] elapse [of d] rel_act [of "Slept d"]
  by (cases "d < 0") (simp_all add: rel_pure rel_bind)

lemma rel_set_line: "quiet_act a \<Longrightarrow> io_rel R (set_line env a)"
  unfolding set_line_def by (intro rel_bind rel_observe) (auto split: option.splits intro: rel_pure rel_act)

lemma rel_read_rows: "io_rel R (read_rows env)"
  unfolding read_rows_def by (rule rel_observe)

lemma rel_marker: "io_rel R (write_serial_marker env m)"
  unfolding write_serial_marker_def by (intro rel_bind rel_observe rel_modify serial)

lemma rel_drain: "io_rel R (drain_serial env)"
  unfolding drain_serial_def
  by (intro rel_bind rel_observe) (auto split: option.splits intro!: rel_bind rel_pure rel_modify serial)

lemma rel_check: "io_rel R (check_collector env)"
  unfolding check_collector_def by (intro rel_bind rel_observe) (auto split: option.splits intro: rel_pure)

lemma rel_ready_step: "io_rel R (ready_step env)"
  unfolding ready_step_def collector_listening_def
  by (intro rel_bind rel_check rel_observe) (auto intro!: rel_bind rel_pure rel_sleep)

lemmas quiet_rels = rel_pure rel_bind rel_if rel_observe rel_monotonic rel_act rel_sleep rel_set_line
  rel_read_rows rel_marker rel_drain rel_check rel_ready_step

end

locale quiet_port = quiet_steps +
  assumes status: "R w (w\<lparr>rs_state := st, rs_status := sts\<rparr>)"
    and opened: "R w (w\<lparr>rs_open := True, rs_acts := rs_acts w @ [Dtr False, Rts False, Opened, Dtr False, Rts False]\<rparr>)"
    and closed: "R w (w\<lparr>rs_open := False, rs_acts := rs_acts w @ [Closed]\<rparr>)"
begin

lemma rel_update_status: "io_rel R (update_status env kvs)"
  unfolding update_status_def Let_def by (intro rel_bind rel_observe rel_modify status)

lemma rel_try_open: "io_rel R (try_open env)"
  unfolding try_open_def
  by (intro rel_bind rel_observe) (auto split: option.splits intro!: rel_bind rel_pure rel_sleep rel_modify opened)

lemma rel_open_loop: "R w (snd (open_loop env args deadline err w))"
proof (induction env args deadline err w rule: open_loop.induct)
  case (1 env args deadline err w)
  let ?w1 = "elapse env 0 w"
  have a: "R w ?w1" using elapse [of 0 w env] by simp
  have b: "R ?w1 (snd (try_open env ?w1))" using rel_try_open by (simp add: io_rel_def)
  show ?case
  proof (cases "rs_now ?w1 < deadline \<and> (\<exists>m w2. try_open env ?w1 = (Inr (Some m), w2))")
    case True
    then obtain m w2 where t: "rs_now ?w1 < deadline" "try_open env ?w1 = (Inr (Some m), w2)" by blast
    from 1 [OF HOL.refl t(1) t(2) [symmetric] HOL.refl HOL.refl] show ?thesis
      using trans [OF trans [OF a b]] t by (simp add: open_loop.simps [of env args deadline err w])
  next
    case False
    then show ?thesis using a trans [OF a b]
      by (auto simp: open_loop.simps [of env args deadline err w] Let_def split: prod.splits sum.splits option.splits)
  qed
qed

lemma rel_open_serial: "io_rel R (open_serial env args)"
  unfolding open_serial_def by (intro rel_bind rel_monotonic) (simp add: io_rel_def rel_open_loop)

lemma rel_reconnect: "io_rel R (drain_or_reconnect env args)"
proof -
  have "io_rel R (\<lambda>w. if rs_open w then (Inr (), w\<lparr>rs_open := False, rs_acts := rs_acts w @ [Closed]\<rparr>) else (Inr (), w))"
    by (simp add: io_rel_def closed refl)
  then show ?thesis unfolding drain_or_reconnect_def
    by (intro rel_bind rel_if rel_pure rel_drain rel_open_serial rel_marker)
qed

end

definition clock_kept :: "restart_world \<Rightarrow> restart_world \<Rightarrow> bool" where
  "clock_kept w w' \<longleftrightarrow> rs_now w \<le> rs_now w'"

interpretation clock: quiet_port clock_kept
  by unfold_locales (auto simp: clock_kept_def elapse_def)

lemma ready_step_waits: "ready_step env w = (Inr False, w') \<Longrightarrow> rs_now w + 1 / 10 \<le> rs_now w'"
  by (auto simp: ready_step_def check_collector_def collector_listening_def observe_def io_bind_def io_run sleep_def act_def
      elapse_def split: option.splits if_splits)

function wait_for_collector :: "restart_env \<Rightarrow> real \<Rightarrow> unit restart" where
  "wait_for_collector env deadline w =
     (let w1 = elapse env 0 w
      in if rs_now w1 < deadline then
           (case ready_step env w1 of
              (Inl e, w2) \<Rightarrow> (Inl e, w2)
            | (Inr True, w2) \<Rightarrow> (Inr (), w2)
            | (Inr False, w2) \<Rightarrow> wait_for_collector env deadline w2)
         else (Inl (RuntimeError ''collector did not become ready''), w1))"
  by pat_completeness auto
termination
proof (relation "measure (\<lambda>(env, deadline, w). left (1 / 10) deadline w)")
  fix env deadline w w1 r w2 y
  assume a: "w1 = elapse env 0 w" "rs_now w1 < deadline" "(r, w2) = ready_step env w1" "r = Inr y" "y = False"
  have "rs_now w \<le> rs_now w1" using elapse_now [of 0 w env] a(1) by simp
  moreover have "rs_now w1 + 1 / 10 \<le> rs_now w2" using ready_step_waits a(3-5) by metis
  ultimately have "left (1 / 10) deadline w2 < left (1 / 10) deadline w"
    using a(2) by (intro left_decreases) simp_all
  then show "((env, deadline, w2), env, deadline, w) \<in> measure (\<lambda>(env, deadline, w). left (1 / 10) deadline w)" by simp
qed simp

declare wait_for_collector.simps [simp del]

text \<open>One pass of the wait for a trial: the complete rows then, or None when the time is over.\<close>

definition await_step :: "restart_env \<Rightarrow> restart_args \<Rightarrow> real \<Rightarrow> (string, string) dict list option restart" where
  "await_step env args deadline =
     io_bind (monotonic env) (\<lambda>now.
       if now < deadline then
         io_then (check_collector env) (io_then (drain_or_reconnect env args) (io_then (sleep env (1 / 4))
           (io_bind (read_rows env) (\<lambda>rs. io_return (Some rs)))))
       else io_return None)"

lemma await_step_waits:
  assumes "await_step env args deadline w = (Inr (Some rs), w')"
  shows "rs_now w < deadline" and "rs_now w + 1 / 4 \<le> rs_now w'"
proof -
  obtain now w1 where m: "monotonic env w = (Inr now, w1)" by (simp add: monotonic_def Let_def)
  have 1: "rs_now w \<le> rs_now w1" "now = rs_now w1" using m by (auto simp: monotonic_def Let_def elapse_def)
  obtain w2 w3 w4 where d: "now < deadline" "check_collector env w1 = (Inr (), w2)"
    "drain_or_reconnect env args w2 = (Inr (), w3)" "sleep env (1 / 4) w3 = (Inr (), w4)" "read_rows env w4 = (Inr rs, w')"
    using assms m by (auto simp: await_step_def io_simps io_run split: if_splits)
  have "rs_now w1 \<le> rs_now w2" "rs_now w2 \<le> rs_now w3"
    using clock.rel_check clock.rel_reconnect d by (metis clock_kept_def io_rel_def snd_conv)+
  moreover have "rs_now w3 + 1 / 4 \<le> rs_now w4"
    using d(4) by (auto simp: sleep_def act_def elapse_def io_bind_def io_run)
  moreover have "rs_now w4 \<le> rs_now w'" using d(5) by (auto simp: read_rows_def observe_def elapse_def)
  ultimately show "rs_now w + 1 / 4 \<le> rs_now w'" using 1 by simp
  show "rs_now w < deadline" using 1 d(1) by simp
qed

function await_trial ::
    "restart_env \<Rightarrow> restart_args \<Rightarrow> real \<Rightarrow> nat \<Rightarrow> (string, string) dict list \<Rightarrow> (string, string) dict list restart" where
  "await_trial env args deadline before rs w =
     (if length rs > before then (Inr rs, w)
      else (case await_step env args deadline w of
              (Inl e, w') \<Rightarrow> (Inl e, w')
            | (Inr None, w') \<Rightarrow> (Inr rs, w')
            | (Inr (Some rs'), w') \<Rightarrow> await_trial env args deadline before rs' w'))"
  by pat_completeness auto
termination
proof (relation "measure (\<lambda>(env, args, deadline, before, rs, w). left (1 / 4) deadline w)")
  fix env args deadline before and rs :: "(string, string) dict list" and w r w' y rs'
  assume a: "(r, w') = await_step env args deadline w" "r = Inr y" "y = Some rs'"
  then have "await_step env args deadline w = (Inr (Some rs'), w')" by simp
  from left_decreases [OF _ await_step_waits [OF this]]
  show "((env, args, deadline, before, rs', w'), env, args, deadline, before, rs, w)
      \<in> measure (\<lambda>(env, args, deadline, before, rs, w). left (1 / 4) deadline w)" by simp
qed simp

declare await_trial.simps [simp del]

context quiet_steps
begin

lemma rel_wait: "R w (snd (wait_for_collector env deadline w))"
proof (induction env deadline w rule: wait_for_collector.induct)
  case (1 env deadline w)
  let ?w1 = "elapse env 0 w"
  have a: "R w ?w1" using elapse [of 0 w env] by simp
  have b: "R ?w1 (snd (ready_step env ?w1))" using rel_ready_step by (simp add: io_rel_def)
  show ?case
  proof (cases "rs_now ?w1 < deadline \<and> (\<exists>w2. ready_step env ?w1 = (Inr False, w2))")
    case True
    then obtain w2 where t: "rs_now ?w1 < deadline" "ready_step env ?w1 = (Inr False, w2)" by blast
    from 1 [OF HOL.refl t(1) t(2) [symmetric] HOL.refl HOL.refl] show ?thesis
      using trans [OF trans [OF a b]] t by (simp add: wait_for_collector.simps [of env deadline w])
  next
    case False
    then show ?thesis using a trans [OF a b]
      by (auto simp: wait_for_collector.simps [of env deadline w] Let_def split: prod.splits sum.splits bool.splits)
  qed
qed

end

context quiet_port
begin

lemma rel_await_step: "io_rel R (await_step env args deadline)"
  unfolding await_step_def
  by (intro rel_bind rel_monotonic rel_if rel_pure rel_check rel_reconnect rel_sleep rel_read_rows)

lemma rel_await_trial: "R w (snd (await_trial env args deadline before rs w))"
proof (induction env args deadline before rs w rule: await_trial.induct)
  case (1 env args deadline before rs w)
  have a: "R w (snd (await_step env args deadline w))" using rel_await_step by (simp add: io_rel_def)
  show ?case
  proof (cases "length rs \<le> before \<and> (\<exists>rs' w'. await_step env args deadline w = (Inr (Some rs'), w'))")
    case True
    then obtain rs' w' where t: "\<not> before < length rs" "await_step env args deadline w = (Inr (Some rs'), w')" by auto
    from 1 [OF t(1) t(2) [symmetric] HOL.refl HOL.refl] show ?thesis
      using trans [OF a] t by (simp add: await_trial.simps [of env args deadline before rs w])
  next
    case False
    then show ?thesis using a refl
      by (auto simp: await_trial.simps [of env args deadline before rs w] split: prod.splits sum.splits option.splits)
  qed
qed

end

section \<open>One reset and its trial\<close>

definition add_row :: "restart_row \<Rightarrow> unit restart" where
  "add_row r = io_modify (\<lambda>w. w\<lparr>rs_rows := rs_rows w @ [r]\<rparr>)"

text \<open>The row of an attempt, and the number of complete trials after it.\<close>

definition record_attempt ::
    "restart_env \<Rightarrow> nat \<Rightarrow> nat \<Rightarrow> string \<Rightarrow> real \<Rightarrow> (string, string) dict list \<Rightarrow> nat restart" where
  "record_attempt env a before t elapsed rs =
     io_bind (observe env (utc env)) (\<lambda>done.
       if length rs > before then
         io_then (add_row \<lparr>reset_attempt = a, successful_index = Some (length rs - 1),
                    row_capture_id = dict_get_or (last rs) ''capture_id'' [], reset_utc = t, completed_utc = done,
                    elapsed_seconds = fmt_fixed 3 elapsed, row_outcome = ''complete''\<rparr>)
           (io_return (length rs))
       else
         io_then (add_row \<lparr>reset_attempt = a, successful_index = None, row_capture_id = [], reset_utc = t,
                    completed_utc = done, elapsed_seconds = fmt_fixed 3 elapsed, row_outcome = ''timeout''\<rparr>)
           (io_return before))"

definition attempt :: "restart_env \<Rightarrow> restart_args \<Rightarrow> nat \<Rightarrow> nat \<Rightarrow> nat restart" where
  "attempt env args completed a =
     io_then (check_collector env)
    (io_bind (observe env (utc env)) (\<lambda>t.
     io_bind (monotonic env) (\<lambda>started.
     io_then (drain_or_reconnect env args)
    (io_then (write_serial_marker env (''reset attempt '' @ str_of_nat a))
    (io_then (pulse_en env (ra_reset_pulse_ms args / 1000))
    (io_then (update_status env [(''phase'', SText ''waiting_for_trial''), (''complete_trials'', SInt (int completed)),
                (''reset_attempts'', SInt (int a)), (''last_reset_utc'', SText t)])
    (io_bind (read_rows env) (\<lambda>rs0.
     io_bind (await_trial env args (started + ra_trial_timeout args) completed rs0) (\<lambda>rs.
     io_then (drain_or_reconnect env args)
    (io_bind (monotonic env) (\<lambda>now.
     io_bind (record_attempt env a completed t (now - started) rs) (\<lambda>completed'.
     io_then (update_status env
                [(''phase'', SText (if int completed' < ra_trials args then ''running'' else ''finishing'')),
                 (''complete_trials'', SInt (int completed')), (''reset_attempts'', SInt (int a))])
    (io_then (if int completed' < ra_trials args then sleep env (ra_settle_ms args / 1000) else io_return ())
       (io_return completed'))))))))))))))"

text \<open>\<open>while completed < args.trials and attempts < args.max_attempts\<close>: both counts at the end.\<close>

function run_attempts :: "restart_env \<Rightarrow> restart_args \<Rightarrow> nat \<Rightarrow> nat \<Rightarrow> (nat \<times> nat) restart" where
  "run_attempts env args completed attempts w =
     (if int completed < ra_trials args \<and> int attempts < ra_max_attempts args then
        (case attempt env args completed (attempts + 1) w of
           (Inl e, w') \<Rightarrow> (Inl e, w')
         | (Inr completed', w') \<Rightarrow> run_attempts env args completed' (attempts + 1) w')
      else (Inr (completed, attempts), w))"
  by pat_completeness auto
termination
  by (relation "measure (\<lambda>(env, args, completed, attempts, w). nat (ra_max_attempts args) - attempts)") auto

declare run_attempts.simps [simp del]

section \<open>The run\<close>

definition collector_command :: "restart_env \<Rightarrow> restart_args \<Rightarrow> string list" where
  "collector_command env args =
     [python env, ''-u'', collector_script env, ''--port'', str_of_int (ra_port args), ''--trials'', str_of_int (ra_trials args),
      ''--out-dir'', ra_out_dir args, ''--sample-bytes'', str_of_int (ra_sample_bytes args),
      ''--bursts'', str_of_int (ra_bursts args), ''--interval-us'', str_of_int (ra_interval_us args),
      ''--payload-bytes'', ''64'', ''--payload-mode'', ''constant'', ''--nonce-hex'', ra_nonce_hex args,
      ''--idle-timeout'', float_text env (max 300 (ra_trial_timeout args * 2))]"

definition restart_metadata :: "restart_args \<Rightarrow> string \<Rightarrow> (string, status_value) dict" where
  "restart_metadata args t =
     [(''created_utc'', SText t),
      (''reset_method'', SText ''USB serial RTS pulse through the board auto-reset circuit''),
      (''reset_line'', SText ''EN''), (''power_removed'', SBool False), (''cold_power_cycle'', SBool False),
      (''one_firmware_trial_per_reset_required'', SBool True), (''target_complete_trials'', SInt (ra_trials args)),
      (''serial_device'', SText (ra_serial args)), (''serial_baud'', SInt (ra_baud args)),
      (''reset_pulse_ms'', SFloat (ra_reset_pulse_ms args)), (''sample_bytes'', SInt (ra_sample_bytes args)),
      (''bursts'', SInt (ra_bursts args)), (''interval_us'', SInt (ra_interval_us args)),
      (''fixed_nonce_hex'', SText (lower (ra_nonce_hex args)))]"

definition check_restart_args :: "restart_args \<Rightarrow> unit result" where
  "check_restart_args args =
     (if ra_trials args \<le> 0 \<or> ra_max_attempts args < ra_trials args
      then Inl (SystemExit ''--trials must be positive and --max-attempts must cover it'')
      else if ra_trial_timeout args \<le> 0 \<or> ra_reset_pulse_ms args \<le> 0 \<or> ra_settle_ms args < 0
      then Inl (SystemExit ''timeouts must be positive and --settle-ms must not be negative'')
      else rbind (fromhex (ra_nonce_hex args)) (\<lambda>nonce.
        if length nonce \<noteq> 16 then Inl (SystemExit ''--nonce-hex must contain exactly 16 bytes'') else Inr ()))"

definition start_status :: "restart_env \<Rightarrow> restart_args \<Rightarrow> unit restart" where
  "start_status env args =
     io_bind (observe env (utc env)) (\<lambda>t. io_bind (observe env (utc env)) (\<lambda>t'. io_modify (\<lambda>w.
       let st = [(''phase'', SText ''starting''), (''target_complete_trials'', SInt (ra_trials args)),
                 (''complete_trials'', SInt 0), (''reset_attempts'', SInt 0), (''serial_device'', SText (ra_serial args)),
                 (''updated_utc'', SText t)]
       in w\<lparr>rs_state := st, rs_status := rs_status w @ [st], rs_metadata := restart_metadata args t'\<rparr>)))"

definition spawn_collector :: "restart_env \<Rightarrow> restart_args \<Rightarrow> unit restart" where
  "spawn_collector env args =
     io_bind (observe env (spawn_error env)) (\<lambda>e. case e of
         Some e \<Rightarrow> io_raise e
       | None \<Rightarrow> io_modify (\<lambda>w. w\<lparr>rs_spawned := True, rs_acts := rs_acts w @ [Spawned (collector_command env args)]\<rparr>))"

text \<open>What follows the loop: the count, the collector's exit, the final status.\<close>

definition conclude :: "restart_env \<Rightarrow> restart_args \<Rightarrow> nat \<Rightarrow> nat \<Rightarrow> int restart" where
  "conclude env args completed attempts =
     (if int completed \<noteq> ra_trials args then
        io_raise (RuntimeError (''stopped after '' @ str_of_nat attempts @ '' reset attempts with ''
          @ str_of_nat completed @ ''/'' @ str_of_int (ra_trials args) @ '' complete''))
      else io_bind (observe env (wait_result env)) (\<lambda>r. case r of
          None \<Rightarrow> io_raise TimeoutError
        | Some s \<Rightarrow>
            if s \<noteq> 0 then io_raise (exited s)
            else io_bind (observe env (utc env)) (\<lambda>t.
              io_then (update_status env [(''phase'', SText ''complete''), (''complete_trials'', SInt (int completed)),
                  (''reset_attempts'', SInt (int attempts)), (''finished_utc'', SText t)])
                (io_return 0))))"

definition restart_body :: "restart_env \<Rightarrow> restart_args \<Rightarrow> int restart" where
  "restart_body env args =
     io_then (open_serial env args)
    (io_then (io_modify (\<lambda>w. w\<lparr>rs_logging := True\<rparr>))
    (io_bind (drain_serial env) (\<lambda>_.
     io_then (spawn_collector env args)
    (io_then (update_status env [(''collector_pid'', SInt (collector_pid env)), (''phase'', SText ''waiting_for_collector'')])
    (io_bind (monotonic env) (\<lambda>t.
     io_then (wait_for_collector env (t + 10))
    (io_bind (read_rows env) (\<lambda>rs.
     io_bind (run_attempts env args (length rs) 0) (\<lambda>(completed, attempts).
       conclude env args completed attempts)))))))))"

text \<open>
  \<open>except Exception\<close>: the failure goes to the status file. Nothing in the body raises an exception
  of another kind.
\<close>

definition guarded :: "restart_env \<Rightarrow> int restart \<Rightarrow> int restart" where
  "guarded env body w =
     (case body w of
        (Inr c, w') \<Rightarrow> (Inr c, w')
      | (Inl e, w') \<Rightarrow>
          io_then (update_status env [(''phase'', SText ''failed''), (''error'', SText (error_text env e))]) (io_return 1) w')"

definition stop_collector :: "restart_env \<Rightarrow> unit restart" where
  "stop_collector env =
     io_bind (io_get rs_spawned) (\<lambda>spawned.
       if \<not> spawned then io_return ()
       else io_bind (observe env (polls env)) (\<lambda>p. case p of
           Some _ \<Rightarrow> io_return ()
         | None \<Rightarrow> io_then (act Interrupted) (io_bind (observe env (wait_result env)) (\<lambda>r. case r of
               Some _ \<Rightarrow> io_return () | None \<Rightarrow> act Terminated))))"

definition clean_up :: "restart_env \<Rightarrow> unit restart" where
  "clean_up env =
     io_then (stop_collector env)
    (io_bind (io_get (\<lambda>w. rs_logging w \<and> rs_open w)) (\<lambda>l.
     io_bind (if l then drain_serial env else io_return True) (\<lambda>_.
     io_bind (io_get rs_open) (\<lambda>opn.
       if opn then
         io_then (set_line env (Dtr False)) (io_then (set_line env (Rts False))
           (io_modify (\<lambda>w. w\<lparr>rs_open := False, rs_acts := rs_acts w @ [Closed]\<rparr>)))
       else io_return ()))))"

definition restart_main :: "restart_env \<Rightarrow> restart_args \<Rightarrow> int restart" where
  "restart_main env args =
     io_bind (io_lift (check_restart_args args)) (\<lambda>_.
       if out_exists env then io_raise FileExistsError
       else io_then (start_status env args)
              (io_finally (guarded env (restart_body env args)) (clean_up env)))"

definition begin_restart :: restart_world where
  "begin_restart =
     \<lparr>rs_now = 0, rs_tick = 0, rs_open = False, rs_spawned = False, rs_logging = False, rs_acts = [], rs_state = [],
      rs_status = [], rs_metadata = [], rs_serial = [], rs_rows = []\<rparr>"

end
