(* ===== verification/PyHoare.thy ===== *)
theory PyHoare
  imports PyIO
begin

text \<open>
  Triples for code with side effects: from a state in \<open>P\<close> a step returns with \<open>Q\<close> of its value
  and the new state, or raises with \<open>E\<close> of the new state. The rules follow the structure of the
  code; what a step leaves alone is taken from a relation it keeps.
\<close>

definition io_spec :: "('s \<Rightarrow> bool) \<Rightarrow> ('s, 'a) io \<Rightarrow> ('a \<Rightarrow> 's \<Rightarrow> bool) \<Rightarrow> ('s \<Rightarrow> bool) \<Rightarrow> bool" where
  "io_spec P m Q E \<longleftrightarrow> (\<forall>s. P s \<longrightarrow> (case m s of (Inr x, t) \<Rightarrow> Q x t | (Inl e, t) \<Rightarrow> E t))"

lemma io_specD:
  "io_spec P m Q E \<Longrightarrow> P s \<Longrightarrow> m s = (Inr x, t) \<Longrightarrow> Q x t"
  "io_spec P m Q E \<Longrightarrow> P s \<Longrightarrow> m s = (Inl e, t) \<Longrightarrow> E t"
  by (fastforce simp: io_spec_def)+

lemma io_spec_bind:
  "io_spec P m Q E \<Longrightarrow> (\<And>x. io_spec (Q x) (f x) R E) \<Longrightarrow> io_spec P (io_bind m f) R E"
  unfolding io_spec_def io_bind_def by (fastforce split: prod.splits sum.splits)

lemma io_spec_return: "(\<And>s. P s \<Longrightarrow> Q x s) \<Longrightarrow> io_spec P (io_return x) Q E"
  by (simp add: io_spec_def io_run)

lemma io_spec_raise: "(\<And>s. P s \<Longrightarrow> E s) \<Longrightarrow> io_spec P (io_raise e) Q E"
  by (simp add: io_spec_def io_run)

lemma io_spec_modify: "(\<And>s. P s \<Longrightarrow> Q () (f s)) \<Longrightarrow> io_spec P (io_modify f) Q E"
  by (simp add: io_spec_def io_run)

lemma io_spec_get: "(\<And>s. P s \<Longrightarrow> Q (f s) s) \<Longrightarrow> io_spec P (io_get f) Q E"
  by (simp add: io_spec_def io_run)

lemma io_spec_if:
  "(b \<Longrightarrow> io_spec P m Q E) \<Longrightarrow> (\<not> b \<Longrightarrow> io_spec P n Q E) \<Longrightarrow> io_spec P (if b then m else n) Q E"
  by simp

lemma io_spec_pre: "io_spec P m Q E \<Longrightarrow> (\<And>s. P' s \<Longrightarrow> P s) \<Longrightarrow> io_spec P' m Q E"
  by (simp add: io_spec_def)

lemma io_spec_post:
  "io_spec P m Q E \<Longrightarrow> (\<And>x s. Q x s \<Longrightarrow> Q' x s) \<Longrightarrow> (\<And>s. E s \<Longrightarrow> E' s) \<Longrightarrow> io_spec P m Q' E'"
  unfolding io_spec_def by (fastforce split: prod.splits sum.splits)

text \<open>What holds of the state is kept by a step that keeps it along a relation.\<close>

lemma io_spec_frame:
  assumes "io_rel R m" and "\<And>s t. R s t \<Longrightarrow> P s \<Longrightarrow> P t"
  shows "io_spec P m (\<lambda>_. P) P"
  using assms unfolding io_spec_def io_rel_def by (auto split: prod.splits sum.splits) (metis snd_conv)+

lemma io_spec_frame':
  assumes "io_rel R m" and "\<And>s t. R s t \<Longrightarrow> P s \<Longrightarrow> P t" and "\<And>s. P s \<Longrightarrow> E s"
  shows "io_spec P m (\<lambda>_. P) E"
  by (rule io_spec_post [OF io_spec_frame [OF assms(1,2)]]) (use assms(3) in auto)

end
