(* ===== verification/Restart.thy ===== *)
theory Restart
  imports RestartRun PyHoare
begin

text \<open>
  Facts about the restart experiment: the table of attempts, the status at the end, the resets,
  and what is left behind when the program ends.
\<close>

section \<open>The table of attempts\<close>

definition successes :: "restart_row list \<Rightarrow> nat list" where
  "successes rs = List.map_filter successful_index rs"

definition table_ok :: "nat \<Rightarrow> restart_row list \<Rightarrow> nat \<Rightarrow> bool" where
  "table_ok start rs completed \<longleftrightarrow>
     map reset_attempt rs = [1..<Suc (length rs)]
     \<and> (\<forall>r \<in> set rs. row_outcome r = (if successful_index r = None then ''timeout'' else ''complete''))
     \<and> sorted_wrt (<) (successes rs) \<and> (\<forall>i \<in> set (successes rs). start \<le> i)
     \<and> completed = (if successes rs = [] then start else Suc (last (successes rs)))"

lemma table_ok_Nil: "table_ok start [] start"
  by (simp add: table_ok_def successes_def List.map_filter_def)

lemma table_ok_timeout:
  assumes "table_ok start rs c" and "reset_attempt r = Suc (length rs)" and "successful_index r = None"
    and "row_outcome r = ''timeout''"
  shows "table_ok start (rs @ [r]) c"
proof -
  have "successes (rs @ [r]) = successes rs" using assms(3) by (simp add: successes_def List.map_filter_def)
  then show ?thesis using assms by (auto simp: table_ok_def)
qed

lemma table_ok_complete:
  assumes "table_ok start rs c" and "reset_attempt r = Suc (length rs)" and "successful_index r = Some (n - 1)"
    and "row_outcome r = ''complete''" and "c < n"
  shows "table_ok start (rs @ [r]) n"
proof -
  have s: "successes (rs @ [r]) = successes rs @ [n - 1]" using assms(3) by (simp add: successes_def List.map_filter_def)
  have c: "c = (if successes rs = [] then start else Suc (last (successes rs)))" "sorted_wrt (<) (successes rs)"
    "\<forall>i \<in> set (successes rs). start \<le> i"
    using assms(1) by (auto simp: table_ok_def)
  have l: "i \<le> last (successes rs)" if "i \<in> set (successes rs)" for i
    using c(2) that by (cases "successes rs" rule: rev_cases) (auto simp: sorted_wrt_append)
  have "i < n - 1" if "i \<in> set (successes rs)" for i
    using l [OF that] c(1) that assms(5) by (auto split: if_splits)
  moreover have "start \<le> n - 1"
  proof (cases "successes rs = []")
    case False
    then have "start \<le> last (successes rs)" using c(3) last_in_set [OF False] by blast
    then show ?thesis using c(1) False assms(5) by simp
  qed (use c(1) assms(5) in simp)
  ultimately show ?thesis using assms s c(2,3)
    by (auto simp: table_ok_def sorted_wrt_append simp del: upt_Suc) (simp_all add: upt_Suc)
qed

section \<open>What the steps leave alone\<close>

definition same_rows :: "restart_world \<Rightarrow> restart_world \<Rightarrow> bool" where
  "same_rows w w' \<longleftrightarrow> rs_rows w' = rs_rows w"

interpretation rows: quiet_port same_rows
  by unfold_locales (auto simp: same_rows_def elapse_def)

text \<open>\<open>calm\<close>: EN is not driven low and no reset is added; \<open>steady\<close>: the port stays as it is, too.\<close>

fun en_low :: "bool \<Rightarrow> restart_act list \<Rightarrow> bool" where
  "en_low b [] = b"
| "en_low b (a # as) = en_low (case a of Rts r \<Rightarrow> r | _ \<Rightarrow> b) as"

definition resets :: "restart_act list \<Rightarrow> nat" where
  "resets as = count_list as (Rts True)"

lemma en_low_append: "en_low b (as @ as') = en_low (en_low b as) as'"
  by (induction as arbitrary: b) simp_all

definition calm :: "restart_world \<Rightarrow> restart_world \<Rightarrow> bool" where
  "calm w w' \<longleftrightarrow>
     (en_low False (rs_acts w') \<longrightarrow> en_low False (rs_acts w)) \<and> resets (rs_acts w') = resets (rs_acts w)"

lemma quiet_act_calm: "quiet_act a \<Longrightarrow> (case a of Rts r \<Rightarrow> r | _ \<Rightarrow> b) \<longrightarrow> b"
  by (auto simp: quiet_act_def split: restart_act.splits)

interpretation calm: quiet_port calm
proof unfold_locales
  fix a w assume q: "quiet_act a"
  then have "a \<noteq> Rts True" by (simp add: quiet_act_def)
  then show "calm w (w\<lparr>rs_acts := rs_acts w @ [a]\<rparr>)"
    using quiet_act_calm [OF q] by (auto simp: calm_def en_low_append resets_def)
qed (auto simp: calm_def elapse_def en_low_append resets_def)

definition steady :: "restart_world \<Rightarrow> restart_world \<Rightarrow> bool" where
  "steady w w' \<longleftrightarrow> calm w w' \<and> rs_open w' = rs_open w"

interpretation steady: quiet_steps steady
  using calm.refl calm.trans calm.elapse calm.serial calm.acts
  by unfold_locales (auto simp: steady_def elapse_def)

section \<open>One attempt\<close>

lemma await_trial_rows:
  "io_rel same_rows (await_trial env args deadline before rs)"
  by (simp add: io_rel_def rows.rel_await_trial)

lemma rows_pulse: "io_rel same_rows (pulse_en env s)"
proof -
  have "io_rel same_rows (set_line env a)" for a
    unfolding set_line_def act_def
    by (intro rows.rel_bind rows.rel_observe) (auto split: option.splits intro!: rows.rel_pure rows.rel_modify simp: same_rows_def)
  then show ?thesis unfolding pulse_en_def by (intro rows.rel_bind rows.rel_sleep)
qed

text \<open>What the table is after an attempt, whether it returns or raises.\<close>

definition at_attempt :: "nat \<Rightarrow> nat \<Rightarrow> nat \<Rightarrow> restart_world \<Rightarrow> bool" where
  "at_attempt start n c w \<longleftrightarrow> table_ok start (rs_rows w) c \<and> length (rs_rows w) = n"

lemma same_rows_at: "same_rows w w' \<Longrightarrow> at_attempt start n c w \<Longrightarrow> at_attempt start n c w'"
  by (simp add: same_rows_def at_attempt_def)

definition some_table :: "nat \<Rightarrow> nat \<Rightarrow> restart_world \<Rightarrow> bool" where
  "some_table start m w \<longleftrightarrow> (\<exists>n c. n \<le> m \<and> at_attempt start n c w)"

lemma rows_spec:
  "io_rel same_rows m \<Longrightarrow> n \<le> k \<Longrightarrow> io_spec (at_attempt start n c) m (\<lambda>_. at_attempt start n c) (some_table start k)"
  by (rule io_spec_frame' [where R = same_rows]) (auto intro: same_rows_at simp: some_table_def)

lemma record_attempt_spec:
  assumes "a = Suc n"
  shows "io_spec (at_attempt start n c) (record_attempt env a c t d rs) (\<lambda>c'. at_attempt start a c') (some_table start a)"
  unfolding record_attempt_def
proof (rule io_spec_bind [OF rows_spec [OF rows.rel_observe, of n a]])
  fix x
  show "io_spec (at_attempt start n c)
     (if length rs > c then
         io_then (add_row \<lparr>reset_attempt = a, successful_index = Some (length rs - 1),
                    row_capture_id = dict_get_or (last rs) ''capture_id'' [], reset_utc = t, completed_utc = x,
                    elapsed_seconds = fmt_fixed 3 d, row_outcome = ''complete''\<rparr>)
           (io_return (length rs))
       else
         io_then (add_row \<lparr>reset_attempt = a, successful_index = None, row_capture_id = [], reset_utc = t,
                    completed_utc = x, elapsed_seconds = fmt_fixed 3 d, row_outcome = ''timeout''\<rparr>)
           (io_return c)) (\<lambda>c'. at_attempt start a c') (some_table start a)"
    using assms table_ok_complete [of start _ c _ "length rs"] table_ok_timeout [of start _ c]
    by (auto simp: io_spec_def add_row_def io_bind_def io_run at_attempt_def)
qed (use assms in simp)

lemma attempt_spec:
  assumes "a = Suc n"
  shows "io_spec (at_attempt start n c) (attempt env args c a) (\<lambda>c'. at_attempt start a c') (some_table start a)"
proof -
  note before = rows_spec [where n = n and k = a and start = start and c = c]
  note after = rows_spec [where n = a and k = a and start = start]
  have le: "n \<le> a" using assms by simp
  show ?thesis unfolding attempt_def
    by (rule io_spec_bind, rule before [OF rows.rel_check le], rule io_spec_bind, rule before [OF rows.rel_observe le],
        rule io_spec_bind, rule before [OF rows.rel_monotonic le], rule io_spec_bind, rule before [OF rows.rel_reconnect le],
        rule io_spec_bind, rule before [OF rows.rel_marker le], rule io_spec_bind, rule before [OF rows_pulse le],
        rule io_spec_bind, rule before [OF rows.rel_update_status le], rule io_spec_bind, rule before [OF rows.rel_read_rows le],
        rule io_spec_bind, rule before [OF await_trial_rows le], rule io_spec_bind, rule before [OF rows.rel_reconnect le],
        rule io_spec_bind, rule before [OF rows.rel_monotonic le], rule io_spec_bind, rule record_attempt_spec [OF assms],
        rule io_spec_bind, rule after [OF rows.rel_update_status order_refl], rule io_spec_bind,
        rule after [OF rows.rel_if [OF rows.rel_sleep rows.rel_pure(1)] order_refl], rule io_spec_return, assumption)
qed


lemma some_table_mono: "some_table start m w \<Longrightarrow> m \<le> k \<Longrightarrow> some_table start k w"
  unfolding some_table_def using order_trans by blast

text \<open>The loop, for any invariant of the attempts.\<close>

lemma run_attempts_rule:
  assumes step: "\<And>n c. io_spec (I n c) (attempt env args c (Suc n)) (\<lambda>c'. I (Suc n) c') (E (Suc n))"
    and mono: "\<And>m k w. E m w \<Longrightarrow> m \<le> k \<Longrightarrow> E k w"
  shows "io_spec (I n c) (run_attempts env args c n)
     (\<lambda>(c', n') w. I n' c' w \<and> n' \<le> max n (nat (ra_max_attempts args))) (E (max n (nat (ra_max_attempts args))))"
proof -
  have "case run_attempts env args c n w of
      (Inr (c', n'), t) \<Rightarrow> I n' c' t \<and> n' \<le> max n (nat (ra_max_attempts args))
    | (Inl e, t) \<Rightarrow> E (max n (nat (ra_max_attempts args))) t" if "I n c w" for w n c
    using that
  proof (induction "nat (ra_max_attempts args) - n" arbitrary: n c w rule: less_induct)
    case less
    show ?case
    proof (cases "int c < ra_trials args \<and> int n < ra_max_attempts args")
      case True
      note i = less.prems
      have le: "Suc n \<le> nat (ra_max_attempts args)" using True by linarith
      obtain r w' where a: "attempt env args c (Suc n) w = (r, w')" by force
      show ?thesis
      proof (cases r)
        case (Inl e)
        then have "E (Suc n) w'" using io_specD(2) [OF step i] a by simp
        then have "E (max n (nat (ra_max_attempts args))) w'" by (rule mono) (use le in simp)
        then show ?thesis using a Inl True by (simp add: run_attempts.simps [of env args c n w])
      next
        case (Inr c')
        then have "I (Suc n) c' w'" using io_specD(1) [OF step i] a by simp
        then show ?thesis
          using less.hyps [of "Suc n" c' w'] True a Inr le by (auto simp: run_attempts.simps [of env args c n w] max_def split: prod.splits sum.splits)
      qed
    next
      case False
      then have "run_attempts env args c n w = (Inr (c, n), w)" by (subst run_attempts.simps) (simp only: if_False)
      then show ?thesis using less.prems by simp
    qed
  qed
  then show ?thesis unfolding io_spec_def by (fastforce split: prod.splits sum.splits)
qed

lemma run_attempts_spec:
  "io_spec (at_attempt start n c) (run_attempts env args c n)
     (\<lambda>(c', n') w. at_attempt start n' c' w \<and> n' \<le> max n (nat (ra_max_attempts args)))
     (some_table start (max n (nat (ra_max_attempts args))))"
  by (rule run_attempts_rule [where I = "\<lambda>n c. at_attempt start n c" and E = "some_table start", OF attempt_spec [OF refl] some_table_mono])

section \<open>The outcome\<close>

definition status_text :: "restart_world \<Rightarrow> string \<Rightarrow> status_value option" where
  "status_text w k = dict_get (rs_state w) k"

lemma update_status_run:
  assumes "update_status env kvs w = (r, w')"
  shows "r = Inr () \<and> rs_rows w' = rs_rows w \<and> rs_status w' = rs_status w @ [rs_state w']
    \<and> (\<exists>t. rs_state w' = dict_update (rs_state w) (kvs @ [(''updated_utc'', SText t)]))"
  using assms by (auto simp: update_status_def observe_def io_bind_def io_run elapse_def Let_def)

definition concluded :: "restart_args \<Rightarrow> nat \<Rightarrow> nat \<Rightarrow> restart_world \<Rightarrow> bool" where
  "concluded args n c w \<longleftrightarrow>
     int c = ra_trials args \<and> status_text w ''phase'' = Some (SText ''complete'')
     \<and> status_text w ''complete_trials'' = Some (SInt (int c)) \<and> status_text w ''reset_attempts'' = Some (SInt (int n))
     \<and> rs_status w \<noteq> [] \<and> last (rs_status w) = rs_state w"

lemma conclude_spec:
  "io_spec (at_attempt start n c) (conclude env args c n)
     (\<lambda>ec w. ec = 0 \<and> at_attempt start n c w \<and> concluded args n c w) (at_attempt start n c)"
proof -
  have o: "io_spec (at_attempt start n c) (observe env f) (\<lambda>_. at_attempt start n c) (at_attempt start n c)" for f :: "nat \<Rightarrow> 'x"
    by (rule io_spec_frame [OF rows.rel_observe]) (rule same_rows_at)
  have u: "io_spec (at_attempt start n c)
      (update_status env [(''phase'', SText ''complete''), (''complete_trials'', SInt (int c)),
         (''reset_attempts'', SInt (int n)), (''finished_utc'', SText t)])
      (\<lambda>_ w. at_attempt start n c w \<and> (int c = ra_trials args \<longrightarrow> concluded args n c w)) (at_attempt start n c)" for t
    unfolding io_spec_def
    by (auto dest!: update_status_run simp: at_attempt_def concluded_def status_text_def dict_update_def split: prod.splits sum.splits)
  show ?thesis
  proof (cases "int c = ra_trials args")
    case True
    let ?u = "\<lambda>t. io_then (update_status env [(''phase'', SText ''complete''), (''complete_trials'', SInt (int c)),
         (''reset_attempts'', SInt (int n)), (''finished_utc'', SText t)]) (io_return 0)"
    let ?Q = "\<lambda>ec w. ec = 0 \<and> at_attempt start n c w \<and> concluded args n c w"
    have v: "io_spec (at_attempt start n c) (?u t) ?Q (at_attempt start n c)" for t
      by (rule io_spec_bind [OF u io_spec_return]) (simp add: True)
    have "io_spec (at_attempt start n c) (case r of None \<Rightarrow> io_raise TimeoutError
        | Some s \<Rightarrow> if s \<noteq> 0 then io_raise (exited s) else io_bind (observe env (utc env)) ?u) ?Q (at_attempt start n c)" for r
      by (cases r) (simp_all only: option.case, auto intro!: io_spec_raise io_spec_if io_spec_bind [OF o] v)
    then show ?thesis unfolding conclude_def by (subst if_not_P) (simp add: True, intro io_spec_bind [OF o])
  qed (auto simp: conclude_def intro: io_spec_raise)
qed

definition any_table :: "restart_args \<Rightarrow> restart_world \<Rightarrow> bool" where
  "any_table args w \<longleftrightarrow> (\<exists>start. some_table start (nat (ra_max_attempts args)) w)"

definition finished :: "restart_args \<Rightarrow> restart_world \<Rightarrow> bool" where
  "finished args w \<longleftrightarrow>
     (\<exists>start n c. n \<le> nat (ra_max_attempts args) \<and> at_attempt start n c w \<and> concluded args n c w)"

lemma body_spec:
  "io_spec (\<lambda>w. rs_rows w = []) (restart_body env args) (\<lambda>ec w. ec = 0 \<and> finished args w) (any_table args)"
proof -
  have e: "rs_rows w = [] \<Longrightarrow> any_table args w" for w
    unfolding any_table_def some_table_def at_attempt_def using table_ok_Nil by (metis list.size(3) zero_le)
  have f: "io_rel same_rows m \<Longrightarrow> io_spec (\<lambda>w. rs_rows w = []) m (\<lambda>_ w. rs_rows w = []) (any_table args)" for m :: "'x restart"
    by (rule io_spec_frame' [where R = same_rows]) (auto simp: same_rows_def e)
  have w: "io_rel same_rows (wait_for_collector env d)" for d
    by (simp add: io_rel_def rows.rel_wait)
  have m: "io_rel same_rows (io_modify (\<lambda>w. w\<lparr>rs_logging := True\<rparr>))" by (rule rows.rel_modify) (simp add: same_rows_def)
  have s: "io_rel same_rows (spawn_collector env args)"
    unfolding spawn_collector_def
    by (intro rows.rel_bind rows.rel_observe) (auto split: option.splits intro!: rows.rel_pure rows.rel_modify simp: same_rows_def)
  have a: "io_spec (\<lambda>w. rs_rows w = []) (run_attempts env args c 0)
     (\<lambda>(c', n') w. at_attempt c n' c' w \<and> n' \<le> nat (ra_max_attempts args)) (any_table args)" for c
    by (rule io_spec_post [OF io_spec_pre [OF run_attempts_spec [of c 0 c]]])
      (auto simp: at_attempt_def table_ok_Nil any_table_def)
  have c: "io_spec (\<lambda>w. at_attempt st n' c' w \<and> n' \<le> nat (ra_max_attempts args)) (conclude env args c' n')
     (\<lambda>ec w. ec = 0 \<and> finished args w) (any_table args)" for st n' c'
    unfolding io_spec_def
  proof (intro allI impI, elim conjE)
    fix w assume p: "at_attempt st n' c' w" "n' \<le> nat (ra_max_attempts args)"
    show "case conclude env args c' n' w of (Inr x, t) \<Rightarrow> x = 0 \<and> finished args t | (Inl e, t) \<Rightarrow> any_table args t"
      using io_specD [OF conclude_spec p(1), of env args] p(2)
      by (fastforce simp: finished_def any_table_def some_table_def split: prod.splits sum.splits)
  qed
  show ?thesis unfolding restart_body_def
    by (rule io_spec_bind, rule f [OF rows.rel_open_serial], rule io_spec_bind, rule f [OF m],
        rule io_spec_bind, rule f [OF rows.rel_drain], rule io_spec_bind, rule f [OF s],
        rule io_spec_bind, rule f [OF rows.rel_update_status], rule io_spec_bind, rule f [OF rows.rel_monotonic],
        rule io_spec_bind, rule f [OF w], rule io_spec_bind, rule f [OF rows.rel_read_rows],
        rule io_spec_bind, rule a) (use c in \<open>auto split: prod.splits\<close>)
qed


definition same_files :: "restart_world \<Rightarrow> restart_world \<Rightarrow> bool" where
  "same_files w w' \<longleftrightarrow> rs_rows w' = rs_rows w \<and> rs_state w' = rs_state w \<and> rs_status w' = rs_status w"

interpretation files: quiet_steps same_files
  by unfold_locales (auto simp: same_files_def elapse_def)

text \<open>What \<open>clean_up\<close> does to a relation that the end of the run keeps.\<close>

context quiet_steps
begin

lemma rel_stop_collector: "io_rel R (stop_collector env)"
proof -
  have "io_rel R (case r of Some _ \<Rightarrow> io_return () | None \<Rightarrow> act Terminated)" for r :: "int option"
    by (auto split: option.splits intro: rel_pure rel_act)
  then have "io_rel R (case p of Some _ \<Rightarrow> io_return () | None \<Rightarrow> io_then (act Interrupted)
      (io_bind (observe env (wait_result env)) (\<lambda>r. case r of Some _ \<Rightarrow> io_return () | None \<Rightarrow> act Terminated)))" for p :: "int option"
    by (auto split: option.splits intro!: rel_pure rel_act rel_bind rel_observe)
  then show ?thesis unfolding stop_collector_def
    by (intro rel_bind rel_pure) (auto intro!: rel_pure rel_bind rel_observe)
qed

end

lemma files_clean_up: "io_rel same_files (clean_up env)"
  unfolding clean_up_def
  by (intro files.rel_bind files.rel_stop_collector files.rel_pure files.rel_if files.rel_drain files.rel_set_line
      files.rel_modify quiet_acts) (simp add: same_files_def)

lemma finished_code:
  assumes "restart_main env args begin_restart = (Inr ec, w)"
  shows "ec = 0 \<or> ec = 1"
proof -
  obtain w0 w1 where w: "start_status env args begin_restart = (Inr (), w0)"
    "guarded env (restart_body env args) w0 = (Inr ec, w1)"
    using assms by (auto simp: restart_main_def io_simps io_run split: if_splits)
  have r0: "rs_rows w0 = []" using w(1)
    by (auto simp: start_status_def io_bind_def observe_def io_run elapse_def begin_restart_def Let_def)
  obtain r w' where b: "restart_body env args w0 = (r, w')" by force
  show ?thesis
  proof (cases r)
    case (Inr c)
    then show ?thesis using io_specD(1) [OF body_spec, of w0 env args c w'] r0 b w(2) by (simp add: guarded_def)
  next
    case (Inl e)
    then show ?thesis using w(2) b by (auto simp: guarded_def io_simps io_run)
  qed
qed


section \<open>The reset line and the port\<close>

definition at_rest :: "nat \<Rightarrow> restart_world \<Rightarrow> bool" where
  "at_rest k w \<longleftrightarrow> \<not> en_low False (rs_acts w) \<and> rs_open w \<and> resets (rs_acts w) = k"

definition loose :: "nat \<Rightarrow> restart_world \<Rightarrow> bool" where
  "loose k w \<longleftrightarrow> (en_low False (rs_acts w) \<longrightarrow> rs_open w) \<and> resets (rs_acts w) \<le> k"

lemma at_rest_loose: "at_rest k w \<Longrightarrow> k \<le> m \<Longrightarrow> loose m w"
  by (simp add: at_rest_def loose_def)

lemma loose_mono: "loose m w \<Longrightarrow> m \<le> k \<Longrightarrow> loose k w"
  by (simp add: loose_def)

lemma steady_spec: "io_rel steady m \<Longrightarrow> k \<le> j \<Longrightarrow> io_spec (at_rest k) m (\<lambda>_. at_rest k) (loose j)"
  by (rule io_spec_frame' [where R = steady]) (auto simp: steady_def calm_def at_rest_def loose_def)

lemma steady_status: "io_rel steady (update_status env kvs)"
  using calm.rel_update_status [of env kvs]
  by (auto simp: io_rel_def steady_def update_status_def observe_def io_bind_def io_run elapse_def Let_def)

text \<open>Quiet with the port closed in between: open again, or an exception.\<close>

definition high :: "nat \<Rightarrow> restart_world \<Rightarrow> bool" where
  "high k w \<longleftrightarrow> \<not> en_low False (rs_acts w) \<and> resets (rs_acts w) = k"

lemma calm_spec: "io_rel calm m \<Longrightarrow> k \<le> j \<Longrightarrow> io_spec (high k) m (\<lambda>_. high k) (loose j)"
  by (rule io_spec_frame' [where R = calm]) (auto simp: calm_def high_def loose_def)

lemma open_loop_opens: "open_loop env args deadline err w = (Inr x, w') \<Longrightarrow> rs_open w'"
proof (induction env args deadline err w rule: open_loop.induct)
  case (1 env args deadline err w)
  have o: "rs_open t" if "try_open env v = (Inr None, t)" for v t
    using that by (auto simp: try_open_def observe_def io_bind_def io_run sleep_def act_def split: option.splits)
  show ?case
  proof (cases "rs_now (elapse env 0 w) < deadline \<and> (\<exists>m w2. try_open env (elapse env 0 w) = (Inr (Some m), w2))")
    case True
    then obtain m w2 where t: "rs_now (elapse env 0 w) < deadline" "try_open env (elapse env 0 w) = (Inr (Some m), w2)" by blast
    then show ?thesis
      using "1.IH" [OF refl t(1) t(2) [symmetric] refl refl] "1.prems" by (simp add: open_loop.simps [of env args deadline err w])
  next
    case False
    then show ?thesis using "1.prems" o
      by (auto simp: open_loop.simps [of env args deadline err w] Let_def split: if_splits prod.splits sum.splits option.splits)
  qed
qed

lemma open_serial_spec: "k \<le> j \<Longrightarrow> io_spec (high k) (open_serial env args) (\<lambda>_. at_rest k) (loose j)"
proof -
  assume "k \<le> j"
  then have "io_spec (high k) (open_serial env args) (\<lambda>_. high k) (loose j)" by (rule calm_spec [OF calm.rel_open_serial])
  moreover have "open_serial env args w = (Inr x, t) \<Longrightarrow> rs_open t" for w x t
    by (auto simp: open_serial_def monotonic_def io_bind_def Let_def intro: open_loop_opens)
  ultimately show ?thesis unfolding io_spec_def by (fastforce simp: high_def at_rest_def split: prod.splits sum.splits)
qed

lemma reconnect_spec: "k \<le> j \<Longrightarrow> io_spec (at_rest k) (drain_or_reconnect env args) (\<lambda>_. at_rest k) (loose j)"
proof -
  assume kj: "k \<le> j"
  let ?c = "\<lambda>w. if rs_open w then (Inr (), w\<lparr>rs_open := False, rs_acts := rs_acts w @ [Closed]\<rparr>) else (Inr (), w)"
  have c: "io_spec (at_rest k) ?c (\<lambda>_. high k) (loose j)"
    by (simp add: io_spec_def at_rest_def high_def en_low_append resets_def)
  have r: "io_spec (at_rest k) (io_then ?c (io_then (open_serial env args) (write_serial_marker env ''serial device reconnected'')))
     (\<lambda>_. at_rest k) (loose j)"
    by (rule io_spec_bind [OF c], rule io_spec_bind [OF open_serial_spec [OF kj]], rule steady_spec [OF steady.rel_marker kj])
  show ?thesis unfolding drain_or_reconnect_def
    by (rule io_spec_bind [OF steady_spec [OF steady.rel_drain kj]], rule io_spec_if, rule io_spec_return, assumption, rule r)
qed

lemma await_step_spec: "k \<le> j \<Longrightarrow> io_spec (at_rest k) (await_step env args deadline) (\<lambda>_. at_rest k) (loose j)"
proof -
  assume kj: "k \<le> j"
  note s = steady_spec [OF _ kj]
  show ?thesis unfolding await_step_def
    by (rule io_spec_bind [OF s [OF steady.rel_monotonic]], rule io_spec_if, rule io_spec_bind [OF s [OF steady.rel_check]],
        rule io_spec_bind [OF reconnect_spec [OF kj]], rule io_spec_bind [OF s [OF steady.rel_sleep]],
        rule io_spec_bind [OF s [OF steady.rel_read_rows]], (rule io_spec_return, assumption)+)
qed

lemma await_trial_spec:
  assumes "k \<le> j"
  shows "io_spec (at_rest k) (await_trial env args deadline before rs) (\<lambda>_. at_rest k) (loose j)"
proof -
  have "at_rest k w \<Longrightarrow> case await_trial env args deadline before rs w of (Inr x, t) \<Rightarrow> at_rest k t | (Inl e, t) \<Rightarrow> loose j t" for w
  proof (induction env args deadline before rs w rule: await_trial.induct)
    case (1 env args deadline before rs w)
    obtain r w' where a: "await_step env args deadline w = (r, w')" by force
    note sp = io_specD [OF await_step_spec [OF assms] "1.prems"]
    show ?case
    proof (cases "before < length rs \<or> (\<nexists>rs'. r = Inr (Some rs'))")
      case True
      then show ?thesis using sp a "1.prems"
        by (auto simp: await_trial.simps [of env args deadline before rs w] split: sum.splits option.splits)
    next
      case False
      then obtain rs' where r: "\<not> before < length rs" "r = Inr (Some rs')" by blast
      then have "at_rest k w'" using sp(1) a by simp
      from "1.IH" [OF r(1) a [symmetric] r(2) refl this] show ?thesis
        using a r by (simp add: await_trial.simps [of env args deadline before rs w])
    qed
  qed
  then show ?thesis by (auto simp: io_spec_def)
qed

lemma set_line_cases:
  "set_line env a w = (Inr (), t) \<Longrightarrow> t = (elapse env 0 w)\<lparr>rs_acts := rs_acts w @ [a]\<rparr>"
  "set_line env a w = (Inl e, t) \<Longrightarrow> t = elapse env 0 w"
  by (auto simp: set_line_def observe_def act_def io_bind_def io_run elapse_def split: option.splits)

definition driven :: "nat \<Rightarrow> restart_world \<Rightarrow> bool" where
  "driven k w \<longleftrightarrow> rs_open w \<and> resets (rs_acts w) = k"

lemma pulse_spec: "io_spec (at_rest k) (pulse_en env s) (\<lambda>_. at_rest (Suc k)) (loose (Suc k))"
proof -
  have 1: "io_spec (at_rest k) (set_line env (Rts True)) (\<lambda>_. driven (Suc k)) (loose (Suc k))"
    unfolding io_spec_def
    by (auto dest!: set_line_cases simp: at_rest_def driven_def loose_def resets_def elapse_def split: prod.splits sum.splits)
  have 2: "io_spec (driven (Suc k)) (sleep env s) (\<lambda>_. driven (Suc k)) (loose (Suc k))"
    by (rule io_spec_frame' [OF steady.rel_sleep]) (auto simp: steady_def calm_def driven_def loose_def)
  have 3: "io_spec (driven (Suc k)) (set_line env (Rts False)) (\<lambda>_. at_rest (Suc k)) (loose (Suc k))"
    unfolding io_spec_def
    by (auto dest!: set_line_cases simp: at_rest_def driven_def loose_def resets_def elapse_def en_low_append split: prod.splits sum.splits)
  show ?thesis unfolding pulse_en_def
    by (rule io_spec_bind [OF steady_spec [OF steady.rel_set_line]]) (auto intro: io_spec_bind [OF 1] io_spec_bind [OF 2] 3)
qed

lemma attempt_rest:
  "io_spec (at_rest n) (attempt env args c (Suc n)) (\<lambda>_. at_rest (Suc n)) (loose (Suc n))"
proof -
  have le: "n \<le> Suc n" by simp
  note before = steady_spec [OF _ le] and after = steady_spec [OF _ order_refl, of _ "Suc n"]
  have rec: "io_spec (at_rest (Suc n)) (record_attempt env a c t d rs) (\<lambda>_. at_rest (Suc n)) (loose (Suc n))" for a t d rs
    by (rule after) (auto simp: record_attempt_def add_row_def intro!: steady.rel_bind steady.rel_observe steady.rel_if
      steady.rel_pure steady.rel_modify simp: steady_def calm_def)
  show ?thesis unfolding attempt_def
    by (rule io_spec_bind [OF before [OF steady.rel_check]], rule io_spec_bind [OF before [OF steady.rel_observe]],
        rule io_spec_bind [OF before [OF steady.rel_monotonic]], rule io_spec_bind [OF reconnect_spec [OF le]],
        rule io_spec_bind [OF before [OF steady.rel_marker]], rule io_spec_bind [OF pulse_spec],
        rule io_spec_bind [OF after [OF steady_status]], rule io_spec_bind [OF after [OF steady.rel_read_rows]],
        rule io_spec_bind [OF await_trial_spec [OF order_refl]], rule io_spec_bind [OF reconnect_spec [OF order_refl]],
        rule io_spec_bind [OF after [OF steady.rel_monotonic]], rule io_spec_bind [OF rec],
        rule io_spec_bind [OF after [OF steady_status]],
        rule io_spec_bind [OF after [OF steady.rel_if [OF steady.rel_sleep steady.rel_pure(1)]]], rule io_spec_return, assumption)
qed

lemma body_rest:
  "io_spec (high 0) (restart_body env args) (\<lambda>_. loose (nat (ra_max_attempts args))) (loose (nat (ra_max_attempts args)))"
proof -
  let ?m = "nat (ra_max_attempts args)"
  note s = steady_spec [OF _ le0, of _ ?m]
  have l: "io_rel steady (io_modify (\<lambda>w. w\<lparr>rs_logging := True\<rparr>))" by (rule steady.rel_modify) (simp add: steady_def calm_def)
  have sp: "io_rel steady (spawn_collector env args)"
    unfolding spawn_collector_def by (intro steady.rel_bind steady.rel_observe)
      (auto split: option.splits intro!: steady.rel_pure steady.rel_modify simp: steady_def calm_def en_low_append resets_def)
  have w: "io_rel steady (wait_for_collector env d)" for d by (simp add: io_rel_def steady.rel_wait)
  have a: "io_spec (at_rest 0) (run_attempts env args c 0) (\<lambda>(c', n') w. at_rest n' w \<and> n' \<le> ?m) (loose ?m)" for c
    using run_attempts_rule [where I = "\<lambda>n c. at_rest n" and E = loose and n = 0 and c = c, OF attempt_rest loose_mono] by simp
  have c: "io_rel steady (conclude env args c' n')" for c' n'
  proof -
    let ?u = "\<lambda>t. io_then (update_status env [(''phase'', SText ''complete''), (''complete_trials'', SInt (int c')),
         (''reset_attempts'', SInt (int n')), (''finished_utc'', SText t)]) (io_return 0)"
    have "io_rel steady (case r of None \<Rightarrow> io_raise TimeoutError
        | Some s \<Rightarrow> if s \<noteq> 0 then io_raise (exited s) else io_bind (observe env (utc env)) ?u)" for r
      by (auto split: option.splits intro!: steady.rel_pure steady.rel_bind steady.rel_observe steady_status)
    then show ?thesis unfolding conclude_def by (intro steady.rel_if steady.rel_pure steady.rel_bind steady.rel_observe)
  qed
  have c': "io_spec (\<lambda>w. at_rest n' w \<and> n' \<le> ?m) (conclude env args c' n') (\<lambda>_. loose ?m) (loose ?m)" for c' n'
    by (rule io_spec_post [OF io_spec_frame' [OF c, where E = "loose ?m"]])
      (auto simp: at_rest_def loose_def steady_def calm_def)
  show ?thesis unfolding restart_body_def
    by (rule io_spec_bind [OF open_serial_spec [OF le0]], rule io_spec_bind [OF s [OF l]], rule io_spec_bind [OF s [OF steady.rel_drain]],
        rule io_spec_bind [OF s [OF sp]], rule io_spec_bind [OF s [OF steady_status]], rule io_spec_bind [OF s [OF steady.rel_monotonic]],
        rule io_spec_bind [OF s [OF w]], rule io_spec_bind [OF s [OF steady.rel_read_rows]], rule io_spec_bind [OF a])
      (use c' in \<open>auto split: prod.splits\<close>)
qed

definition collector_stopped :: "restart_env \<Rightarrow> restart_world \<Rightarrow> bool" where
  "collector_stopped env w \<longleftrightarrow> (rs_spawned w \<longrightarrow> Interrupted \<in> set (rs_acts w) \<or> (\<exists>k s. polls env k = Some s))"

lemma stop_collector_spec: "stop_collector env w = (r, t) \<Longrightarrow> r = Inr () \<and> collector_stopped env t"
  by (auto simp: stop_collector_def collector_stopped_def observe_def act_def io_bind_def io_run elapse_def split: if_splits option.splits)

definition acts_grow :: "restart_env \<Rightarrow> restart_world \<Rightarrow> restart_world \<Rightarrow> bool" where
  "acts_grow env w w' \<longleftrightarrow> (collector_stopped env w \<longrightarrow> collector_stopped env w')"

interpretation grow: quiet_steps "acts_grow env" for env
  by unfold_locales (auto simp: acts_grow_def collector_stopped_def elapse_def)

lemma clean_up_spec:
  assumes "clean_up env w = (Inr (), t)" and "loose k w"
  shows "\<not> rs_open t \<and> \<not> en_low False (rs_acts t) \<and> resets (rs_acts t) \<le> k \<and> collector_stopped env t"
proof -
  obtain r w1 where 1: "stop_collector env w = (r, w1)" by force
  have c1: "r = Inr ()" "collector_stopped env w1" "steady w w1"
    using stop_collector_spec [OF 1] steady.rel_stop_collector [of env] 1 by (auto simp: io_rel_def) (metis snd_conv)
  let ?d = "if rs_logging w1 \<and> rs_open w1 then drain_serial env else io_return True"
  obtain r2 w2 where 2: "?d w1 = (r2, w2)" by force
  have "io_rel steady ?d" by (intro steady.rel_if steady.rel_drain steady.rel_pure)
  moreover have "io_rel (acts_grow env) ?d" by (intro grow.rel_if grow.rel_drain grow.rel_pure)
  ultimately have c2: "steady w1 w2" "acts_grow env w1 w2" using 2 by (metis io_rel_def snd_conv)+
  have d: "\<exists>b. r2 = Inr b" using 2
    by (auto simp: drain_serial_def observe_def io_bind_def io_run split: if_splits option.splits)
  have l: "loose k w2" using assms(2) c1(3) c2(1) by (auto simp: loose_def steady_def calm_def)
  have s: "collector_stopped env w2" using c1(2) c2(2) by (simp add: acts_grow_def)
  show ?thesis
  proof (cases "rs_open w2")
    case False
    then have "t = w2" using assms(1) 1 2 c1(1) d by (auto simp: clean_up_def io_bind_def io_run)
    then show ?thesis using False l s by (simp add: loose_def)
  next
    case True
    then obtain w3 w4 where "set_line env (Dtr False) w2 = (Inr (), w3)" "set_line env (Rts False) w3 = (Inr (), w4)"
      "t = w4\<lparr>rs_open := False, rs_acts := rs_acts w4 @ [Closed]\<rparr>"
      using assms(1) 1 2 c1(1) d by (auto simp: clean_up_def io_bind_def io_run split: prod.splits sum.splits)
    then show ?thesis using l s
      by (auto dest!: set_line_cases simp: loose_def en_low_append resets_def elapse_def collector_stopped_def)
  qed
qed

lemma guarded_returns: "\<exists>ec t. guarded env body w = (Inr ec, t)"
proof -
  obtain r w' where b: "body w = (r, w')" by force
  show ?thesis
  proof (cases r)
    case (Inl e)
    obtain r2 w2 where u: "update_status env [(''phase'', SText ''failed''), (''error'', SText (error_text env e))] w' = (r2, w2)"
      by force
    then show ?thesis using update_status_run [OF u] b Inl by (simp add: guarded_def io_bind_def io_run)
  qed (simp add: guarded_def b)
qed

lemma guarded_rest: "high 0 w \<Longrightarrow> guarded env (restart_body env args) w = (r, t) \<Longrightarrow> loose (nat (ra_max_attempts args)) t"
proof -
  assume h: "high 0 w" and g: "guarded env (restart_body env args) w = (r, t)"
  obtain r1 w1 where b: "restart_body env args w = (r1, w1)" by force
  then have l: "loose (nat (ra_max_attempts args)) w1" using io_specD [OF body_rest h] by (cases r1) auto
  show ?thesis
  proof (cases r1)
    case (Inl e)
    let ?u = "update_status env [(''phase'', SText ''failed''), (''error'', SText (error_text env e))]"
    obtain r2 w2 where u: "?u w1 = (r2, w2)" by force
    then have "steady w1 w2" using steady_status by (metis io_rel_def snd_conv)
    moreover have "t = w2" using g b Inl u update_status_run [OF u] by (simp add: guarded_def io_bind_def io_run)
    ultimately show ?thesis using l by (auto simp: loose_def steady_def calm_def)
  qed (use g b l in \<open>simp add: guarded_def\<close>)
qed

lemma begin_high: "start_status env args begin_restart = (r, w) \<Longrightarrow> r = Inr () \<and> high 0 w"
  by (auto simp: start_status_def observe_def io_bind_def io_run elapse_def begin_restart_def high_def resets_def Let_def)


lemma clean_up_returns:
  assumes "\<And>k. line_error env k = None"
  shows "\<exists>t. clean_up env w = (Inr (), t)"
proof -
  have l: "\<exists>t. set_line env a w = (Inr (), t)" for a w
    using assms by (simp add: set_line_def observe_def act_def io_bind_def io_run)
  have d: "\<exists>b t. drain_serial env w = (Inr b, t)" for w
    by (simp add: drain_serial_def observe_def io_bind_def io_run split: option.splits) blast
  show ?thesis
  proof -
    obtain w2 where 1: "stop_collector env w = (Inr (), w2)" using stop_collector_spec by (metis surj_pair)
    obtain b w3 where 2: "(if rs_logging w2 \<and> rs_open w2 then drain_serial env else io_return True) w2 = (Inr b, w3)"
    proof -
      have "\<exists>b w3. (if rs_logging w2 \<and> rs_open w2 then drain_serial env else io_return True) w2 = (Inr b, w3)"
        using d [of w2] by (cases "rs_logging w2 \<and> rs_open w2") (simp_all add: io_run, blast)
      then show ?thesis using that by blast
    qed
    obtain w4 w5 where "set_line env (Dtr False) w3 = (Inr (), w4)" "set_line env (Rts False) w4 = (Inr (), w5)" using l by blast
    then show ?thesis using 1 2 by (cases "rs_open w3") (simp_all add: clean_up_def io_bind_def io_run)
  qed
qed

text \<open>
  C27: The run ends. The waits for the serial device, the collector and each trial are over after a
  time, since the clock moves on with every pause, and the resets are bounded: with accepted
  arguments and a new output directory the program returns 0 or 1, unless the driver fails while the
  port is given back.
\<close>

theorem restart_ends:
  assumes "check_restart_args args = Inr ()" and "\<not> out_exists env" and "\<And>k. line_error env k = None"
  shows "\<exists>ec w. restart_main env args begin_restart = (Inr ec, w) \<and> ec \<in> {0, 1}"
proof -
  obtain w0 where s: "start_status env args begin_restart = (Inr (), w0)" using begin_high by (metis surj_pair)
  obtain ec w1 where g: "guarded env (restart_body env args) w0 = (Inr ec, w1)" using guarded_returns by blast
  have "\<exists>t. clean_up env w1 = (Inr (), t)" using assms(3) by (rule clean_up_returns)
  then obtain w where "clean_up env w1 = (Inr (), w)" by blast
  then have m: "restart_main env args begin_restart = (Inr ec, w)"
    using assms(1,2) s g by (simp add: restart_main_def io_bind_def io_run io_finally_def)
  have "ec \<in> {0, 1}" using finished_code [OF m] by blast
  then show ?thesis using m by blast
qed

text \<open>
  A trial that completes after its timeout is credited to the next reset. The attempt compares the
  table of the collector with the count from before the wait of the previous attempt: if the trial
  of an earlier reset was recorded in between, and nothing has changed since, the next attempt
  resets the board, does not wait at all, and records this trial, with its identifier, as the
  successful outcome of its own reset.
\<close>

theorem late_trial_credited:
  assumes "\<And>k. table_at env k = Table rs" and "completed < length (complete_rows (Table rs))"
    and "\<And>k. polls env k = None" and "\<And>k. input_at env k = Some []" and "\<And>k. line_error env k = None"
    and "0 \<le> ra_reset_pulse_ms args" and "int (length (complete_rows (Table rs))) = ra_trials args"
  shows "\<exists>r w'. attempt env args completed a w = (Inr (length (complete_rows (Table rs))), w')
    \<and> rs_rows w' = rs_rows w @ [r] \<and> reset_attempt r = a \<and> row_outcome r = ''complete''
    \<and> row_capture_id r = dict_get_or (last (complete_rows (Table rs))) ''capture_id'' []
    \<and> rs_acts w' = rs_acts w @ [Dtr False, Rts True, Slept (ra_reset_pulse_ms args / 1000), Rts False]"
proof -
  have d: "drain_or_reconnect env args = io_modify (elapse env 0)"
    using assms(4) by (intro ext) (simp add: drain_or_reconnect_def drain_serial_def observe_def io_bind_def io_run elapse_def)
  have p: "pulse_en env (ra_reset_pulse_ms args / 1000) v = (Inr (),
      (elapse env 0 (elapse env (ra_reset_pulse_ms args / 1000) (elapse env 0 (elapse env 0 v))))\<lparr>rs_acts := rs_acts v @
        [Dtr False, Rts True, Slept (ra_reset_pulse_ms args / 1000), Rts False]\<rparr>)" for v
    using assms(5,6) by (simp add: pulse_en_def set_line_def observe_def sleep_def act_def io_bind_def io_run elapse_def)
  show ?thesis using assms(1-3,7)
    by (simp add: attempt_def check_collector_def d p read_rows_def observe_def io_bind_def io_run monotonic_def
        write_serial_marker_def update_status_def await_trial.simps record_attempt_def add_row_def Let_def)
      (simp add: elapse_def)
qed

section \<open>A small run\<close>

definition demo_row :: "(string, string) dict" where
  "demo_row = [(''capture_id'', ''7''), (''complete'', ''True'')]"

text \<open>The collector records a trial while the first reset is under way.\<close>

definition demo_restart :: restart_env where
  "demo_restart =
     \<lparr>late = (\<lambda>_. 0), polls = (\<lambda>_. None), wait_result = (\<lambda>_. Some 0),
      table_at = (\<lambda>k. if k < 20 then Absent else Table [demo_row]), log_at = (\<lambda>_. Some ''[collector] listening''),
      input_at = (\<lambda>_. Some []), open_error = (\<lambda>_. None), line_error = (\<lambda>_. None), spawn_error = (\<lambda>_. None),
      utc = (\<lambda>_. ''t''), collector_pid = 4, out_exists = False, error_text = (\<lambda>_. ''e''), float_text = (\<lambda>_. ''300.0''),
      python = ''python3'', collector_script = ''aeb_collector.py''\<rparr>"

definition demo_restart_args :: restart_args where
  "demo_restart_args =
     \<lparr>ra_serial = ''/dev/ttyUSB0'', ra_baud = 921600, ra_trials = 1, ra_port = 7778, ra_out_dir = ''out'',
      ra_trial_timeout = 60, ra_max_attempts = 2, ra_reset_pulse_ms = 100, ra_settle_ms = 250, ra_sample_bytes = 8192,
      ra_bursts = 64, ra_interval_us = 1000, ra_nonce_hex = replicate 32 (CHR ''0'')\<rparr>"

lemma demo_restart_accepted: "check_restart_args demo_restart_args = Inr ()"
proof -
  have "fromhex (replicate 32 (CHR ''0'')) = Inr (replicate 16 0)"
    by (simp add: numeral_eq_Suc is_ascii_space_def digit_value_def code_def byte_of_nat_def)
  then show ?thesis by (simp add: check_restart_args_def demo_restart_args_def)
qed

lemma demo_restart_fields:
  "late demo_restart k = 0" "polls demo_restart k = None" "wait_result demo_restart k = Some 0"
  "table_at demo_restart k = (if k < 20 then Absent else Table [demo_row])"
  "log_at demo_restart k = Some ''[collector] listening''" "input_at demo_restart k = Some []"
  "open_error demo_restart k = None" "line_error demo_restart k = None" "spawn_error demo_restart k = None"
  "\<not> out_exists demo_restart"
  by (simp_all add: demo_restart_def)

lemma demo_restart_steps:
  "observe demo_restart f w = (Inr (f (rs_tick w)), w\<lparr>rs_tick := rs_tick w + 1\<rparr>)"
  "monotonic demo_restart w = (Inr (rs_now w), w\<lparr>rs_tick := rs_tick w + 1\<rparr>)"
  "0 \<le> d \<Longrightarrow> sleep demo_restart d w =
     (Inr (), w\<lparr>rs_now := rs_now w + d, rs_tick := rs_tick w + 1, rs_acts := rs_acts w @ [Slept d]\<rparr>)"
  "set_line demo_restart a w = (Inr (), w\<lparr>rs_tick := rs_tick w + 1, rs_acts := rs_acts w @ [a]\<rparr>)"
  "drain_serial demo_restart w = (Inr True, w\<lparr>rs_tick := rs_tick w + 1\<rparr>)"
  "drain_or_reconnect demo_restart args w = (Inr (), w\<lparr>rs_tick := rs_tick w + 1\<rparr>)"
  "open_serial demo_restart args w = (Inr (), w\<lparr>rs_tick := rs_tick w + 3, rs_open := True,
     rs_acts := rs_acts w @ [Dtr False, Rts False, Opened, Dtr False, Rts False]\<rparr>)"
  by (simp_all add: observe_def monotonic_def sleep_def set_line_def drain_serial_def drain_or_reconnect_def open_serial_def
      open_loop.simps try_open_def act_def elapse_def io_bind_def io_run demo_restart_fields Let_def)

lemma demo_restart_numbers:
  "ra_trials demo_restart_args = 1" "ra_max_attempts demo_restart_args = 2" "ra_reset_pulse_ms demo_restart_args = 100"
  "ra_settle_ms demo_restart_args = 250"
  by (simp_all add: demo_restart_args_def)

lemma demo_collector_ready: "rs_now w < deadline \<Longrightarrow> wait_for_collector demo_restart deadline w = (Inr (), w\<lparr>rs_tick := rs_tick w + 3\<rparr>)"
proof -
  have "contains ''[collector] listening'' ''[collector] listening''" by (simp add: contains_def)
  moreover assume "rs_now w < deadline"
  ultimately show ?thesis
    by (simp add: wait_for_collector.simps ready_step_def check_collector_def collector_listening_def io_bind_def io_run
        demo_restart_steps demo_restart_fields elapse_def Let_def)
qed

definition demo_after :: "(string \<times> status_value) list \<Rightarrow> restart_world \<Rightarrow> restart_world" where
  "demo_after kvs w = snd (update_status demo_restart kvs w)"

lemma demo_status:
  "update_status demo_restart kvs w = (Inr (), demo_after kvs w)"
  "rs_tick (demo_after kvs w) = rs_tick w + 1" "rs_now (demo_after kvs w) = rs_now w"
  by (simp_all add: demo_after_def update_status_def demo_restart_steps io_bind_def io_run Let_def)

lemma demo_attempt: "rs_tick w = 13 \<Longrightarrow> \<exists>w'. attempt demo_restart demo_restart_args 0 1 w = (Inr 1, w')"
  by (simp add: attempt_def check_collector_def demo_restart_steps demo_restart_fields demo_restart_numbers io_bind_def io_run
      write_serial_marker_def pulse_en_def read_rows_def complete_rows_def demo_row_def dict_get_def await_trial.simps
      record_attempt_def add_row_def demo_status del: One_nat_def)

lemma demo_restart_run: "\<exists>w. restart_main demo_restart demo_restart_args begin_restart = (Inr 0, w)"
proof -
  obtain w0 where s: "start_status demo_restart demo_restart_args begin_restart = (Inr (), w0)" "rs_tick w0 = 2"
    by (simp add: start_status_def demo_restart_steps io_bind_def io_run begin_restart_def Let_def)
  have c: "\<exists>w'. conclude demo_restart demo_restart_args 1 1 w = (Inr 0, w')" for w
    by (simp add: conclude_def demo_restart_numbers demo_restart_steps demo_restart_fields demo_status io_bind_def io_run)
  have r: "\<exists>w'. run_attempts demo_restart demo_restart_args 0 0 w = (Inr (1, 1), w')" if t: "rs_tick w = 13" for w
  proof -
    obtain w' where "attempt demo_restart demo_restart_args 0 1 w = (Inr 1, w')" using demo_attempt [OF t] by blast
    then show ?thesis by (simp add: run_attempts.simps demo_restart_numbers)
  qed
  have "\<exists>w'. restart_body demo_restart demo_restart_args w0 = (Inr 0, w')"
  proof -
    let ?t = "\<lambda>w'. restart_body demo_restart demo_restart_args w0 = io_bind (run_attempts demo_restart demo_restart_args 0 0)
        (\<lambda>(completed, attempts). conclude demo_restart demo_restart_args completed attempts) w' \<and> rs_tick w' = 13"
    have "\<exists>w'. ?t w'"
      by (simp add: restart_body_def spawn_collector_def demo_restart_steps demo_restart_fields demo_status demo_collector_ready s(2)
          io_bind_def io_run read_rows_def complete_rows_def) (rule exI, rule conjI, rule refl, simp add: demo_status s(2))
    then obtain w' where w': "?t w'" by blast
    obtain w2 where w2: "run_attempts demo_restart demo_restart_args 0 0 w' = (Inr (1, 1), w2)" using r w' by blast
    then show ?thesis using w' c [of w2] by (simp add: io_bind_def)
  qed
  then obtain w1 where g: "restart_body demo_restart demo_restart_args w0 = (Inr 0, w1)" by blast
  have "\<And>k. line_error demo_restart k = None" by (simp add: demo_restart_fields)
  then obtain w where "clean_up demo_restart w1 = (Inr (), w)" using clean_up_returns by blast
  then show ?thesis
    using s g by (simp add: restart_main_def io_bind_def io_run demo_restart_accepted demo_restart_fields io_finally_def guarded_def)
qed



theorem restart_ends_witness: "\<exists>ec w. restart_main demo_restart demo_restart_args begin_restart = (Inr ec, w) \<and> ec \<in> {0, 1}"
  using restart_ends [OF demo_restart_accepted] demo_restart_fields by blast

theorem late_trial_credited_witness:
  "\<exists>r w'. attempt (demo_restart\<lparr>table_at := \<lambda>_. Table [demo_row]\<rparr>) demo_restart_args 0 2 begin_restart = (Inr 1, w')
     \<and> rs_rows w' = [r] \<and> reset_attempt r = 2 \<and> row_capture_id r = ''7''"
proof -
  let ?e = "demo_restart\<lparr>table_at := \<lambda>_. Table [demo_row]\<rparr>"
  have r: "complete_rows (Table [demo_row]) = [demo_row]" by (simp add: complete_rows_def demo_row_def dict_get_def)
  have "\<exists>r w'. attempt ?e demo_restart_args 0 2 begin_restart = (Inr (length (complete_rows (Table [demo_row]))), w')
    \<and> rs_rows w' = rs_rows begin_restart @ [r] \<and> reset_attempt r = 2 \<and> row_outcome r = ''complete''
    \<and> row_capture_id r = dict_get_or (last (complete_rows (Table [demo_row]))) ''capture_id'' []
    \<and> rs_acts w' = rs_acts begin_restart @
        [Dtr False, Rts True, Slept (ra_reset_pulse_ms demo_restart_args / 1000), Rts False]"
    by (rule late_trial_credited) (simp_all add: r demo_restart_fields demo_restart_numbers)
  then obtain x w' where "attempt ?e demo_restart_args 0 2 begin_restart = (Inr 1, w')" "rs_rows w' = [x]" "reset_attempt x = 2"
    "row_capture_id x = dict_get_or demo_row ''capture_id'' []"
    unfolding r by (auto simp: begin_restart_def)
  moreover have "dict_get_or demo_row ''capture_id'' [] = ''7''" by (simp add: demo_row_def dict_get_or_def dict_get_def)
  ultimately show ?thesis by auto
qed

end
