(* ===== verification/RenewalLog.thy ===== *)
theory RenewalLog
  imports PyNumber Stats
begin

text \<open>
  The parser of the entropy-renewal logs (\<open>parse_renewal_log.py\<close>): the tagged lines of the serial
  log, the rows of the iterations with the figures derived from them, the summary, and the CSV
  rows. A text file is its text. Facts: what the firmware prints is read back; what an iteration's
  derived figures are; how the rates of the summary account for each other; what a broken row does.
\<close>

section \<open>Reading a log\<close>

definition BASE_FIELDS :: "string list" where
  "BASE_FIELDS =
     [''iter'', ''ret'', ''elapsed_us'', ''response_bytes'', ''accepted_net_bytes'', ''rng_block_calls'', ''rng_block_bytes'',
      ''rng_byte_calls'', ''rng_byte_bytes'', ''local_hw_bytes'', ''external_bytes'', ''pool_debit_bytes'',
      ''thread_get_bytes'', ''isr_get_bytes'', ''fast_refill_bytes'', ''pool_credit_bits_pre'', ''pool_credit_bits_post'']"

definition EXTRA_FIELDS_V2 :: "string list" where
  "EXTRA_FIELDS_V2 =
     [''rng_block_cycles'', ''rng_byte_cycles'', ''rng_errors'', ''pool_timestamp_us_pre'', ''pool_timestamp_us_post'']"

definition DERIVED_FIELDS :: "string list" where
  "DERIVED_FIELDS =
     [''rng_output_bytes'', ''supply_bytes'', ''pool_credit_delta_bits'', ''out_minus_supply_bytes'', ''iteration_active_s'',
      ''iteration_wall_s'', ''cumulative_wall_s'']"

definition FIELDS :: "string list" where "FIELDS = BASE_FIELDS @ EXTRA_FIELDS_V2"

definition RENEWAL_CSV_FIELDS :: "string list" where "RENEWAL_CSV_FIELDS = FIELDS @ DERIVED_FIELDS"

type_synonym meta = "(string, string) dict"
type_synonym iteration = "(string, int) dict"

record renewal_state =
  rn_meta :: meta
  rn_rows :: "iteration list"
  rn_warnings :: "string list"
  rn_errors :: "string list"

definition tagged :: "string \<Rightarrow> string \<Rightarrow> string option" where
  "tagged tag line = (if startswith line tag then Some (drop (length tag) line) else None)"

definition META :: string where "META = ''[RENEWAL_META] ''"
definition ITER :: string where "ITER = ''[RENEWAL_ITER] ''"
definition WARN :: string where "WARN = ''[RENEWAL_WARN] ''"
definition ERR :: string where "ERR = ''[RENEWAL_ERR] ''"

definition field_names :: "nat \<Rightarrow> string list option" where
  "field_names n =
     (if n = length BASE_FIELDS then Some BASE_FIELDS else if n = length FIELDS then Some FIELDS else None)"

text \<open>The row of an \<open>ITER\<close> line; \<open>None\<close> when the number of its fields is wrong.\<close>

definition read_row :: "string list \<Rightarrow> iteration option result" where
  "read_row parts =
     (case field_names (length parts) of
        None \<Rightarrow> Inr None
      | Some names \<Rightarrow>
          rbind (rmap (\<lambda>(k, p). rbind (py_int p) (\<lambda>v. Inr (k, v))) (zip names parts)) (\<lambda>kvs.
            Inr (Some (fold (\<lambda>k. dict_setdefault k 0) FIELDS (fold (\<lambda>(k, v). dict_set k v) kvs [])))))"

definition parse_renewal_line :: "string \<Rightarrow> renewal_state \<Rightarrow> renewal_state result" where
  "parse_renewal_line raw st =
     (let line = strip raw
      in case tagged META line of
           Some p \<Rightarrow>
             (case split1 CHR '','' p of None \<Rightarrow> Inr st | Some (k, v) \<Rightarrow> Inr (st\<lparr>rn_meta := dict_set k v (rn_meta st)\<rparr>))
         | None \<Rightarrow>
        (case tagged ITER line of
           Some p \<Rightarrow>
             rbind (read_row (split_on CHR '','' p)) (\<lambda>r. case r of
               None \<Rightarrow> Inr (st\<lparr>rn_warnings := rn_warnings st @ [''malformed_iter_row:'' @ p]\<rparr>)
             | Some row \<Rightarrow> Inr (st\<lparr>rn_rows := rn_rows st @ [row]\<rparr>))
         | None \<Rightarrow>
        (case tagged WARN line of
           Some p \<Rightarrow> Inr (st\<lparr>rn_warnings := rn_warnings st @ [p]\<rparr>)
         | None \<Rightarrow>
        (case tagged ERR line of
           Some p \<Rightarrow> Inr (st\<lparr>rn_errors := rn_errors st @ [p]\<rparr>)
         | None \<Rightarrow> Inr st))))"

section \<open>Derived figures\<close>

text \<open>A row with its figures: the counters, and the three times in seconds.\<close>

record enriched =
  counters :: iteration
  active_s :: real
  wall_s :: real
  cumulative_s :: real

definition inter_ms :: "meta \<Rightarrow> int result" where
  "inter_ms meta = py_int (dict_get_or meta ''inter_handshake_ms'' ''0'')"

definition derive_counters :: "iteration \<Rightarrow> iteration result" where
  "derive_counters row =
     rbind (dict_item row ''rng_block_bytes'') (\<lambda>bb. rbind (dict_item row ''rng_byte_bytes'') (\<lambda>b.
     rbind (dict_item row ''local_hw_bytes'') (\<lambda>l. rbind (dict_item row ''external_bytes'') (\<lambda>x.
     rbind (dict_item row ''pool_credit_bits_post'') (\<lambda>post. rbind (dict_item row ''pool_credit_bits_pre'') (\<lambda>pre.
     rbind (dict_item row ''pool_debit_bytes'') (\<lambda>debit.
       Inr (dict_set ''out_minus_supply_bytes'' (debit - (l + x)) (dict_set ''pool_credit_delta_bits'' (post - pre)
             (dict_set ''supply_bytes'' (l + x) (dict_set ''rng_output_bytes'' (bb + b) row)))))))))))"

fun derive_rows :: "int \<Rightarrow> real \<Rightarrow> iteration list \<Rightarrow> enriched list result" where
  "derive_rows gap cum [] = Inr []"
| "derive_rows gap cum (row # rows) =
     rbind (dict_item row ''elapsed_us'') (\<lambda>us.
       let act = of_int us / 1000000; wall = act + of_int gap / 1000
       in rbind (derive_counters row) (\<lambda>cs. rbind (derive_rows gap (cum + wall) rows) (\<lambda>rest.
            Inr (\<lparr>counters = cs, active_s = act, wall_s = wall, cumulative_s = cum + wall\<rparr> # rest))))"

definition add_derived_fields :: "meta \<Rightarrow> iteration list \<Rightarrow> enriched list result" where
  "add_derived_fields meta rows = rbind (inter_ms meta) (\<lambda>gap. derive_rows gap 0 rows)"

record renewal_log =
  rl_meta :: meta
  rl_rows :: "enriched list"
  rl_warnings :: "string list"
  rl_errors :: "string list"

definition parse_renewal_log :: "string \<Rightarrow> renewal_log result" where
  "parse_renewal_log text =
     rbind (rfold parse_renewal_line (splitlines text) \<lparr>rn_meta = [], rn_rows = [], rn_warnings = [], rn_errors = []\<rparr>) (\<lambda>st.
     rbind (add_derived_fields (rn_meta st) (rn_rows st)) (\<lambda>rows.
       Inr \<lparr>rl_meta = rn_meta st, rl_rows = rows, rl_warnings = rn_warnings st, rl_errors = rn_errors st\<rparr>))"

section \<open>The summary\<close>

record renewal_summary =
  su_logged :: nat
  su_ok :: nat
  su_failed :: int
  su_meta :: meta
  su_warnings :: "string list"
  su_errors :: "string list"
  su_figures :: "(string, figure) dict"

definition counter :: "string \<Rightarrow> enriched \<Rightarrow> int result" where
  "counter k r = dict_item (counters r) k"

definition total :: "string \<Rightarrow> enriched list \<Rightarrow> int result" where
  "total k rs = rbind (rmap (counter k) rs) (\<lambda>vs. Inr (sum_list vs))"

text \<open>\<open>a / b if b else None\<close>.\<close>

definition per :: "real \<Rightarrow> real \<Rightarrow> figure" where
  "per a b = (if b = 0 then FNone else FReal (a / b))"

definition renewal_figures :: "int \<Rightarrow> enriched list \<Rightarrow> (string, figure) dict result" where
  "renewal_figures gap good =
     rbind (total ''elapsed_us'' good) (\<lambda>us.
     rbind (rmap (counter ''rng_output_bytes'') good) (\<lambda>rng.
     rbind (total ''pool_debit_bytes'' good) (\<lambda>debit.
     rbind (total ''local_hw_bytes'' good) (\<lambda>local_hw.
     rbind (total ''external_bytes'' good) (\<lambda>external.
     rbind (total ''accepted_net_bytes'' good) (\<lambda>accepted.
     rbind (counter ''pool_credit_bits_post'' (last good)) (\<lambda>credit_end.
     rbind (counter ''pool_credit_bits_pre'' (hd good)) (\<lambda>credit_start.
     rbind (total ''rng_errors'' good) (\<lambda>errs.
       let act = of_int us / 1000000; wall = act + real (length good) * of_int gap / 1000;
           supply = local_hw + external; n = real (length good); rs = map of_int rng
       in Inr
         [(''mu_rng_output_bytes_mean'', FReal (mean rs)), (''mu_rng_output_bytes_median'', FReal (median rs)),
          (''mu_rng_output_bytes_std'', FReal (if length rng > 1 then pstdev rs else 0)),
          (''rng_output_bytes_total'', FInt (sum_list rng)), (''pool_debit_bytes_total'', FInt debit),
          (''local_hw_bytes_total'', FInt local_hw), (''external_bytes_total'', FInt external),
          (''supply_bytes_total'', FInt supply), (''accepted_network_bytes_total'', FInt accepted),
          (''elapsed_s_active'', FReal act), (''elapsed_s_wall'', FReal wall),
          (''handshake_rate_active_hz'', per n act), (''handshake_rate_wall_hz'', per n wall),
          (''lambda_out_active_Bps'', per (of_int debit) act), (''lambda_out_wall_Bps'', per (of_int debit) wall),
          (''lambda_local_wall_Bps'', per (of_int local_hw) wall), (''lambda_net_wall_Bps'', per (of_int external) wall),
          (''lambda_supply_wall_Bps'', per (of_int supply) wall),
          (''renewal_margin_wall_Bps'', per (of_int (supply - debit)) wall),
          (''renewal_supply_to_out_ratio'', per (of_int supply) (of_int debit)),
          (''drbg_expansion_factor'', per (of_int (sum_list rng)) (of_int debit)),
          (''pool_credit_bits_start'', FInt credit_start), (''pool_credit_bits_end'', FInt credit_end),
          (''pool_credit_delta_bits'', FInt (credit_end - credit_start)), (''rng_errors_total'', FInt errs)])))))))))"

definition summarize_renewal :: "renewal_log \<Rightarrow> renewal_summary result" where
  "summarize_renewal lg =
     rbind (rmap (\<lambda>r. rbind (counter ''ret'' r) (\<lambda>v. Inr (v, r))) (rl_rows lg)) (\<lambda>rets.
     rbind (inter_ms (rl_meta lg)) (\<lambda>gap.
       let good = map snd (filter (\<lambda>p. fst p = 0) rets)
       in rbind (if good = [] then Inr [] else renewal_figures gap good) (\<lambda>figs.
            Inr \<lparr>su_logged = length (rl_rows lg), su_ok = length good,
                 su_failed = int (length (rl_rows lg)) - int (length good), su_meta = rl_meta lg,
                 su_warnings = rl_warnings lg, su_errors = rl_errors lg, su_figures = figs\<rparr>)))"

text \<open>The CSV row of an iteration; \<open>DictWriter\<close> writes a missing field as the empty string.\<close>

datatype renewal_cell = CInt int | CReal real | CEmpty

definition renewal_csv_row :: "enriched \<Rightarrow> renewal_cell list" where
  "renewal_csv_row r =
     map (\<lambda>k. if k = ''iteration_active_s'' then CReal (active_s r) else if k = ''iteration_wall_s'' then CReal (wall_s r)
              else if k = ''cumulative_wall_s'' then CReal (cumulative_s r)
              else (case dict_get (counters r) k of Some v \<Rightarrow> CInt v | None \<Rightarrow> CEmpty)) RENEWAL_CSV_FIELDS"

definition renewal_main :: "string \<Rightarrow> (renewal_summary \<times> renewal_cell list list) result" where
  "renewal_main text =
     rbind (parse_renewal_log text) (\<lambda>lg. rbind (summarize_renewal lg) (\<lambda>s. Inr (s, map renewal_csv_row (rl_rows lg))))"

section \<open>What the firmware prints\<close>

text \<open>
  The lines of a log: a metadata pair, an iteration with its 22 numbers, a warning, an error, and
  anything else that carries none of the tags.
\<close>

datatype item = Meta_Item string string | Iter_Item "int list" | Warn_Item string | Err_Item string | Other_Item string

fun item_line :: "item \<Rightarrow> string" where
  "item_line (Meta_Item k v) = META @ k @ CHR '','' # v"
| "item_line (Iter_Item vs) = ITER @ join '','' (map str_of_int vs)"
| "item_line (Warn_Item s) = WARN @ s"
| "item_line (Err_Item s) = ERR @ s"
| "item_line (Other_Item s) = s"

fun item_ok :: "item \<Rightarrow> bool" where
  "item_ok (Meta_Item k v) \<longleftrightarrow> clean_text v \<and> CHR '','' \<notin> set k \<and> unbroken k"
| "item_ok (Iter_Item vs) \<longleftrightarrow> length vs = 17 \<or> length vs = 22"
| "item_ok (Warn_Item s) \<longleftrightarrow> clean_text s"
| "item_ok (Err_Item s) \<longleftrightarrow> clean_text s"
| "item_ok (Other_Item s) \<longleftrightarrow> unbroken s \<and>
     \<not> startswith (strip s) META \<and> \<not> startswith (strip s) ITER \<and> \<not> startswith (strip s) WARN \<and> \<not> startswith (strip s) ERR"

text \<open>The row of a list of printed numbers: the missing counters of the first version are zero.\<close>

definition row_of :: "int list \<Rightarrow> iteration" where
  "row_of vs = zip FIELDS (vs @ replicate (22 - length vs) 0)"

fun item_step :: "item \<Rightarrow> renewal_state \<Rightarrow> renewal_state" where
  "item_step (Meta_Item k v) st = st\<lparr>rn_meta := dict_set k v (rn_meta st)\<rparr>"
| "item_step (Iter_Item vs) st = st\<lparr>rn_rows := rn_rows st @ [row_of vs]\<rparr>"
| "item_step (Warn_Item s) st = st\<lparr>rn_warnings := rn_warnings st @ [s]\<rparr>"
| "item_step (Err_Item s) st = st\<lparr>rn_errors := rn_errors st @ [s]\<rparr>"
| "item_step (Other_Item s) st = st"


section \<open>What is printed is read back\<close>

lemma field_counts [simp]: "length BASE_FIELDS = 17" "length FIELDS = 22"
  by (simp_all add: FIELDS_def BASE_FIELDS_def EXTRA_FIELDS_V2_def)

lemma fields_distinct: "distinct FIELDS" "distinct BASE_FIELDS"
  by (simp_all add: FIELDS_def BASE_FIELDS_def EXTRA_FIELDS_V2_def)

lemma fold_set_fresh:
  "distinct (map fst kvs) \<Longrightarrow> set (map fst kvs) \<inter> set (map fst d) = {} \<Longrightarrow> fold (\<lambda>(k, v). dict_set k v) kvs d = d @ kvs"
proof (induction kvs arbitrary: d)
  case (Cons kv kvs)
  obtain k v where kv: "kv = (k, v)" by force
  have "dict_set k v d = d @ [(k, v)]"
    using Cons.prems kv by (auto simp: dict_set_def update_Some_unfold) (induction d; auto)
  then show ?case using Cons kv by auto
qed simp

lemma fold_setdefault:
  "distinct ks \<Longrightarrow> fold (\<lambda>k. dict_setdefault k v) ks d = d @ map (\<lambda>k. (k, v)) (filter (\<lambda>k. \<not> dict_in k d) ks)"
proof (induction ks arbitrary: d)
  case (Cons k ks)
  show ?case
  proof (cases "dict_in k d")
    case True
    then show ?thesis using Cons by (simp add: dict_setdefault_def)
  next
    case False
    then have s: "dict_setdefault k v d = d @ [(k, v)]"
      using fold_set_fresh [of "[(k, v)]" d] by (simp add: dict_setdefault_def dict_in_keys dict_keys_def)
    have "filter (\<lambda>j. \<not> dict_in j (d @ [(k, v)])) ks = filter (\<lambda>j. \<not> dict_in j d) ks"
      using Cons.prems by (intro filter_cong) (auto simp: dict_in_keys dict_keys_def)
    then show ?thesis using Cons False by (simp add: s)
  qed
qed simp

lemma read_row_printed:
  assumes "length vs = 17 \<or> length vs = 22"
  shows "read_row (map str_of_int vs) = Inr (Some (row_of vs))"
proof -
  let ?names = "if length vs = 17 then BASE_FIELDS else FIELDS"
  have n: "field_names (length vs) = Some ?names" "length ?names = length vs" "distinct ?names"
    using assms fields_distinct by (auto simp: field_names_def)
  have "zip ?names (map str_of_int vs) = map (\<lambda>(k, v). (k, str_of_int v)) (zip ?names vs)"
    by (simp add: zip_map2)
  then have r: "rmap (\<lambda>(k, p). rbind (py_int p) (\<lambda>v. Inr (k, v))) (zip ?names (map str_of_int vs)) = Inr (zip ?names vs)"
    using rmap_Inr [of "zip ?names vs" "\<lambda>(k, v). rbind (py_int (str_of_int v)) (\<lambda>v. Inr (k, v))" id]
    by (simp add: rmap_map o_def case_prod_beta)
  have z: "map fst (zip ?names vs) = ?names" using n(2) by simp
  have f: "fold (\<lambda>(k, v). dict_set k v) (zip ?names vs) [] = zip ?names vs"
    using fold_set_fresh [of "zip ?names vs" "[]"] z n(3) by simp
  have i: "dict_in k (zip ?names vs) \<longleftrightarrow> k \<in> set ?names" for k
    using z by (simp add: dict_in_keys dict_keys_def)
  have "zip ?names vs @ map (\<lambda>k. (k, 0)) (filter (\<lambda>k. \<not> dict_in k (zip ?names vs)) FIELDS) = row_of vs"
  proof (cases "length vs = 17")
    case True
    have "filter (\<lambda>k. \<not> dict_in k (zip ?names vs)) FIELDS = EXTRA_FIELDS_V2"
      unfolding i using True by (simp add: FIELDS_def BASE_FIELDS_def EXTRA_FIELDS_V2_def)
    moreover have "row_of vs = zip BASE_FIELDS vs @ zip EXTRA_FIELDS_V2 (replicate 5 0)"
      using True by (simp add: row_of_def FIELDS_def)
    ultimately show ?thesis using True by (simp add: EXTRA_FIELDS_V2_def numeral_eq_Suc)
  next
    case False
    then have "filter (\<lambda>k. \<not> dict_in k (zip ?names vs)) FIELDS = []" unfolding i by (simp add: filter_empty_conv)
    then show ?thesis using False assms by (simp add: row_of_def)
  qed
  then show ?thesis
    by (simp add: read_row_def n(1) r f fold_setdefault [OF fields_distinct(1)])
qed

text \<open>Stripping keeps a printed line, and its tag decides how it is read.\<close>

lemma tagged_same: "tagged tag (tag @ s) = Some s"
  by (simp add: tagged_def)

lemma tags_apart:
  "tagged META (ITER @ s) = None" "tagged META (WARN @ s) = None" "tagged META (ERR @ s) = None"
  "tagged ITER (WARN @ s) = None" "tagged ITER (ERR @ s) = None" "tagged WARN (ERR @ s) = None"
  by (simp_all add: tagged_def META_def ITER_def WARN_def ERR_def startswith_def)

lemma strip_tagged:
  assumes "s \<noteq> []" and "\<not> is_space (last s)" and "tag \<in> {META, ITER, WARN, ERR}"
  shows "strip (tag @ s) = tag @ s"
  by (rule strip_clean) (use assms in \<open>auto simp: META_def ITER_def WARN_def ERR_def is_space_def code_def\<close>)

lemma str_of_int_plain: "str_of_int i \<noteq> []" "\<not> is_space (last (str_of_int i))" "CHR '','' \<notin> set (str_of_int i)" "unbroken (str_of_int i)"
proof -
  have d: "list_all (\<lambda>c. digit_value 10 c \<noteq> None) (str_of_nat n)" for n
    using nat_text_digits [of 10 n] by (simp add: str_of_nat_def all_digits_def)
  have p: "\<not> is_space c \<and> c \<noteq> CHR '','' \<and> \<not> is_line_break c" if "digit_value 10 c \<noteq> None" for c
    using that by (auto simp: digit_value_def is_space_def is_line_break_def code_def Let_def split: if_splits)
  have n: "str_of_nat n \<noteq> []" for n by (simp add: str_of_nat_def)
  have all: "list_all (\<lambda>c. \<not> is_space c \<and> c \<noteq> CHR '','' \<and> \<not> is_line_break c) (str_of_int i)"
    using d p by (auto simp: str_of_int_def list_all_iff is_space_def is_line_break_def code_def)
  show ne: "str_of_int i \<noteq> []" using n by (simp add: str_of_int_def)
  show "\<not> is_space (last (str_of_int i))" "CHR '','' \<notin> set (str_of_int i)" "unbroken (str_of_int i)"
    using all last_in_set [OF ne] by (auto simp: list_all_iff)
qed

lemma last_join_plain: "xs \<noteq> [] \<Longrightarrow> list_all (\<lambda>x. x \<noteq> [] \<and> \<not> is_space (last x)) xs \<Longrightarrow>
    join sep xs \<noteq> [] \<and> \<not> is_space (last (join sep xs))"
proof (induction sep xs rule: join.induct)
  case (3 sep x y xs)
  then show ?case by (auto simp: last_append)
qed simp_all

lemma set_join: "set (join sep xs) \<subseteq> set sep \<union> (\<Union>x \<in> set xs. set x)"
  by (induction sep xs rule: join.induct) auto

lemma parse_item:
  assumes "item_ok i"
  shows "parse_renewal_line (item_line i) st = Inr (item_step i st)"
proof (cases i)
  case (Meta_Item k v)
  then have v: "CHR '','' \<notin> set k" "v \<noteq> []" "\<not> is_space (last v)" using assms by (simp_all add: clean_text_def)
  have "strip (META @ k @ CHR '','' # v) = META @ k @ CHR '','' # v" by (rule strip_tagged) (use v in auto)
  then show ?thesis using v Meta_Item by (simp add: parse_renewal_line_def tagged_same split1_append)
next
  case (Iter_Item vs)
  then have n: "length vs = 17 \<or> length vs = 22" "vs \<noteq> []" using assms by auto
  let ?j = "join '','' (map str_of_int vs)"
  have p: "list_all (\<lambda>x. x \<noteq> [] \<and> \<not> is_space (last x)) (map str_of_int vs)"
    "list_all (\<lambda>t. CHR '','' \<notin> set t) (map str_of_int vs)"
    using str_of_int_plain by (simp_all add: list_all_iff)
  have "strip (ITER @ ?j) = ITER @ ?j" by (rule strip_tagged) (use last_join_plain [OF _ p(1), of "'',''"] n in auto)
  moreover have "split_on CHR '','' ?j = map str_of_int vs" by (rule split_on_join) (use n p in auto)
  ultimately show ?thesis using Iter_Item read_row_printed [OF n(1)]
    by (simp add: parse_renewal_line_def tagged_same tags_apart)
next
  case (Warn_Item s)
  then have "strip (WARN @ s) = WARN @ s" using assms by (intro strip_tagged) (auto simp: clean_text_def)
  then show ?thesis using Warn_Item by (simp add: parse_renewal_line_def tagged_same tags_apart)
next
  case (Err_Item s)
  then have "strip (ERR @ s) = ERR @ s" using assms by (intro strip_tagged) (auto simp: clean_text_def)
  then show ?thesis using Err_Item by (simp add: parse_renewal_line_def tagged_same tags_apart)
next
  case (Other_Item s)
  then show ?thesis using assms by (simp add: parse_renewal_line_def tagged_def)
qed

lemma parse_items:
  "list_all item_ok is \<Longrightarrow> rfold parse_renewal_line (map item_line is) st = Inr (fold item_step is st)"
  by (induction "is" arbitrary: st) (simp_all add: parse_item)

lemma item_line_unbroken: "item_ok i \<Longrightarrow> unbroken (item_line i)"
proof (cases i)
  case (Iter_Item vs)
  have "unbroken (join '','' (map str_of_int vs))"
    using set_join [of "'',''" "map str_of_int vs"] str_of_int_plain(4)
    by (fastforce simp: list_all_iff is_line_break_def code_def)
  then show ?thesis using Iter_Item by (simp add: ITER_def is_line_break_def code_def)
qed (auto simp: META_def WARN_def ERR_def clean_text_def is_line_break_def code_def)

definition metas :: "item list \<Rightarrow> (string \<times> string) list" where
  "metas is = concat (map (\<lambda>i. case i of Meta_Item k v \<Rightarrow> [(k, v)] | _ \<Rightarrow> []) is)"

definition iters :: "item list \<Rightarrow> int list list" where
  "iters is = concat (map (\<lambda>i. case i of Iter_Item vs \<Rightarrow> [vs] | _ \<Rightarrow> []) is)"

definition warns :: "item list \<Rightarrow> string list" where
  "warns is = concat (map (\<lambda>i. case i of Warn_Item s \<Rightarrow> [s] | _ \<Rightarrow> []) is)"

definition errs_of :: "item list \<Rightarrow> string list" where
  "errs_of is = concat (map (\<lambda>i. case i of Err_Item s \<Rightarrow> [s] | _ \<Rightarrow> []) is)"

lemma fold_items:
  "fold item_step is st =
     \<lparr>rn_meta = fold (\<lambda>(k, v). dict_set k v) (metas is) (rn_meta st), rn_rows = rn_rows st @ map row_of (iters is),
      rn_warnings = rn_warnings st @ warns is, rn_errors = rn_errors st @ errs_of is\<rparr>"
proof (induction "is" arbitrary: st)
  case (Cons i "is")
  then show ?case by (cases i) (simp_all add: metas_def iters_def warns_def errs_of_def)
qed (simp add: metas_def iters_def warns_def errs_of_def)

text \<open>The derived rows exist for every row with all its fields, and add up.\<close>

lemma row_of_get:
  "length vs \<le> 22 \<Longrightarrow> i < 22 \<Longrightarrow> dict_get (row_of vs) (FIELDS ! i) = Some (if i < length vs then vs ! i else 0)"
proof -
  assume v: "length vs \<le> 22" and i: "i < 22"
  have "map fst (row_of vs) = FIELDS" using v by (simp add: row_of_def)
  moreover have "row_of vs ! i = (FIELDS ! i, if i < length vs then vs ! i else 0)" "length (row_of vs) = 22"
    using v i by (simp_all add: row_of_def nth_append)
  ultimately have "(FIELDS ! i, if i < length vs then vs ! i else 0) \<in> set (row_of vs)" "distinct (map fst (row_of vs))"
    using i fields_distinct(1) by (metis nth_mem)+
  then show ?thesis by (simp add: dict_get_def)
qed

lemma row_of_keys: "length vs \<le> 22 \<Longrightarrow> k \<in> set FIELDS \<Longrightarrow> \<exists>v. dict_get (row_of vs) k = Some v"
  using row_of_get [of vs] by (metis field_counts(2) in_set_conv_nth)

definition wall_of :: "int \<Rightarrow> iteration \<Rightarrow> real" where
  "wall_of gap row = of_int (dict_get_or row ''elapsed_us'' 0) / 1000000 + of_int gap / 1000"

definition full_row :: "iteration \<Rightarrow> bool" where
  "full_row row \<longleftrightarrow> (\<forall>k \<in> set FIELDS. \<exists>v. dict_get row k = Some v)"

lemma full_row_item: "full_row row \<Longrightarrow> k \<in> set FIELDS \<Longrightarrow> dict_item row k = Inr (dict_get_or row k 0)"
  by (auto simp: full_row_def dict_get_or_def)

lemma in_fields:
  "''rng_block_bytes'' \<in> set FIELDS" "''rng_byte_bytes'' \<in> set FIELDS" "''local_hw_bytes'' \<in> set FIELDS"
  "''external_bytes'' \<in> set FIELDS" "''pool_credit_bits_post'' \<in> set FIELDS" "''pool_credit_bits_pre'' \<in> set FIELDS"
  "''pool_debit_bytes'' \<in> set FIELDS" "''elapsed_us'' \<in> set FIELDS" "''accepted_net_bytes'' \<in> set FIELDS"
  "''rng_errors'' \<in> set FIELDS" "''ret'' \<in> set FIELDS"
  by (simp_all add: FIELDS_def BASE_FIELDS_def EXTRA_FIELDS_V2_def)

definition with_counters :: "iteration \<Rightarrow> iteration" where
  "with_counters row =
     (let f = (\<lambda>k. dict_get_or row k 0)
      in dict_set ''out_minus_supply_bytes'' (f ''pool_debit_bytes'' - (f ''local_hw_bytes'' + f ''external_bytes''))
          (dict_set ''pool_credit_delta_bits'' (f ''pool_credit_bits_post'' - f ''pool_credit_bits_pre'')
            (dict_set ''supply_bytes'' (f ''local_hw_bytes'' + f ''external_bytes'')
              (dict_set ''rng_output_bytes'' (f ''rng_block_bytes'' + f ''rng_byte_bytes'') row))))"

lemma derive_counters_full: "full_row row \<Longrightarrow> derive_counters row = Inr (with_counters row)"
  by (simp add: derive_counters_def with_counters_def full_row_item in_fields del: dict_item_Inr)

lemma derive_rows_full:
  "list_all full_row rows \<Longrightarrow> derive_rows gap cum rows =
     Inr (map (\<lambda>i. \<lparr>counters = with_counters (rows ! i), active_s = of_int (dict_get_or (rows ! i) ''elapsed_us'' 0) / 1000000,
            wall_s = wall_of gap (rows ! i), cumulative_s = cum + sum_list (map (wall_of gap) (take (Suc i) rows))\<rparr>) [0..<length rows])"
proof (induction rows arbitrary: cum)
  case (Cons row rows)
  then show ?case
    by (simp add: derive_counters_full full_row_item in_fields wall_of_def Let_def map_upt_Suc add.assoc del: upt_Suc dict_item_Inr)
qed simp

text \<open>What the parser makes of a sequence of printed lines.\<close>

lemma renewal_log_read:
  assumes "list_all item_ok is" and "inter_ms (fold (\<lambda>(k, v). dict_set k v) (metas is) []) = Inr gap"
  shows "\<exists>lg. parse_renewal_log (concat (map (\<lambda>i. item_line i @ [CHR 0x0A]) is)) = Inr lg
    \<and> rl_meta lg = fold (\<lambda>(k, v). dict_set k v) (metas is) [] \<and> rl_warnings lg = warns is \<and> rl_errors lg = errs_of is
    \<and> length (rl_rows lg) = length (iters is)
    \<and> (\<forall>n < length (iters is). \<forall>i < 22. dict_get (counters (rl_rows lg ! n)) (FIELDS ! i)
          = Some (if i < length (iters is ! n) then iters is ! n ! i else 0))
    \<and> (\<forall>n < length (iters is). cumulative_s (rl_rows lg ! n)
          = sum_list (map (\<lambda>vs. of_int (vs ! 2) / 1000000 + of_int gap / 1000) (take (Suc n) (iters is))))"
proof -
  let ?st = "\<lparr>rn_meta = fold (\<lambda>(k, v). dict_set k v) (metas is) [], rn_rows = map row_of (iters is),
      rn_warnings = warns is, rn_errors = errs_of is\<rparr>"
  have "list_all unbroken (map item_line is)" using assms(1) item_line_unbroken by (auto simp: list_all_iff)
  then have s: "splitlines (concat (map (\<lambda>i. item_line i @ [CHR 0x0A]) is)) = map item_line is"
    using splitlines_text [of "map item_line is"] by (simp add: o_def)
  have st: "rfold parse_renewal_line (map item_line is) \<lparr>rn_meta = [], rn_rows = [], rn_warnings = [], rn_errors = []\<rparr> = Inr ?st"
    using parse_items [OF assms(1)] by (simp add: fold_items)
  have len: "length vs = 17 \<or> length vs = 22" if "vs \<in> set (iters is)" for vs
    using assms(1) that by (auto simp: iters_def list_all_iff split: item.splits)
  have "list_all full_row (map row_of (iters is))"
    using len row_of_keys by (fastforce simp: list_all_iff full_row_def)
  note d = derive_rows_full [OF this, of gap 0]
  have c: "dict_get (with_counters row) (FIELDS ! i) = dict_get row (FIELDS ! i)" if "i < 22" for row i
  proof -
    have "FIELDS ! i \<in> set FIELDS" using that by simp
    then show ?thesis by (auto simp: with_counters_def Let_def FIELDS_def BASE_FIELDS_def EXTRA_FIELDS_V2_def)
  qed
  have w: "wall_of gap (row_of vs) = of_int (vs ! 2) / 1000000 + of_int gap / 1000" if "vs \<in> set (iters is)" for vs
  proof -
    have "FIELDS ! 2 = ''elapsed_us''" by (simp add: FIELDS_def BASE_FIELDS_def)
    then show ?thesis using row_of_get [of vs 2] len [OF that] by (auto simp: wall_of_def dict_get_or_def)
  qed
  have ws: "sum_list (map (wall_of gap) (take (Suc n) (map row_of (iters is))))
      = sum_list (map (\<lambda>vs. of_int (vs ! 2) / 1000000 + of_int gap / 1000) (take (Suc n) (iters is)))" for n
    by (intro arg_cong [where f = sum_list]) (auto simp: take_map w dest: in_set_takeD)
  have g: "dict_get (row_of (iters is ! n)) (FIELDS ! i) = Some (if i < length (iters is ! n) then iters is ! n ! i else 0)"
    if "n < length (iters is)" "i < 22" for n i
    using row_of_get [of "iters is ! n" i] len [OF nth_mem [OF that(1)]] that(2) by auto
  show ?thesis
    using assms(2) by (simp add: parse_renewal_log_def s st add_derived_fields_def d c g ws)
qed

text \<open>
  A log is read back as it was printed. For every sequence of lines in which the metadata, the
  iterations with 17 or 22 numbers, the warnings and the errors come in any order, with any other
  lines between them, the parser returns the last value of each metadata key, the warnings and the
  errors in order, and one row per iteration in order: each printed number under its field, zero
  for the counters an old firmware does not print, and the wall clock as the sum of the
  iterations' times and pauses up to it.
\<close>

theorem renewal_log_roundtrip:
  assumes "list_all item_ok is" and "inter_ms (fold (\<lambda>(k, v). dict_set k v) (metas is) []) = Inr gap"
  shows "\<exists>lg. parse_renewal_log (concat (map (\<lambda>i. item_line i @ [CHR 0x0A]) is)) = Inr lg
    \<and> rl_meta lg = fold (\<lambda>(k, v). dict_set k v) (metas is) [] \<and> rl_warnings lg = warns is \<and> rl_errors lg = errs_of is
    \<and> length (rl_rows lg) = length (iters is)
    \<and> (\<forall>n < length (iters is). \<forall>i < 22. dict_get (counters (rl_rows lg ! n)) (FIELDS ! i)
          = Some (if i < length (iters is ! n) then iters is ! n ! i else 0))
    \<and> (\<forall>n < length (iters is). cumulative_s (rl_rows lg ! n)
          = sum_list (map (\<lambda>vs. of_int (vs ! 2) / 1000000 + of_int gap / 1000) (take (Suc n) (iters is))))"
  by (rule renewal_log_read [OF assms])

text \<open>Two iterations of an old and a new firmware, with a pause between them.\<close>

definition demo_items :: "item list" where
  "demo_items = [Other_Item ''*** Booting Zephyr OS'', Meta_Item ''inter_handshake_ms'' ''1000'', Iter_Item [0..16],
     Warn_Item ''iteration_failed,1,-5'', Iter_Item [1..22]]"

lemma demo_items_ok: "list_all item_ok demo_items"
  by (simp add: demo_items_def clean_text_def is_space_def is_line_break_def code_def strip_Cons startswith_def META_def ITER_def
      WARN_def ERR_def)

theorem renewal_log_roundtrip_witness:
  "\<exists>lg. parse_renewal_log (concat (map (\<lambda>i. item_line i @ [CHR 0x0A]) demo_items)) = Inr lg
     \<and> rl_warnings lg = [''iteration_failed,1,-5''] \<and> length (rl_rows lg) = 2 \<and> cumulative_s (rl_rows lg ! 1) = 2 + 5 / 1000000"
proof -
  have m: "metas demo_items = [(''inter_handshake_ms'', ''1000'')]" "iters demo_items = [[0..16], [1..22]]"
    "warns demo_items = [''iteration_failed,1,-5'']"
    by (simp_all add: demo_items_def metas_def iters_def warns_def)
  have "py_int ''1000'' = Inr 1000"
    by (simp add: py_int_def py_int_base_def int_strip_def is_ascii_space_def code_def split_sign_def read_base_def
        drop_one_underscore_def read_digits_def digit_value_def Let_def)
  then have g: "inter_ms (fold (\<lambda>(k, v). dict_set k v) (metas demo_items) []) = Inr 1000"
    by (simp add: m inter_ms_def dict_get_or_def)
  have "[0..16] ! 2 = (2 :: int)" "[1..22] ! 2 = (3 :: int)" by simp_all
  then show ?thesis using renewal_log_roundtrip [OF demo_items_ok g] unfolding m by auto
qed

section \<open>The balance of the summary\<close>

lemma derive_counters_balance:
  assumes "derive_counters row = Inr cs"
  shows "dict_get_or cs ''out_minus_supply_bytes'' 0
      = dict_get_or cs ''pool_debit_bytes'' 0 - (dict_get_or cs ''local_hw_bytes'' 0 + dict_get_or cs ''external_bytes'' 0)"
  using assms by (auto simp: derive_counters_def result_simps dict_get_or_def)

lemma derive_rows_each:
  "derive_rows gap cum rows = Inr rs \<Longrightarrow> r \<in> set rs \<Longrightarrow> \<exists>row. derive_counters row = Inr (counters r)"
  by (induction rows arbitrary: cum rs) (auto simp: result_simps Let_def, blast)

lemma total_sum: "total k rs = Inr t \<Longrightarrow> t = sum_list (map (\<lambda>r. dict_get_or (counters r) k 0) rs)"
proof (induction rs arbitrary: t)
  case (Cons r rs)
  then show ?case by (auto simp: total_def counter_def result_simps dict_get_or_def)
qed (simp add: total_def)

definition good_rows :: "enriched list \<Rightarrow> enriched list" where
  "good_rows rs = filter (\<lambda>r. dict_get (counters r) ''ret'' = Some 0) rs"

lemma successful:
  "rmap (\<lambda>r. rbind (counter ''ret'' r) (\<lambda>v. Inr (v, r))) rs = Inr ps \<Longrightarrow> map snd (filter (\<lambda>p. fst p = 0) ps) = good_rows rs"
  by (induction rs arbitrary: ps) (auto simp: good_rows_def result_simps counter_def)

text \<open>
  The summary's rates account for each other. Whenever there is a successful iteration: the
  successes and failures add up to the rows; the total supply is the local plus the external bytes;
  the per-iteration balances of the CSV add up to the total debit less the total supply; when time
  has passed, the supply rate is the local plus the network rate and the renewal margin is the
  supply rate less the output rate; and the margin is positive exactly when the supply-to-output
  ratio is above one.
\<close>

theorem renewal_balance:
  assumes "parse_renewal_log text = Inr lg" and "summarize_renewal lg = Inr s" and "su_ok s \<noteq> 0"
  shows "su_ok s = length (good_rows (rl_rows lg)) \<and> int (su_ok s) + su_failed s = int (su_logged s)
    \<and> (\<exists>debit local_hw ext wall.
        dict_get (su_figures s) ''pool_debit_bytes_total'' = Some (FInt debit)
        \<and> dict_get (su_figures s) ''supply_bytes_total'' = Some (FInt (local_hw + ext))
        \<and> dict_get (su_figures s) ''elapsed_s_wall'' = Some (FReal wall)
        \<and> sum_list (map (\<lambda>r. dict_get_or (counters r) ''out_minus_supply_bytes'' 0) (good_rows (rl_rows lg))) = debit - (local_hw + ext)
        \<and> (wall \<noteq> 0 \<longrightarrow> (\<exists>lo ll ln.
              dict_get (su_figures s) ''lambda_out_wall_Bps'' = Some (FReal lo)
            \<and> dict_get (su_figures s) ''lambda_local_wall_Bps'' = Some (FReal ll)
            \<and> dict_get (su_figures s) ''lambda_net_wall_Bps'' = Some (FReal ln)
            \<and> dict_get (su_figures s) ''lambda_supply_wall_Bps'' = Some (FReal (ll + ln))
            \<and> dict_get (su_figures s) ''renewal_margin_wall_Bps'' = Some (FReal (ll + ln - lo))))
        \<and> (0 < wall \<and> 0 < debit \<longrightarrow> (\<exists>mg ratio.
              dict_get (su_figures s) ''renewal_margin_wall_Bps'' = Some (FReal mg)
            \<and> dict_get (su_figures s) ''renewal_supply_to_out_ratio'' = Some (FReal ratio) \<and> (0 < mg \<longleftrightarrow> 1 < ratio))))"
proof -
  let ?g = "good_rows (rl_rows lg)"
  obtain ps gap where p: "rmap (\<lambda>r. rbind (counter ''ret'' r) (\<lambda>v. Inr (v, r))) (rl_rows lg) = Inr ps"
    "inter_ms (rl_meta lg) = Inr gap"
    using assms(2) by (auto simp: summarize_renewal_def result_simps)
  have e: "summarize_renewal lg = rbind (if ?g = [] then Inr [] else renewal_figures gap ?g) (\<lambda>figs.
      Inr \<lparr>su_logged = length (rl_rows lg), su_ok = length ?g, su_failed = int (length (rl_rows lg)) - int (length ?g),
           su_meta = rl_meta lg, su_warnings = rl_warnings lg, su_errors = rl_errors lg, su_figures = figs\<rparr>)"
    by (simp only: summarize_renewal_def p rbind_Inr Let_def successful [OF p(1)])
  then obtain figs where f0: "(if ?g = [] then Inr [] else renewal_figures gap ?g) = Inr figs"
    and s: "su_ok s = length ?g" "su_failed s = int (length (rl_rows lg)) - int (length ?g)" "su_logged s = length (rl_rows lg)"
    "su_figures s = figs"
    using assms(2) [unfolded e] by (auto simp: rbind_eq_Inr)
  have f: "renewal_figures gap ?g = Inr figs" using f0 s(1) assms(3) by (simp split: if_splits)
  obtain us rng debit local_hw ext accepted c0 c1 es where t: "total ''elapsed_us'' ?g = Inr us"
    "total ''pool_debit_bytes'' ?g = Inr debit" "total ''local_hw_bytes'' ?g = Inr local_hw" "total ''external_bytes'' ?g = Inr ext"
    and r: "rmap (counter ''rng_output_bytes'') ?g = Inr rng" "total ''accepted_net_bytes'' ?g = Inr accepted"
    "counter ''pool_credit_bits_post'' (last ?g) = Inr c1" "counter ''pool_credit_bits_pre'' (hd ?g) = Inr c0"
    "total ''rng_errors'' ?g = Inr es"
    using f by (auto simp: renewal_figures_def result_simps)
  define wall where "wall = of_int us / 1000000 + real (length ?g) * of_int gap / 1000"
  have figs: "dict_get figs ''pool_debit_bytes_total'' = Some (FInt debit)"
    "dict_get figs ''supply_bytes_total'' = Some (FInt (local_hw + ext))" "dict_get figs ''elapsed_s_wall'' = Some (FReal wall)"
    "dict_get figs ''lambda_out_wall_Bps'' = Some (per (of_int debit) wall)"
    "dict_get figs ''lambda_local_wall_Bps'' = Some (per (of_int local_hw) wall)"
    "dict_get figs ''lambda_net_wall_Bps'' = Some (per (of_int ext) wall)"
    "dict_get figs ''lambda_supply_wall_Bps'' = Some (per (of_int (local_hw + ext)) wall)"
    "dict_get figs ''renewal_margin_wall_Bps'' = Some (per (of_int (local_hw + ext - debit)) wall)"
    "dict_get figs ''renewal_supply_to_out_ratio'' = Some (per (of_int (local_hw + ext)) (of_int debit))"
    using f by (auto simp: renewal_figures_def t r Let_def wall_def dict_get_def)
  obtain m rows where "add_derived_fields m rows = Inr (rl_rows lg)"
    using assms(1) unfolding parse_renewal_log_def rbind_eq_Inr
    by (elim exE conjE, clarsimp)
  then have "\<exists>row. derive_counters row = Inr (counters x)" if "x \<in> set (rl_rows lg)" for x
    using that by (auto simp: add_derived_fields_def result_simps dest: derive_rows_each)
  then have b: "dict_get_or (counters x) ''out_minus_supply_bytes'' 0 = dict_get_or (counters x) ''pool_debit_bytes'' 0
      - (dict_get_or (counters x) ''local_hw_bytes'' 0 + dict_get_or (counters x) ''external_bytes'' 0)" if "x \<in> set ?g" for x
    using that derive_counters_balance by (fastforce simp: good_rows_def)
  have "sum_list (map (\<lambda>r. dict_get_or (counters r) ''out_minus_supply_bytes'' 0) ?g) = debit - (local_hw + ext)"
    unfolding total_sum [OF t(2)] total_sum [OF t(3)] total_sum [OF t(4)]
    unfolding sum_list_addf [symmetric] sum_list_subtractf [symmetric]
    by (rule arg_cong [where f = sum_list], rule map_cong) (auto dest: b)
  moreover have "(0 < of_int (local_hw + ext - debit) / wall) = (1 < of_int (local_hw + ext) / (of_int debit :: real))"
    if "0 < wall" "0 < debit"
    using that by (simp add: field_simps)
  ultimately show ?thesis
    unfolding s(4) figs using s(1-3)
    by (intro conjI exI [of _ debit] exI [of _ local_hw] exI [of _ ext] exI [of _ wall])
      (auto simp: per_def add_divide_distrib diff_divide_distrib)
qed

text \<open>A log of one iteration, and what the parser makes of it.\<close>

definition demo_iteration :: "int list" where
  "demo_iteration = [0, 0, 1000000, 5, 0, 0, 0, 0, 0, 300, 0, 100, 0, 0, 0, 0, 0]"

definition demo_iteration_log :: string where
  "demo_iteration_log = concat (map (\<lambda>i. item_line i @ [CHR 0x0A]) [Iter_Item demo_iteration])"

definition demo_enriched :: enriched where
  "demo_enriched = \<lparr>counters = with_counters (row_of demo_iteration), active_s = 1, wall_s = 1, cumulative_s = 1\<rparr>"

lemma demo_row:
  "row_of demo_iteration = [(''iter'', 0), (''ret'', 0), (''elapsed_us'', 1000000), (''response_bytes'', 5), (''accepted_net_bytes'', 0),
      (''rng_block_calls'', 0), (''rng_block_bytes'', 0), (''rng_byte_calls'', 0), (''rng_byte_bytes'', 0), (''local_hw_bytes'', 300),
      (''external_bytes'', 0), (''pool_debit_bytes'', 100), (''thread_get_bytes'', 0), (''isr_get_bytes'', 0),
      (''fast_refill_bytes'', 0), (''pool_credit_bits_pre'', 0), (''pool_credit_bits_post'', 0), (''rng_block_cycles'', 0),
      (''rng_byte_cycles'', 0), (''rng_errors'', 0), (''pool_timestamp_us_pre'', 0), (''pool_timestamp_us_post'', 0)]"
  by (simp add: row_of_def demo_iteration_def FIELDS_def BASE_FIELDS_def EXTRA_FIELDS_V2_def numeral_eq_Suc)

lemma demo_counters:
  "dict_get (counters demo_enriched) k = (if k = ''out_minus_supply_bytes'' then Some (- 200)
      else if k = ''pool_credit_delta_bits'' then Some 0 else if k = ''supply_bytes'' then Some 300
      else if k = ''rng_output_bytes'' then Some 0 else map_of (row_of demo_iteration) k)"
  by (simp add: demo_enriched_def with_counters_def dict_get_or_def dict_get_def [of "row_of demo_iteration"] Let_def) (simp add: demo_row)

lemma demo_gap: "inter_ms [] = Inr 0"
  by (simp add: inter_ms_def dict_get_or_def py_int_def py_int_base_def int_strip_def is_ascii_space_def code_def split_sign_def
      read_base_def read_digits_def digit_value_def Let_def)

lemma demo_iteration_parsed:
  "parse_renewal_log demo_iteration_log = Inr \<lparr>rl_meta = [], rl_rows = [demo_enriched], rl_warnings = [], rl_errors = []\<rparr>"
proof -
  have i: "item_ok (Iter_Item demo_iteration)" by (simp add: demo_iteration_def)
  have "unbroken (item_line (Iter_Item demo_iteration))" by (rule item_line_unbroken) (simp add: demo_iteration_def)
  then have sp: "splitlines demo_iteration_log = [item_line (Iter_Item demo_iteration)]"
    using splitlines_text [of "[item_line (Iter_Item demo_iteration)]"] by (simp add: demo_iteration_log_def del: item_line.simps)
  have full: "full_row (row_of demo_iteration)" unfolding full_row_def using row_of_keys by (simp add: demo_iteration_def)
  have e: "dict_get (row_of demo_iteration) k = map_of (row_of demo_iteration) k" for k by (simp add: dict_get_def)
  have d: "derive_rows 0 0 [row_of demo_iteration] = Inr [demo_enriched]"
    using derive_rows_full [of "[row_of demo_iteration]" 0 0] full
    by (simp add: demo_enriched_def wall_of_def dict_get_or_def e) (simp add: demo_row)
  show ?thesis
    unfolding parse_renewal_log_def sp using parse_item [OF i] d demo_gap
    by (simp add: add_derived_fields_def del: item_line.simps derive_rows.simps)
qed

lemma demo_iteration_summary:
  "\<exists>s. summarize_renewal \<lparr>rl_meta = [], rl_rows = [demo_enriched], rl_warnings = [], rl_errors = []\<rparr> = Inr s \<and> su_ok s = 1
    \<and> dict_get (su_figures s) ''pool_debit_bytes_total'' = Some (FInt 100)"
  by (simp add: summarize_renewal_def demo_gap counter_def dict_item_def demo_counters renewal_figures_def total_def demo_row Let_def)
    (simp add: dict_get_def)

theorem renewal_balance_witness:
  "\<exists>lg s. parse_renewal_log demo_iteration_log = Inr lg \<and> summarize_renewal lg = Inr s \<and> su_ok s = 1
     \<and> dict_get (su_figures s) ''supply_bytes_total'' = Some (FInt 300)"
proof -
  obtain s where s: "summarize_renewal \<lparr>rl_meta = [], rl_rows = [demo_enriched], rl_warnings = [], rl_errors = []\<rparr> = Inr s" "su_ok s = 1"
    and p: "dict_get (su_figures s) ''pool_debit_bytes_total'' = Some (FInt 100)"
    using demo_iteration_summary by blast
  then have "su_ok s \<noteq> 0" by simp
  from renewal_balance [OF demo_iteration_parsed s(1) this]
  have "\<exists>debit local_hw ext. dict_get (su_figures s) ''supply_bytes_total'' = Some (FInt (local_hw + ext))
      \<and> dict_get (su_figures s) ''pool_debit_bytes_total'' = Some (FInt debit)
      \<and> sum_list (map (\<lambda>r. dict_get_or (counters r) ''out_minus_supply_bytes'' 0) (good_rows [demo_enriched])) = debit - (local_hw + ext)" by auto
  moreover have "good_rows [demo_enriched] = [demo_enriched]" by (simp add: good_rows_def demo_counters) (simp add: demo_row)
  ultimately have "dict_get (su_figures s) ''supply_bytes_total'' = Some (FInt 300)"
    using p by (auto simp: dict_get_or_def demo_counters)
  then show ?thesis using demo_iteration_parsed s by blast
qed


section \<open>Broken rows\<close>

text \<open>
  A broken iteration line is treated in two ways. When the number of its fields is not 17 or 22,
  it is a warning and the rest of the log is read. When the number is right but a field is not an
  integer, as when two lines ran into each other, the parser raises and nothing of the log is kept.
\<close>

theorem broken_row:
  assumes "list_all item_ok before" and "parts \<noteq> []" and "list_all (\<lambda>p. CHR '','' \<notin> set p \<and> unbroken p) parts"
    and "last parts \<noteq> []" and "\<not> is_space (last (last parts))" and "list_all unbroken after"
  shows "(length parts \<notin> {17, 22} \<longrightarrow>
        parse_renewal_line (ITER @ join '','' parts) st = Inr (st\<lparr>rn_warnings := rn_warnings st @ [''malformed_iter_row:'' @ join '','' parts]\<rparr>))
    \<and> (length parts \<in> {17, 22} \<and> (\<exists>p \<in> set parts. \<not> ok (py_int p)) \<longrightarrow>
        parse_renewal_log (concat (map (\<lambda>l. l @ [CHR 0x0A]) (map item_line before @ [ITER @ join '','' parts] @ after))) = Inl ValueError)"
proof -
  let ?j = "join '','' parts"
  have nc: "list_all (\<lambda>p. CHR '','' \<notin> set p) parts" using assms(3) by (simp add: list_all_iff)
  have lj: "join '','' ps \<noteq> [] \<and> last (join '','' ps) = last (last ps)" if "ps \<noteq> []" "last ps \<noteq> []" for ps :: "string list"
    using that by (induction "'',''" ps rule: join.induct) (auto simp: last_append)
  have st: "strip (ITER @ ?j) = ITER @ ?j"
    by (rule strip_tagged) (use lj [OF assms(2,4)] assms(5) in auto)
  have sp: "split_on CHR '','' ?j = parts" by (rule split_on_join) (use assms(2) nc in auto)
  have line: "parse_renewal_line (ITER @ ?j) st = rbind (read_row parts) (\<lambda>r. case r of
        None \<Rightarrow> Inr (st\<lparr>rn_warnings := rn_warnings st @ [''malformed_iter_row:'' @ ?j]\<rparr>)
      | Some row \<Rightarrow> Inr (st\<lparr>rn_rows := rn_rows st @ [row]\<rparr>))" for st
    by (cases "read_row parts") (auto simp: parse_renewal_line_def st tagged_same tags_apart sp split: option.splits)
  have bad: "rmap (\<lambda>(k, p). rbind (py_int p) (\<lambda>v. Inr (k, v))) (zip ns ps) = Inl ValueError"
    if "length ns = length ps" "\<exists>p \<in> set ps. \<not> ok (py_int p)" for ns :: "string list" and ps
    using that
  proof (induction ns ps rule: list_induct2)
    case (Cons n ns p ps)
    have v: "py_int p = Inl e \<Longrightarrow> e = ValueError" for e
      by (auto simp: py_int_def py_int_base_def split: prod.splits option.splits)
    show ?case using Cons v by (cases "py_int p") (auto simp: ok_def)
  qed simp
  have "unbroken (ITER @ ?j)"
    using set_join [of "'',''" parts] assms(3) by (fastforce simp: list_all_iff is_line_break_def code_def ITER_def)
  then have s: "splitlines (concat (map (\<lambda>l. l @ [CHR 0x0A]) (map item_line before @ [ITER @ ?j] @ after)))
      = map item_line before @ [ITER @ ?j] @ after"
    using assms(1,6) item_line_unbroken by (intro splitlines_text) (auto simp: list_all_iff)
  show ?thesis
  proof (intro conjI impI)
    assume "length parts \<notin> {17, 22}"
    then show "parse_renewal_line (ITER @ ?j) st = Inr (st\<lparr>rn_warnings := rn_warnings st @ [''malformed_iter_row:'' @ ?j]\<rparr>)"
      by (simp add: line read_row_def field_names_def)
  next
    assume b: "length parts \<in> {17, 22} \<and> (\<exists>p \<in> set parts. \<not> ok (py_int p))"
    then have "read_row parts = Inl ValueError"
      using bad [of BASE_FIELDS parts] bad [of FIELDS parts] by (auto simp: read_row_def field_names_def)
    then show "parse_renewal_log (concat (map (\<lambda>l. l @ [CHR 0x0A]) (map item_line before @ [ITER @ ?j] @ after))) = Inl ValueError"
      unfolding parse_renewal_log_def s by (simp add: rfold_append parse_items [OF assms(1)] line)
  qed
qed

theorem broken_row_witness:
  "parse_renewal_log (concat (map (\<lambda>l. l @ [CHR 0x0A]) ([] @ [ITER @ join '','' (''x'' # replicate 16 ''0'')] @ []))) = Inl ValueError"
proof -
  have "\<not> ok (py_int ''x'')"
    by (simp add: ok_def py_int_def py_int_base_def int_strip_def is_ascii_space_def code_def split_sign_def read_base_def
        read_digits_def digit_value_def Let_def)
  then show ?thesis
    using broken_row [of "[]" "''x'' # replicate 16 ''0''" "[]"]
    by (simp add: list_all_iff is_line_break_def is_space_def code_def del: join.simps)
qed

end
