(* ===== verification/PufAnalysis.thy ===== *)
theory PufAnalysis
  imports PyNumber PyDict Stats Bits
    "HOL-Library.List_Lexorder" "HOL-Library.Char_ord"
begin

text \<open>
  The analysis of the raw SRAM dumps of successive boots (\<open>analyze_puf_captures.py\<close>): the dump
  lines of a serial log, the per-bit and pairwise figures, and the files written. A text file is
  its text. Facts: the dumps the firmware prints are read back; the pairwise distances add up to
  the per-bit counts; the min-entropy lies between zero and twice the mean distance.
\<close>

section \<open>Reading the dumps\<close>

definition bits_of :: "bytes \<Rightarrow> nat list" where
  "bits_of sample = concat (map (\<lambda>b. map (\<lambda>i. unat (drop_bit (7 - i) b AND 1)) [0..<8]) sample)"

definition hamming :: "bytes \<Rightarrow> bytes \<Rightarrow> nat" where
  "hamming a b = sum_list (map (\<lambda>(x, y). bit_count (x XOR y)) (zip a b))"

text \<open>\<open>RAW_RE\<close>: the tag, white space, hexadecimal digits, and white space up to the end.\<close>

definition is_hex :: "char \<Rightarrow> bool" where
  "is_hex c = (digit_value 16 c \<noteq> None)"

definition RAW_TAG :: string where "RAW_TAG = ''[TEB_PUF_RAW]''"

definition raw_match :: "string \<Rightarrow> string option" where
  "raw_match line =
     (if startswith line RAW_TAG then
        (let s = drop (length RAW_TAG) line; digits = takeWhile is_hex (dropWhile is_space s);
             rest = dropWhile is_hex (dropWhile is_space s)
         in if takeWhile is_space s \<noteq> [] \<and> digits \<noteq> [] \<and> list_all is_space rest then Some digits else None)
      else None)"

definition extract_line :: "string \<Rightarrow> bytes list result" where
  "extract_line line =
     (case raw_match (strip line) of None \<Rightarrow> Inr [] | Some digits \<Rightarrow> rbind (fromhex digits) (\<lambda>s. Inr [s]))"

definition extract_samples :: "string \<Rightarrow> bytes list result" where
  "extract_samples text = rbind (rmap extract_line (splitlines text)) (\<lambda>ss. Inr (concat ss))"

section \<open>The figures\<close>

definition pairwise_distances :: "bytes list \<Rightarrow> nat list" where
  "pairwise_distances samples =
     concat (map (\<lambda>i. map (\<lambda>j. hamming (samples ! i) (samples ! j)) [i + 1..<length samples]) [0..<length samples])"

definition list_text :: "nat list \<Rightarrow> string" where
  "list_text ns = ''['' @ join '', '' (map str_of_nat ns) @ '']''"

text \<open>Where every sample has the same size, every row of bits has \<open>bit_len\<close> entries.\<close>

definition ones_counts :: "nat \<Rightarrow> bytes list \<Rightarrow> nat list" where
  "ones_counts bit_len samples = (let rows = map bits_of samples in map (\<lambda>i. sum_list (map (\<lambda>row. row ! i) rows)) [0..<bit_len])"

definition bit_hmin :: "real \<Rightarrow> real" where
  "bit_hmin p = (if 0 < p \<and> p < 1 then - log 2 (max p (1 - p)) else 0)"

definition mean_or_zero :: "real list \<Rightarrow> real" where
  "mean_or_zero xs = (if xs = [] then 0 else sum_list xs / real (length xs))"

definition puf_figures :: "bytes list \<Rightarrow> (string, figure) dict" where
  "puf_figures samples =
     (let n = length samples; bit_len = length (hd samples) * 8;
          ones = ones_counts bit_len samples; probs = map (\<lambda>c. real c / real n) ones;
          hmin = map bit_hmin probs;
          stable = length (filter (\<lambda>p. p = 0 \<or> p = 1) probs);
          near = length (filter (\<lambda>p. p \<le> 5 / 100 \<or> p \<ge> 95 / 100) probs);
          ds = pairwise_distances samples; rates = map (\<lambda>d. real d / real bit_len) ds
      in [(''samples'', FInt (int n)), (''bytes_per_sample'', FInt (int (length (hd samples)))),
          (''bits_per_sample'', FInt (int bit_len)),
          (''global_one_rate'', FReal (real (sum_list (map (\<lambda>s. sum_list (bits_of s)) samples)) / real (n * bit_len))),
          (''mean_per_bit_min_entropy'', FReal (sum_list hmin / real bit_len)),
          (''sum_per_bit_min_entropy'', FReal (sum_list hmin)),
          (''stable_bits'', FInt (int stable)), (''stable_bit_rate'', FReal (real stable / real bit_len)),
          (''near_stable_bits_5pct'', FInt (int near)), (''near_stable_bit_rate_5pct'', FReal (real near / real bit_len)),
          (''pairwise_hamming_mean'', FReal (mean_or_zero (map real ds))),
          (''pairwise_hamming_min'', FInt (int (if ds = [] then 0 else Min (set ds)))),
          (''pairwise_hamming_max'', FInt (int (if ds = [] then 0 else Max (set ds)))),
          (''pairwise_hamming_rate_mean'', FReal (mean_or_zero rates)),
          (''pairwise_hamming_rate_min'', FReal (if rates = [] then 0 else lmin rates)),
          (''pairwise_hamming_rate_max'', FReal (if rates = [] then 0 else lmax rates))])"

definition summarize_puf :: "bytes list \<Rightarrow> (string, figure) dict result" where
  "summarize_puf samples =
     (if samples = [] then Inl (SystemExit ''no [TEB_PUF_RAW] lines found'')
      else (let sizes = remdups (map length samples)
            in if length sizes \<noteq> 1 then Inl (SystemExit (''inconsistent sample sizes: '' @ list_text (sort sizes)))
               else if length (hd samples) = 0 then Inl ZeroDivisionError
               else Inr (puf_figures samples)))"

section \<open>The files\<close>

definition summary_rows :: "(string, figure) dict \<Rightarrow> (string \<times> figure) list" where
  "summary_rows summary = sort_key fst summary"

definition distance_rows :: "bytes list \<Rightarrow> (nat \<times> nat \<times> nat \<times> real) list" where
  "distance_rows samples =
     (let bit_len = (if samples = [] then 0 else length (hd samples) * 8)
      in concat (map (\<lambda>i. map (\<lambda>j. let d = hamming (samples ! i) (samples ! j)
           in (i + 1, j + 1, d, if bit_len = 0 then 0 else real d / real bit_len)) [i + 1..<length samples]) [0..<length samples]))"

definition figure_real :: "figure \<Rightarrow> real result" where
  "figure_real f = (case f of FInt i \<Rightarrow> Inr (of_int i) | FReal x \<Rightarrow> Inr x | FNone \<Rightarrow> Inl TypeError)"

definition fmt_pct :: "figure \<Rightarrow> string result" where
  "fmt_pct v = rbind (figure_real v) (\<lambda>x. Inr (fmt_fixed 2 (x * 100) @ [CHR 0x5C, CHR ''%'']))"

definition fmt_num :: "figure \<Rightarrow> nat \<Rightarrow> string result" where
  "fmt_num v digits =
     rbind (figure_real v) (\<lambda>x. Inr (fmt_fixed (if isclose x (of_int (round_half_even x)) then 0 else digits) x))"

definition num_at :: "(string, figure) dict \<Rightarrow> string \<Rightarrow> nat \<Rightarrow> string result" where
  "num_at summary k digits = rbind (dict_item summary k) (\<lambda>v. fmt_num v digits)"

definition pct_at :: "(string, figure) dict \<Rightarrow> string \<Rightarrow> string result" where
  "pct_at summary k = rbind (dict_item summary k) fmt_pct"

definition table_cells :: "(string, figure) dict \<Rightarrow> (string \<times> string) list result" where
  "table_cells s =
     rbind (num_at s ''samples'' 0) (\<lambda>n. rbind (num_at s ''bytes_per_sample'' 0) (\<lambda>bytes.
     rbind (pct_at s ''global_one_rate'') (\<lambda>one. rbind (pct_at s ''pairwise_hamming_rate_mean'') (\<lambda>mid.
     rbind (pct_at s ''pairwise_hamming_rate_min'') (\<lambda>lo. rbind (pct_at s ''pairwise_hamming_rate_max'') (\<lambda>hi.
     rbind (num_at s ''stable_bits'' 0) (\<lambda>st. rbind (pct_at s ''stable_bit_rate'') (\<lambda>str.
     rbind (num_at s ''near_stable_bits_5pct'' 0) (\<lambda>nr. rbind (pct_at s ''near_stable_bit_rate_5pct'') (\<lambda>nrr.
     rbind (num_at s ''sum_per_bit_min_entropy'' 1) (\<lambda>h.
       Inr [(''Samples'', n), (''Bytes per sample'', bytes), (''Global one-rate'', one),
            (''Pairwise Hamming distance'', mid @ '' ['' @ lo @ '', '' @ hi @ '']''),
            (''Stable bits'', st @ '' ('' @ str @ '')''),
            (''Near-stable bits, 5'' @ [CHR 0x5C, CHR ''%''], nr @ '' ('' @ nrr @ '')''),
            (''Sum per-bit min-entropy'', h @ '' bits'')])))))))))))"

definition tex_table :: "(string \<times> string) list \<Rightarrow> string" where
  "tex_table cells =
     (let bs = [CHR 0x5C]; nl = [CHR 0x0A];
          body = join nl (map (\<lambda>(label, value). label @ '' & '' @ value @ '' '' @ bs @ bs) cells)
      in bs @ ''begin{tabular}{ll}'' @ nl @ bs @ ''toprule'' @ nl @ ''Metric & Result '' @ bs @ bs @ nl
         @ bs @ ''midrule'' @ nl @ body @ nl @ bs @ ''bottomrule'' @ nl @ bs @ ''end{tabular}'' @ nl)"

text \<open>The numbers behind the histogram: the rates in percent and the number of bins.\<close>

definition distance_plot :: "bytes list \<Rightarrow> real list \<times> nat" where
  "distance_plot samples =
     (let bit_len = length (hd samples) * 8; rates = map (\<lambda>d. real d / real bit_len * 100) (pairwise_distances samples)
      in (rates, min 20 (max 5 (nat \<lfloor>sqrt (real (length rates))\<rfloor>))))"

text \<open>The options name the files to write; the files are listed in the order they are written.\<close>

record puf_options =
  opt_summary :: "string option"
  opt_csv :: "string option"
  opt_distances :: "string option"
  opt_raw_bin :: "string option"
  opt_table :: "string option"
  opt_figure :: "string option"

datatype puf_file =
    Summary_Json "(string, figure) dict" | Summary_Csv "(string \<times> figure) list"
  | Distances_Csv "(nat \<times> nat \<times> nat \<times> real) list" | Raw_Bin bytes | Table_Tex string | Histogram "real list" nat

definition file_at :: "string option \<Rightarrow> puf_file \<Rightarrow> (string \<times> puf_file) list" where
  "file_at path f = (case path of None \<Rightarrow> [] | Some p \<Rightarrow> [(p, f)])"

definition puf_main :: "puf_options \<Rightarrow> string \<Rightarrow> ((string, figure) dict \<times> (string \<times> puf_file) list) result" where
  "puf_main opts text =
     rbind (extract_samples text) (\<lambda>samples. rbind (summarize_puf samples) (\<lambda>summary.
     rbind (if opt_table opts = None then Inr [] else table_cells summary) (\<lambda>cells.
       Inr (summary,
         file_at (opt_summary opts) (Summary_Json summary) @ file_at (opt_csv opts) (Summary_Csv (summary_rows summary))
         @ file_at (opt_distances opts) (Distances_Csv (distance_rows samples)) @ file_at (opt_raw_bin opts) (Raw_Bin (concat samples))
         @ file_at (opt_table opts) (Table_Tex (tex_table cells))
         @ file_at (opt_figure opts) (Histogram (fst (distance_plot samples)) (snd (distance_plot samples)))))))"


section \<open>Distances and per-bit counts\<close>

text \<open>The samples that have a one at a position, and the number of positions.\<close>

definition ones_at :: "bytes list \<Rightarrow> nat \<Rightarrow> nat" where
  "ones_at samples k = length (filter (\<lambda>s. window_bits s ! k) samples)"

lemma bits_of_window: "bits_of s = map of_bool (window_bits s)"
proof -
  have "unat (drop_bit n b AND 1) = of_bool (bit b n)" for n and b :: byte
    by (simp add: and_one_eq bit_iff_odd_drop_bit odd_iff_mod_2_eq_one)
  then show ?thesis
    by (simp add: bits_of_def window_bits_def map_concat byte_bits_def o_def)
qed

lemma hamming_xor: "hamming = xor_count"
  by (intro ext) (simp add: hamming_def xor_count_def)

lemma pairwise_pairs:
  "pairwise_distances ss = map (\<lambda>(i, j). hamming (ss ! i) (ss ! j)) (index_pairs (length ss))"
  by (simp add: pairwise_distances_def index_pairs_def map_concat o_def)

lemma sum_list_of_bool: "sum_list (map (\<lambda>x. of_bool (P x)) xs) = length (filter P xs)"
  by (induction xs) auto

lemma ones_counts_eq:
  assumes "\<forall>s \<in> set ss. length s = n"
  shows "ones_counts (n * 8) ss = map (ones_at ss) [0..<8 * n]"
proof -
  have "sum_list (map (\<lambda>row. row ! k) (map bits_of ss)) = ones_at ss k" if k: "k < 8 * n" for k
  proof -
    have "map ((\<lambda>row. row ! k) \<circ> bits_of) ss = map (\<lambda>s. of_bool (window_bits s ! k)) ss"
      using assms k by (intro map_cong) (simp_all add: bits_of_window)
    then show ?thesis unfolding map_map by (simp only: ones_at_def sum_list_of_bool)
  qed
  then show ?thesis unfolding ones_counts_def Let_def by (simp add: mult.commute)
qed

lemma xor_count_sum:
  "length a = n \<Longrightarrow> length b = n \<Longrightarrow>
     xor_count a b = sum_list (map (\<lambda>k. of_bool (window_bits a ! k \<noteq> window_bits b ! k)) [0..<8 * n])"
proof -
  assume l: "length a = n" "length b = n"
  have "map2 (\<lambda>x y. x = (\<not> y)) (window_bits a) (window_bits b)
      = map (\<lambda>k. window_bits a ! k \<noteq> window_bits b ! k) [0..<8 * n]"
    using l by (intro nth_equalityI) auto
  then show ?thesis
    using l by (simp add: xor_count_bits filter_map o_def sum_list_of_bool)
qed

text \<open>Among the pairs of a list of bits, those that differ are one per one and per zero.\<close>

lemma differing_pairs:
  "sum_list (map (\<lambda>(i, j). of_bool (P i \<noteq> P j)) (index_pairs n))
     = length (filter P [0..<n]) * (n - length (filter P [0..<n]))"
proof (induction n)
  case (Suc n)
  let ?f = "\<lambda>(i, j). of_bool (P i \<noteq> P j) :: nat" and ?t = "length (filter P [0..<n])"
  have le: "?t \<le> n" using length_filter_le [of P "[0..<n]"] by simp
  have "sum_list (map ?f (index_pairs (Suc n))) = sum_mset (image_mset ?f (mset (index_pairs (Suc n))))"
    by (simp flip: mset_map sum_mset_sum_list)
  also have "\<dots> = sum_list (map ?f (index_pairs n)) + sum_list (map (\<lambda>i. of_bool (P i \<noteq> P n)) [0..<n])"
    by (simp add: index_pairs_Suc image_mset.compositionality o_def flip: mset_map sum_mset_sum_list)
  also have "sum_list (map (\<lambda>i. of_bool (P i \<noteq> P n)) [0..<n]) = (if P n then n - ?t else ?t)"
  proof (cases "P n")
    case True
    have "n = ?t + length (filter (\<lambda>i. \<not> P i) [0..<n])"
      using sum_length_filter_compl [of P "[0..<n]"] by simp
    with True show ?thesis by (simp add: sum_list_of_bool)
  qed (simp add: sum_list_of_bool)
  finally show ?case
    using Suc.IH le by (auto simp: algebra_simps Suc_diff_le)
qed (simp add: index_pairs_def)

lemma filter_index: "length (filter P xs) = length (filter (\<lambda>i. P (xs ! i)) [0..<length xs])"
proof -
  have "filter P xs = filter P (map (\<lambda>i. xs ! i) [0..<length xs])" by (simp add: map_nth)
  then show ?thesis by (simp only: filter_map o_def length_map)
qed

lemma sum_list_swap:
  "sum_list (map (\<lambda>x. sum_list (map (f x) ys)) xs) = sum_list (map (\<lambda>y. sum_list (map (\<lambda>x. f x y) xs)) ys)"
  for f :: "'a \<Rightarrow> 'b \<Rightarrow> nat"
  by (induction xs) (simp_all add: sum_list_addf)

lemma distance_sum:
  assumes "\<forall>s \<in> set ss. length s = n"
  shows "sum_list (pairwise_distances ss)
    = sum_list (map (\<lambda>k. ones_at ss k * (length ss - ones_at ss k)) [0..<8 * n])"
proof -
  let ?b = "\<lambda>k i. window_bits (ss ! i) ! k"
  have "pairwise_distances ss = map (\<lambda>(i, j). sum_list (map (\<lambda>k. of_bool (?b k i \<noteq> ?b k j)) [0..<8 * n])) (index_pairs (length ss))"
    unfolding pairwise_pairs hamming_xor
  proof (intro map_cong HOL.refl, clarify)
    fix i j assume "(i, j) \<in> set (index_pairs (length ss))"
    then have "length (ss ! i) = n" "length (ss ! j) = n" using assms by (auto simp: set_index_pairs)
    then show "xor_count (ss ! i) (ss ! j) = sum_list (map (\<lambda>k. of_bool (?b k i \<noteq> ?b k j)) [0..<8 * n])"
      by (rule xor_count_sum)
  qed
  then have "sum_list (pairwise_distances ss)
      = sum_list (map (\<lambda>p. sum_list (map (\<lambda>k. of_bool (?b k (fst p) \<noteq> ?b k (snd p))) [0..<8 * n])) (index_pairs (length ss)))"
    by (simp add: case_prod_unfold)
  also have "\<dots> = sum_list (map (\<lambda>k. sum_list (map (\<lambda>p. of_bool (?b k (fst p) \<noteq> ?b k (snd p))) (index_pairs (length ss)))) [0..<8 * n])"
    by (rule sum_list_swap)
  also have "\<dots> = sum_list (map (\<lambda>k. ones_at ss k * (length ss - ones_at ss k)) [0..<8 * n])"
    using differing_pairs [of "?b k" "length ss" for k] filter_index [of _ ss]
    by (simp add: case_prod_unfold ones_at_def)
  finally show ?thesis .
qed


section \<open>Min-entropy of a bit\<close>

lemma neg_log2_le:
  assumes "0 \<le> q" and "q \<le> 1 / 2"
  shows "- log 2 (1 - q) \<le> 2 * q"
proof -
  let ?m = "1 - q"
  have m: "0 < ?m" using assms by simp
  have a: "- ln ?m \<le> 1 / ?m - 1"
    using ln_le_minus_one [of "1 / ?m"] m by (simp add: ln_div)
  have "ln (2 * ?m) = ln 2 + ln ?m" using m by (intro ln_mult_pos) auto
  moreover have "ln (inverse (2 * ?m)) \<le> inverse (2 * ?m) - 1" using m by (intro ln_le_minus_one) auto
  moreover have "ln (inverse (2 * ?m)) = - ln (2 * ?m)" using m by (intro ln_inverse)
  ultimately have b: "- ln 2 - ln ?m \<le> 1 / (2 * ?m) - 1" by (simp only: inverse_eq_divide)
  have "(1 - 2 * q) * (- ln ?m) + 2 * q * (- ln 2 - ln ?m) \<le> (1 - 2 * q) * (1 / ?m - 1) + 2 * q * (1 / (2 * ?m) - 1)"
    using assms a b by (intro add_mono mult_left_mono) auto
  also have "\<dots> = 0" using m by (simp add: field_simps)
  finally have "- ln ?m \<le> 2 * q * ln 2" by (simp add: algebra_simps)
  then show ?thesis by (simp add: log_def field_simps)
qed

lemma bit_hmin_range: "0 \<le> p \<Longrightarrow> p \<le> 1 \<Longrightarrow> 0 \<le> bit_hmin p \<and> bit_hmin p \<le> (if p = 0 \<or> p = 1 then 0 else 1)"
proof -
  assume p: "0 \<le> p" "p \<le> 1"
  have "- log 2 (max p (1 - p)) \<le> - log 2 (1 / 2)" if "0 < p" "p < 1"
    using that by (intro le_imp_neg_le log_mono) (auto simp: max_def)
  moreover have "0 \<le> - log 2 (max p (1 - p))" if "0 < p" "p < 1"
    using that by (simp add: max_def)
  ultimately show ?thesis using p by (auto simp: bit_hmin_def log_divide)
qed

lemma bit_hmin_zero: "0 \<le> p \<Longrightarrow> p \<le> 1 \<Longrightarrow> bit_hmin p = 0 \<longleftrightarrow> p = 0 \<or> p = 1"
proof -
  assume p: "0 \<le> p" "p \<le> 1"
  have "bit_hmin p \<noteq> 0" if "0 < p" "p < 1"
  proof -
    have "log 2 (max p (1 - p)) < 0" using that by (subst log_less_zero_cancel_iff) (auto simp: max_def)
    then have "log 2 (max p (1 - p)) \<noteq> 0" by (rule less_imp_neq)
    then show ?thesis using that by (simp only: bit_hmin_def simp_thms if_True neg_equal_0_iff_equal)
  qed
  moreover have "bit_hmin 0 = 0" "bit_hmin 1 = 0" by (simp_all add: bit_hmin_def)
  ultimately show ?thesis using p by (metis less_eq_real_def)
qed

lemma bit_hmin_variance: "0 \<le> p \<Longrightarrow> p \<le> 1 \<Longrightarrow> bit_hmin p \<le> 4 * (p * (1 - p))"
proof -
  assume p: "0 \<le> p" "p \<le> 1"
  define q where "q = min p (1 - p)"
  have q: "0 \<le> q" "q \<le> 1 / 2" "max p (1 - p) = 1 - q" "p * (1 - p) = q * (1 - q)"
    using p by (auto simp: q_def min_def max_def)
  have "bit_hmin p \<le> 2 * q"
    using neg_log2_le [OF q(1,2)] q by (simp add: bit_hmin_def)
  also have "\<dots> \<le> 4 * (q * (1 - q))"
  proof -
    have "0 \<le> q * (1 - 2 * q)" using q(1,2) by (intro mult_nonneg_nonneg) auto
    then show ?thesis by (simp add: algebra_simps)
  qed
  finally show ?thesis using q(4) by simp
qed

section \<open>The figures of samples of one size\<close>

abbreviation dumps :: "nat \<Rightarrow> bytes list \<Rightarrow> bool" where
  "dumps n ss \<equiv> ss \<noteq> [] \<and> 0 < n \<and> (\<forall>s \<in> set ss. length s = n)"

lemma ones_at_le: "ones_at ss k \<le> length ss"
  by (simp add: ones_at_def)

lemma ones_extreme:
  assumes "ss \<noteq> []"
  shows "ones_at ss k = 0 \<or> ones_at ss k = length ss \<longleftrightarrow> (\<forall>s \<in> set ss. window_bits s ! k = window_bits (hd ss) ! k)"
proof -
  have "ones_at ss k = length ss \<longleftrightarrow> (\<forall>s \<in> set ss. window_bits s ! k)"
    unfolding ones_at_def
  proof (induction ss)
    case (Cons s ss)
    have "length (filter (\<lambda>s. window_bits s ! k) ss) \<noteq> Suc (length ss)"
      using length_filter_le [of "\<lambda>s. window_bits s ! k" ss] by linarith
    with Cons show ?case by auto
  qed simp
  moreover have "ones_at ss k = 0 \<longleftrightarrow> (\<forall>s \<in> set ss. \<not> window_bits s ! k)"
    by (auto simp: ones_at_def filter_empty_conv)
  ultimately show ?thesis using hd_in_set [OF assms] by blast
qed

text \<open>The probability of a one at each position, and what the figures say of it.\<close>

definition ones_rate :: "bytes list \<Rightarrow> nat \<Rightarrow> real" where
  "ones_rate ss k = real (ones_at ss k) / real (length ss)"

lemma ones_rate_range: "0 \<le> ones_rate ss k \<and> ones_rate ss k \<le> 1"
  using ones_at_le [of ss k] by (cases "ss = []") (simp_all add: ones_rate_def)

lemma ones_rate_extreme:
  "ss \<noteq> [] \<Longrightarrow> ones_rate ss k = 0 \<or> ones_rate ss k = 1 \<longleftrightarrow> ones_at ss k = 0 \<or> ones_at ss k = length ss"
  by (auto simp: ones_rate_def)

lemma summarize_puf_dumps:
  assumes "summarize_puf ss = Inr f"
  shows "dumps (length (hd ss)) ss" and "f = puf_figures ss"
proof -
  have r: "ss \<noteq> []" "length (remdups (map length ss)) = 1" "length (hd ss) \<noteq> 0" "f = puf_figures ss"
    using assms by (auto simp: summarize_puf_def Let_def split: if_splits)
  then obtain n where n: "remdups (map length ss) = [n]" by (auto simp: length_Suc_conv)
  have "set (map length ss) = {n}" using arg_cong [OF n, of set] by simp
  then have "length s = n" if "s \<in> set ss" for s using that by auto
  with r show "dumps (length (hd ss)) ss" and "f = puf_figures ss" by auto
qed

lemma summarize_puf_ok: "dumps n ss \<Longrightarrow> summarize_puf ss = Inr (puf_figures ss)"
proof -
  assume d: "dumps n ss"
  then have "n \<in> set (map length ss)" "set (map length ss) \<subseteq> {n}"
    using hd_in_set [of ss] by (metis image_eqI list.set_map, auto)
  then have "set (map length ss) = {n}" by blast
  then have "card (set (map length ss)) = 1" by simp
  then have "length (remdups (map length ss)) = 1" by (simp add: length_remdups_card_conv)
  moreover have "length (hd ss) = n" using d by simp
  ultimately show ?thesis using d by (simp add: summarize_puf_def Let_def)
qed

lemma puf_figures_dumps:
  assumes "dumps n ss"
  shows "dict_get (puf_figures ss) ''sum_per_bit_min_entropy''
      = Some (FReal (sum_list (map (\<lambda>k. bit_hmin (ones_rate ss k)) [0..<8 * n])))"
    and "dict_get (puf_figures ss) ''stable_bits''
      = Some (FInt (int (length (filter (\<lambda>k. \<forall>s \<in> set ss. window_bits s ! k = window_bits (hd ss) ! k) [0..<8 * n]))))"
    and "dict_get (puf_figures ss) ''pairwise_hamming_mean'' = Some (FReal (mean_or_zero (map real (pairwise_distances ss))))"
    and "dict_get (puf_figures ss) ''near_stable_bits_5pct''
      = Some (FInt (int (length (filter (\<lambda>k. ones_rate ss k \<le> 5 / 100 \<or> ones_rate ss k \<ge> 95 / 100) [0..<8 * n]))))"
proof -
  have hd: "length (hd ss) = n" and oc: "ones_counts (n * 8) ss = map (ones_at ss) [0..<8 * n]"
    using assms ones_counts_eq [of ss n] by simp_all
  have probs: "map (\<lambda>c. real c / real (length ss)) (ones_counts (n * 8) ss) = map (ones_rate ss) [0..<8 * n]"
    unfolding oc by (simp add: ones_rate_def)
  have st: "ones_rate ss k = 0 \<or> ones_rate ss k = 1 \<longleftrightarrow> (\<forall>s \<in> set ss. window_bits s ! k = window_bits (hd ss) ! k)" for k
    using assms ones_rate_extreme [of ss k] ones_extreme [of ss k] by simp
  note d = puf_figures_def [of ss, unfolded Let_def hd probs]
  show "dict_get (puf_figures ss) ''sum_per_bit_min_entropy''
      = Some (FReal (sum_list (map (\<lambda>k. bit_hmin (ones_rate ss k)) [0..<8 * n])))"
    by (simp add: d dict_get_def o_def)
  show "dict_get (puf_figures ss) ''stable_bits''
      = Some (FInt (int (length (filter (\<lambda>k. \<forall>s \<in> set ss. window_bits s ! k = window_bits (hd ss) ! k) [0..<8 * n]))))"
    by (simp add: d dict_get_def filter_map o_def st)
  show "dict_get (puf_figures ss) ''pairwise_hamming_mean'' = Some (FReal (mean_or_zero (map real (pairwise_distances ss))))"
    by (simp add: d dict_get_def)
  show "dict_get (puf_figures ss) ''near_stable_bits_5pct''
      = Some (FInt (int (length (filter (\<lambda>k. ones_rate ss k \<le> 5 / 100 \<or> ones_rate ss k \<ge> 95 / 100) [0..<8 * n]))))"
    by (simp add: d dict_get_def filter_map o_def)
qed


lemma sum_real: "sum_list (map real xs) = real (sum_list xs)"
  by (induction xs) simp_all

lemma sum_of_bool_real: "sum_list (map (\<lambda>k. of_bool (P k)) xs) = real (length (filter P xs))"
  by (induction xs) auto

lemma window_bits_inject:
  assumes "length s = length t"
  shows "window_bits s = window_bits t \<longleftrightarrow> s = t"
proof
  assume "window_bits s = window_bits t"
  then have "xor_count s t = xor_count t t"
    by (simp only: xor_count_bits [OF assms] xor_count_bits [of t t])
  also have "\<dots> = 0" by (simp add: xor_count_eq_0)
  finally show "s = t" using xor_count_eq_0 [OF assms] by simp
qed simp

lemma pair_mean:
  assumes "dumps n ss"
  shows "mean_or_zero (map real (pairwise_distances ss)) * (real (length ss) * real (length ss - 1) / 2)
    = real (sum_list (map (\<lambda>k. ones_at ss k * (length ss - ones_at ss k)) [0..<8 * n]))"
proof -
  let ?ds = "pairwise_distances ss" and ?N = "length ss"
  have l: "length ?ds = ?N * (?N - 1) div 2" by (simp add: pairwise_pairs length_index_pairs)
  have "2 dvd ?N * (?N - 1)" by (cases ?N) simp_all
  then have r: "real (length ?ds) = real ?N * real (?N - 1) / 2" unfolding l by (simp add: real_of_nat_div)
  have "mean_or_zero (map real ?ds) * real (length ?ds) = real (sum_list ?ds)"
    by (cases "?ds = []") (simp_all add: mean_or_zero_def sum_real)
  then show ?thesis unfolding r using distance_sum [of ss n] assms by simp
qed

lemma variance_counts:
  assumes "ss \<noteq> []"
  shows "ones_rate ss k * (1 - ones_rate ss k) * (real (length ss) * real (length ss)) = real (ones_at ss k * (length ss - ones_at ss k))"
  using assms ones_at_le [of ss k] by (simp add: ones_rate_def of_nat_diff field_simps)

text \<open>
  The pairwise distances are what the per-bit counts say. When the samples are accepted, their
  mean distance, computed over all pairs, times the number of pairs is the sum over the bit positions
  of the samples with a one times the samples with a zero; and the stable bits are the positions at
  which every sample agrees with the first.
\<close>

theorem puf_distances_exact:
  assumes "summarize_puf ss = Inr f"
  shows "\<exists>M. dict_get f ''pairwise_hamming_mean'' = Some (FReal M)
     \<and> M * (real (length ss) * real (length ss - 1) / 2)
         = real (sum_list (map (\<lambda>k. ones_at ss k * (length ss - ones_at ss k)) [0..<8 * length (hd ss)]))
     \<and> dict_get f ''stable_bits''
         = Some (FInt (int (card {k. k < 8 * length (hd ss) \<and> (\<forall>s \<in> set ss. window_bits s ! k = window_bits (hd ss) ! k)})))"
proof -
  define n where "n = length (hd ss)"
  have d: "dumps n ss" unfolding n_def by (rule summarize_puf_dumps(1) [OF assms])
  have f: "f = puf_figures ss" by (rule summarize_puf_dumps(2) [OF assms])
  have "length (filter P [0..<m]) = card {k. k < m \<and> P k}" for P m
  proof -
    have "set (filter P [0..<m]) = {k. k < m \<and> P k}" by auto
    then show ?thesis using distinct_card [of "filter P [0..<m]"] by (simp only: distinct_filter distinct_upt)
  qed
  then have c: "length (filter (\<lambda>k. \<forall>s \<in> set ss. window_bits s ! k = window_bits (hd ss) ! k) [0..<8 * n])
      = card {k. k < 8 * n \<and> (\<forall>s \<in> set ss. window_bits s ! k = window_bits (hd ss) ! k)}" by simp
  show ?thesis
    unfolding n_def [symmetric] f puf_figures_dumps(2,3) [OF d] c pair_mean [OF d, symmetric]
    by (rule exI, rule conjI, rule HOL.refl, rule conjI, rule HOL.refl, rule HOL.refl)
qed

theorem puf_distances_exact_witness:
  "\<exists>M. dict_get (puf_figures [[0], [255], [15]]) ''pairwise_hamming_mean'' = Some (FReal M) \<and> M * 3 = 16"
proof -
  have s: "summarize_puf [[0], [255], [15]] = Inr (puf_figures [[0], [255], [15]])" by (rule summarize_puf_ok [where n = 1]) simp
  have o: "map (ones_at [[0], [255], [15]]) [0..<8] = [1, 1, 1, 1, 2, 2, 2, 2]" by code_simp
  have "map (\<lambda>k. ones_at [[0], [255], [15]] k * (3 - ones_at [[0], [255], [15]] k)) [0..<8]
      = map (\<lambda>c. c * (3 - c)) (map (ones_at [[0], [255], [15]]) [0..<8])" by (simp only: map_map o_def)
  then have t: "sum_list (map (\<lambda>k. ones_at [[0], [255], [15]] k * (3 - ones_at [[0], [255], [15]] k)) [0..<8]) = 16"
    unfolding o by simp
  have n: "length [[0], [255], [15]] = 3" "8 * length (hd [[0], [255], [15]]) = 8" "real 3 * real (3 - 1) / 2 = 3" by simp_all
  show ?thesis using puf_distances_exact [OF s] unfolding n t by auto
qed

text \<open>
  The min-entropy of accepted samples is bounded by their distances. The sum over the bits lies
  between zero and the number of bits that are not stable; it is at most \<open>2 (n - 1) / n\<close> times the
  mean pairwise distance of the \<open>n\<close> samples; and it is zero exactly when all samples are equal.
\<close>

theorem puf_entropy_bounds:
  assumes "summarize_puf ss = Inr f"
  shows "\<exists>H M stable. dict_get f ''sum_per_bit_min_entropy'' = Some (FReal H)
     \<and> dict_get f ''pairwise_hamming_mean'' = Some (FReal M) \<and> dict_get f ''stable_bits'' = Some (FInt stable)
     \<and> 0 \<le> H \<and> H \<le> real (8 * length (hd ss)) - of_int stable
     \<and> H \<le> 2 * (real (length ss - 1) / real (length ss)) * M
     \<and> (H = 0 \<longleftrightarrow> (\<forall>s \<in> set ss. s = hd ss))"
proof -
  define n where "n = length (hd ss)"
  have d: "dumps n ss" unfolding n_def by (rule summarize_puf_dumps(1) [OF assms])
  have f: "f = puf_figures ss" by (rule summarize_puf_dumps(2) [OF assms])
  let ?N = "real (length ss)"
  let ?h = "\<lambda>k. bit_hmin (ones_rate ss k)" and ?ks = "[0..<8 * n]"
  let ?same = "\<lambda>k. \<forall>s \<in> set ss. window_bits s ! k = window_bits (hd ss) ! k"
  let ?M = "mean_or_zero (map real (pairwise_distances ss))"
  define H where "H = sum_list (map ?h ?ks)"
  have same: "ones_rate ss k = 0 \<or> ones_rate ss k = 1 \<longleftrightarrow> ?same k" for k
    using d ones_rate_extreme [of ss k] ones_extreme [of ss k] by simp
  have h0: "0 \<le> ?h k" and hz: "?h k = 0 \<longleftrightarrow> ?same k" and h1: "?h k \<le> of_bool (\<not> ?same k)" for k
  proof -
    note r = ones_rate_range [of ss k]
    have le: "x \<le> of_bool (\<not> P)" if "x \<le> (if P then 0 else 1)" for x :: real and P using that by (cases P) simp_all
    note b = bit_hmin_range [OF conjunct1 [OF r] conjunct2 [OF r]]
    show "0 \<le> ?h k" using b by (rule conjunct1)
    show "?h k = 0 \<longleftrightarrow> ?same k" using bit_hmin_zero [OF conjunct1 [OF r] conjunct2 [OF r]] same by (rule trans)
    show "?h k \<le> of_bool (\<not> ?same k)" using le [OF conjunct2 [OF b]] by (simp only: same)
  qed
  have "H \<le> sum_list (map (\<lambda>k. of_bool (\<not> ?same k)) ?ks)" unfolding H_def by (intro sum_list_mono h1)
  also have "\<dots> = real (length (filter (\<lambda>k. \<not> ?same k) ?ks))" by (rule sum_of_bool_real)
  also have "\<dots> = real (8 * n) - real (length (filter ?same ?ks))"
    using sum_length_filter_compl [of ?same ?ks] by (simp only: length_upt)
  finally have stable: "H \<le> real (8 * n) - real (length (filter ?same ?ks))" .
  have "H * (?N * ?N) = sum_list (map (\<lambda>k. ?h k * (?N * ?N)) ?ks)" by (simp add: H_def sum_list_mult_const)
  also have "\<dots> \<le> sum_list (map (\<lambda>k. 4 * real (ones_at ss k * (length ss - ones_at ss k))) ?ks)"
  proof (rule sum_list_mono)
    fix k
    have "?h k * (?N * ?N) \<le> 4 * (ones_rate ss k * (1 - ones_rate ss k)) * (?N * ?N)"
      using ones_rate_range [of ss k] by (intro mult_right_mono bit_hmin_variance) auto
    also have "\<dots> = 4 * real (ones_at ss k * (length ss - ones_at ss k))"
      using variance_counts [OF conjunct1 [OF d], of k] by (simp only: mult.assoc)
    finally show "?h k * (?N * ?N) \<le> 4 * real (ones_at ss k * (length ss - ones_at ss k))" .
  qed
  also have "\<dots> = 4 * real (sum_list (map (\<lambda>k. ones_at ss k * (length ss - ones_at ss k)) ?ks))"
    by (simp add: sum_list_const_mult o_def flip: sum_real)
  also have "\<dots> = 4 * (?M * (?N * real (length ss - 1) / 2))" using pair_mean [OF d] by simp
  finally have "H * ?N * ?N \<le> 2 * real (length ss - 1) * ?M * ?N" by (simp add: algebra_simps)
  moreover have N: "0 < ?N" using d by simp
  ultimately have "H * ?N \<le> 2 * real (length ss - 1) * ?M" by (simp only: mult_le_cancel_right_pos)
  then have bound: "H \<le> 2 * (real (length ss - 1) / ?N) * ?M" 
    using pos_le_divide_eq [OF N] by (simp only: times_divide_eq_left times_divide_eq_right)
  have "H = 0 \<longleftrightarrow> (\<forall>k \<in> set ?ks. ?h k = 0)" unfolding H_def using h0 by (subst sum_list_nonneg_eq_0_iff) auto
  also have "\<dots> \<longleftrightarrow> (\<forall>s \<in> set ss. window_bits s = window_bits (hd ss))"
  proof -
    have l: "length (window_bits s) = 8 * n" if "s \<in> set ss" for s using d that by simp
    then have "window_bits s = window_bits (hd ss) \<longleftrightarrow> (\<forall>k < 8 * n. window_bits s ! k = window_bits (hd ss) ! k)"
      if "s \<in> set ss" for s
      using that hd_in_set [OF conjunct1 [OF d]] by (simp only: list_eq_iff_nth_eq simp_thms)
    then show ?thesis unfolding hz set_upt by auto
  qed
  also have "\<dots> \<longleftrightarrow> (\<forall>s \<in> set ss. s = hd ss)"
  proof -
    have "length s = length (hd ss)" if "s \<in> set ss" for s using d that unfolding n_def by blast
    then show ?thesis using window_bits_inject by blast
  qed
  finally have zero: "H = 0 \<longleftrightarrow> (\<forall>s \<in> set ss. s = hd ss)" .
  have "0 \<le> H" unfolding H_def by (intro sum_list_nonneg) (auto simp: h0)
  then show ?thesis
    unfolding n_def [symmetric] f puf_figures_dumps(1-3) [OF d] using stable bound zero by (auto simp: H_def)
qed


theorem puf_entropy_bounds_witness:
  "\<exists>H M stable. dict_get (puf_figures [[0], [255], [15]]) ''sum_per_bit_min_entropy'' = Some (FReal H)
     \<and> dict_get (puf_figures [[0], [255], [15]]) ''pairwise_hamming_mean'' = Some (FReal M)
     \<and> dict_get (puf_figures [[0], [255], [15]]) ''stable_bits'' = Some (FInt stable) \<and> 0 < H \<and> H \<le> 4 / 3 * M"
proof -
  have s: "summarize_puf [[0], [255], [15]] = Inr (puf_figures [[0], [255], [15]])" by (rule summarize_puf_ok [where n = 1]) simp
  have n: "2 * (real (length [[0], [255], [15]] - 1) / real (length [[0], [255], [15]])) = 4 / 3" by simp
  have z: "\<not> (\<forall>s \<in> set [[0], [255], [15]]. s = hd [[0 :: byte], [255], [15]])" by simp
  show ?thesis using puf_entropy_bounds [OF s] z unfolding n by (metis order_le_less)
qed

section \<open>What the firmware prints is read back\<close>

text \<open>A line of the log: a dump as the firmware prints it, or any other text that does not match.\<close>

datatype log_item = Dump bytes | Other_Line string

fun log_line :: "log_item \<Rightarrow> string" where
  "log_line (Dump b) = RAW_TAG @ '' '' @ hex_of b"
| "log_line (Other_Line s) = s"

fun log_item_ok :: "log_item \<Rightarrow> bool" where
  "log_item_ok (Dump b) \<longleftrightarrow> b \<noteq> []"
| "log_item_ok (Other_Line s) \<longleftrightarrow> unbroken s \<and> raw_match (strip s) = None"

fun item_dumps :: "log_item \<Rightarrow> bytes list" where
  "item_dumps (Dump b) = [b]"
| "item_dumps (Other_Line s) = []"

definition log_text :: "log_item list \<Rightarrow> string" where
  "log_text is = concat (map (\<lambda>i. log_line i @ [CHR 0x0A]) is)"

lemma is_hex_digit_char [simp]: "v < 16 \<Longrightarrow> is_hex (digit_char v)"
  by (simp add: is_hex_def)

lemma hex_of_is_hex: "list_all is_hex (hex_of b)"
proof (induction b)
  case (Cons x b)
  then show ?case using unat_byte_lt [of x] by (simp add: hex_of_def hex_byte_def div_less_iff_less_mult)
qed (simp add: hex_of_def)

lemma is_hex_plain: "is_hex c \<Longrightarrow> \<not> is_space c \<and> \<not> is_line_break c"
  using digit_not_space [of 16 c] by (auto simp: is_hex_def is_line_break_def digit_value_def Let_def split: if_splits)

lemma takeWhile_dropWhile_all: "list_all P s \<Longrightarrow> takeWhile P s = s \<and> dropWhile P s = []"
  by (auto simp: list_all_iff)

lemma dump_line:
  assumes "b \<noteq> []"
  shows "unbroken (log_line (Dump b))" and "strip (log_line (Dump b)) = log_line (Dump b)"
    and "raw_match (log_line (Dump b)) = Some (hex_of b)"
proof -
  let ?h = "hex_of b"
  have h: "?h \<noteq> []" using assms by (simp flip: length_greater_0_conv)
  have sp: "\<not> is_space c" "\<not> is_line_break c" if "c \<in> set ?h" for c
    using hex_of_is_hex [of b] is_hex_plain that by (auto simp: list_all_iff)
  show "unbroken (log_line (Dump b))"
    using sp by (auto simp: list_all_iff RAW_TAG_def is_line_break_def code_def)
  show "strip (log_line (Dump b)) = log_line (Dump b)"
    using h sp [of "last ?h"] by (intro strip_clean) (simp_all add: RAW_TAG_def is_space_def code_def)
  have "dropWhile is_space ('' '' @ ?h) = ?h"
    using h sp [of "hd ?h"] by (cases ?h) (simp_all add: is_space_def code_def)
  then show "raw_match (log_line (Dump b)) = Some ?h"
    using takeWhile_dropWhile_all [OF hex_of_is_hex [of b]] h
    by (simp add: raw_match_def startswith_def is_space_def code_def Let_def del: takeWhile_eq_all_conv dropWhile_eq_Nil_conv)
qed

lemma extract_items:
  assumes "list_all log_item_ok items"
  shows "extract_samples (log_text items) = Inr (concat (map item_dumps items))"
proof -
  have "list_all unbroken (map log_line items)"
    using assms
  proof (induction items)
    case (Cons i items)
    then show ?case by (cases i) (use dump_line(1) in auto)
  qed simp
  then have "splitlines (log_text items) = map log_line items"
    using splitlines_text [of "map log_line items"] by (simp add: log_text_def o_def)
  moreover have "rmap extract_line (map log_line items) = Inr (map item_dumps items)"
    using assms
  proof (induction items)
    case (Cons i items)
    then have "extract_line (log_line i) = Inr (item_dumps i)"
      by (cases i) (simp_all add: extract_line_def dump_line(2,3) del: log_line.simps(1))
    with Cons show ?case by simp
  qed simp
  ultimately show ?thesis by (simp add: extract_samples_def)
qed

text \<open>The table can always be made from the figures of a summary.\<close>

lemma figures_table: "\<exists>cells. table_cells (puf_figures ss) = Inr cells"
  by (simp add: table_cells_def puf_figures_def Let_def num_at_def pct_at_def fmt_num_def fmt_pct_def dict_item_def
      dict_get_def figure_real_def)

text \<open>The run on a log of dumps.\<close>

lemma puf_log_read:
  assumes "list_all log_item_ok items" and "concat (map item_dumps items) = ss"
    and "ss \<noteq> []" and "list_all (\<lambda>s. length s = n) ss"
  shows "\<exists>f files. puf_main opts (log_text items) = Inr (f, files)
     \<and> dict_get f ''samples'' = Some (FInt (int (length ss))) \<and> dict_get f ''bytes_per_sample'' = Some (FInt (int n))
     \<and> (\<forall>p. (p, Raw_Bin b) \<in> set files \<longleftrightarrow> opt_raw_bin opts = Some p \<and> b = concat ss)"
proof -
  have pos: "0 < n"
  proof -
    obtain i where i: "i \<in> set items" "item_dumps i \<noteq> []" using assms(2,3) by auto
    then obtain b where "i = Dump b" by (cases i rule: log_item.exhaust) auto
    with i have "Dump b \<in> set items" by simp
    then have "b \<noteq> []" "b \<in> set ss" using assms(1,2) by (force simp: list_all_iff)+
    then show ?thesis using assms(4) by (auto simp: list_all_iff)
  qed
  then have d: "dumps n ss" using assms(3,4) by (simp add: list_all_iff)
  obtain cells where t: "table_cells (puf_figures ss) = Inr cells" using figures_table by blast
  have hd: "length (hd ss) = n" using d by simp
  have f: "dict_get (puf_figures ss) ''samples'' = Some (FInt (int (length ss)))"
    "dict_get (puf_figures ss) ''bytes_per_sample'' = Some (FInt (int n))"
    by (simp_all add: puf_figures_def Let_def dict_get_def hd)
  show ?thesis
    using f t by (auto simp: puf_main_def extract_items [OF assms(1)] assms(2) summarize_puf_ok [OF d] file_at_def
        split: option.splits)
qed

text \<open>
  A log of dumps is analysed whatever stands between them. For every log in which the dumps of
  one size the firmware printed stand on their own lines, in any number from one on, among lines
  that are not dumps, the program ends normally; the number of samples and their size are those
  printed; and the raw file, where one is asked for, is the dumps one after the other.
\<close>

theorem puf_log_analysed:
  assumes "list_all log_item_ok items" and "concat (map item_dumps items) = ss"
    and "ss \<noteq> []" and "list_all (\<lambda>s. length s = n) ss"
  shows "\<exists>f files. puf_main opts (log_text items) = Inr (f, files)
     \<and> dict_get f ''samples'' = Some (FInt (int (length ss))) \<and> dict_get f ''bytes_per_sample'' = Some (FInt (int n))
     \<and> (\<forall>p. (p, Raw_Bin b) \<in> set files \<longleftrightarrow> opt_raw_bin opts = Some p \<and> b = concat ss)"
  by (rule puf_log_read [OF assms])

theorem puf_log_analysed_witness:
  "\<exists>f files. puf_main \<lparr>opt_summary = None, opt_csv = None, opt_distances = None, opt_raw_bin = Some ''r.bin'', opt_table = Some ''t.tex'', opt_figure = None\<rparr>
       (log_text [Other_Line ''boot'', Dump [1, 2], Dump [1, 3]]) = Inr (f, files)
     \<and> dict_get f ''samples'' = Some (FInt 2) \<and> (''r.bin'', Raw_Bin [1, 2, 1, 3]) \<in> set files"
proof -
  let ?is = "[Other_Line ''boot'', Dump [1, 2], Dump [1, 3]]"
  have i: "list_all log_item_ok ?is"
    by (simp add: raw_match_def strip_def rstrip_def lstrip_def is_space_def code_def startswith_def RAW_TAG_def is_line_break_def)
  have d: "concat (map item_dumps ?is) = [[1, 2], [1, 3]]" by simp
  show ?thesis
    using puf_log_analysed [OF i d, where n = 2 and b = "[1, 2, 1, 3]" and opts = "\<lparr>opt_summary = None, opt_csv = None,
      opt_distances = None, opt_raw_bin = Some ''r.bin'', opt_table = Some ''t.tex'', opt_figure = None\<rparr>"] by auto
qed

end
