(* ===== verification/AebLog.thy ===== *)
theory AebLog
  imports PyNumber PyDict Stats Bits
    "HOL-Library.List_Lexorder" "HOL-Library.Char_ord"
begin

text \<open>
  The parser of the serial logs of the boot-entropy firmware (\<open>parse_aeb_log.py\<close>): result lines,
  the raw windows reassembled from their hexadecimal chunks, the summary, and the CSV table. A
  file is its decoded text. Facts: windows are reassembled from chunks in any order; what a lost
  chunk and a missing field do to the summary.
\<close>

section \<open>Reading a log\<close>

text \<open>The lines of a text file: any of the three line ends is read as a line feed, which is kept.\<close>

fun newlines :: "string \<Rightarrow> string" where
  "newlines [] = []"
| "newlines [c] = (if code c = 13 then [CHR 0x0A] else [c])"
| "newlines (c # d # s) =
     (if code c = 13 then CHR 0x0A # (if code d = 10 then newlines s else newlines (d # s)) else c # newlines (d # s))"

fun cut_file_lines :: "string \<Rightarrow> string \<Rightarrow> string list" where
  "cut_file_lines acc [] = (if acc = [] then [] else [rev acc])"
| "cut_file_lines acc (c # s) = (if c = CHR 0x0A then rev (c # acc) # cut_file_lines [] s else cut_file_lines (c # acc) s)"

definition file_lines :: "string \<Rightarrow> string list" where
  "file_lines text = cut_file_lines [] (newlines text)"

definition rstrip_commas :: "string \<Rightarrow> string" where
  "rstrip_commas s = rev (dropWhile (\<lambda>c. c = CHR '','') (rev s))"

definition log_token :: "string \<Rightarrow> (string, string) dict \<Rightarrow> (string, string) dict" where
  "log_token tok d = (case split1 CHR ''='' tok of None \<Rightarrow> d | Some (k, v) \<Rightarrow> dict_set k (rstrip_commas v) d)"

definition parse_kv_line :: "string \<Rightarrow> (string, string) dict" where
  "parse_kv_line line = fold log_token (split_ws (strip line)) []"

definition RESULT_TAG :: string where "RESULT_TAG = ''[AEB_RESULT]''"
definition CHUNK_TAG :: string where "CHUNK_TAG = ''[AEB_RAW_HEX_CHUNK]''"

type_synonym aeb_row = "(string, string) dict"
type_synonym chunk_table = "(int, (int, string) dict) dict"

definition add_chunk :: "int \<Rightarrow> int \<Rightarrow> string \<Rightarrow> chunk_table \<Rightarrow> chunk_table" where
  "add_chunk t off h cs = dict_set t (dict_set off h (dict_get_or cs t [])) cs"

text \<open>A chunk line whose trial or offset is missing or not an integer, or without the bytes, is skipped.\<close>

definition chunk_of :: "(string, string) dict \<Rightarrow> (int \<times> int \<times> string) result" where
  "chunk_of fields =
     rbind (dict_item fields ''trial'') (\<lambda>ts. rbind (py_int ts) (\<lambda>t.
     rbind (dict_item fields ''offset'') (\<lambda>os. rbind (py_int os) (\<lambda>off.
     rbind (dict_item fields ''hex'') (\<lambda>h. Inr (t, off, h))))))"

definition log_step :: "string \<Rightarrow> aeb_row list \<times> chunk_table \<Rightarrow> aeb_row list \<times> chunk_table" where
  "log_step line st =
     (case st of (rows, cs) \<Rightarrow>
        if contains line RESULT_TAG then (rows @ [parse_kv_line (after_first RESULT_TAG line)], cs)
        else if contains line CHUNK_TAG then
          (case chunk_of (parse_kv_line (after_first CHUNK_TAG line)) of
             Inl _ \<Rightarrow> st | Inr (t, off, h) \<Rightarrow> (rows, add_chunk t off h cs))
        else st)"

definition window_text :: "(int, string) dict \<Rightarrow> string" where
  "window_text chunks = join [] (map (\<lambda>k. dict_get_or chunks k []) (sort (dict_keys chunks)))"

definition raw_windows_of :: "chunk_table \<Rightarrow> (int, bytes) dict" where
  "raw_windows_of cs =
     fold (\<lambda>(t, chunks) ws. case fromhex (window_text chunks) of Inl _ \<Rightarrow> ws | Inr b \<Rightarrow> dict_set t b ws) cs []"

definition parse_aeb_log :: "string \<Rightarrow> aeb_row list \<times> (int, bytes) dict" where
  "parse_aeb_log text = (case fold log_step (file_lines text) ([], []) of (rows, cs) \<Rightarrow> (rows, raw_windows_of cs))"

section \<open>The summary\<close>

definition hamming_bytes :: "bytes \<Rightarrow> bytes \<Rightarrow> nat" where
  "hamming_bytes a b = (if length a \<noteq> length b then 0 else sum_list (map (\<lambda>(x, y). bit_count (x XOR y)) (zip a b)))"

definition hamming_hex :: "string \<Rightarrow> string \<Rightarrow> nat result" where
  "hamming_hex a b = rbind (fromhex a) (\<lambda>aa. rbind (fromhex b) (\<lambda>bb.
     Inr (if length aa \<noteq> length bb then 0 else sum_list (map (\<lambda>(x, y). bit_count (x XOR y)) (zip aa bb)))))"

definition pairwise :: "'a list \<Rightarrow> ('a \<Rightarrow> 'a \<Rightarrow> 'b result) \<Rightarrow> 'b list result" where
  "pairwise vs f =
     rmap (\<lambda>(i, j). f (vs ! i) (vs ! j)) (concat (map (\<lambda>i. map (\<lambda>j. (i, j)) [i + 1..<length vs]) [0..<length vs]))"

definition read_field :: "string \<Rightarrow> aeb_row \<Rightarrow> int option" where
  "read_field key row = (case rbind (dict_item row key) py_int of Inl _ \<Rightarrow> None | Inr v \<Rightarrow> Some v)"

definition numeric :: "aeb_row list \<Rightarrow> string \<Rightarrow> int list" where
  "numeric rows key = List.map_filter (read_field key) rows"

text \<open>A distribution: the number of values and, when there are any, minimum, mean, median, maximum.\<close>

type_synonym dist = "nat \<times> (real \<times> real \<times> real \<times> real) option"

definition summarize_dist :: "real list \<Rightarrow> dist" where
  "summarize_dist vs = (length vs, if vs = [] then None else Some (lmin vs, mean vs, median vs, lmax vs))"

text \<open>The bytes counted, the count of the most common byte, and the min-entropy in bits per byte.\<close>

definition byte_min_entropy :: "bytes list \<Rightarrow> nat \<times> (nat \<times> real) option" where
  "byte_min_entropy ws =
     (let joined = concat ws in if joined = [] then (0, None)
      else (length joined, Some (max_count joined, - log 2 (real (max_count joined) / real (length joined)))))"

record aeb_log_summary =
  lg_trials :: nat
  lg_conditions :: "string list"
  lg_unique_response :: nat
  lg_unique_raw :: nat
  lg_unique_seed :: nat
  lg_response_hamming :: dist
  lg_seed_hamming :: dist
  lg_raw_hamming :: dist
  lg_sample_us :: dist
  lg_jitter :: dist
  lg_packet_loss :: dist
  lg_ones_ratio :: "nat \<times> (real \<times> real \<times> real) option"
  lg_entropy :: "nat \<times> (nat \<times> real) option"
  lg_windows :: nat

definition hashes :: "string \<Rightarrow> aeb_row list \<Rightarrow> string list" where
  "hashes key rows = List.map_filter (\<lambda>r. dict_get r key) rows"

definition raw_value :: "(int, bytes) dict \<Rightarrow> aeb_row \<Rightarrow> bytes list result" where
  "raw_value ws r =
     (let t = dict_get_or r ''trial'' [] in
      if isdigit t then rbind (py_int t) (\<lambda>n. Inr (case dict_get ws n of None \<Rightarrow> [] | Some w \<Rightarrow> [w])) else Inr [])"

definition raw_values :: "(int, bytes) dict \<Rightarrow> aeb_row list \<Rightarrow> bytes list result" where
  "raw_values ws rows = rbind (rmap (raw_value ws) rows) (\<lambda>vs. Inr (concat vs))"

definition ones_ratio :: "aeb_row list \<Rightarrow> real list" where
  "ones_ratio rows =
     map (\<lambda>(o1, t). of_int o1 / of_int t)
       (filter (\<lambda>(_, t). t \<noteq> 0) (zip (numeric rows ''ones'') (map (\<lambda>b. b * 8) (numeric rows ''sample_bytes''))))"

definition packet_loss :: "aeb_row list \<Rightarrow> int list" where
  "packet_loss rows = map (\<lambda>(e, s). max (e - s) 0) (zip (numeric rows ''packets_expected'') (numeric rows ''packets_seen''))"

definition build_summary :: "aeb_row list \<Rightarrow> (int, bytes) dict \<Rightarrow> aeb_log_summary result" where
  "build_summary rows ws =
     rbind (raw_values ws rows) (\<lambda>raws.
     rbind (pairwise raws (\<lambda>a b. Inr (hamming_bytes a b))) (\<lambda>raw_hamming.
     rbind (pairwise (hashes ''response_sha256'' rows) hamming_hex) (\<lambda>response_hamming.
     rbind (pairwise (hashes ''seed_sha256'' rows) hamming_hex) (\<lambda>seed_hamming.
     let ratio = ones_ratio rows in
     Inr \<lparr>lg_trials = length rows,
          lg_conditions = sorted_list_of_set (set (map (\<lambda>r. dict_get_or r ''condition'' ''unknown'') rows)),
          lg_unique_response = card (set (hashes ''response_sha256'' rows)),
          lg_unique_raw = card (set (hashes ''raw_sha256'' rows)),
          lg_unique_seed = card (set (hashes ''seed_sha256'' rows)),
          lg_response_hamming = summarize_dist (map real response_hamming),
          lg_seed_hamming = summarize_dist (map real seed_hamming),
          lg_raw_hamming = summarize_dist (map real raw_hamming),
          lg_sample_us = summarize_dist (map of_int (numeric rows ''sample_us'')),
          lg_jitter = summarize_dist (map of_int (numeric rows ''jitter_mean_us'')),
          lg_packet_loss = summarize_dist (map of_int (packet_loss rows)),
          lg_ones_ratio = (length ratio, if ratio = [] then None else Some (lmin ratio, mean ratio, lmax ratio)),
          lg_entropy = byte_min_entropy raws, lg_windows = length raws\<rparr>))))"

text \<open>The table: the sorted names of all fields, and a cell of each row for each, empty where it has none.\<close>

definition aeb_log_csv :: "aeb_row list \<Rightarrow> string list \<times> string list list" where
  "aeb_log_csv rows =
     (if rows = [] then ([], [])
      else (let keys = sorted_list_of_set (\<Union> (set (map (\<lambda>r. set (dict_keys r)) rows)))
            in (keys, map (\<lambda>r. map (\<lambda>k. dict_get_or r k []) keys) rows)))"

definition aeb_log_main :: "string \<Rightarrow> ((string list \<times> string list list) \<times> aeb_log_summary) result" where
  "aeb_log_main text =
     (case parse_aeb_log text of (rows, ws) \<Rightarrow> rbind (build_summary rows ws) (\<lambda>s. Inr (aeb_log_csv rows, s)))"


section \<open>What the firmware prints is read back\<close>

text \<open>
  The lines of a log: a result, a chunk of the raw window of a trial as \<open>maybe_dump_raw_hex\<close>
  prints it, and anything else without the two tags.
\<close>

definition kv_text :: "string \<times> string \<Rightarrow> string" where
  "kv_text kv = fst kv @ CHR ''='' # snd kv"

definition fields_text :: "(string \<times> string) list \<Rightarrow> string" where
  "fields_text kvs = concat (map (\<lambda>kv. CHR '' '' # kv_text kv) kvs)"

definition clean_field :: "string \<times> string \<Rightarrow> bool" where
  "clean_field kv \<longleftrightarrow> CHR ''='' \<notin> set (fst kv) \<and> list_all (\<lambda>c. \<not> is_space c) (fst kv @ snd kv) \<and> rstrip_commas (snd kv) = snd kv"

datatype log_entry = Result_Entry "(string \<times> string) list" | Chunk_Entry nat nat bytes | Other_Entry string

definition chunk_fields :: "nat \<Rightarrow> nat \<Rightarrow> bytes \<Rightarrow> (string \<times> string) list" where
  "chunk_fields t off b = [(''trial'', str_of_nat t), (''offset'', str_of_nat off), (''hex'', hex_of b)]"

fun entry_line :: "log_entry \<Rightarrow> string" where
  "entry_line (Result_Entry kvs) = RESULT_TAG @ fields_text kvs"
| "entry_line (Chunk_Entry t off b) = CHUNK_TAG @ fields_text (chunk_fields t off b)"
| "entry_line (Other_Entry s) = s"

fun log_entry_ok :: "log_entry \<Rightarrow> bool" where
  "log_entry_ok (Result_Entry kvs) \<longleftrightarrow> list_all clean_field kvs \<and> distinct (map fst kvs)"
| "log_entry_ok (Chunk_Entry t off b) \<longleftrightarrow> True"
| "log_entry_ok (Other_Entry s) \<longleftrightarrow> CHR 0x0A \<notin> set s \<and> CHR 0x0D \<notin> set s
     \<and> \<not> contains (s @ [CHR 0x0A]) RESULT_TAG \<and> \<not> contains (s @ [CHR 0x0A]) CHUNK_TAG"

definition entry_text :: "log_entry list \<Rightarrow> string" where
  "entry_text es = concat (map (\<lambda>e. entry_line e @ [CHR 0x0A]) es)"

fun entry_rows :: "log_entry \<Rightarrow> aeb_row list" where
  "entry_rows (Result_Entry kvs) = [kvs]"
| "entry_rows _ = []"

fun entry_chunks :: "log_entry \<Rightarrow> ((nat \<times> nat) \<times> bytes) list" where
  "entry_chunks (Chunk_Entry t off b) = [((t, off), b)]"
| "entry_chunks _ = []"

text \<open>The chunks of a window: 64 bytes each, the last one shorter.\<close>

definition window_pieces :: "bytes \<Rightarrow> (nat \<times> bytes) list" where
  "window_pieces w = map (\<lambda>k. (64 * k, take 64 (drop (64 * k) w))) [0..<(length w + 63) div 64]"

text \<open>The chunks of several trials, each with its pieces.\<close>

definition trial_chunks :: "(nat \<times> (nat \<times> bytes) list) list \<Rightarrow> ((nat \<times> nat) \<times> bytes) list" where
  "trial_chunks tps = concat (map (\<lambda>(t, ps). map (\<lambda>(off, b). ((t, off), b)) ps) tps)"

definition pieces_ok :: "(nat \<times> bytes) list \<Rightarrow> bool" where
  "pieces_ok ps \<longleftrightarrow> ps \<noteq> [] \<and> sorted (map fst ps) \<and> distinct (map fst ps)"

subsection \<open>Lines\<close>

lemma code_return: "code c = 13 \<longleftrightarrow> c = CHR 0x0D"
proof
  assume "code c = 13"
  then have "char_of (code c) = (char_of (13 :: nat) :: char)" by simp
  moreover have "char_of (13 :: nat) = CHR 0x0D" by code_simp
  ultimately show "c = CHR 0x0D" by simp
qed (simp add: code_def)

lemma newlines_plain: "CHR 0x0D \<notin> set s \<Longrightarrow> newlines s = s"
  by (induction s rule: newlines.induct) (auto simp: code_return)

lemma cut_file_lines_line: "CHR 0x0A \<notin> set l \<Longrightarrow> cut_file_lines acc (l @ CHR 0x0A # s) = (rev acc @ l @ [CHR 0x0A]) # cut_file_lines [] s"
  by (induction l arbitrary: acc) auto

lemma file_lines_text:
  assumes "list_all (\<lambda>l. CHR 0x0A \<notin> set l \<and> CHR 0x0D \<notin> set l) ls"
  shows "file_lines (concat (map (\<lambda>l. l @ [CHR 0x0A]) ls)) = map (\<lambda>l. l @ [CHR 0x0A]) ls"
proof -
  have "newlines (concat (map (\<lambda>l. l @ [CHR 0x0A]) ls)) = concat (map (\<lambda>l. l @ [CHR 0x0A]) ls)"
    using assms by (intro newlines_plain) (auto simp: list_all_iff)
  moreover have "cut_file_lines [] (concat (map (\<lambda>l. l @ [CHR 0x0A]) ls)) = map (\<lambda>l. l @ [CHR 0x0A]) ls"
    using assms by (induction ls) (simp_all add: cut_file_lines_line)
  ultimately show ?thesis by (simp add: file_lines_def)
qed


subsection \<open>Fields\<close>

lemma is_token_kv_text: "clean_field kv \<Longrightarrow> is_token (kv_text kv)"
proof -
  have "\<not> is_space CHR ''=''" by (simp add: is_space_def code_def)
  then show "clean_field kv \<Longrightarrow> is_token (kv_text kv)" by (simp add: is_token_def kv_text_def clean_field_def)
qed

lemma fold_log_token:
  assumes "list_all clean_field kvs" and "distinct (map fst (d @ kvs))"
  shows "fold log_token (map kv_text kvs) d = d @ kvs"
  using assms
proof (induction kvs arbitrary: d)
  case (Cons kv kvs)
  obtain k v where kv: "kv = (k, v)" by force
  have "log_token (kv_text kv) d = dict_set k v d"
    using Cons.prems(1) by (simp add: log_token_def kv_text_def kv split1_append clean_field_def)
  also have "\<dots> = d @ [kv]"
  proof -
    have "k \<notin> fst ` set d" using Cons.prems(2) by (auto simp: kv)
    then show ?thesis unfolding kv dict_set_def by (induction d) auto
  qed
  finally show ?case using Cons by simp
qed simp

lemma parse_fields_text:
  assumes "list_all clean_field kvs" and "distinct (map fst kvs)"
  shows "parse_kv_line (fields_text kvs @ [CHR 0x0A]) = kvs"
proof (cases kvs)
  case Nil
  then show ?thesis by (simp add: parse_kv_line_def fields_text_def strip_def lstrip_def rstrip_def split_ws_def)
next
  case (Cons kv rest)
  let ?s = "kv_text kv @ concat (map (\<lambda>t. CHR '' '' # t) (map kv_text rest))"
  have ts: "is_token (kv_text kv)" "list_all is_token (map kv_text rest)"
    using assms(1) Cons is_token_kv_text by (auto simp: list_all_iff)
  have "strip (fields_text kvs @ [CHR 0x0A]) = strip (?s @ [CHR 0x0A])"
    by (simp add: fields_text_def Cons strip_def lstrip_def o_def)
  also have "\<dots> = ?s" using strip_line [OF ts, of "[CHR 0x0A]"] by simp
  finally have "split_ws (strip (fields_text kvs @ [CHR 0x0A])) = map kv_text kvs"
    using split_ws_line [OF ts, of "[]"] by (simp add: Cons)
  then show ?thesis using fold_log_token [of kvs "[]"] assms by (simp add: parse_kv_line_def)
qed

lemma digits_clean: "all_digits b s \<Longrightarrow> b \<le> 36 \<Longrightarrow> list_all (\<lambda>c. \<not> is_space c) s \<and> rstrip_commas s = s"
proof -
  assume s: "all_digits b s" "b \<le> 36"
  have c: "\<not> is_space c \<and> c \<noteq> CHR '',''" if "c \<in> set s" for c
    using s that digit_not_space [of b c] by (auto simp: all_digits_def list_all_iff digit_value_def code_def split: if_splits)
  then have "dropWhile (\<lambda>c. c = CHR '','') (rev s) = rev s" by (cases s rule: rev_cases) auto
  then show ?thesis using c by (auto simp: list_all_iff rstrip_commas_def)
qed

lemma chunk_fields_ok: "list_all clean_field (chunk_fields t off b) \<and> distinct (map fst (chunk_fields t off b))"
  using digits_clean [of 10 "str_of_nat t"] digits_clean [of 10 "str_of_nat off"] digits_clean [OF hex_of_digits, of b]
    nat_text_digits [of 10]
  by (simp add: chunk_fields_def clean_field_def str_of_nat_def is_space_def code_def)

lemma chunk_of_fields: "chunk_of (chunk_fields t off b) = Inr (int t, int off, hex_of b)"
  by (simp add: chunk_of_def chunk_fields_def dict_item_def dict_get_def)

subsection \<open>Tags\<close>

lemma find_sub_prefix: "find_sub p (p @ s) = Some 0"
proof (cases p)
  case Nil
  then show ?thesis by (cases s) simp_all
qed simp

lemma contains_prefix: "contains (p @ s) p" and after_prefix: "after_first p (p @ s) = s"
  by (simp_all add: contains_def after_first_def find_sub_prefix)

text \<open>A tag whose first character stands only at the start of a line is found there or nowhere.\<close>

lemma contains_head:
  assumes "c \<notin> set s" and "contains (c # s) (c # p)"
  shows "take (length (c # p)) (c # s) = c # p"
proof -
  obtain i where i: "find_sub (c # p) (c # s) = Some i" using assms(2) by (auto simp: contains_def)
  have t: "take (length (c # p)) (drop i (c # s)) = c # p" using find_sub_Some [OF i] by simp
  have "i = 0"
  proof (rule ccontr)
    assume "i \<noteq> 0"
    then obtain j where "i = Suc j" by (cases i) auto
    with t have "take (length (c # p)) (drop j s) = c # p" by simp
    then have "c \<in> set (take (length (c # p)) (drop j s))" by simp
    then have "c \<in> set s" by (meson in_set_dropD in_set_takeD)
    with assms(1) show False by simp
  qed
  with t show ?thesis by simp
qed


subsection \<open>The table of chunks\<close>

definition put_chunk :: "(nat \<times> nat) \<times> bytes \<Rightarrow> chunk_table \<Rightarrow> chunk_table" where
  "put_chunk c cs = (case c of ((t, off), b) \<Rightarrow> add_chunk (int t) (int off) (hex_of b) cs)"

definition chunk_get :: "chunk_table \<Rightarrow> int \<Rightarrow> int \<Rightarrow> string option" where
  "chunk_get cs t off = dict_get (dict_get_or cs t []) off"

definition chunk_table_ok :: "chunk_table \<Rightarrow> bool" where
  "chunk_table_ok cs \<longleftrightarrow> dict_ok cs \<and> (\<forall>t. dict_ok (dict_get_or cs t []))"

lemma chunk_get_add [simp]:
  "chunk_get (add_chunk t off h cs) t' off' = (if t' = t \<and> off' = off then Some h else chunk_get cs t' off')"
  by (simp add: chunk_get_def add_chunk_def)

lemma chunk_table_ok_add: "chunk_table_ok cs \<Longrightarrow> chunk_table_ok (add_chunk t off h cs)"
  by (simp add: chunk_table_ok_def add_chunk_def)

lemma chunk_table_ok_fold: "chunk_table_ok cs \<Longrightarrow> chunk_table_ok (fold put_chunk kvs cs)"
  by (induction kvs arbitrary: cs) (auto simp: put_chunk_def chunk_table_ok_add split: prod.splits)

lemma chunk_get_other: "(t, off) \<notin> fst ` set kvs \<Longrightarrow> chunk_get (fold put_chunk kvs cs) (int t) (int off) = chunk_get cs (int t) (int off)"
  by (induction kvs arbitrary: cs) (auto simp: put_chunk_def split: prod.splits)

lemma chunk_get_in:
  assumes "((t, off), b) \<in> set kvs" and "\<And>b'. ((t, off), b') \<in> set kvs \<Longrightarrow> b' = b"
  shows "chunk_get (fold put_chunk kvs cs) (int t) (int off) = Some (hex_of b)"
  using assms
proof (induction kvs arbitrary: cs)
  case (Cons kv kvs)
  show ?case
  proof (cases "(t, off) \<in> fst ` set kvs")
    case True
    then obtain b' where b': "((t, off), b') \<in> set kvs" by (metis imageE prod.collapse)
    then have "b' = b" by (intro Cons.prems(2) list.set_intros(2))
    with b' have "((t, off), b) \<in> set kvs" by simp
    then have "chunk_get (fold put_chunk kvs (put_chunk kv cs)) (int t) (int off) = Some (hex_of b)"
      by (rule Cons.IH) (rule Cons.prems(2), rule list.set_intros(2))
    then show ?thesis by (simp only: fold_simps)
  next
    case False
    then have "((t, off), b) \<notin> set kvs" by force
    then have "kv = ((t, off), b)" using Cons.prems(1) by simp
    with False have "chunk_get (fold put_chunk kvs (put_chunk kv cs)) (int t) (int off) = chunk_get (put_chunk kv cs) (int t) (int off)"
      by (intro chunk_get_other)
    with \<open>kv = ((t, off), b)\<close> show ?thesis by (simp add: put_chunk_def [of "((t, off), b)"])
  qed
qed simp

lemma dict_keys_in: "set (dict_keys d) = {k. dict_get d k \<noteq> None}"
  using dict_in_keys [of _ d] by (auto simp: dict_in_def)

lemma chunk_keys:
  "chunk_get (fold put_chunk kvs cs) x y \<noteq> None \<longleftrightarrow>
     chunk_get cs x y \<noteq> None \<or> (\<exists>t off b. x = int t \<and> y = int off \<and> ((t, off), b) \<in> set kvs)"
  by (induction kvs arbitrary: cs) (auto simp: put_chunk_def split: prod.splits)

lemma trial_keys:
  "dict_get (fold put_chunk kvs cs) x \<noteq> None \<longleftrightarrow>
     dict_get cs x \<noteq> None \<or> (\<exists>t off b. x = int t \<and> ((t, off), b) \<in> set kvs)"
  by (induction kvs arbitrary: cs) (auto simp: put_chunk_def add_chunk_def split: prod.splits)

subsection \<open>Windows\<close>

lemma join_concat: "join [] xs = concat xs"
  by (induction "[] :: 'a list" xs rule: join.induct) simp_all

lemma window_pieces_concat: "concat (map snd (window_pieces w)) = w"
proof -
  have "length w \<le> 64 * ((length w + 63) div 64)" by linarith
  then show ?thesis using concat_pieces [of 64 w "(length w + 63) div 64"] by (simp add: window_pieces_def o_def)
qed

lemma window_pieces_ok: "w \<noteq> [] \<Longrightarrow> pieces_ok (window_pieces w)"
proof -
  assume "w \<noteq> []"
  then have "64 \<le> length w + 63" by (cases w) simp_all
  then show ?thesis
    by (simp add: pieces_ok_def window_pieces_def o_def distinct_map inj_on_def sorted_iff_nth_mono div_greater_zero_iff)
qed

lemma hex_of_concat: "concat (map hex_of bs) = hex_of (concat bs)"
  by (induction bs) (simp_all add: hex_of_def)

text \<open>A table entry that holds exactly some pieces gives them back in the order of their offsets.\<close>

lemma window_text_pieces:
  assumes "dict_ok d" and "pieces_ok ps" and "\<And>y. dict_get d y \<noteq> None \<longleftrightarrow> (\<exists>off b. y = int off \<and> (off, b) \<in> set ps)"
    and "\<And>off b. (off, b) \<in> set ps \<Longrightarrow> dict_get d (int off) = Some (hex_of b)"
  shows "window_text d = hex_of (concat (map snd ps))"
proof -
  let ?ks = "map (\<lambda>p. int (fst p)) ps"
  have "set (dict_keys d) = set ?ks"
    unfolding dict_keys_in assms(3) by force
  moreover have "sorted ?ks" and "distinct ?ks"
    using assms(2) by (auto simp: pieces_ok_def sorted_map distinct_map inj_on_def elim!: sorted_wrt_mono_rel [rotated])
  moreover have "distinct (dict_keys d)" using assms(1) by (simp add: dict_ok_def dict_keys_def)
  ultimately have keys: "sort (dict_keys d) = ?ks"
    by (intro sorted_distinct_set_unique) simp_all
  have "map (\<lambda>k. dict_get_or d k []) (sort (dict_keys d)) = map hex_of (map snd ps)"
    unfolding keys using assms(4) by (auto simp: dict_get_or_def)
  then show ?thesis unfolding window_text_def join_concat by (simp only: hex_of_concat)
qed

lemma raw_windows_get:
  assumes "dict_ok cs"
  shows "dict_get (raw_windows_of cs) x =
    (case dict_get cs x of None \<Rightarrow> None | Some ch \<Rightarrow> (case fromhex (window_text ch) of Inl _ \<Rightarrow> None | Inr b \<Rightarrow> Some b))"
proof -
  let ?f = "\<lambda>(t, chunks) ws. case fromhex (window_text chunks) of Inl _ \<Rightarrow> ws | Inr b \<Rightarrow> dict_set t b ws"
  have "dict_get (fold ?f cs ws) x = (case map_of cs x of None \<Rightarrow> dict_get ws x
      | Some ch \<Rightarrow> (case fromhex (window_text ch) of Inl _ \<Rightarrow> dict_get ws x | Inr b \<Rightarrow> Some b))"
    if "distinct (map fst cs)" for cs ws
    using that
  proof (induction cs arbitrary: ws)
    case (Cons c cs)
    have "map_of cs (fst c) = None" using Cons.prems by (simp add: map_of_eq_None_iff)
    with Cons show ?case by (cases c) (auto split: option.splits sum.splits)
  qed simp
  from this [of cs "[]"] assms show ?thesis
    unfolding raw_windows_of_def dict_ok_def dict_get_def [of cs] dict.get_empty by simp
qed


subsection \<open>Whole logs\<close>

lemma clean_field_unbroken: "clean_field kv \<Longrightarrow> CHR 0x0A \<notin> set (kv_text kv) \<and> CHR 0x0D \<notin> set (kv_text kv)"
proof -
  assume c: "clean_field kv"
  have sp: "is_space (CHR 0x0A)" "is_space (CHR 0x0D)" by (simp_all add: is_space_def code_def)
  have "\<not> is_space x \<or> x = CHR ''=''" if "x \<in> set (kv_text kv)" for x
    using c that by (auto simp: clean_field_def kv_text_def list_all_iff)
  then show ?thesis using sp by fastforce
qed

lemma fields_text_unbroken:
  "list_all clean_field kvs \<Longrightarrow> CHR 0x0A \<notin> set (fields_text kvs) \<and> CHR 0x0D \<notin> set (fields_text kvs)"
  by (induction kvs) (auto simp: fields_text_def dest: clean_field_unbroken)

lemma entry_unbroken: "log_entry_ok e \<Longrightarrow> CHR 0x0A \<notin> set (entry_line e) \<and> CHR 0x0D \<notin> set (entry_line e)"
  using fields_text_unbroken chunk_fields_ok by (cases e) (auto simp: RESULT_TAG_def CHUNK_TAG_def)

lemma chunk_line_no_bracket: "CHR ''['' \<notin> set (fields_text (chunk_fields t off b))"
proof -
  have "c \<noteq> CHR ''[''" if "all_digits 16 s" "c \<in> set s" for s c
    using that by (auto simp: all_digits_def list_all_iff digit_value_def code_def split: if_splits)
  moreover have "all_digits 16 s" if "all_digits 10 s" for s
    using that by (auto simp: all_digits_def list_all_iff digit_value_def Let_def split: if_splits)
  ultimately have "CHR ''['' \<notin> set (str_of_nat n)" "CHR ''['' \<notin> set (hex_of b)" for n
    using hex_of_digits [of b] nat_text_digits [of 10 n] unfolding str_of_nat_def by fastforce+
  then show ?thesis by (auto simp: fields_text_def chunk_fields_def kv_text_def)
qed

lemma log_step_entry:
  assumes "log_entry_ok e"
  shows "log_step (entry_line e @ [CHR 0x0A]) (rows, cs) = (rows @ entry_rows e, fold put_chunk (entry_chunks e) cs)"
proof (cases e)
  case (Result_Entry kvs)
  then show ?thesis
    using assms contains_prefix [of RESULT_TAG] after_prefix [of RESULT_TAG] parse_fields_text [of kvs] by (simp add: log_step_def)
next
  case (Chunk_Entry t off b)
  let ?f = "fields_text (chunk_fields t off b) @ [CHR 0x0A]"
  have "\<not> contains (CHUNK_TAG @ ?f) RESULT_TAG"
  proof
    assume c: "contains (CHUNK_TAG @ ?f) RESULT_TAG"
    let ?s = "''AEB_RAW_HEX_CHUNK]'' @ ?f" and ?p = "''AEB_RESULT]''"
    have "CHR ''['' \<notin> set ?s" using chunk_line_no_bracket by simp
    moreover have "contains (CHR ''['' # ?s) (CHR ''['' # ?p)" using c by (simp add: CHUNK_TAG_def RESULT_TAG_def)
    ultimately have "take (length (CHR ''['' # ?p)) (CHR ''['' # ?s) = CHR ''['' # ?p" by (rule contains_head)
    then show False by simp
  qed
  then show ?thesis
    using contains_prefix [of CHUNK_TAG] after_prefix [of CHUNK_TAG] parse_fields_text [of "chunk_fields t off b"]
      chunk_fields_ok [of t off b] chunk_of_fields
    by (simp add: log_step_def Chunk_Entry put_chunk_def)
next
  case (Other_Entry s)
  then show ?thesis using assms by (simp add: log_step_def)
qed

lemma log_fold:
  "list_all log_entry_ok es \<Longrightarrow> fold log_step (map (\<lambda>e. entry_line e @ [CHR 0x0A]) es) (rows, cs)
     = (rows @ concat (map entry_rows es), fold put_chunk (concat (map entry_chunks es)) cs)"
  by (induction es arbitrary: rows cs) (simp_all add: log_step_entry)

lemma parse_entries:
  assumes "list_all log_entry_ok es"
  shows "parse_aeb_log (entry_text es)
    = (concat (map entry_rows es), raw_windows_of (fold put_chunk (concat (map entry_chunks es)) []))"
proof -
  have "file_lines (entry_text es) = map (\<lambda>e. entry_line e @ [CHR 0x0A]) es"
    using file_lines_text [of "map entry_line es"] assms entry_unbroken
    by (simp add: entry_text_def o_def list_all_iff)
  then show ?thesis using log_fold [OF assms, of "[]" "[]"] by (simp add: parse_aeb_log_def)
qed

text \<open>
  The table holds the pieces of several trials, each trial once, in any order: it gives every
  trial the bytes of its pieces, and nothing for other trials.
\<close>

lemma trial_chunks_mem:
  assumes "distinct (map fst tps)" and "(t, ps) \<in> set tps"
  shows "((t, off), b) \<in> set (trial_chunks tps) \<longleftrightarrow> (off, b) \<in> set ps"
proof
  assume "((t, off), b) \<in> set (trial_chunks tps)"
  then obtain ps' where "(t, ps') \<in> set tps" "(off, b) \<in> set ps'" by (force simp: trial_chunks_def)
  with assms show "(off, b) \<in> set ps" by (metis eq_key_imp_eq_value)
qed (use assms(2) in \<open>force simp: trial_chunks_def\<close>)

lemma window_of_table:
  assumes "set kvs = set (trial_chunks tps)" and "distinct (map fst tps)" and "(t, ps) \<in> set tps" and "pieces_ok ps"
  shows "window_text (dict_get_or (fold put_chunk kvs []) (int t) []) = hex_of (concat (map snd ps))"
proof (rule window_text_pieces [OF _ assms(4)])
  let ?cs = "fold put_chunk kvs []"
  have mem: "((t, off), b) \<in> set kvs \<longleftrightarrow> (off, b) \<in> set ps" for off b
    unfolding assms(1) by (rule trial_chunks_mem [OF assms(2,3)])
  have uniq: "b' = b" if "(off, b) \<in> set ps" "(off, b') \<in> set ps" for off b b'
    using that assms(4) by (metis eq_key_imp_eq_value pieces_ok_def)
  show "dict_ok (dict_get_or ?cs (int t) [])" using chunk_table_ok_fold [of "[]" kvs] by (simp add: chunk_table_ok_def dict_get_or_def)
  show "dict_get (dict_get_or ?cs (int t) []) y \<noteq> None \<longleftrightarrow> (\<exists>off b. y = int off \<and> (off, b) \<in> set ps)" for y
  proof -
    have "chunk_get [] (int t) y = None" by (simp add: chunk_get_def dict_get_or_def)
    then have "chunk_get ?cs (int t) y \<noteq> None \<longleftrightarrow> (\<exists>off b. y = int off \<and> ((t, off), b) \<in> set kvs)"
      unfolding chunk_keys by auto
    then show ?thesis by (simp only: chunk_get_def mem)
  qed
  show "dict_get (dict_get_or ?cs (int t) []) (int off) = Some (hex_of b)" if "(off, b) \<in> set ps" for off b
  proof -
    have "chunk_get ?cs (int t) (int off) = Some (hex_of b)"
      by (rule chunk_get_in) (use that mem uniq [OF that] in blast)+
    then show ?thesis by (simp only: chunk_get_def)
  qed
qed

lemma raw_windows_pieces:
  assumes "set kvs = set (trial_chunks tps)" and "distinct (map fst tps)" and "list_all (\<lambda>(t, ps). pieces_ok ps) tps"
  shows "dict_get (raw_windows_of (fold put_chunk kvs [])) x
    = (if 0 \<le> x then map_option (\<lambda>ps. concat (map snd ps)) (map_of tps (nat x)) else None)"
proof -
  let ?cs = "fold put_chunk kvs []"
  have ok: "dict_ok ?cs" using chunk_table_ok_fold [of "[]" kvs] by (simp add: chunk_table_ok_def dict_get_or_def)
  have pok: "pieces_ok ps" if "(t, ps) \<in> set tps" for t ps using assms(3) that by (auto simp: list_all_iff)
  show ?thesis
  proof (cases "dict_get ?cs x")
    case None
    have "map_of tps (nat x) = None" if "0 \<le> x"
    proof (rule ccontr)
      assume "map_of tps (nat x) \<noteq> None"
      then obtain ps where ps: "(nat x, ps) \<in> set tps" by (auto dest: map_of_SomeD)
      then obtain off b where "(off, b) \<in> set ps" using pok [OF ps] by (cases ps) (auto simp: pieces_ok_def)
      then have "((nat x, off), b) \<in> set kvs" unfolding assms(1) by (simp add: trial_chunks_mem [OF assms(2) ps])
      then have "dict_get ?cs x \<noteq> None" using trial_keys [of kvs "[]" x] that by force
      with None show False by simp
    qed
    then show ?thesis by (simp add: raw_windows_get [OF ok] None)
  next
    case (Some d)
    then obtain t off b where c: "x = int t" "((t, off), b) \<in> set kvs" using trial_keys [of kvs "[]" x] by auto
    then obtain ps where ps: "(t, ps) \<in> set tps" unfolding assms(1) by (force simp: trial_chunks_def)
    have "d = dict_get_or ?cs (int t) []" using Some c(1) by (simp add: dict_get_or_def)
    then have "window_text d = hex_of (concat (map snd ps))"
      using window_of_table [OF assms(1,2) ps pok [OF ps]] by simp
    moreover have "map_of tps t = Some ps" using assms(2) ps by simp
    ultimately show ?thesis unfolding raw_windows_get [OF ok] Some using c(1) by simp
  qed
qed

text \<open>
  C21: The raw windows of a log are put together whatever the order of its lines. When the chunk
  lines of the log are those the firmware prints for some trials' windows, in any order, repeated
  or mixed with results and other lines, the parser returns the fields of the results in order,
  and for each of those trials the window it had, and no window for any other trial.
\<close>

theorem raw_dump_roundtrip:
  assumes "list_all log_entry_ok es"
    and "set (concat (map entry_chunks es)) = set (trial_chunks (map (\<lambda>(t, w). (t, window_pieces w)) ws))"
    and "distinct (map fst ws)" and "list_all (\<lambda>(t, w). w \<noteq> []) ws"
  shows "\<exists>wins. parse_aeb_log (entry_text es) = (concat (map entry_rows es), wins)
    \<and> (\<forall>x. dict_get wins x = (if 0 \<le> x then map_of ws (nat x) else None))"
proof -
  let ?tps = "map (\<lambda>(t, w). (t, window_pieces w)) ws"
  have d: "distinct (map fst ?tps)" using assms(3) by (simp add: o_def case_prod_unfold)
  have p: "list_all (\<lambda>(t, ps). pieces_ok ps) ?tps"
    using assms(4) window_pieces_ok by (auto simp: list_all_iff)
  have "map_of ?tps n = map_option window_pieces (map_of ws n)" for n by (induction ws) auto
  then have "map_option (\<lambda>ps. concat (map snd ps)) (map_of ?tps n) = map_of ws n" for n
    by (simp add: option.map_comp o_def window_pieces_concat option.map_ident)
  then show ?thesis
    using parse_entries [OF assms(1)] raw_windows_pieces [OF assms(2) d p] by simp
qed

theorem raw_dump_roundtrip_witness:
  "\<exists>wins. parse_aeb_log (entry_text [Chunk_Entry 7 64 [1], Other_Entry ''boot'', Result_Entry [(''trial'', ''7'')],
        Chunk_Entry 7 0 (replicate 64 0)]) = ([[(''trial'', ''7'')]], wins)
    \<and> dict_get wins 7 = Some (replicate 64 0 @ [1])"
proof -
  let ?es = "[Chunk_Entry 7 64 [1], Other_Entry ''boot'', Result_Entry [(''trial'', ''7'')], Chunk_Entry 7 0 (replicate 64 0)]"
  have ok: "list_all log_entry_ok ?es" by code_simp
  have "set (concat (map entry_chunks ?es)) = set (trial_chunks (map (\<lambda>(t, w). (t, window_pieces w)) [(7, replicate 64 0 @ [1])]))"
  proof -
    have "[0..<2] = [0, 1 :: nat]" by (simp add: upt_rec)
    then have "window_pieces (replicate 64 0 @ [1]) = [(0, replicate 64 0), (64, [1])]" by (simp add: window_pieces_def)
    then show ?thesis by (simp add: trial_chunks_def insert_commute)
  qed
  then show ?thesis
    using raw_dump_roundtrip [OF ok, where ws = "[(7, replicate 64 0 @ [1])]"] by fastforce
qed


section \<open>What a lost line does\<close>

lemma pieces_without:
  assumes "64 * k < length w"
  shows "concat (map snd (filter (\<lambda>p. fst p \<noteq> 64 * k) (window_pieces w))) = take (64 * k) w @ drop (64 * k + 64) w"
proof -
  define m where "m = (length w + 63) div 64"
  define piece where "piece = (\<lambda>j. take 64 (drop (64 * j) w))"
  have ps: "window_pieces w = map (\<lambda>j. (64 * j, piece j)) [0..<m]" by (simp add: window_pieces_def m_def piece_def)
  have k: "k < m" unfolding m_def using assms by linarith
  have split: "[0..<m] = [0..<k] @ k # [Suc k..<m]"
    using upt_add_eq_append [of 0 k "m - k"] upt_conv_Cons [OF k] k by simp
  have before: "concat (map piece [0..<j]) = take (64 * j) w" for j
    using concat_pieces [of 64 w j] by (simp add: piece_def)
  define rest where "rest = concat (map piece [Suc k..<m])"
  have "concat (map piece [0..<m]) = w" using window_pieces_concat [of w] by (simp add: ps o_def)
  then have "concat (map piece [0..<Suc k]) @ rest = w" unfolding rest_def split by simp
  then have "take (64 * k + 64) w @ rest = w" unfolding before by (simp add: add.commute)
  then have r: "rest = drop (64 * k + 64) w" using same_append_eq [of "take (64 * k + 64) w" rest] append_take_drop_id by metis
  have "filter (\<lambda>p. fst p \<noteq> 64 * k) (window_pieces w) = map (\<lambda>j. (64 * j, piece j)) (filter (\<lambda>j. j \<noteq> k) [0..<m])"
    by (simp add: ps filter_map o_def)
  also have "filter (\<lambda>j. j \<noteq> k) [0..<m] = [0..<k] @ [Suc k..<m]" unfolding split by (simp add: filter_id_conv)
  finally show ?thesis by (simp add: o_def before r [symmetric] rest_def)
qed

lemma pieces_ok_filter: "pieces_ok ps \<Longrightarrow> filter P ps \<noteq> [] \<Longrightarrow> pieces_ok (filter P ps)"
  by (auto simp: pieces_ok_def sorted_wrt_filter distinct_map_filter sorted_map)

text \<open>
  A lost chunk is not noticed, and hides differences. When the log lacks one chunk of the window
  of a trial that has several, the parser still returns a window for the trial: the bytes before
  and after the lost chunk run together. It is shorter than it was, so its distance to every window
  of the right length is reported as zero, as if the windows were the same.
\<close>

theorem lost_chunk:
  assumes "list_all log_entry_ok es" and "distinct (map fst ws)" and "list_all (\<lambda>(s, v). v \<noteq> []) ws"
    and "(t, w) \<in> set ws" and "64 * k < length w" and "64 < length w"
    and "set (concat (map entry_chunks es)) = set (trial_chunks (map (\<lambda>(s, v).
           (s, if s = t then filter (\<lambda>p. fst p \<noteq> 64 * k) (window_pieces v) else window_pieces v)) ws))"
  shows "\<exists>wins. parse_aeb_log (entry_text es) = (concat (map entry_rows es), wins)
    \<and> dict_get wins (int t) = Some (take (64 * k) w @ drop (64 * k + 64) w)
    \<and> (\<forall>s v. (s, v) \<in> set ws \<longrightarrow> s \<noteq> t \<longrightarrow> dict_get wins (int s) = Some v)
    \<and> (\<forall>v. length v = length w \<longrightarrow> hamming_bytes v (take (64 * k) w @ drop (64 * k + 64) w) = 0)"
proof -
  let ?ps = "\<lambda>s v. if s = t then filter (\<lambda>p. fst p \<noteq> 64 * k) (window_pieces v) else window_pieces v"
  let ?tps = "map (\<lambda>(s, v). (s, ?ps s v)) ws" and ?cut = "take (64 * k) w @ drop (64 * k + 64) w"
  have d: "distinct (map fst ?tps)" using assms(2) by (simp add: o_def case_prod_unfold)
  have len: "length ?cut < length w" and ne: "?cut \<noteq> []" using assms(5,6) by auto
  have cut: "concat (map snd (?ps t w)) = ?cut" using pieces_without [OF assms(5)] by simp
  have "pieces_ok (?ps s v)" if "(s, v) \<in> set ws" for s v
  proof -
    have v: "pieces_ok (window_pieces v)" using that assms(3) by (intro window_pieces_ok) (auto simp: list_all_iff)
    have "filter (\<lambda>p. fst p \<noteq> 64 * k) (window_pieces v) \<noteq> []" if "s = t"
    proof -
      have "v = w" using \<open>(s, v) \<in> set ws\<close> assms(2,4) that by (metis eq_key_imp_eq_value)
      with cut ne show ?thesis by force
    qed
    with v show ?thesis using pieces_ok_filter by simp
  qed
  then have p: "list_all (\<lambda>(t, ps). pieces_ok ps) ?tps" by (auto simp: list_all_iff)
  have get: "dict_get (raw_windows_of (fold put_chunk (concat (map entry_chunks es)) [])) (int s) = Some (concat (map snd (?ps s v)))"
    if "(s, v) \<in> set ws" for s v
  proof -
    have "(s, ?ps s v) \<in> set ?tps" using that by force
    then have "map_of ?tps s = Some (?ps s v)" by (rule map_of_is_SomeI [OF d])
    then show ?thesis by (simp add: raw_windows_pieces [OF assms(7) d p])
  qed
  have "hamming_bytes v ?cut = 0" if "length v = length w" for v
  proof -
    have "length v \<noteq> length ?cut" using that len by linarith
    then show ?thesis unfolding hamming_bytes_def by (rule if_P)
  qed
  then show ?thesis
    using parse_entries [OF assms(1)] get [OF assms(4)] get cut by (auto simp: window_pieces_concat)
qed

text \<open>
  The packet losses are right when every result has both counters, and are those of other trials
  when one does not. If the expected and the seen packets can be read from every row, the losses are
  those of the rows, in order. If in the first row only the expected packets can be read, the
  packets seen in each later row are compared with those expected in the row before it.
\<close>

theorem packet_loss_columns:
  assumes "list_all (\<lambda>r. read_field ''packets_expected'' r \<noteq> None \<and> read_field ''packets_seen'' r \<noteq> None) rows"
    and "read_field ''packets_expected'' r = Some e" and "read_field ''packets_seen'' r = None"
  shows "packet_loss rows = map (\<lambda>r. max (the (read_field ''packets_expected'' r) - the (read_field ''packets_seen'' r)) 0) rows"
    and "packet_loss (r # rows) = map2 (\<lambda>e s. max (e - s) 0)
       (e # map (\<lambda>r. the (read_field ''packets_expected'' r)) rows) (map (\<lambda>r. the (read_field ''packets_seen'' r)) rows)"
proof -
  have n: "numeric rows k = map (\<lambda>r. the (read_field k r)) rows" if "list_all (\<lambda>r. read_field k r \<noteq> None) rows" for k
    using that unfolding numeric_def by (induction rows) (auto simp: List.map_filter_def)
  have c: "numeric rows ''packets_expected'' = map (\<lambda>r. the (read_field ''packets_expected'' r)) rows"
    "numeric rows ''packets_seen'' = map (\<lambda>r. the (read_field ''packets_seen'' r)) rows"
    using assms(1) by (intro n; auto simp: list_all_iff)+
  show "packet_loss rows = map (\<lambda>r. max (the (read_field ''packets_expected'' r) - the (read_field ''packets_seen'' r)) 0) rows"
    unfolding packet_loss_def c by (induction rows) simp_all
  have "numeric (r # rows) ''packets_expected'' = e # numeric rows ''packets_expected''"
    "numeric (r # rows) ''packets_seen'' = numeric rows ''packets_seen''"
    using assms(2,3) by (simp_all add: numeric_def List.map_filter_def)
  then show "packet_loss (r # rows) = map2 (\<lambda>e s. max (e - s) 0)
       (e # map (\<lambda>r. the (read_field ''packets_expected'' r)) rows) (map (\<lambda>r. the (read_field ''packets_seen'' r)) rows)"
    by (simp add: packet_loss_def c)
qed

theorem lost_chunk_witness:
  "\<exists>wins. parse_aeb_log (entry_text [Chunk_Entry 7 64 [1], Chunk_Entry 8 0 (replicate 64 0), Chunk_Entry 8 64 [2]]) = ([], wins)
    \<and> dict_get wins 7 = Some [1] \<and> dict_get wins 8 = Some (replicate 64 0 @ [2])
    \<and> hamming_bytes (replicate 64 0 @ [2]) [1] = 0"
proof -
  let ?es = "[Chunk_Entry 7 64 [1], Chunk_Entry 8 0 (replicate 64 0), Chunk_Entry 8 64 [2]]"
  let ?ws = "[(7, replicate 64 0 @ [1]), (8, replicate 64 0 @ [2 :: byte])]"
  have u: "[0..<2] = [0, 1 :: nat]" by (simp add: upt_rec)
  have ok: "list_all log_entry_ok ?es" by simp
  have c: "set (concat (map entry_chunks ?es)) = set (trial_chunks (map (\<lambda>(s, v).
      (s, if s = 7 then filter (\<lambda>p. fst p \<noteq> 64 * 0) (window_pieces v) else window_pieces v)) ?ws))"
    by (simp add: trial_chunks_def window_pieces_def u insert_commute)
  show ?thesis
    using lost_chunk [OF ok _ _ _ _ _ c, where w = "replicate 64 0 @ [1]"] by fastforce
qed

theorem packet_loss_columns_witness:
  "packet_loss [[(''packets_expected'', ''20'')], [(''packets_expected'', ''10''), (''packets_seen'', ''10'')]] = [10]
    \<and> packet_loss [[(''packets_expected'', ''10''), (''packets_seen'', ''10'')]] = [0]"
proof -
  have f: "read_field k [(j, v)] = (if k = j then (case py_int v of Inl _ \<Rightarrow> None | Inr i \<Rightarrow> Some i) else None)" for k j v
    by (simp add: read_field_def dict_item_def dict_get_def)
  have i: "py_int ''20'' = Inr 20" "py_int ''10'' = Inr 10" by code_simp+
  have g: "read_field k [(j, v), (j', v')] = (if k = j then (case py_int v of Inl _ \<Rightarrow> None | Inr i \<Rightarrow> Some i) else read_field k [(j', v')])" for k j v j' v'
    by (simp add: read_field_def dict_item_def dict_get_def)
  show ?thesis
    using packet_loss_columns [of "[[(''packets_expected'', ''10''), (''packets_seen'', ''10'')]]" "[(''packets_expected'', ''20'')]" 20]
    by (simp add: f g i)
qed

end
