(* ===== verification/PyRun.thy ===== *)
theory PyRun
  imports Prelude
begin

text \<open>
  Programs that may raise or never return: a step takes the state and gives the outcome and the new
  state, or \<open>None\<close> when it does not end. Used where a loop waits for a clock or for a device.
\<close>

type_synonym ('s, 'a) prog = "'s \<Rightarrow> ('a result \<times> 's) option"

definition tx_bind :: "('s, 'a) prog \<Rightarrow> ('a \<Rightarrow> ('s, 'b) prog) \<Rightarrow> ('s, 'b) prog" where
  "tx_bind m f s = (case m s of None \<Rightarrow> None | Some (Inl e, t) \<Rightarrow> Some (Inl e, t) | Some (Inr x, t) \<Rightarrow> f x t)"

definition tx_lift :: "'a result \<Rightarrow> ('s, 'a) prog" where
  "tx_lift r s = Some (r, s)"

definition tx_do :: "('s \<Rightarrow> 's) \<Rightarrow> ('s, unit) prog" where
  "tx_do f s = Some (Inr (), f s)"

definition tx_get :: "('s \<Rightarrow> 'a) \<Rightarrow> ('s, 'a) prog" where
  "tx_get f s = Some (Inr (f s), s)"

abbreviation tx_then :: "('s, unit) prog \<Rightarrow> ('s, 'b) prog \<Rightarrow> ('s, 'b) prog" where
  "tx_then m n \<equiv> tx_bind m (\<lambda>_. n)"

text \<open>\<open>try: body finally: fin\<close>: an exception of \<open>fin\<close> replaces that of the body.\<close>

definition tx_finally :: "('s, 'a) prog \<Rightarrow> ('s, unit) prog \<Rightarrow> ('s, 'a) prog" where
  "tx_finally body fin s =
     (case body s of None \<Rightarrow> None
      | Some (r, t) \<Rightarrow> (case fin t of None \<Rightarrow> None | Some (Inl e, u) \<Rightarrow> Some (Inl e, u) | Some (Inr _, u) \<Rightarrow> Some (r, u)))"

lemma tx_bind_Some:
  "tx_bind m f s = Some (Inr y, t) \<longleftrightarrow> (\<exists>x u. m s = Some (Inr x, u) \<and> f x u = Some (Inr y, t))"
  by (auto simp: tx_bind_def split: option.splits prod.splits sum.splits)

lemma tx_bind_cases:
  "tx_bind m f s = Some (r, t) \<longleftrightarrow>
     (\<exists>e. m s = Some (Inl e, t) \<and> r = Inl e) \<or> (\<exists>x u. m s = Some (Inr x, u) \<and> f x u = Some (r, t))"
  by (auto simp: tx_bind_def split: option.splits prod.splits sum.splits)

lemma tx_bind_run: "m s = Some (Inr x, u) \<Longrightarrow> tx_bind m f s = f x u"
  by (simp add: tx_bind_def)

lemma tx_steps: "tx_lift r s = Some (r, s)" "tx_do g s = Some (Inr (), g s)" "tx_get h s = Some (Inr (h s), s)"
  by (simp_all add: tx_lift_def tx_do_def tx_get_def)

end
