(* ===== verification/StimulusSender.thy ===== *)
theory StimulusSender
  imports AebWire PyRun
begin

text \<open>
  The sender of the public stimuli (\<open>stimulus_sender.py\<close>): the datagrams of a trial, their pacing by
  the performance counter, and the log. The readings of the two clocks and the random nonces are
  parameters; a wait that never ends is the value \<open>None\<close>. What the network does with a datagram is
  outside the model. Facts: which datagrams an accepted run sends, and that none is sent early.
\<close>

section \<open>Steps that may raise or never return\<close>

datatype stim_event = Packet nat bytes | Pause real

record stim_row =
  sr_trial :: int
  sr_condition :: string
  sr_nonce :: string
  sr_bursts :: int
  sr_interval :: int
  sr_payload :: int
  sr_sample :: int
  sr_start :: int
  sr_end :: int

text \<open>How many readings of each source were taken, what was sent and slept, and the rows written.\<close>

record stim_state =
  s_perf :: nat
  s_wall :: nat
  s_rand :: nat
  s_events :: "stim_event list"
  s_rows :: "stim_row list"

record sender_env =
  perf_counter :: "nat \<Rightarrow> real"
  time_ns :: "nat \<Rightarrow> int"
  urandom :: "nat \<Rightarrow> bytes"

type_synonym 'a tx = "(stim_state, 'a) prog"

definition emit :: "stim_event \<Rightarrow> stim_state \<Rightarrow> stim_state" where
  "emit e s = s\<lparr>s_events := s_events s @ [e]\<rparr>"

text \<open>\<open>time.sleep\<close> rejects a negative time.\<close>

definition sender_sleep :: "real \<Rightarrow> unit tx" where
  "sender_sleep d = (if d < 0 then tx_lift (Inl ValueError) else tx_do (emit (Pause d)))"

definition read_perf :: "sender_env \<Rightarrow> real tx" where
  "read_perf env s = Some (Inr (perf_counter env (s_perf s)), s\<lparr>s_perf := Suc (s_perf s)\<rparr>)"

definition read_ns :: "sender_env \<Rightarrow> int tx" where
  "read_ns env s = Some (Inr (time_ns env (s_wall s)), s\<lparr>s_wall := Suc (s_wall s)\<rparr>)"

definition read_random :: "sender_env \<Rightarrow> bytes tx" where
  "read_random env s = Some (Inr (urandom env (s_rand s)), s\<lparr>s_rand := Suc (s_rand s)\<rparr>)"

section \<open>The sender\<close>

record stim_args =
  sa_trials :: int
  sa_bursts :: int
  sa_interval_us :: int
  sa_payload_bytes :: int
  sa_sample_bytes :: int
  sa_fixed_nonce :: bool
  sa_nonce_hex :: "string option"
  sa_start_gap_ms :: int
  sa_trial_gap_ms :: int

definition given_nonce :: "stim_args \<Rightarrow> string option" where
  "given_nonce args = (case sa_nonce_hex args of Some h \<Rightarrow> if h = [] then None else Some h | None \<Rightarrow> None)"

definition nonce_from_args :: "sender_env \<Rightarrow> stim_args \<Rightarrow> bytes tx" where
  "nonce_from_args env args =
     (case given_nonce args of
        Some h \<Rightarrow> tx_bind (tx_lift (fromhex h)) (\<lambda>nonce.
          tx_lift (if length nonce \<noteq> 16 then Inl (SystemExit ''--nonce-hex must encode exactly 16 bytes'') else Inr nonce))
      | None \<Rightarrow> if sa_fixed_nonce args then tx_lift (Inr (replicate 16 0xA3)) else read_random env)"

definition make_msg :: "int \<Rightarrow> int \<Rightarrow> int \<Rightarrow> int \<Rightarrow> int \<Rightarrow> bytes \<Rightarrow> int \<Rightarrow> bytes result" where
  "make_msg ty tr sq iv sb nn payload_bytes =
     rbind (header_pack MAGIC VERSION ty tr sq iv sb nn) (\<lambda>header.
       if payload_bytes \<le> int (length header) then Inr header
       else Inr (header @ map (\<lambda>i. byte_of_nat (nat ((sq + int i) AND 0xFF))) [0..<nat (payload_bytes - int (length header))]))"

definition send_packet :: "bytes \<Rightarrow> unit tx" where
  "send_packet b = tx_do (\<lambda>s. emit (Packet (s_perf s) b) s)"

text \<open>The loop reads the counter until the target is reached, sleeping half of what remains above a millisecond.\<close>

partial_function (option) sleep_until :: "(nat \<Rightarrow> real) \<Rightarrow> real \<Rightarrow> stim_state \<Rightarrow> (unit result \<times> stim_state) option" where
  "sleep_until clk target s =
     (let remaining = target - clk (s_perf s); s1 = s\<lparr>s_perf := Suc (s_perf s)\<rparr>
      in if remaining \<le> 0 then Some (Inr (), s1)
         else if remaining > 1 / 1000 then sleep_until clk target (emit (Pause (remaining / 2)) s1)
         else sleep_until clk target s1)"

fun send_series :: "sender_env \<Rightarrow> stim_args \<Rightarrow> int \<Rightarrow> bytes \<Rightarrow> real \<Rightarrow> nat list \<Rightarrow> unit tx" where
  "send_series env args tr nn next_send [] = tx_lift (Inr ())"
| "send_series env args tr nn next_send (sq # sqs) =
     tx_bind (tx_lift (make_msg TYPE_BURST tr (int sq) (sa_interval_us args) (sa_sample_bytes args) nn (sa_payload_bytes args))) (\<lambda>burst.
     tx_bind (send_packet burst) (\<lambda>_.
     (let next_send' = next_send + of_int (sa_interval_us args) / 1000000
      in tx_bind (sleep_until (perf_counter env) next_send') (\<lambda>_. send_series env args tr nn next_send' sqs))))"

definition log_row :: "stim_args \<Rightarrow> int \<Rightarrow> bytes \<Rightarrow> int \<Rightarrow> int \<Rightarrow> stim_row" where
  "log_row args tr nn t0 t1 =
     \<lparr>sr_trial = tr, sr_condition = (if sa_bursts args = 0 then ''idle'' else ''burst''), sr_nonce = hex_of nn,
      sr_bursts = sa_bursts args, sr_interval = sa_interval_us args, sr_payload = sa_payload_bytes args,
      sr_sample = sa_sample_bytes args, sr_start = t0, sr_end = t1\<rparr>"

definition send_trial :: "sender_env \<Rightarrow> stim_args \<Rightarrow> bytes option \<Rightarrow> int \<Rightarrow> unit tx" where
  "send_trial env args fixed tr =
     tx_bind (case fixed of Some nn \<Rightarrow> tx_lift (Inr nn) | None \<Rightarrow> read_random env) (\<lambda>nn.
     tx_bind (read_ns env) (\<lambda>t0.
     tx_bind (tx_lift (make_msg TYPE_START tr (sa_bursts args) (sa_interval_us args) (sa_sample_bytes args) nn (sa_payload_bytes args))) (\<lambda>start.
     tx_bind (send_packet start) (\<lambda>_.
     tx_bind (sender_sleep (of_int (sa_start_gap_ms args) / 1000)) (\<lambda>_.
     tx_bind (read_perf env) (\<lambda>next_send.
     tx_bind (send_series env args tr nn next_send [0..<nat (sa_bursts args)]) (\<lambda>_.
     tx_bind (read_ns env) (\<lambda>t1.
     tx_bind (tx_do (\<lambda>s. s\<lparr>s_rows := s_rows s @ [log_row args tr nn t0 t1]\<rparr>)) (\<lambda>_.
       sender_sleep (of_int (sa_trial_gap_ms args) / 1000))))))))))"

fun send_trials :: "sender_env \<Rightarrow> stim_args \<Rightarrow> bytes option \<Rightarrow> nat list \<Rightarrow> unit tx" where
  "send_trials env args fixed [] = tx_lift (Inr ())"
| "send_trials env args fixed (tr # trs) = tx_bind (send_trial env args fixed (int tr)) (\<lambda>_. send_trials env args fixed trs)"

definition check_stim_args :: "stim_args \<Rightarrow> unit result" where
  "check_stim_args args =
     (if sa_trials args \<le> 0 then Inl (SystemExit ''--trials must be positive'')
      else if sa_bursts args < 0 then Inl (SystemExit ''--bursts cannot be negative'')
      else if sa_sample_bytes args \<le> 0 then Inl (SystemExit ''--sample-bytes must be positive'')
      else if sa_payload_bytes args < int HEADER_size then Inl (SystemExit (''--payload-bytes must be at least '' @ str_of_nat HEADER_size))
      else Inr ())"

definition stimulus_main :: "sender_env \<Rightarrow> stim_args \<Rightarrow> unit tx" where
  "stimulus_main env args =
     tx_bind (tx_lift (check_stim_args args)) (\<lambda>_.
     tx_bind (if sa_fixed_nonce args \<or> given_nonce args \<noteq> None
              then tx_bind (nonce_from_args env args) (\<lambda>nn. tx_lift (Inr (Some nn))) else tx_lift (Inr None)) (\<lambda>fixed.
       send_trials env args fixed [0..<nat (sa_trials args)]))"

definition stim_start :: stim_state where
  "stim_start = \<lparr>s_perf = 0, s_wall = 0, s_rand = 0, s_events = [], s_rows = []\<rparr>"


section \<open>Facts\<close>

lemma tx_run:
  "tx_lift r s = Some (r, s)" "tx_do g s = Some (Inr (), g s)"
  "read_perf env s = Some (Inr (perf_counter env (s_perf s)), s\<lparr>s_perf := Suc (s_perf s)\<rparr>)"
  "read_ns env s = Some (Inr (time_ns env (s_wall s)), s\<lparr>s_wall := Suc (s_wall s)\<rparr>)"
  "read_random env s = Some (Inr (urandom env (s_rand s)), s\<lparr>s_rand := Suc (s_rand s)\<rparr>)"
  by (simp_all add: tx_steps read_perf_def read_ns_def read_random_def)

lemma sender_sleep_run: "0 \<le> d \<Longrightarrow> sender_sleep d s = Some (Inr (), emit (Pause d) s)"
  by (simp add: sender_sleep_def tx_run)

lemma sender_sleep_Inr: "sender_sleep d s = Some (Inr x, t) \<longleftrightarrow> 0 \<le> d \<and> t = emit (Pause d) s"
  by (auto simp: sender_sleep_def tx_run)

text \<open>The packets sent, each with the number of counter readings taken before it.\<close>

definition event_packets :: "stim_event \<Rightarrow> (nat \<times> bytes) list" where
  "event_packets e = (case e of Packet k b \<Rightarrow> [(k, b)] | Pause _ \<Rightarrow> [])"

definition packets :: "stim_state \<Rightarrow> (nat \<times> bytes) list" where
  "packets s = concat (map event_packets (s_events s))"

lemma packets_emit [simp]:
  "packets (emit (Packet k b) s) = packets s @ [(k, b)]" "packets (emit (Pause d) s) = packets s"
  by (simp_all add: packets_def emit_def event_packets_def)

lemma emit_fields [simp]:
  "s_perf (emit e s) = s_perf s" "s_wall (emit e s) = s_wall s" "s_rand (emit e s) = s_rand s" "s_rows (emit e s) = s_rows s"
  by (simp_all add: emit_def)

lemma packets_fields [simp]:
  "packets (s\<lparr>s_perf := n\<rparr>) = packets s" "packets (s\<lparr>s_wall := n\<rparr>) = packets s"
  "packets (s\<lparr>s_rand := n\<rparr>) = packets s" "packets (s\<lparr>s_rows := r\<rparr>) = packets s"
  by (simp_all add: packets_def)

text \<open>A wait only takes readings and sleeps; it ends with a reading at or after its target.\<close>

definition waited :: "(nat \<Rightarrow> real) \<Rightarrow> real \<Rightarrow> stim_state \<Rightarrow> stim_state \<Rightarrow> bool" where
  "waited clk target s s' \<longleftrightarrow> packets s' = packets s \<and> s_rows s' = s_rows s \<and> s_rand s' = s_rand s \<and> s_wall s' = s_wall s
     \<and> s_perf s < s_perf s' \<and> target \<le> clk (s_perf s' - 1)"

lemma waited_step:
  assumes "waited clk target t s'" and "packets t = packets s" and "s_rows t = s_rows s" and "s_rand t = s_rand s"
    and "s_wall t = s_wall s" and "s_perf t = Suc (s_perf s)"
  shows "waited clk target s s'"
  using assms by (simp add: waited_def)

lemma sleep_until_waited:
  assumes "sleep_until clk target s = Some y"
  shows "fst y = Inr () \<and> waited clk target s (snd y)"
proof (rule sleep_until.raw_induct [where P = "\<lambda>clk target s y. fst y = Inr () \<and> waited clk target s (snd y)", OF _ assms], goal_cases)
  case (1 f clk target s y)
  let ?s = "s\<lparr>s_perf := Suc (s_perf s)\<rparr>"
  let ?r = "target - clk (s_perf s)"
  note body = 1(2) [unfolded Let_def]
  show ?case
  proof (cases "?r \<le> 0")
    case True
    then have "y = (Inr (), ?s)" using body by (simp only: if_True option.inject)
    with True show ?thesis by (simp add: waited_def)
  next
    case False
    then obtain t where t: "f clk target t = Some y" "t = emit (Pause (?r / 2)) ?s \<or> t = ?s"
      using body by (cases "?r > 1 / 1000") (simp_all only: if_True if_False, blast+)
    from 1(1) [OF t(1)] t(2) show ?thesis by (auto elim: waited_step)
  qed
qed

lemma sleep_until_ends:
  assumes "target \<le> clk j" and "s_perf s \<le> j"
  shows "\<exists>s'. sleep_until clk target s = Some (Inr (), s')"
  using assms
proof (induction "j - s_perf s" arbitrary: s rule: less_induct)
  case less
  show ?case
  proof (cases "target - clk (s_perf s) \<le> 0")
    case True
    then show ?thesis by (subst sleep_until.simps) (simp add: Let_def)
  next
    case False
    with less.prems have lt: "s_perf s < j" by (metis diff_ge_0_iff_ge diff_le_0_iff_le order_le_imp_less_or_eq)
    let ?s = "s\<lparr>s_perf := Suc (s_perf s)\<rparr>"
    have "\<exists>s'. sleep_until clk target t = Some (Inr (), s')" if "s_perf t = Suc (s_perf s)" for t
      using lt that less.prems(1) by (intro less.hyps) auto
    from this [of ?s] this [of "emit (Pause ((target - clk (s_perf s)) / 2)) ?s"] False show ?thesis
      by (subst sleep_until.simps) (simp add: Let_def)
  qed
qed


section \<open>The bursts of a trial\<close>

abbreviation burst_msg :: "stim_args \<Rightarrow> int \<Rightarrow> bytes \<Rightarrow> nat \<Rightarrow> bytes result" where
  "burst_msg args tr nn sq \<equiv> make_msg TYPE_BURST tr (int sq) (sa_interval_us args) (sa_sample_bytes args) nn (sa_payload_bytes args)"

abbreviation start_msg :: "stim_args \<Rightarrow> int \<Rightarrow> bytes \<Rightarrow> bytes result" where
  "start_msg args tr nn \<equiv> make_msg TYPE_START tr (sa_bursts args) (sa_interval_us args) (sa_sample_bytes args) nn (sa_payload_bytes args)"

abbreviation interval_s :: "stim_args \<Rightarrow> real" where
  "interval_s args \<equiv> of_int (sa_interval_us args) / 1000000"

lemma send_packet_run: "send_packet b s = Some (Inr (), emit (Packet (s_perf s) b) s)"
  by (simp add: send_packet_def tx_run)

lemma bursts_step:
  "send_series env args tr nn t0 (sq # sqs) s = Some (Inr (), s') \<longleftrightarrow>
     (\<exists>b u. burst_msg args tr nn sq = Inr b
       \<and> sleep_until (perf_counter env) (t0 + interval_s args) (emit (Packet (s_perf s) b) s) = Some (Inr (), u)
       \<and> send_series env args tr nn (t0 + interval_s args) sqs u = Some (Inr (), s'))"
  by (auto simp: tx_bind_Some tx_run send_packet_run Let_def)

text \<open>What a completed series of bursts sent, and when at the earliest.\<close>

lemma bursts_sent:
  assumes "send_series env args tr nn t0 sqs s = Some (Inr (), s')"
  shows "\<exists>bs. packets s' = packets s @ bs \<and> map (burst_msg args tr nn) sqs = map (\<lambda>b. Inr (snd b)) bs
    \<and> s_rows s' = s_rows s \<and> s_rand s' = s_rand s \<and> s_wall s' = s_wall s
    \<and> (t0 \<le> perf_counter env (s_perf s - 1) \<longrightarrow>
        (\<forall>i < length bs. t0 + real i * interval_s args \<le> perf_counter env (fst (bs ! i) - 1)))"
  using assms
proof (induction sqs arbitrary: t0 s)
  case Nil
  then show ?case by (simp add: tx_run)
next
  case (Cons sq sqs)
  obtain b u where b: "burst_msg args tr nn sq = Inr b"
    and w: "sleep_until (perf_counter env) (t0 + interval_s args) (emit (Packet (s_perf s) b) s) = Some (Inr (), u)"
    and r: "send_series env args tr nn (t0 + interval_s args) sqs u = Some (Inr (), s')"
    using Cons.prems unfolding bursts_step by blast
  have u: "waited (perf_counter env) (t0 + interval_s args) (emit (Packet (s_perf s) b) s) u"
    using sleep_until_waited [OF w] by simp
  obtain bs where bs: "packets s' = packets u @ bs" "map (burst_msg args tr nn) sqs = map (\<lambda>b. Inr (snd b)) bs"
    "s_rows s' = s_rows u" "s_rand s' = s_rand u" "s_wall s' = s_wall u"
    and early: "\<forall>i < length bs. (t0 + interval_s args) + real i * interval_s args \<le> perf_counter env (fst (bs ! i) - 1)"
    using Cons.IH [OF r] u by (auto simp: waited_def)
  have "t0 + real i * interval_s args \<le> perf_counter env (fst (((s_perf s, b) # bs) ! i) - 1)"
    if "t0 \<le> perf_counter env (s_perf s - 1)" "i < length ((s_perf s, b) # bs)" for i
    using that early by (cases i) (auto simp: algebra_simps add_divide_distrib)
  with bs u b show ?case
    by (intro exI [of _ "(s_perf s, b) # bs"]) (auto simp: waited_def)
qed

text \<open>Where the counter is not bounded and every datagram can be built, the series completes.\<close>

definition clock_runs :: "sender_env \<Rightarrow> bool" where
  "clock_runs env \<longleftrightarrow> (\<forall>t k. \<exists>j \<ge> k. t \<le> perf_counter env j)"

lemma bursts_complete:
  assumes "clock_runs env" and "list_all (\<lambda>sq. ok (burst_msg args tr nn sq)) sqs"
  shows "\<exists>s'. send_series env args tr nn t0 sqs s = Some (Inr (), s')"
  using assms(2)
proof (induction sqs arbitrary: t0 s)
  case Nil
  then show ?case by (simp add: tx_run)
next
  case (Cons sq sqs)
  then obtain b where b: "burst_msg args tr nn sq = Inr b" by (auto simp: ok_iff)
  let ?s = "emit (Packet (s_perf s) b) s"
  obtain j where "s_perf ?s \<le> j" "t0 + interval_s args \<le> perf_counter env j"
    using assms(1) unfolding clock_runs_def by blast
  then obtain u where u: "sleep_until (perf_counter env) (t0 + interval_s args) ?s = Some (Inr (), u)"
    using sleep_until_ends by blast
  obtain s' where "send_series env args tr nn (t0 + interval_s args) sqs u = Some (Inr (), s')"
    using Cons by auto
  with b u show ?case unfolding bursts_step by blast
qed

text \<open>
  How long a wait takes: every reading before its last one is before the target, the last one is not,
  and each pause is half of the time that a reading left to the target.
\<close>

definition halved :: "(nat \<Rightarrow> real) \<Rightarrow> real \<Rightarrow> nat \<Rightarrow> real list \<Rightarrow> bool" where
  "halved clk target k ps \<longleftrightarrow> (\<forall>d \<in> set ps. \<exists>m \<ge> k. clk m < target \<and> d = (target - clk m) / 2)"

definition paused :: "(nat \<Rightarrow> real) \<Rightarrow> real \<Rightarrow> stim_state \<Rightarrow> stim_state \<Rightarrow> bool" where
  "paused clk target s s' \<longleftrightarrow> (\<exists>ps. s_events s' = s_events s @ map Pause ps \<and> s_perf s < s_perf s'
     \<and> target \<le> clk (s_perf s' - 1) \<and> (\<forall>m. s_perf s \<le> m \<and> Suc m < s_perf s' \<longrightarrow> clk m < target)
     \<and> halved clk target (s_perf s) ps)"

lemma paused_step:
  assumes "paused clk target t s'" and "clk (s_perf s) < target" and "s_perf t = Suc (s_perf s)"
    and "s_events t = s_events s @ map Pause ds" and "set ds \<subseteq> {(target - clk (s_perf s)) / 2}"
  shows "paused clk target s s'"
proof -
  obtain ps where ps: "s_events s' = s_events t @ map Pause ps" "s_perf t < s_perf s'" "target \<le> clk (s_perf s' - 1)"
    "\<forall>m. s_perf t \<le> m \<and> Suc m < s_perf s' \<longrightarrow> clk m < target" "halved clk target (s_perf t) ps"
    using assms(1) unfolding paused_def by blast
  have "\<forall>m. s_perf s \<le> m \<and> Suc m < s_perf s' \<longrightarrow> clk m < target"
    using ps(4) assms(2,3) by (metis Suc_leI le_neq_implies_less)
  moreover have "halved clk target (s_perf s) (ds @ ps)"
    using ps(5) assms(2,3,5) unfolding halved_def by (auto 4 4 dest: Suc_leD)
  ultimately show ?thesis
    using ps(1-3) assms(3,4) unfolding paused_def by (intro exI [of _ "ds @ ps"]) simp
qed

lemma sleep_until_paused:
  assumes "sleep_until clk target s = Some y"
  shows "paused clk target s (snd y)"
proof (rule sleep_until.raw_induct [where P = "\<lambda>clk target s y. paused clk target s (snd y)", OF _ assms], goal_cases)
  case (1 f clk target s y)
  let ?s = "s\<lparr>s_perf := Suc (s_perf s)\<rparr>"
  let ?r = "target - clk (s_perf s)"
  note body = 1(2) [unfolded Let_def]
  show ?case
  proof (cases "?r \<le> 0")
    case True
    then have "y = (Inr (), ?s)" using body by (simp only: if_True option.inject)
    with True show ?thesis by (auto simp: paused_def halved_def intro!: exI [of _ "[]"])
  next
    case False
    then obtain t where t: "f clk target t = Some y" "t = emit (Pause (?r / 2)) ?s \<or> t = ?s"
      using body by (cases "?r > 1 / 1000") (simp_all only: if_True if_False, blast+)
    from t(2) show ?thesis
    proof
      assume "t = emit (Pause (?r / 2)) ?s"
      then show ?thesis using False by (intro paused_step [OF 1(1) [OF t(1)], of s "[?r / 2]"]) (simp_all add: emit_def)
    next
      assume "t = ?s"
      then show ?thesis using False by (intro paused_step [OF 1(1) [OF t(1)], of s "[]"]) simp_all
    qed
  qed
qed

text \<open>The events of a series: each burst and the pauses after it.\<close>

definition series_events :: "(nat \<times> bytes) list \<Rightarrow> real list list \<Rightarrow> stim_event list" where
  "series_events bs ws = concat (map2 (\<lambda>b ps. Packet (fst b) (snd b) # map Pause ps) bs ws)"

lemma series_events_packets: "length ws = length bs \<Longrightarrow> concat (map event_packets (series_events bs ws)) = bs"
proof (induction ws bs rule: list_induct2)
  case (Cons ps ws b bs)
  have "concat (map event_packets (map Pause ps)) = []" by (simp add: event_packets_def)
  then show ?case using Cons by (simp add: series_events_def event_packets_def)
qed (simp add: series_events_def)

text \<open>
  The timing of a series that starts at \<open>t0\<close>: burst \<open>i\<close> is due \<open>i\<close> intervals later. The last reading
  before it is not early, every reading between the burst before and that one is, and each pause
  is half of what remained.
\<close>

definition series_timed :: "(nat \<Rightarrow> real) \<Rightarrow> real \<Rightarrow> real \<Rightarrow> (nat \<times> bytes) list \<Rightarrow> real list list \<Rightarrow> bool" where
  "series_timed clk t0 iv bs ws \<longleftrightarrow> length ws = length bs
     \<and> (\<forall>i < length bs. t0 + real i * iv \<le> clk (fst (bs ! i) - 1) \<and> halved clk (t0 + real (Suc i) * iv) (fst (bs ! i)) (ws ! i))
     \<and> (\<forall>i. Suc i < length bs \<longrightarrow> fst (bs ! i) < fst (bs ! Suc i)
          \<and> (\<forall>m. fst (bs ! i) \<le> m \<and> Suc m < fst (bs ! Suc i) \<longrightarrow> clk m < t0 + real (Suc i) * iv))"

lemma series_timed_Cons:
  assumes "series_timed clk (t0 + iv) iv bs ws" and "t0 \<le> clk (k - 1)" and "halved clk (t0 + iv) k ps"
    and "bs \<noteq> [] \<Longrightarrow> k < fst (hd bs) \<and> (\<forall>m. k \<le> m \<and> Suc m < fst (hd bs) \<longrightarrow> clk m < t0 + iv)"
  shows "series_timed clk t0 iv ((k, b) # bs) (ps # ws)"
proof -
  have e: "t0 + iv + real i * iv = t0 + real (Suc i) * iv" for i by (simp add: algebra_simps)
  have "\<forall>i < length bs. t0 + real (Suc i) * iv \<le> clk (fst (bs ! i) - 1) \<and> halved clk (t0 + real (Suc (Suc i)) * iv) (fst (bs ! i)) (ws ! i)"
    and step: "\<forall>i. Suc i < length bs \<longrightarrow> fst (bs ! i) < fst (bs ! Suc i)
          \<and> (\<forall>m. fst (bs ! i) \<le> m \<and> Suc m < fst (bs ! Suc i) \<longrightarrow> clk m < t0 + real (Suc (Suc i)) * iv)"
    using assms(1) unfolding series_timed_def e by blast+
  then have "\<forall>i < Suc (length bs). t0 + real i * iv \<le> clk (fst (((k, b) # bs) ! i) - 1)
      \<and> halved clk (t0 + real (Suc i) * iv) (fst (((k, b) # bs) ! i)) ((ps # ws) ! i)"
    using assms(2,3) by (auto simp: nth_Cons less_Suc_eq_0_disj split: nat.split)
  moreover have "fst (((k, b) # bs) ! i) < fst (((k, b) # bs) ! Suc i)
        \<and> (\<forall>m. fst (((k, b) # bs) ! i) \<le> m \<and> Suc m < fst (((k, b) # bs) ! Suc i) \<longrightarrow> clk m < t0 + real (Suc i) * iv)"
    if "i < length bs" for i
  proof (cases i)
    case 0
    then show ?thesis using that assms(4) by (cases bs) auto
  next
    case (Suc j)
    then show ?thesis using that step by simp
  qed
  ultimately show ?thesis using assms(1) by (simp add: series_timed_def)
qed

lemma series_run:
  assumes "send_series env args tr nn t0 sqs s = Some (Inr (), s')"
    and "t0 \<le> perf_counter env (s_perf s - 1)"
  shows "\<exists>bs ws. s_events s' = s_events s @ series_events bs ws \<and> length bs = length sqs
    \<and> (bs \<noteq> [] \<longrightarrow> fst (hd bs) = s_perf s) \<and> series_timed (perf_counter env) t0 (interval_s args) bs ws"
  using assms
proof (induction sqs arbitrary: t0 s)
  case Nil
  then show ?case by (simp add: tx_run series_timed_def series_events_def)
next
  case (Cons sq sqs)
  let ?clk = "perf_counter env"
  obtain b u where w: "sleep_until ?clk (t0 + interval_s args) (emit (Packet (s_perf s) b) s) = Some (Inr (), u)"
    and r: "send_series env args tr nn (t0 + interval_s args) sqs u = Some (Inr (), s')"
    using Cons.prems(1) unfolding bursts_step by blast
  obtain ps where ps: "s_events u = s_events s @ Packet (s_perf s) b # map Pause ps" "s_perf s < s_perf u"
    and late: "t0 + interval_s args \<le> ?clk (s_perf u - 1)"
    and before: "\<forall>m. s_perf s \<le> m \<and> Suc m < s_perf u \<longrightarrow> ?clk m < t0 + interval_s args"
    and half: "halved ?clk (t0 + interval_s args) (s_perf s) ps"
    using sleep_until_paused [OF w] by (auto simp: paused_def emit_def)
  obtain bs ws where bs: "s_events s' = s_events u @ series_events bs ws" "length bs = length sqs"
    "bs \<noteq> [] \<longrightarrow> fst (hd bs) = s_perf u" "series_timed ?clk (t0 + interval_s args) (interval_s args) bs ws"
    using Cons.IH [OF r late] by blast
  have "series_timed ?clk t0 (interval_s args) ((s_perf s, b) # bs) (ps # ws)"
    using bs(3) ps(2) before by (intro series_timed_Cons [OF bs(4) Cons.prems(2) half]) auto
  moreover have "s_events s' = s_events s @ series_events ((s_perf s, b) # bs) (ps # ws)"
    using bs(1) ps(1) by (simp add: series_events_def)
  ultimately show ?case
    using bs(2) by (intro exI [of _ "(s_perf s, b) # bs"] exI [of _ "ps # ws"]) simp
qed

text \<open>
  C26: No burst is sent early, and delays do not add up. When a trial completes, it sent its START
  packet, paused for the gap, and sent one packet for each burst with pauses in between. With \<open>t\<close> the reading of the
  performance counter after the gap, burst \<open>i\<close> is due at \<open>t\<close> plus \<open>i\<close> intervals, whatever the
  readings before: the last reading before it is not earlier, every other reading since the burst
  before it is, and each pause since that burst is half of what a reading left until the due time. So the sender never
  sleeps past a due time, a late burst does not move the next one, and a burst goes out at the first reading at
  which it is due.
\<close>

theorem bursts_paced:
  assumes "send_trial env args fixed tr s = Some (Inr (), s')"
  shows "\<exists>k start bs ws. packets s' = packets s @ (k, start) # bs \<and> length bs = nat (sa_bursts args)
    \<and> s_events s' = s_events s @ [Packet k start, Pause (of_int (sa_start_gap_ms args) / 1000)] @ series_events bs ws
        @ [Pause (of_int (sa_trial_gap_ms args) / 1000)]
    \<and> (bs \<noteq> [] \<longrightarrow> fst (hd bs) = Suc k)
    \<and> series_timed (perf_counter env) (perf_counter env k) (of_int (sa_interval_us args) / 1000000) bs ws"
proof -
  obtain nn u start v w where nn: "(case fixed of Some nn \<Rightarrow> tx_lift (Inr nn) | None \<Rightarrow> read_random env) s = Some (Inr nn, u)"
    and v: "v = emit (Pause (of_int (sa_start_gap_ms args) / 1000)) (emit (Packet (s_perf u) start) (u\<lparr>s_wall := Suc (s_wall u)\<rparr>))"
    and b: "send_series env args tr nn (perf_counter env (s_perf v)) [0..<nat (sa_bursts args)] (v\<lparr>s_perf := Suc (s_perf v)\<rparr>) = Some (Inr (), w)"
    and e: "s_events s' = s_events w @ [Pause (of_int (sa_trial_gap_ms args) / 1000)]"
    using assms by (auto simp: send_trial_def tx_bind_Some tx_run send_packet_run sender_sleep_Inr emit_def)
  have u: "s_events u = s_events s" using nn by (auto simp: tx_run split: option.splits)
  obtain bs ws where bs: "s_events w = s_events v @ series_events bs ws" "length bs = nat (sa_bursts args)"
    "bs \<noteq> [] \<longrightarrow> fst (hd bs) = Suc (s_perf v)"
    "series_timed (perf_counter env) (perf_counter env (s_perf v)) (interval_s args) bs ws"
    using series_run [OF b] by auto
  have k: "s_perf v = s_perf u" using v by simp
  have ev: "s_events s' = s_events s @ [Packet (s_perf u) start, Pause (of_int (sa_start_gap_ms args) / 1000)] @ series_events bs ws
        @ [Pause (of_int (sa_trial_gap_ms args) / 1000)]"
    using e bs(1) v u by (simp add: emit_def)
  have "length ws = length bs" using bs(4) by (simp add: series_timed_def)
  then have "packets s' = packets s @ (s_perf u, start) # bs"
    unfolding packets_def ev by (simp add: series_events_packets) (simp add: event_packets_def)
  then show ?thesis using bs(2-4) ev unfolding k by blast
qed


section \<open>A whole run\<close>

definition stim_pad :: "int \<Rightarrow> int \<Rightarrow> bytes" where
  "stim_pad sq payload_bytes = map (\<lambda>i. byte_of_nat ((nat sq + i) mod 256)) [0..<nat payload_bytes - HEADER_size]"

definition stim_message :: "stim_args \<Rightarrow> int \<Rightarrow> int \<Rightarrow> int \<Rightarrow> bytes \<Rightarrow> message" where
  "stim_message args ty tr sq nn =
     \<lparr>msg_type = ty, trial = tr, seq_or_count = sq, interval_us = sa_interval_us args, sample_bytes = sa_sample_bytes args,
      nonce = nn, payload = stim_pad sq (sa_payload_bytes args)\<rparr>"

lemma int_and_255: "(x :: int) AND 255 = x mod 256"
proof -
  have "x AND 255 = take_bit 8 x" by (simp add: take_bit_eq_mask mask_eq_exp_minus_1)
  then show ?thesis by (simp add: take_bit_eq_mod)
qed

lemma make_msg_message:
  assumes "int HEADER_size \<le> pb" and "0 \<le> sq"
  shows "make_msg ty tr sq iv sb nn pb = make_message ty tr sq iv sb nn (stim_pad sq pb)"
proof -
  have "nat ((sq + int i) AND 255) = (nat sq + i) mod 256" for i
    using assms(2) by (simp add: int_and_255 nat_mod_distrib nat_add_distrib)
  moreover have "length h = 40" if "header_pack MAGIC VERSION ty tr sq iv sb nn = Inr h" for h
    using that by (auto simp: header_pack_def result_simps)
  moreover have "nat (pb - 40) = nat pb - 40" using assms(1) by (simp add: HEADER_size_def nat_diff_distrib)
  ultimately show ?thesis
    using assms by (cases "header_pack MAGIC VERSION ty tr sq iv sb nn")
      (auto simp: make_msg_def make_message_def stim_pad_def HEADER_size_def)
qed

definition stim_ok :: "stim_args \<Rightarrow> bool" where
  "stim_ok args \<longleftrightarrow> check_stim_args args = Inr () \<and> sa_trials args \<le> 2 ^ 32 \<and> sa_bursts args < 2 ^ 32
     \<and> fits 4 (sa_interval_us args) \<and> fits 4 (sa_sample_bytes args) \<and> 0 \<le> sa_start_gap_ms args \<and> 0 \<le> sa_trial_gap_ms args"

lemma stim_okD:
  assumes "stim_ok args"
  shows "0 < sa_trials args" "0 \<le> sa_bursts args" "int HEADER_size \<le> sa_payload_bytes args" "fits 4 (sa_bursts args)"
    "fits 4 (sa_interval_us args)" "fits 4 (sa_sample_bytes args)"
  using assms by (auto simp: stim_ok_def check_stim_args_def fits_def split: if_splits)

lemma stim_msg:
  assumes "stim_ok args" and "fits 2 ty" and "fits 4 tr" and "fits 4 sq" and "length nn = 16"
  shows "\<exists>b. make_msg ty tr sq (sa_interval_us args) (sa_sample_bytes args) nn (sa_payload_bytes args) = Inr b
    \<and> parse_message b = Some (stim_message args ty tr sq nn) \<and> length b = nat (sa_payload_bytes args)"
proof -
  note a = stim_okD [OF assms(1)]
  have sq: "0 \<le> sq" using assms(4) by (simp add: fits_def)
  obtain b where b: "make_message ty tr sq (sa_interval_us args) (sa_sample_bytes args) nn (stim_pad sq (sa_payload_bytes args)) = Inr b"
    using make_message_ok [OF assms(2-4) a(5,6)] by blast
  have "length b = nat (sa_payload_bytes args)"
    using length_make_message [OF b] a(3) by (simp add: stim_pad_def)
  moreover have "parse_message b = Some (stim_message args ty tr sq nn)"
    using parse_make_message [OF b] assms(5) by (simp add: stim_message_def)
  ultimately show ?thesis using b make_msg_message [OF a(3) sq] by simp
qed

text \<open>The messages of one trial, and of a run with these nonces.\<close>

definition trial_messages :: "stim_args \<Rightarrow> int \<times> bytes \<Rightarrow> message list" where
  "trial_messages args tn = (case tn of (tr, nn) \<Rightarrow>
     stim_message args TYPE_START tr (sa_bursts args) nn
       # map (\<lambda>sq. stim_message args TYPE_BURST tr (int sq) nn) [0..<nat (sa_bursts args)])"

definition sent_messages :: "stim_args \<Rightarrow> (nat \<times> bytes) list \<Rightarrow> message list \<Rightarrow> bool" where
  "sent_messages args ps ms \<longleftrightarrow> map (\<lambda>p. parse_message (snd p)) ps = map Some ms
     \<and> list_all (\<lambda>p. length (snd p) = nat (sa_payload_bytes args)) ps"

lemma sent_messages_append:
  "sent_messages args ps ms \<Longrightarrow> sent_messages args ps' ms' \<Longrightarrow> sent_messages args (ps @ ps') (ms @ ms')"
  by (simp add: sent_messages_def)

lemma trial_sent:
  assumes "stim_ok args" and "clock_runs env" and "fits 4 tr"
    and "(case fixed of Some nn \<Rightarrow> tx_lift (Inr nn) | None \<Rightarrow> read_random env) s = Some (Inr nn, u)" and "length nn = 16"
  shows "\<exists>s' ps. send_trial env args fixed tr s = Some (Inr (), s') \<and> packets s' = packets s @ ps
    \<and> sent_messages args ps (trial_messages args (tr, nn)) \<and> s_rand s' = s_rand u
    \<and> map (\<lambda>r. (sr_trial r, sr_nonce r)) (s_rows s') = map (\<lambda>r. (sr_trial r, sr_nonce r)) (s_rows s) @ [(tr, hex_of nn)]"
proof -
  note a = stim_okD [OF assms(1)]
  have ty: "fits 2 TYPE_START" "fits 2 TYPE_BURST" by (simp_all add: fits_def type_defs)
  have u: "packets u = packets s" "s_rows u = s_rows s" using assms(4) by (auto simp: tx_run split: option.splits)
  have gaps: "0 \<le> sa_start_gap_ms args" "0 \<le> sa_trial_gap_ms args"
    using assms(1) by (simp_all add: stim_ok_def)
  obtain start where start: "start_msg args tr nn = Inr start"
    "parse_message start = Some (stim_message args TYPE_START tr (sa_bursts args) nn)" "length start = nat (sa_payload_bytes args)"
    using stim_msg [OF assms(1) ty(1) assms(3) a(4) assms(5)] by blast
  have sq: "fits 4 (int q)" if "q < nat (sa_bursts args)" for q
    using that a(4) by (simp add: fits_def zless_nat_eq_int_zless)
  have burst: "\<exists>b. burst_msg args tr nn q = Inr b \<and> parse_message b = Some (stim_message args TYPE_BURST tr (int q) nn)
      \<and> length b = nat (sa_payload_bytes args)" if "q < nat (sa_bursts args)" for q
    by (rule stim_msg [OF assms(1) ty(2) assms(3) sq [OF that] assms(5)])
  let ?u = "emit (Pause (of_int (sa_start_gap_ms args) / 1000)) (emit (Packet (s_perf u) start) (u\<lparr>s_wall := Suc (s_wall u)\<rparr>))"
  let ?v = "?u\<lparr>s_perf := Suc (s_perf ?u)\<rparr>"
  have "list_all (\<lambda>q. ok (burst_msg args tr nn q)) [0..<nat (sa_bursts args)]"
    using burst by (fastforce simp: list_all_iff ok_iff)
  then obtain w where w: "send_series env args tr nn (perf_counter env (s_perf ?u)) [0..<nat (sa_bursts args)] ?v = Some (Inr (), w)"
    using bursts_complete [OF assms(2)] by blast
  obtain bs where bs: "packets w = packets ?v @ bs" "map (burst_msg args tr nn) [0..<nat (sa_bursts args)] = map (\<lambda>b. Inr (snd b)) bs"
    "s_rows w = s_rows ?v" "s_rand w = s_rand ?v"
    using bursts_sent [OF w] by blast
  have len: "length bs = nat (sa_bursts args)" using arg_cong [OF bs(2), of length] by simp
  have nth: "burst_msg args tr nn i = Inr (snd (bs ! i))" if "i < length bs" for i
    using arg_cong [OF bs(2), of "\<lambda>l. l ! i"] that len by simp
  have each: "parse_message (snd (bs ! i)) = Some (stim_message args TYPE_BURST tr (int i) nn) \<and> length (snd (bs ! i)) = nat (sa_payload_bytes args)"
    if "i < length bs" for i
    using burst [of i] nth [OF that] that len by auto
  have "map (\<lambda>p. parse_message (snd p)) bs = map Some (map (\<lambda>sq. stim_message args TYPE_BURST tr (int sq) nn) [0..<nat (sa_bursts args)])"
    by (rule nth_equalityI) (simp_all add: len each)
  then have sent: "sent_messages args ((s_perf u, start) # bs) (trial_messages args (tr, nn))"
    using start(2,3) each by (simp add: sent_messages_def trial_messages_def) (simp add: list_all_length)
  let ?s' = "emit (Pause (of_int (sa_trial_gap_ms args) / 1000)) (w\<lparr>s_wall := Suc (s_wall w),
    s_rows := s_rows w @ [log_row args tr nn (time_ns env (s_wall u)) (time_ns env (s_wall w))]\<rparr>)"
  have run: "send_trial env args fixed tr s = Some (Inr (), ?s')"
    using w by (simp add: send_trial_def tx_bind_def assms(4) tx_run start(1) send_packet_run sender_sleep_run gaps)
  show ?thesis
    by (rule exI [of _ ?s'], rule exI [of _ "(s_perf u, start) # bs"])
      (use run sent bs u in \<open>auto simp: log_row_def packets_def emit_def event_packets_def\<close>)
qed


text \<open>The nonces of a run: the fixed one for every trial, or a fresh one for each.\<close>

definition run_nonces :: "sender_env \<Rightarrow> bytes option \<Rightarrow> nat \<Rightarrow> nat list \<Rightarrow> bytes list" where
  "run_nonces env fixed k trs = map (\<lambda>i. case fixed of Some nn \<Rightarrow> nn | None \<Rightarrow> urandom env (k + i)) [0..<length trs]"

lemma run_nonces_Cons:
  "run_nonces env fixed k (tr # trs)
     = (case fixed of Some nn \<Rightarrow> nn | None \<Rightarrow> urandom env k) # run_nonces env fixed (case fixed of Some _ \<Rightarrow> k | None \<Rightarrow> Suc k) trs"
proof -
  have "[0..<Suc n] = 0 # map Suc [0..<n]" for n by (simp add: map_Suc_upt upt_conv_Cons del: upt_Suc)
  then show ?thesis by (cases fixed) (simp_all add: run_nonces_def del: upt_Suc)
qed

lemma trials_sent:
  assumes "stim_ok args" and "clock_runs env" and "list_all (\<lambda>tr. fits 4 (int tr)) trs"
    and "\<And>k. length (urandom env k) = 16" and "\<And>nn. fixed = Some nn \<Longrightarrow> length nn = 16"
  shows "\<exists>s' ps. send_trials env args fixed trs s = Some (Inr (), s') \<and> packets s' = packets s @ ps
    \<and> sent_messages args ps (concat (map (trial_messages args) (zip (map int trs) (run_nonces env fixed (s_rand s) trs))))
    \<and> map (\<lambda>r. (sr_trial r, sr_nonce r)) (s_rows s')
        = map (\<lambda>r. (sr_trial r, sr_nonce r)) (s_rows s) @ zip (map int trs) (map hex_of (run_nonces env fixed (s_rand s) trs))"
  using assms(3)
proof (induction trs arbitrary: s)
  case Nil
  then show ?case by (simp add: tx_run sent_messages_def)
next
  case (Cons tr trs)
  define nn where "nn = (case fixed of Some nn \<Rightarrow> nn | None \<Rightarrow> urandom env (s_rand s))"
  define k where "k = (case fixed of Some _ \<Rightarrow> s_rand s | None \<Rightarrow> Suc (s_rand s))"
  have nl: "length nn = 16" using assms(4,5) by (simp add: nn_def split: option.splits)
  obtain u where u: "(case fixed of Some nn \<Rightarrow> tx_lift (Inr nn) | None \<Rightarrow> read_random env) s = Some (Inr nn, u)" "s_rand u = k"
    by (cases fixed) (simp_all add: tx_run nn_def k_def)
  have f: "fits 4 (int tr)" using Cons.prems by simp
  obtain t ps where t: "send_trial env args fixed (int tr) s = Some (Inr (), t)" "packets t = packets s @ ps"
    "sent_messages args ps (trial_messages args (int tr, nn))" "s_rand t = s_rand u"
    "map (\<lambda>r. (sr_trial r, sr_nonce r)) (s_rows t) = map (\<lambda>r. (sr_trial r, sr_nonce r)) (s_rows s) @ [(int tr, hex_of nn)]"
    using trial_sent [OF assms(1,2) f u(1) nl] by blast
  have k: "s_rand t = k" using t(4) u(2) by simp
  obtain s' ps' where s': "send_trials env args fixed trs t = Some (Inr (), s')" "packets s' = packets t @ ps'"
    "sent_messages args ps' (concat (map (trial_messages args) (zip (map int trs) (run_nonces env fixed k trs))))"
    "map (\<lambda>r. (sr_trial r, sr_nonce r)) (s_rows s') = map (\<lambda>r. (sr_trial r, sr_nonce r)) (s_rows t)
        @ zip (map int trs) (map hex_of (run_nonces env fixed k trs))"
    using Cons.IH [of t] Cons.prems unfolding k by auto
  have "run_nonces env fixed (s_rand s) (tr # trs) = nn # run_nonces env fixed k trs"
    by (simp add: run_nonces_Cons nn_def k_def)
  then show ?case
    using t s' sent_messages_append [OF t(3) s'(3)]
    by (intro exI [of _ s'] exI [of _ "ps @ ps'"]) (simp add: tx_bind_def)
qed

text \<open>
  C20: An accepted run sends what it logs. When the arguments pass the checks and fit the fields of
  the header, the gaps are not negative, the counter is not bounded and the nonce, where one is
  given, has 16 bytes, the run returns. It sent, for each trial, a START message with the number of
  bursts and a BURST message for each, all of the asked size, with the trial's number and nonce,
  and the log has a row for each trial with that nonce: the one given, the fixed default, or a
  fresh one for each trial.
\<close>

theorem stimuli_sent:
  assumes "stim_ok args" and "clock_runs env" and "\<forall>k. length (urandom env k) = 16"
    and "given_nonce args = None \<or> (\<exists>h nn. given_nonce args = Some h \<and> fromhex h = Inr nn \<and> length nn = 16)"
  shows "\<exists>s nonces. stimulus_main env args stim_start = Some (Inr (), s) \<and> length nonces = nat (sa_trials args)
    \<and> sent_messages args (packets s) (concat (map (trial_messages args) (zip (map int [0..<nat (sa_trials args)]) nonces)))
    \<and> map (\<lambda>r. (sr_trial r, sr_nonce r)) (s_rows s) = zip (map int [0..<nat (sa_trials args)]) (map hex_of nonces)
    \<and> nonces = map (\<lambda>i. case given_nonce args of
          Some h \<Rightarrow> (case fromhex h of Inr nn \<Rightarrow> nn | Inl _ \<Rightarrow> [])
        | None \<Rightarrow> if sa_fixed_nonce args then replicate 16 0xA3 else urandom env i) [0..<nat (sa_trials args)]"
proof -
  let ?trs = "[0..<nat (sa_trials args)]"
  define fixed where "fixed = (case given_nonce args of
      Some h \<Rightarrow> Some (case fromhex h of Inr nn \<Rightarrow> nn | Inl _ \<Rightarrow> [])
    | None \<Rightarrow> if sa_fixed_nonce args then Some (replicate 16 0xA3) else None)"
  have chk: "check_stim_args args = Inr ()" using assms(1) by (simp add: stim_ok_def)
  have fl: "length nn = 16" if "fixed = Some nn" for nn
    using that assms(4) by (auto simp: fixed_def split: option.splits if_splits)
  have fits: "list_all (\<lambda>tr. fits 4 (int tr)) ?trs"
    using assms(1) by (auto simp: list_all_iff fits_def stim_ok_def nat_less_iff zless_nat_eq_int_zless)
  obtain s ps where s: "send_trials env args fixed ?trs stim_start = Some (Inr (), s)" "packets s = packets stim_start @ ps"
    "sent_messages args ps (concat (map (trial_messages args) (zip (map int ?trs) (run_nonces env fixed (s_rand stim_start) ?trs))))"
    "map (\<lambda>r. (sr_trial r, sr_nonce r)) (s_rows s)
        = map (\<lambda>r. (sr_trial r, sr_nonce r)) (s_rows stim_start) @ zip (map int ?trs) (map hex_of (run_nonces env fixed (s_rand stim_start) ?trs))"
    using trials_sent [OF assms(1,2) fits assms(3) [rule_format] fl, where s = stim_start] by blast
  have "stimulus_main env args stim_start = send_trials env args fixed ?trs stim_start"
    using assms(4) chk by (auto simp: stimulus_main_def nonce_from_args_def tx_bind_def tx_run fixed_def split: if_splits)
  moreover have "run_nonces env fixed 0 ?trs = map (\<lambda>i. case given_nonce args of
          Some h \<Rightarrow> (case fromhex h of Inr nn \<Rightarrow> nn | Inl _ \<Rightarrow> [])
        | None \<Rightarrow> if sa_fixed_nonce args then replicate 16 0xA3 else urandom env i) ?trs"
    by (auto simp: run_nonces_def fixed_def split: option.splits)
  moreover have "s_rand stim_start = 0" "packets stim_start = []" "s_rows stim_start = []"
    by (simp_all add: stim_start_def packets_def)
  ultimately show ?thesis
    using s by (intro exI [of _ s] exI [of _ "run_nonces env fixed 0 ?trs"]) (simp add: run_nonces_def)
qed

definition demo_stim_args :: stim_args where
  "demo_stim_args = \<lparr>sa_trials = 2, sa_bursts = 3, sa_interval_us = 1000, sa_payload_bytes = 64, sa_sample_bytes = 4096,
     sa_fixed_nonce = False, sa_nonce_hex = None, sa_start_gap_ms = 20, sa_trial_gap_ms = 250\<rparr>"

definition demo_sender_env :: sender_env where
  "demo_sender_env = \<lparr>perf_counter = real, time_ns = int, urandom = (\<lambda>k. replicate 16 (of_nat k))\<rparr>"

lemma demo_ok: "stim_ok demo_stim_args" "clock_runs demo_sender_env" "\<forall>k. length (urandom demo_sender_env k) = 16"
proof -
  show "stim_ok demo_stim_args" by (simp add: stim_ok_def demo_stim_args_def check_stim_args_def fits_def HEADER_size_def)
  show "clock_runs demo_sender_env"
    unfolding clock_runs_def
  proof (intro allI)
    fix t :: real and k
    obtain n :: nat where "t \<le> real n" using real_arch_simple by blast
    then have "t \<le> real (max n k)" by simp
    then show "\<exists>j \<ge> k. t \<le> perf_counter demo_sender_env j" by (intro exI [of _ "max n k"]) (simp add: demo_sender_env_def)
  qed
  show "\<forall>k. length (urandom demo_sender_env k) = 16" by (simp add: demo_sender_env_def)
qed

theorem stimuli_sent_witness:
  "\<exists>s. stimulus_main demo_sender_env demo_stim_args stim_start = Some (Inr (), s)
    \<and> sent_messages demo_stim_args (packets s)
        (concat (map (trial_messages demo_stim_args) [(0, replicate 16 0), (1, replicate 16 1)]))"
proof -
  have "given_nonce demo_stim_args = None" by (simp add: given_nonce_def demo_stim_args_def)
  moreover have "[0..<2] = [0, 1 :: nat]" by (simp add: upt_rec)
  moreover have "nat (sa_trials demo_stim_args) = 2" "sa_fixed_nonce demo_stim_args = False" "\<And>i. urandom demo_sender_env i = replicate 16 (of_nat i)"
    by (simp_all add: demo_stim_args_def demo_sender_env_def)
  ultimately show ?thesis using stimuli_sent [OF demo_ok] by force
qed

theorem bursts_paced_witness:
  "\<exists>s k start bs ws. send_trial demo_sender_env demo_stim_args (Some (replicate 16 0)) 0 stim_start = Some (Inr (), s)
    \<and> packets s = (k, start) # bs \<and> length bs = 3 \<and> real k + 2 * (1000 / 1000000) \<le> perf_counter demo_sender_env (fst (bs ! 2) - 1)
    \<and> series_timed real (real k) (1000 / 1000000) bs ws"
proof -
  obtain s where s: "send_trial demo_sender_env demo_stim_args (Some (replicate 16 0)) 0 stim_start = Some (Inr (), s)"
  proof -
    have f: "fits 4 0" by (simp add: fits_def)
    have c: "(case Some (replicate 16 0) of Some nn \<Rightarrow> tx_lift (Inr nn) | None \<Rightarrow> read_random demo_sender_env) stim_start = Some (Inr (replicate 16 0), stim_start)"
      by (simp add: tx_run)
    have "length (replicate 16 (0 :: byte)) = 16" by simp
    from that trial_sent [OF demo_ok(1,2) f c this] show ?thesis by blast
  qed
  have a: "sa_bursts demo_stim_args = 3" "sa_interval_us demo_stim_args = 1000" "packets stim_start = []" "perf_counter demo_sender_env = real"
    by (simp_all add: demo_stim_args_def stim_start_def packets_def demo_sender_env_def)
  obtain k start bs ws where p: "packets s = [] @ (k, start) # bs" "length bs = nat 3"
    and t: "series_timed real (real k) (of_int 1000 / 1000000) bs ws"
    using bursts_paced [OF s] unfolding a by blast
  have l: "length bs = 3" using p(2) by simp
  have "real k + real 2 * (of_int 1000 / 1000000) \<le> real (fst (bs ! 2) - 1)"
    using t l unfolding series_timed_def by (metis lessI numeral_2_eq_2 numeral_3_eq_3)
  then have "real k + 2 * (1000 / 1000000) \<le> perf_counter demo_sender_env (fst (bs ! 2) - 1)" by (simp add: a)
  moreover have "series_timed real (real k) (1000 / 1000000) bs ws" using t by simp
  moreover have "packets s = (k, start) # bs" using p(1) by simp
  ultimately show ?thesis using s l by blast
qed

end
