(* ===== verification/PqKeys.thy ===== *)
theory PqKeys
  imports PyNumber Codec
begin

text \<open>
  The generator of the laboratory keys of the post-quantum profile (\<open>generate_pq_keys.py\<close>): the
  deterministic generator behind the library's random bytes, the C arrays, and the two headers.
  SHA-512 and the key operations of the library are parameters; an operation that may draw random
  bytes takes the state of the generator and returns it. Facts: the generator is 64-bit
  arithmetic, a fill is a prefix of its stream, an array reads back, and headers are only written
  for keys that passed the self-tests.
\<close>

section \<open>The generator\<close>

definition MASK64 :: int where "MASK64 = 0xFFFFFFFFFFFFFFFF"

text \<open>\<open>self.state\<close> and what \<open>next_u64\<close> returns, on Python's integers with the masks of the code.\<close>

definition rng_init :: "(bytes \<Rightarrow> bytes) \<Rightarrow> bytes \<Rightarrow> int" where
  "rng_init sha512 seed = int (le_value (take 8 (sha512 seed)))"

definition next_u64 :: "int \<Rightarrow> int \<times> int" where
  "next_u64 st =
     (let st' = (st + 0x9E3779B97F4A7C15) AND MASK64;
          z1 = ((st' XOR drop_bit 30 st') * 0xBF58476D1CE4E5B9) AND MASK64;
          z2 = ((z1 XOR drop_bit 27 z1) * 0x94D049BB133111EB) AND MASK64
      in (z2 XOR drop_bit 31 z2, st'))"

definition to_bytes8 :: "int \<Rightarrow> bytes result" where
  "to_bytes8 z = (if fits 8 z then Inr (le_bytes 8 (nat z)) else Inl OverflowError)"

text \<open>Storing a block from an offset on, until the length is reached.\<close>

fun store_block :: "nat \<Rightarrow> bytes \<Rightarrow> bytes \<times> nat \<Rightarrow> bytes \<times> nat" where
  "store_block n [] (out, offset) = (out, offset)"
| "store_block n (v # vs) (out, offset) =
     (if offset \<ge> n then (out, offset) else store_block n vs (out[offset := v], offset + 1))"

text \<open>The fuel counts the blocks; as many as there are bytes are always enough.\<close>

fun fill_loop :: "nat \<Rightarrow> nat \<Rightarrow> int \<Rightarrow> bytes \<times> nat \<Rightarrow> (bytes \<times> int) result option" where
  "fill_loop 0 n st (out, offset) = (if offset < n then None else Some (Inr (out, st)))"
| "fill_loop (Suc fuel) n st (out, offset) =
     (if offset < n then
        (case next_u64 st of (z, st') \<Rightarrow>
           (case to_bytes8 z of Inl e \<Rightarrow> Some (Inl e)
            | Inr block \<Rightarrow> fill_loop fuel n st' (store_block n block (out, offset))))
      else Some (Inr (out, st)))"

definition rng_fill :: "int \<Rightarrow> bytes \<Rightarrow> nat \<Rightarrow> (bytes \<times> int) result option" where
  "rng_fill st out n = fill_loop n n st (out, 0)"

section \<open>The arrays\<close>

definition byte_literal :: "byte \<Rightarrow> string" where
  "byte_literal b = ''0x'' @ fmt_hex 2 (unat b)"

definition array_rows :: "bytes \<Rightarrow> string list" where
  "array_rows data =
     map (\<lambda>i. CHR 0x09 # join '', '' (map byte_literal (take 12 (drop (12 * i) data)))) [0..<(length data + 11) div 12]"

definition format_array :: "string \<Rightarrow> bytes \<Rightarrow> string \<Rightarrow> string" where
  "format_array name data size_macro =
     ''static const uint8_t '' @ name @ ''['' @ size_macro @ ''] = {'' @ [CHR 0x0A]
     @ join ('','' @ [CHR 0x0A]) (array_rows data) @ [CHR 0x0A] @ ''};'' @ [CHR 0x0A]"

section \<open>The keys and the headers\<close>

text \<open>The operations of the library: the status, what they write to their buffers, the generator after them.\<close>

record oqs =
  kem_keypair_derand :: "bytes \<Rightarrow> int \<times> bytes \<times> bytes"
  kem_encaps :: "int \<Rightarrow> bytes \<Rightarrow> (int \<times> bytes \<times> bytes) \<times> int"
  kem_decaps :: "bytes \<Rightarrow> bytes \<Rightarrow> int \<times> bytes"
  sig_keypair :: "int \<Rightarrow> (int \<times> bytes \<times> bytes) \<times> int"
  sig_sign :: "int \<Rightarrow> bytes \<Rightarrow> bytes \<Rightarrow> (int \<times> bytes) \<times> int"
  sig_verify :: "bytes \<Rightarrow> bytes \<Rightarrow> bytes \<Rightarrow> int"

definition MLDSA44_SIG_SIZE :: nat where "MLDSA44_SIG_SIZE = 2420"

record pq_keys =
  kem_public :: bytes
  kem_private :: bytes
  mldsa_public :: bytes
  mldsa_secret :: bytes

definition SELF_TEST :: bytes where "SELF_TEST = ascii_bytes ''PQ entropy capsule key self-test''"

definition make_keys :: "(bytes \<Rightarrow> bytes) \<Rightarrow> oqs \<Rightarrow> pq_keys result" where
  "make_keys sha512 lib =
     (let rng = rng_init sha512 (ascii_bytes ''entropy capsule deterministic ML-DSA-44 lab key v1'');
          kem_seed = sha512 (ascii_bytes ''entropy capsule deterministic ML-KEM-512 lab key v1'');
          (rc, pub, priv) = kem_keypair_derand lib kem_seed
      in if rc \<noteq> 0 then Inl (RuntimeError ''ML-KEM-512 key generation failed'')
      else (let ((rc, spub, ssec), rng) = sig_keypair lib rng
      in if rc \<noteq> 0 then Inl (RuntimeError ''ML-DSA-44 key generation failed'')
      else (let ((rc, ct, ss_a), rng) = kem_encaps lib rng pub
      in if rc \<noteq> 0 then Inl (RuntimeError ''ML-KEM-512 encapsulation self-test failed'')
      else (let (rc, ss_b) = kem_decaps lib ct priv
      in if rc \<noteq> 0 then Inl (RuntimeError ''ML-KEM-512 decapsulation self-test failed'')
      else if ss_a \<noteq> ss_b then Inl (RuntimeError ''ML-KEM-512 self-test shared-secret mismatch'')
      else (let ((rc, sig), rng) = sig_sign lib rng SELF_TEST ssec
      in if rc \<noteq> 0 then Inl (RuntimeError ''ML-DSA-44 signing self-test failed'')
      else if length sig \<noteq> MLDSA44_SIG_SIZE
        then Inl (RuntimeError (''unexpected ML-DSA-44 signature size '' @ str_of_nat (length sig)))
      else if sig_verify lib SELF_TEST sig spub \<noteq> 0 then Inl (RuntimeError ''ML-DSA-44 verification self-test failed'')
      else Inr \<lparr>kem_public = pub, kem_private = priv, mldsa_public = spub, mldsa_secret = ssec\<rparr>)))))"

definition code_lines :: "string list \<Rightarrow> string" where
  "code_lines ls = concat (map (\<lambda>l. l @ [CHR 0x0A]) ls)"

definition client_header :: "pq_keys \<Rightarrow> string" where
  "client_header k =
     code_lines [''#ifndef TEB_PQ_CLIENT_KEYS_H'', ''#define TEB_PQ_CLIENT_KEYS_H'', [], ''#include <stdint.h>'', [],
       ''#include '' @ [CHR 0x22] @ ''teb_protocol.h'' @ [CHR 0x22], [],
       ''/* Deterministic lab-only keys for reproducible ESP32 benchmarks. */'']
     @ format_array ''teb_mlkem512_private_key'' (kem_private k) ''TEB_MLKEM512_PRIVATE_KEY_SIZE''
     @ [CHR 0x0A] @ format_array ''teb_mldsa44_public_key'' (mldsa_public k) ''TEB_MLDSA44_PUBLIC_KEY_SIZE''
     @ code_lines [[], ''#endif /* TEB_PQ_CLIENT_KEYS_H */'']"

definition server_header :: "pq_keys \<Rightarrow> string" where
  "server_header k =
     code_lines [''#ifndef TEB_PQ_SERVER_KEYS_H'', ''#define TEB_PQ_SERVER_KEYS_H'', [], ''#include <stdint.h>'', [],
       ''#define TEB_SERVER_MLKEM512_PUBLIC_KEY_SIZE 800'', ''#define TEB_SERVER_MLDSA44_PUBLIC_KEY_SIZE 1312'',
       ''#define TEB_SERVER_MLDSA44_SECRET_KEY_SIZE 2560'', [],
       ''/* Deterministic lab-only keys for reproducible ESP32 benchmarks. */'']
     @ format_array ''teb_mlkem512_public_key'' (kem_public k) ''TEB_SERVER_MLKEM512_PUBLIC_KEY_SIZE''
     @ [CHR 0x0A] @ format_array ''teb_mldsa44_public_key'' (mldsa_public k) ''TEB_SERVER_MLDSA44_PUBLIC_KEY_SIZE''
     @ [CHR 0x0A] @ format_array ''teb_mldsa44_secret_key'' (mldsa_secret k) ''TEB_SERVER_MLDSA44_SECRET_KEY_SIZE''
     @ code_lines [[], ''#endif /* TEB_PQ_SERVER_KEYS_H */'']"

definition keys_main :: "(bytes \<Rightarrow> bytes) \<Rightarrow> oqs \<Rightarrow> (string \<times> string) result" where
  "keys_main sha512 lib = rbind (make_keys sha512 lib) (\<lambda>k. Inr (client_header k, server_header k))"


section \<open>The generator is 64-bit arithmetic\<close>

text \<open>The reference: the same steps on 64-bit words, whose operations wrap around.\<close>

definition GAMMA :: "64 word" where "GAMMA = 0x9E3779B97F4A7C15"

definition splitmix :: "64 word \<Rightarrow> 64 word \<times> 64 word" where
  "splitmix s =
     (let s' = s + GAMMA; z1 = (s' XOR drop_bit 30 s') * 0xBF58476D1CE4E5B9; z2 = (z1 XOR drop_bit 27 z1) * 0x94D049BB133111EB
      in (z2 XOR drop_bit 31 z2, s'))"

lemma and_mask64: "x AND MASK64 = take_bit 64 x"
  by (simp add: take_bit_eq_mask mask_eq_exp_minus_1 MASK64_def)

lemma uint_ops64:
  "uint (a + b) = take_bit 64 (uint a + uint b)" "uint (a * b) = take_bit 64 (uint a * uint b)"
  "uint (a XOR b) = uint a XOR uint b" for a b :: "64 word"
  by (simp_all add: uint_word_ariths take_bit_eq_mod unsigned_xor_eq)

lemma uint_drop64: "uint (drop_bit n a) = drop_bit n (uint a)" for a :: "64 word"
  by (simp add: unsigned_drop_bit_eq bintr_uint)

lemma next_u64_splitmix: "next_u64 (uint s) = (uint (fst (splitmix s)), uint (snd (splitmix s)))"
proof -
  have c: "uint GAMMA = 0x9E3779B97F4A7C15" "uint (0xBF58476D1CE4E5B9 :: 64 word) = 0xBF58476D1CE4E5B9"
    "uint (0x94D049BB133111EB :: 64 word) = 0x94D049BB133111EB" by (simp_all add: GAMMA_def)
  show ?thesis
    unfolding next_u64_def splitmix_def Let_def and_mask64 fst_conv snd_conv uint_ops64 uint_drop64 c ..
qed

lemma to_bytes8_word: "to_bytes8 (uint (w :: 64 word)) = Inr (le_bytes 8 (unat w))"
proof -
  have e: "(256 :: int) ^ 8 = 2 ^ LENGTH(64)" by simp
  have "fits 8 (uint w)" unfolding fits_def e using uint_lt2p [of w] by (simp only: uint_ge_0 simp_thms)
  then show ?thesis by (simp only: to_bytes8_def if_True nat_uint_eq)
qed

text \<open>The stream of bytes from a state, and the state after some blocks.\<close>

primrec stream :: "64 word \<Rightarrow> nat \<Rightarrow> bytes" where
  "stream s 0 = []"
| "stream s (Suc k) = le_bytes 8 (unat (fst (splitmix s))) @ stream (snd (splitmix s)) k"

definition blocks :: "nat \<Rightarrow> nat" where
  "blocks n = (n + 7) div 8"

lemma length_stream [simp]: "length (stream s k) = 8 * k"
  by (induction k arbitrary: s) simp_all

lemma blocks_step: "0 < n \<Longrightarrow> blocks n = Suc (blocks (n - min 8 n))"
  unfolding blocks_def by (cases "n \<le> 8") auto

lemma store_block_eq:
  assumes "off \<le> n" and "n \<le> length out"
  shows "store_block n vs (out, off)
    = (take off out @ take (n - off) vs @ drop (off + min (length vs) (n - off)) out, off + min (length vs) (n - off))"
  using assms
proof (induction vs arbitrary: out off)
  case (Cons v vs)
  show ?case
  proof (cases "off < n")
    case True
    then have lt: "off < length out" and n: "n - off = Suc (n - Suc off)" using Cons.prems by simp_all
    have "take (Suc off) (out[off := v]) = take off out @ [v]" using lt by (simp add: take_Suc_conv_app_nth)
    moreover have "drop (Suc off + k) (out[off := v]) = drop (Suc off + k) out" for k by (simp add: drop_update_cancel)
    ultimately show ?thesis
      using Cons.IH [of "Suc off" "out[off := v]"] True Cons.prems by (simp add: n)
  qed (use Cons.prems in simp)
qed simp

lemma fill_loop_stream:
  assumes "off \<le> n" and "n \<le> length out" and "blocks (n - off) \<le> fuel"
  shows "fill_loop fuel n (uint s) (out, off) = Some (Inr (take off out @ take (n - off) (stream s (blocks (n - off))) @ drop n out,
    uint (s + of_nat (blocks (n - off)) * GAMMA)))"
  using assms
proof (induction fuel arbitrary: s out off)
  case 0
  then have "\<not> off < n" by (simp add: blocks_def div_eq_0_iff)
  with 0 show ?case by (simp add: blocks_def)
next
  case (Suc fuel)
  show ?case
  proof (cases "off < n")
    case False
    with Suc.prems show ?thesis by (simp add: blocks_def)
  next
    case True
    define k where "k = min 8 (n - off)"
    let ?z = "fst (splitmix s)" and ?s = "snd (splitmix s)"
    let ?block = "le_bytes 8 (unat ?z)"
    let ?out = "take off out @ take (n - off) ?block @ drop (off + k) out"
    have step: "fill_loop (Suc fuel) n (uint s) (out, off) = fill_loop fuel n (uint ?s) (?out, off + k)"
      using True store_block_eq [OF Suc.prems(1,2), of ?block] by (simp add: next_u64_splitmix to_bytes8_word k_def)
    have b: "blocks (n - off) = Suc (blocks (n - (off + k)))"
      using True blocks_step [of "n - off"] by (simp add: k_def)
    have le: "off + k \<le> n" using True by (simp add: k_def)
    have l: "length (take off out @ take (n - off) ?block) = off + k" using Suc.prems True by (simp add: k_def min_def)
    have "fill_loop fuel n (uint ?s) (?out, off + k) = Some (Inr (take (off + k) ?out
        @ take (n - (off + k)) (stream ?s (blocks (n - (off + k)))) @ drop n ?out, uint (?s + of_nat (blocks (n - (off + k))) * GAMMA)))"
      using Suc.prems b l le by (intro Suc.IH) auto
    moreover have "take (off + k) ?out = take off out @ take (n - off) ?block"
      using l by (metis append_assoc append_eq_conv_conj)
    moreover have "drop n (pre @ drop (off + k) out) = drop n out" if "length pre = off + k" for pre
      using that le by simp
    then have "drop n ?out = drop n out" using l by (metis append_assoc)
    moreover have "take (n - off) (stream s (blocks (n - off)))
        = take (n - off) ?block @ take (n - (off + k)) (stream ?s (blocks (n - (off + k))))"
      unfolding b using True by (auto simp: k_def min_def)
    moreover have "?s + of_nat (blocks (n - (off + k))) * GAMMA = s + of_nat (blocks (n - off)) * GAMMA"
      unfolding b by (simp add: splitmix_def Let_def algebra_simps)
    ultimately show ?thesis unfolding step by simp
  qed
qed

text \<open>
  C28: A fill is a prefix of the stream of a 64-bit generator. For every state of 64 bits and every
  buffer with room for the asked bytes, the fill returns: the buffer starts with the first \<open>n\<close>
  bytes of the little-endian outputs of the reference generator, the rest of it is unchanged, and
  the state went \<open>(n + 7) div 8\<close> steps on, modulo \<open>2^64\<close>. The masks on the unbounded
  integers of the script thus compute 64-bit arithmetic, and no conversion overflows.
\<close>

theorem fill_is_stream:
  assumes "n \<le> length out"
  shows "rng_fill (uint s) out n
    = Some (Inr (take n (stream s (blocks n)) @ drop n out, uint (s + of_nat (blocks n) * GAMMA)))"
proof -
  have "blocks n \<le> n" by (simp add: blocks_def)
  then show ?thesis using fill_loop_stream [of 0 n out n s] assms by (simp add: rng_fill_def)
qed

theorem fill_is_stream_witness:
  "rng_fill (uint (5 :: 64 word)) [0, 0, 7] 2 = Some (Inr (take 2 (stream 5 1) @ [7], uint (5 + GAMMA)))"
proof -
  have "blocks 2 = 1" by (simp add: blocks_def)
  then show ?thesis using fill_is_stream [of 2 "[0, 0, 7]" 5] by simp
qed


section \<open>Arrays read back\<close>

text \<open>
  A reader of the arrays: the comma-separated numbers between the braces, in base 16, with white
  space around them.
\<close>

definition read_numbers :: "string \<Rightarrow> int list result" where
  "read_numbers s = rmap (py_int_base 16) (split_on CHR '','' s)"

definition array_bytes :: "string \<Rightarrow> bytes result" where
  "array_bytes t = rbind (read_numbers (takeWhile (\<lambda>c. c \<noteq> CHR ''}'') (after_first ''{'' t)))
     (\<lambda>vs. Inr (map (\<lambda>v. byte_of_nat (nat v)) vs))"

lemma split_on_append: "split_on sep (s @ sep # t) = split_on sep s @ split_on sep t"
proof -
  have "split_aux sep acc (s @ sep # t) = split_aux sep acc s @ split_aux sep [] t" for acc
    by (induction s arbitrary: acc) auto
  then show ?thesis by (simp add: split_on_def)
qed

lemma read_numbers_append:
  "read_numbers s = Inr vs \<Longrightarrow> read_numbers t = Inr ws \<Longrightarrow> read_numbers (s @ CHR '','' # t) = Inr (vs @ ws)"
proof -
  have "rmap f (xs @ ys) = rbind (rmap f xs) (\<lambda>a. rbind (rmap f ys) (\<lambda>b. Inr (a @ b)))" for f :: "string \<Rightarrow> int result" and xs ys
    by (induction xs) (auto simp: rbind_def split: sum.splits)
  then show "read_numbers s = Inr vs \<Longrightarrow> read_numbers t = Inr ws \<Longrightarrow> read_numbers (s @ CHR '','' # t) = Inr (vs @ ws)"
    by (simp add: read_numbers_def split_on_append)
qed

definition blank :: "string \<Rightarrow> bool" where
  "blank w \<longleftrightarrow> list_all (\<lambda>c. code c < 128 \<and> is_ascii_space c \<and> c \<noteq> CHR '','') w"

lemma literal_digits_plain: "all_digits 16 s \<Longrightarrow> c \<in> set s \<Longrightarrow> code c < 128 \<and> \<not> is_ascii_space c \<and> c \<notin> {CHR '','', CHR ''}'', CHR ''{''}"
  using digit_not_space [of 16 c]
  by (auto simp: all_digits_def list_all_iff digit_value_def Let_def code_def split: if_splits)

lemma fmt_hex_digits: "all_digits 16 (fmt_hex w n) \<and> read_digits 16 (fmt_hex w n) = Some n \<and> fmt_hex w n \<noteq> []"
  unfolding fmt_hex_def using zpad_digits [of 16 w n] by (auto simp: zpad_def)

lemma literal_plain: "c \<in> set (byte_literal b) \<Longrightarrow> code c < 128 \<and> \<not> is_ascii_space c \<and> c \<notin> {CHR '','', CHR ''}'', CHR ''{''}"
  using literal_digits_plain [of "fmt_hex 2 (unat b)" c] fmt_hex_digits [of 2 "unat b"]
  by (auto simp: byte_literal_def code_def is_ascii_space_def)

lemma dropWhile_blank: "list_all P w \<Longrightarrow> dropWhile P (w @ s) = dropWhile P s"
  by (induction w) auto

lemma dropWhile_keep: "l \<noteq> [] \<Longrightarrow> \<not> P (hd l) \<Longrightarrow> dropWhile P (l @ s) = l @ s"
  by (cases l) auto

lemma int_strip_blank:
  assumes "blank w" and "blank e" and "l \<noteq> []" and "\<And>c. c \<in> set l \<Longrightarrow> code c < 128 \<and> \<not> is_ascii_space c"
  shows "int_strip (w @ l @ e) = l"
proof -
  have sp: "list_all (\<lambda>c. code c < 128) (w @ l @ e)" using assms by (auto simp: blank_def list_all_iff)
  have b: "list_all is_ascii_space w" "list_all is_ascii_space (rev e)" using assms(1,2) by (auto simp: blank_def list_all_iff)
  have n: "\<not> is_ascii_space (hd l)" "\<not> is_ascii_space (hd (rev l))" using assms(3,4) by (simp_all add: hd_rev)
  have "dropWhile is_ascii_space (w @ l @ e) = l @ e"
    using dropWhile_keep [of l is_ascii_space e] assms(3) n(1) by (simp add: dropWhile_blank [OF b(1)])
  moreover have "dropWhile is_ascii_space (rev e @ rev l) = rev l"
    using dropWhile_keep [of "rev l" is_ascii_space "[]"] assms(3) n(2) by (simp add: dropWhile_blank [OF b(2)])
  ultimately show ?thesis using sp by (simp add: int_strip_def)
qed

lemma read_literal:
  assumes "blank w" and "blank e"
  shows "read_numbers (w @ byte_literal b @ e) = Inr [int (unat b)]"
proof -
  have ne: "byte_literal b \<noteq> []" by (simp add: byte_literal_def)
  have "CHR '','' \<notin> set (w @ byte_literal b @ e)" using assms literal_plain [of _ b] by (auto simp: blank_def list_all_iff)
  then have s: "split_on CHR '','' (w @ byte_literal b @ e) = [w @ byte_literal b @ e]" by (simp add: split_on_def split_aux_last)
  have i: "int_strip (w @ byte_literal b @ e) = byte_literal b"
    using literal_plain [of _ b] by (intro int_strip_blank [OF assms ne]) blast
  have g: "split_sign (byte_literal b) = (1, byte_literal b)" by (simp add: byte_literal_def split_sign_def)
  have "fmt_hex 2 (unat b) = c # cs \<Longrightarrow> c \<noteq> CHR ''_''" for c cs
    using fmt_hex_digits [of 2 "unat b"] by (auto simp: all_digits_def)
  then have u: "drop_one_underscore (fmt_hex 2 (unat b)) = fmt_hex 2 (unat b)"
    by (cases "fmt_hex 2 (unat b)") (auto simp: drop_one_underscore_def)
  have "py_int_base 16 (w @ byte_literal b @ e) = Inr (int (unat b))"
    unfolding py_int_base_def i g using fmt_hex_digits [of 2 "unat b"] u by (simp add: read_base_def byte_literal_def)
  then show ?thesis by (simp add: read_numbers_def s)
qed

lemma read_row:
  assumes "bs \<noteq> []" and "blank w" and "blank e"
  shows "read_numbers (w @ join '', '' (map byte_literal bs) @ e) = Inr (map (\<lambda>b. int (unat b)) bs)"
  using assms(1,2)
proof (induction bs arbitrary: w)
  case (Cons b bs)
  show ?case
  proof (cases bs)
    case Nil
    then show ?thesis using read_literal [OF Cons.prems(2) assms(3)] by simp
  next
    case (Cons c cs)
    have sp: "blank '' ''" "blank []" by (simp_all add: blank_def code_def is_ascii_space_def)
    have "join '', '' (map byte_literal (b # bs)) = byte_literal b @ CHR '','' # '' '' @ join '', '' (map byte_literal bs)"
      by (simp add: Cons)
    then show ?thesis
      using read_numbers_append [OF read_literal [OF Cons.prems(2) sp(2), of b] Cons.IH [OF _ sp(1)]] Cons by simp
  qed
qed simp

lemma read_rows:
  assumes "rows \<noteq> []" and "list_all (\<lambda>bs. bs \<noteq> []) rows"
  shows "read_numbers ([CHR 0x0A] @ join ('','' @ [CHR 0x0A]) (map (\<lambda>bs. CHR 0x09 # join '', '' (map byte_literal bs)) rows) @ [CHR 0x0A])
    = Inr (map (\<lambda>b. int (unat b)) (concat rows))"
  using assms
proof (induction rows)
  case (Cons bs rows)
  have bl: "blank [CHR 0x0A, CHR 0x09]" "blank [CHR 0x0A]" "blank []" by (simp_all add: blank_def code_def is_ascii_space_def)
  show ?case
  proof (cases rows)
    case Nil
    then show ?thesis using read_row [OF _ bl(1,2), of bs] Cons.prems by simp
  next
    case (Cons cs rest)
    have "read_numbers ([CHR 0x0A, CHR 0x09] @ join '', '' (map byte_literal bs) @ []) = Inr (map (\<lambda>b. int (unat b)) bs)"
      using read_row [OF _ bl(1,3), of bs] Cons.prems by simp
    from read_numbers_append [OF this Cons.IH] Cons Cons.prems show ?thesis by simp
  qed
qed simp

lemma find_char: "c \<notin> set pre \<Longrightarrow> find_sub [c] (pre @ c # s) = Some (length pre)"
  by (induction pre) auto

lemma after_char: "c \<notin> set pre \<Longrightarrow> after_first [c] (pre @ c # s) = s"
  by (simp add: after_first_def find_char)

text \<open>
  The arrays of the headers hold the keys. The array text made for any non-empty key, under any
  name and size without an opening brace, reads back as the bytes of the key, in order.
\<close>

theorem array_roundtrip:
  assumes "data \<noteq> []" and "CHR ''{'' \<notin> set name" and "CHR ''{'' \<notin> set macro"
  shows "array_bytes (format_array name data macro) = Inr data"
proof -
  define m where "m = (length data + 11) div 12"
  let ?rows = "map (\<lambda>i. take 12 (drop (12 * i) data)) [0..<m]"
  let ?body = "[CHR 0x0A] @ join ('','' @ [CHR 0x0A]) (map (\<lambda>bs. CHR 0x09 # join '', '' (map byte_literal bs)) ?rows) @ [CHR 0x0A]"
  have "length data \<le> 12 * m" unfolding m_def by linarith
  then have all: "concat ?rows = data" using concat_pieces [of 12 data m] by simp
  have "12 * i < length data" if "i < m" for i using that unfolding m_def by linarith
  then have ne: "list_all (\<lambda>bs. bs \<noteq> []) ?rows" by (fastforce simp: list_all_iff)
  have ne': "?rows \<noteq> []" using all assms(1) by force
  have r: "read_numbers ?body = Inr (map (\<lambda>b. int (unat b)) data)" using read_rows [OF ne' ne] all by simp
  have "c \<noteq> CHR ''}''" if "c \<in> set (join s xs)" "\<And>x. x \<in> set xs \<Longrightarrow> CHR ''}'' \<notin> set x" "CHR ''}'' \<notin> set s" for c s and xs :: "string list"
    using that by (induction s xs rule: join.induct) auto
  then have j: "CHR ''}'' \<notin> set (join s xs)" if "\<And>x. x \<in> set xs \<Longrightarrow> CHR ''}'' \<notin> set x" "CHR ''}'' \<notin> set s" for s and xs :: "string list"
    using that by blast
  have "CHR ''}'' \<notin> set (join '', '' (map byte_literal bs))" for bs
    by (rule j) (use literal_plain in auto)
  then have "CHR ''}'' \<notin> set (join ('','' @ [CHR 0x0A]) (map (\<lambda>bs. CHR 0x09 # join '', '' (map byte_literal bs)) ?rows))"
    by (intro j) auto
  then have b: "CHR ''}'' \<notin> set ?body" by simp
  let ?pre = "''static const uint8_t '' @ name @ ''['' @ macro @ ''] = ''"
  have f: "format_array name data macro = ?pre @ CHR ''{'' # ?body @ CHR ''}'' # '';'' @ [CHR 0x0A]"
    by (simp add: format_array_def array_rows_def m_def o_def)
  have "CHR ''{'' \<notin> set ?pre" using assms(2,3) by simp
  from after_char [OF this]
  have "after_first ''{'' (format_array name data macro) = ?body @ CHR ''}'' # '';'' @ [CHR 0x0A]"
    unfolding f .
  moreover have "takeWhile (\<lambda>c. c \<noteq> CHR ''}'') (?body @ CHR ''}'' # '';'' @ [CHR 0x0A]) = ?body"
    using b by (subst takeWhile_append2) auto
  ultimately show ?thesis using r by (simp add: array_bytes_def o_def)
qed

theorem array_roundtrip_witness:
  "array_bytes (format_array ''k'' [0, 1, 2, 3, 4, 5, 6, 7, 8, 9, 10, 11, 255] ''K_SIZE'') = Inr [0, 1, 2, 3, 4, 5, 6, 7, 8, 9, 10, 11, 255]"
  by (rule array_roundtrip) simp_all

section \<open>The headers\<close>

text \<open>When every operation succeeds and the tests pass, the headers are those of the keys.\<close>

lemma make_keys_ok:
  assumes "kem_keypair_derand lib (sha512 (ascii_bytes ''entropy capsule deterministic ML-KEM-512 lab key v1'')) = (0, pub, priv)"
    and "sig_keypair lib (rng_init sha512 (ascii_bytes ''entropy capsule deterministic ML-DSA-44 lab key v1'')) = ((0, spub, ssec), r1)"
    and "kem_encaps lib r1 pub = ((0, ct, ss), r2)" and "kem_decaps lib ct priv = (0, ss)"
    and "sig_sign lib r2 SELF_TEST ssec = ((0, sg), r3)" and "length sg = MLDSA44_SIG_SIZE" and "sig_verify lib SELF_TEST sg spub = 0"
  shows "make_keys sha512 lib = Inr \<lparr>kem_public = pub, kem_private = priv, mldsa_public = spub, mldsa_secret = ssec\<rparr>"
  unfolding make_keys_def by (simp only: assms Let_def prod.case simp_thms if_False)

text \<open>
  C29: Headers are only written for keys that work. When the program ends normally, the two headers
  are those of one set of keys: the KEM pair made from the seed, and the signature pair made from
  the generator; the private key opened the capsule made for the public key to the same secret; and
  the signature made with the secret key, of the fixed size, verified under the public key.
\<close>

theorem headers_hold_tested_keys:
  assumes "keys_main sha512 lib = Inr (client, server)"
  shows "\<exists>k rng ct ss sig r1 r2 r3.
     client = client_header k \<and> server = server_header k
     \<and> kem_keypair_derand lib (sha512 (ascii_bytes ''entropy capsule deterministic ML-KEM-512 lab key v1'')) = (0, kem_public k, kem_private k)
     \<and> rng = rng_init sha512 (ascii_bytes ''entropy capsule deterministic ML-DSA-44 lab key v1'')
     \<and> sig_keypair lib rng = ((0, mldsa_public k, mldsa_secret k), r1)
     \<and> kem_encaps lib r1 (kem_public k) = ((0, ct, ss), r2) \<and> kem_decaps lib ct (kem_private k) = (0, ss)
     \<and> sig_sign lib r2 SELF_TEST (mldsa_secret k) = ((0, sig), r3) \<and> length sig = MLDSA44_SIG_SIZE
     \<and> sig_verify lib SELF_TEST sig (mldsa_public k) = 0"
  using assms unfolding keys_main_def rbind_eq_Inr
  by (auto simp: make_keys_def Let_def split: if_splits prod.splits)

text \<open>A library of key operations that accepts its own keys, for the examples.\<close>

definition demo_sig :: bytes where "demo_sig = replicate MLDSA44_SIG_SIZE 7"

lemma length_demo_sig: "length demo_sig = MLDSA44_SIG_SIZE"
  by (simp only: demo_sig_def length_replicate)

definition demo_oqs :: oqs where
  "demo_oqs = \<lparr>kem_keypair_derand = (\<lambda>seed. (0, [1], [2])), kem_encaps = (\<lambda>r pub. ((0, [3], [4]), r)),
     kem_decaps = (\<lambda>ct priv. (0, if ct = [3] \<and> priv = [2] then [4] else [])), sig_keypair = (\<lambda>r. ((0, [5], [6]), r)),
     sig_sign = (\<lambda>r m sk. ((0, demo_sig), r)), sig_verify = (\<lambda>m sg pk. if pk = [5] then 0 else 1)\<rparr>"

theorem headers_hold_tested_keys_witness:
  "\<exists>k sg. keys_main (\<lambda>s. replicate 64 0) demo_oqs = Inr (client_header k, server_header k)
     \<and> length sg = MLDSA44_SIG_SIZE \<and> sig_verify demo_oqs SELF_TEST sg (mldsa_public k) = 0"
proof -
  have "make_keys (\<lambda>s. replicate 64 0) demo_oqs = Inr \<lparr>kem_public = [1], kem_private = [2], mldsa_public = [5], mldsa_secret = [6]\<rparr>"
    by (rule make_keys_ok [where ct = "[3]" and ss = "[4]" and sg = demo_sig]) (simp_all only: demo_oqs_def oqs.select_convs length_demo_sig if_True simp_thms)
  then have r: "keys_main (\<lambda>s. replicate 64 0) demo_oqs
      = Inr (client_header \<lparr>kem_public = [1], kem_private = [2], mldsa_public = [5], mldsa_secret = [6]\<rparr>,
          server_header \<lparr>kem_public = [1], kem_private = [2], mldsa_public = [5], mldsa_secret = [6]\<rparr>)"
    by (simp only: keys_main_def rbind_Inr)
  from headers_hold_tested_keys [OF r] show ?thesis unfolding r by blast
qed

end
