(* ===== verification/TebCollect.thy ===== *)
theory TebCollect
  imports PyRun TebLog
begin

text \<open>
  The collector of the capsule experiment's boots (\<open>collect_teb_boot.py\<close>): the build of the
  post-quantum server, the start of a server, the reset and the capture of each boot, and the
  clean-up. Parameters: what each \<open>readline\<close> of the serial port returned, the readings of the two
  clocks, the state of the files, what the tools printed, and what the server did. The console
  output is left out. Facts: the program ends; it cleans up; boots read whole are those the log
  parser returns; what a result line read in two parts does.
\<close>

section \<open>State and environment\<close>

datatype teb_event =
    Tool "string list" | Server_Started "string list" | Server_Terminated | Server_Killed
  | Port_Opened string int | Port_Closed | Input_Reset | Lines_Set bool bool | Waited real

record teb_state =
  c_reads :: "bytes result list"
  c_mono :: nat
  c_wall :: nat
  c_log :: string
  c_events :: "teb_event list"

text \<open>
  \<open>server_ready\<close> are the lines the server prints in its first five seconds; \<open>server_exits\<close>
  tells whether it ends within three seconds of being terminated.
\<close>

record teb_env =
  mono :: "nat \<Rightarrow> real"
  wall :: "nat \<Rightarrow> real"
  file_there :: "string \<Rightarrow> bool"
  file_time :: "string \<Rightarrow> real"
  tool_output :: "string list \<Rightarrow> string result"
  tool_status :: "string list \<Rightarrow> unit result"
  python :: string
  project :: string
  server_spawn :: "string list \<Rightarrow> unit result"
  server_ready :: "string list"
  server_exits :: bool
  port_there :: "unit result"

type_synonym 'a teb = "(teb_state, 'a) prog"

definition note_event :: "teb_event \<Rightarrow> unit teb" where
  "note_event e = tx_do (\<lambda>s. s\<lparr>c_events := c_events s @ [e]\<rparr>)"

definition write_log :: "string \<Rightarrow> unit teb" where
  "write_log t = tx_do (\<lambda>s. s\<lparr>c_log := c_log s @ t\<rparr>)"

definition read_mono :: "teb_env \<Rightarrow> real teb" where
  "read_mono env s = Some (Inr (mono env (c_mono s)), s\<lparr>c_mono := Suc (c_mono s)\<rparr>)"

definition read_wall :: "teb_env \<Rightarrow> real teb" where
  "read_wall env s = Some (Inr (wall env (c_wall s)), s\<lparr>c_wall := Suc (c_wall s)\<rparr>)"

section \<open>The server\<close>

definition ED25519_SERVER :: "teb_env \<Rightarrow> string" where "ED25519_SERVER env = project env @ ''/server/teb_beacon_server.py''"
definition PQ_SERVER_SOURCE :: "teb_env \<Rightarrow> string" where "PQ_SERVER_SOURCE env = project env @ ''/server/teb_pq_beacon_server.c''"
definition PQ_SERVER_BINARY :: "teb_env \<Rightarrow> string" where "PQ_SERVER_BINARY env = project env @ ''/server/teb_pq_beacon_server''"
definition PQ_SERVER_KEYS :: "teb_env \<Rightarrow> string" where "PQ_SERVER_KEYS env = project env @ ''/server/teb_pq_server_keys.h''"

definition pkg_config :: "teb_env \<Rightarrow> string \<Rightarrow> string list teb" where
  "pkg_config env lib =
     (let cmd = [''pkg-config'', ''--cflags'', ''--libs'', lib]
      in tx_then (note_event (Tool cmd)) (tx_bind (tx_lift (tool_output env cmd)) (\<lambda>out. tx_lift (Inr (split_ws out)))))"

definition pq_server_current :: "teb_env \<Rightarrow> bool" where
  "pq_server_current env \<longleftrightarrow> file_there env (PQ_SERVER_BINARY env)
     \<and> list_all (\<lambda>dep. file_time env dep \<le> file_time env (PQ_SERVER_BINARY env)) [PQ_SERVER_SOURCE env, PQ_SERVER_KEYS env]"

definition build_pq_server :: "teb_env \<Rightarrow> string teb" where
  "build_pq_server env =
     (if \<not> file_there env (PQ_SERVER_KEYS env) then
        tx_lift (Inl (RuntimeError (''missing '' @ PQ_SERVER_KEYS env @ ''; run scripts/generate_pq_keys.py first'')))
      else if pq_server_current env then tx_lift (Inr (PQ_SERVER_BINARY env))
      else
        tx_bind (pkg_config env ''liboqs'') (\<lambda>liboqs.
        tx_bind (pkg_config env ''openssl'') (\<lambda>openssl.
        (let cmd = [''gcc'', ''-O2'', ''-Wall'', ''-Wextra'', ''-std=c11'', ''-o'', PQ_SERVER_BINARY env, PQ_SERVER_SOURCE env]
               @ liboqs @ openssl
         in tx_then (note_event (Tool cmd))
              (tx_bind (tx_lift (tool_status env cmd)) (\<lambda>_. tx_lift (Inr (PQ_SERVER_BINARY env))))))))"

definition server_command :: "teb_env \<Rightarrow> string \<Rightarrow> string \<Rightarrow> int \<Rightarrow> string list teb" where
  "server_command env profile bind_addr port =
     (let tail = [''--bind'', bind_addr, ''--port'', str_of_int port]
      in if profile = ''ed25519'' then tx_lift (Inr ([python env, ED25519_SERVER env] @ tail))
         else if profile = ''pq'' then tx_bind (build_pq_server env) (\<lambda>server. tx_lift (Inr (server # tail)))
         else tx_lift (Inl ValueError))"

definition start_server :: "teb_env \<Rightarrow> string \<Rightarrow> string \<Rightarrow> int \<Rightarrow> unit teb" where
  "start_server env profile bind_addr port =
     tx_bind (server_command env profile bind_addr port) (\<lambda>cmd.
     tx_bind (tx_lift (server_spawn env cmd)) (\<lambda>_.
     tx_then (note_event (Server_Started cmd))
       (if list_ex (\<lambda>l. startswith l ''[TEB_SERVER] bind,'') (server_ready env) then tx_lift (Inr ())
        else tx_then (note_event Server_Terminated) (tx_lift (Inl (RuntimeError ''capsule server did not start''))))))"

definition stop_server :: "teb_env \<Rightarrow> unit teb" where
  "stop_server env = tx_then (note_event Server_Terminated) (if server_exits env then tx_lift (Inr ()) else note_event Server_Killed)"

section \<open>A boot\<close>

definition set_lines :: "bool \<Rightarrow> bool \<Rightarrow> unit teb" where
  "set_lines dtr rts = note_event (Lines_Set dtr rts)"

definition reset_to_run_mode :: "unit teb" where
  "reset_to_run_mode =
     tx_then (set_lines False True) (tx_then (note_event (Waited (12 / 100)))
       (tx_then (set_lines False False) (note_event (Waited (12 / 100)))))"

definition ends_run :: "string \<Rightarrow> bool" where
  "ends_run line \<longleftrightarrow> startswith line ''[TEB_RESULT]'' \<or> startswith line ''[TEB_ERR] request_capsule''"

text \<open>
  A \<open>readline\<close> that times out returns what has arrived so far, possibly nothing; a port that is
  gone raises. Once the observed reads are used up the line stays silent.
\<close>

definition next_read :: "teb_state \<Rightarrow> bytes result" where
  "next_read s = (case c_reads s of [] \<Rightarrow> Inr [] | r # _ \<Rightarrow> r)"

text \<open>The reading of the clock in the loop's condition, the read, and the line written to the log.\<close>

definition after_read :: "bytes \<Rightarrow> teb_state \<Rightarrow> teb_state" where
  "after_read raw s = s\<lparr>c_mono := Suc (c_mono s), c_reads := tl (c_reads s), c_log := c_log s @ decode_utf8 raw\<rparr>"

partial_function (option) capture_loop :: "teb_env \<Rightarrow> real \<Rightarrow> teb_state \<Rightarrow> (bool result \<times> teb_state) option" where
  "capture_loop env deadline s =
     (if mono env (c_mono s) < deadline then
        (case next_read s of
           Inl e \<Rightarrow> Some (Inl e, after_read [] s)
         | Inr raw \<Rightarrow>
             if raw = [] then capture_loop env deadline (after_read raw s)
             else if ends_run (decode_utf8 raw) then Some (Inr True, after_read raw s)
             else capture_loop env deadline (after_read raw s))
      else Some (Inr False, s\<lparr>c_mono := Suc (c_mono s)\<rparr>))"

definition host_line :: "string \<Rightarrow> int \<Rightarrow> string \<Rightarrow> real \<Rightarrow> string" where
  "host_line what run info t = ''[HOST_RUN] '' @ what @ '','' @ str_of_int run @ '','' @ info @ '','' @ fmt_fixed 3 t @ [CHR 0x0A]"

definition teb_capture_run :: "teb_env \<Rightarrow> int \<Rightarrow> real \<Rightarrow> string \<Rightarrow> bool teb" where
  "teb_capture_run env run timeout_s reset =
     tx_bind (read_wall env) (\<lambda>t0.
     tx_then (write_log (host_line ''start'' run reset t0))
     (tx_then (if reset = ''rts'' then reset_to_run_mode
               else if reset = ''manual'' \<or> reset = ''none'' then tx_lift (Inr ())
               else tx_lift (Inl ValueError))
     (tx_bind (read_mono env) (\<lambda>now.
      tx_bind (capture_loop env (now + timeout_s)) (\<lambda>saw_result.
      tx_bind (read_wall env) (\<lambda>t1.
      tx_then (write_log (host_line ''end'' run (if saw_result then ''1'' else ''0'') t1)) (tx_lift (Inr saw_result))))))))"

section \<open>The program\<close>

record teb_args =
  ta_port :: string
  ta_baud :: int
  ta_runs :: int
  ta_timeout :: real
  ta_reset :: string
  ta_bind :: string
  ta_server_port :: int
  ta_profile :: string
  ta_no_server :: bool

fun capture_runs :: "teb_env \<Rightarrow> teb_args \<Rightarrow> int list \<Rightarrow> unit teb" where
  "capture_runs env args [] = tx_lift (Inr ())"
| "capture_runs env args (run # rs) =
     tx_bind (teb_capture_run env run (ta_timeout args) (ta_reset args)) (\<lambda>_.
     tx_then (note_event (Waited 1)) (capture_runs env args rs))"

definition collect_boots :: "teb_env \<Rightarrow> teb_args \<Rightarrow> unit teb" where
  "collect_boots env args =
     tx_bind (tx_lift (port_there env)) (\<lambda>_.
     tx_then (note_event (Port_Opened (ta_port args) (ta_baud args)))
       (tx_finally (tx_then (note_event Input_Reset) (capture_runs env args (map int [1..<Suc (nat (ta_runs args))])))
          (note_event Port_Closed)))"

definition teb_collect_main :: "teb_env \<Rightarrow> teb_args \<Rightarrow> int teb" where
  "teb_collect_main env args =
     tx_then (if ta_no_server args then tx_lift (Inr ()) else start_server env (ta_profile args) (ta_bind args) (ta_server_port args))
     (tx_then (tx_finally (collect_boots env args) (if ta_no_server args then tx_lift (Inr ()) else stop_server env))
       (tx_lift (Inr 0)))"

definition teb_begin :: "bytes result list \<Rightarrow> teb_state" where
  "teb_begin reads = \<lparr>c_reads = reads, c_mono = 0, c_wall = 0, c_log = [], c_events = []\<rparr>"


section \<open>The loop\<close>

lemmas tc_run = tx_bind_def tx_steps note_event_def write_log_def read_mono_def read_wall_def set_lines_def

text \<open>The guard of the loop holds at its readings \<open>k\<close> to \<open>k + n - 1\<close>.\<close>

definition guards_hold :: "teb_env \<Rightarrow> real \<Rightarrow> nat \<Rightarrow> nat \<Rightarrow> bool" where
  "guards_hold env deadline k n \<longleftrightarrow> (\<forall>j < n. mono env (k + j) < deadline)"

definition quiet :: "bytes \<Rightarrow> bool" where
  "quiet raw \<longleftrightarrow> raw = [] \<or> \<not> ends_run (decode_utf8 raw)"

lemma capture_loop_ends:
  assumes "list_all quiet rs" and "z \<noteq> []" and "ends_run (decode_utf8 z)"
    and "guards_hold env deadline (c_mono s) (Suc (length rs))" and "c_reads s = map Inr (rs @ [z]) @ rest"
  shows "capture_loop env deadline s = Some (Inr True,
    s\<lparr>c_mono := c_mono s + Suc (length rs), c_reads := rest, c_log := c_log s @ concat (map decode_utf8 (rs @ [z]))\<rparr>)"
  using assms
proof (induction rs arbitrary: s)
  case Nil
  then show ?case by (subst capture_loop.simps) (simp add: guards_hold_def next_read_def after_read_def)
next
  case (Cons r rs)
  have g: "mono env (c_mono s) < deadline" using Cons.prems(4) by (auto simp: guards_hold_def)
  have "guards_hold env deadline (Suc (c_mono s)) (Suc (length rs))"
    unfolding guards_hold_def
  proof (intro allI impI)
    fix j assume "j < Suc (length rs)"
    then show "mono env (Suc (c_mono s) + j) < deadline"
      using Cons.prems(4) unfolding guards_hold_def by (auto dest!: spec [of _ "Suc j"])
  qed
  then have "capture_loop env deadline (after_read r s) = Some (Inr True, (after_read r s)
      \<lparr>c_mono := c_mono (after_read r s) + Suc (length rs), c_reads := rest,
       c_log := c_log (after_read r s) @ concat (map decode_utf8 (rs @ [z]))\<rparr>)"
    using Cons.prems by (intro Cons.IH) (simp_all add: after_read_def)
  moreover have "capture_loop env deadline s = capture_loop env deadline (after_read r s)"
    using Cons.prems(1,5) g by (subst capture_loop.simps) (auto simp: next_read_def quiet_def)
  ultimately show ?case by (simp add: after_read_def)
qed

text \<open>Under a clock that passes every value the loop ends.\<close>

definition mono_runs :: "teb_env \<Rightarrow> bool" where
  "mono_runs env \<longleftrightarrow> (\<forall>t k. \<exists>j \<ge> k. t \<le> mono env j)"

lemma capture_loop_total:
  assumes "mono_runs env"
  shows "\<exists>r t. capture_loop env deadline s = Some (r, t)"
proof -
  obtain j where j: "c_mono s \<le> j" "deadline \<le> mono env j" using assms unfolding mono_runs_def by blast
  from j show ?thesis
  proof (induction "j - c_mono s" arbitrary: s)
    case 0
    then have "j = c_mono s" by simp
    with 0 show ?case by (subst capture_loop.simps) simp
  next
    case (Suc n)
    have "\<exists>r t. capture_loop env deadline (after_read raw s) = Some (r, t)" for raw
      using Suc.hyps(2) Suc.prems by (intro Suc.hyps(1)) (simp_all add: after_read_def)
    then show ?case by (subst capture_loop.simps) (simp split: sum.split)
  qed
qed

lemma capture_loop_events:
  assumes "capture_loop env deadline s = Some (r, t)"
  shows "c_events t = c_events s"
  by (rule capture_loop.raw_induct
      [where P = "\<lambda>env deadline s p. c_events (snd p) = c_events s", OF _ assms, simplified])
    (auto simp: after_read_def split: if_splits sum.splits)


section \<open>The program always ends\<close>

definition ends_always :: "('s, 'a) prog \<Rightarrow> bool" where
  "ends_always m \<longleftrightarrow> (\<forall>s. \<exists>r t. m s = Some (r, t))"

lemma ends_intros:
  "ends_always m \<Longrightarrow> (\<And>x. ends_always (f x)) \<Longrightarrow> ends_always (tx_bind m f)"
  "ends_always (tx_lift r)" "ends_always (tx_do g)" "ends_always (note_event e)" "ends_always (write_log l)"
  "ends_always (read_mono env)" "ends_always (read_wall env)" "ends_always b \<Longrightarrow> ends_always c \<Longrightarrow> ends_always (tx_finally b c)"
proof -
  show "ends_always b \<Longrightarrow> ends_always c \<Longrightarrow> ends_always (tx_finally b c)"
    unfolding ends_always_def tx_finally_def
    by (clarsimp split: option.split prod.split sum.split) (metis option.distinct(1) option.inject prod.inject)
  show "ends_always m \<Longrightarrow> (\<And>x. ends_always (f x)) \<Longrightarrow> ends_always (tx_bind m f)"
    unfolding ends_always_def tx_bind_def by (fastforce split: option.splits prod.splits sum.splits)
qed (auto simp: ends_always_def tc_run)

lemma ends_loop: "mono_runs env \<Longrightarrow> ends_always (capture_loop env d)"
  using capture_loop_total by (simp add: ends_always_def)

lemma ends_run_of:
  assumes "mono_runs env"
  shows "ends_always (capture_runs env args ns)"
proof (induction ns)
  case (Cons n ns)
  then show ?case
    by (auto simp: teb_capture_run_def reset_to_run_mode_def set_lines_def intro!: ends_intros ends_loop [OF assms])
qed (simp add: ends_intros)

lemma ends_server: "ends_always (start_server env p b n)" "ends_always (stop_server env)"
  by (auto simp: start_server_def stop_server_def server_command_def build_pq_server_def pkg_config_def Let_def intro!: ends_intros)

text \<open>
  C34: The collector always ends. Under a monotonic clock that passes every value, whatever the
  serial port delivers or fails to deliver and whatever the tools and the server do, the program
  comes to an outcome: a boot that never prints its result costs its timeout and no more.
\<close>

theorem collector_ends:
  assumes "mono_runs env"
  shows "\<exists>r t. teb_collect_main env args s = Some (r, t)"
proof -
  have "ends_always (teb_collect_main env args)"
    unfolding teb_collect_main_def collect_boots_def
    by (auto intro!: ends_intros ends_server ends_run_of assms)
  then show ?thesis by (simp add: ends_always_def)
qed

section \<open>The server is stopped\<close>

text \<open>Whether a server is left behind by the events, when it does or does not end in time.\<close>

fun server_up :: "bool \<Rightarrow> bool \<Rightarrow> teb_event list \<Rightarrow> bool" where
  "server_up exits up [] = up"
| "server_up exits up (Server_Started c # es) = server_up exits True es"
| "server_up exits up (Server_Terminated # es) = server_up exits (up \<and> \<not> exits) es"
| "server_up exits up (Server_Killed # es) = server_up exits False es"
| "server_up exits up (e # es) = server_up exits up es"

lemma server_up_append [simp]: "server_up x up (es @ fs) = server_up x (server_up x up es) fs"
  by (induction x up es rule: server_up.induct) simp_all

text \<open>Whether the port is open after the events.\<close>

fun port_up :: "bool \<Rightarrow> teb_event list \<Rightarrow> bool" where
  "port_up up [] = up"
| "port_up up (Port_Opened p b # es) = port_up True es"
| "port_up up (Port_Closed # es) = port_up False es"
| "port_up up (e # es) = port_up up es"

lemma port_up_append [simp]: "port_up up (es @ fs) = port_up (port_up up es) fs"
  by (induction up es rule: port_up.induct) simp_all

text \<open>A step that leaves the server and the port as they are.\<close>

definition undisturbed :: "teb_env \<Rightarrow> 'a teb \<Rightarrow> bool" where
  "undisturbed env m \<longleftrightarrow> (\<forall>s r t. m s = Some (r, t) \<longrightarrow>
     server_up (server_exits env) False (c_events t) = server_up (server_exits env) False (c_events s)
     \<and> port_up False (c_events t) = port_up False (c_events s))"

lemma steady_bind: "undisturbed env m \<Longrightarrow> (\<And>x. undisturbed env (f x)) \<Longrightarrow> undisturbed env (tx_bind m f)"
  unfolding undisturbed_def tx_bind_cases by fastforce

lemma steady_steps:
  "undisturbed env (tx_lift r)" "undisturbed env (write_log l)" "undisturbed env (read_mono env')" "undisturbed env (read_wall env')"
  "undisturbed env (note_event (Tool c))" "undisturbed env (note_event Input_Reset)" "undisturbed env (note_event (Lines_Set a b))"
  "undisturbed env (note_event (Waited x))" "undisturbed env (capture_loop env' d)"
  by (auto simp: undisturbed_def tc_run dest: capture_loop_events)

lemma steady_runs: "undisturbed env (capture_runs env args ns)"
  by (induction ns) (auto simp: teb_capture_run_def reset_to_run_mode_def set_lines_def intro!: steady_bind steady_steps)

lemma steady_build: "undisturbed env (server_command env p b n)"
  by (auto simp: server_command_def build_pq_server_def pkg_config_def Let_def intro!: steady_bind steady_steps)

lemma note_step: "note_event e s = Some (Inr (), s\<lparr>c_events := c_events s @ [e]\<rparr>)"
  by (simp add: note_event_def tx_steps)

lemma collect_boots_releases:
  assumes "collect_boots env args s = Some (r, t)" and "\<not> port_up False (c_events s)"
  shows "\<not> port_up False (c_events t)
    \<and> server_up (server_exits env) False (c_events t) = server_up (server_exits env) False (c_events s)"
proof (cases "port_there env")
  case (Inl e)
  then show ?thesis using assms by (simp add: collect_boots_def tx_bind_def tx_steps)
next
  case (Inr u)
  define m where "m = tx_then (note_event Input_Reset) (capture_runs env args (map int [1..<Suc (nat (ta_runs args))]))"
  define v where "v = s\<lparr>c_events := c_events s @ [Port_Opened (ta_port args) (ta_baud args)]\<rparr>"
  have "tx_finally m (note_event Port_Closed) v = Some (r, t)"
    using assms(1) Inr unfolding collect_boots_def m_def [symmetric] by (simp add: tx_bind_def tx_steps note_step v_def)
  then obtain w where w: "m v = Some (r, w)" and t: "t = w\<lparr>c_events := c_events w @ [Port_Closed]\<rparr>"
    by (auto simp: tx_finally_def note_step split: option.splits)
  have "undisturbed env m" unfolding m_def by (intro steady_bind steady_steps steady_runs)
  with w have "server_up (server_exits env) False (c_events w) = server_up (server_exits env) False (c_events v)"
    unfolding undisturbed_def by blast
  then show ?thesis by (simp add: t v_def)
qed

definition NOT_STARTED :: py_error where "NOT_STARTED = RuntimeError ''capsule server did not start''"

lemma start_server_up:
  assumes "start_server env p b n s = Some (r, t)" and "\<not> port_up False (c_events s)"
    and "\<not> server_up (server_exits env) False (c_events s)"
  shows "\<not> port_up False (c_events t) \<and> (ok r \<or> \<not> server_up (server_exits env) False (c_events t) \<or> r = Inl NOT_STARTED \<and> \<not> server_exits env)"
proof -
  obtain r' u where u: "server_command env p b n s = Some (r', u)"
    using assms(1) by (cases "server_command env p b n s") (auto simp: start_server_def tx_bind_def)
  with steady_build [of env p b n] assms(2,3)
  have up: "\<not> port_up False (c_events u)" "\<not> server_up (server_exits env) False (c_events u)"
    unfolding undisturbed_def by blast+
  show ?thesis
    using assms(1) up u
    by (auto simp: start_server_def tx_bind_def tx_steps note_step NOT_STARTED_def ok_iff
        split: sum.splits if_splits dest: sym)
qed



section \<open>What the collector adds to the log\<close>

abbreviation spaceless :: "string \<Rightarrow> bool" where
  "spaceless \<equiv> list_all (\<lambda>c. \<not> is_space c)"

lemma spaceless_nat: "spaceless (nat_text 10 n)"
  using nat_text_digits [of 10 n] by (auto simp: all_digits_def list_all_iff dest: digit_not_space)

lemma sign_not_space: "\<not> is_space CHR ''-''" "\<not> is_space CHR ''0''" "\<not> is_space CHR ''.''"
  by (simp_all add: is_space_def code_def)

lemma spaceless_int: "spaceless (str_of_int i)"
  by (simp add: str_of_int_def str_of_nat_def spaceless_nat sign_not_space)

lemma spaceless_fixed: "spaceless (fmt_fixed d x)" "d \<noteq> 0 \<Longrightarrow> fmt_fixed d x \<noteq> []"
proof -
  have "spaceless (fmt_dec w n)" for w n
    by (auto simp: fmt_dec_def zpad_def spaceless_nat sign_not_space list_all_iff [of _ "replicate _ _"])
  then have "spaceless (take k (fmt_dec w n)) \<and> spaceless (drop k (fmt_dec w n))" for k w n
    unfolding list_all_iff by (meson in_set_takeD in_set_dropD)
  then show "spaceless (fmt_fixed d x)" by (simp add: fmt_fixed_def Let_def sign_not_space)
  show "d \<noteq> 0 \<Longrightarrow> fmt_fixed d x \<noteq> []" by (simp add: fmt_fixed_def Let_def)
qed

lemma spaceless_unbroken: "spaceless s \<Longrightarrow> unbroken s"
  by (erule list.pred_mono_strong) (auto simp: is_space_def is_line_break_def Let_def)

lemma spaceless_last: "spaceless s \<Longrightarrow> s \<noteq> [] \<Longrightarrow> \<not> is_space (last s)"
  by (simp add: list_all_iff)

definition host_body :: "string \<Rightarrow> int \<Rightarrow> string \<Rightarrow> real \<Rightarrow> string" where
  "host_body what run info t = ''HOST_RUN] '' @ what @ '','' @ str_of_int run @ '','' @ info @ '','' @ fmt_fixed 3 t"

lemma host_line_body: "host_line what run info t = (CHR ''['' # host_body what run info t) @ [CHR 0x0A]"
  by (simp add: host_line_def host_body_def)

lemma host_body_clean:
  assumes "spaceless what" and "spaceless info"
  shows "unbroken (host_body what run info t)" and "host_body what run info t \<noteq> []"
    and "\<not> is_space (last (host_body what run info t))"
proof -
  have u: "unbroken what" "unbroken info" "unbroken (str_of_int run)" "unbroken (fmt_fixed 3 t)"
    by (auto intro: spaceless_unbroken assms spaceless_int spaceless_fixed)
  show "unbroken (host_body what run info t)"
    by (simp add: host_body_def u) (simp add: is_line_break_def code_def)
  show "host_body what run info t \<noteq> []" by (simp add: host_body_def)
  have "last (host_body what run info t) = last (fmt_fixed 3 t)"
    by (simp add: host_body_def spaceless_fixed)
  then show "\<not> is_space (last (host_body what run info t))"
    by (simp add: spaceless_last spaceless_fixed)
qed

lemma parse_host_line:
  assumes "spaceless what" and "spaceless info" and "current st = []"
  shows "parse_line (CHR ''['' # host_body what run info t) st = st"
proof -
  have "strip (CHR ''['' # host_body what run info t) = CHR ''['' # host_body what run info t"
    using host_body_clean [OF assms(1,2)] by (intro strip_clean) (simp_all add: is_space_def code_def)
  then show ?thesis using assms(3) by (simp add: parse_line_def Let_def)
qed

section \<open>One boot\<close>

text \<open>
  The reads of a boot: its lines whole, in order, with reads that timed out empty anywhere before
  the last.
\<close>

definition boot_reads :: "boot \<Rightarrow> bytes list \<Rightarrow> bool" where
  "boot_reads b rs \<longleftrightarrow> rs \<noteq> [] \<and> last rs \<noteq> []
     \<and> map decode_utf8 (filter (\<lambda>r. r \<noteq> []) rs) = map (\<lambda>l. l @ [CHR 0x0A]) (boot_lines b)"

lemma decode_filter: "concat (map decode_utf8 rs) = concat (map decode_utf8 (filter (\<lambda>r. r \<noteq> []) rs))"
  by (induction rs) simp_all

lemma quiet_lines:
  assumes "plain_boot b" and "map decode_utf8 (filter (\<lambda>r. r \<noteq> []) rs) =
    map (\<lambda>l. l @ [CHR 0x0A]) (''Asymmetric Entropy Capsule Bootstrap'' # map pair_line (fst b))"
  shows "list_all quiet rs"
proof -
  have p: "\<not> ends_run (pair_line p @ [CHR 0x0A])" if "p \<in> set (fst b)" for p
  proof -
    obtain tag k v where t: "p = (tag, k, v)" by (cases p)
    then have "tag \<in> set TAGS" using assms(1) that by (auto simp: plain_boot_def list_all_iff plain_pair_def)
    then show ?thesis by (auto simp: t TAGS_def pair_line_def ends_run_def startswith_Cons)
  qed
  have "\<not> ends_run (decode_utf8 r)" if "r \<in> set rs" "r \<noteq> []" for r
  proof -
    have "decode_utf8 r \<in> set (map decode_utf8 (filter (\<lambda>r. r \<noteq> []) rs))" using that by simp
    then show ?thesis
      unfolding assms(2) using p by (auto simp: ends_run_def startswith_Cons)
  qed
  then show ?thesis by (auto simp: list_all_iff quiet_def)
qed

lemma boot_reads_split:
  assumes "plain_boot b" and "boot_reads b rs"
  obtains qs z where "rs = qs @ [z]" and "z \<noteq> []" and "ends_run (decode_utf8 z)" and "list_all quiet qs"
    and "concat (map decode_utf8 rs) = boots_text [b]"
proof -
  obtain qs z where rs: "rs = qs @ [z]" "z \<noteq> []"
    using assms(2) unfolding boot_reads_def by (metis append_butlast_last_id)
  have m: "map decode_utf8 (filter (\<lambda>r. r \<noteq> []) qs) @ [decode_utf8 z] =
      map (\<lambda>l. l @ [CHR 0x0A]) (''Asymmetric Entropy Capsule Bootstrap'' # map pair_line (fst b))
        @ [(''[TEB_RESULT] '' @ snd b) @ [CHR 0x0A]]"
    using assms(2) rs unfolding boot_reads_def boot_lines_def by simp
  then have "map decode_utf8 (filter (\<lambda>r. r \<noteq> []) qs) =
      map (\<lambda>l. l @ [CHR 0x0A]) (''Asymmetric Entropy Capsule Bootstrap'' # map pair_line (fst b))"
    and z: "decode_utf8 z = (''[TEB_RESULT] '' @ snd b) @ [CHR 0x0A]"
    unfolding append1_eq_conv by blast+
  moreover from z have "ends_run (decode_utf8 z)" by (simp add: ends_run_def startswith_Cons)
  moreover have "concat (map decode_utf8 rs) = boots_text [b]"
    using assms(2) unfolding boot_reads_def boots_text_def by (simp add: decode_filter [of rs])
  ultimately show thesis using that [of qs z] rs quiet_lines [OF assms(1)] by blast
qed

text \<open>A boot that is read in time.\<close>

definition reset_modes :: "string list" where "reset_modes = [''rts'', ''manual'', ''none'']"

definition after_boot :: "teb_env \<Rightarrow> int \<Rightarrow> string \<Rightarrow> bytes list \<Rightarrow> teb_state \<Rightarrow> teb_state \<Rightarrow> bool" where
  "after_boot env run reset rs s t \<longleftrightarrow> c_mono t = Suc (c_mono s + length rs) \<and> c_wall t = c_wall s + 2
     \<and> c_log t = c_log s @ host_line ''start'' run reset (wall env (c_wall s)) @ concat (map decode_utf8 rs)
         @ host_line ''end'' run ''1'' (wall env (Suc (c_wall s)))"

lemma reset_runs:
  assumes "reset \<in> set reset_modes"
  obtains es where "(if reset = ''rts'' then reset_to_run_mode
     else if reset = ''manual'' \<or> reset = ''none'' then tx_lift (Inr ()) else tx_lift (Inl ValueError)) s
     = Some (Inr (), s\<lparr>c_events := c_events s @ es\<rparr>)"
proof (cases "reset = ''rts''")
  case True
  show thesis
    by (rule that [of "[Lines_Set False True, Waited (12 / 100), Lines_Set False False, Waited (12 / 100)]"])
      (simp add: True reset_to_run_mode_def set_lines_def note_step tx_bind_def)
next
  case False
  then have "reset = ''manual'' \<or> reset = ''none''" using assms by (auto simp: reset_modes_def)
  with False show thesis by (intro that [of "[]"]) (simp add: tx_steps)
qed

lemma capture_run_ends:
  assumes "reset \<in> set reset_modes" and "list_all quiet qs" and "z \<noteq> []" and "ends_run (decode_utf8 z)"
    and "guards_hold env (mono env (c_mono s) + timeout) (Suc (c_mono s)) (Suc (length qs))"
    and "c_reads s = map Inr (qs @ [z]) @ rest"
  shows "\<exists>t. teb_capture_run env run timeout reset s = Some (Inr True, t) \<and> c_reads t = rest \<and> after_boot env run reset (qs @ [z]) s t"
proof -
  define m where "m = (if reset = ''rts'' then reset_to_run_mode
     else if reset = ''manual'' \<or> reset = ''none'' then tx_lift (Inr ()) else tx_lift (Inl ValueError))"
  define s1 where "s1 = s\<lparr>c_wall := Suc (c_wall s), c_log := c_log s @ host_line ''start'' run reset (wall env (c_wall s))\<rparr>"
  obtain es where m: "m s1 = Some (Inr (), s1\<lparr>c_events := c_events s1 @ es\<rparr>)"
    using reset_runs [OF assms(1), of s1] unfolding m_def by blast
  define s2 where "s2 = s1\<lparr>c_events := c_events s1 @ es, c_mono := Suc (c_mono s)\<rparr>"
  define s3 where "s3 = s2\<lparr>c_mono := c_mono s2 + Suc (length qs), c_reads := rest, c_log := c_log s2 @ concat (map decode_utf8 (qs @ [z]))\<rparr>"
  define s4 where "s4 = s3\<lparr>c_wall := Suc (c_wall s3), c_log := c_log s3 @ host_line ''end'' run ''1'' (wall env (c_wall s3))\<rparr>"
  have l: "capture_loop env (mono env (c_mono s) + timeout) s2 = Some (Inr True, s3)"
    unfolding s3_def using assms(2-6) by (intro capture_loop_ends) (simp_all add: s2_def s1_def)
  have "read_wall env s = Some (Inr (wall env (c_wall s)), s\<lparr>c_wall := Suc (c_wall s)\<rparr>)"
    by (simp add: read_wall_def)
  moreover have "write_log (host_line ''start'' run reset (wall env (c_wall s))) (s\<lparr>c_wall := Suc (c_wall s)\<rparr>) = Some (Inr (), s1)"
    by (simp add: write_log_def tx_steps s1_def)
  moreover have "read_mono env (s1\<lparr>c_events := c_events s1 @ es\<rparr>) = Some (Inr (mono env (c_mono s)), s2)"
    by (simp add: read_mono_def s2_def s1_def)
  moreover have "tx_bind (read_wall env) (\<lambda>t1. tx_then (write_log (host_line ''end'' run (if True then ''1'' else ''0'') t1)) (tx_lift (Inr True))) s3
      = Some (Inr True, s4)"
    by (simp add: tx_bind_def read_wall_def write_log_def tx_steps s4_def)
  ultimately have "teb_capture_run env run timeout reset s = Some (Inr True, s4)"
    unfolding teb_capture_run_def m_def [symmetric] using m l by (simp only: tx_bind_run)
  moreover have "after_boot env run reset (qs @ [z]) s s4" "c_reads s4 = rest"
    by (simp_all add: after_boot_def s4_def s3_def s2_def s1_def)
  ultimately show ?thesis by blast
qed


section \<open>A series of boots\<close>

text \<open>
  The reads of each run arrive before its timeout: run by run, the readings of the clock at which
  the loop goes on lie before the deadline that the first reading of the run sets.
\<close>

fun runs_in_time :: "teb_env \<Rightarrow> real \<Rightarrow> nat \<Rightarrow> nat list \<Rightarrow> bool" where
  "runs_in_time env timeout k [] \<longleftrightarrow> True"
| "runs_in_time env timeout k (n # ns) \<longleftrightarrow>
     guards_hold env (mono env k + timeout) (Suc k) n \<and> runs_in_time env timeout (Suc (k + n)) ns"

text \<open>The log that the collector writes for runs with the given texts.\<close>

fun logged_runs :: "teb_env \<Rightarrow> string \<Rightarrow> nat \<Rightarrow> nat \<Rightarrow> string list \<Rightarrow> string" where
  "logged_runs env reset w n [] = []"
| "logged_runs env reset w n (t # ts) = host_line ''start'' (int n) reset (wall env w) @ t
     @ host_line ''end'' (int n) ''1'' (wall env (Suc w)) @ logged_runs env reset (w + 2) (Suc n) ts"

text \<open>The reads of a run: quiet ones and a last one that ends it.\<close>

definition run_reads :: "bytes list \<Rightarrow> bool" where
  "run_reads rs \<longleftrightarrow> rs \<noteq> [] \<and> last rs \<noteq> [] \<and> ends_run (decode_utf8 (last rs)) \<and> list_all quiet (butlast rs)"

lemma capture_runs_end:
  assumes "ta_reset args \<in> set reset_modes" and "list_all run_reads rss"
    and "runs_in_time env (ta_timeout args) (c_mono s) (map length rss)" and "c_reads s = map Inr (concat rss) @ rest"
  shows "\<exists>t. capture_runs env args (map int [n..<n + length rss]) s = Some (Inr (), t) \<and> c_reads t = rest
    \<and> c_log t = c_log s @ logged_runs env (ta_reset args) (c_wall s) n (map (\<lambda>rs. concat (map decode_utf8 rs)) rss)"
  using assms(2-)
proof (induction rss arbitrary: s n)
  case Nil
  then show ?case by (simp add: tx_steps)
next
  case (Cons rs rss)
  let ?m = "teb_capture_run env (int n) (ta_timeout args) (ta_reset args)"
  obtain qs z where rs: "rs = qs @ [z]" "z \<noteq> []" "ends_run (decode_utf8 z)" "list_all quiet qs"
    using Cons.prems(1) unfolding run_reads_def by (cases rs rule: rev_cases) auto
  have "\<exists>t. ?m s = Some (Inr True, t) \<and> c_reads t = map Inr (concat rss) @ rest
      \<and> after_boot env (int n) (ta_reset args) (qs @ [z]) s t"
    using Cons.prems(2,3) rs by (intro capture_run_ends [OF assms(1) rs(4,2,3)]) simp_all
  then obtain t where t: "?m s = Some (Inr True, t)" "c_reads t = map Inr (concat rss) @ rest"
    "after_boot env (int n) (ta_reset args) rs s t"
    unfolding rs(1) by blast
  define u where "u = t\<lparr>c_events := c_events t @ [Waited 1]\<rparr>"
  have "runs_in_time env (ta_timeout args) (c_mono u) (map length rss)" "c_reads u = map Inr (concat rss) @ rest"
    using Cons.prems(2) t(2,3) by (simp_all add: u_def after_boot_def)
  then obtain v where v: "capture_runs env args (map int [Suc n..<Suc n + length rss]) u = Some (Inr (), v)" "c_reads v = rest"
    "c_log v = c_log u @ logged_runs env (ta_reset args) (c_wall u) (Suc n) (map (\<lambda>rs. concat (map decode_utf8 rs)) rss)"
    using Cons.IH [of u "Suc n"] Cons.prems(1) by auto
  have "[n..<n + length (rs # rss)] = n # [Suc n..<Suc n + length rss]"
    by (simp add: upt_conv_Cons del: upt_Suc)
  then have "capture_runs env args (map int [n..<n + length (rs # rss)]) s = Some (Inr (), v)"
    using v(1) by (simp add: tx_bind_run [of ?m, OF t(1)] tx_bind_run [of "note_event (Waited 1)" t "()" u]
        note_step u_def [symmetric] del: upt_Suc)
  then show ?case
    using v(2,3) t(3) by (simp add: u_def after_boot_def)
qed

text \<open>The port is there, and a server, when one is wanted, starts.\<close>

definition server_starts :: "teb_env \<Rightarrow> teb_args \<Rightarrow> bool" where
  "server_starts env args \<longleftrightarrow> list_ex (\<lambda>l. startswith l ''[TEB_SERVER] bind,'') (server_ready env)
     \<and> ((ta_profile args = ''ed25519''
           \<and> ok (server_spawn env [python env, ED25519_SERVER env, ''--bind'', ta_bind args, ''--port'', str_of_int (ta_server_port args)]))
        \<or> (ta_profile args = ''pq'' \<and> file_there env (PQ_SERVER_KEYS env) \<and> pq_server_current env
           \<and> ok (server_spawn env [PQ_SERVER_BINARY env, ''--bind'', ta_bind args, ''--port'', str_of_int (ta_server_port args)])))"

definition set_up :: "teb_env \<Rightarrow> teb_args \<Rightarrow> bool" where
  "set_up env args \<longleftrightarrow> ok (port_there env) \<and> ta_reset args \<in> set reset_modes \<and> (ta_no_server args \<or> server_starts env args)"

lemma bind_steps:
  "tx_bind (tx_lift (Inr x)) f s = f x s" "tx_then (note_event e) m s = m (s\<lparr>c_events := c_events s @ [e]\<rparr>)"
  by (simp_all add: tx_bind_def tx_steps note_step)

lemma start_server_runs:
  assumes "server_starts env args"
  shows "\<exists>es. start_server env (ta_profile args) (ta_bind args) (ta_server_port args) s
    = Some (Inr (), s\<lparr>c_events := c_events s @ es\<rparr>)"
  using assms
  by (auto simp: server_starts_def start_server_def server_command_def build_pq_server_def tx_bind_def tx_steps note_step ok_iff)

lemma stop_server_runs: "\<exists>es. stop_server env s = Some (Inr (), s\<lparr>c_events := es\<rparr>)"
  by (auto simp: stop_server_def tx_bind_def tx_steps note_step)

lemma collector_runs:
  assumes "set_up env args" and "ta_runs args = int (length rss)" and "list_all run_reads rss"
    and "runs_in_time env (ta_timeout args) 0 (map length rss)"
  shows "\<exists>t. teb_collect_main env args (teb_begin (map Inr (concat rss) @ rest)) = Some (Inr 0, t)
    \<and> c_log t = logged_runs env (ta_reset args) 0 1 (map (\<lambda>rs. concat (map decode_utf8 rs)) rss)"
proof -
  let ?b = "teb_begin (map Inr (concat rss) @ rest)"
  let ?start = "if ta_no_server args then tx_lift (Inr ()) else start_server env (ta_profile args) (ta_bind args) (ta_server_port args)"
  let ?stop = "if ta_no_server args then tx_lift (Inr ()) else stop_server env"
  obtain es where s: "?start ?b = Some (Inr (), ?b\<lparr>c_events := es\<rparr>)"
  proof (cases "ta_no_server args")
    case True
    show thesis by (rule that [of "c_events ?b"]) (simp add: True tx_steps)
  next
    case False
    then have "server_starts env args" using assms(1) by (simp add: set_up_def)
    then show thesis using that start_server_runs [of env args ?b] False by auto
  qed
  define v where "v = ?b\<lparr>c_events := es @ [Port_Opened (ta_port args) (ta_baud args), Input_Reset]\<rparr>"
  have "\<exists>t. capture_runs env args (map int [1..<1 + length rss]) v = Some (Inr (), t) \<and> c_reads t = rest
    \<and> c_log t = c_log v @ logged_runs env (ta_reset args) (c_wall v) 1 (map (\<lambda>rs. concat (map decode_utf8 rs)) rss)"
    using assms by (intro capture_runs_end) (simp_all add: set_up_def v_def teb_begin_def)
  then obtain w where w: "capture_runs env args (map int [1..<1 + length rss]) v = Some (Inr (), w)"
    "c_log w = logged_runs env (ta_reset args) 0 1 (map (\<lambda>rs. concat (map decode_utf8 rs)) rss)"
    by (auto simp: v_def teb_begin_def)
  have "tx_then (note_event Input_Reset) (capture_runs env args (map int [1..<Suc (nat (ta_runs args))]))
      (?b\<lparr>c_events := es @ [Port_Opened (ta_port args) (ta_baud args)]\<rparr>) = Some (Inr (), w)"
    using w(1) assms(2) by (simp add: tx_bind_def note_step v_def del: upt_Suc)
  then have "collect_boots env args (?b\<lparr>c_events := es\<rparr>) = Some (Inr (), w\<lparr>c_events := c_events w @ [Port_Closed]\<rparr>)"
    using assms(1) by (simp add: collect_boots_def set_up_def ok_iff bind_steps tx_finally_def note_step del: upt_Suc)
  moreover obtain fs where "?stop (w\<lparr>c_events := c_events w @ [Port_Closed]\<rparr>) = Some (Inr (), w\<lparr>c_events := fs\<rparr>)"
    using stop_server_runs [of env "w\<lparr>c_events := c_events w @ [Port_Closed]\<rparr>"]
    by (cases "ta_no_server args") (auto simp: tx_steps)
  ultimately have "tx_finally (collect_boots env args) ?stop (?b\<lparr>c_events := es\<rparr>) = Some (Inr (), w\<lparr>c_events := fs\<rparr>)"
    by (simp add: tx_finally_def)
  then have "teb_collect_main env args ?b = Some (Inr 0, w\<lparr>c_events := fs\<rparr>)"
    unfolding teb_collect_main_def using s by (simp add: tx_bind_def tx_steps)
  with w(2) show ?thesis by auto
qed


section \<open>What the log parser makes of the log\<close>

definition host_lines :: "string \<Rightarrow> string list \<Rightarrow> string \<Rightarrow> string list" where
  "host_lines h ls e = (CHR ''['' # h) # ls @ [CHR ''['' # e]"

fun logged_lines :: "teb_env \<Rightarrow> string \<Rightarrow> nat \<Rightarrow> nat \<Rightarrow> boot list \<Rightarrow> string list" where
  "logged_lines env reset w n [] = []"
| "logged_lines env reset w n (b # bs) =
     host_lines (host_body ''start'' (int n) reset (wall env w)) (boot_lines b) (host_body ''end'' (int n) ''1'' (wall env (Suc w)))
       @ logged_lines env reset (w + 2) (Suc n) bs"

lemma logged_text:
  "logged_runs env reset w n (map (\<lambda>b. boots_text [b]) bs) = concat (map (\<lambda>l. l @ [CHR 0x0A]) (logged_lines env reset w n bs))"
  by (induction bs arbitrary: w n) (simp_all add: host_lines_def host_line_body boots_text_def)

lemma reset_spaceless: "reset \<in> set reset_modes \<Longrightarrow> spaceless reset"
  by (auto simp: reset_modes_def is_space_def code_def)

lemma host_words: "spaceless ''start''" "spaceless ''end''" "spaceless ''1''"
  by (simp_all add: is_space_def code_def)

lemma bracket_not_break: "\<not> is_line_break CHR ''[''"
  by (simp add: is_line_break_def code_def)

lemma logged_unbroken:
  assumes "reset \<in> set reset_modes" and "list_all plain_boot bs"
  shows "list_all unbroken (logged_lines env reset w n bs)"
  using assms(2)
proof (induction bs arbitrary: w n)
  case (Cons b bs)
  note h = host_body_clean(1) [OF host_words(1) reset_spaceless [OF assms(1)]] host_body_clean(1) [OF host_words(2,3)]
  show ?case
    unfolding logged_lines.simps host_lines_def list_all_append list.pred_inject
    using Cons boot_lines_whole by (auto simp: bracket_not_break intro: h)
qed simp

lemma parse_logged:
  assumes "reset \<in> set reset_modes" and "list_all plain_boot bs" and "current st = []"
  shows "fold parse_line (logged_lines env reset w n bs) st
    = \<lparr>runs = runs st @ map2 boot_run [Suc (length (runs st))..<Suc (length (runs st) + length bs)] bs, current = []\<rparr>"
  using assms(2,3)
proof (induction bs arbitrary: st w n)
  case Nil
  then show ?case by simp
next
  case (Cons b bs)
  note h = parse_host_line [OF host_words(1) reset_spaceless [OF assms(1)]] parse_host_line [OF host_words(2,3)]
  have "fold parse_line (logged_lines env reset w n (b # bs)) st
      = fold parse_line (logged_lines env reset (w + 2) (Suc n) bs)
          \<lparr>runs = runs st @ [boot_run (Suc (length (runs st))) b], current = []\<rparr>"
    using Cons.prems by (simp add: host_lines_def h parse_boot)
  with Cons show ?case by (simp del: upt_Suc) (simp add: upt_conv_Cons del: upt_Suc)
qed

lemma logged_runs_parse:
  assumes "reset \<in> set reset_modes" and "list_all plain_boot bs"
  shows "parse_log (logged_runs env reset w n (map (\<lambda>b. boots_text [b]) bs)) = map2 boot_run [1..<Suc (length bs)] bs"
  using parse_logged [OF assms, of "\<lparr>runs = [], current = []\<rparr>"] splitlines_text [OF logged_unbroken [OF assms]]
  by (simp add: logged_text parse_log_def end_log_def del: upt_Suc)

lemma boot_run_reads:
  assumes "plain_boot b" and "boot_reads b rs"
  shows "run_reads rs" and "concat (map decode_utf8 rs) = boots_text [b]"
proof -
  obtain qs z where rs: "rs = qs @ [z]" "z \<noteq> []" "ends_run (decode_utf8 z)" "list_all quiet qs"
    "concat (map decode_utf8 rs) = boots_text [b]"
    using boot_reads_split [OF assms] by blast
  then show "run_reads rs" and "concat (map decode_utf8 rs) = boots_text [b]"
    by (simp_all add: run_reads_def)
qed


section \<open>A result line in two parts\<close>

text \<open>
  The timeout of a read may fall into a line. When it falls behind the tag of the result, the run
  is over after the first part, and what follows on that line in the log is the collector's own
  closing line.
\<close>

definition torn_reads :: "boot \<Rightarrow> string \<Rightarrow> bytes list \<Rightarrow> bool" where
  "torn_reads b u rs \<longleftrightarrow> rs \<noteq> [] \<and> last rs \<noteq> []
     \<and> map decode_utf8 (filter (\<lambda>r. r \<noteq> []) rs)
       = map (\<lambda>l. l @ [CHR 0x0A]) (butlast (boot_lines b)) @ [''[TEB_RESULT] '' @ u]"

lemma torn_run_reads:
  assumes "plain_boot b" and "torn_reads b u rs"
  shows "run_reads rs"
    and "concat (map decode_utf8 rs) @ host_line ''end'' n ''1'' x = boots_text [(fst b, u @ CHR ''['' # host_body ''end'' n ''1'' x)]"
proof -
  obtain qs z where rs: "rs = qs @ [z]" "z \<noteq> []"
    using assms(2) unfolding torn_reads_def by (metis append_butlast_last_id)
  have m: "map decode_utf8 (filter (\<lambda>r. r \<noteq> []) qs) =
      map (\<lambda>l. l @ [CHR 0x0A]) (''Asymmetric Entropy Capsule Bootstrap'' # map pair_line (fst b))"
    and z: "decode_utf8 z = ''[TEB_RESULT] '' @ u"
    using assms(2) rs unfolding torn_reads_def boot_lines_def by simp_all
  from z have "ends_run (decode_utf8 z)" by (simp add: ends_run_def startswith_Cons)
  then show "run_reads rs" using rs quiet_lines [OF assms(1) m] by (simp add: run_reads_def)
  have "concat (map decode_utf8 rs) = concat (map (\<lambda>l. l @ [CHR 0x0A]) (butlast (boot_lines b))) @ ''[TEB_RESULT] '' @ u"
    using assms(2) unfolding torn_reads_def by (simp add: decode_filter [of rs])
  then show "concat (map decode_utf8 rs) @ host_line ''end'' n ''1'' x = boots_text [(fst b, u @ CHR ''['' # host_body ''end'' n ''1'' x)]"
    by (simp add: boots_text_def boot_lines_def host_line_body butlast_append)
qed

text \<open>
  A result line that a read timeout cuts after its tag is taken for a whole one. The run ends
  as if its result had been seen, the closing line of the collector is written behind the first
  part on the same line, and the parser returns a run whose result is that mixture, which is not
  \<open>seeded\<close> whatever the device printed: a boot that succeeded counts as failed.
\<close>

theorem torn_result_not_seeded:
  assumes "set_up env args" and "ta_runs args = 1" and "plain_boot b" and "snd b = u @ v" and "u \<noteq> []"
    and "torn_reads b u rs" and "runs_in_time env (ta_timeout args) 0 [length rs]"
  shows "\<exists>t r. teb_collect_main env args (teb_begin (map Inr rs @ rest)) = Some (Inr 0, t)
    \<and> parse_log (c_log t) = [r] \<and> \<not> seeded r
    \<and> dict_get r ''result'' = Some (S (u @ ''[HOST_RUN] end,1,1,'' @ fmt_fixed 3 (wall env 1)))"
proof -
  let ?h = "host_body ''end'' 1 ''1'' (wall env 1)"
  let ?b = "(fst b, u @ CHR ''['' # ?h)"
  note torn = torn_run_reads [OF assms(3,6)]
  obtain t where t: "teb_collect_main env args (teb_begin (map Inr rs @ rest)) = Some (Inr 0, t)"
    "c_log t = host_line ''start'' 1 (ta_reset args) (wall env 0) @ concat (map decode_utf8 rs) @ host_line ''end'' 1 ''1'' (wall env 1)"
    using collector_runs [of env args "[rs]" rest] assms(1,2,7) torn(1) by auto
  have reset: "ta_reset args \<in> set reset_modes" using assms(1) by (simp add: set_up_def)
  have plain: "plain_boot ?b"
    using assms(3,4,5) host_body_clean [OF host_words(2,3), of 1 "wall env 1"] bracket_not_break
    by (auto simp: plain_boot_def clean_text_def)
  define ls where "ls = (CHR ''['' # host_body ''start'' 1 (ta_reset args) (wall env 0)) # boot_lines ?b"
  have "c_log t = concat (map (\<lambda>l. l @ [CHR 0x0A]) ls)"
    unfolding t(2) torn(2) by (simp add: ls_def host_line_body boots_text_def)
  moreover have "list_all unbroken ls"
    unfolding ls_def list.pred_inject
    using boot_lines_whole [OF plain] bracket_not_break host_body_clean(1) [OF host_words(1) reset_spaceless [OF reset]] by blast
  moreover have "fold parse_line ls \<lparr>runs = [], current = []\<rparr> = \<lparr>runs = [boot_run 1 ?b], current = []\<rparr>"
    using parse_boot [OF plain, of "\<lparr>runs = [], current = []\<rparr>"]
    by (simp add: ls_def parse_host_line [OF host_words(1) reset_spaceless [OF reset]])
  ultimately have "parse_log (c_log t) = [boot_run 1 ?b]"
    by (simp add: parse_log_def splitlines_text end_log_def)
  moreover have "dict_get (boot_run 1 ?b) ''result'' = Some (S (u @ CHR ''['' # ?h))"
    by (simp add: boot_run_def finalize_run_def Let_def set_rate_get dict_in_def)
  moreover have "u @ CHR ''['' # ?h \<noteq> ''seeded''"
  proof
    assume "u @ CHR ''['' # ?h = ''seeded''"
    then have "CHR ''['' \<in> set ''seeded''" by (metis in_set_conv_decomp)
    then show False by simp
  qed
  moreover have "str_of_int 1 = ''1''" by code_simp
  then have "CHR ''['' # ?h = ''[HOST_RUN] end,1,1,'' @ fmt_fixed 3 (wall env 1)" by (simp add: host_body_def)
  ultimately show ?thesis using t(1) unfolding seeded_def by (intro exI conjI) (simp_all only: option.inject val.inject not_False_eq_True)
qed


section \<open>Examples\<close>

definition demo_teb_env :: teb_env where
  "demo_teb_env = \<lparr>mono = real, wall = real, file_there = (\<lambda>p. True), file_time = (\<lambda>p. 0),
     tool_output = (\<lambda>c. Inr []), tool_status = (\<lambda>c. Inr ()), python = ''python3'', project = ''/teb'',
     server_spawn = (\<lambda>c. Inr ()), server_ready = [''[TEB_SERVER] bind,0.0.0.0:6767''], server_exits = False, port_there = Inr ()\<rparr>"

definition demo_teb_args :: "int \<Rightarrow> teb_args" where
  "demo_teb_args n = \<lparr>ta_port = ''/dev/ttyUSB0'', ta_baud = 115200, ta_runs = n, ta_timeout = 45, ta_reset = ''rts'',
     ta_bind = ''0.0.0.0'', ta_server_port = 6767, ta_profile = ''pq'', ta_no_server = False\<rparr>"

definition demo_boot :: boot where
  "demo_boot = ([(''[TEB_METRIC]'', ''time_to_seed_ms'', ''812'')], ''seeded'')"

definition demo_boot_reads :: "bytes list" where
  "demo_boot_reads = ascii_bytes (''Asymmetric Entropy Capsule Bootstrap'' @ [CHR 0x0A]) # []
     # ascii_bytes (''[TEB_METRIC] time_to_seed_ms,812'' @ [CHR 0x0A]) # [ascii_bytes (''[TEB_RESULT] seeded'' @ [CHR 0x0A])]"

definition demo_torn_reads :: "bytes list" where
  "demo_torn_reads = [ascii_bytes (''Asymmetric Entropy Capsule Bootstrap'' @ [CHR 0x0A]),
     ascii_bytes (''[TEB_METRIC] time_to_seed_ms,812'' @ [CHR 0x0A]), ascii_bytes ''[TEB_RESULT] see'']"

lemma demo_teb_set_up: "set_up demo_teb_env (demo_teb_args n)"
  by (simp add: set_up_def server_starts_def demo_teb_env_def demo_teb_args_def reset_modes_def startswith_Cons pq_server_current_def)

lemma demo_boot_plain: "plain_boot demo_boot"
  by (simp add: demo_boot_def plain_boot_def plain_pair_def clean_text_def TAGS_def is_space_def is_line_break_def code_def)

lemma demo_reads: "boot_reads demo_boot demo_boot_reads" "torn_reads demo_boot ''see'' demo_torn_reads"
proof -
  have a: "decode_utf8 (ascii_bytes t) = t" if "t \<in> set [''Asymmetric Entropy Capsule Bootstrap'' @ [CHR 0x0A],
    ''[TEB_METRIC] time_to_seed_ms,812'' @ [CHR 0x0A], ''[TEB_RESULT] seeded'' @ [CHR 0x0A], ''[TEB_RESULT] see'']" for t
    using that by (intro decode_utf8_ascii) (auto simp: is_ascii_def code_def)
  have n: "ascii_bytes (c # t) \<noteq> []" for c t by (simp add: ascii_bytes_def)
  show "boot_reads demo_boot demo_boot_reads" "torn_reads demo_boot ''see'' demo_torn_reads"
    using a n by (simp_all add: boot_reads_def torn_reads_def demo_boot_reads_def demo_torn_reads_def demo_boot_def
        boot_lines_def pair_line_def)
qed

lemma demo_in_time: "runs_in_time demo_teb_env 45 0 [4, 4]" "runs_in_time demo_teb_env 45 0 [3]"
  by (simp_all add: demo_teb_env_def guards_hold_def)


theorem torn_result_not_seeded_witness:
  "\<exists>t r. teb_collect_main demo_teb_env (demo_teb_args 1) (teb_begin (map Inr demo_torn_reads @ [Inr (ascii_bytes (''ded'' @ [CHR 0x0A]))]))
      = Some (Inr 0, t) \<and> parse_log (c_log t) = [r] \<and> snd demo_boot = ''seeded'' \<and> \<not> seeded r"
proof -
  have "length demo_torn_reads = 3" "snd demo_boot = ''see'' @ ''ded''"
    by (simp_all add: demo_torn_reads_def demo_boot_def)
  then show ?thesis
    using torn_result_not_seeded [OF demo_teb_set_up, of 1 demo_boot "''see''" "''ded''" demo_torn_reads]
      demo_boot_plain demo_reads(2) demo_in_time(2) by (fastforce simp: demo_teb_args_def)
qed

lemma demo_mono_runs: "mono_runs demo_teb_env"
  unfolding mono_runs_def
proof (intro allI)
  fix t k
  obtain n where "t \<le> real n" using real_arch_simple by blast
  then show "\<exists>j \<ge> k. t \<le> mono demo_teb_env j" by (intro exI [of _ "max n k"]) (simp add: demo_teb_env_def)
qed

theorem collector_ends_witness:
  "\<exists>r t. teb_collect_main demo_teb_env (demo_teb_args 3) (teb_begin [Inl FileNotFoundError]) = Some (r, t)"
  by (rule collector_ends [OF demo_mono_runs])


end
