(* ===== verification/ProfileCompare.thy ===== *)
theory ProfileCompare
  imports TebLog PyIO
begin

text \<open>
  The comparison of the two capsule profiles (\<open>compare_teb_boot_profiles.py\<close>): the table, the
  summary of both profiles, and the points and error bars of the figure, all computed from the
  logs that \<open>TebLog\<close> parses. The state records which of the three files have been written. The
  drawing (colours, the random offsets of the points) and console output are left out. Facts: the
  figure shows what the summary says; what a missing server log and an unreadable time do.
\<close>

section \<open>Cells\<close>

text \<open>\<open>summary.get(key, {})\<close>, and a field of it; \<open>None\<close> when it is missing.\<close>

definition stat_of :: "summary \<Rightarrow> string \<Rightarrow> stat option" where
  "stat_of sm key = dict_get (sm_stats sm) key"

definition value_of :: "summary \<Rightarrow> string \<Rightarrow> (stat \<Rightarrow> real option) \<Rightarrow> real option" where
  "value_of sm key field = (case stat_of sm key of None \<Rightarrow> None | Some item \<Rightarrow> field item)"

definition cell_number :: "nat \<Rightarrow> real option \<Rightarrow> string" where
  "cell_number digits number =
     (case number of None \<Rightarrow> ''N/A''
      | Some v \<Rightarrow> if isclose v (of_int (round_half_even v)) then fmt_fixed 0 v else fmt_fixed digits v)"

definition with_unit :: "string \<Rightarrow> string \<Rightarrow> string" where
  "with_unit text unit_text = (if unit_text = [] then text else text @ '' '' @ unit_text)"

definition median_range :: "summary \<Rightarrow> string \<Rightarrow> string \<Rightarrow> nat \<Rightarrow> string" where
  "median_range sm key unit_text digits =
     (case stat_of sm key of None \<Rightarrow> ''N/A''
      | Some item \<Rightarrow>
          if st_n item = 0 then ''N/A''
          else (let lo = cell_number digits (st_min item); hi = cell_number digits (st_max item);
                    text = cell_number digits (st_median item)
                in with_unit (if lo \<noteq> hi then text @ '' ['' @ lo @ '', '' @ hi @ '']'' else text) unit_text))"

definition mean_sd :: "summary \<Rightarrow> string \<Rightarrow> string \<Rightarrow> nat \<Rightarrow> string" where
  "mean_sd sm key unit_text digits =
     (case stat_of sm key of None \<Rightarrow> ''N/A''
      | Some item \<Rightarrow>
          if st_n item = 0 then ''N/A''
          else with_unit (cell_number digits (st_mean item) @ '' $'' @ [CHR 0x5C] @ ''pm$ '' @ cell_number digits (st_std item)) unit_text)"

definition tex_escape :: "string \<Rightarrow> string" where
  "tex_escape text = replace_char CHR ''_'' [CHR 0x5C, CHR ''_''] text"

definition capsule_len :: "summary \<Rightarrow> int" where
  "capsule_len sm = (if sm_profile sm = S ''pq-mlkem512-mldsa44'' then PQ_CAPSULE_LEN else ED25519_CAPSULE_LEN)"

section \<open>The table\<close>

definition seeded_cell :: "summary \<Rightarrow> string" where
  "seeded_cell sm = str_of_nat (sm_seeded sm) @ '' / '' @ str_of_nat (sm_attempted sm)"

text \<open>Without a server log the summary of the server is empty and has no count of capsules.\<close>

definition served_cell :: "summary \<Rightarrow> string result" where
  "served_cell sm =
     (case sm_server sm of None \<Rightarrow> Inl KeyError
      | Some sv \<Rightarrow> Inr (str_of_nat (sv_served sv) @ '' / '' @ str_of_nat (sm_attempted sm)))"

definition profile_rows :: "summary \<Rightarrow> summary \<Rightarrow> (string \<times> string \<times> string) list result" where
  "profile_rows ed pq =
     rbind (served_cell ed) (\<lambda>ed_served. rbind (served_cell pq) (\<lambda>pq_served. Inr
       [(''Seeded boots'', seeded_cell ed, seeded_cell pq),
        (''Time to first credited seed, mean'', mean_sd ed ''time_to_seed_ms'' ''ms'' 1, mean_sd pq ''time_to_seed_ms'' ''ms'' 1),
        (''Time to first credited seed, median'', median_range ed ''time_to_seed_ms'' ''ms'' 1, median_range pq ''time_to_seed_ms'' ''ms'' 1),
        (''Signature verify'', median_range ed ''verify_us'' tex_us 1, median_range pq ''verify_us'' tex_us 1),
        (''ML-KEM-512 decapsulation'', ''N/A'', median_range pq ''kem_decaps_us'' tex_us 1),
        (''HKDF-SHA256'', median_range ed ''hkdf_us'' tex_us 1, median_range pq ''hkdf_us'' tex_us 1),
        (''BOOT_HELLO / capsule'', ''88 B / '' @ str_of_int (capsule_len ed) @ '' B'', ''88 B / '' @ str_of_int (capsule_len pq) @ '' B''),
        (''Server capsules'', ed_served, pq_served),
        (''Heap peak after capsule'', median_range ed ''heap_peak_after_capsule'' ''B'' 1, median_range pq ''heap_peak_after_capsule'' ''B'' 1),
        (''Credited entropy'', median_range ed ''credited_bits'' ''bits'' 1, median_range pq ''credited_bits'' ''bits'' 1)]))"

definition profile_tex_row :: "string \<times> string \<times> string \<Rightarrow> string" where
  "profile_tex_row r = (case r of (label, e, p) \<Rightarrow>
     tex_escape label @ '' & '' @ e @ '' & '' @ p @ '' '' @ [CHR 0x5C, CHR 0x5C])"

definition profile_table :: "summary \<Rightarrow> summary \<Rightarrow> string result" where
  "profile_table ed pq =
     rbind (profile_rows ed pq) (\<lambda>rows. Inr
       ([CHR 0x5C] @ ''begin{tabular}{p{0.32'' @ [CHR 0x5C] @ ''linewidth}p{0.27'' @ [CHR 0x5C] @ ''linewidth}p{0.27''
         @ [CHR 0x5C] @ ''linewidth}}'' @ [CHR 0x0A, CHR 0x5C] @ ''toprule'' @ [CHR 0x0A]
         @ ''Metric & PUF + Ed25519 beacon & ML-KEM-512 + ML-DSA-44 '' @ [CHR 0x5C, CHR 0x5C, CHR 0x0A, CHR 0x5C]
         @ ''midrule'' @ [CHR 0x0A] @ join [CHR 0x0A] (map profile_tex_row rows)
         @ [CHR 0x0A, CHR 0x5C] @ ''bottomrule'' @ [CHR 0x0A, CHR 0x5C] @ ''end{tabular}'' @ [CHR 0x0A]))"

section \<open>The figure\<close>

text \<open>The points of a profile (the times of its seeded boots) and its error bar.\<close>

definition seed_time :: "run \<Rightarrow> real result" where
  "seed_time r = rbind (dict_item r ''time_to_seed_ms'') val_float"

definition profile_points :: "run list \<Rightarrow> summary \<Rightarrow> (real list \<times> real \<times> real) result" where
  "profile_points rs sm =
     rbind (rmap seed_time (filter seeded rs)) (\<lambda>vals.
       (case value_of sm ''time_to_seed_ms'' st_mean of
          None \<Rightarrow> Inl TypeError
        | Some m \<Rightarrow> Inr (vals, m, (case value_of sm ''time_to_seed_ms'' st_std of None \<Rightarrow> 0 | Some d \<Rightarrow> d))))"

section \<open>The program\<close>

definition build_profile :: "string \<Rightarrow> string option \<Rightarrow> (run list \<times> summary) result" where
  "build_profile boot_log server_log =
     (let rs = parse_log boot_log in rbind (summarize rs (parse_server_log server_log)) (\<lambda>sm. Inr (rs, sm)))"

record profile_files =
  pf_table :: "string option"
  pf_summary :: "(summary \<times> summary) option"
  pf_figure :: "(real list \<times> real \<times> real) list option"

definition no_profile_files :: profile_files where
  "no_profile_files = \<lparr>pf_table = None, pf_summary = None, pf_figure = None\<rparr>"

text \<open>The texts of the two boot logs and of the two server logs, where these were named.\<close>

definition profiles_main :: "string \<times> string option \<Rightarrow> string \<times> string option \<Rightarrow> (profile_files, int) io" where
  "profiles_main ed_logs pq_logs =
     io_bind (io_lift (build_profile (fst ed_logs) (snd ed_logs))) (\<lambda>(ed_runs, ed).
     io_bind (io_lift (build_profile (fst pq_logs) (snd pq_logs))) (\<lambda>(pq_runs, pq).
     io_bind (io_lift (profile_table ed pq)) (\<lambda>tex.
     io_then (io_modify (\<lambda>w. w\<lparr>pf_table := Some tex\<rparr>))
     (io_then (io_modify (\<lambda>w. w\<lparr>pf_summary := Some (ed, pq)\<rparr>))
     (io_bind (io_lift (profile_points ed_runs ed)) (\<lambda>ep.
      io_bind (io_lift (profile_points pq_runs pq)) (\<lambda>pp.
      io_then (io_modify (\<lambda>w. w\<lparr>pf_figure := Some [ep, pp]\<rparr>)) (io_return 0))))))))"


section \<open>What the figure and the table show\<close>

lemma seed_times:
  assumes "rmap seed_time (filter seeded rs) = Inr vs"
  shows "numeric_values rs ''time_to_seed_ms'' = Inr vs"
  using assms
proof (induction rs arbitrary: vs)
  case (Cons r rs)
  show ?case
  proof (cases "seeded r")
    case True
    then obtain v x xs where v: "dict_get r ''time_to_seed_ms'' = Some v" "val_float v = Inr x"
      "rmap seed_time (filter seeded rs) = Inr xs" "vs = x # xs"
      using Cons.prems by (auto simp: result_simps seed_time_def [of r])
    moreover have "v \<noteq> S []" using v(2) by (auto simp: val_float_def py_float_def read_decimal_def split_sign_def
        int_strip_def lower_def Let_def strip_def)
    ultimately show ?thesis using Cons.IH True by simp
  qed (use Cons in simp)
qed simp

lemma summary_stat:
  assumes "summarize rs server = Inr sm" and "numeric_values rs key = Inr vs" and "key \<in> set SUMMARY_KEYS"
  shows "stat_of sm key = Some (stats vs)"
proof -
  have d: "rmap (\<lambda>key. rbind (numeric_values rs key) (\<lambda>vs. Inr (key, stats vs))) SUMMARY_KEYS = Inr (sm_stats sm)"
    using assms(1) by (auto simp: summarize_def result_simps)
  obtain s where s: "dict_get (sm_stats sm) key = Some s"
    using dict_get_keys [of key "sm_stats sm"] rmap_keys [OF d] assms(3) by auto
  then have "(key, s) \<in> set (sm_stats sm)" by (simp add: dict_get_def map_of_SomeD)
  then obtain ws where "numeric_values rs key = Inr ws" "s = stats ws" using rmap_keys [OF d] by blast
  with assms(2) s show ?thesis by (simp add: stat_of_def)
qed

lemma time_key: "''time_to_seed_ms'' \<in> set SUMMARY_KEYS"
  by (simp add: SUMMARY_KEYS_def)

lemma profile_points_ok:
  assumes "summarize rs server = Inr sm" and "rmap seed_time (filter seeded rs) = Inr vs" and "vs \<noteq> []"
  shows "profile_points rs sm = Inr (vs, mean vs, if length vs > 1 then pstdev vs else 0)"
  using summary_stat [OF assms(1) seed_times [OF assms(2)] time_key] assms(2,3)
  by (simp add: profile_points_def value_of_def stats_def result_simps)

text \<open>The figure of a profile as a function of its log.\<close>

definition seed_times_of :: "string \<Rightarrow> real list result" where
  "seed_times_of boot_log = rmap seed_time (filter seeded (parse_log boot_log))"


text \<open>
  The server logs are optional arguments, but without one of them the table cannot be written:
  its row of served capsules ends in a \<open>KeyError\<close> before any of the three files exists.
\<close>

theorem missing_server_log:
  assumes "ed_server = None \<or> pq_server = None" and "ok (build_profile ed_log ed_server)" and "ok (build_profile pq_log pq_server)"
  shows "profiles_main (ed_log, ed_server) (pq_log, pq_server) no_profile_files = (Inl KeyError, no_profile_files)"
proof -
  obtain er ed pr pq where b: "build_profile ed_log ed_server = Inr (er, ed)" "build_profile pq_log pq_server = Inr (pr, pq)"
    using assms(2,3) by (auto simp: ok_iff)
  then have "sm_server ed = parse_server_log ed_server" "sm_server pq = parse_server_log pq_server"
    by (auto simp: build_profile_def summarize_def Let_def result_simps)
  then have "profile_table ed pq = Inl KeyError"
    using assms(1) by (auto simp: profile_table_def profile_rows_def served_cell_def parse_server_log_def rbind_def split: option.splits)
  with b show ?thesis by (simp add: profiles_main_def io_bind_def io_run)
qed

text \<open>
  A seeded boot without a readable time is left out of the statistics but not of the figure:
  the program raises after it has written the table and the summary, and leaves no figure.
\<close>

theorem unreadable_time_stops_figure:
  assumes "build_profile ed_log (Some ed_server) = Inr (ed_runs, ed)" and "build_profile pq_log (Some pq_server) = Inr (pq_runs, pq)"
    and "\<not> ok (seed_times_of ed_log)"
  shows "\<exists>e w. profiles_main (ed_log, Some ed_server) (pq_log, Some pq_server) no_profile_files = (Inl e, w)
    \<and> pf_table w \<noteq> None \<and> pf_summary w = Some (ed, pq) \<and> pf_figure w = None"
proof -
  have "sm_server ed \<noteq> None" "sm_server pq \<noteq> None" "ed_runs = parse_log ed_log"
    using assms(1,2) by (auto simp: build_profile_def summarize_def Let_def result_simps parse_server_log_def split: prod.splits)
  moreover then obtain tex where "profile_table ed pq = Inr tex"
    by (auto simp: profile_table_def profile_rows_def served_cell_def result_simps)
  moreover obtain e where "rmap seed_time (filter seeded (parse_log ed_log)) = Inl e"
    using assms(3) unfolding seed_times_of_def by (auto simp: ok_iff) (metis sum.exhaust)
  ultimately have "\<exists>e. profile_points ed_runs ed = Inl e \<and> profile_table ed pq = Inr tex" by (simp add: profile_points_def rbind_def)
  then show ?thesis
    using assms(1,2) by (auto simp: profiles_main_def io_bind_def io_run no_profile_files_def)
qed


section \<open>Examples\<close>

definition demo_profile_boot :: "string \<Rightarrow> boot" where
  "demo_profile_boot t = ([(''[TEB_METRIC]'', ''time_to_seed_ms'', t)], ''seeded'')"

definition demo_profile_log :: "string \<Rightarrow> string" where
  "demo_profile_log t = boots_text [demo_profile_boot t]"

definition demo_profile_run :: "string \<Rightarrow> run" where
  "demo_profile_run t = [(''run'', I 1), (''time_to_seed_ms'', S t), (''result'', S ''seeded''),
     (''hello_tx_bytes'', I 88), (''capsule_rx_bytes'', I 160), (''application_datagrams'', I 2)]"

lemma demo_profile_boot_run:
  "boot_run 1 (demo_profile_boot ''812'') = demo_profile_run ''812''" "boot_run 1 (demo_profile_boot ''n/a'') = demo_profile_run ''n/a''"
  by code_simp+

lemma demo_profile_parsed:
  assumes "t = ''812'' \<or> t = ''n/a''"
  shows "parse_log (demo_profile_log t) = [demo_profile_run t]"
proof -
  have p: "plain_boot (demo_profile_boot t)" using assms
    by (auto simp: demo_profile_boot_def plain_boot_def plain_pair_def clean_text_def TAGS_def is_space_def is_line_break_def code_def)
  have "splitlines (demo_profile_log t) = boot_lines (demo_profile_boot t)"
    using splitlines_text [OF boot_lines_whole [OF p]] by (simp add: demo_profile_log_def boots_text_def)
  moreover have "fold parse_line (boot_lines (demo_profile_boot t)) \<lparr>runs = [], current = []\<rparr>
      = \<lparr>runs = [demo_profile_run t], current = []\<rparr>"
    using parse_boot [OF p, of "\<lparr>runs = [], current = []\<rparr>"] assms demo_profile_boot_run by auto
  ultimately show ?thesis by (simp add: parse_log_def end_log_def)
qed

lemma demo_numbers: "py_float ''812'' = Inr 812" "py_float ''n/a'' = Inl ValueError"
  by (simp_all add: py_float_def int_strip_def is_ascii_space_def code_def Let_def split_sign_def lower_def strip_def lstrip_def
        rstrip_def is_space_def is_digit_char_def read_decimal_def read_exponent_def float_max_bound_def scale10_def dec_value_def)

lemma demo_profile_times:
  "seed_times_of (demo_profile_log ''812'') = Inr [812]" "\<not> ok (seed_times_of (demo_profile_log ''n/a''))"
  by (simp_all add: seed_times_of_def demo_profile_parsed demo_numbers demo_profile_run_def seeded_def dict_get_def
      seed_time_def val_float_def dict_item_def rbind_def ok_iff)

lemma demo_summary:
  assumes "t = ''812'' \<or> t = ''n/a''"
  shows "\<exists>sm. summarize [demo_profile_run t] server = Inr sm"
  using assms
  by (auto simp: summarize_def summary_profile_def SUMMARY_KEYS_def seeded_def dict_get_def demo_profile_run_def val_float_def demo_numbers)

lemma demo_build:
  assumes "t = ''812'' \<or> t = ''n/a''"
  shows "\<exists>sm. build_profile (demo_profile_log t) server = Inr ([demo_profile_run t], sm)"
  using demo_summary [OF assms, of "parse_server_log server"] by (auto simp: build_profile_def demo_profile_parsed [OF assms])


theorem missing_server_log_witness:
  "profiles_main (demo_profile_log ''812'', None) (demo_profile_log ''812'', Some []) no_profile_files = (Inl KeyError, no_profile_files)"
  using demo_build [of "''812''"] by (intro missing_server_log) (fastforce simp: ok_iff)+

theorem unreadable_time_stops_figure_witness:
  "\<exists>e w. profiles_main (demo_profile_log ''n/a'', Some []) (demo_profile_log ''812'', Some []) no_profile_files = (Inl e, w)
    \<and> pf_table w \<noteq> None \<and> pf_figure w = None"
proof -
  obtain sm sm' where "build_profile (demo_profile_log ''n/a'') (Some []) = Inr ([demo_profile_run ''n/a''], sm)"
    "build_profile (demo_profile_log ''812'') (Some []) = Inr ([demo_profile_run ''812''], sm')"
    using demo_build [of "''n/a''" "Some []"] demo_build [of "''812''" "Some []"] by auto
  from unreadable_time_stops_figure [OF this demo_profile_times(2)] show ?thesis by blast
qed

end
