(* ===== verification/ResultsTable.thy ===== *)
theory ResultsTable
  imports RebootFiles
begin

text \<open>
  The comparison table of the test results (\<open>compare_results.py\<close>): loading the manifests of the
  five conditions, looking up suites and metrics, and the printed Markdown lines. A missing
  manifest is \<open>JNull\<close>, as \<open>None\<close> is in the script; the state of the printing steps is the list
  of lines. The text of a nested value is a parameter. Facts: on manifests of the documented shape
  the table is complete and every cell is the value of its condition.
\<close>

section \<open>Lookups\<close>

text \<open>\<open>value[key]\<close> for a string key: only a dict has it.\<close>

definition json_item :: "string \<Rightarrow> json \<Rightarrow> json result" where
  "json_item k j = (case j of JObj d \<Rightarrow> dict_item d k | _ \<Rightarrow> Inl TypeError)"

fun first_named :: "string \<Rightarrow> string \<Rightarrow> json list \<Rightarrow> json option result" where
  "first_named key name [] = Inr None"
| "first_named key name (x # xs) =
     rbind (json_item key x) (\<lambda>v. if v = JStr name then Inr (Some x) else first_named key name xs)"

definition get_suite_result :: "json \<Rightarrow> string \<Rightarrow> json result" where
  "get_suite_result manifest suite_name =
     (if \<not> json_truth manifest then Inr JNull
      else rbind (json_get ''results'' (JArr []) manifest) (\<lambda>rs.
           rbind (json_iter rs) (\<lambda>xs.
           rbind (first_named ''suite'' suite_name xs) (\<lambda>r. Inr (case r of None \<Rightarrow> JNull | Some x \<Rightarrow> x)))))"

definition metric_text :: "(json \<Rightarrow> string) \<Rightarrow> json \<Rightarrow> string" where
  "metric_text rep v = (case v of JFloat x \<Rightarrow> fmt_fixed 6 x | _ \<Rightarrow> json_str rep v)"

definition get_metric :: "(json \<Rightarrow> string) \<Rightarrow> json \<Rightarrow> string \<Rightarrow> string result" where
  "get_metric rep suite_result metric_name =
     (if \<not> json_truth suite_result then Inr ''N/A''
      else rbind (json_get ''metrics'' (JArr []) suite_result) (\<lambda>ms.
           rbind (json_iter ms) (\<lambda>xs.
           rbind (first_named ''name'' metric_name xs) (\<lambda>m.
             case m of None \<Rightarrow> Inr ''N/A''
             | Some m \<Rightarrow> rbind (json_item ''value'' m) (\<lambda>v. Inr (metric_text rep v))))))"

definition gmt_tests :: "string list" where
  "gmt_tests = [''mono_bit_frequency'', ''frequency_within_block_m10000'', ''poker_m4'', ''poker_m8'', ''overlapping_m3_p1'',
     ''overlapping_m3_p2'', ''overlapping_m5_p1'', ''overlapping_m5_p2'', ''runs'', ''runs_distribution'',
     ''longest_run_ones_m10000'', ''longest_run_zeros_m10000'', ''binary_derivative_k3'', ''binary_derivative_k7'',
     ''autocorrelation_d1'', ''autocorrelation_d2'', ''autocorrelation_d8'', ''autocorrelation_d16'', ''matrix_rank'',
     ''cumulative_forward'', ''cumulative_backward'', ''approximate_entropy_m2'', ''approximate_entropy_m5'',
     ''linear_complexity_m500'', ''maurers_universal'', ''discrete_fourier_transform'']"

definition gmt_step :: "json \<Rightarrow> nat \<times> nat \<Rightarrow> (nat \<times> nat) result" where
  "gmt_step m st =
     (case st of (passed, seen) \<Rightarrow>
        rbind (json_item ''name'' m) (\<lambda>n.
          if n \<in> set (map JStr gmt_tests) then
            rbind (json_get ''passed'' JNull m) (\<lambda>p. Inr (if p = JBool True then passed + 1 else passed, seen + 1))
          else Inr (passed, seen)))"

definition get_gmt_stats :: "json \<Rightarrow> string result" where
  "get_gmt_stats suite_result =
     (if \<not> json_truth suite_result then Inr ''N/A''
      else rbind (json_get ''metrics'' (JArr []) suite_result) (\<lambda>ms.
           rbind (json_iter ms) (\<lambda>xs.
           rbind (rfold gmt_step xs (0, 0)) (\<lambda>(passed, seen). Inr (str_of_nat passed @ '' / '' @ str_of_nat seen)))))"

definition get_status :: "(json \<Rightarrow> string) \<Rightarrow> json \<Rightarrow> string result" where
  "get_status rep suite_result =
     (if \<not> json_truth suite_result then Inr ''N/A''
      else rbind (json_get ''status'' (JStr ''N/A'') suite_result) (\<lambda>v. Inr (json_str rep v)))"

section \<open>The program\<close>

definition result_conditions :: "string list" where
  "result_conditions = [''rf_disabled'', ''wifi_idle'', ''wifi_scan'', ''udp_burst'', ''urandom'']"

definition condition_labels :: "string list" where
  "condition_labels = [''RF Disabled'', ''Wi-Fi Idle'', ''Wi-Fi Scan'', ''UDP Burst'', ''Linux /dev/urandom'']"

definition manifest_path :: "path \<Rightarrow> string \<Rightarrow> path" where
  "manifest_path dir cond = dir @ [cond @ ''_256m'', ''manifest.json'']"

definition load_result_manifest :: "doc_env \<Rightarrow> path \<Rightarrow> (world, json) io" where
  "load_result_manifest de p = read_json de p"

fun load_manifests :: "doc_env \<Rightarrow> path \<Rightarrow> string list \<Rightarrow> (world, json list) io" where
  "load_manifests de dir [] = io_return []"
| "load_manifests de dir (c # cs) =
     io_bind (exists_at (manifest_path dir c)) (\<lambda>there.
     io_bind (if there then load_result_manifest de (manifest_path dir c) else io_return JNull) (\<lambda>m.
     io_bind (load_manifests de dir cs) (\<lambda>ms. io_return (m # ms))))"

definition print_line :: "string \<Rightarrow> (string list, unit) io" where
  "print_line l = io_modify (\<lambda>out. out @ [l])"

definition result_row_text :: "string \<Rightarrow> string list \<Rightarrow> string" where
  "result_row_text title vs = ''| '' @ title @ '' | '' @ join '' | '' vs @ '' |''"

text \<open>The suite's result of each condition, and the rows taken from it.\<close>

definition suite_results :: "json list \<Rightarrow> string \<Rightarrow> (string list, json list) io" where
  "suite_results manifests suite = io_lift (rmap (\<lambda>m. get_suite_result m suite) manifests)"

definition print_metric_row :: "(json \<Rightarrow> string) \<Rightarrow> string \<Rightarrow> json list \<Rightarrow> string \<Rightarrow> string \<Rightarrow> (string list, unit) io" where
  "print_metric_row rep title rs metric suffix =
     io_bind (io_lift (rmap (\<lambda>r. rbind (get_metric rep r metric) (\<lambda>t. Inr (t @ suffix))) rs)) (\<lambda>vs.
       print_line (result_row_text title vs))"

definition print_value_row :: "string \<Rightarrow> (json \<Rightarrow> string result) \<Rightarrow> json list \<Rightarrow> (string list, unit) io" where
  "print_value_row title f rs = io_bind (io_lift (rmap f rs)) (\<lambda>vs. print_line (result_row_text title vs))"

definition print_table :: "(json \<Rightarrow> string) \<Rightarrow> json list \<Rightarrow> (string list, unit) io" where
  "print_table rep ms =
     io_then (print_line (''# ESP32 TRNG Statistical Analysis Comparison'' @ [CHR 0x0A]))
     (io_then (print_line (result_row_text ''Test Suite / Metric'' condition_labels))
     (io_then (print_line (''| :--- | '' @ join '' | '' (map (\<lambda>_. '':---:'') result_conditions) @ '' |''))
     (io_bind (suite_results ms ''ent'') (\<lambda>ent.
      io_then (print_metric_row rep ''**ENT** Entropy (bits/byte)'' ent ''entropy'' [])
     (io_then (print_metric_row rep ''**ENT** Chi-Square Exceed %'' ent ''chi_square_exceed_percent'' ''%'')
     (io_then (print_metric_row rep ''**ENT** Mean Value'' ent ''arithmetic_mean'' [])
     (io_then (print_metric_row rep ''**ENT** Monte Carlo Pi'' ent ''monte_carlo_pi'' [])
     (io_then (print_metric_row rep ''**ENT** Serial Correlation'' ent ''serial_correlation'' [])
     (io_bind (suite_results ms ''entropy-iid'') (\<lambda>iid.
      io_bind (suite_results ms ''entropy-non-iid'') (\<lambda>non_iid.
      io_bind (suite_results ms ''entropy-restart'') (\<lambda>restart.
      io_then (print_metric_row rep ''**SP800-90B IID** Min-Entropy (bits/sample)'' iid ''min(H_original, 8 X H_bitstring)'' [])
     (io_then (print_metric_row rep ''**SP800-90B Non-IID** Min-Entropy (bits/sample)'' non_iid ''min(H_original, 8 X H_bitstring)'' [])
     (io_then (print_metric_row rep ''**SP800-90B Restart** Min-Entropy (bits/sample)'' restart ''min(H_r, H_c, H_I)'' [])
     (io_bind (suite_results ms ''borel'') (\<lambda>borel.
      io_then (print_metric_row rep ''**Borel** Normality Metric'' borel ''borel_normality_metric'' [])
     (io_bind (suite_results ms ''ais31-p1-t0'') (\<lambda>p1t0.
      io_bind (suite_results ms ''ais31-p1-t1-t5'') (\<lambda>p1t15.
      io_bind (suite_results ms ''ais31-p2'') (\<lambda>p2.
      io_then (print_metric_row rep ''**AIS31** P1-T0 Passed'' p1t0 ''T0'' [])
     (io_then (print_metric_row rep ''**AIS31** P1-T1-T5 Passed (Outcomes/5)'' p1t15 ''ais31_outcomes_passed'' [])
     (io_then (print_metric_row rep ''**AIS31** P2 Passed (Outcomes/6)'' p2 ''ais31_outcomes_passed'' [])
     (io_bind (suite_results ms ''gmt-sts'') (\<lambda>gmt.
      io_then (print_value_row ''**GM/T 0005-2021** Sub-tests Passed'' get_gmt_stats gmt)
     (io_bind (suite_results ms ''practrand'') (\<lambda>pract.
      io_then (print_value_row ''**Practrand** Status'' (get_status rep) pract)
     (io_bind (suite_results ms ''testu01-rabbit'') (\<lambda>rabbit.
      print_metric_row rep ''**TestU01 Rabbit** Suspect P-values'' rabbit ''suspect_p_values'' []))))))))))))))))))))))))))))"

definition compare_results :: "doc_env \<Rightarrow> (json \<Rightarrow> string) \<Rightarrow> path \<Rightarrow> world \<Rightarrow> unit result \<times> string list" where
  "compare_results de rep dir w =
     (case load_manifests de dir result_conditions w of
        (Inl e, _) \<Rightarrow> (Inl e, []) | (Inr ms, _) \<Rightarrow> print_table rep ms [])"


section \<open>The table by its cells\<close>

text \<open>The lists of a manifest, and the first entry of a name.\<close>

definition listed :: "string \<Rightarrow> json \<Rightarrow> json list" where
  "listed key j = (case json_get key (JArr []) j of Inr (JArr xs) \<Rightarrow> xs | _ \<Rightarrow> [])"

definition entry_of :: "string \<Rightarrow> string \<Rightarrow> json list \<Rightarrow> json option" where
  "entry_of key name xs = List.find (\<lambda>x. json_item key x = Inr (JStr name)) xs"

definition suite_of :: "json \<Rightarrow> string \<Rightarrow> json option" where
  "suite_of m suite = (if m = JNull then None else entry_of ''suite'' suite (listed ''results'' m))"

definition metric_of :: "(json \<Rightarrow> string) \<Rightarrow> string \<Rightarrow> json option \<Rightarrow> string" where
  "metric_of rep metric r =
     (case r of None \<Rightarrow> ''N/A''
      | Some r \<Rightarrow> (case entry_of ''name'' metric (listed ''metrics'' r) of None \<Rightarrow> ''N/A''
          | Some m \<Rightarrow> (case json_item ''value'' m of Inr v \<Rightarrow> metric_text rep v | Inl _ \<Rightarrow> ''N/A'')))"

definition is_gmt :: "json \<Rightarrow> bool" where
  "is_gmt m \<longleftrightarrow> list_ex (\<lambda>t. json_item ''name'' m = Inr (JStr t)) gmt_tests"

definition gmt_of :: "json option \<Rightarrow> string" where
  "gmt_of r =
     (case r of None \<Rightarrow> ''N/A''
      | Some r \<Rightarrow> (let ts = filter is_gmt (listed ''metrics'' r)
          in str_of_nat (length (filter (\<lambda>m. json_item ''passed'' m = Inr (JBool True)) ts)) @ '' / '' @ str_of_nat (length ts)))"

definition status_of :: "(json \<Rightarrow> string) \<Rightarrow> json option \<Rightarrow> string" where
  "status_of rep r =
     (case r of None \<Rightarrow> ''N/A'' | Some r \<Rightarrow> (case json_item ''status'' r of Inr v \<Rightarrow> json_str rep v | Inl _ \<Rightarrow> ''N/A''))"

text \<open>The documented shape: results with a suite and metrics, metrics with a name and a value.\<close>

definition is_list :: "string \<Rightarrow> json \<Rightarrow> bool" where
  "is_list key j = (case json_get key (JArr []) j of Inr (JArr xs) \<Rightarrow> True | _ \<Rightarrow> False)"

definition metric_ok :: "json \<Rightarrow> bool" where
  "metric_ok m \<longleftrightarrow> ok (json_item ''name'' m) \<and> ok (json_item ''value'' m)"

definition suite_ok :: "json \<Rightarrow> bool" where
  "suite_ok r \<longleftrightarrow> ok (json_item ''suite'' r) \<and> is_list ''metrics'' r \<and> list_all metric_ok (listed ''metrics'' r)"

definition manifest_ok :: "json \<Rightarrow> bool" where
  "manifest_ok m \<longleftrightarrow> m = JNull \<or> is_list ''results'' m \<and> list_all suite_ok (listed ''results'' m)"

lemma listed_run: "is_list key j \<Longrightarrow> json_get key (JArr []) j = Inr (JArr (listed key j))"
  by (simp add: is_list_def listed_def split: sum.splits json.splits)

lemma item_is_dict: "ok (json_item k j) \<Longrightarrow> \<exists>d. j = JObj d \<and> d \<noteq> []"
  by (cases j) (auto simp: json_item_def dict_item_def dict_get_def)

lemma first_named_entry:
  "list_all (\<lambda>x. ok (json_item key x)) xs \<Longrightarrow> first_named key name xs = Inr (entry_of key name xs)"
  by (induction xs) (auto simp: entry_of_def ok_iff)

lemma suite_of_ok: "manifest_ok m \<Longrightarrow> suite_of m s = Some r \<Longrightarrow> suite_ok r \<and> json_truth r"
  using item_is_dict [of "''suite''" r]
  by (auto simp: manifest_ok_def suite_of_def entry_of_def find_Some_iff list_all_length suite_ok_def json_truth_def split: if_splits)

lemma get_suite_result_ok:
  assumes "manifest_ok m"
  shows "get_suite_result m s = Inr (case suite_of m s of None \<Rightarrow> JNull | Some r \<Rightarrow> r)"
proof (cases "m = JNull \<or> m = JObj []")
  case True
  then show ?thesis
    by (auto simp: get_suite_result_def suite_of_def json_truth_def listed_def json_get_def entry_of_def dict_get_or_def dict_get_def)
next
  case False
  with assms have l: "is_list ''results'' m" "list_all suite_ok (listed ''results'' m)" by (auto simp: manifest_ok_def)
  then obtain d where "m = JObj d" by (cases m) (auto simp: is_list_def json_get_def)
  with False have "json_truth m" by (simp add: json_truth_def)
  moreover have "list_all (\<lambda>x. ok (json_item ''suite'' x)) (listed ''results'' m)"
    using l(2) by (auto simp: list_all_iff suite_ok_def)
  ultimately show ?thesis
    using False by (simp add: get_suite_result_def listed_run [OF l(1)] json_iter_def first_named_entry suite_of_def)
qed

lemma get_metric_ok:
  assumes "manifest_ok m"
  shows "get_metric rep (case suite_of m s of None \<Rightarrow> JNull | Some r \<Rightarrow> r) metric = Inr (metric_of rep metric (suite_of m s))"
proof (cases "suite_of m s")
  case None
  then show ?thesis by (simp add: get_metric_def json_truth_def metric_of_def)
next
  case (Some r)
  from suite_of_ok [OF assms Some] have l: "is_list ''metrics'' r" "list_all metric_ok (listed ''metrics'' r)" "json_truth r"
    by (simp_all add: suite_ok_def)
  have f: "list_all (\<lambda>x. ok (json_item ''name'' x)) (listed ''metrics'' r)" using l(2) by (auto simp: list_all_iff metric_ok_def)
  have "ok (json_item ''value'' x)" if "entry_of ''name'' metric (listed ''metrics'' r) = Some x" for x
    using that l(2) by (auto simp: entry_of_def find_Some_iff list_all_length metric_ok_def)
  then show ?thesis
    using l(3) by (auto simp: Some get_metric_def listed_run [OF l(1)] json_iter_def first_named_entry [OF f] metric_of_def ok_iff
        split: option.split)
qed

lemma gmt_step_ok:
  assumes "metric_ok m"
  shows "gmt_step m (p, n) = Inr (if is_gmt m \<and> json_item ''passed'' m = Inr (JBool True) then p + 1 else p, if is_gmt m then n + 1 else n)"
proof -
  obtain v d where "json_item ''name'' m = Inr v" "m = JObj d"
    using assms item_is_dict unfolding metric_ok_def ok_iff by blast
  then show ?thesis
    by (auto simp: gmt_step_def is_gmt_def list_ex_iff json_get_def json_item_def dict_get_or_def dict_item_def split: option.splits)
qed

lemma gmt_fold:
  "list_all metric_ok ms \<Longrightarrow> rfold gmt_step ms (p, n) =
     Inr (p + length (filter (\<lambda>m. json_item ''passed'' m = Inr (JBool True)) (filter is_gmt ms)), n + length (filter is_gmt ms))"
  by (induction ms arbitrary: p n) (auto simp: gmt_step_ok)

lemma get_gmt_ok:
  assumes "manifest_ok m"
  shows "get_gmt_stats (case suite_of m s of None \<Rightarrow> JNull | Some r \<Rightarrow> r) = Inr (gmt_of (suite_of m s))"
proof (cases "suite_of m s")
  case None
  then show ?thesis by (simp add: get_gmt_stats_def json_truth_def gmt_of_def)
next
  case (Some r)
  from suite_of_ok [OF assms Some] have "is_list ''metrics'' r" "list_all metric_ok (listed ''metrics'' r)" "json_truth r"
    by (simp_all add: suite_ok_def)
  then show ?thesis by (simp add: Some get_gmt_stats_def listed_run json_iter_def gmt_fold gmt_of_def Let_def)
qed

lemma get_status_ok:
  assumes "manifest_ok m"
  shows "get_status rep (case suite_of m s of None \<Rightarrow> JNull | Some r \<Rightarrow> r) = Inr (status_of rep (suite_of m s))"
proof (cases "suite_of m s")
  case None
  then show ?thesis by (simp add: get_status_def json_truth_def status_of_def)
next
  case (Some r)
  then obtain d where "r = JObj d" "json_truth r"
    using suite_of_ok [OF assms Some] item_is_dict unfolding suite_ok_def by blast
  then show ?thesis
    by (simp add: Some get_status_def status_of_def json_get_def json_item_def dict_get_or_def dict_item_def json_str_def split: option.split)
qed


section \<open>The printed table\<close>

text \<open>The rows of metrics, in two parts around nothing but the order of the suites, as they are printed.\<close>

definition METRIC_ROWS :: "(string \<times> string \<times> string \<times> string) list" where
  "METRIC_ROWS =
     [(''**ENT** Entropy (bits/byte)'', ''ent'', ''entropy'', []),
      (''**ENT** Chi-Square Exceed %'', ''ent'', ''chi_square_exceed_percent'', ''%''),
      (''**ENT** Mean Value'', ''ent'', ''arithmetic_mean'', []),
      (''**ENT** Monte Carlo Pi'', ''ent'', ''monte_carlo_pi'', []),
      (''**ENT** Serial Correlation'', ''ent'', ''serial_correlation'', []),
      (''**SP800-90B IID** Min-Entropy (bits/sample)'', ''entropy-iid'', ''min(H_original, 8 X H_bitstring)'', []),
      (''**SP800-90B Non-IID** Min-Entropy (bits/sample)'', ''entropy-non-iid'', ''min(H_original, 8 X H_bitstring)'', []),
      (''**SP800-90B Restart** Min-Entropy (bits/sample)'', ''entropy-restart'', ''min(H_r, H_c, H_I)'', []),
      (''**Borel** Normality Metric'', ''borel'', ''borel_normality_metric'', []),
      (''**AIS31** P1-T0 Passed'', ''ais31-p1-t0'', ''T0'', []),
      (''**AIS31** P1-T1-T5 Passed (Outcomes/5)'', ''ais31-p1-t1-t5'', ''ais31_outcomes_passed'', []),
      (''**AIS31** P2 Passed (Outcomes/6)'', ''ais31-p2'', ''ais31_outcomes_passed'', [])]"

definition metric_line :: "(json \<Rightarrow> string) \<Rightarrow> json list \<Rightarrow> string \<times> string \<times> string \<times> string \<Rightarrow> string" where
  "metric_line rep ms r = (case r of (title, suite, metric, suffix) \<Rightarrow>
     result_row_text title (map (\<lambda>m. metric_of rep metric (suite_of m suite) @ suffix) ms))"

definition table_lines :: "(json \<Rightarrow> string) \<Rightarrow> json list \<Rightarrow> string list" where
  "table_lines rep ms =
     [''# ESP32 TRNG Statistical Analysis Comparison'' @ [CHR 0x0A],
      result_row_text ''Test Suite / Metric'' condition_labels,
      ''| :--- | '' @ join '' | '' (map (\<lambda>_. '':---:'') result_conditions) @ '' |'']
     @ map (metric_line rep ms) METRIC_ROWS
     @ [result_row_text ''**GM/T 0005-2021** Sub-tests Passed'' (map (\<lambda>m. gmt_of (suite_of m ''gmt-sts'')) ms),
        result_row_text ''**Practrand** Status'' (map (\<lambda>m. status_of rep (suite_of m ''practrand'')) ms),
        metric_line rep ms (''**TestU01 Rabbit** Suspect P-values'', ''testu01-rabbit'', ''suspect_p_values'', [])]"

definition suite_values :: "json list \<Rightarrow> string \<Rightarrow> json list" where
  "suite_values ms s = map (\<lambda>m. case suite_of m s of None \<Rightarrow> JNull | Some r \<Rightarrow> r) ms"

lemma suite_results_run:
  "list_all manifest_ok ms \<Longrightarrow> suite_results ms s out = (Inr (suite_values ms s), out)"
  by (simp add: suite_results_def io_run suite_values_def list_all_iff get_suite_result_ok rmap_Inr)

lemma rmap_all: "list_all (\<lambda>x. f x = Inr (g x)) xs \<Longrightarrow> rmap f xs = Inr (map g xs)"
  by (rule rmap_Inr) (simp add: list_all_iff)

lemma metric_row_run:
  assumes "list_all manifest_ok ms"
  shows "print_metric_row rep title (suite_values ms s) metric suffix out
    = (Inr (), out @ [metric_line rep ms (title, s, metric, suffix)])"
proof -
  have "rmap (\<lambda>r. rbind (get_metric rep r metric) (\<lambda>t. Inr (t @ suffix))) (suite_values ms s)
      = Inr (map (\<lambda>m. metric_of rep metric (suite_of m s) @ suffix) ms)"
    unfolding suite_values_def rmap_map comp_def
    using assms by (intro rmap_all) (auto simp: list_all_iff get_metric_ok)
  then show ?thesis by (simp add: print_metric_row_def print_line_def io_bind_def io_run metric_line_def)
qed

lemma value_row_run:
  assumes "list_all manifest_ok ms" and "\<And>m. manifest_ok m \<Longrightarrow> f (case suite_of m s of None \<Rightarrow> JNull | Some r \<Rightarrow> r) = Inr (g (suite_of m s))"
  shows "print_value_row title f (suite_values ms s) out = (Inr (), out @ [result_row_text title (map (\<lambda>m. g (suite_of m s)) ms)])"
proof -
  have "rmap f (suite_values ms s) = Inr (map (\<lambda>m. g (suite_of m s)) ms)"
    unfolding suite_values_def rmap_map comp_def
    using assms by (intro rmap_all) (auto simp: list_all_iff)
  then show ?thesis by (simp add: print_value_row_def print_line_def io_bind_def io_run)
qed

lemma then_bind: "m s = (Inr x, t) \<Longrightarrow> io_bind m f s = f x t"
  by (simp add: io_bind_def)

lemma print_table_run:
  assumes "list_all manifest_ok ms"
  shows "print_table rep ms [] = (Inr (), table_lines rep ms)"
proof -
  have p: "print_line l out = (Inr (), out @ [l])" for l out by (simp add: print_line_def io_run)
  note run = then_bind [OF p] then_bind [OF suite_results_run [OF assms]] then_bind [OF metric_row_run [OF assms]]
    then_bind [OF value_row_run [where f = get_gmt_stats and g = gmt_of and s = "''gmt-sts''", OF assms get_gmt_ok]]
    then_bind [OF value_row_run [where f = "get_status rep" and g = "status_of rep" and s = "''practrand''", OF assms get_status_ok]]
  show ?thesis
    unfolding print_table_def
    by (simp only: run metric_row_run [OF assms]) (simp add: table_lines_def METRIC_ROWS_def)
qed

lemma load_manifests_run:
  assumes "list_all2 (\<lambda>c m. (files w (manifest_path dir c) = None \<and> m = JNull) \<or> files w (manifest_path dir c) = Some (Doc m)) cs ms"
  shows "load_manifests de dir cs w = (Inr ms, w)"
  using assms
proof (induction cs arbitrary: ms)
  case (Cons c cs)
  then obtain m ms' where ms: "ms = m # ms'"
    and m: "(files w (manifest_path dir c) = None \<and> m = JNull) \<or> files w (manifest_path dir c) = Some (Doc m)"
    by (auto simp: list_all2_Cons1)
  have "load_manifests de dir cs w = (Inr ms', w)" using Cons ms by simp
  then show ?case
    using m by (auto simp: ms io_bind_def exists_at_def io_run load_result_manifest_def read_json_Doc)
qed (simp add: io_run)

text \<open>
  C35: The comparison is the table of its cells. When the manifest of each condition is missing or
  has the documented shape, the program prints a title, a header, a rule and fifteen rows in a
  fixed order, and each row has one cell per condition: the value of the first metric of that name
  in the first result of that suite, printed with six digits when it is a float; the numbers of
  passed and present sub-tests; the status; or \<open>N/A\<close> (with the suffix of the row) where the
  manifest, the suite or the metric is missing.
\<close>

theorem comparison_table:
  assumes "length ms = 5" and "list_all manifest_ok ms"
    and "list_all2 (\<lambda>c m. (files w (manifest_path dir c) = None \<and> m = JNull)
           \<or> files w (manifest_path dir c) = Some (Doc m)) result_conditions ms"
  shows "compare_results de rep dir w = (Inr (), table_lines rep ms) \<and> length (table_lines rep ms) = 18"
  using load_manifests_run [OF assms(3)] print_table_run [OF assms(2)]
  by (simp add: compare_results_def) (simp add: table_lines_def METRIC_ROWS_def)

definition demo_results_manifest :: json where
  "demo_results_manifest = JObj [(''results'', JArr
     [JObj [(''suite'', JStr ''ent''), (''metrics'', JArr [JObj [(''name'', JStr ''entropy''), (''value'', JInt 7)]])],
      JObj [(''suite'', JStr ''practrand''), (''status'', JStr ''ok'')]])]"

definition demo_results :: world where
  "demo_results = \<lparr>files = (\<lambda>p. if p = manifest_path [''r''] ''urandom'' then Some (Doc demo_results_manifest) else None),
     commands = [], slept = []\<rparr>"

theorem comparison_table_witness:
  "\<exists>lines. compare_results \<lparr>float_text = (\<lambda>j. []), encode = (\<lambda>n. []), decode_json = (\<lambda>b. Inr JNull)\<rparr> (\<lambda>j. []) [''r''] demo_results = (Inr (), lines)
    \<and> lines ! 3 = ''| **ENT** Entropy (bits/byte) | N/A | N/A | N/A | N/A | 7 |''
    \<and> lines ! 4 = ''| **ENT** Chi-Square Exceed % | N/A% | N/A% | N/A% | N/A% | N/A% |''"
proof -
  let ?ms = "[JNull, JNull, JNull, JNull, demo_results_manifest]"
  have m: "list_all manifest_ok ?ms"
    by (simp add: manifest_ok_def is_list_def json_get_def demo_results_manifest_def dict_get_or_def dict_get_def listed_def suite_ok_def
        json_item_def dict_item_def metric_ok_def)
  have f: "list_all2 (\<lambda>c m. (files demo_results (manifest_path [''r''] c) = None \<and> m = JNull)
      \<or> files demo_results (manifest_path [''r''] c) = Some (Doc m)) result_conditions ?ms"
    by (simp add: demo_results_def result_conditions_def manifest_path_def)
  have "table_lines (\<lambda>j. []) ?ms ! 3 = ''| **ENT** Entropy (bits/byte) | N/A | N/A | N/A | N/A | 7 |''"
    "table_lines (\<lambda>j. []) ?ms ! 4 = ''| **ENT** Chi-Square Exceed % | N/A% | N/A% | N/A% | N/A% | N/A% |''"
    by code_simp+
  then show ?thesis using comparison_table [OF _ m f] by fastforce
qed

end
