(* ===== verification/UdpTraffic.thy ===== *)
theory UdpTraffic
  imports PyRun PyNumber
begin

text \<open>
  The two ends of the traffic conditions of the random-state experiment: the paced sender of equal
  datagrams (\<open>udp_burst_sender.py\<close>) and the echo server (\<open>udp_echo.py\<close>). Time passes between the
  readings of the clock by amounts that are a parameter, and a pause lasts at least what was asked
  for. Facts: the sender ends, and keeps to its rate.
\<close>

section \<open>The echo server\<close>

text \<open>The answers to the datagrams received so far; a longer one is cut by \<open>recvfrom\<close>.\<close>

definition echo_reply :: "bytes \<times> 'peer \<Rightarrow> bytes \<times> 'peer" where
  "echo_reply d = (case d of (data, addr) \<Rightarrow> (take 2048 data, addr))"

definition udp_echo :: "(bytes \<times> 'peer) list \<Rightarrow> (bytes \<times> 'peer) list" where
  "udp_echo ds = map echo_reply ds"

section \<open>The sender\<close>

text \<open>A value out of range is an error of the argument parser, as one that is no number is.\<close>

definition parse_byte :: "string \<Rightarrow> int result" where
  "parse_byte value =
     rbind (py_int_base 0 value) (\<lambda>parsed. if parsed < 0 \<or> parsed > 255 then Inl ValueError else Inr parsed)"

record burst_args =
  ba_port :: int
  ba_payload_bytes :: int
  ba_byte :: int
  ba_interval_us :: int
  ba_duration_s :: real

text \<open>\<open>b_now\<close> is the time, \<open>b_reads\<close> the number of readings; each datagram goes with its time.\<close>

record burst_state =
  b_now :: real
  b_reads :: nat
  b_sent :: "(real \<times> bytes) list"
  b_open :: bool

type_synonym 'a burst = "(burst_state, 'a) prog"

definition read_clock :: "(nat \<Rightarrow> real) \<Rightarrow> real burst" where
  "read_clock lag s =
     (let t = b_now s + lag (b_reads s) in Some (Inr t, s\<lparr>b_now := t, b_reads := Suc (b_reads s)\<rparr>))"

definition burst_pause :: "real \<Rightarrow> unit burst" where
  "burst_pause d = tx_do (\<lambda>s. s\<lparr>b_now := b_now s + d\<rparr>)"

definition burst_send :: "bytes \<Rightarrow> nat burst" where
  "burst_send payload s = Some (Inr (length payload), s\<lparr>b_sent := b_sent s @ [(b_now s, payload)]\<rparr>)"

definition burst_turn :: "(nat \<Rightarrow> real) \<Rightarrow> real \<Rightarrow> bytes \<Rightarrow> real \<times> nat \<times> nat \<Rightarrow> (real \<times> nat \<times> nat) burst" where
  "burst_turn lag interval payload st =
     (case st of (next_send, packets, total_bytes) \<Rightarrow>
        tx_bind (burst_send payload) (\<lambda>n.
        tx_bind (read_clock lag) (\<lambda>now.
        (let next_send = next_send + interval; sleep_for = next_send - now
         in if sleep_for > 0 then tx_then (burst_pause sleep_for) (tx_lift (Inr (next_send, packets + 1, total_bytes + n)))
            else tx_bind (read_clock lag) (\<lambda>now. tx_lift (Inr (now, packets + 1, total_bytes + n)))))))"

partial_function (option) burst_loop ::
    "(nat \<Rightarrow> real) \<Rightarrow> real \<Rightarrow> bytes \<Rightarrow> real \<Rightarrow> real \<times> nat \<times> nat \<Rightarrow> burst_state \<Rightarrow> ((nat \<times> nat) result \<times> burst_state) option" where
  "burst_loop lag interval payload deadline st s =
     (case read_clock lag s of
        Some (Inr now, s1) \<Rightarrow>
          (if now < deadline then
             (case burst_turn lag interval payload st s1 of
                Some (Inr st', s2) \<Rightarrow> burst_loop lag interval payload deadline st' s2
              | Some (Inl e, s2) \<Rightarrow> Some (Inl e, s2)
              | None \<Rightarrow> None)
           else Some (Inr (snd st), s1))
      | Some (Inl e, s1) \<Rightarrow> Some (Inl e, s1)
      | None \<Rightarrow> None)"

definition check_burst_args :: "burst_args \<Rightarrow> unit result" where
  "check_burst_args a =
     (if ba_port a \<le> 0 \<or> ba_port a > 65535 then Inl (SystemExit (''invalid port: '' @ str_of_int (ba_port a)))
      else if ba_payload_bytes a \<le> 0 \<or> ba_payload_bytes a > 1400
        then Inl (SystemExit (''invalid payload size: '' @ str_of_int (ba_payload_bytes a)))
      else if ba_interval_us a \<le> 0 then Inl (SystemExit (''invalid interval: '' @ str_of_int (ba_interval_us a)))
      else Inr ())"

definition burst_payload_of :: "burst_args \<Rightarrow> bytes" where
  "burst_payload_of a = replicate (nat (ba_payload_bytes a)) (byte_of_nat (nat (ba_byte a)))"

definition burst_interval_s :: "burst_args \<Rightarrow> real" where
  "burst_interval_s a = of_int (ba_interval_us a) / 1000000"

text \<open>The numbers of packets and bytes that the last line prints.\<close>

definition udp_burst_main :: "(nat \<Rightarrow> real) \<Rightarrow> burst_args \<Rightarrow> (nat \<times> nat) burst" where
  "udp_burst_main lag a =
     tx_bind (tx_lift (check_burst_args a)) (\<lambda>_.
     tx_bind (read_clock lag) (\<lambda>t.
     tx_bind (read_clock lag) (\<lambda>next_send.
     tx_then (tx_do (\<lambda>s. s\<lparr>b_open := True\<rparr>))
       (tx_finally (burst_loop lag (burst_interval_s a) (burst_payload_of a) (t + ba_duration_s a) (next_send, 0, 0))
          (tx_do (\<lambda>s. s\<lparr>b_open := False\<rparr>))))))"

section \<open>The rate\<close>

lemma read_clock_run: "read_clock lag s = Some (Inr (b_now s + lag (b_reads s)),
    s\<lparr>b_now := b_now s + lag (b_reads s), b_reads := Suc (b_reads s)\<rparr>)"
  by (simp add: read_clock_def Let_def)

text \<open>
  The state at the head of the loop, after \<open>n\<close> packets of a run whose first one was due at \<open>start\<close>:
  the time is not before the one the next packet is due at, which is at least \<open>n\<close> intervals later.
\<close>

definition on_schedule :: "real \<Rightarrow> real \<Rightarrow> bytes \<Rightarrow> nat \<Rightarrow> real \<times> nat \<times> nat \<Rightarrow> burst_state \<Rightarrow> bool" where
  "on_schedule start interval payload n st s \<longleftrightarrow>
     (case st of (next_send, packets, total_bytes) \<Rightarrow>
        packets = n \<and> total_bytes = n * length payload \<and> next_send \<le> b_now s \<and> start + real n * interval \<le> next_send
        \<and> map snd (b_sent s) = replicate n payload
        \<and> (\<forall>i < n. start + real i * interval \<le> fst (b_sent s ! i)))"

lemma burst_turn_run:
  assumes "on_schedule start interval payload n st s" and "\<forall>k. 0 \<le> lag k"
  obtains st' t where "burst_turn lag interval payload st s = Some (Inr st', t)" "on_schedule start interval payload (Suc n) st' t"
    "b_open t = b_open s"
proof -
  obtain x p b where st: "st = (x, p, b)" by (cases st)
  define s1 where "s1 = s\<lparr>b_sent := b_sent s @ [(b_now s, payload)]\<rparr>"
  define now where "now = b_now s + lag (b_reads s)"
  define s2 where "s2 = s1\<lparr>b_now := now, b_reads := Suc (b_reads s)\<rparr>"
  have run: "burst_turn lag interval payload st s =
      (if x + interval - now > 0 then Some (Inr (x + interval, p + 1, b + length payload), s2\<lparr>b_now := x + interval\<rparr>)
       else Some (Inr (now + lag (Suc (b_reads s)), p + 1, b + length payload),
         s2\<lparr>b_now := now + lag (Suc (b_reads s)), b_reads := Suc (Suc (b_reads s))\<rparr>))"
    by (simp add: st burst_turn_def burst_send_def tx_bind_def read_clock_run burst_pause_def tx_steps Let_def s2_def s1_def now_def)
  have inv: "p = n" "b = n * length payload" "x \<le> b_now s" "start + real n * interval \<le> x"
    "map snd (b_sent s) = replicate n payload" "\<forall>i < n. start + real i * interval \<le> fst (b_sent s ! i)"
    using assms(1) by (simp_all add: on_schedule_def st)
  have len: "length (b_sent s) = n" using arg_cong [OF inv(5), of length] by simp
  have sent: "map snd (b_sent s1) = replicate (Suc n) payload"
    "\<forall>i < Suc n. start + real i * interval \<le> fst (b_sent s1 ! i)"
    using inv len by (simp_all add: s1_def replicate_append_same nth_append less_Suc_eq)
  have lag: "0 \<le> lag (b_reads s)" "0 \<le> lag (Suc (b_reads s))" using assms(2) by simp_all
  have next_due: "start + real (Suc n) * interval \<le> x + interval" using inv(4) by (simp add: distrib_right)
  show thesis
  proof (cases "x + interval - now > 0")
    case True
    show thesis
      by (rule that [of "(x + interval, p + 1, b + length payload)" "s2\<lparr>b_now := x + interval\<rparr>"])
        (use True run inv sent next_due in \<open>simp_all add: on_schedule_def s2_def s1_def\<close>)
  next
    case False
    show thesis
      by (rule that [of "(now + lag (Suc (b_reads s)), p + 1, b + length payload)"
            "s2\<lparr>b_now := now + lag (Suc (b_reads s)), b_reads := Suc (Suc (b_reads s))\<rparr>"])
        (use False run inv sent next_due lag in \<open>simp_all add: on_schedule_def s2_def s1_def\<close>)
  qed
qed


lemma burst_loop_ends:
  assumes "0 < interval" and "\<forall>k. 0 \<le> lag k" and "on_schedule start interval payload n st s"
    and "n = 0 \<or> start + real (n - 1) * interval < deadline"
  shows "\<exists>p t. burst_loop lag interval payload deadline st s = Some (Inr (p, p * length payload), t)
    \<and> (p = 0 \<or> start + real (p - 1) * interval < deadline) \<and> map snd (b_sent t) = replicate p payload
    \<and> (\<forall>i < p. start + real i * interval \<le> fst (b_sent t ! i)) \<and> b_open t = b_open s"
  using assms(3,4)
proof (induction "nat \<lceil>(deadline - start) / interval\<rceil> - n" arbitrary: n st s rule: less_induct)
  case less
  define now where "now = b_now s + lag (b_reads s)"
  define s1 where "s1 = s\<lparr>b_now := now, b_reads := Suc (b_reads s)\<rparr>"
  have r: "read_clock lag s = Some (Inr now, s1)" by (simp add: read_clock_run now_def s1_def)
  have lag: "0 \<le> lag (b_reads s)" using assms(2) by simp
  have o: "on_schedule start interval payload n st s1"
    using less.prems(1) lag by (auto simp: on_schedule_def s1_def now_def)
  show ?case
  proof (cases "now < deadline")
    case False
    then show ?thesis
      using o less.prems(2) by (subst burst_loop.simps) (auto simp: r s1_def on_schedule_def split: prod.splits)
  next
    case True
    have due: "start + real n * interval < deadline"
      using o True by (auto simp: on_schedule_def s1_def split: prod.splits)
    then have "real n < (deadline - start) / interval" using assms(1) by (simp add: field_simps)
    then have m: "n < nat \<lceil>(deadline - start) / interval\<rceil>" by linarith
    obtain st' t where t: "burst_turn lag interval payload st s1 = Some (Inr st', t)"
      "on_schedule start interval payload (Suc n) st' t" "b_open t = b_open s1"
      using burst_turn_run [OF o assms(2)] by blast
    have "burst_loop lag interval payload deadline st s = burst_loop lag interval payload deadline st' t"
      using True by (subst burst_loop.simps) (simp add: r t(1))
    then show ?thesis
      using less.hyps [of "Suc n" st' t] m t(2,3) due by (simp add: s1_def)
  qed
qed

definition burst_begin :: "real \<Rightarrow> burst_state" where
  "burst_begin now = \<lparr>b_now = now, b_reads = 0, b_sent = [], b_open = False\<rparr>"

text \<open>
  The sender ends and keeps to its rate. With accepted arguments, however much time passes
  between the readings of the clock, the run ends; its socket is closed; it reports the packets it
  sent and their bytes; every packet is the payload; packet \<open>i\<close> left no earlier than \<open>i\<close> intervals
  after the start; so there are at most as many packets as intervals begin within the duration,
  and a delay never leads to a burst that catches up.
\<close>

theorem udp_rate_bounded:
  assumes "check_burst_args a = Inr ()" and "\<forall>k. 0 \<le> lag k" and "0 \<le> ba_duration_s a"
  shows "\<exists>p t start. udp_burst_main lag a (burst_begin now) = Some (Inr (p, p * nat (ba_payload_bytes a)), t)
    \<and> now \<le> start \<and> real p * burst_interval_s a < ba_duration_s a + burst_interval_s a
    \<and> map snd (b_sent t) = replicate p (burst_payload_of a)
    \<and> (\<forall>i < p. start + real i * burst_interval_s a \<le> fst (b_sent t ! i))
    \<and> \<not> b_open t"
proof -
  let ?I = "burst_interval_s a" and ?pl = "burst_payload_of a"
  define start where "start = now + lag 0 + lag 1"
  define s where "s = \<lparr>b_now = start, b_reads = 2, b_sent = [], b_open = True\<rparr>"
  let ?dl = "now + lag 0 + ba_duration_s a"
  have I: "0 < ?I" using assms(1) by (simp add: check_burst_args_def burst_interval_s_def split: if_splits)
  have lag: "0 \<le> lag 0" "0 \<le> lag 1" using assms(2) by simp_all
  have "on_schedule start ?I ?pl 0 (start, 0, 0) s" by (simp add: on_schedule_def s_def)
  then obtain p t where t: "burst_loop lag ?I ?pl ?dl (start, 0, 0) s = Some (Inr (p, p * length ?pl), t)"
    "p = 0 \<or> start + real (p - 1) * ?I < ?dl" "map snd (b_sent t) = replicate p ?pl"
    "\<forall>i < p. start + real i * ?I \<le> fst (b_sent t ! i)"
    using burst_loop_ends [OF I assms(2), of start ?pl 0 "(start, 0, 0)" s ?dl] by auto
  have "udp_burst_main lag a (burst_begin now) = Some (Inr (p, p * nat (ba_payload_bytes a)), t\<lparr>b_open := False\<rparr>)"
    using t(1) assms(1)
    by (simp add: udp_burst_main_def tx_bind_def tx_steps read_clock_run burst_begin_def tx_finally_def s_def start_def
        numeral_2_eq_2 burst_payload_of_def [of a])
  moreover have "real p * ?I < ba_duration_s a + ?I"
  proof (cases p)
    case 0
    then show ?thesis using I assms(3) by simp
  next
    case (Suc q)
    then have "start + real q * ?I < ?dl" using t(2) by simp
    then show ?thesis using lag by (simp add: Suc start_def distrib_right)
  qed
  ultimately show ?thesis using t(3,4) lag by (intro exI [of _ p] exI [of _ "t\<lparr>b_open := False\<rparr>"] exI [of _ start]) (simp add: start_def)
qed

theorem udp_rate_bounded_witness:
  "\<exists>p t. udp_burst_main (\<lambda>k. 1 / 100) \<lparr>ba_port = 9999, ba_payload_bytes = 64, ba_byte = 0x42, ba_interval_us = 1000, ba_duration_s = 30\<rparr>
      (burst_begin 0) = Some (Inr (p, p * 64), t) \<and> real p \<le> 30001 \<and> \<not> b_open t"
proof -
  have "check_burst_args \<lparr>ba_port = 9999, ba_payload_bytes = 64, ba_byte = 0x42, ba_interval_us = 1000, ba_duration_s = 30\<rparr> = Inr ()"
    by (simp add: check_burst_args_def)
  from udp_rate_bounded [OF this, of "\<lambda>k. 1 / 100" 0] show ?thesis by (force simp: burst_interval_s_def)
qed

end
