(* ===== verification/RenewalPlots.thy ===== *)
theory RenewalPlots
  imports RenewalLog RebootFiles "HOL-Library.List_Lexorder" "HOL-Library.Char_ord"
begin

text \<open>
  The plots of the renewal experiment (\<open>plot_renewal.py\<close>): which summaries are taken, the CSV file
  that belongs to each, the labels, the values of the rate figure, the traces of the credited pool
  balance, and the table. Parameters: the names in a directory, the resolution of links, the text
  of a float, and what \<open>csv.DictReader\<close> reads from a file that was not written as a table. The
  drawing and console output are left out. Facts: every summary is taken once; the trace of a log
  is what the parser computed for it.
\<close>

section \<open>Inputs\<close>

record plot_env =
  pe_names :: "path \<Rightarrow> string list"
  pe_resolve :: "path \<Rightarrow> path"
  pe_text :: "json \<Rightarrow> string"
  pe_rows :: "node \<Rightarrow> (string, string) dict list"
  pe_docs :: doc_env

definition found_in :: "plot_env \<Rightarrow> path \<Rightarrow> string \<Rightarrow> path list" where
  "found_in env dir suffix = map (\<lambda>n. dir @ [n]) (sort (filter (\<lambda>n. endswith n suffix) (pe_names env dir)))"

definition candidates :: "plot_env \<Rightarrow> world \<Rightarrow> path \<Rightarrow> path list" where
  "candidates env w item =
     (if files w item = Some Folder then found_in env item ''_summary.json'' @ found_in env item ''.summary.json''
      else if is_file (files w item) then [item] else [])"

definition keep_new :: "plot_env \<Rightarrow> path \<Rightarrow> path list \<Rightarrow> path list" where
  "keep_new env p unique = (if pe_resolve env p \<in> set (map (pe_resolve env) unique) then unique else unique @ [p])"

definition discover_summary_paths :: "plot_env \<Rightarrow> world \<Rightarrow> path list \<Rightarrow> path list" where
  "discover_summary_paths env w inputs = fold (keep_new env) (concat (map (candidates env w) inputs)) []"

text \<open>\<open>path.with_suffix(suffix)\<close>: the last dot counts unless it is the first or the last character.\<close>

definition with_suffix :: "path \<Rightarrow> string \<Rightarrow> path" where
  "with_suffix p suffix =
     (let n = path_name p; stem = rev (drop 1 (dropWhile (\<lambda>c. c \<noteq> CHR ''.'') (rev n)));
          dot = (CHR ''.'' \<in> set n \<and> stem \<noteq> [] \<and> last n \<noteq> CHR ''.'')
      in parent p @ [(if dot then stem else n) @ suffix])"

definition csv_candidates :: "path \<Rightarrow> path list" where
  "csv_candidates p =
     (let n = path_name p; k = length n - length ''_summary.json''
      in (if endswith n ''_summary.json'' then [parent p @ [take k n @ ''.csv'']] else [])
         @ (if endswith n ''.summary.json'' then [parent p @ [take k n @ ''.csv'']] else [])
         @ [with_suffix p ''.csv''])"

definition matching_csv :: "world \<Rightarrow> path \<Rightarrow> path option" where
  "matching_csv w p = List.find (\<lambda>q. is_file (files w q)) (csv_candidates p)"

section \<open>Labels and runs\<close>

function replace_sub :: "string \<Rightarrow> string \<Rightarrow> string \<Rightarrow> string" where
  "replace_sub p r s =
     (if s = [] \<or> p = [] then s
      else if startswith s p then r @ replace_sub p r (drop (length p) s) else hd s # replace_sub p r (tl s))"
  by pat_completeness auto
termination
  by (relation "measure (\<lambda>(p, r, s). length s)") auto

declare replace_sub.simps [simp del]

definition text_of :: "json \<Rightarrow> string result" where
  "text_of j = (case j of JStr s \<Rightarrow> Inr s | _ \<Rightarrow> Inl AttributeError)"

definition run_label :: "json \<Rightarrow> string result" where
  "run_label summary =
     rbind (json_get ''metadata'' (JObj []) summary) (\<lambda>meta.
     rbind (json_get ''key_exchange'' (JStr ''unknown'') meta) (\<lambda>kex.
     rbind (json_get ''signature'' (JStr ''unknown'') meta) (\<lambda>sig.
     rbind (json_get ''network_injection'' (JStr ''disabled'') meta) (\<lambda>net.
     rbind (json_get ''local_hw_refill_after_bootstrap'' (JStr ''enabled'') meta) (\<lambda>local.
     let mode = (if local = JStr ''disabled'' then ''remote-assisted'' else if net = JStr ''enabled'' then ''local+remote'' else ''local-only'')
     in rbind (text_of kex) (\<lambda>k. rbind (text_of sig) (\<lambda>g.
          Inr (replace_sub ''ECDHE-'' [] (replace_sub ''ML-KEM-'' ''K'' k) @ ''+''
            @ replace_sub ''ECDSA-'' [] (replace_sub ''ML-DSA-'' ''D'' g) @ [CHR 0x0A] @ mode))))))))"

record plot_run =
  pr_summary_path :: path
  pr_csv_path :: "path option"
  pr_summary :: json
  pr_label :: string

fun load_runs :: "plot_env \<Rightarrow> path list \<Rightarrow> (world, plot_run list) io" where
  "load_runs env [] = io_return []"
| "load_runs env (p # ps) =
     io_bind (read_json (pe_docs env) p) (\<lambda>summary.
     io_bind (io_get (\<lambda>w. matching_csv w p)) (\<lambda>csv.
     io_bind (io_lift (run_label summary)) (\<lambda>label.
     io_bind (load_runs env ps) (\<lambda>rs.
       io_return (\<lparr>pr_summary_path = p, pr_csv_path = csv, pr_summary = summary, pr_label = label\<rparr> # rs)))))"

section \<open>The rates\<close>

text \<open>\<open>float(raw)\<close> of a JSON value, and \<open>value\<close>.\<close>

definition json_float :: "json \<Rightarrow> real result" where
  "json_float j =
     (case j of JBool b \<Rightarrow> Inr (if b then 1 else 0) | JInt i \<Rightarrow> Inr (of_int i) | JFloat x \<Rightarrow> Inr x
      | JStr s \<Rightarrow> py_float s | _ \<Rightarrow> Inl TypeError)"

definition summary_value :: "string \<Rightarrow> json \<Rightarrow> real result" where
  "summary_value key summary =
     rbind (json_get key JNull summary) (\<lambda>raw. if raw = JNull then Inr 0 else json_float raw)"

definition rate_column :: "plot_run list \<Rightarrow> string \<Rightarrow> real list result" where
  "rate_column runs key = rmap (\<lambda>r. summary_value key (pr_summary r)) runs"

text \<open>Of each run: local and remote supply, debit, demand, and the text above its bar.\<close>

record rate_bar =
  rb_local :: real
  rb_net :: real
  rb_out :: real
  rb_mu :: real
  rb_text :: string
  rb_covered :: bool

definition rate_bar_of :: "real \<times> real \<times> real \<times> real \<times> real \<Rightarrow> rate_bar" where
  "rate_bar_of v = (case v of (l, n, out, mu, ratio) \<Rightarrow>
     \<lparr>rb_local = l, rb_net = n, rb_out = out, rb_mu = mu,
      rb_text = (if out = 0 then ''inf'' else fmt_fixed 2 ratio @ ''x''), rb_covered = (l + n \<ge> out)\<rparr>)"

definition plot_rates :: "plot_run list \<Rightarrow> rate_bar list result" where
  "plot_rates runs =
     rbind (rate_column runs ''lambda_local_wall_Bps'') (\<lambda>ls.
     rbind (rate_column runs ''lambda_net_wall_Bps'') (\<lambda>ns.
     rbind (rate_column runs ''lambda_out_wall_Bps'') (\<lambda>os.
     rbind (rate_column runs ''mu_rng_output_bytes_mean'') (\<lambda>ms.
     rbind (rate_column runs ''renewal_supply_to_out_ratio'') (\<lambda>rs.
       Inr (map rate_bar_of (zip ls (zip ns (zip os (zip ms rs))))))))))"

section \<open>The traces\<close>

definition cell_text :: "(json \<Rightarrow> string) \<Rightarrow> json \<Rightarrow> string" where
  "cell_text rep j = (case j of JNull \<Rightarrow> [] | _ \<Rightarrow> json_str rep j)"

definition csv_dicts :: "plot_env \<Rightarrow> node \<Rightarrow> (string, string) dict list" where
  "csv_dicts env n = (case n of Table hs rs \<Rightarrow> map (\<lambda>r. zip hs (map (cell_text (pe_text env)) r)) rs | _ \<Rightarrow> pe_rows env n)"

definition trace_row :: "(string, string) dict \<Rightarrow> (real \<times> real \<times> real) result" where
  "trace_row row =
     rbind (case dict_get row ''cumulative_wall_s'' of
              Some t \<Rightarrow> if t \<noteq> [] then py_float t else rbind (dict_item row ''iter'') py_float
            | None \<Rightarrow> rbind (dict_item row ''iter'') py_float) (\<lambda>x.
     rbind (rbind (dict_item row ''pool_credit_bits_post'') py_float) (\<lambda>y.
     rbind (rbind (dict_item row ''ret'') py_float) (\<lambda>ret. Inr (x, y / 8, ret))))"

definition load_trace :: "plot_env \<Rightarrow> path \<Rightarrow> (world, (real \<times> real \<times> real) list) io" where
  "load_trace env p = io_bind (open_read p) (\<lambda>n. io_lift (rmap trace_row (csv_dicts env n)))"

text \<open>The label, the points of a trace, and those of them that are marked as failed.\<close>

definition pool_trace :: "plot_env \<Rightarrow> plot_run \<Rightarrow> path \<Rightarrow> (world, string \<times> (real \<times> real) list \<times> (real \<times> real) list) io" where
  "pool_trace env r p =
     io_bind (load_trace env p) (\<lambda>ts. io_return
       (replace_sub [CHR 0x0A] '' / '' (pr_label r), map (\<lambda>(x, y, ret). (x, y)) ts,
        map (\<lambda>(x, y, ret). (x, y)) (filter (\<lambda>(x, y, ret). ret \<noteq> 0) ts)))"

text \<open>Without any CSV file there is no figure.\<close>

fun pool_traces :: "plot_env \<Rightarrow> plot_run list \<Rightarrow> (world, (string \<times> (real \<times> real) list \<times> (real \<times> real) list) list) io" where
  "pool_traces env [] = io_return []"
| "pool_traces env (r # rs) =
     (case pr_csv_path r of
        None \<Rightarrow> pool_traces env rs
      | Some p \<Rightarrow> io_bind (pool_trace env r p) (\<lambda>t. io_bind (pool_traces env rs) (\<lambda>ts. io_return (t # ts))))"

section \<open>The table and the program\<close>

definition PLOT_FIELDS :: "string list" where
  "PLOT_FIELDS = [''label'', ''iterations_ok'', ''iterations_failed'', ''mu_rng_output_bytes_mean'', ''lambda_out_wall_Bps'',
     ''lambda_local_wall_Bps'', ''lambda_net_wall_Bps'', ''lambda_supply_wall_Bps'', ''renewal_margin_wall_Bps'',
     ''renewal_supply_to_out_ratio'', ''drbg_expansion_factor'', ''pool_credit_delta_bits'']"

definition plot_table_row :: "plot_run \<Rightarrow> json list result" where
  "plot_table_row r =
     rbind (rmap (\<lambda>f. json_get f (JStr []) (pr_summary r)) PLOT_FIELDS) (\<lambda>vs.
       Inr (JStr (replace_sub [CHR 0x0A] '' / '' (pr_label r)) # tl vs))"

definition plot_table :: "plot_run list \<Rightarrow> node result" where
  "plot_table runs = rbind (rmap plot_table_row runs) (\<lambda>rows. Inr (Table PLOT_FIELDS rows))"

text \<open>What the run leaves: the bars, the traces (none without a CSV file), the table.\<close>

definition plot_renewal_main :: "plot_env \<Rightarrow> path list \<Rightarrow> path \<Rightarrow>
    (world, rate_bar list \<times> (string \<times> (real \<times> real) list \<times> (real \<times> real) list) list) io" where
  "plot_renewal_main env inputs out =
     io_bind (io_get (\<lambda>w. discover_summary_paths env w inputs)) (\<lambda>paths.
     if paths = [] then io_raise (SystemExit ''No summary JSON files found'')
     else io_bind (load_runs env paths) (\<lambda>runs.
          io_bind (io_lift (plot_rates runs)) (\<lambda>bars.
          io_then (mkdirs out)
         (io_bind (pool_traces env (filter (\<lambda>r. pr_csv_path r \<noteq> None) runs)) (\<lambda>traces.
          io_then (mkdirs out)
         (io_bind (io_lift (plot_table runs)) (\<lambda>t.
          io_then (write_node (out @ [''renewal_summary_table.csv'']) t) (io_return (bars, traces)))))))))"


section \<open>Every summary once\<close>

lemma keep_new_distinct:
  "distinct (map (pe_resolve env) u) \<Longrightarrow> distinct (map (pe_resolve env) (keep_new env p u))"
  by (simp add: keep_new_def)

lemma discover_fold:
  assumes "distinct (map (pe_resolve env) u)"
  shows "distinct (map (pe_resolve env) (fold (keep_new env) ps u))"
    and "pe_resolve env ` set (fold (keep_new env) ps u) = pe_resolve env ` (set u \<union> set ps)"
    and "set (fold (keep_new env) ps u) \<subseteq> set u \<union> set ps"
  using assms
proof (induction ps arbitrary: u)
  case (Cons p ps)
  { case 1 then show ?case using Cons.IH(1) keep_new_distinct by simp }
  { case 2
    have "pe_resolve env ` set (keep_new env p u) = pe_resolve env ` (set u \<union> {p})" by (auto simp: keep_new_def)
    then show ?case using Cons.IH(2) [OF keep_new_distinct [OF 2], of p] by (simp add: image_Un) }
  { case 3
    have "set (keep_new env p u) \<subseteq> insert p (set u)" by (auto simp: keep_new_def)
    then show ?case using Cons.IH(3) [OF keep_new_distinct [OF 3], of p] by auto }
qed simp_all

text \<open>
  Every candidate of the inputs is taken, up to links, and none is taken twice.
\<close>

theorem summaries_once:
  "distinct (map (pe_resolve env) (discover_summary_paths env w inputs))
    \<and> set (discover_summary_paths env w inputs) \<subseteq> (\<Union>i \<in> set inputs. set (candidates env w i))
    \<and> pe_resolve env ` set (discover_summary_paths env w inputs) = (\<Union>i \<in> set inputs. pe_resolve env ` set (candidates env w i))"
  using discover_fold [of env "[]" "concat (map (candidates env w) inputs)"]
  by (auto simp: discover_summary_paths_def)

section \<open>Numbers are read back\<close>

lemma digits_value: "all_digits 10 s \<Longrightarrow> c \<in> set s \<Longrightarrow> is_digit_char c"
proof -
  have d: "digit_value 10 c \<noteq> None \<Longrightarrow> is_digit_char c" for c
    unfolding digit_value_def is_digit_char_def Let_def by (cases "code c < 48"; cases "code c < 58"; simp split: if_splits)
  show "all_digits 10 s \<Longrightarrow> c \<in> set s \<Longrightarrow> is_digit_char c"
    unfolding all_digits_def list_all_iff using d by blast
qed

lemma drop_underscores_plain: "CHR ''_'' \<notin> set s \<Longrightarrow> drop_underscores b s = Some s"
  by (induction s arbitrary: b) auto

lemma dec_value_nat_text: "dec_value (nat_text 10 n) = n"
proof (induction "10 :: nat" n rule: nat_text.induct)
  case (1 n)
  show ?case
  proof (cases "n < 10")
    case True
    then show ?thesis by (simp add: nat_text.simps [of 10 n] dec_value_def)
  next
    case False
    then show ?thesis using 1 by (simp add: nat_text.simps [of 10 n] dec_value_def)
  qed
qed

lemma read_decimal_nat: "read_decimal (nat_text 10 n) = Some (real n)"
proof -
  have d: "\<forall>c \<in> set (nat_text 10 n). is_digit_char c" using nat_text_digits [of 10 n] digits_value by auto
  have tw: "takeWhile is_digit_char (nat_text 10 n) = nat_text 10 n" and dw: "dropWhile is_digit_char (nat_text 10 n) = []"
    using d by (simp_all add: takeWhile_eq_all_conv dropWhile_eq_Nil_conv)
  show ?thesis
    unfolding read_decimal_def Let_def tw dw
    by (simp add: read_exponent_def scale10_def dec_value_nat_text nat_text_nonempty)
qed

lemma py_float_nat:
  assumes "real n < float_max_bound" and "\<forall>c \<in> set u. is_digit_char c \<or> c = CHR ''-''"
    and "int_strip u = u" and "split_sign u = (sg, nat_text 10 n)"
  shows "py_float u = Inr (of_int sg * real n)"
proof -
  have "CHR ''_'' \<notin> set u" using assms(2) by (auto simp: is_digit_char_def code_def)
  moreover have "lower (nat_text 10 n) \<notin> {''inf'', ''infinity'', ''nan''}"
  proof -
    obtain c cs where c: "nat_text 10 n = c # cs" using nat_text_nonempty by (cases "nat_text 10 n") auto
    then have "is_digit_char c" using nat_text_digits [of 10 n] digits_value by auto
    then have "hd (lower (nat_text 10 n)) = c" "c \<noteq> CHR ''i''" "c \<noteq> CHR ''n''"
      by (auto simp: c lower_def is_digit_char_def code_def Let_def)
    then show ?thesis by auto
  qed
  ultimately show ?thesis
    using assms(1) by (simp add: py_float_def assms(3,4) drop_underscores_plain read_decimal_nat)
qed

lemma py_float_str_of_int:
  assumes "\<bar>real_of_int i\<bar> < float_max_bound"
  shows "py_float (str_of_int i) = Inr (of_int i)"
proof (cases "i < 0")
  case True
  let ?n = "nat (- i)"
  have "py_float (CHR ''-'' # nat_text 10 ?n) = Inr (of_int (- 1) * real ?n)"
    using assms True nat_text_digits [of 10 ?n] digits_value
    by (intro py_float_nat) (auto simp: int_strip_digits)
  with True show ?thesis by (simp add: str_of_int_def str_of_nat_def)
next
  case False
  let ?n = "nat i"
  have "py_float (nat_text 10 ?n) = Inr (of_int 1 * real ?n)"
    using assms False nat_text_digits [of 10 ?n] digits_value
    by (intro py_float_nat) (auto simp: int_strip_digits split_sign_digits)
  with False show ?thesis by (simp add: str_of_int_def str_of_nat_def)
qed


section \<open>The trace of a log\<close>

text \<open>The CSV file of a log as \<open>parse_renewal_log.py\<close> writes it.\<close>

definition cell_json :: "renewal_cell \<Rightarrow> json" where
  "cell_json c = (case c of CInt i \<Rightarrow> JInt i | CReal x \<Rightarrow> JFloat x | CEmpty \<Rightarrow> JStr [])"

definition renewal_table :: "renewal_cell list list \<Rightarrow> node" where
  "renewal_table rows = Table RENEWAL_CSV_FIELDS (map (map cell_json) rows)"

text \<open>The text of the wall clock of each row reads back, and the counters fit a float.\<close>

definition printable :: "plot_env \<Rightarrow> enriched \<Rightarrow> bool" where
  "printable env r \<longleftrightarrow> py_float (pe_text env (JFloat (cumulative_s r))) = Inr (cumulative_s r)
     \<and> (\<forall>k \<in> set [''pool_credit_bits_post'', ''ret'']. \<bar>real_of_int (dict_get_or (counters r) k 0)\<bar> < float_max_bound)"

definition trace_point :: "enriched \<Rightarrow> real \<times> real \<times> real" where
  "trace_point r = (cumulative_s r, of_int (dict_get_or (counters r) ''pool_credit_bits_post'' 0) / 8,
     of_int (dict_get_or (counters r) ''ret'' 0))"

lemma dict_get_zip_map: "k \<in> set ks \<Longrightarrow> dict_get (zip ks (map f ks)) k = Some (f k)"
  by (induction ks) (auto simp: dict_get_def)

lemma trace_cells:
  "''cumulative_wall_s'' \<in> set RENEWAL_CSV_FIELDS" "''pool_credit_bits_post'' \<in> set RENEWAL_CSV_FIELDS" "''ret'' \<in> set RENEWAL_CSV_FIELDS"
  by (simp_all add: RENEWAL_CSV_FIELDS_def FIELDS_def BASE_FIELDS_def DERIVED_FIELDS_def)

lemma trace_row_written:
  assumes "printable env r" and "dict_get (counters r) ''pool_credit_bits_post'' = Some credit" and "dict_get (counters r) ''ret'' = Some ret"
  shows "trace_row (zip RENEWAL_CSV_FIELDS (map (cell_text (pe_text env)) (map cell_json (renewal_csv_row r)))) = Inr (trace_point r)"
proof -
  define F where "F = (\<lambda>k. cell_text (pe_text env) (cell_json
    (if k = ''iteration_active_s'' then CReal (active_s r) else if k = ''iteration_wall_s'' then CReal (wall_s r)
     else if k = ''cumulative_wall_s'' then CReal (cumulative_s r)
     else (case dict_get (counters r) k of Some v \<Rightarrow> CInt v | None \<Rightarrow> CEmpty))))"
  define row where "row = zip RENEWAL_CSV_FIELDS (map (cell_text (pe_text env)) (map cell_json (renewal_csv_row r)))"
  have row: "row = zip RENEWAL_CSV_FIELDS (map F RENEWAL_CSV_FIELDS)"
    by (simp add: row_def renewal_csv_row_def F_def comp_def)
  have F: "F ''cumulative_wall_s'' = pe_text env (JFloat (cumulative_s r))" "F ''pool_credit_bits_post'' = str_of_int credit"
    "F ''ret'' = str_of_int ret"
    by (simp_all add: F_def cell_json_def cell_text_def json_str_def assms(2,3))
  have wall: "py_float (F ''cumulative_wall_s'') = Inr (cumulative_s r)"
    using assms(1) by (simp add: F printable_def)
  have "py_float [] = Inl ValueError" by (simp add: py_float_def int_strip_def read_decimal_def split_sign_def lower_def Let_def)
  with wall have ne: "F ''cumulative_wall_s'' \<noteq> []" by auto
  have "py_float (str_of_int credit) = Inr (of_int credit)" "py_float (str_of_int ret) = Inr (of_int ret)"
    using assms by (auto simp: printable_def dict_get_or_def intro!: py_float_str_of_int)
  moreover have "dict_get row ''cumulative_wall_s'' = Some (F ''cumulative_wall_s'')"
    "dict_get row ''pool_credit_bits_post'' = Some (str_of_int credit)" "dict_get row ''ret'' = Some (str_of_int ret)"
    unfolding row F [symmetric] by (intro dict_get_zip_map trace_cells)+
  ultimately show ?thesis
    unfolding row_def [symmetric] using wall ne assms(2,3)
    by (simp add: trace_row_def dict_item_def rbind_def trace_point_def dict_get_or_def)
qed

lemma derived_rows_credit:
  "derive_rows gap cum rows = Inr rs \<Longrightarrow> r \<in> set rs \<Longrightarrow> \<exists>v. dict_get (counters r) ''pool_credit_bits_post'' = Some v"
proof -
  assume "derive_rows gap cum rows = Inr rs" "r \<in> set rs"
  then obtain row where "derive_counters row = Inr (counters r)" using derive_rows_each by blast
  moreover have "\<exists>v. dict_get d ''pool_credit_bits_post'' = Some v" if "derive_counters row = Inr d" for d
    using that by (auto simp: derive_counters_def result_simps)
  ultimately show ?thesis by blast
qed

lemma counters_there:
  "rmap (\<lambda>r. rbind (counter k r) (\<lambda>v. Inr (v, r))) rs = Inr vs \<Longrightarrow> r \<in> set rs \<Longrightarrow> \<exists>v. dict_get (counters r) k = Some v"
  by (induction rs arbitrary: vs) (auto simp: result_simps counter_def)

lemma summary_rets: "summarize_renewal lg = Inr s \<Longrightarrow> r \<in> set (rl_rows lg) \<Longrightarrow> \<exists>v. dict_get (counters r) ''ret'' = Some v"
  by (auto simp: summarize_renewal_def rbind_eq_Inr intro: counters_there)

text \<open>
  C36: The plotted trace is the parsed log. When a log is parsed and summarised, its rows written as
  the CSV file of the parser, and the texts of the wall-clock times read back, the plot of that
  file has one point per iteration, in order: the cumulative wall time and the credited bytes that
  the parser computed, and it marks exactly the iterations that returned an error.
\<close>

theorem trace_of_log:
  assumes "parse_renewal_log text = Inr lg" and "renewal_main text = Inr (summary, rows)"
    and "list_all (printable env) (rl_rows lg)" and "files w p = Some (renewal_table rows)"
  shows "load_trace env p w = (Inr (map trace_point (rl_rows lg)), w)
    \<and> pool_trace env r p w = (Inr (replace_sub [CHR 0x0A] '' / '' (pr_label r),
         map (\<lambda>r. (fst (trace_point r), fst (snd (trace_point r)))) (rl_rows lg),
         map (\<lambda>r. (fst (trace_point r), fst (snd (trace_point r))))
           (filter (\<lambda>r. dict_get_or (counters r) ''ret'' 0 \<noteq> 0) (rl_rows lg))), w)"
proof -
  have s: "summarize_renewal lg = Inr summary" and rows: "rows = map renewal_csv_row (rl_rows lg)"
    using assms(1,2) by (auto simp: renewal_main_def result_simps)
  obtain gap drows where d: "derive_rows gap 0 drows = Inr (rl_rows lg)"
    using assms(1) by (auto simp: parse_renewal_log_def add_derived_fields_def result_simps)
  have "trace_row (zip RENEWAL_CSV_FIELDS (map (cell_text (pe_text env)) (map cell_json (renewal_csv_row r)))) = Inr (trace_point r)"
    if "r \<in> set (rl_rows lg)" for r
    using trace_row_written [of env r] derived_rows_credit [OF d that] summary_rets [OF s that] assms(3) that
    by (auto simp: list_all_iff)
  then have "rmap trace_row (csv_dicts env (renewal_table rows)) = Inr (map trace_point (rl_rows lg))"
    unfolding csv_dicts_def renewal_table_def rows by (simp add: rmap_map comp_def rmap_Inr)
  then have t: "load_trace env p w = (Inr (map trace_point (rl_rows lg)), w)"
    using assms(4) by (simp add: load_trace_def io_bind_def open_read_def io_run renewal_table_def)
  have "filter (\<lambda>(x, y, ret). ret \<noteq> 0) (map trace_point rs) = map trace_point (filter (\<lambda>r. dict_get_or (counters r) ''ret'' 0 \<noteq> 0) rs)" for rs
    by (induction rs) (auto simp: trace_point_def)
  with t show ?thesis
    by (simp add: pool_trace_def io_bind_def io_run case_prod_beta comp_def)
qed


definition demo_plot_env :: plot_env where
  "demo_plot_env = \<lparr>pe_names = \<lambda>p. [], pe_resolve = \<lambda>p. p, pe_text = \<lambda>j. ''1'', pe_rows = \<lambda>n. [], pe_docs = undefined\<rparr>"

lemma demo_printable: "printable demo_plot_env demo_enriched"
proof -
  have one: "str_of_int 1 = ''1''" by (simp add: str_of_int_def str_of_nat_def nat_text.simps digit_char_def char_of_def bit_Suc_0_iff)
  have "py_float ''1'' = Inr 1" using py_float_str_of_int [of 1] by (simp add: one float_max_bound_def)
  then show ?thesis
    by (simp add: printable_def demo_plot_env_def demo_counters dict_get_or_def float_max_bound_def) (simp add: demo_row demo_enriched_def float_max_bound_def)
qed

definition demo_plot_world :: RebootFiles.world where
  "demo_plot_world = \<lparr>files = (\<lambda>p. Some (renewal_table [renewal_csv_row demo_enriched])), commands = [], slept = []\<rparr>"

lemma trace_of_log_witness:
  "\<exists>s. renewal_main demo_iteration_log = Inr (s, [renewal_csv_row demo_enriched])
    \<and> load_trace demo_plot_env [''renewal.csv''] demo_plot_world = (Inr [(1, 0, 0)], demo_plot_world)"
proof -
  obtain s where "summarize_renewal \<lparr>rl_meta = [], rl_rows = [demo_enriched], rl_warnings = [], rl_errors = []\<rparr> = Inr s"
    using demo_iteration_summary by blast
  then have m: "renewal_main demo_iteration_log = Inr (s, [renewal_csv_row demo_enriched])"
    by (simp add: renewal_main_def demo_iteration_parsed rbind_def)
  have p: "trace_point demo_enriched = (1, 0, 0)"
    by (simp add: trace_point_def dict_get_or_def demo_counters) (simp add: demo_row demo_enriched_def)
  have "load_trace demo_plot_env [''renewal.csv''] demo_plot_world = (Inr (map trace_point [demo_enriched]), demo_plot_world)"
    using trace_of_log [OF demo_iteration_parsed m, of demo_plot_env] demo_printable by (simp add: demo_plot_world_def)
  with p m show ?thesis by simp
qed

end
