(* ===== verification/AebPlot.thy ===== *)
theory AebPlot
  imports AebSources
begin

text \<open>
  The summary figure of a collector run (\<open>plot_aeb_results.py\<close>): the rows that are plotted, where
  their raw files are looked for, the points of the four panels, the limits of the axes and the
  line below them. Parameters: the random sample of pairs, the files. The drawing is left out. Facts:
  the figure of a run shows what the collector stored; its points are inside the axes; one trial
  without a result line prevents the figure.
\<close>

section \<open>Raw files\<close>

definition plot_resolve :: "file_system \<Rightarrow> path \<Rightarrow> string \<Rightarrow> path" where
  "plot_resolve fs run_dir value =
     (let p = path_of value
      in if is_absolute p then p else if path_exists fs p then p
         else (case first_existing fs
                 (map (\<lambda>m. path_div run_dir (dropWhile (\<lambda>x. x \<noteq> m) p))
                    (filter (\<lambda>m. m \<in> set p) [''raw'', ''jitter'', ''stimulus''])
                  @ [path_div run_dir p, path_div (parent (parent run_dir)) p, path_div run_dir [''raw'', path_name p]]) of
                 Some q \<Rightarrow> q | None \<Rightarrow> p))"

section \<open>Bytes\<close>

text \<open>By how many per cent each byte value is more frequent than in a uniform stream.\<close>

definition byte_frequency_deviation :: "bytes \<Rightarrow> real list" where
  "byte_frequency_deviation d =
     (if d = [] then replicate 256 0
      else (let expected = real (length d) / 256
            in map (\<lambda>v. 100 * (real (count_list d (word_of_nat v)) - expected) / expected) [0..<256]))"

section \<open>The figure\<close>

record aeb_figure =
  fg_trials :: "int list"
  fg_ones_ratio :: "real list"
  fg_distances :: "real list"
  fg_deviation :: "real list"
  fg_shannon :: "real list"
  fg_mcv :: "real list"
  fg_floor :: real
  fg_subtitle :: string
  fg_file :: path

definition int_cell :: "string \<Rightarrow> (string, string) dict \<Rightarrow> int result" where
  "int_cell k row = rbind (dict_item row k) py_int"

definition ones_ratio_cell :: "(string, string) dict \<Rightarrow> real result" where
  "ones_ratio_cell row =
     rbind (int_cell ''ones'' row) (\<lambda>n. rbind (int_cell ''raw_bytes'' row) (\<lambda>size.
       if size * 8 = 0 then Inl ZeroDivisionError else Inr (of_int n / of_int (size * 8))))"

text \<open>\<open>random.sample\<close> refuses a negative size.\<close>

definition plot_distances ::
    "((nat \<times> nat) list \<Rightarrow> nat \<Rightarrow> (nat \<times> nat) list) \<Rightarrow> bytes list \<Rightarrow> int \<Rightarrow> real list result" where
  "plot_distances sample data max_pairs =
     (if max_pairs < 0 then Inl ValueError
      else Inr (concat (map (\<lambda>(i, j). window_percent (data ! i) (data ! j)) (pair_indices sample (length data) (nat max_pairs)))))"

definition plot_floor :: "real list \<Rightarrow> real list \<Rightarrow> real" where
  "plot_floor mcv shannon = max 0 (lmin (mcv @ shannon @ [7]) - 1 / 10)"

definition plot_subtitle :: "nat \<Rightarrow> int list \<Rightarrow> real list \<Rightarrow> string list \<Rightarrow> string" where
  "plot_subtitle n sizes distances hashes =
     str_of_nat n @ '' complete trials, '' @ fmt_comma (sum_list sizes) @ '' pre-hash WDEV bytes, ''
       @ str_of_nat (length distances) @ '' Hamming pairs, ''
       @ str_of_nat (length (remdups hashes)) @ ''/'' @ str_of_nat n @ '' unique raw hashes''"

definition plot_aeb_main ::
    "((nat \<times> nat) list \<Rightarrow> nat \<Rightarrow> (nat \<times> nat) list) \<Rightarrow> file_system \<Rightarrow> path \<Rightarrow> int \<Rightarrow> path option \<Rightarrow> aeb_figure result" where
  "plot_aeb_main sample fs run_dir max_pairs out =
     rbind (read_csv fs (path_div run_dir [''aeb_trials.csv''])) (\<lambda>rows.
     let crows = filter (\<lambda>r. dict_get r ''complete'' = Some ''True'') rows
     in rbind (rmap (int_cell ''capture_id'') crows) (\<lambda>trials.
        rbind (rmap (int_cell ''raw_bytes'') crows) (\<lambda>sizes.
        rbind (rmap ones_ratio_cell crows) (\<lambda>ratios.
        rbind (rmap (\<lambda>r. dict_item r ''raw_sha256_file'') crows) (\<lambda>hashes.
        rbind (rmap (\<lambda>r. rbind (dict_item r ''raw_file'') (\<lambda>v. Inr (plot_resolve fs run_dir v))) crows) (\<lambda>paths.
        rbind (rmap (read_bytes fs) paths) (\<lambda>data.
        rbind (plot_distances sample data max_pairs) (\<lambda>distances.
        let shannon = map byte_shannon_entropy data; mcv = map mcv_min_entropy data
        in Inr \<lparr>fg_trials = trials, fg_ones_ratio = ratios, fg_distances = distances,
                fg_deviation = byte_frequency_deviation (concat data), fg_shannon = shannon, fg_mcv = mcv,
                fg_floor = plot_floor mcv shannon, fg_subtitle = plot_subtitle (length crows) sizes distances hashes,
                fg_file = (case out of None \<Rightarrow> path_div run_dir [''aeb_summary_plot.png''] | Some p \<Rightarrow> p)\<rparr>))))))))"


section \<open>Inside the axes\<close>

lemma sum_counts: "(\<Sum>v<256. count_list d (word_of_nat v :: byte)) = length d"
proof -
  have inj: "inj_on (word_of_nat :: nat \<Rightarrow> byte) {..<256}"
    by (rule inj_onI) (auto simp: word_of_nat_eq_iff take_bit_eq_mod)
  have "b \<in> word_of_nat ` {..<256}" for b :: byte
    by (rule image_eqI [of _ _ "unat b"]) (use unsigned_less [of b] in simp_all)
  then have "(word_of_nat :: nat \<Rightarrow> byte) ` {..<256} = UNIV" by auto
  with inj have "bij_betw (word_of_nat :: nat \<Rightarrow> byte) {..<256} UNIV" by (simp add: bij_betw_def)
  then have "(\<Sum>v<256. count_list d (word_of_nat v :: byte)) = (\<Sum>b \<in> UNIV. count_list d b)"
    by (rule sum.reindex_bij_betw)
  also have "\<dots> = length d" by (rule sum_count_set) simp_all
  finally show ?thesis .
qed

lemma deviation_facts:
  "length (byte_frequency_deviation d) = 256" "sum_list (byte_frequency_deviation d) = 0"
  "list_all (\<lambda>x. - 100 \<le> x) (byte_frequency_deviation d)"
proof -
  let ?e = "real (length d) / 256"
  show "length (byte_frequency_deviation d) = 256" by (simp add: byte_frequency_deviation_def Let_def)
  show "sum_list (byte_frequency_deviation d) = 0"
  proof (cases "d = []")
    case True
    then show ?thesis by (simp add: byte_frequency_deviation_def sum_list_replicate)
  next
    case False
    then have "sum_list (byte_frequency_deviation d)
        = (\<Sum>v<256. 100 * (real (count_list d (word_of_nat v)) - ?e) / ?e)"
      by (simp add: byte_frequency_deviation_def Let_def interv_sum_list_conv_sum_set_nat atLeast0LessThan)
    also have "\<dots> = 100 * ((\<Sum>v<256. real (count_list d (word_of_nat v))) - 256 * ?e) / ?e"
      by (simp add: sum_divide_distrib [symmetric] sum_distrib_left [symmetric] sum_subtractf)
    also have "(\<Sum>v<256. real (count_list d (word_of_nat v))) = real (length d)"
      using arg_cong [OF sum_counts [of d], of real] by simp
    finally show ?thesis by simp
  qed
  show "list_all (\<lambda>x. - 100 \<le> x) (byte_frequency_deviation d)"
  proof (cases "d = []")
    case False
    then have "0 < ?e" by simp
    then show ?thesis using False
      by (auto simp: byte_frequency_deviation_def list_all_iff Let_def field_simps)
  qed (simp add: byte_frequency_deviation_def list_all_iff)
qed

text \<open>The entropies of one raw file.\<close>

lemma entropy_order: "0 \<le> mcv_min_entropy d" "mcv_min_entropy d \<le> byte_shannon_entropy d" "byte_shannon_entropy d \<le> 8"
  using mcv_min_entropy_bounds [of d] shannon_le_8 [of d]
  by (auto simp: byte_shannon_entropy_def mcv_min_entropy_def)

lemma plot_floor_below:
  "x \<in> set mcv \<union> set shannon \<Longrightarrow> 0 \<le> x \<Longrightarrow> plot_floor mcv shannon \<le> x"
  "plot_floor mcv shannon < 8"
proof -
  { assume "x \<in> set mcv \<union> set shannon" "0 \<le> x"
    then show "plot_floor mcv shannon \<le> x" using lmin_le [of x "mcv @ shannon @ [7]"] by (auto simp: plot_floor_def) }
  show "plot_floor mcv shannon < 8" using lmin_le [of 7 "mcv @ shannon @ [7]"] by (auto simp: plot_floor_def)
qed

text \<open>What a figure is made of.\<close>

lemma plot_aeb_main_cases:
  assumes "plot_aeb_main sample fs run_dir max_pairs out = Inr fig"
  obtains rows paths data distances where "read_csv fs (path_div run_dir [''aeb_trials.csv'']) = Inr rows"
    "rmap (read_bytes fs) paths = Inr data" "plot_distances sample data max_pairs = Inr distances"
    "fg_distances fig = distances" "fg_deviation fig = byte_frequency_deviation (concat data)"
    "fg_shannon fig = map byte_shannon_entropy data" "fg_mcv fig = map mcv_min_entropy data"
    "fg_floor fig = plot_floor (fg_mcv fig) (fg_shannon fig)"
    "length (fg_trials fig) = length data" "length (fg_ones_ratio fig) = length data"
proof -
  from assms obtain rows trials sizes ratios hashes paths data distances crows where a:
    "read_csv fs (path_div run_dir [''aeb_trials.csv'']) = Inr rows"
    "rmap (int_cell ''capture_id'') crows = Inr trials" "rmap ones_ratio_cell crows = Inr ratios"
    "rmap (\<lambda>r. rbind (dict_item r ''raw_file'') (\<lambda>v. Inr (plot_resolve fs run_dir v))) crows = Inr paths"
    "rmap (read_bytes fs) paths = Inr data" "plot_distances sample data max_pairs = Inr distances"
    "fig = \<lparr>fg_trials = trials, fg_ones_ratio = ratios, fg_distances = distances,
        fg_deviation = byte_frequency_deviation (concat data), fg_shannon = map byte_shannon_entropy data,
        fg_mcv = map mcv_min_entropy data, fg_floor = plot_floor (map mcv_min_entropy data) (map byte_shannon_entropy data),
        fg_subtitle = plot_subtitle (length crows) sizes distances hashes,
        fg_file = (case out of None \<Rightarrow> path_div run_dir [''aeb_summary_plot.png''] | Some p \<Rightarrow> p)\<rparr>"
    unfolding plot_aeb_main_def Let_def rbind_eq_Inr by blast
  have "length trials = length crows" "length ratios = length crows" "length paths = length crows" "length data = length paths"
    using a(2-5) by (simp_all add: rmap_length)
  with a show ?thesis by (intro that [of rows paths data distances]) simp_all
qed

text \<open>
  The points of a figure are inside its axes. Whatever the files of the run hold, the min-entropy of every
  trial is at most its Shannon entropy, and both are between the lower limit of their axis and 8;
  every Hamming distance is a percentage; the deviations of the 256 byte values balance each other
  and none is below minus one hundred per cent; there is one point of every kind for each trial.
\<close>

theorem figure_in_axes:
  assumes "plot_aeb_main sample fs run_dir max_pairs out = Inr fig"
  shows "list_all2 (\<lambda>m s. fg_floor fig \<le> m \<and> m \<le> s \<and> s \<le> 8) (fg_mcv fig) (fg_shannon fig)
    \<and> fg_floor fig < 8 \<and> list_all (\<lambda>x. 0 \<le> x \<and> x \<le> 100) (fg_distances fig)
    \<and> length (fg_deviation fig) = 256 \<and> sum_list (fg_deviation fig) = 0 \<and> list_all (\<lambda>x. - 100 \<le> x) (fg_deviation fig)
    \<and> length (fg_trials fig) = length (fg_mcv fig) \<and> length (fg_ones_ratio fig) = length (fg_mcv fig)"
proof -
  obtain paths data distances where d: "plot_distances sample data max_pairs = Inr distances"
    and f: "fg_distances fig = distances" "fg_deviation fig = byte_frequency_deviation (concat data)"
      "fg_shannon fig = map byte_shannon_entropy data" "fg_mcv fig = map mcv_min_entropy data"
      "fg_floor fig = plot_floor (fg_mcv fig) (fg_shannon fig)"
      "length (fg_trials fig) = length data" "length (fg_ones_ratio fig) = length data"
    by (rule plot_aeb_main_cases [OF assms])
  have "list_all (\<lambda>x. 0 \<le> x \<and> x \<le> 100) distances"
    using d window_percent_bounds by (fastforce simp: plot_distances_def list_all_iff split: if_splits)
  moreover have "list_all2 (\<lambda>m s. fg_floor fig \<le> m \<and> m \<le> s \<and> s \<le> 8) (fg_mcv fig) (fg_shannon fig)"
    unfolding f(3-5) list_all2_map1 list_all2_map2 using entropy_order
    by (intro list_all2I) (auto simp: zip_same_conv_map intro: plot_floor_below(1))
  moreover have "fg_floor fig < 8" unfolding f(5) by (rule plot_floor_below(2))
  ultimately show ?thesis using deviation_facts f by simp
qed


section \<open>The figure of a run\<close>

lemma plot_resolve_existing: "look fs (path_of v) = Some x \<Longrightarrow> plot_resolve fs run_dir v = path_of v"
  by (simp add: plot_resolve_def path_exists_def Let_def)

lemma plot_read_shown:
  "fs_shows fs d \<Longrightarrow> contents d q \<noteq> [] \<Longrightarrow> read_bytes fs (plot_resolve fs run_dir q) = Inr (contents d q)"
  unfolding fs_shows_def
  by (auto simp: plot_resolve_existing read_bytes_def open_file_def dest!: spec [of _ q])

definition row_raw :: "disk \<Rightarrow> (string, string) dict \<Rightarrow> bytes" where
  "row_raw d r = contents d (row_text r ''raw_file'')"

lemma row_text_Some: "row_text r k \<noteq> [] \<Longrightarrow> dict_get r k = Some (row_text r k)"
  by (auto simp: row_text_def dict_get_or_def split: option.splits)

lemma row_complete_iff: "row_complete r \<longleftrightarrow> dict_get r ''complete'' = Some ''True''"
  by (auto simp: row_complete_def row_text_def dict_get_or_def split: option.splits)

lemma consistent_row:
  assumes "disk_consistent sha p d" and "list_all2 (row_owned p) ids (trial_table d)" and "r \<in> set (filter row_complete (trial_table d))"
  shows "row_raw d r \<noteq> []" "dict_get r ''raw_bytes'' = Some (str_of_nat (length (row_raw d r)))"
    "dict_get r ''raw_sha256_file'' = Some (hex_of (sha (row_raw d r)))" "dict_get r ''raw_file'' = Some (row_text r ''raw_file'')"
    "\<exists>i. dict_get r ''capture_id'' = Some (str_of_nat i)"
proof -
  have "row_true sha d r" and c: "row_complete r" using assms(1,3) by (auto simp: disk_consistent_def list_all_iff)
  then show "row_raw d r \<noteq> []" "dict_get r ''raw_bytes'' = Some (str_of_nat (length (row_raw d r)))"
    "dict_get r ''raw_sha256_file'' = Some (hex_of (sha (row_raw d r)))"
    by (simp_all add: row_true_def row_raw_def Let_def)
  obtain i where o: "row_owned p i r"
    using assms(2,3) by (auto simp: list_all2_conv_all_nth in_set_conv_nth)
  have "row_text r ''raw_file'' \<noteq> []" using o c by (auto simp: row_owned_def owned_def trial_file_def path_join_def)
  then show "dict_get r ''raw_file'' = Some (row_text r ''raw_file'')" by (rule row_text_Some)
  have "str_of_nat i \<noteq> []" by (simp add: str_of_nat_def nat_text_nonempty)
  then show "\<exists>i. dict_get r ''capture_id'' = Some (str_of_nat i)"
    using o row_text_Some [of r "''capture_id''"] by (auto simp: row_owned_def)
qed

text \<open>
  C24: The figure shows what the collector stored. When the trial table and the files of a run agree, as they do at
  the end of every run of the collector, and every complete row has the count of ones that the device
  reported, the figure is drawn from the raw files of the complete rows in table order. The byte
  frequencies are those of the file of all raw windows, the line below the panels states the
  number of its bytes, and a trial without any inter-arrival time is no obstacle.
\<close>

theorem figure_of_collected_run:
  assumes "disk_consistent sha p d" and "list_all2 (row_owned p) ids (trial_table d)" and "fs_shows fs d"
    and "read_csv fs (path_div run_dir [''aeb_trials.csv'']) = Inr (trial_table d)" and "0 \<le> max_pairs"
    and "crows = filter row_complete (trial_table d)" and "rmap (int_cell ''ones'') crows = Inr ones"
  shows "\<exists>fig trials distances. plot_aeb_main sample fs run_dir max_pairs out = Inr fig
     \<and> rmap (int_cell ''capture_id'') crows = Inr trials \<and> fg_trials fig = trials
     \<and> fg_ones_ratio fig = map2 (\<lambda>n r. of_int n / (8 * real (length (row_raw d r)))) ones crows
     \<and> fg_shannon fig = map (\<lambda>r. byte_shannon_entropy (row_raw d r)) crows
     \<and> fg_mcv fig = map (\<lambda>r. mcv_min_entropy (row_raw d r)) crows
     \<and> fg_deviation fig = byte_frequency_deviation (contents d (all_bin p))
     \<and> plot_distances sample (map (row_raw d) crows) max_pairs = Inr distances \<and> fg_distances fig = distances
     \<and> fg_subtitle fig = plot_subtitle (length crows) [int (length (contents d (all_bin p)))] distances
          (map (\<lambda>r. hex_of (sha (row_raw d r))) crows)"
proof -
  note rows = consistent_row [OF assms(1,2), folded assms(6)]
  have bin: "contents d (all_bin p) = concat (map (row_raw d) crows)"
    using assms(1) by (simp add: disk_consistent_def named_bytes_def row_raw_def [abs_def] assms(6))
  have "\<forall>r \<in> set crows. \<exists>i. int_cell ''capture_id'' r = Inr i"
    using rows(5) by (fastforce simp: int_cell_def dict_item_def)
  then obtain g where "\<forall>r \<in> set crows. int_cell ''capture_id'' r = Inr (g r)" by metis
  then have t: "rmap (int_cell ''capture_id'') crows = Inr (map g crows)" by (intro rmap_Inr) simp
  have size: "int_cell ''raw_bytes'' r = Inr (int (length (row_raw d r)))" if "r \<in> set crows" for r
    using rows(2) [OF that] by (simp add: int_cell_def dict_item_def)
  then have sizes: "rmap (int_cell ''raw_bytes'') crows = Inr (map (\<lambda>r. int (length (row_raw d r))) crows)"
    by (rule rmap_Inr)
  have ratios: "rmap ones_ratio_cell rs = Inr (map2 (\<lambda>n r. of_int n / (8 * real (length (row_raw d r)))) ns rs)"
    if "set rs \<subseteq> set crows" "rmap (int_cell ''ones'') rs = Inr ns" for rs ns
    using that
  proof (induction rs arbitrary: ns)
    case (Cons r rs)
    then show ?case using size [of r] rows(1) [of r]
      by (auto simp: ones_ratio_cell_def rbind_eq_Inr mult.commute)
  qed simp
  have hashes: "rmap (\<lambda>r. dict_item r ''raw_sha256_file'') crows = Inr (map (\<lambda>r. hex_of (sha (row_raw d r))) crows)"
    using rows(3) by (intro rmap_Inr) (simp add: dict_item_def)
  have paths: "rmap (\<lambda>r. rbind (dict_item r ''raw_file'') (\<lambda>v. Inr (plot_resolve fs run_dir v))) crows
      = Inr (map (\<lambda>r. plot_resolve fs run_dir (row_text r ''raw_file'')) crows)"
    using rows(4) by (intro rmap_Inr) (simp add: dict_item_def)
  have data: "rmap (read_bytes fs) (map (\<lambda>r. plot_resolve fs run_dir (row_text r ''raw_file'')) crows) = Inr (map (row_raw d) crows)"
    unfolding rmap_map comp_def using rows(1) plot_read_shown [OF assms(3)] by (intro rmap_Inr) (simp add: row_raw_def)
  obtain distances where dist: "plot_distances sample (map (row_raw d) crows) max_pairs = Inr distances"
    using assms(5) by (simp add: plot_distances_def)
  have "filter (\<lambda>r. dict_get r ''complete'' = Some ''True'') (trial_table d) = crows"
    by (simp add: assms(6) row_complete_iff [abs_def])
  moreover have "sum_list (map (\<lambda>r. int (length (row_raw d r))) crows) = int (length (contents d (all_bin p)))"
    unfolding bin length_concat by (induction crows) simp_all
  ultimately show ?thesis
    using ratios [OF subset_refl assms(7)] dist
    by (simp add: plot_aeb_main_def Let_def assms(4) t sizes hashes paths data bin plot_subtitle_def comp_def)
qed

lemma py_int_cases: "py_int s = Inl ValueError \<or> (\<exists>i. py_int s = Inr i)"
  by (auto simp: py_int_def py_int_base_def split: option.splits prod.splits)

lemma py_int_empty: "py_int [] = Inl ValueError"
  by (simp add: py_int_def py_int_base_def int_strip_def split_sign_def read_base_def read_digits_def)

lemma rmap_first_error:
  assumes "\<And>x. x \<in> set xs \<Longrightarrow> f x = Inl e \<or> (\<exists>y. f x = Inr y)" and "x \<in> set xs" and "f x = Inl e"
  shows "rmap f xs = Inl e"
  using assms by (induction xs) (fastforce simp: rbind_def)+

text \<open>
  C37: One lost result line stops the figure. The result line of a trial is a datagram of its
  own, and a trial is complete without it; its row then has no count of ones. Although the raw files of all trials are
  there, one such row in a table that agrees with the files ends the program in a ValueError before
  anything is drawn.
\<close>

theorem lost_result_stops_figure:
  assumes "disk_consistent sha p d" and "list_all2 (row_owned p) ids (trial_table d)"
    and "read_csv fs (path_div run_dir [''aeb_trials.csv'']) = Inr (trial_table d)"
    and "\<forall>r \<in> set (trial_table d). dict_get r ''ones'' \<noteq> None"
    and "r \<in> set (trial_table d)" and "row_complete r" and "dict_get r ''ones'' = Some []"
  shows "plot_aeb_main sample fs run_dir max_pairs out = Inl ValueError"
proof -
  define crows where "crows = filter row_complete (trial_table d)"
  note rows = consistent_row [OF assms(1,2), folded crows_def]
  have "\<forall>r \<in> set crows. \<exists>i. int_cell ''capture_id'' r = Inr i"
    using rows(5) by (fastforce simp: int_cell_def dict_item_def)
  then obtain g where "\<forall>r \<in> set crows. int_cell ''capture_id'' r = Inr (g r)" by metis
  then have t: "rmap (int_cell ''capture_id'') crows = Inr (map g crows)" by (intro rmap_Inr) simp
  have size: "int_cell ''raw_bytes'' s = Inr (int (length (row_raw d s)))" if "s \<in> set crows" for s
    using rows(2) [OF that] by (simp add: int_cell_def dict_item_def)
  then have sizes: "rmap (int_cell ''raw_bytes'') crows = Inr (map (\<lambda>r. int (length (row_raw d r))) crows)"
    by (rule rmap_Inr)
  have cell: "ones_ratio_cell s = Inl ValueError \<or> (\<exists>x. ones_ratio_cell s = Inr x)" if s: "s \<in> set crows" for s
  proof -
    obtain v where v: "dict_get s ''ones'' = Some v" using assms(4) s by (auto simp: crows_def)
    show ?thesis using size [OF s] rows(1) [OF s] py_int_cases [of v]
      by (auto simp: ones_ratio_cell_def int_cell_def dict_item_def v)
  qed
  have bad: "ones_ratio_cell r = Inl ValueError"
    using assms(7) by (simp add: ones_ratio_cell_def int_cell_def dict_item_def py_int_empty)
  have "rmap ones_ratio_cell crows = Inl ValueError"
    using cell assms(5,6) bad by (intro rmap_first_error [of crows _ _ r]) (auto simp: crows_def)
  moreover have "filter (\<lambda>r. dict_get r ''complete'' = Some ''True'') (trial_table d) = crows"
    by (simp add: crows_def row_complete_iff [abs_def])
  ultimately show ?thesis
    by (simp add: plot_aeb_main_def Let_def assms(3) t sizes)
qed


section \<open>A small run\<close>

text \<open>The files and the table of a disk, as a program that reads them sees them.\<close>

definition run_fs :: "disk \<Rightarrow> path \<Rightarrow> file_system" where
  "run_fs d table = (disk_fs d)(table \<mapsto> File [] (trial_table d))"

lemma run_fs_facts:
  assumes "distinct (disk_paths d)" and "[] \<notin> set (disk_paths d)" and "table \<notin> set (disk_paths d)" and "table \<noteq> []"
  shows "fs_shows (run_fs d table) d" "read_csv (run_fs d table) table = Inr (trial_table d)"
proof -
  have keep: "look (run_fs d table) p = look (disk_fs d) p" if "p \<in> set (disk_paths d)" for p
    using that assms(3,4) by (auto simp: look_def run_fs_def)
  have "path_of q \<in> set (disk_paths d)" if "contents d q \<noteq> []" for q
    using that by (auto simp: disk_paths_def dict_keys_def contents_def dict_get_or_def dict_get_def
        intro!: imageI dest: map_of_SomeD split: option.splits) (force dest: map_of_SomeD)
  moreover have "path_of q \<in> set (disk_paths d)" if "dict_get (tables d) q = Some t" for q t
    using that by (auto simp: disk_paths_def dict_keys_def dict_get_def) (force dest: map_of_SomeD)
  ultimately show "fs_shows (run_fs d table) d"
    using disk_fs_shows [OF assms(1,2)] by (auto simp: fs_shows_def keep)
  show "read_csv (run_fs d table) table = Inr (trial_table d)"
    using assms(4) by (simp add: read_csv_def open_file_def look_def run_fs_def)
qed

definition plotted_trial :: trial_state where
  "plotted_trial = sample_trial\<lparr>result_fields := [(''ones'', ''9'')]\<rparr>"

definition plotted_disk :: disk where
  "plotted_disk = fst (finalize_trial (\<lambda>b. b) (output_paths ''out'') plotted_trial empty_disk)"

definition plotted_table :: path where
  "plotted_table = [''/'', ''runs'', ''aeb_trials.csv'']"

lemma small_run:
  assumes "snd (finalize_trial (\<lambda>b. b) (output_paths ''out'') st empty_disk) = Inr True"
    and "d = fst (finalize_trial (\<lambda>b. b) (output_paths ''out'') st empty_disk)"
  shows "disk_consistent (\<lambda>b. b) (output_paths ''out'') d" "\<exists>ids. list_all2 (row_owned (output_paths ''out'')) ids (trial_table d)"
    "\<exists>r. trial_table d = [r] \<and> row_complete r"
proof -
  have f: "finalize_trial (\<lambda>b. b) (output_paths ''out'') st empty_disk = (d, Inr True)"
    using assms by (simp add: prod_eq_iff)
  have "files_agree (\<lambda>b. b) (output_paths ''out'') empty_disk" "trial_table empty_disk = []"
    by (simp_all add: files_agree_def residuals_consistent_def disk_consistent_def empty_disk_def contents_def named_bytes_def dict_get_or_def dict_get_def)
  then obtain r where r: "disk_consistent (\<lambda>b. b) (output_paths ''out'') d" "trial_table d = [r]"
    "row_owned (output_paths ''out'') (capture_id st) r" "row_complete r = True"
    using finalize_keeps_consistent [OF refl f, of "[]"] by (auto simp: files_agree_def row_named_def)
  then show "disk_consistent (\<lambda>b. b) (output_paths ''out'') d" "\<exists>r. trial_table d = [r] \<and> row_complete r"
    "\<exists>ids. list_all2 (row_owned (output_paths ''out'')) ids (trial_table d)" by auto
qed

definition plotted_paths :: "path list" where
  "plotted_paths = [[''out'', ''raw'', ''aeb_trial_000000.bin''], [''out'', ''raw'', ''aeb_all.bin''],
     [''out'', ''jitter'', ''aeb_trial_000000.delta_u32le.bin''], [''out'', ''jitter'', ''aeb_trial_000000.residual_s32le.bin''],
     [''out'', ''jitter'', ''aeb_jitter_delta_u32le_all.bin''], [''out'', ''jitter'', ''aeb_jitter_residual_s32le_all.bin''],
     [''out'', ''joint'', ''aeb_trial_000000.response.bin''], [''out'', ''joint'', ''aeb_response_all.bin''],
     [''out'', ''jitter'', ''aeb_trial_000000.csv'']]"

lemma plotted_paths: "distinct plotted_paths" "[] \<notin> set plotted_paths" "plotted_table \<notin> set plotted_paths" "plotted_table \<noteq> []"
  by (simp_all add: plotted_paths_def plotted_table_def)

text \<open>What the runs with and without a result line leave.\<close>

definition run_shown :: "trial_state \<Rightarrow> bool \<times> path list \<times> bytes \<times> string option list" where
  "run_shown st = (case finalize_trial (\<lambda>b. b) (output_paths ''out'') st empty_disk of (d, oc) \<Rightarrow>
     (oc = Inr True, disk_paths d, contents d (all_bin (output_paths ''out'')), map (\<lambda>r. dict_get r ''ones'') (trial_table d)))"

lemma plotted_run:
  "run_shown plotted_trial = (True, plotted_paths, [1, 2, 3, 4, 5, 6], [Some ''9''])"
  "run_shown sample_trial = (True, plotted_paths, [1, 2, 3, 4, 5, 6], [Some []])"
  by code_simp+

lemma shown_run:
  assumes "run_shown st = (True, plotted_paths, bs, os)" and "d = fst (finalize_trial (\<lambda>b. b) (output_paths ''out'') st empty_disk)"
  obtains ids r where "disk_consistent (\<lambda>b. b) (output_paths ''out'') d" "list_all2 (row_owned (output_paths ''out'')) ids (trial_table d)"
    "trial_table d = [r]" "row_complete r" "[dict_get r ''ones''] = os" "contents d (all_bin (output_paths ''out'')) = bs"
    "fs_shows (run_fs d plotted_table) d" "read_csv (run_fs d plotted_table) plotted_table = Inr (trial_table d)"
proof -
  have f: "snd (finalize_trial (\<lambda>b. b) (output_paths ''out'') st empty_disk) = Inr True" and p: "disk_paths d = plotted_paths"
    and o: "contents d (all_bin (output_paths ''out'')) = bs" "map (\<lambda>r. dict_get r ''ones'') (trial_table d) = os"
    using assms by (simp_all add: run_shown_def case_prod_beta)
  note run = small_run [OF f assms(2)] and fs = run_fs_facts [of d plotted_table, unfolded p, OF plotted_paths]
  show ?thesis using run o fs that by auto
qed

lemma plotted_name: "path_div [''/'', ''runs''] [''aeb_trials.csv''] = plotted_table"
  by (simp add: path_div_def is_absolute_def plotted_table_def)

theorem figure_of_collected_run_witness:
  "\<exists>fig. plot_aeb_main (\<lambda>ps k. take k ps) (run_fs plotted_disk plotted_table) [''/'', ''runs''] 2000 None = Inr fig
     \<and> fg_deviation fig = byte_frequency_deviation [1, 2, 3, 4, 5, 6]"
proof -
  obtain ids r where c: "disk_consistent (\<lambda>b. b) (output_paths ''out'') plotted_disk"
    and ids: "list_all2 (row_owned (output_paths ''out'')) ids (trial_table plotted_disk)"
    and r: "trial_table plotted_disk = [r]" "row_complete r" "[dict_get r ''ones''] = [Some ''9'']"
    and bin: "contents plotted_disk (all_bin (output_paths ''out'')) = [1, 2, 3, 4, 5, 6]"
    and fs: "fs_shows (run_fs plotted_disk plotted_table) plotted_disk"
    and csv: "read_csv (run_fs plotted_disk plotted_table) plotted_table = Inr (trial_table plotted_disk)"
    by (rule shown_run [OF plotted_run(1) plotted_disk_def])
  have "py_int ''9'' = Inr 9" by code_simp
  then have "rmap (int_cell ''ones'') (filter row_complete (trial_table plotted_disk)) = Inr [9]"
    using r by (simp add: int_cell_def dict_item_def rbind_def)
  from figure_of_collected_run [OF c ids fs _ _ refl this, of "[''/'', ''runs'']" 2000 "\<lambda>ps k. take k ps" None]
  show ?thesis using csv by (auto simp: plotted_name bin)
qed

theorem figure_in_axes_witness:
  "\<exists>fig. plot_aeb_main (\<lambda>ps k. take k ps) (\<lambda>p. Some (File [] [])) [] 10 None = Inr fig \<and> fg_floor fig < 8"
proof -
  have "plot_aeb_main (\<lambda>ps k. take k ps) (\<lambda>p. Some (File [] [])) [] 10 None = Inr
     \<lparr>fg_trials = [], fg_ones_ratio = [], fg_distances = [], fg_deviation = byte_frequency_deviation [], fg_shannon = [], fg_mcv = [],
      fg_floor = plot_floor [] [], fg_subtitle = plot_subtitle 0 [] [] [], fg_file = [''aeb_summary_plot.png'']\<rparr>"
    by (simp add: plot_aeb_main_def read_csv_def open_file_def look_def path_div_def is_absolute_def plot_distances_def
        pair_indices_def)
  from figure_in_axes [OF this] this show ?thesis by blast
qed

theorem lost_result_stops_figure_witness:
  "plot_aeb_main (\<lambda>ps k. take k ps) (run_fs sample_disk plotted_table) [''/'', ''runs''] 2000 None = Inl ValueError"
proof -
  obtain ids r where c: "disk_consistent (\<lambda>b. b) (output_paths ''out'') sample_disk"
    and ids: "list_all2 (row_owned (output_paths ''out'')) ids (trial_table sample_disk)"
    and r: "trial_table sample_disk = [r]" "row_complete r" "[dict_get r ''ones''] = [Some []]"
    and csv: "read_csv (run_fs sample_disk plotted_table) plotted_table = Inr (trial_table sample_disk)"
    by (rule shown_run [OF plotted_run(2) sample_disk_def])
  show ?thesis
    by (rule lost_result_stops_figure [OF c ids, where r = r]) (use r csv in \<open>simp_all add: plotted_name\<close>)
qed

end
