(* ===== verification/ResultsPlot.thy ===== *)
theory ResultsPlot
  imports ResultsTable Stats
begin

text \<open>
  The comparison figure of the test results (\<open>plot_results.py\<close>): the values taken from the
  manifests of the five conditions, and the bars, texts and axis limits made of them. The drawing is
  left out; a value that is no number is a TypeError, as its first arithmetic is. Fact: on manifests that
  name every suite and metric once, the figure and the comparison table show the same values.
\<close>

section \<open>The values of a manifest\<close>

text \<open>A suite, the metric that is taken from it, and the key under which it is kept.\<close>

definition plotted_metrics :: "(string \<times> string \<times> string) list" where
  "plotted_metrics =
     [(''entropy-iid'', ''min(H_original, 8 X H_bitstring)'', ''iid_entropy''),
      (''entropy-non-iid'', ''min(H_original, 8 X H_bitstring)'', ''non_iid_entropy''),
      (''borel'', ''borel_normality_metric'', ''borel''), (''testu01-rabbit'', ''suspect_p_values'', ''rabbit'')]"

text \<open>\<open>data[cond][name] = value\<close> of an ENT metric: the value is read first, and a list or dict is no key.\<close>

definition ent_into :: "json \<Rightarrow> (json, json) dict \<Rightarrow> (json, json) dict result" where
  "ent_into m d =
     rbind (json_item ''value'' m) (\<lambda>v. rbind (json_item ''name'' m) (\<lambda>n.
       case n of JArr _ \<Rightarrow> Inl TypeError | JObj _ \<Rightarrow> Inl TypeError | _ \<Rightarrow> Inr (dict_set n v d)))"

definition metric_into :: "string \<Rightarrow> string \<Rightarrow> json \<Rightarrow> (json, json) dict \<Rightarrow> (json, json) dict result" where
  "metric_into metric key m d =
     rbind (json_item ''name'' m) (\<lambda>n.
       if n = JStr metric then rbind (json_item ''value'' m) (\<lambda>v. Inr (dict_set (JStr key) v d)) else Inr d)"

definition result_into :: "json \<Rightarrow> (json, json) dict \<Rightarrow> (json, json) dict result" where
  "result_into r d =
     rbind (json_item ''suite'' r) (\<lambda>s.
     case (if s = JStr ''ent'' then Some ent_into
           else map_option (\<lambda>(_, metric, key). metric_into metric key) (List.find (\<lambda>(suite, _). s = JStr suite) plotted_metrics)) of
       None \<Rightarrow> Inr d
     | Some into \<Rightarrow> rbind (json_get ''metrics'' (JArr []) r) (\<lambda>ms. rbind (json_iter ms) (\<lambda>xs. rfold into xs d)))"

definition condition_data :: "json \<Rightarrow> (json, json) dict result" where
  "condition_data manifest =
     rbind (json_item ''results'' manifest) (\<lambda>rs. rbind (json_iter rs) (\<lambda>xs. rfold result_into xs []))"

fun load_condition_data :: "doc_env \<Rightarrow> path \<Rightarrow> string list \<Rightarrow> (world, (json, json) dict list) io" where
  "load_condition_data de dir [] = io_return []"
| "load_condition_data de dir (c # cs) =
     io_bind (load_result_manifest de (manifest_path dir c)) (\<lambda>m.
     io_bind (io_lift (condition_data m)) (\<lambda>d.
     io_bind (load_condition_data de dir cs) (\<lambda>ds. io_return (d # ds))))"

section \<open>The panels\<close>

definition json_number :: "json \<Rightarrow> real result" where
  "json_number j = (case j of JBool b \<Rightarrow> Inr (if b then 1 else 0) | JInt i \<Rightarrow> Inr (of_int i) | JFloat x \<Rightarrow> Inr x | _ \<Rightarrow> Inl TypeError)"

definition value_column :: "(json, json) dict list \<Rightarrow> string \<Rightarrow> json list result" where
  "value_column ds key = rmap (\<lambda>d. dict_item d (JStr key)) ds"

text \<open>The heights of the bars, with the place and the text above each.\<close>

record bar_text =
  bt_bar :: real
  bt_y :: real
  bt_text :: string

definition bars_above :: "real \<Rightarrow> (json \<Rightarrow> real \<Rightarrow> string) \<Rightarrow> json list \<Rightarrow> bar_text list result" where
  "bars_above gap text vs =
     rmap (\<lambda>v. rbind (json_number v) (\<lambda>x. Inr \<lparr>bt_bar = x, bt_y = x + gap, bt_text = text v x\<rparr>)) vs"

definition correlation_limit :: "real list \<Rightarrow> real" where
  "correlation_limit xs = lmax (map abs xs) * (3 / 2)"

definition correlation_bars :: "json list \<Rightarrow> (real \<times> bar_text list) result" where
  "correlation_bars vs =
     rbind (rmap json_number vs) (\<lambda>xs. let y = correlation_limit xs in Inr
       (y, map (\<lambda>x. \<lparr>bt_bar = x, bt_y = x + (if x \<ge> 0 then y / 20 else - (y / 20)), bt_text = fmt_fixed 6 x\<rparr>) xs))"

record results_figure =
  rf_iid :: "bar_text list"
  rf_non_iid :: "bar_text list"
  rf_chi :: "bar_text list"
  rf_borel :: "bar_text list"
  rf_limit :: real
  rf_correlation :: "bar_text list"
  rf_rabbit :: "bar_text list"
  rf_file :: path

text \<open>The panels, in the order of the script.\<close>

definition entropy_bars :: "(json, json) dict list \<Rightarrow> (bar_text list \<times> bar_text list) result" where
  "entropy_bars ds =
     rbind (value_column ds ''iid_entropy'') (\<lambda>iid. rbind (value_column ds ''non_iid_entropy'') (\<lambda>non_iid.
     rbind (bars_above (15 / 100) (\<lambda>_. fmt_fixed 2) iid) (\<lambda>a. rbind (bars_above (15 / 100) (\<lambda>_. fmt_fixed 2) non_iid) (\<lambda>b.
       Inr (a, b)))))"

definition chi_bars :: "(json, json) dict list \<Rightarrow> bar_text list result" where
  "chi_bars ds = rbind (value_column ds ''chi_square_exceed_percent'') (bars_above 2 (\<lambda>_ x. fmt_fixed 1 x @ ''%''))"

definition borel_bars :: "(json, json) dict list \<Rightarrow> bar_text list result" where
  "borel_bars ds = rbind (value_column ds ''borel'') (bars_above (3 / 100) (\<lambda>_. fmt_fixed 3))"

definition rabbit_bars :: "(json \<Rightarrow> string) \<Rightarrow> (json, json) dict list \<Rightarrow> bar_text list result" where
  "rabbit_bars rep ds = rbind (value_column ds ''rabbit'') (bars_above (15 / 100) (\<lambda>v _. json_str rep v))"

definition results_panels :: "(json \<Rightarrow> string) \<Rightarrow> (json, json) dict list \<Rightarrow> path \<Rightarrow> results_figure result" where
  "results_panels rep ds file =
     rbind (entropy_bars ds) (\<lambda>(a, b). rbind (chi_bars ds) (\<lambda>c. rbind (borel_bars ds) (\<lambda>e.
     rbind (rbind (value_column ds ''serial_correlation'') correlation_bars) (\<lambda>(y, f). rbind (rabbit_bars rep ds) (\<lambda>g.
       Inr \<lparr>rf_iid = a, rf_non_iid = b, rf_chi = c, rf_borel = e, rf_limit = y, rf_correlation = f, rf_rabbit = g,
            rf_file = file\<rparr>)))))"

definition plot_results :: "doc_env \<Rightarrow> (json \<Rightarrow> string) \<Rightarrow> path \<Rightarrow> path option \<Rightarrow> (world, results_figure) io" where
  "plot_results de rep dir out =
     io_bind (load_condition_data de dir result_conditions) (\<lambda>ds.
     let file = (case out of None \<Rightarrow> dir @ [''comparison_plot.png''] | Some p \<Rightarrow> p)
     in io_bind (io_lift (results_panels rep ds file)) (\<lambda>fig. io_then (mkdirs (parent file)) (io_return fig)))"


section \<open>The assignments of a manifest\<close>

definition name_of :: "json \<Rightarrow> json" where
  "name_of m = (case json_item ''name'' m of Inr v \<Rightarrow> v | Inl _ \<Rightarrow> JNull)"

definition value_of_metric :: "json \<Rightarrow> json" where
  "value_of_metric m = (case json_item ''value'' m of Inr v \<Rightarrow> v | Inl _ \<Rightarrow> JNull)"

definition suite_name :: "json \<Rightarrow> json" where
  "suite_name r = (case json_item ''suite'' r of Inr v \<Rightarrow> v | Inl _ \<Rightarrow> JNull)"

definition result_sets :: "json \<Rightarrow> (json \<times> json) list" where
  "result_sets r =
     (if suite_name r = JStr ''ent'' then map (\<lambda>m. (name_of m, value_of_metric m)) (listed ''metrics'' r)
      else (case List.find (\<lambda>(suite, _). suite_name r = JStr suite) plotted_metrics of
              None \<Rightarrow> []
            | Some (_, metric, key) \<Rightarrow> map (\<lambda>m. (JStr key, value_of_metric m))
                 (filter (\<lambda>m. name_of m = JStr metric) (listed ''metrics'' r))))"

definition assign :: "(json \<times> json) list \<Rightarrow> (json, json) dict \<Rightarrow> (json, json) dict" where
  "assign xs d = fold (\<lambda>(k, v). dict_set k v) xs d"

text \<open>The names of the metrics are texts.\<close>

definition names_are_text :: "json \<Rightarrow> bool" where
  "names_are_text m \<longleftrightarrow> list_all (\<lambda>r. list_all (\<lambda>x. \<exists>s. name_of x = JStr s) (listed ''metrics'' r)) (listed ''results'' m)"

lemma ent_into_fold:
  assumes "list_all metric_ok ms" and "list_all (\<lambda>x. \<exists>s. name_of x = JStr s) ms"
  shows "rfold ent_into ms d = Inr (assign (map (\<lambda>m. (name_of m, value_of_metric m)) ms) d)"
  using assms
proof (induction ms arbitrary: d)
  case (Cons m ms)
  then obtain s v where "json_item ''name'' m = Inr (JStr s)" "json_item ''value'' m = Inr v"
    by (auto simp: metric_ok_def ok_iff name_of_def)
  with Cons show ?case by (simp add: ent_into_def assign_def name_of_def value_of_metric_def)
qed (simp add: assign_def)

lemma metric_into_fold:
  assumes "list_all metric_ok ms"
  shows "rfold (metric_into metric key) ms d
    = Inr (assign (map (\<lambda>m. (JStr key, value_of_metric m)) (filter (\<lambda>m. name_of m = JStr metric) ms)) d)"
  using assms
proof (induction ms arbitrary: d)
  case (Cons m ms)
  then obtain n v where "json_item ''name'' m = Inr n" "json_item ''value'' m = Inr v"
    by (auto simp: metric_ok_def ok_iff)
  with Cons show ?case by (simp add: metric_into_def assign_def name_of_def value_of_metric_def)
qed (simp add: assign_def)

lemma result_into_sets:
  assumes "suite_ok r" and "list_all (\<lambda>x. \<exists>s. name_of x = JStr s) (listed ''metrics'' r)"
  shows "result_into r d = Inr (assign (result_sets r) d)"
proof -
  from assms(1) have m: "is_list ''metrics'' r" "list_all metric_ok (listed ''metrics'' r)" and s: "json_item ''suite'' r = Inr (suite_name r)"
    by (auto simp: suite_ok_def suite_name_def ok_iff)
  note e = ent_into_fold [OF m(2) assms(2)] metric_into_fold [OF m(2)]
  show ?thesis
    by (auto simp: result_into_def s result_sets_def listed_run [OF m(1)] json_iter_def e assign_def split: option.split)
qed

lemma results_into_sets:
  assumes "list_all suite_ok rs" and "list_all (\<lambda>r. list_all (\<lambda>x. \<exists>s. name_of x = JStr s) (listed ''metrics'' r)) rs"
  shows "rfold result_into rs d = Inr (assign (concat (map result_sets rs)) d)"
  using assms
proof (induction rs arbitrary: d)
  case (Cons r rs)
  then show ?case by (simp add: result_into_sets) (simp add: assign_def)
qed (simp add: assign_def)

lemma dict_get_assign:
  "dict_get (assign xs d) k = (case map_of (rev xs) k of None \<Rightarrow> dict_get d k | Some v \<Rightarrow> Some v)"
proof (induction xs arbitrary: d)
  case (Cons x xs)
  then show ?case by (cases x) (auto simp: assign_def map_add_def split: option.split)
qed (simp add: assign_def)

lemma assigned_once:
  fixes k :: json and o' :: "json option"
  assumes "\<And>v. (k, v) \<in> set xs \<longleftrightarrow> o' = Some v"
  shows "dict_get (assign xs []) k = o'"
proof (cases o')
  case None
  then have "map_of (rev xs) k = None" using assms by (auto simp: map_of_eq_None_iff)
  moreover have "dict_get [] k = (None :: json option)" by (simp add: dict_get_def)
  ultimately show ?thesis by (simp add: dict_get_assign None)
next
  case (Some v)
  then have "(k, v) \<in> set (rev xs)" using assms by simp
  then obtain w where "map_of (rev xs) k = Some w" using weak_map_of_SomeI by metis
  moreover from this have "w = v" using assms [of w] Some by (auto dest: map_of_SomeD)
  ultimately show ?thesis by (simp add: dict_get_assign Some)
qed


section \<open>The figure and the table\<close>

text \<open>The value that the comparison table shows for a metric, when there is one.\<close>

definition table_value :: "json \<Rightarrow> string \<Rightarrow> string \<Rightarrow> json option" where
  "table_value m suite metric =
     (case suite_of m suite of None \<Rightarrow> None
      | Some r \<Rightarrow> map_option value_of_metric (entry_of ''name'' metric (listed ''metrics'' r)))"

text \<open>A manifest that names every suite once, and in it every metric; no ENT metric has the name of a key.\<close>

definition once_each :: "json \<Rightarrow> bool" where
  "once_each m \<longleftrightarrow> distinct (map suite_name (listed ''results'' m))
     \<and> list_all (\<lambda>r. distinct (map name_of (listed ''metrics'' r))
          \<and> (suite_name r = JStr ''ent'' \<longrightarrow> (\<forall>(_, _, key) \<in> set plotted_metrics. JStr key \<notin> name_of ` set (listed ''metrics'' r))))
        (listed ''results'' m)"

lemma entry_unique:
  assumes "list_all (\<lambda>x. ok (json_item key x)) xs" and "distinct (map (\<lambda>x. case json_item key x of Inr v \<Rightarrow> v | Inl _ \<Rightarrow> JNull) xs)"
  shows "entry_of key name xs = Some x \<longleftrightarrow> x \<in> set xs \<and> json_item key x = Inr (JStr name)"
  using assms
proof (induction xs)
  case (Cons y ys)
  then show ?case by (auto simp: entry_of_def ok_iff image_iff)
qed (simp add: entry_of_def)

lemma table_value_iff:
  assumes "manifest_ok m" and "once_each m" and "m \<noteq> JNull"
  shows "table_value m suite metric = Some v \<longleftrightarrow>
    (\<exists>r \<in> set (listed ''results'' m). suite_name r = JStr suite
       \<and> (\<exists>x \<in> set (listed ''metrics'' r). name_of x = JStr metric \<and> value_of_metric x = v))"
proof -
  have ok: "list_all suite_ok (listed ''results'' m)" using assms(1,3) by (simp add: manifest_ok_def)
  then have s: "list_all (\<lambda>x. ok (json_item ''suite'' x)) (listed ''results'' m)"
    by (auto simp: list_all_iff suite_ok_def)
  have su: "suite_of m suite = Some r \<longleftrightarrow> r \<in> set (listed ''results'' m) \<and> json_item ''suite'' r = Inr (JStr suite)" for r
    using entry_unique [OF s] assms(2,3) by (simp add: suite_of_def once_each_def suite_name_def [abs_def])
  have en: "entry_of ''name'' metric (listed ''metrics'' r) = Some x \<longleftrightarrow>
      x \<in> set (listed ''metrics'' r) \<and> json_item ''name'' x = Inr (JStr metric)" if "r \<in> set (listed ''results'' m)" for r x
    using that ok assms(2) by (intro entry_unique)
      (auto simp: list_all_iff suite_ok_def metric_ok_def once_each_def name_of_def [abs_def])
  have n: "json_item ''name'' x = Inr (JStr metric) \<longleftrightarrow> name_of x = JStr metric" for x
    by (auto simp: name_of_def split: sum.split)
  have sn: "json_item ''suite'' r = Inr (JStr suite) \<longleftrightarrow> suite_name r = JStr suite" for r
    by (auto simp: suite_name_def split: sum.split)
  show ?thesis
    unfolding table_value_def using su en
    by (auto simp: n sn split: option.splits) (metis option.inject)+
qed

text \<open>The metrics of the six rows of the table that are plotted, with their keys.\<close>

definition shown_metrics :: "(string \<times> string \<times> string) list" where
  "shown_metrics = plotted_metrics @ [(''ent'', ''chi_square_exceed_percent'', ''chi_square_exceed_percent''),
     (''ent'', ''serial_correlation'', ''serial_correlation'')]"

lemma result_sets_shown:
  assumes "(suite, metric, key) \<in> set shown_metrics" and "names_are_text m" and "once_each m" and "r \<in> set (listed ''results'' m)"
  shows "(JStr key, v) \<in> set (result_sets r) \<longleftrightarrow> suite_name r = JStr suite
     \<and> (\<exists>x \<in> set (listed ''metrics'' r). name_of x = JStr metric \<and> value_of_metric x = v)"
proof (cases "suite_name r = JStr ''ent''")
  case True
  with assms(3,4) have "\<forall>(_, _, key) \<in> set plotted_metrics. JStr key \<notin> name_of ` set (listed ''metrics'' r)"
    by (auto simp: once_each_def list_all_iff)
  with assms(1) True show ?thesis
    by (auto simp: result_sets_def shown_metrics_def plotted_metrics_def image_iff; metis)
next
  case False
  with assms(1) show ?thesis
    by (auto simp: result_sets_def shown_metrics_def plotted_metrics_def)
qed

lemma condition_data_shown:
  assumes "manifest_ok m" and "once_each m" and "names_are_text m" and "m \<noteq> JNull" and "ok (json_item ''results'' m)"
  obtains d where "condition_data m = Inr d"
    "\<And>suite metric key. (suite, metric, key) \<in> set shown_metrics \<Longrightarrow> dict_get d (JStr key) = table_value m suite metric"
proof -
  let ?rs = "listed ''results'' m"
  have l: "is_list ''results'' m" "list_all suite_ok ?rs" using assms(1,4) by (auto simp: manifest_ok_def)
  obtain d where d: "m = JObj d" using assms(5) by (cases m) (auto simp: json_item_def)
  have "json_item ''results'' m = Inr (JArr ?rs)"
    using listed_run [OF l(1)] assms(5) by (auto simp: d json_item_def json_get_def dict_item_def dict_get_or_def split: option.splits)
  then have c: "condition_data m = Inr (assign (concat (map result_sets ?rs)) [])"
    using results_into_sets [OF l(2)] assms(3) by (simp add: condition_data_def json_iter_def names_are_text_def)
  have "dict_get (assign (concat (map result_sets ?rs)) []) (JStr key) = table_value m suite metric"
    if "(suite, metric, key) \<in> set shown_metrics" for suite metric key
    by (rule assigned_once) (use result_sets_shown [OF that assms(3,2)] in \<open>auto simp: table_value_iff [OF assms(1,2,4)]\<close>)
  with c show ?thesis by (rule that)
qed


text \<open>What the figure needs of a manifest: every plotted metric is there and is a number.\<close>

definition shows_all :: "json \<Rightarrow> bool" where
  "shows_all m \<longleftrightarrow> manifest_ok m \<and> m \<noteq> JNull \<and> ok (json_item ''results'' m) \<and> once_each m \<and> names_are_text m
     \<and> (\<forall>(suite, metric, key) \<in> set shown_metrics. \<exists>v x. table_value m suite metric = Some v \<and> json_number v = Inr x)"

definition table_number :: "string \<Rightarrow> string \<Rightarrow> json \<Rightarrow> real" where
  "table_number suite metric m = (case table_value m suite metric of None \<Rightarrow> 0 | Some v \<Rightarrow> (case json_number v of Inr x \<Rightarrow> x | Inl _ \<Rightarrow> 0))"

definition shown_data :: "json \<Rightarrow> (json, json) dict \<Rightarrow> bool" where
  "shown_data m d \<longleftrightarrow> (\<forall>(suite, metric, key) \<in> set shown_metrics. dict_get d (JStr key) = table_value m suite metric)"

lemma shows_allD:
  assumes "shows_all m"
  shows "manifest_ok m" "(suite, metric, key) \<in> set shown_metrics \<Longrightarrow> \<exists>v x. table_value m suite metric = Some v \<and> json_number v = Inr x"
  using assms by (simp add: shows_all_def) (use assms in \<open>unfold shows_all_def, blast\<close>)

lemma shows_all_data:
  assumes "shows_all m"
  obtains d where "condition_data m = Inr d" "shown_data m d"
proof -
  have "manifest_ok m" "once_each m" "names_are_text m" "m \<noteq> JNull" "ok (json_item ''results'' m)"
    using assms by (simp_all add: shows_all_def)
  from condition_data_shown [OF this] obtain d where "condition_data m = Inr d"
    "\<And>suite metric key. (suite, metric, key) \<in> set shown_metrics \<Longrightarrow> dict_get d (JStr key) = table_value m suite metric" by blast
  then show ?thesis by (intro that [of d]) (auto simp: shown_data_def)
qed

lemma load_condition_data_run:
  assumes "list_all2 (\<lambda>c m. files w (manifest_path dir c) = Some (Doc m)) cs ms" and "list_all shows_all ms"
  shows "\<exists>ds. load_condition_data de dir cs w = (Inr ds, w) \<and> list_all2 shown_data ms ds"
  using assms
proof (induction cs arbitrary: ms)
  case (Cons c cs)
  then obtain m ms' where ms: "ms = m # ms'" and m: "files w (manifest_path dir c) = Some (Doc m)" "shows_all m"
    by (auto simp: list_all2_Cons1)
  obtain d where "condition_data m = Inr d" "shown_data m d"
    using shows_all_data [OF m(2)] by blast
  moreover obtain ds where "load_condition_data de dir cs w = (Inr ds, w)" "list_all2 shown_data ms' ds" using Cons ms by auto
  ultimately show ?case
    using m(1) by (auto simp: ms io_bind_def io_run load_result_manifest_def read_json_Doc)
qed (simp add: io_run)

lemma value_column_run:
  assumes "list_all2 shown_data ms ds" and "list_all shows_all ms" and "(suite, metric, key) \<in> set shown_metrics"
  shows "value_column ds key = Inr (map (\<lambda>m. the (table_value m suite metric)) ms)"
  using assms(1,2)
proof (induction ms ds rule: list_all2_induct)
  case (Cons m ms d ds)
  then have "dict_get d (JStr key) = table_value m suite metric" "table_value m suite metric \<noteq> None"
    using assms(3) shows_allD(2) [of m, OF _ assms(3)] by (auto simp: shown_data_def)
  with Cons show ?case by (auto simp: value_column_def dict_item_def)
qed (simp add: value_column_def)

lemma shown_number:
  assumes "list_all shows_all ms" and "(suite, metric, key) \<in> set shown_metrics" and "m \<in> set ms"
  shows "json_number (the (table_value m suite metric)) = Inr (table_number suite metric m)"
proof -
  obtain v x where "table_value m suite metric = Some v" "json_number v = Inr x"
    using assms(1,3) shows_allD(2) [OF _ assms(2), of m] by (auto simp: list_all_iff)
  then show ?thesis by (simp add: table_number_def)
qed

lemma bars_above_run:
  assumes "list_all shows_all ms" and "(suite, metric, key) \<in> set shown_metrics"
  shows "bars_above gap text (map (\<lambda>m. the (table_value m suite metric)) ms) = Inr
    (map (\<lambda>m. \<lparr>bt_bar = table_number suite metric m, bt_y = table_number suite metric m + gap,
        bt_text = text (the (table_value m suite metric)) (table_number suite metric m)\<rparr>) ms)"
  unfolding bars_above_def rmap_map comp_def
  using shown_number [OF assms] by (intro rmap_Inr) simp

lemma correlation_bars_run:
  assumes "list_all shows_all ms" and "(suite, metric, key) \<in> set shown_metrics"
  shows "\<exists>bs. correlation_bars (map (\<lambda>m. the (table_value m suite metric)) ms)
      = Inr (correlation_limit (map (table_number suite metric) ms), bs)
    \<and> map bt_bar bs = map (table_number suite metric) ms \<and> map bt_text bs = map (\<lambda>m. fmt_fixed 6 (table_number suite metric m)) ms"
proof -
  have "rmap json_number (map (\<lambda>m. the (table_value m suite metric)) ms) = Inr (map (table_number suite metric) ms)"
    unfolding rmap_map comp_def using shown_number [OF assms] by (intro rmap_Inr) simp
  then show ?thesis by (simp add: correlation_bars_def Let_def comp_def)
qed

lemma correlation_limit_bounds: "x \<in> set xs \<Longrightarrow> \<bar>x\<bar> \<le> correlation_limit xs"
  using lmax_ge [of "\<bar>x\<bar>" "map abs xs"] by (simp add: correlation_limit_def)

text \<open>The table's cell of a metric whose value is known.\<close>

lemma table_cell:
  assumes "manifest_ok m" and "table_value m suite metric = Some v"
  shows "metric_of rep metric (suite_of m suite) = metric_text rep v"
proof -
  obtain r x where r: "suite_of m suite = Some r" and x: "entry_of ''name'' metric (listed ''metrics'' r) = Some x" "v = value_of_metric x"
    using assms(2) by (auto simp: table_value_def split: option.splits)
  have "list_all metric_ok (listed ''metrics'' r)" using suite_of_ok [OF assms(1) r] by (simp add: suite_ok_def)
  then have "metric_ok x" using x(1) by (auto simp: entry_of_def find_Some_iff list_all_length)
  then show ?thesis by (auto simp: metric_of_def r x metric_ok_def ok_iff value_of_metric_def)
qed

definition figure_panels :: "results_figure \<Rightarrow> (string \<times> string \<times> bar_text list) list" where
  "figure_panels fig =
     [(''entropy-iid'', ''min(H_original, 8 X H_bitstring)'', rf_iid fig),
      (''entropy-non-iid'', ''min(H_original, 8 X H_bitstring)'', rf_non_iid fig),
      (''ent'', ''chi_square_exceed_percent'', rf_chi fig), (''borel'', ''borel_normality_metric'', rf_borel fig),
      (''ent'', ''serial_correlation'', rf_correlation fig), (''testu01-rabbit'', ''suspect_p_values'', rf_rabbit fig)]"

text \<open>
  C25: The figure and the table agree. When the manifests of the five conditions name every suite and every metric once and
  have a number for each metric that is plotted, the figure is made, each of its six panels has one
  bar per condition, and the height of a bar is the value whose text the comparison table prints in
  the cell of that condition and metric. Every correlation is inside its axis.
\<close>

theorem plot_agrees_with_table:
  assumes "list_all2 (\<lambda>c m. files w (manifest_path dir c) = Some (Doc m)) result_conditions ms" and "list_all shows_all ms"
    and "ok (fst (mkdirs dir w))"
  shows "\<exists>fig. fst (plot_results de rep dir None w) = Inr fig
     \<and> list_all (\<lambda>(suite, metric, bars). list_all2 (\<lambda>m b. \<exists>v. json_number v = Inr (bt_bar b)
            \<and> metric_of rep metric (suite_of m suite) = metric_text rep v) ms bars) (figure_panels fig)
     \<and> list_all (\<lambda>b. \<bar>bt_bar b\<bar> \<le> rf_limit fig) (rf_correlation fig)"
proof -
  note all = assms(2)
  obtain ds where ds: "load_condition_data de dir result_conditions w = (Inr ds, w)" "list_all2 shown_data ms ds"
    using load_condition_data_run [OF assms(1,2)] by blast
  have ins: "(''entropy-iid'', ''min(H_original, 8 X H_bitstring)'', ''iid_entropy'') \<in> set shown_metrics"
    "(''entropy-non-iid'', ''min(H_original, 8 X H_bitstring)'', ''non_iid_entropy'') \<in> set shown_metrics"
    "(''ent'', ''chi_square_exceed_percent'', ''chi_square_exceed_percent'') \<in> set shown_metrics"
    "(''borel'', ''borel_normality_metric'', ''borel'') \<in> set shown_metrics"
    "(''ent'', ''serial_correlation'', ''serial_correlation'') \<in> set shown_metrics"
    "(''testu01-rabbit'', ''suspect_p_values'', ''rabbit'') \<in> set shown_metrics"
    by (simp_all add: shown_metrics_def plotted_metrics_def)
  note cols = ins [THEN value_column_run [OF ds(2) all]] and bars = ins [THEN bars_above_run [OF all]]
  obtain cb where cb: "correlation_bars (map (\<lambda>m. the (table_value m ''ent'' ''serial_correlation'')) ms)
      = Inr (correlation_limit (map (table_number ''ent'' ''serial_correlation'') ms), cb)"
    "map bt_bar cb = map (table_number ''ent'' ''serial_correlation'') ms"
    using correlation_bars_run [OF all ins(5)] by blast
  have cell: "list_all2 (\<lambda>m b. \<exists>v. json_number v = Inr (bt_bar b) \<and> metric_of rep metric (suite_of m suite) = metric_text rep v) ms bs"
    if key: "(suite, metric, key) \<in> set shown_metrics" and bs: "map bt_bar bs = map (table_number suite metric) ms" for suite metric key bs
  proof (rule list_all2_all_nthI)
    show "length ms = length bs" using arg_cong [OF bs, of length] by simp
    fix i assume i: "i < length ms"
    then have m: "ms ! i \<in> set ms" by simp
    have "bt_bar (bs ! i) = table_number suite metric (ms ! i)"
      using arg_cong [OF bs, of "\<lambda>l. l ! i"] i \<open>length ms = length bs\<close> by simp
    moreover obtain v where "table_value (ms ! i) suite metric = Some v" "manifest_ok (ms ! i)"
      using all m shows_allD(1) [of "ms ! i"] shows_allD(2) [OF _ key, of "ms ! i"] by (auto simp: list_all_iff)
    ultimately show "\<exists>v. json_number v = Inr (bt_bar (bs ! i)) \<and> metric_of rep metric (suite_of (ms ! i) suite) = metric_text rep v"
      using shown_number [OF all key m] table_cell by fastforce
  qed
  have lim: "\<bar>bt_bar b\<bar> \<le> correlation_limit (map (table_number ''ent'' ''serial_correlation'') ms)" if "b \<in> set cb" for b
    using that by (intro correlation_limit_bounds) (simp flip: cb(2))
  obtain w' where dir: "mkdirs dir w = (Inr (), w')" "parent (dir @ [''comparison_plot.png'']) = dir"
    using assms(3) by (cases "mkdirs dir w") (auto simp: parent_def ok_iff)
  show ?thesis
    by (simp add: plot_results_def io_bind_def io_run ds(1) Let_def results_panels_def entropy_bars_def chi_bars_def borel_bars_def rabbit_bars_def cols bars cb(1) figure_panels_def
        dir list_all_iff lim cell [OF ins(5) cb(2)] cell [OF ins(1)] cell [OF ins(2)] cell [OF ins(3)] cell [OF ins(4)] cell [OF ins(6)] comp_def)
qed


definition demo_metric :: "string \<Rightarrow> json \<Rightarrow> json" where
  "demo_metric name v = JObj [(''name'', JStr name), (''value'', v)]"

definition demo_suite :: "string \<Rightarrow> json list \<Rightarrow> json" where
  "demo_suite suite ms = JObj [(''suite'', JStr suite), (''metrics'', JArr ms)]"

definition demo_full_manifest :: json where
  "demo_full_manifest = JObj [(''results'', JArr
     [demo_suite ''ent'' [demo_metric ''chi_square_exceed_percent'' (JFloat 50), demo_metric ''serial_correlation'' (JFloat (- 1))],
      demo_suite ''entropy-iid'' [demo_metric ''min(H_original, 8 X H_bitstring)'' (JFloat 7)],
      demo_suite ''entropy-non-iid'' [demo_metric ''min(H_original, 8 X H_bitstring)'' (JFloat 6)],
      demo_suite ''borel'' [demo_metric ''borel_normality_metric'' (JFloat 1)],
      demo_suite ''testu01-rabbit'' [demo_metric ''suspect_p_values'' (JInt 0)]])]"

definition demo_full :: world where
  "demo_full = \<lparr>files = (\<lambda>p. if p \<noteq> [] \<and> last p = ''manifest.json'' then Some (Doc demo_full_manifest) else None),
     commands = [], slept = []\<rparr>"

lemmas demo_json = json_item_def json_get_def dict_item_def dict_get_or_def dict_get_def demo_metric_def demo_suite_def

lemma demo_full_listed:
  "listed ''results'' demo_full_manifest =
     [demo_suite ''ent'' [demo_metric ''chi_square_exceed_percent'' (JFloat 50), demo_metric ''serial_correlation'' (JFloat (- 1))],
      demo_suite ''entropy-iid'' [demo_metric ''min(H_original, 8 X H_bitstring)'' (JFloat 7)],
      demo_suite ''entropy-non-iid'' [demo_metric ''min(H_original, 8 X H_bitstring)'' (JFloat 6)],
      demo_suite ''borel'' [demo_metric ''borel_normality_metric'' (JFloat 1)],
      demo_suite ''testu01-rabbit'' [demo_metric ''suspect_p_values'' (JInt 0)]]"
  "is_list ''results'' demo_full_manifest" "demo_full_manifest \<noteq> JNull" "ok (json_item ''results'' demo_full_manifest)"
  by (simp_all add: listed_def is_list_def demo_full_manifest_def json_item_def json_get_def dict_item_def dict_get_or_def dict_get_def)

lemma demo_parts:
  "suite_name (demo_suite s ms) = JStr s" "listed ''metrics'' (demo_suite s ms) = ms" "is_list ''metrics'' (demo_suite s ms)"
  "json_item ''suite'' (demo_suite s ms) = Inr (JStr s)" "json_item ''name'' (demo_metric n v) = Inr (JStr n)"
  "name_of (demo_metric n v) = JStr n" "value_of_metric (demo_metric n v) = v" "metric_ok (demo_metric n v)"
  by (simp_all add: suite_name_def listed_def is_list_def name_of_def value_of_metric_def metric_ok_def demo_json)

lemma demo_full_shows: "shows_all demo_full_manifest"
  by (simp add: shows_all_def manifest_ok_def demo_full_listed once_each_def names_are_text_def demo_parts suite_ok_def
      shown_metrics_def plotted_metrics_def table_value_def suite_of_def entry_of_def json_number_def)

theorem plot_agrees_with_table_witness:
  "\<exists>fig. fst (plot_results \<lparr>float_text = (\<lambda>j. []), encode = (\<lambda>n. []), decode_json = (\<lambda>b. Inr JNull)\<rparr> (\<lambda>j. []) [''r''] None demo_full) = Inr fig
     \<and> length (rf_rabbit fig) = 5"
proof -
  let ?ms = "replicate 5 demo_full_manifest"
  have f: "list_all2 (\<lambda>c m. files demo_full (manifest_path [''r''] c) = Some (Doc m)) result_conditions ?ms"
    by (simp add: demo_full_def result_conditions_def manifest_path_def numeral_eq_Suc)
  have s: "list_all shows_all ?ms" by (simp add: list_all_iff demo_full_shows)
  have "ok (fst (mkdirs [''r''] demo_full))" by (simp add: mkdirs_def demo_full_def is_file_def)
  from plot_agrees_with_table [OF f s this, of "\<lparr>float_text = (\<lambda>j. []), encode = (\<lambda>n. []), decode_json = (\<lambda>b. Inr JNull)\<rparr>" "\<lambda>j. []"]
  obtain fig where "fst (plot_results \<lparr>float_text = (\<lambda>j. []), encode = (\<lambda>n. []), decode_json = (\<lambda>b. Inr JNull)\<rparr> (\<lambda>j. []) [''r''] None demo_full) = Inr fig"
    and "list_all (\<lambda>(suite, metric, bars). list_all2 (\<lambda>m b. \<exists>v. json_number v = Inr (bt_bar b)
            \<and> metric_of (\<lambda>j. []) metric (suite_of m suite) = metric_text (\<lambda>j. []) v) ?ms bars) (figure_panels fig)" by blast
  then show ?thesis using list_all2_lengthD by (fastforce simp: figure_panels_def)
qed

end
