(* ===== verification/RenewalDevice.thy ===== *)
theory RenewalDevice
  imports RenewalLog "HOL-Library.Word"
begin

text \<open>
  The firmware of the entropy-renewal benchmark (\<open>main.c\<close>, \<open>renewal_rng_wrap.c\<close>) as far as its serial
  log goes: the counters around the random generator, one handshake with its request and the
  mixing of the response, the loop of iterations, and every tagged line it prints. What
  wolfSSL, the sockets, the entropy driver, Wi-Fi and the clock do is a parameter. Facts: the
  parser reads the log of every run back; which failures the log does not count.
\<close>

section \<open>Counting random numbers\<close>

record rng_stats =
  block_calls :: "64 word"
  block_bytes :: "64 word"
  block_cycles :: "64 word"
  byte_calls :: "64 word"
  byte_bytes :: "64 word"
  byte_cycles :: "64 word"
  rng_errors :: "64 word"

definition renewal_rng_reset :: rng_stats where
  "renewal_rng_reset = \<lparr>block_calls = 0, block_bytes = 0, block_cycles = 0, byte_calls = 0, byte_bytes = 0, byte_cycles = 0,
     rng_errors = 0\<rparr>"

definition record_block_result :: "32 word \<Rightarrow> 32 word \<Rightarrow> int \<Rightarrow> rng_stats \<Rightarrow> rng_stats" where
  "record_block_result sz cycles ret s =
     (let t = s\<lparr>block_calls := block_calls s + 1, block_cycles := block_cycles s + ucast cycles\<rparr>
      in if ret = 0 then t\<lparr>block_bytes := block_bytes t + ucast sz\<rparr> else t\<lparr>rng_errors := rng_errors t + 1\<rparr>)"

definition record_byte_result :: "32 word \<Rightarrow> int \<Rightarrow> rng_stats \<Rightarrow> rng_stats" where
  "record_byte_result cycles ret s =
     (let t = s\<lparr>byte_calls := byte_calls s + 1, byte_cycles := byte_cycles s + ucast cycles\<rparr>
      in if ret = 0 then t\<lparr>byte_bytes := byte_bytes t + 1\<rparr> else t\<lparr>rng_errors := rng_errors t + 1\<rparr>)"

text \<open>A call of the wrapped generator: the size asked for, the cycle counter around the call, the result.\<close>

datatype rng_call = GenerateBlock "32 word" "32 word" "32 word" int | GenerateByte "32 word" "32 word" int

fun wrap_rng :: "rng_call \<Rightarrow> rng_stats \<Rightarrow> rng_stats" where
  "wrap_rng (GenerateBlock sz start end ret) s = record_block_result sz (end - start) ret s"
| "wrap_rng (GenerateByte start end ret) s = record_byte_result (end - start) ret s"

section \<open>The environment\<close>

text \<open>A snapshot of the entropy driver, as far as it is printed.\<close>

record pool_stats =
  timestamp_us :: "64 word"
  total_hw_bytes :: "64 word"
  total_external_bytes :: "64 word"
  total_pool_debit_bytes :: "64 word"
  total_thread_get_bytes :: "64 word"
  total_isr_get_bytes :: "64 word"
  total_fast_refill_bytes :: "64 word"
  credited_pool_bits :: "32 word"

datatype ctx_step = Ctx_New | Cipher_List | Groups_List | Load_CA

datatype error_code = EIO | ENOMEM | ECONNABORTED | EINVAL | ENODATA

text \<open>The build: its macros, and the numbers of the error codes.\<close>

record renewal_build =
  rb_iterations :: nat
  rb_warmup :: nat
  rb_pause_ms :: int
  rb_inject_every :: "int option"
  rb_entropy_bytes :: nat
  rb_server :: string
  rb_port :: int
  rb_group :: string
  rb_version :: string
  rb_driver :: string
  rb_kex :: string
  rb_mldsa :: bool
  rb_skip_verify :: bool
  rb_no_refill :: bool
  rb_errno :: "error_code \<Rightarrow> int"
  rb_cyc_to_us :: "32 word \<Rightarrow> 32 word"

text \<open>What the libraries do during one iteration; the \<open>n\<close>-th read returns \<open>hs_read n\<close>.\<close>

record handshake =
  hs_ctx :: "ctx_step option"
  hs_fd :: int
  hs_fd_errno :: int
  hs_connect :: int
  hs_connect_errno :: int
  hs_ssl :: bool
  hs_configured :: bool
  hs_handshake :: bool
  hs_error :: int
  hs_write :: int
  hs_read :: "nat \<Rightarrow> int"
  hs_add :: int
  hs_pre :: pool_stats
  hs_post :: pool_stats
  hs_calls :: "rng_call list"
  hs_start :: "32 word"
  hs_end :: "32 word"

section \<open>One iteration\<close>

definition create_dtls_ctx :: "renewal_build \<Rightarrow> handshake \<Rightarrow> bool \<times> item list" where
  "create_dtls_ctx b h =
     (case hs_ctx h of
        None \<Rightarrow> (True, [])
      | Some Ctx_New \<Rightarrow> (False, [Err_Item ''wolfssl_ctx_new''])
      | Some Cipher_List \<Rightarrow> (False, [Err_Item ''wolfssl_cipher_list''])
      | Some Groups_List \<Rightarrow> (False, [Err_Item (''wolfssl_group,'' @ rb_group b)])
      | Some Load_CA \<Rightarrow> if rb_skip_verify b then (True, [])
          else (False, [Err_Item (if rb_mldsa b then ''load_ca_mldsa44'' else ''load_ca_ecc'')]))"

text \<open>The descriptor, or the negated error number.\<close>

definition create_connected_udp_socket :: "handshake \<Rightarrow> int \<times> item list" where
  "create_connected_udp_socket h =
     (if hs_fd h < 0 then (- hs_fd_errno h, [Err_Item (''socket,'' @ str_of_int (hs_fd_errno h))])
      else if hs_connect h < 0 then (- hs_connect_errno h, [Err_Item (''udp_connect,'' @ str_of_int (hs_connect_errno h))])
      else (hs_fd h, []))"

definition RESPONSE_BUFFER_SIZE :: nat where "RESPONSE_BUFFER_SIZE = 768"
definition ENTROPY_PAYLOAD_MAX :: nat where "ENTROPY_PAYLOAD_MAX = 256"
definition DTLS_REQUEST_BUFFER_SIZE :: nat where "DTLS_REQUEST_BUFFER_SIZE = 32"

text \<open>The read loop: the number of bytes received, and whether a read failed.\<close>

function read_response :: "renewal_build \<Rightarrow> (nat \<Rightarrow> int) \<Rightarrow> nat \<Rightarrow> nat \<Rightarrow> nat \<times> bool" where
  "read_response b rd n len =
     (if len < rb_entropy_bytes b \<and> len < RESPONSE_BUFFER_SIZE then
        (if rd n \<le> 0 then (len, True) else read_response b rd (n + 1) (len + nat (rd n)))
      else (len, False))"
  by pat_completeness auto
termination
  by (relation "measure (\<lambda>(b, rd, n, len). RESPONSE_BUFFER_SIZE - len)") auto

declare read_response.simps [simp del]

text \<open>The result, the length of the response, the lines.\<close>

definition dtls_request_entropy :: "renewal_build \<Rightarrow> handshake \<Rightarrow> int \<times> nat \<times> item list" where
  "dtls_request_entropy b h =
     (if \<not> hs_handshake h then
        (- rb_errno b ECONNABORTED, 0, [Err_Item (''wolfssl_connect,'' @ str_of_int (hs_error h))])
      else (let request_len = length (''GET '' @ str_of_nat (rb_entropy_bytes b)) + 1
            in if DTLS_REQUEST_BUFFER_SIZE \<le> request_len then (- rb_errno b EINVAL, 0, [])
               else if hs_write h \<noteq> int request_len then
                 (- rb_errno b EIO, 0, [Err_Item (''wolfssl_write,'' @ str_of_int (hs_error h))])
               else (case read_response b (hs_read h) 0 0 of (len, failed) \<Rightarrow>
                 (if failed \<and> len = 0 then - rb_errno b ENODATA else 0, len,
                  if failed then [Err_Item (''wolfssl_read,'' @ str_of_int (hs_error h))] else []))))"

text \<open>The result, the number of accepted bytes, the lines.\<close>

definition maybe_mix_network_entropy :: "renewal_build \<Rightarrow> handshake \<Rightarrow> int \<Rightarrow> nat \<Rightarrow> int \<times> nat \<times> item list" where
  "maybe_mix_network_entropy b h iter len =
     (case rb_inject_every b of
        None \<Rightarrow> (0, 0, [])
      | Some every \<Rightarrow>
          if every \<le> 0 \<or> iter mod every \<noteq> 0 then (0, 0, [])
          else (let n = min (min len (rb_entropy_bytes b)) ENTROPY_PAYLOAD_MAX
                in if n = 0 then (- rb_errno b ENODATA, 0, [Warn_Item (''empty_entropy_payload,'' @ str_of_int iter)])
                   else (hs_add h, if hs_add h = 0 then n else 0, [])))"

definition iter_values :: "renewal_build \<Rightarrow> handshake \<Rightarrow> int \<Rightarrow> int \<Rightarrow> nat \<Rightarrow> nat \<Rightarrow> int list" where
  "iter_values b h iter ret len accepted =
     (let pre = hs_pre h; post = hs_post h; rng = fold wrap_rng (hs_calls h) renewal_rng_reset in
      [iter, ret, uint (rb_cyc_to_us b (hs_end h - hs_start h)), int len, int accepted,
       uint (block_calls rng), uint (block_bytes rng), uint (byte_calls rng), uint (byte_bytes rng),
       uint (total_hw_bytes post - total_hw_bytes pre), uint (total_external_bytes post - total_external_bytes pre),
       uint (total_pool_debit_bytes post - total_pool_debit_bytes pre),
       uint (total_thread_get_bytes post - total_thread_get_bytes pre),
       uint (total_isr_get_bytes post - total_isr_get_bytes pre),
       uint (total_fast_refill_bytes post - total_fast_refill_bytes pre),
       uint (credited_pool_bits pre), uint (credited_pool_bits post),
       uint (block_cycles rng), uint (byte_cycles rng), uint (rng_errors rng),
       uint (timestamp_us pre), uint (timestamp_us post)])"

definition run_one_iteration :: "renewal_build \<Rightarrow> handshake \<Rightarrow> int \<Rightarrow> bool \<Rightarrow> int \<times> item list" where
  "run_one_iteration b h iter measured =
     (case create_dtls_ctx b h of (made, l1) \<Rightarrow>
      if \<not> made then (- rb_errno b ENOMEM, l1)
      else (case create_connected_udp_socket h of (fd, l2) \<Rightarrow>
        if fd < 0 then (fd, l1 @ l2)
        else if \<not> hs_ssl h then (- rb_errno b ENOMEM, l1 @ l2)
        else if \<not> hs_configured h then
          (- rb_errno b EIO, l1 @ l2 @ [Err_Item (''wolfssl_config,'' @ str_of_int (- rb_errno b EIO))])
        else (case dtls_request_entropy b h of (r1, len, l3) \<Rightarrow>
              (case (if r1 = 0 then maybe_mix_network_entropy b h iter len else (r1, 0, [])) of (ret, accepted, l4) \<Rightarrow>
                (ret, l1 @ l2 @ l3 @ l4 @ (if measured then [Iter_Item (iter_values b h iter ret len accepted)] else []))))))"

section \<open>The program\<close>

record renewal_world =
  rw_device_ready :: bool
  rw_boot :: "pool_stats option"
  rw_heap :: "string \<Rightarrow> (nat \<times> nat \<times> nat) option"
  rw_init :: int
  rw_init_ok :: int
  rw_address :: bool
  rw_wifi :: int
  rw_wifi_wait :: int
  rw_warm :: "nat \<Rightarrow> handshake"
  rw_run :: "nat \<Rightarrow> handshake"
  rw_connected :: "nat \<Rightarrow> bool"
  rw_reconnect :: "nat \<Rightarrow> int"

definition warmup_items :: "renewal_build \<Rightarrow> renewal_world \<Rightarrow> item list" where
  "warmup_items b w = concat (map (\<lambda>i. snd (run_one_iteration b (rw_warm w i) (int i) False)) [0..<rb_warmup b])"

definition iteration_items :: "renewal_build \<Rightarrow> renewal_world \<Rightarrow> nat \<Rightarrow> item list" where
  "iteration_items b w i =
     (case run_one_iteration b (rw_run w i) (int i) True of (ret, ls) \<Rightarrow>
        ls @ (if ret \<noteq> 0 then [Warn_Item (''iteration_failed,'' @ str_of_int (int i) @ '','' @ str_of_int ret)] else []))"

text \<open>The measured loop over \<open>is\<close>; it is left when Wi-Fi cannot be restored.\<close>

fun measured_items :: "renewal_build \<Rightarrow> renewal_world \<Rightarrow> nat list \<Rightarrow> item list" where
  "measured_items b w [] = []"
| "measured_items b w (i # is) =
     iteration_items b w i @
     (if \<not> rw_connected w i \<and> rw_reconnect w i \<noteq> 0
      then [Err_Item (''wifi_reconnect_failed,'' @ str_of_int (int i))] else measured_items b w is)"

definition RENEWAL_HEADER :: string where
  "RENEWAL_HEADER = ''[RENEWAL_HEADER] iter,ret,elapsed_us,response_bytes,'' @ ''accepted_net_bytes,rng_block_calls,rng_block_bytes,''
     @ ''rng_byte_calls,rng_byte_bytes,local_hw_bytes,external_bytes,'' @ ''pool_debit_bytes,thread_get_bytes,isr_get_bytes,''
     @ ''fast_refill_bytes,pool_credit_bits_pre,pool_credit_bits_post,'' @ ''rng_block_cycles,rng_byte_cycles,rng_errors,''
     @ ''pool_timestamp_us_pre,pool_timestamp_us_post''"

definition run_benchmark :: "renewal_build \<Rightarrow> renewal_world \<Rightarrow> item list" where
  "run_benchmark b w =
     (if rw_init w \<noteq> rw_init_ok w then [Err_Item (''wolfssl_init,'' @ str_of_int (rw_init w))]
      else if \<not> rw_address w then [Err_Item (''inet_pton,'' @ rb_server b)]
      else if rw_wifi w < 0 \<or> rw_wifi_wait w < 0 then [Err_Item (''wifi_connect,'' @ str_of_int (rw_wifi w))]
      else warmup_items b w @ [Other_Item RENEWAL_HEADER] @ measured_items b w [0..<rb_iterations b])"

definition report_heap_stats :: "renewal_world \<Rightarrow> string \<Rightarrow> item list" where
  "report_heap_stats w label =
     (case rw_heap w label of
        None \<Rightarrow> []
      | Some (free, used, peak) \<Rightarrow> [Meta_Item (''heap_free_'' @ label) (str_of_nat free),
          Meta_Item (''heap_used_'' @ label) (str_of_nat used), Meta_Item (''heap_peak_'' @ label) (str_of_nat peak)])"

definition emit_algorithm_metadata :: "renewal_build \<Rightarrow> item list" where
  "emit_algorithm_metadata b =
     [Meta_Item ''key_exchange'' (rb_kex b), Meta_Item ''signature'' (if rb_mldsa b then ''ML-DSA-44'' else ''ECDSA-P256'')]"

definition enabled :: "bool \<Rightarrow> string" where
  "enabled x = (if x then ''enabled'' else ''disabled'')"

definition build_metadata :: "renewal_build \<Rightarrow> item list" where
  "build_metadata b =
     [Meta_Item ''board'' ''esp32_devkitc_wroom'', Meta_Item ''entropy_driver'' (rb_driver b), Meta_Item ''schema_version'' ''3'',
      Meta_Item ''transport'' ''dtls13_udp'', Meta_Item ''application_protocol'' ''raw_entropy_request'',
      Meta_Item ''dtls_server'' (rb_server b @ '':'' @ str_of_int (rb_port b)),
      Meta_Item ''dtls_entropy_bytes'' (str_of_nat (rb_entropy_bytes b)), Meta_Item ''wolfssl_group_name'' (rb_group b),
      Meta_Item ''wolfssl_version'' (rb_version b), Meta_Item ''cert_verify'' (enabled (\<not> rb_skip_verify b))]
     @ emit_algorithm_metadata b
     @ [Meta_Item ''iterations'' (str_of_nat (rb_iterations b)), Meta_Item ''warmup'' (str_of_nat (rb_warmup b)),
        Meta_Item ''inter_handshake_ms'' (str_of_int (rb_pause_ms b))]
     @ (case rb_inject_every b of
          Some _ \<Rightarrow> [Meta_Item ''network_injection'' ''enabled'', Meta_Item ''network_payload_parser'' ''raw_binary'',
            Meta_Item ''network_entropy_credit_bits_per_byte'' ''8'']
        | None \<Rightarrow> [Meta_Item ''network_injection'' ''disabled''])
     @ [Meta_Item ''local_hw_refill_after_bootstrap'' (enabled (\<not> rb_no_refill b))]"

definition renewal_device_main :: "renewal_build \<Rightarrow> renewal_world \<Rightarrow> item list" where
  "renewal_device_main b w =
     [Other_Item [], Other_Item ''[RENEWAL_START]''] @
     (if \<not> rw_device_ready w then [Err_Item ''entropy_device_not_ready'']
      else build_metadata b
        @ (case rw_boot w of None \<Rightarrow> [] | Some s \<Rightarrow> [Meta_Item ''boot_pool_credit_bits'' (str_of_int (uint (credited_pool_bits s)))])
        @ report_heap_stats w ''boot'' @ run_benchmark b w @ report_heap_stats w ''final'' @ [Other_Item ''[RENEWAL_END]''])"

text \<open>What is read on the serial port.\<close>

definition device_log :: "renewal_build \<Rightarrow> renewal_world \<Rightarrow> string" where
  "device_log b w = concat (map (\<lambda>i. item_line i @ [CHR 0x0A]) (renewal_device_main b w))"


section \<open>The printed lines\<close>

text \<open>The header names the fields in the order of the parser.\<close>

lemma header_fields: "RENEWAL_HEADER = ''[RENEWAL_HEADER] '' @ join '','' FIELDS"
  by (simp add: RENEWAL_HEADER_def FIELDS_def BASE_FIELDS_def EXTRA_FIELDS_V2_def)

definition build_ok :: "renewal_build \<Rightarrow> bool" where
  "build_ok b \<longleftrightarrow> list_all clean_text [rb_server b, rb_group b, rb_version b, rb_driver b, rb_kex b] \<and> (\<forall>e. 0 < rb_errno b e)"

lemma str_of_int_digits: "c \<in> set (str_of_int i) \<Longrightarrow> \<not> is_space c \<and> \<not> is_line_break c"
proof -
  assume c: "c \<in> set (str_of_int i)"
  have d: "list_all (\<lambda>c. digit_value 10 c \<noteq> None) (str_of_nat n)" for n
    using nat_text_digits [of 10 n] by (simp add: str_of_nat_def all_digits_def)
  have p: "\<not> is_space c \<and> \<not> is_line_break c" if "digit_value 10 c \<noteq> None"
    using that by (auto simp: digit_value_def is_space_def is_line_break_def code_def Let_def split: if_splits)
  show ?thesis
    using c d [of "nat i"] d [of "nat (- i)"] p
    by (auto simp: str_of_int_def list_all_iff is_space_def is_line_break_def code_def split: if_splits)
qed

lemma clean_int: "clean_text (str_of_int i)" "clean_text (str_of_nat n)"
proof -
  show c: "clean_text (str_of_int i)" for i
    using str_of_int_digits [of _ i] str_of_int_plain(1,4) [of i] hd_in_set [of "str_of_int i"] last_in_set [of "str_of_int i"]
    by (simp add: clean_text_def)
  show "clean_text (str_of_nat n)" using c [of "int n"] by (simp add: str_of_int_def)
qed

lemma clean_append:
  "clean_text t \<Longrightarrow> p \<noteq> [] \<Longrightarrow> \<not> is_space (hd p) \<Longrightarrow> unbroken p \<Longrightarrow> clean_text (p @ t)"
  by (simp add: clean_text_def)

lemmas literal_chars = is_space_def is_line_break_def code_def

lemma clean_tagged_int:
  "clean_text (''socket,'' @ str_of_int i)" "clean_text (''udp_connect,'' @ str_of_int i)" "clean_text (''wolfssl_connect,'' @ str_of_int i)"
  "clean_text (''wolfssl_write,'' @ str_of_int i)" "clean_text (''wolfssl_read,'' @ str_of_int i)" "clean_text (''wolfssl_config,'' @ str_of_int i)"
  "clean_text (''empty_entropy_payload,'' @ str_of_int i)" "clean_text (''wifi_reconnect_failed,'' @ str_of_int i)"
  "clean_text (''wolfssl_init,'' @ str_of_int i)" "clean_text (''wifi_connect,'' @ str_of_int i)"
  by (rule clean_append [OF clean_int(1)]; simp add: literal_chars)+

lemma clean_failed: "clean_text (''iteration_failed,'' @ str_of_int i @ '','' @ str_of_int j)"
  by (intro clean_append clean_int) (use str_of_int_digits [of _ i] str_of_int_plain(1,4) [of i] hd_in_set [of "str_of_int i"] in \<open>auto simp: literal_chars\<close>)

lemma iter_values_length [simp]: "length (iter_values b h i r n m) = 22"
  by (simp add: iter_values_def Let_def)

lemma iteration_items_ok:
  assumes "build_ok b"
  shows "list_all item_ok (snd (run_one_iteration b h i m))"
proof -
  have g: "clean_text (''wolfssl_group,'' @ rb_group b)"
    using assms by (intro clean_append) (auto simp: build_ok_def literal_chars)
  have lits: "clean_text ''wolfssl_ctx_new''" "clean_text ''wolfssl_cipher_list''" "clean_text ''load_ca_mldsa44''" "clean_text ''load_ca_ecc''"
    by (simp_all add: clean_text_def literal_chars)
  have c: "list_all item_ok (snd (create_dtls_ctx b h))"
    using g lits by (simp add: create_dtls_ctx_def split: option.split ctx_step.split)
  have s: "list_all item_ok (snd (create_connected_udp_socket h))"
    by (simp add: create_connected_udp_socket_def clean_tagged_int [simplified])
  have d: "list_all item_ok (snd (snd (dtls_request_entropy b h)))"
    by (simp add: dtls_request_entropy_def Let_def clean_tagged_int [simplified] split: prod.split)
  have x: "list_all item_ok (snd (snd (maybe_mix_network_entropy b h i n)))" for n
    by (simp add: maybe_mix_network_entropy_def Let_def clean_tagged_int [simplified] split: option.split)
  have x': "maybe_mix_network_entropy b h i n = (r, acc, ls) \<Longrightarrow> list_all item_ok ls" for n r acc ls
    using x [of n] by simp
  show ?thesis
    using c s d by (auto simp: run_one_iteration_def clean_tagged_int [simplified] dest: x' split: prod.split)
qed


lemma one_item_ok: "clean_text s \<Longrightarrow> item_ok (Warn_Item s)" "clean_text s \<Longrightarrow> item_ok (Err_Item s)"
  "clean_text s \<Longrightarrow> CHR '','' \<notin> set k \<Longrightarrow> unbroken k \<Longrightarrow> item_ok (Meta_Item k s)"
  by simp_all

lemma measured_items_ok: "build_ok b \<Longrightarrow> list_all item_ok (measured_items b w is)"
proof (induction "is")
  case (Cons i "is")
  have "list_all item_ok (iteration_items b w i)"
    using iteration_items_ok [OF Cons.prems] clean_failed
    by (auto simp: iteration_items_def case_prod_beta simp del: append_Cons append_Nil)
  then show ?case using Cons clean_tagged_int(8) by (auto simp del: append_Cons append_Nil)
qed simp

lemma heap_items_ok: "label = ''boot'' \<or> label = ''final'' \<Longrightarrow> list_all item_ok (report_heap_stats w label)"
  by (auto simp: report_heap_stats_def clean_int is_line_break_def code_def split: option.split)

lemma build_metadata_ok: "build_ok b \<Longrightarrow> list_all item_ok (build_metadata b)"
proof -
  assume b: "build_ok b"
  have "clean_text (rb_server b @ '':'' @ str_of_int (rb_port b))"
    using b clean_int(1) [of "rb_port b"] by (auto simp: build_ok_def clean_text_def literal_chars)
  moreover have "list_all clean_text [''esp32_devkitc_wroom'', ''3'', ''dtls13_udp'', ''raw_entropy_request'', ''enabled'', ''disabled'',
      ''ML-DSA-44'', ''ECDSA-P256'', ''raw_binary'', ''8'']"
    by (simp add: clean_text_def literal_chars)
  ultimately show ?thesis
    using b by (simp add: build_metadata_def build_ok_def clean_int emit_algorithm_metadata_def enabled_def is_line_break_def code_def
        split: option.split)
qed

lemma header_ok: "item_ok (Other_Item RENEWAL_HEADER)" "item_ok (Other_Item [])" "item_ok (Other_Item ''[RENEWAL_START]'')"
  "item_ok (Other_Item ''[RENEWAL_END]'')"
proof -
  have "hd RENEWAL_HEADER = CHR ''[''" "last RENEWAL_HEADER = CHR ''t''" "RENEWAL_HEADER \<noteq> []" "take 10 RENEWAL_HEADER = ''[RENEWAL_H''"
    by (simp_all add: RENEWAL_HEADER_def)
  then have "strip RENEWAL_HEADER = RENEWAL_HEADER" by (intro strip_clean) (auto simp: literal_chars)
  then show "item_ok (Other_Item RENEWAL_HEADER)"
    by (simp add: startswith_def META_def ITER_def WARN_def ERR_def RENEWAL_HEADER_def is_line_break_def code_def)
  have "strip [] = []" by (simp add: strip_def rstrip_def lstrip_def)
  moreover have "strip ''[RENEWAL_START]'' = ''[RENEWAL_START]''" "strip ''[RENEWAL_END]'' = ''[RENEWAL_END]''"
    by (rule strip_clean; simp add: literal_chars)+
  ultimately show "item_ok (Other_Item [])" "item_ok (Other_Item ''[RENEWAL_START]'')" "item_ok (Other_Item ''[RENEWAL_END]'')"
    by (simp_all add: startswith_def META_def ITER_def WARN_def ERR_def is_line_break_def code_def)
qed

lemma device_items_ok:
  assumes "build_ok b"
  shows "list_all item_ok (renewal_device_main b w)"
proof -
  have w: "list_all item_ok (warmup_items b w)"
    using iteration_items_ok [OF assms] by (auto simp: warmup_items_def list_all_iff)
  have inet: "clean_text (''inet_pton,'' @ rb_server b)"
    using assms by (intro clean_append) (auto simp: build_ok_def literal_chars)
  have r: "list_all item_ok (run_benchmark b w)"
    unfolding run_benchmark_def
    using w measured_items_ok [OF assms] header_ok(1) inet clean_tagged_int(9,10)
    by (auto simp del: append_Cons append_Nil)
  have not_ready: "clean_text ''entropy_device_not_ready''" by (simp add: clean_text_def literal_chars)
  show ?thesis
    unfolding renewal_device_main_def
    using r heap_items_ok build_metadata_ok [OF assms] header_ok(2-4) not_ready clean_int(1)
    by (auto simp: is_line_break_def code_def split: option.split)
qed


section \<open>What a run prints\<close>

text \<open>The iterations that get as far as the exchange, and those that the loop performs.\<close>

definition reaches_exchange :: "renewal_build \<Rightarrow> handshake \<Rightarrow> bool" where
  "reaches_exchange b h \<longleftrightarrow> fst (create_dtls_ctx b h) \<and> 0 \<le> fst (create_connected_udp_socket h) \<and> hs_ssl h \<and> hs_configured h"

fun performed :: "renewal_world \<Rightarrow> nat list \<Rightarrow> nat list" where
  "performed w [] = []"
| "performed w (i # is) = i # (if \<not> rw_connected w i \<and> rw_reconnect w i \<noteq> 0 then [] else performed w is)"

definition run_started :: "renewal_world \<Rightarrow> bool" where
  "run_started w \<longleftrightarrow> rw_device_ready w \<and> rw_init w = rw_init_ok w \<and> rw_address w \<and> 0 \<le> rw_wifi w \<and> 0 \<le> rw_wifi_wait w"

definition iteration_ret :: "renewal_build \<Rightarrow> renewal_world \<Rightarrow> nat \<Rightarrow> int" where
  "iteration_ret b w i = fst (run_one_iteration b (rw_run w i) (int i) True)"

lemma items_append:
  "iters (xs @ ys) = iters xs @ iters ys" "warns (xs @ ys) = warns xs @ warns ys" "metas (xs @ ys) = metas xs @ metas ys"
  by (simp_all add: iters_def warns_def metas_def)

lemma items_simps [simp]:
  "iters [] = []" "warns [] = []" "metas [] = []"
  "iters (x # xs) = (case x of Iter_Item vs \<Rightarrow> [vs] | _ \<Rightarrow> []) @ iters xs"
  "warns (x # xs) = (case x of Warn_Item s \<Rightarrow> [s] | _ \<Rightarrow> []) @ warns xs"
  "metas (x # xs) = (case x of Meta_Item k v \<Rightarrow> [(k, v)] | _ \<Rightarrow> []) @ metas xs"
  by (simp_all add: iters_def warns_def metas_def)

lemma parts_items:
  "iters (snd (create_dtls_ctx b h)) = []" "warns (snd (create_dtls_ctx b h)) = []" "metas (snd (create_dtls_ctx b h)) = []"
  "iters (snd (create_connected_udp_socket h)) = []" "warns (snd (create_connected_udp_socket h)) = []"
  "metas (snd (create_connected_udp_socket h)) = []"
  "iters (snd (snd (dtls_request_entropy b h))) = []" "warns (snd (snd (dtls_request_entropy b h))) = []"
  "metas (snd (snd (dtls_request_entropy b h))) = []"
  "iters (snd (snd (maybe_mix_network_entropy b h i n))) = []" "metas (snd (snd (maybe_mix_network_entropy b h i n))) = []"
  by (simp_all add: create_dtls_ctx_def create_connected_udp_socket_def dtls_request_entropy_def maybe_mix_network_entropy_def Let_def
      split: option.split ctx_step.split prod.split)

definition failed_warnings :: "string list \<Rightarrow> string list" where
  "failed_warnings ws = filter (\<lambda>s. startswith s ''iteration_failed,'') ws"

lemma mix_warns: "failed_warnings (warns (snd (snd (maybe_mix_network_entropy b h i n)))) = []"
  by (simp add: maybe_mix_network_entropy_def failed_warnings_def startswith_def Let_def split: option.split)

lemma one_iteration_items:
  "metas (snd (run_one_iteration b h i m)) = []" "failed_warnings (warns (snd (run_one_iteration b h i m))) = []"
  "\<exists>len accepted. iters (snd (run_one_iteration b h i m)) =
     (if m \<and> reaches_exchange b h then [iter_values b h i (fst (run_one_iteration b h i m)) len accepted] else [])"
proof -
  obtain made l1 fd l2 r1 len l3 where c: "create_dtls_ctx b h = (made, l1)" and s: "create_connected_udp_socket h = (fd, l2)"
    and d: "dtls_request_entropy b h = (r1, len, l3)"
    by (metis prod.collapse)
  obtain ret accepted l4 where x: "(if r1 = 0 then maybe_mix_network_entropy b h i len else (r1, 0, [])) = (ret, accepted, l4)"
    by (metis prod.collapse)
  have l: "iters l1 = []" "warns l1 = []" "metas l1 = []" "iters l2 = []" "warns l2 = []" "metas l2 = []"
    "iters l3 = []" "warns l3 = []" "metas l3 = []"
    using parts_items(1,2,3,7,8,9) [of b h] parts_items(4-6) [of h] by (simp_all add: c s d)
  have l4: "iters l4 = []" "metas l4 = []" "failed_warnings (warns l4) = []"
    using x parts_items(10,11) [of b h i len] mix_warns [of b h i len] by (auto simp: failed_warnings_def split: if_splits)
  show "metas (snd (run_one_iteration b h i m)) = []"
    "failed_warnings (warns (snd (run_one_iteration b h i m))) = []"
    "\<exists>len accepted. iters (snd (run_one_iteration b h i m)) =
     (if m \<and> reaches_exchange b h then [iter_values b h i (fst (run_one_iteration b h i m)) len accepted] else [])"
    using l l4 by (auto simp: run_one_iteration_def c s d x items_append reaches_exchange_def failed_warnings_def)
qed

lemma failed_append: "failed_warnings (xs @ ys) = failed_warnings xs @ failed_warnings ys"
  by (simp add: failed_warnings_def)

lemma iteration_items_of:
  "metas (iteration_items b w i) = []"
  "failed_warnings (warns (iteration_items b w i)) =
     (if iteration_ret b w i \<noteq> 0 then [''iteration_failed,'' @ str_of_int (int i) @ '','' @ str_of_int (iteration_ret b w i)] else [])"
  "\<exists>len accepted. iters (iteration_items b w i) = (if reaches_exchange b (rw_run w i)
     then [iter_values b (rw_run w i) (int i) (iteration_ret b w i) len accepted] else [])"
proof -
  obtain ret ls where r: "run_one_iteration b (rw_run w i) (int i) True = (ret, ls)" by (metis prod.collapse)
  have ret: "iteration_ret b w i = ret" by (simp add: iteration_ret_def r)
  note one = one_iteration_items [of b "rw_run w i" "int i" True, unfolded r, simplified]
  show "metas (iteration_items b w i) = []" using one(1) by (simp add: iteration_items_def r items_append)
  show "failed_warnings (warns (iteration_items b w i)) =
     (if iteration_ret b w i \<noteq> 0 then [''iteration_failed,'' @ str_of_int (int i) @ '','' @ str_of_int (iteration_ret b w i)] else [])"
    using one(2) by (simp add: iteration_items_def r items_append failed_append ret) (simp add: failed_warnings_def startswith_def)
  show "\<exists>len accepted. iters (iteration_items b w i) = (if reaches_exchange b (rw_run w i)
     then [iter_values b (rw_run w i) (int i) (iteration_ret b w i) len accepted] else [])"
    using one(3) by (fastforce simp: iteration_items_def r items_append ret)
qed

lemma measured_items_of:
  "metas (measured_items b w is) = []"
  "failed_warnings (warns (measured_items b w is)) =
     map (\<lambda>i. ''iteration_failed,'' @ str_of_int (int i) @ '','' @ str_of_int (iteration_ret b w i))
       (filter (\<lambda>i. iteration_ret b w i \<noteq> 0) (performed w is))"
  "list_all2 (\<lambda>i vs. \<exists>len accepted. vs = iter_values b (rw_run w i) (int i) (iteration_ret b w i) len accepted)
     (filter (\<lambda>i. reaches_exchange b (rw_run w i)) (performed w is)) (iters (measured_items b w is))"
proof (induction "is")
  case (Cons i "is")
  note it = iteration_items_of [of b w i]
  { case 1 then show ?case using Cons it by (simp add: items_append) }
  { case 2 then show ?case using Cons it(2) by (simp add: items_append failed_append) (simp add: failed_warnings_def) }
  { case 3
    obtain len accepted where v: "iters (iteration_items b w i) = (if reaches_exchange b (rw_run w i)
        then [iter_values b (rw_run w i) (int i) (iteration_ret b w i) len accepted] else [])"
      using it(3) by blast
    then show ?case using Cons by (auto simp: items_append) }
qed (simp_all add: failed_warnings_def)


section \<open>The log of a run\<close>

lemma fold_set_other: "k \<notin> fst ` set ys \<Longrightarrow> dict_get (fold (\<lambda>(k, v). dict_set k v) ys d) k = dict_get d k"
  by (induction ys arbitrary: d) auto

lemma last_set: "k \<notin> fst ` set ys \<Longrightarrow> dict_get (fold (\<lambda>(k, v). dict_set k v) (xs @ (k, v) # ys) d) k = Some v"
  by (simp add: fold_set_other)

lemma heap_metas: "label = ''boot'' \<or> label = ''final'' \<Longrightarrow> ''inter_handshake_ms'' \<notin> fst ` set (metas (report_heap_stats w label))"
  by (auto simp: report_heap_stats_def split: option.splits)

lemma other_items:
  "iters (warmup_items b w) = []" "metas (warmup_items b w) = []" "failed_warnings (warns (warmup_items b w)) = []"
  "iters (report_heap_stats w l) = []" "warns (report_heap_stats w l) = []"
  "iters (build_metadata b) = []" "warns (build_metadata b) = []"
proof -
  have "iters (concat (map (\<lambda>i. snd (run_one_iteration b (rw_warm w i) (int i) False)) is)) = []"
    "metas (concat (map (\<lambda>i. snd (run_one_iteration b (rw_warm w i) (int i) False)) is)) = []"
    "failed_warnings (warns (concat (map (\<lambda>i. snd (run_one_iteration b (rw_warm w i) (int i) False)) is))) = []" for "is"
  proof (induction "is")
    case (Cons i "is")
    note one = one_iteration_items [of b "rw_warm w i" "int i" False, simplified]
    { case 1 then show ?case using Cons one by (simp add: items_append) }
    { case 2 then show ?case using Cons one by (simp add: items_append) }
    { case 3 then show ?case using Cons one by (simp add: items_append failed_append) }
  qed (simp_all add: failed_warnings_def)
  then show "iters (warmup_items b w) = []" "metas (warmup_items b w) = []" "failed_warnings (warns (warmup_items b w)) = []"
    by (simp_all add: warmup_items_def)
  show "iters (report_heap_stats w l) = []" "warns (report_heap_stats w l) = []"
    by (simp_all add: report_heap_stats_def split: option.split)
  show "iters (build_metadata b) = []" "warns (build_metadata b) = []"
    by (simp_all add: build_metadata_def items_append emit_algorithm_metadata_def split: option.split)
qed

lemma build_metas_split:
  "\<exists>xs ys. metas (build_metadata b) = xs @ (''inter_handshake_ms'', str_of_int (rb_pause_ms b)) # ys \<and> ''inter_handshake_ms'' \<notin> fst ` set ys"
proof -
  let ?tail = "metas (case rb_inject_every b of
          Some _ \<Rightarrow> [Meta_Item ''network_injection'' ''enabled'', Meta_Item ''network_payload_parser'' ''raw_binary'',
            Meta_Item ''network_entropy_credit_bits_per_byte'' ''8'']
        | None \<Rightarrow> [Meta_Item ''network_injection'' ''disabled''])
     @ [(''local_hw_refill_after_bootstrap'', enabled (\<not> rb_no_refill b))]"
  have "\<exists>xs. metas (build_metadata b) = xs @ (''inter_handshake_ms'', str_of_int (rb_pause_ms b)) # ?tail"
    unfolding build_metadata_def items_append by (simp add: emit_algorithm_metadata_def)
  moreover have "''inter_handshake_ms'' \<notin> fst ` set ?tail" by (simp split: option.split)
  ultimately show ?thesis by blast
qed

lemma device_items_of:
  assumes "run_started w"
  shows "inter_ms (fold (\<lambda>(k, v). dict_set k v) (metas (renewal_device_main b w)) []) = Inr (rb_pause_ms b)"
    and "iters (renewal_device_main b w) = iters (measured_items b w [0..<rb_iterations b])"
    and "failed_warnings (warns (renewal_device_main b w)) = failed_warnings (warns (measured_items b w [0..<rb_iterations b]))"
proof -
  have run: "run_benchmark b w = warmup_items b w @ [Other_Item RENEWAL_HEADER] @ measured_items b w [0..<rb_iterations b]"
    using assms by (simp add: run_benchmark_def run_started_def)
  have main: "renewal_device_main b w = [Other_Item [], Other_Item ''[RENEWAL_START]''] @ build_metadata b
        @ (case rw_boot w of None \<Rightarrow> [] | Some s \<Rightarrow> [Meta_Item ''boot_pool_credit_bits'' (str_of_int (uint (credited_pool_bits s)))])
        @ report_heap_stats w ''boot'' @ run_benchmark b w @ report_heap_stats w ''final'' @ [Other_Item ''[RENEWAL_END]'']"
    using assms by (simp add: renewal_device_main_def run_started_def)
  obtain xs ys where m: "metas (build_metadata b) = xs @ (''inter_handshake_ms'', str_of_int (rb_pause_ms b)) # ys"
    "''inter_handshake_ms'' \<notin> fst ` set ys" using build_metas_split by blast
  define zs where "zs = metas (case rw_boot w of None \<Rightarrow> [] | Some s \<Rightarrow> [Meta_Item ''boot_pool_credit_bits'' (str_of_int (uint (credited_pool_bits s)))])
      @ metas (report_heap_stats w ''boot'') @ metas (report_heap_stats w ''final'')"
  have "metas (renewal_device_main b w) = xs @ (''inter_handshake_ms'', str_of_int (rb_pause_ms b)) # ys @ zs"
    unfolding main run items_append by (simp add: m other_items measured_items_of(1) zs_def)
  moreover have "''inter_handshake_ms'' \<notin> fst ` set (ys @ zs)"
    using m(2) heap_metas [of "''boot''" w] heap_metas [of "''final''" w] by (auto simp: zs_def split: option.splits)
  ultimately show "inter_ms (fold (\<lambda>(k, v). dict_set k v) (metas (renewal_device_main b w)) []) = Inr (rb_pause_ms b)"
    using last_set [of "''inter_handshake_ms''" "ys @ zs" xs] by (simp add: inter_ms_def dict_get_or_def)
  show "iters (renewal_device_main b w) = iters (measured_items b w [0..<rb_iterations b])"
    unfolding main run items_append by (simp add: other_items split: option.split)
  show "failed_warnings (warns (renewal_device_main b w)) = failed_warnings (warns (measured_items b w [0..<rb_iterations b]))"
    unfolding main run items_append failed_append by (simp add: other_items other_items(3) [unfolded failed_warnings_def] failed_warnings_def split: option.split)
qed

text \<open>What the parser makes of the log.\<close>

lemma device_log_read:
  assumes "build_ok b" and "run_started w"
  shows "\<exists>lg. parse_renewal_log (device_log b w) = Inr lg
    \<and> list_all2 (\<lambda>i r. \<exists>len accepted. \<forall>k < 22. dict_get (counters r) (FIELDS ! k)
           = Some (iter_values b (rw_run w i) (int i) (iteration_ret b w i) len accepted ! k))
        (filter (\<lambda>i. reaches_exchange b (rw_run w i)) (performed w [0..<rb_iterations b])) (rl_rows lg)
    \<and> failed_warnings (rl_warnings lg) =
        map (\<lambda>i. ''iteration_failed,'' @ str_of_int (int i) @ '','' @ str_of_int (iteration_ret b w i))
          (filter (\<lambda>i. iteration_ret b w i \<noteq> 0) (performed w [0..<rb_iterations b]))
    \<and> inter_ms (rl_meta lg) = Inr (rb_pause_ms b)"
proof -
  note it = device_items_of [OF assms(2), of b] and me = measured_items_of [of b w "[0..<rb_iterations b]"]
  obtain lg where lg: "parse_renewal_log (device_log b w) = Inr lg"
    "rl_meta lg = fold (\<lambda>(k, v). dict_set k v) (metas (renewal_device_main b w)) []" "rl_warnings lg = warns (renewal_device_main b w)"
    "length (rl_rows lg) = length (iters (renewal_device_main b w))"
    "\<forall>n < length (iters (renewal_device_main b w)). \<forall>i < 22. dict_get (counters (rl_rows lg ! n)) (FIELDS ! i)
       = Some (if i < length (iters (renewal_device_main b w) ! n) then iters (renewal_device_main b w) ! n ! i else 0)"
    using renewal_log_read [OF device_items_ok [OF assms(1), of w] it(1)] unfolding device_log_def by blast
  have "list_all2 (\<lambda>i r. \<exists>len accepted. \<forall>k < 22. dict_get (counters r) (FIELDS ! k)
           = Some (iter_values b (rw_run w i) (int i) (iteration_ret b w i) len accepted ! k))
        (filter (\<lambda>i. reaches_exchange b (rw_run w i)) (performed w [0..<rb_iterations b])) (rl_rows lg)"
  proof (rule list_all2_all_nthI)
    show len: "length (filter (\<lambda>i. reaches_exchange b (rw_run w i)) (performed w [0..<rb_iterations b])) = length (rl_rows lg)"
      using list_all2_lengthD [OF me(3)] lg(4) it(2) by simp
    fix n assume n: "n < length (filter (\<lambda>i. reaches_exchange b (rw_run w i)) (performed w [0..<rb_iterations b]))"
    let ?i = "filter (\<lambda>i. reaches_exchange b (rw_run w i)) (performed w [0..<rb_iterations b]) ! n"
    obtain l accepted where "iters (renewal_device_main b w) ! n = iter_values b (rw_run w ?i) (int ?i) (iteration_ret b w ?i) l accepted"
      using list_all2_nthD [OF me(3) n] it(2) by auto
    then show "\<exists>len accepted. \<forall>k < 22. dict_get (counters (rl_rows lg ! n)) (FIELDS ! k)
        = Some (iter_values b (rw_run w ?i) (int ?i) (iteration_ret b w ?i) len accepted ! k)"
      using lg(4,5) len n by auto
  qed
  then show ?thesis using lg(1-3) it me(2) by auto
qed


text \<open>An iteration that does not get to the exchange fails.\<close>

lemma unreached_fails:
  assumes "build_ok b" and "\<not> reaches_exchange b h"
  shows "fst (run_one_iteration b h i m) \<noteq> 0"
proof -
  have "rb_errno b e \<noteq> 0" for e using assms(1) by (simp add: build_ok_def) (metis less_irrefl)
  with assms(2) show ?thesis by (auto simp: run_one_iteration_def reaches_exchange_def split: prod.split)
qed

text \<open>The summary of rows that have all their counters.\<close>

lemma total_full: "\<forall>r \<in> set rs. \<exists>v. counter k r = Inr v \<Longrightarrow> \<exists>t. total k rs = Inr t"
  unfolding total_def by (metis rbind_Inr rmap_Inr)

lemma summary_full:
  assumes rows: "\<forall>r \<in> set (rl_rows lg). full_row (counters r) \<and> (\<exists>v. dict_get (counters r) ''rng_output_bytes'' = Some v)"
    and gap: "inter_ms (rl_meta lg) = Inr gap"
  shows "\<exists>s. summarize_renewal lg = Inr s \<and> su_logged s = length (rl_rows lg) \<and> su_ok s = length (good_rows (rl_rows lg))
    \<and> su_failed s = int (length (rl_rows lg)) - int (length (good_rows (rl_rows lg))) \<and> su_warnings s = rl_warnings lg"
proof -
  let ?rs = "rl_rows lg" and ?g = "good_rows (rl_rows lg)"
  have c: "\<exists>v. counter k r = Inr v" if "r \<in> set ?rs" "k \<in> insert ''rng_output_bytes'' (set FIELDS)" for r k
    using rows that by (fastforce simp: counter_def full_row_def dict_item_def)
  have g: "set ?g \<subseteq> set ?rs" by (auto simp: good_rows_def)
  have ret: "\<exists>v. counter ''ret'' r = Inr v" if "r \<in> set ?rs" for r using c [OF that] in_fields(11) by blast
  obtain ps where ps: "rmap (\<lambda>r. rbind (counter ''ret'' r) (\<lambda>v. Inr (v, r))) ?rs = Inr ps"
  proof -
    obtain h where "\<forall>r \<in> set ?rs. counter ''ret'' r = Inr (h r)" using ret by metis
    then show ?thesis using that rmap_Inr [of ?rs _ "\<lambda>r. (h r, r)"] by simp
  qed
  have "\<exists>figs. renewal_figures gap ?g = Inr figs" if "?g \<noteq> []"
  proof -
    have t: "\<exists>t. total k ?g = Inr t" if "k \<in> set FIELDS" for k
      by (rule total_full) (use c g that in blast)
    have rng: "\<exists>vs. rmap (counter ''rng_output_bytes'') ?g = Inr vs"
    proof -
      have "\<forall>r \<in> set ?g. \<exists>v. counter ''rng_output_bytes'' r = Inr v" using c g by blast
      then obtain h where "\<forall>r \<in> set ?g. counter ''rng_output_bytes'' r = Inr (h r)" by metis
      then show ?thesis using rmap_Inr [of ?g _ h] by auto
    qed
    have "\<exists>v. counter ''pool_credit_bits_post'' (last ?g) = Inr v" "\<exists>v. counter ''pool_credit_bits_pre'' (hd ?g) = Inr v"
      using c g that in_fields(5,6) by (meson insertCI last_in_set list.set_sel(1) subsetD)+
    then show ?thesis
      using rng t [OF in_fields(8)] t [OF in_fields(7)] t [OF in_fields(3)] t [OF in_fields(4)] t [OF in_fields(9)] t [OF in_fields(10)]
      by (auto simp: renewal_figures_def Let_def)
  qed
  then obtain figs where "(if ?g = [] then Inr [] else renewal_figures gap ?g) = Inr figs" by (cases "?g = []") auto
  then show ?thesis by (simp only: summarize_renewal_def ps gap rbind_Inr Let_def successful [OF ps]) simp
qed

lemma derived_output: "derive_counters row = Inr cs \<Longrightarrow> \<exists>v. dict_get cs ''rng_output_bytes'' = Some v"
  by (auto simp: derive_counters_def result_simps)

lemma parsed_rows_output:
  assumes "parse_renewal_log text = Inr lg" and "r \<in> set (rl_rows lg)"
  shows "\<exists>v. dict_get (counters r) ''rng_output_bytes'' = Some v"
proof -
  obtain gap rows where "derive_rows gap 0 rows = Inr (rl_rows lg)"
    using assms(1) by (auto simp: parse_renewal_log_def add_derived_fields_def result_simps)
  from derive_rows_each [OF this assms(2)] show ?thesis
    using derived_output by blast
qed

lemma length_filter_split:
  assumes "\<And>i. \<not> p i \<Longrightarrow> \<not> q i"
  shows "length (filter p xs) = length (filter (\<lambda>i. p i \<and> q i) xs) + length (filter (\<lambda>i. p i \<and> \<not> q i) xs)"
    and "length (filter (\<lambda>i. \<not> q i) xs) = length (filter (\<lambda>i. p i \<and> \<not> q i) xs) + length (filter (\<lambda>i. \<not> p i) xs)"
  using assms by (induction xs) auto

lemma good_rows_results:
  assumes "list_all2 (\<lambda>i r. dict_get (counters r) ''ret'' = Some (f i)) is rs"
  shows "length (good_rows rs) = length (filter (\<lambda>i. f i = 0) is)"
  using assms unfolding good_rows_def by (induction rule: list_all2_induct) auto

text \<open>
  C38: Failures before the exchange are not in the counts. For every run of the firmware that gets to its iterations, the parser's
  summary counts as logged exactly the performed iterations that got as far as the exchange, as
  successful those of them with result 0 and as failed those of them with another result. Every
  failing iteration, wherever it failed, has one warning; so the stated number of failures falls
  short of the number of warnings by exactly the performed iterations that failed before their exchange
  (no DTLS context, no socket or no session).
\<close>

theorem failures_not_counted:
  assumes "build_ok b" and "run_started w" and "P = performed w [0..<rb_iterations b]"
  shows "\<exists>lg s. parse_renewal_log (device_log b w) = Inr lg \<and> summarize_renewal lg = Inr s
    \<and> su_logged s = length (filter (\<lambda>i. reaches_exchange b (rw_run w i)) P)
    \<and> su_ok s = length (filter (\<lambda>i. reaches_exchange b (rw_run w i) \<and> iteration_ret b w i = 0) P)
    \<and> su_failed s = int (length (filter (\<lambda>i. reaches_exchange b (rw_run w i) \<and> iteration_ret b w i \<noteq> 0) P))
    \<and> length (failed_warnings (su_warnings s)) = length (filter (\<lambda>i. iteration_ret b w i \<noteq> 0) P)
    \<and> su_failed s = int (length (failed_warnings (su_warnings s)))
         - int (length (filter (\<lambda>i. \<not> reaches_exchange b (rw_run w i)) P))"
proof -
  let ?R = "filter (\<lambda>i. reaches_exchange b (rw_run w i)) P"
  obtain lg where lg: "parse_renewal_log (device_log b w) = Inr lg" "inter_ms (rl_meta lg) = Inr (rb_pause_ms b)"
    and rows: "list_all2 (\<lambda>i r. \<exists>len accepted. \<forall>k < 22. dict_get (counters r) (FIELDS ! k)
           = Some (iter_values b (rw_run w i) (int i) (iteration_ret b w i) len accepted ! k)) ?R (rl_rows lg)"
    and warned: "length (failed_warnings (rl_warnings lg)) = length (filter (\<lambda>i. iteration_ret b w i \<noteq> 0) P)"
    using device_log_read [OF assms(1,2)] by (auto simp: assms(3))
  have "\<forall>r \<in> set (rl_rows lg). full_row (counters r)"
  proof
    fix r assume "r \<in> set (rl_rows lg)"
    then obtain n where "n < length (rl_rows lg)" "r = rl_rows lg ! n" by (metis in_set_conv_nth)
    then have "\<forall>k < 22. \<exists>v. dict_get (counters r) (FIELDS ! k) = Some v"
      using list_all2_nthD2 [OF rows] by fastforce
    then show "full_row (counters r)" by (auto simp: full_row_def in_set_conv_nth)
  qed
  then obtain s where s: "summarize_renewal lg = Inr s" "su_logged s = length (rl_rows lg)" "su_ok s = length (good_rows (rl_rows lg))"
    "su_failed s = int (length (rl_rows lg)) - int (length (good_rows (rl_rows lg)))" "su_warnings s = rl_warnings lg"
    using summary_full [OF _ lg(2)] parsed_rows_output [OF lg(1)] by blast
  have f: "FIELDS ! 1 = ''ret''" by (simp add: FIELDS_def BASE_FIELDS_def)
  have "iter_values b h i ret len accepted ! 1 = ret" for h i ret len accepted by (simp add: iter_values_def Let_def)
  then have "list_all2 (\<lambda>i r. dict_get (counters r) ''ret'' = Some (iteration_ret b w i)) ?R (rl_rows lg)"
  proof (rule_tac list_all2_mono [OF rows])
    fix i r
    assume v: "\<And>h i ret len accepted. iter_values b h i ret len accepted ! 1 = ret"
      and "\<exists>len accepted. \<forall>k < 22. dict_get (counters r) (FIELDS ! k)
         = Some (iter_values b (rw_run w i) (int i) (iteration_ret b w i) len accepted ! k)"
    then obtain len accepted where "dict_get (counters r) (FIELDS ! 1)
        = Some (iter_values b (rw_run w i) (int i) (iteration_ret b w i) len accepted ! 1)" by auto
    then show "dict_get (counters r) ''ret'' = Some (iteration_ret b w i)" unfolding f v .
  qed
  from good_rows_results [OF this] have g: "length (good_rows (rl_rows lg)) = length (filter (\<lambda>i. iteration_ret b w i = 0) ?R)" .
  have l: "length (rl_rows lg) = length ?R" using list_all2_lengthD [OF rows] by simp
  have "\<And>i. \<not> reaches_exchange b (rw_run w i) \<Longrightarrow> iteration_ret b w i \<noteq> 0"
    unfolding iteration_ret_def by (rule unreached_fails [OF assms(1)])
  note split = length_filter_split [of "\<lambda>i. reaches_exchange b (rw_run w i)" "\<lambda>i. iteration_ret b w i = 0", OF this]
  show ?thesis
  proof (intro exI conjI)
    have c: "filter (\<lambda>i. iteration_ret b w i = 0) ?R = filter (\<lambda>i. reaches_exchange b (rw_run w i) \<and> iteration_ret b w i = 0) P"
      by (simp add: conj_commute)
    show "su_logged s = length ?R" using s(2) l by (rule trans)
    show "su_ok s = length (filter (\<lambda>i. reaches_exchange b (rw_run w i) \<and> iteration_ret b w i = 0) P)"
      using s(3) g unfolding c by (rule trans)
    show failed: "su_failed s = int (length (filter (\<lambda>i. reaches_exchange b (rw_run w i) \<and> iteration_ret b w i \<noteq> 0) P))"
      using s(4) l g split(1) [of P] unfolding c by linarith
    show warns: "length (failed_warnings (su_warnings s)) = length (filter (\<lambda>i. iteration_ret b w i \<noteq> 0) P)"
      unfolding s(5) by (rule warned)
    show "su_failed s = int (length (failed_warnings (su_warnings s)))
         - int (length (filter (\<lambda>i. \<not> reaches_exchange b (rw_run w i)) P))"
      unfolding failed warns using split(2) [of P] by linarith
  qed (rule lg(1), rule s(1))
qed

section \<open>A small run\<close>

definition demo_build :: renewal_build where
  "demo_build = \<lparr>rb_iterations = 2, rb_warmup = 1, rb_pause_ms = 1000, rb_inject_every = Some 1, rb_entropy_bytes = 32,
     rb_server = ''10.0.0.1'', rb_port = 5684, rb_group = ''P-256'', rb_version = ''5'', rb_driver = ''trng'', rb_kex = ''X25519'',
     rb_mldsa = False, rb_skip_verify = True, rb_no_refill = False, rb_errno = (\<lambda>e. 5), rb_cyc_to_us = (\<lambda>c. c)\<rparr>"

definition demo_pool :: "64 word \<Rightarrow> pool_stats" where
  "demo_pool n = \<lparr>timestamp_us = n, total_hw_bytes = n, total_external_bytes = n, total_pool_debit_bytes = n, total_thread_get_bytes = n,
     total_isr_get_bytes = n, total_fast_refill_bytes = n, credited_pool_bits = 0\<rparr>"

definition demo_handshake :: "ctx_step option \<Rightarrow> handshake" where
  "demo_handshake c = \<lparr>hs_ctx = c, hs_fd = 3, hs_fd_errno = 0, hs_connect = 0, hs_connect_errno = 0, hs_ssl = True, hs_configured = True,
     hs_handshake = True, hs_error = 0, hs_write = 7, hs_read = (\<lambda>n. 20), hs_add = 0, hs_pre = demo_pool 4, hs_post = demo_pool 9,
     hs_calls = [GenerateBlock 32 1 5 0], hs_start = 0xFFFFFFFF, hs_end = 9\<rparr>"

definition demo_renewal_world :: "(nat \<Rightarrow> ctx_step option) \<Rightarrow> renewal_world" where
  "demo_renewal_world c = \<lparr>rw_device_ready = True, rw_boot = None, rw_heap = (\<lambda>l. None), rw_init = 1, rw_init_ok = 1, rw_address = True, rw_wifi = 0,
     rw_wifi_wait = 0, rw_warm = (\<lambda>i. demo_handshake None), rw_run = (\<lambda>i. demo_handshake (c i)), rw_connected = (\<lambda>i. True),
     rw_reconnect = (\<lambda>i. 0)\<rparr>"

lemma demo_build_ok: "build_ok demo_build" "run_started (demo_renewal_world c)"
  by (simp_all add: build_ok_def demo_build_def clean_text_def literal_chars run_started_def demo_renewal_world_def)


theorem failures_not_counted_witness:
  "\<exists>lg s. parse_renewal_log (device_log demo_build (demo_renewal_world (\<lambda>i. if i = 0 then Some Cipher_List else None))) = Inr lg
     \<and> summarize_renewal lg = Inr s \<and> su_logged s = 1 \<and> su_ok s = 1 \<and> su_failed s = 0
     \<and> length (failed_warnings (su_warnings s)) = 1"
proof -
  let ?w = "demo_renewal_world (\<lambda>i. if i = 0 then Some Cipher_List else None)"
  have p: "[0, 1] = performed ?w [0..<rb_iterations demo_build]"
    by (simp add: demo_renewal_world_def demo_build_def upt_rec)
  have f: "reaches_exchange demo_build (rw_run ?w 1)" "\<not> reaches_exchange demo_build (rw_run ?w 0)"
    by (simp_all add: demo_renewal_world_def reaches_exchange_def create_dtls_ctx_def create_connected_udp_socket_def demo_handshake_def)
  have r: "iteration_ret demo_build ?w 0 = - 5" "iteration_ret demo_build ?w 1 = 0" by code_simp+
  show ?thesis
    using failures_not_counted [OF demo_build_ok p] by (simp only: filter.simps f r) auto
qed

end
