(* ===== verification/PufDevice.thy ===== *)
theory PufDevice
  imports PufAnalysis Codec "HOL-Library.Word"
begin

unbundle bit_operations_syntax

text \<open>
  The capture at boot of the capsule firmware (\<open>teb_puf.c\<close>): the counts and the hashes of the
  uninitialised SRAM, the dump, the erasure of the area, and the timing samples. SHA-256 is a
  parameter (updates one after the other hash the concatenation), and so are the contents of the
  area at reset and the readings of the cycle counter. Facts: the counts are those of the bit windows, the area is erased, the
  dump is what the analysis reads, and the timing figures bound each other.
\<close>

section \<open>The capture\<close>

function popcount8_loop :: "byte \<Rightarrow> byte \<Rightarrow> byte" where
  "popcount8_loop v c = (if v = 0 then c else popcount8_loop (drop_bit 1 v) (c + (v AND 1)))"
  by pat_completeness auto
termination
proof (relation "measure (\<lambda>(v, c). unat v)")
  fix v c :: byte assume "v \<noteq> 0"
  then have "0 < unat v" by (simp add: unat_gt_0)
  then show "((drop_bit 1 v, c + (v AND 1)), (v, c)) \<in> measure (\<lambda>(v, c). unat v)"
    by (simp add: drop_bit_eq_div unat_div_distrib)
qed simp

declare popcount8_loop.simps [simp del]

definition popcount8 :: "byte \<Rightarrow> byte" where
  "popcount8 v = popcount8_loop v 0"

definition SECRET_LABEL :: string where "SECRET_LABEL = ''TEB SRAM PUF secret v1''"
definition COMMITMENT_LABEL :: string where "COMMITMENT_LABEL = ''TEB SRAM PUF commitment v1''"
definition TIMING_LABEL :: string where "TIMING_LABEL = ''TEB timing fingerprint v1''"
definition TIMING_COMMITMENT_LABEL :: string where "TIMING_COMMITMENT_LABEL = ''TEB timing commitment v1''"

definition hash_labelled :: "(bytes \<Rightarrow> bytes) \<Rightarrow> string \<Rightarrow> bytes \<Rightarrow> bytes" where
  "hash_labelled sha label buf = sha (ascii_bytes label @ buf)"

record puf_sample =
  sram_secret :: bytes
  sram_commitment :: bytes
  timing_secret :: bytes
  timing_commitment :: bytes
  sram_ones :: "32 word"
  sram_transitions :: "32 word"
  timing_min_delta :: "32 word"
  timing_max_delta :: "32 word"
  timing_sum_delta :: "64 word"

text \<open>The state of the first loop: the two counts, the byte before, and what was hashed.\<close>

record sram_scan =
  sc_ones :: "32 word"
  sc_transitions :: "32 word"
  sc_prev :: "byte option"
  sc_hashed :: bytes

definition sram_step :: "byte \<Rightarrow> sram_scan \<Rightarrow> sram_scan" where
  "sram_step b s =
     \<lparr>sc_ones = sc_ones s + ucast (popcount8 b),
      sc_transitions = (case sc_prev s of None \<Rightarrow> sc_transitions s | Some p \<Rightarrow> sc_transitions s + ucast (popcount8 (p XOR b))),
      sc_prev = Some b, sc_hashed = sc_hashed s @ [b]\<rparr>"

text \<open>The sample, the printed lines, and the area that is left.\<close>

definition erased_area :: "nat \<Rightarrow> bytes" where
  "erased_area n = map (\<lambda>i. 0xA5 XOR word_of_nat i) [0..<n]"

definition capture_sram :: "(bytes \<Rightarrow> bytes) \<Rightarrow> bool \<Rightarrow> bytes \<Rightarrow> puf_sample \<Rightarrow> puf_sample \<times> log_item list \<times> bytes" where
  "capture_sram sha dump area out =
     (let s = fold sram_step area \<lparr>sc_ones = 0, sc_transitions = 0, sc_prev = None, sc_hashed = ascii_bytes SECRET_LABEL\<rparr>;
          secret = sha (sc_hashed s)
      in (out\<lparr>sram_ones := sc_ones s, sram_transitions := sc_transitions s, sram_secret := secret,
             sram_commitment := hash_labelled sha COMMITMENT_LABEL secret\<rparr>,
          if dump then [Dump area] else [], erased_area (length area)))"

text \<open>The arithmetic between two readings of the counter.\<close>

definition sink_after :: "nat \<Rightarrow> 32 word \<Rightarrow> 32 word" where
  "sink_after i sink = fold (\<lambda>j s. s XOR (word_of_nat i + 1) * (word_of_nat j + 17)) [0..<64] sink"

record timing_scan =
  ts_min :: "32 word"
  ts_max :: "32 word"
  ts_sum :: "64 word"
  ts_hashed :: bytes
  ts_sink :: "32 word"

definition timing_step :: "nat \<times> 32 word \<times> 32 word \<Rightarrow> timing_scan \<Rightarrow> timing_scan" where
  "timing_step x s =
     (case x of (i, start, end) \<Rightarrow>
        let delta = end - start
        in \<lparr>ts_min = (if delta < ts_min s then delta else ts_min s), ts_max = (if ts_max s < delta then delta else ts_max s),
            ts_sum = ts_sum s + ucast delta, ts_hashed = ts_hashed s @ be_bytes 4 (unat delta), ts_sink = sink_after i (ts_sink s)\<rparr>)"

definition capture_timing :: "(bytes \<Rightarrow> bytes) \<Rightarrow> (32 word \<times> 32 word) list \<Rightarrow> puf_sample \<Rightarrow> puf_sample" where
  "capture_timing sha readings out =
     (let s = fold timing_step (zip [0..<length readings] readings)
            \<lparr>ts_min = 0xFFFFFFFF, ts_max = 0, ts_sum = 0, ts_hashed = ascii_bytes TIMING_LABEL, ts_sink = 0\<rparr>;
          secret = sha (ts_hashed s @ le_bytes 4 (unat (ts_sink s)))
      in out\<lparr>timing_min_delta := ts_min s, timing_max_delta := ts_max s, timing_sum_delta := ts_sum s, timing_secret := secret,
             timing_commitment := hash_labelled sha TIMING_COMMITMENT_LABEL secret\<rparr>)"

definition empty_sample :: puf_sample where
  "empty_sample = \<lparr>sram_secret = replicate 32 0, sram_commitment = replicate 32 0, timing_secret = replicate 32 0,
     timing_commitment = replicate 32 0, sram_ones = 0, sram_transitions = 0, timing_min_delta = 0, timing_max_delta = 0,
     timing_sum_delta = 0\<rparr>"

definition teb_puf_capture ::
    "(bytes \<Rightarrow> bytes) \<Rightarrow> bool \<Rightarrow> bytes \<Rightarrow> (32 word \<times> 32 word) list \<Rightarrow> puf_sample \<times> log_item list \<times> bytes" where
  "teb_puf_capture sha dump area readings =
     (case capture_sram sha dump area empty_sample of (out, ls, area') \<Rightarrow> (capture_timing sha readings out, ls, area'))"


section \<open>Counting\<close>

lemma bit_count_drop: "bit_count v = (if bit v 0 then 1 else 0) + bit_count (drop_bit 1 v)"
proof -
  have u: "[0..<8] = 0 # map Suc [0..<7]" and e: "[0..<8] = [0..<7] @ [7 :: nat]" by (simp_all add: map_Suc_upt upt_rec)
  have "\<not> bit (drop_bit 1 v) 7" using bit_imp_le_length [of v 8] by (auto simp: bit_drop_bit_eq)
  then have "length (filter (bit (drop_bit 1 v)) [0..<8]) = length (filter (\<lambda>n. bit v (Suc n)) [0..<7])"
    unfolding e by (simp add: bit_drop_bit_eq comp_def)
  then show ?thesis by (simp add: bit_count_def u filter_map comp_def)
qed

lemma popcount8_loop_eq: "popcount8_loop v c = c + word_of_nat (bit_count v)"
proof (induction v c rule: popcount8_loop.induct)
  case (1 v c)
  show ?case
  proof (cases "v = 0")
    case False
    have "v AND 1 = (if bit v 0 then 1 else 0)" by (simp add: and_one_eq bit_0 mod_2_eq_odd)
    then show ?thesis
      using 1 [OF False] False by (subst popcount8_loop.simps) (simp add: bit_count_drop [of v])
  qed (simp add: popcount8_loop.simps)
qed

lemma popcount8_correct: "popcount8 v = word_of_nat (bit_count v)"
  by (simp add: popcount8_def popcount8_loop_eq)

lemma popcount8_wide: "(ucast (popcount8 v) :: 32 word) = word_of_nat (bit_count v)"
proof -
  have "unat (popcount8 v) = bit_count v"
    using bit_count_le [of v] by (simp add: popcount8_correct unat_of_nat take_bit_eq_mod)
  moreover have "(ucast (popcount8 v) :: 32 word) = word_of_nat (unat (popcount8 v))" by (simp only: of_nat_unat)
  ultimately show ?thesis by simp
qed

text \<open>The scan as a whole.\<close>

lemma sram_fold:
  "fold sram_step bs s = \<lparr>sc_ones = sc_ones s + word_of_nat (sum_list (map bit_count bs)),
     sc_transitions = sc_transitions s + word_of_nat (case sc_prev s of None \<Rightarrow> xor_count bs (tl bs) | Some p \<Rightarrow> xor_count (p # bs) bs),
     sc_prev = (if bs = [] then sc_prev s else Some (last bs)), sc_hashed = sc_hashed s @ bs\<rparr>"
proof (induction bs arbitrary: s)
  case (Cons b bs)
  then show ?case
    by (simp add: sram_step_def popcount8_wide split: option.split)
qed (simp add: xor_count_def split: option.split)


lemma unat_word32: "n < 2 ^ 32 \<Longrightarrow> unat (word_of_nat n :: 32 word) = n"
  by (simp add: unat_of_nat take_bit_eq_mod)

lemma bits_of_bytes: "sum_list (map bit_count bs) \<le> 8 * length bs"
  by (induction bs) (simp_all add: add_mono bit_count_le)

text \<open>
  C39: The capture is exact and erases its source. For every content of the SRAM area and every size below half a
  gigabyte, the printed counts are the number of set bits and the number of bits in which
  neighbouring bytes differ, without wrapping around; the secret is the hash of the area under its
  label and the commitment the hash of the secret; a build that dumps prints the area itself; and
  the area that is left has the same bytes whatever it held before.
\<close>

theorem sram_capture_exact:
  assumes "8 * length area < 2 ^ 32"
  shows "case teb_puf_capture sha dump area readings of (s, ls, left) \<Rightarrow>
     unat (sram_ones s) = length (filter (\<lambda>b. b) (window_bits area))
     \<and> unat (sram_transitions s) = xor_count area (tl area)
     \<and> sram_secret s = sha (ascii_bytes SECRET_LABEL @ area)
     \<and> sram_commitment s = sha (ascii_bytes COMMITMENT_LABEL @ sram_secret s)
     \<and> concat (map item_dumps ls) = (if dump then [area] else [])
     \<and> left = erased_area (length area)"
proof -
  have ones: "length (filter (\<lambda>b. b) (window_bits area)) = sum_list (map bit_count area)"
    by (simp add: count_window_bits)
  have "sum_list (map bit_count area) < 2 ^ 32" using bits_of_bytes [of area] assms by linarith
  moreover have "xor_count area (tl area) < 2 ^ 32" using xor_count_bound [of area "tl area"] assms by linarith
  ultimately show ?thesis
    unfolding ones
    by (simp add: teb_puf_capture_def capture_sram_def capture_timing_def sram_fold Let_def hash_labelled_def unat_word32)
qed

text \<open>The differences of the readings.\<close>

definition deltas :: "(32 word \<times> 32 word) list \<Rightarrow> nat list" where
  "deltas readings = map (\<lambda>(start, end). unat (end - start)) readings"

lemma word_min: "unat (if a < b then a else b) = min (unat a) (unat b)" for a b :: "'a :: len word"
  by (simp add: word_less_nat_alt min_def)

lemma word_max: "unat (if b < a then a else b) = max (unat b) (unat a)" for a b :: "'a :: len word"
  by (simp add: word_less_nat_alt max_def)

lemma timing_fold:
  "unat (ts_min (fold timing_step xs s)) = fold min (deltas (map snd xs)) (unat (ts_min s))
   \<and> unat (ts_max (fold timing_step xs s)) = fold max (deltas (map snd xs)) (unat (ts_max s))
   \<and> ts_sum (fold timing_step xs s) = ts_sum s + word_of_nat (sum_list (deltas (map snd xs)))"
proof (induction xs arbitrary: s)
  case (Cons x xs)
  obtain i start fin where x: "x = (i, start, fin)" by (cases x) auto
  have u: "(ucast (fin - start) :: 64 word) = word_of_nat (unat (fin - start))" by (simp only: of_nat_unat)
  show ?case
    using Cons [of "timing_step x s"]
    by (simp add: x timing_step_def Let_def deltas_def word_min word_max u min.commute max.commute add.assoc del: of_nat_unat)
qed (simp add: deltas_def)

lemma fold_min_le: "fold min xs (m :: nat) \<le> m" "x \<in> set xs \<Longrightarrow> fold min xs m \<le> x"
proof -
  show a: "fold min xs m \<le> m" for xs and m :: nat
  proof (induction xs arbitrary: m)
    case (Cons x xs)
    then show ?case using order_trans [OF Cons [of "min x m"] min.cobounded2] by simp
  qed simp
  show "x \<in> set xs \<Longrightarrow> fold min xs m \<le> x"
  proof (induction xs arbitrary: m)
    case (Cons y xs)
    then show ?case using order_trans [OF a min.cobounded1] by auto
  qed simp
qed

lemma fold_max_le: "m \<le> fold max xs (m :: nat)" "x \<in> set xs \<Longrightarrow> x \<le> fold max xs m"
proof -
  show a: "m \<le> fold max xs m" for xs and m :: nat
  proof (induction xs arbitrary: m)
    case (Cons x xs)
    then show ?case using order_trans [OF max.cobounded2 Cons [of "max x m"]] by simp
  qed simp
  show "x \<in> set xs \<Longrightarrow> x \<le> fold max xs m"
  proof (induction xs arbitrary: m)
    case (Cons y xs)
    then show ?case using order_trans [OF max.cobounded1 a] by auto
  qed simp
qed

lemma sum_between:
  assumes "\<And>x. x \<in> set xs \<Longrightarrow> lo \<le> x \<and> x \<le> (hi :: nat)"
  shows "length xs * lo \<le> sum_list xs \<and> sum_list xs \<le> length xs * hi"
  using assms by (induction xs) (simp_all add: add_mono)

text \<open>
  C40: The timing figures bound each other. For up to four billion samples, the sum that is printed is the sum
  of the differences of the cycle counter, each taken modulo its 32 bits, and does not wrap around;
  every difference is between the printed minimum and maximum, and so the mean is.
\<close>

theorem timing_figures_bounded:
  assumes "length readings \<le> 2 ^ 32"
  shows "case teb_puf_capture sha dump area readings of (s, ls, left) \<Rightarrow>
     unat (timing_sum_delta s) = sum_list (deltas readings)
     \<and> (\<forall>x \<in> set (deltas readings). unat (timing_min_delta s) \<le> x \<and> x \<le> unat (timing_max_delta s))
     \<and> length readings * unat (timing_min_delta s) \<le> unat (timing_sum_delta s)
     \<and> unat (timing_sum_delta s) \<le> length readings * unat (timing_max_delta s)"
proof -
  let ?init = "\<lparr>ts_min = 0xFFFFFFFF, ts_max = 0, ts_sum = 0, ts_hashed = ascii_bytes TIMING_LABEL, ts_sink = 0\<rparr> :: timing_scan"
  let ?s = "fold timing_step (zip [0..<length readings] readings) ?init"
  have f: "unat (ts_min ?s) = fold min (deltas readings) (unat (0xFFFFFFFF :: 32 word))" "unat (ts_max ?s) = fold max (deltas readings) 0"
    "ts_sum ?s = word_of_nat (sum_list (deltas readings))"
    using timing_fold [of "zip [0..<length readings] readings" ?init] by simp_all
  have b: "\<forall>x \<in> set (deltas readings). unat (ts_min ?s) \<le> x \<and> x \<le> unat (ts_max ?s)"
    using fold_min_le(2) fold_max_le(2) by (simp add: f)
  have small: "x < 2 ^ 32" if "x \<in> set (deltas readings)" for x
    using that by (auto simp: deltas_def intro: order_less_le_trans [OF unsigned_less])
  have len: "length (deltas readings) = length readings" by (simp add: deltas_def)
  have "sum_list (deltas readings) \<le> length readings * (2 ^ 32 - 1)"
    using sum_between [of "deltas readings" 0 "2 ^ 32 - 1"] small len by fastforce
  also have "\<dots> \<le> 2 ^ 32 * (2 ^ 32 - 1)" using assms by (intro mult_le_mono1)
  also have "\<dots> < 2 ^ 64" by simp
  finally have sum: "unat (ts_sum ?s) = sum_list (deltas readings)"
    by (simp add: f unat_of_nat take_bit_eq_mod)
  have "length readings * unat (ts_min ?s) \<le> sum_list (deltas readings)
      \<and> sum_list (deltas readings) \<le> length readings * unat (ts_max ?s)"
    using sum_between [of "deltas readings" "unat (ts_min ?s)" "unat (ts_max ?s)"] b len by auto
  then show ?thesis
    using sum b by (simp add: teb_puf_capture_def capture_sram_def capture_timing_def Let_def)
qed

text \<open>The serial log of several boots: before and after the capture of each, any lines that are no dumps.\<close>

definition boot_log_lines :: "(bytes \<Rightarrow> bytes) \<Rightarrow> string list \<times> bytes \<times> (32 word \<times> 32 word) list \<times> string list \<Rightarrow> log_item list" where
  "boot_log_lines sha boot = (case boot of (before, area, readings, after) \<Rightarrow>
     map Other_Line before @ fst (snd (teb_puf_capture sha True area readings)) @ map Other_Line after)"

lemma boot_log_lines_dump:
  "concat (map item_dumps (boot_log_lines sha (before, area, readings, after))) = [area]"
proof -
  have o: "concat (map item_dumps (map Other_Line ls)) = []" for ls by (induction ls) simp_all
  show ?thesis
    by (simp add: o boot_log_lines_def teb_puf_capture_def capture_sram_def Let_def del: map_map)
qed

text \<open>
  C23: The analysis gets the memory of every boot. For the serial log of any number of boots of a build that dumps, among any other
  lines that are no dumps, the PUF analysis ends normally, counts the boots, and its raw file is
  the contents that the SRAM area had at each boot, one after the other.
\<close>

theorem captured_boots_analysed:
  assumes "boots \<noteq> []" and "0 < n" and "list_all (\<lambda>(before, area, readings, after). length area = n
      \<and> list_all (\<lambda>s. unbroken s \<and> raw_match (strip s) = None) (before @ after)) boots"
  shows "\<exists>f files. puf_main opts (log_text (concat (map (boot_log_lines sha) boots))) = Inr (f, files)
     \<and> dict_get f ''samples'' = Some (FInt (int (length boots))) \<and> dict_get f ''bytes_per_sample'' = Some (FInt (int n))
     \<and> (\<forall>p. (p, Raw_Bin b) \<in> set files \<longleftrightarrow> opt_raw_bin opts = Some p \<and> b = concat (map (fst \<circ> snd) boots))"
proof -
  have ok: "list_all log_item_ok (boot_log_lines sha boot)" if "boot \<in> set boots" for boot
  proof -
    obtain before area readings after where boot: "boot = (before, area, readings, after)" by (cases boot) auto
    then have "length area = n \<and> (\<forall>s \<in> set (before @ after). unbroken s \<and> raw_match (strip s) = None)"
      using assms(3) [unfolded list_all_iff, rule_format, OF that] by (simp only: boot prod.case list_all_iff) blast
    then show ?thesis
      using assms(2) by (auto simp: boot boot_log_lines_def teb_puf_capture_def capture_sram_def Let_def list_all_iff [of log_item_ok])
  qed
  then have items: "list_all log_item_ok (concat (map (boot_log_lines sha) boots))"
    by (auto simp: list_all_iff)
  have d: "concat (map item_dumps (boot_log_lines sha boot)) = [fst (snd boot)]" for boot
    using boot_log_lines_dump by (cases boot) simp
  have dumps: "concat (map item_dumps (concat (map (boot_log_lines sha) bs))) = map (fst \<circ> snd) bs" for bs
    by (induction bs) (simp_all add: d)
  have "list_all (\<lambda>s. length s = n) (map (fst \<circ> snd) boots)" "map (fst \<circ> snd) boots \<noteq> []"
    using assms(1,3) by (auto simp: list_all_iff)
  from puf_log_read [OF items dumps this(2,1), of opts b] show ?thesis by simp
qed

section \<open>A small capture\<close>

theorem sram_capture_exact_witness:
  "case teb_puf_capture (\<lambda>b. b) True [0x0F, 0xFF] [(1, 9)] of (s, ls, left) \<Rightarrow>
     unat (sram_ones s) = 12 \<and> unat (sram_transitions s) = 4 \<and> concat (map item_dumps ls) = [[0x0F, 0xFF]] \<and> left = erased_area (Suc (Suc 0))"
proof -
  have "8 * length [0x0F, 0xFF :: byte] < 2 ^ 32" by simp
  moreover have "length (filter (\<lambda>b. b) (window_bits [0x0F, 0xFF])) = 12" "xor_count [0x0F, 0xFF] (tl [0x0F, 0xFF]) = 4"
    by code_simp+
  ultimately show ?thesis using sram_capture_exact [of "[0x0F, 0xFF]" "\<lambda>b. b" True "[(1, 9)]"] by auto
qed

theorem timing_figures_bounded_witness:
  "case teb_puf_capture (\<lambda>b. b) False [] [(1, 9), (0xFFFFFFFF, 3)] of (s, ls, left) \<Rightarrow>
     unat (timing_sum_delta s) = 12 \<and> unat (timing_min_delta s) \<le> 4 \<and> 8 \<le> unat (timing_max_delta s)"
proof -
  have "length [(1, 9), (0xFFFFFFFF, 3 :: 32 word)] \<le> 2 ^ 32" by simp
  moreover have "deltas [(1, 9), (0xFFFFFFFF, 3)] = [8, 4]" by (simp add: deltas_def)
  ultimately show ?thesis
    using timing_figures_bounded [of "[(1, 9), (0xFFFFFFFF, 3)]" "\<lambda>b. b" False "[]"] by auto
qed

theorem captured_boots_analysed_witness:
  "\<exists>f files. puf_main \<lparr>opt_summary = None, opt_csv = None, opt_distances = None, opt_raw_bin = Some ''r.bin'', opt_table = None, opt_figure = None\<rparr>
       (log_text (concat (map (boot_log_lines (\<lambda>b. b)) [([''boot''], [1, 2], [], []), ([], [1, 3], [(1, 9)], [''end''])]))) = Inr (f, files)
     \<and> dict_get f ''samples'' = Some (FInt 2) \<and> (''r.bin'', Raw_Bin [1, 2, 1, 3]) \<in> set files"
proof -
  let ?bs = "[([''boot''], [1, 2 :: byte], [] :: (32 word \<times> 32 word) list, []), ([], [1, 3], [(1, 9)], [''end''])]"
  have ok: "list_all (\<lambda>(before, area, readings, after). length area = 2
      \<and> list_all (\<lambda>s. unbroken s \<and> raw_match (strip s) = None) (before @ after)) ?bs"
    by (simp add: raw_match_def strip_def rstrip_def lstrip_def is_space_def code_def startswith_def RAW_TAG_def is_line_break_def)
  show ?thesis
    using captured_boots_analysed [OF _ _ ok, where b = "[1, 2, 1, 3]" and sha = "\<lambda>b. b" and opts = "\<lparr>opt_summary = None, opt_csv = None,
      opt_distances = None, opt_raw_bin = Some ''r.bin'', opt_table = None, opt_figure = None\<rparr>"] by auto
qed

end
