(* ===== verification/Spec2Isabelle.thy ===== *)
theory Spec2Isabelle
  imports AebUpload AebSources Capsule TebLog SramExperiment RebootPipeline BinaryCapture Restart RenewalLog PufAnalysis AebLog StimulusSender PqKeys TebCollect ProfileCompare ResultsTable UdpTraffic RenewalPlots AebPlot ResultsPlot RenewalDevice PufDevice
begin

text \<open>
  Verification of the host tools of the wireless boot-entropy experiments: the Python scripts
  that drive ESP32 boards, collect what the boards print or send, and analyse it; and of the
  parts of the firmware (\<open>main.c\<close> of the experiments) that talk to them.

  \<^bold>\<open>The program and how its parts interact.\<close> The repository holds five experiments. Each has a
  firmware, a collector on the host that talks to it over a serial line or UDP and leaves files,
  and scripts that read those files. The theories follow this order: what all scripts share, then
  one or more theories per script, then the composition of scripts that feed each other.

  \<^bold>\<open>Shared theories.\<close> \<open>Prelude\<close> (exceptions as values, sequencing, bytes, collections of rewrite
  rules), \<open>PyDict\<close> (ordered dictionaries, locale \<open>kv_store\<close>), \<open>PyText\<close>, \<open>PyNumber\<close>, \<open>PyPath\<close>
  (text, numbers, decoding and paths as Python has them), \<open>Codec\<close> (the \<open>struct\<close> formats, locale
  \<open>fixed_codec\<close>), \<open>Protocol\<close> (a datagram format with a builder and a parser, interpreted on the
  collector's and the capsule's formats), \<open>PyIO\<close> and \<open>PyHoare\<close> (steps with side effects, triples
  for them), \<open>PyRun\<close> (steps that may not return), \<open>Bits\<close> and \<open>Stats\<close> (bit windows, statistics).

  \<^bold>\<open>rf-actuated-boot-entropy.\<close> \<open>AebWire\<close>: the datagrams of \<open>aeb_collector.py\<close>. \<open>AebCollector\<close>:
  \<open>TrialState\<close>, the stimulus, the handlers of HELLO, raw, jitter and result datagrams, the
  finalisation of a trial, the receive loop. \<open>AebTrials\<close>: the invariant of its files and table.
  \<open>AebUpload\<close>: the device side (\<open>send_raw_stream\<close> of \<open>src/main.c\<close>) and the composition. \<open>AebSources\<close>:
  \<open>analyze_aeb_sources.py\<close> and its composition with the collector. \<open>AebLog\<close>: \<open>parse_aeb_log.py\<close>.
  \<open>AebPlot\<close>: \<open>plot_aeb_results.py\<close> and its composition with the collector. \<open>StimulusSender\<close>:
  \<open>stimulus_sender.py\<close>. \<open>RestartRun\<close> and \<open>Restart\<close>: \<open>run_restart_experiment.py\<close>, the model and its facts.

  \<^bold>\<open>entropy-capsule-bootstrap.\<close> \<open>Capsule\<close>: \<open>teb_beacon_server.py\<close> and the device's greeting and
  acceptance checks. \<open>TebCollect\<close>: \<open>collect_teb_boot.py\<close>. \<open>TebLog\<close>: \<open>parse_teb_boot_log.py\<close>, composed
  with the collector in \<open>TebCollect\<close>. \<open>ProfileCompare\<close>: \<open>compare_teb_boot_profiles.py\<close>. \<open>PqKeys\<close>:
  \<open>generate_pq_keys.py\<close>. \<open>PufAnalysis\<close>: \<open>analyze_puf_captures.py\<close>. \<open>PufDevice\<close>: the capture of the
  firmware (\<open>src/teb_puf.c\<close>) and its composition with that analysis.

  \<^bold>\<open>sram-startup-state.\<close> \<open>SramSerial\<close>: the serial protocol, host and firmware. \<open>SramStats\<close>: the
  figures. \<open>SramExperiment\<close>: \<open>run_experiment.py\<close>.

  \<^bold>\<open>esp32-rf-rng-state.\<close> \<open>RebootFiles\<close>, \<open>RebootStats\<close>, \<open>RebootSlices\<close>, \<open>RebootReport\<close>, \<open>RebootAnalysis\<close>:
  \<open>analyze_reboot_slices.py\<close>. \<open>RebootCollect\<close>, \<open>RebootDataset\<close>: \<open>collect_reboot_slices.py\<close>.
  \<open>RebootPipeline\<close>: the two together. \<open>BinaryCapture\<close>: \<open>capture_binary.py\<close>. \<open>ResultsTable\<close>:
  \<open>compare_results.py\<close>. \<open>ResultsPlot\<close>: \<open>plot_results.py\<close>, compared with the table. \<open>UdpTraffic\<close>:
  \<open>udp_burst_sender.py\<close> and \<open>udp_echo.py\<close>.

  \<^bold>\<open>entropy-renewal.\<close> \<open>RenewalLog\<close>: \<open>parse_renewal_log.py\<close>. \<open>RenewalDevice\<close>: the firmware
  (\<open>src/main.c\<close>, \<open>src/renewal_rng_wrap.c\<close>) as far as its serial log goes, composed with the parser.
  \<open>RenewalPlots\<close>: \<open>plot_renewal.py\<close>, composed with the parser.

  \<^bold>\<open>How the code is rendered.\<close> An exception is a value of \<open>py_error\<close> and a fallible function
  returns \<open>py_error + 'a\<close>; \<open>SystemExit\<close> is one of them. Bytes are \<open>8 word\<close>, Python integers \<open>int\<close>,
  dictionaries insertion-ordered association lists, classes and argument namespaces records. Code
  with effects is a function of its state: an \<open>io\<close> step returns an outcome and the state, a \<open>prog\<close>
  step may also give \<open>None\<close>, which means that it never returns. Text is a list of code points
  below 256; a byte sequence that is no UTF-8 gives a substitute character, a code point above
  255 is folded to one below that is neither white space nor a digit.

  \<^bold>\<open>What the lemmas show.\<close> Round trips and refinements: what a device sends is what the collector
  stores and the analysis reads, prints or plots (\<open>AebUpload\<close>, \<open>AebSources\<close>, \<open>AebPlot\<close>, \<open>SramSerial\<close>,
  \<open>RebootPipeline\<close>, \<open>TebCollect\<close>, \<open>RenewalDevice\<close>, \<open>RenewalPlots\<close>, \<open>PufDevice\<close>, the log parsers). Invariants: the files and the tables of a run agree on every way
  it ends (\<open>AebTrials\<close>, \<open>SramExperiment\<close>, \<open>RebootDataset\<close>, \<open>Restart\<close>). Safety: isolation of trials,
  binding of a capsule to its greeting, pacing, release of the port, the board and the server.
  Termination: the loops that wait for a clock or a device. Equivalence of chunked or
  optimised computations with the direct ones (\<open>RebootStats\<close>, \<open>PufAnalysis\<close>, \<open>PqKeys\<close>),
  and of two scripts that show the same data (\<open>ResultsTable\<close>, \<open>ResultsPlot\<close>). Error behaviour: what
  a lost chunk, a lost result, a torn line, a late trial, an unlogged failure or an unreadable value does.

  \<^bold>\<open>Bounds and fuel.\<close> The device's upload of the jitter values takes the number of values as fuel:
  each datagram carries at least one. The generator of \<open>PqKeys\<close> takes the number of bytes: each
  block stores at least one. The loops of \<open>RestartRun\<close> are functions whose termination is proved
  from the pauses, which move the clock. \<open>StimulusSender\<close>, \<open>TebCollect\<close> and \<open>UdpTraffic\<close> read the
  clock at every turn without a bound, so their loops are partial functions and that they return is
  a theorem, under a clock that passes every value. The read loop of \<open>RenewalDevice\<close> ends because every
  read that does not end it adds to the response.

  \<^bold>\<open>Parameters.\<close> SHA-256 and SHA-512, Ed25519, liboqs, random bytes and random samples, the
  clocks, the programs that are run and what they do, the contents of the file system where a
  script only reads it, the serial driver and what each read of a port returned, the datagrams
  that arrive, the text of a float, the chi-square tail of scipy and the error function.

  \<^bold>\<open>Not modelled.\<close> Console output, the parsing of command lines by \<open>argparse\<close> (the arguments are
  a record), the interruption by the user, the syntax of JSON and CSV files (a file is the value
  or the rows it holds), the drawing of figures with matplotlib (the values, texts and limits that are
  drawn are modelled), infinities and not-a-number (floats are
  reals), threads (the pump of a server's output, the UDP sender beside a capture), the delivery
  of datagrams by the network, the copies of input files, and the environment passed to build
  commands. Of the firmware, the radio, the entropy driver, Wi-Fi, the SRAM experiment's memory read at boot, key derivation and wolfSSL are
  hardware or third-party code; the post-quantum beacon server and the firmware that only streams
  the hardware generator are C programs that are left out. The shell scripts and build files
  only call the above.
\<close>

end
